(* ===== verification/Prelude.thy ===== *)
theory Prelude
  imports Main "HOL-Library.Word" "HOL-Library.Monad_Syntax"
begin

unbundle bit_operations_syntax

text \<open>
  Shared vocabulary of the development: the widths of the C integers, the
  little-endian layout of multi-byte fields (the datapath is an x86 program),
  loads and stores that fail outside of a buffer, and the lemmas on lists,
  options and words that the component theories use.
\<close>

section \<open>Machine integers\<close>

type_synonym u8 = "8 word"
type_synonym u16 = "16 word"
type_synonym u32 = "32 word"
type_synonym u64 = "64 word"
type_synonym bytes = "u8 list"

named_theorems mem_simps "loads and stores inside of a buffer"
named_theorems len_simps "operations that keep the length of a buffer"

definition lo8 :: "u16 \<Rightarrow> u8" where
  "lo8 x = ucast x"

definition hi8 :: "u16 \<Rightarrow> u8" where
  "hi8 x = ucast (drop_bit 8 x)"

definition lo16 :: "u32 \<Rightarrow> u16" where
  "lo16 x = ucast x"

definition hi16 :: "u32 \<Rightarrow> u16" where
  "hi16 x = ucast (drop_bit 16 x)"

text \<open>A 16-bit field at increasing addresses \<open>a\<close>, \<open>b\<close>, as the host loads it.\<close>

definition le16 :: "u8 \<Rightarrow> u8 \<Rightarrow> u16" where
  "le16 a b = of_nat (unat a + 256 * unat b)"

definition le32 :: "u16 \<Rightarrow> u16 \<Rightarrow> u32" where
  "le32 l h = of_nat (unat l + 65536 * unat h)"

definition htons :: "u16 \<Rightarrow> u16" where
  "htons x = le16 (hi8 x) (lo8 x)"

definition htonl :: "u32 \<Rightarrow> u32" where
  "htonl x = le32 (htons (hi16 x)) (htons (lo16 x))"

abbreviation ntohs :: "u16 \<Rightarrow> u16" where
  "ntohs \<equiv> htons"

abbreviation ntohl :: "u32 \<Rightarrow> u32" where
  "ntohl \<equiv> htonl"

lemma unat_less_2p: "unat (x :: ('a::len) word) < 2 ^ LENGTH('a)"
  by (rule unsigned_less)

lemma unat_eqI: "unat (x :: 'a::len word) = unat y \<Longrightarrow> x = y"
  by (rule unsigned_word_eqI)

lemma unat_lo8: "unat (lo8 x) = unat x mod 256"
  by (simp add: lo8_def unsigned_ucast_eq take_bit_eq_mod)

lemma unat_hi8: "unat (hi8 x) = unat x div 256"
proof -
  have "unat x div 256 < 256"
    using unat_less_2p [of x] by (simp add: less_mult_imp_div_less)
  then show ?thesis
    by (simp add: hi8_def unsigned_ucast_eq take_bit_eq_mod drop_bit_eq_div unat_div_distrib)
qed

lemma unat_lo16: "unat (lo16 x) = unat x mod 65536"
  by (simp add: lo16_def unsigned_ucast_eq take_bit_eq_mod)

lemma unat_hi16: "unat (hi16 x) = unat x div 65536"
proof -
  have "unat x div 65536 < 65536"
    using unat_less_2p [of x] by (simp add: less_mult_imp_div_less)
  then show ?thesis
    by (simp add: hi16_def unsigned_ucast_eq take_bit_eq_mod drop_bit_eq_div unat_div_distrib)
qed

lemma unat_byte_less: "unat (x :: u8) < 256"
  using unat_less_2p [of x] by simp

lemma unat_u16_less: "unat (x :: u16) < 65536"
  using unat_less_2p [of x] by simp

lemma unat_le16: "unat (le16 a b) = unat a + 256 * unat b"
proof -
  have "unat a + 256 * unat b < 65536"
    using unat_byte_less [of a] unat_byte_less [of b] by linarith
  then show ?thesis
    by (simp add: le16_def unsigned_of_nat take_bit_eq_mod del: of_nat_add of_nat_mult)
qed

lemma unat_le32: "unat (le32 l h) = unat l + 65536 * unat h"
proof -
  have "unat l + 65536 * unat h < 4294967296"
    using unat_u16_less [of l] unat_u16_less [of h] by linarith
  then show ?thesis
    by (simp add: le32_def unsigned_of_nat take_bit_eq_mod del: of_nat_add of_nat_mult)
qed

lemma le16_lo8_hi8 [simp]: "le16 (lo8 x) (hi8 x) = x"
  by (rule unat_eqI) (simp add: unat_le16 unat_lo8 unat_hi8)

lemma lo8_le16 [simp]: "lo8 (le16 a b) = a"
  by (rule unat_eqI) (simp add: unat_le16 unat_lo8 unat_byte_less)

lemma hi8_le16 [simp]: "hi8 (le16 a b) = b"
  by (rule unat_eqI) (simp add: unat_le16 unat_hi8 unat_byte_less)

lemma le32_lo16_hi16 [simp]: "le32 (lo16 x) (hi16 x) = x"
  by (rule unat_eqI) (simp add: unat_le32 unat_lo16 unat_hi16)

lemma lo16_le32 [simp]: "lo16 (le32 a b) = a"
  by (rule unat_eqI) (simp add: unat_le32 unat_lo16 unat_u16_less)

lemma hi16_le32 [simp]: "hi16 (le32 a b) = b"
  by (rule unat_eqI) (simp add: unat_le32 unat_hi16 unat_u16_less)

lemma htons_le16 [simp]: "htons (le16 a b) = le16 b a"
  by (simp add: htons_def)

lemma htons_htons [simp]: "htons (htons x) = x"
  by (simp add: htons_def)

lemma htons_inject [simp]: "htons x = htons y \<longleftrightarrow> x = y"
  by (metis htons_htons)

lemma htonl_htonl [simp]: "htonl (htonl x) = x"
  by (simp add: htonl_def)

lemma htonl_inject [simp]: "htonl x = htonl y \<longleftrightarrow> x = y"
  by (metis htonl_htonl)


text \<open>The bits of assembled and swapped words.\<close>

lemma bit_lo8: "bit (lo8 x) n \<longleftrightarrow> n < 8 \<and> bit x n"
  by (auto simp: lo8_def bit_simps)

lemma bit_hi8: "bit (hi8 x) n \<longleftrightarrow> n < 8 \<and> bit x (n + 8)"
  by (auto simp: hi8_def bit_simps add.commute dest: bit_imp_le_length)

lemma bit_lo16: "bit (lo16 x) n \<longleftrightarrow> n < 16 \<and> bit x n"
  by (auto simp: lo16_def bit_simps)

lemma bit_hi16: "bit (hi16 x) n \<longleftrightarrow> n < 16 \<and> bit x (n + 16)"
  by (auto simp: hi16_def bit_simps add.commute dest: bit_imp_le_length)

lemma le16_or: "le16 a b = ucast a OR push_bit 8 (ucast b)"
proof -
  have "(ucast a :: u16) AND push_bit 8 (ucast b) = 0"
    by (rule bit_word_eqI) (auto simp: bit_simps dest: bit_imp_le_length)
  then have "(ucast a :: u16) OR push_bit 8 (ucast b) = ucast a + push_bit 8 (ucast b)"
    by (simp add: disjunctive_add bit_eq_iff bit_simps)
  then show ?thesis by (simp add: le16_def push_bit_eq_mult)
qed

lemma le32_or: "le32 a b = ucast a OR push_bit 16 (ucast b)"
proof -
  have "(ucast a :: u32) AND push_bit 16 (ucast b) = 0"
    by (rule bit_word_eqI) (auto simp: bit_simps dest: bit_imp_le_length)
  then have "(ucast a :: u32) OR push_bit 16 (ucast b) = ucast a + push_bit 16 (ucast b)"
    by (simp add: disjunctive_add bit_eq_iff bit_simps)
  then show ?thesis by (simp add: le32_def push_bit_eq_mult)
qed

lemma bit_le16: "bit (le16 a b) n \<longleftrightarrow> (if n < 8 then bit a n else n < 16 \<and> bit b (n - 8))"
  by (auto simp: le16_or bit_simps dest: bit_imp_le_length)

lemma bit_le32: "bit (le32 a b) n \<longleftrightarrow> (if n < 16 then bit a n else n < 32 \<and> bit b (n - 16))"
  by (auto simp: le32_or bit_simps dest: bit_imp_le_length)

lemma htons_and: "htons (x AND y) = htons x AND htons y"
  by (rule bit_word_eqI) (auto simp: htons_def bit_le16 bit_lo8 bit_hi8 bit_simps)

lemma htonl_and: "htonl (x AND y) = htonl x AND htonl y"
  by (rule bit_word_eqI) (auto simp: htonl_def htons_def bit_le16 bit_lo8 bit_hi8 bit_le32 bit_lo16 bit_hi16 bit_simps)

lemma htonl_or: "htonl (x OR y) = htonl x OR htonl y"
  by (rule bit_word_eqI) (auto simp: htonl_def htons_def bit_le16 bit_lo8 bit_hi8 bit_le32 bit_lo16 bit_hi16 bit_simps)

lemma htonl_not: "htonl (NOT x) = NOT (htonl x)"
  by (rule bit_word_eqI) (auto simp: htonl_def htons_def bit_le16 bit_lo8 bit_hi8 bit_le32 bit_lo16 bit_hi16 bit_simps)

section \<open>Loads and stores\<close>

text \<open>
  A buffer is a list of bytes. An access that leaves the buffer is undefined
  behaviour in C; it is the result \<open>None\<close> here.
\<close>

definition ld8 :: "bytes \<Rightarrow> nat \<Rightarrow> u8 option" where
  "ld8 m i = (if i < length m then Some (m ! i) else None)"

definition ld16 :: "bytes \<Rightarrow> nat \<Rightarrow> u16 option" where
  "ld16 m i = (if i + 2 \<le> length m then Some (le16 (m ! i) (m ! (i + 1))) else None)"

definition ld32 :: "bytes \<Rightarrow> nat \<Rightarrow> u32 option" where
  "ld32 m i = (if i + 4 \<le> length m
     then Some (le32 (le16 (m ! i) (m ! (i + 1))) (le16 (m ! (i + 2)) (m ! (i + 3)))) else None)"

definition ldn :: "bytes \<Rightarrow> nat \<Rightarrow> nat \<Rightarrow> bytes option" where
  "ldn m i n = (if i + n \<le> length m then Some (take n (drop i m)) else None)"

definition stn :: "bytes \<Rightarrow> nat \<Rightarrow> bytes \<Rightarrow> bytes option" where
  "stn m i bs = (if i + length bs \<le> length m
     then Some (take i m @ bs @ drop (i + length bs) m) else None)"

definition st8 :: "bytes \<Rightarrow> nat \<Rightarrow> u8 \<Rightarrow> bytes option" where
  "st8 m i v = stn m i [v]"

definition st16 :: "bytes \<Rightarrow> nat \<Rightarrow> u16 \<Rightarrow> bytes option" where
  "st16 m i v = stn m i [lo8 v, hi8 v]"

definition st32 :: "bytes \<Rightarrow> nat \<Rightarrow> u32 \<Rightarrow> bytes option" where
  "st32 m i v = stn m i [lo8 (lo16 v), hi8 (lo16 v), lo8 (hi16 v), hi8 (hi16 v)]"

lemma stn_Some_iff: "stn m i bs = Some m' \<longleftrightarrow>
  i + length bs \<le> length m \<and> m' = take i m @ bs @ drop (i + length bs) m"
  by (auto simp: stn_def)

lemma length_stn [len_simps]: "stn m i bs = Some m' \<Longrightarrow> length m' = length m"
  by (auto simp: stn_Some_iff)

lemma length_st8 [len_simps]: "st8 m i v = Some m' \<Longrightarrow> length m' = length m"
  by (simp add: st8_def length_stn)

lemma length_st16 [len_simps]: "st16 m i v = Some m' \<Longrightarrow> length m' = length m"
  by (simp add: st16_def length_stn)

lemma length_st32 [len_simps]: "st32 m i v = Some m' \<Longrightarrow> length m' = length m"
  by (simp add: st32_def length_stn)

lemma nth_stn:
  assumes "stn m i bs = Some m'" and "j < length m"
  shows "m' ! j = (if i \<le> j \<and> j < i + length bs then bs ! (j - i) else m ! j)"
  using assms by (auto simp: stn_Some_iff nth_append min_def)

lemma ldn_stn_same: "stn m i bs = Some m' \<Longrightarrow> ldn m' i (length bs) = Some bs"
  by (auto simp: stn_Some_iff ldn_def)

lemma drop_stn: "stn m i bs = Some m' \<Longrightarrow> drop i m' = bs @ drop (i + length bs) m"
  by (auto simp: stn_Some_iff)

lemma take_stn: "stn m i bs = Some m' \<Longrightarrow> j \<le> i \<Longrightarrow> take j m' = take j m"
  by (auto simp: stn_Some_iff min_def)

lemma stn_defined: "i + length bs \<le> length m \<Longrightarrow> \<exists>m'. stn m i bs = Some m'"
  by (simp add: stn_def)

lemma ld16_st16_same: "st16 m i v = Some m' \<Longrightarrow> ld16 m' i = Some v"
  by (auto simp: st16_def stn_Some_iff ld16_def nth_append min_def)

lemma ld16_st16_other:
  assumes "st16 m i v = Some m'" and "j + 2 \<le> i \<or> i + 2 \<le> j"
  shows "ld16 m' j = ld16 m j"
  using assms by (auto simp: st16_def ld16_def nth_stn [unfolded st16_def] dest: length_stn)

text \<open>A region of a buffer, and what a store does to it.\<close>

definition seg :: "nat \<Rightarrow> nat \<Rightarrow> bytes \<Rightarrow> bytes" where
  "seg q n m = take n (drop q m)"

lemma length_seg [simp]: "q + n \<le> length m \<Longrightarrow> length (seg q n m) = n"
  by (simp add: seg_def)

lemma seg_stn_inside:
  assumes "stn m (q + i) bs = Some m'" and "i + length bs \<le> n" and "q + n \<le> length m"
  shows "stn (seg q n m) i bs = Some (seg q n m')"
proof -
  have m': "m' = take (q + i) m @ bs @ drop (q + i + length bs) m"
    using assms(1) by (simp add: stn_Some_iff)
  have "drop q m' = take i (drop q m) @ bs @ drop (i + length bs) (drop q m)"
    using assms(2,3) by (simp add: m' drop_take add.commute add.left_commute)
  then have "seg q n m' = take i (seg q n m) @ bs @ drop (i + length bs) (seg q n m)"
  proof -
    assume *: "drop q m' = take i (drop q m) @ bs @ drop (i + length bs) (drop q m)"
    have "min (length m - q) i = i" "min i n = i"
      using assms(2,3) by auto
    then show ?thesis
      using assms(2,3) unfolding seg_def * by (simp add: drop_take)
  qed
  then show ?thesis
    using assms(2,3) by (simp add: stn_Some_iff)
qed

lemma seg_stn_outside:
  assumes "stn m j bs = Some m'" and "j + length bs \<le> q \<or> q + n \<le> j"
  shows "seg q n m' = seg q n m"
proof (cases "j + length bs \<le> q")
  case True
  then show ?thesis
    using assms(1) by (auto simp: seg_def stn_Some_iff)
next
  case False
  then have "n \<le> j - q" "q \<le> j"
    using assms(2) by auto
  then show ?thesis
    using assms(1) by (auto simp: seg_def stn_Some_iff drop_take min_def)
qed

lemma seg_ldn: "ldn m (q + i) k = Some v \<Longrightarrow> i + k \<le> n \<Longrightarrow> q + n \<le> length m \<Longrightarrow>
  ldn (seg q n m) i k = Some v"
  by (auto simp: ldn_def seg_def drop_take min_def add.commute split: if_splits)

lemma ldn_seg: "ldn (seg q n m) i k = Some v \<Longrightarrow> q + n \<le> length m \<Longrightarrow> ldn m (q + i) k = Some v"
  by (auto simp: ldn_def seg_def drop_take min_def add.commute split: if_splits)

lemma nth_seg: "i < n \<Longrightarrow> q + n \<le> length m \<Longrightarrow> seg q n m ! i = m ! (q + i)"
  by (simp add: seg_def)

lemma ld16_seg: "i + 2 \<le> n \<Longrightarrow> q + n \<le> length m \<Longrightarrow> ld16 (seg q n m) i = ld16 m (q + i)"
  by (simp add: ld16_def nth_seg)

lemma ld8_seg: "i < n \<Longrightarrow> q + n \<le> length m \<Longrightarrow> ld8 (seg q n m) i = ld8 m (q + i)"
  by (simp add: ld8_def nth_seg)

lemma ld32_seg: "i + 4 \<le> n \<Longrightarrow> q + n \<le> length m \<Longrightarrow> ld32 (seg q n m) i = ld32 m (q + i)"
  by (simp add: ld32_def nth_seg add.assoc)

text \<open>A memory that differs from another only at the offsets of a set.\<close>

definition edits :: "nat set \<Rightarrow> bytes \<Rightarrow> bytes \<Rightarrow> bool" where
  "edits F m m' \<longleftrightarrow> length m' = length m \<and> (\<forall>i < length m. i \<notin> F \<longrightarrow> m' ! i = m ! i)"

lemma edits_refl [simp]: "edits F m m"
  by (simp add: edits_def)

lemma edits_trans: "edits F a b \<Longrightarrow> edits F b c \<Longrightarrow> edits F a c"
  by (auto simp: edits_def)

lemma edits_mono: "edits F a b \<Longrightarrow> F \<subseteq> G \<Longrightarrow> edits G a b"
  by (auto simp: edits_def)

lemma edits_stn: "stn m i bs = Some m' \<Longrightarrow> {i..<i + length bs} \<subseteq> F \<Longrightarrow> edits F m m'"
  by (auto simp: edits_def nth_stn length_stn)

lemma edits_length: "edits F m m' \<Longrightarrow> length m' = length m"
  by (simp add: edits_def)

lemma edits_seg:
  assumes "edits F m m'" and "{q..<q + n} \<inter> F = {}" and "q + n \<le> length m"
  shows "seg q n m' = seg q n m"
proof (rule nth_equalityI)
  show "length (seg q n m') = length (seg q n m)"
    using assms by (simp add: edits_length)
  fix i assume "i < length (seg q n m')"
  then have i: "i < n"
    using assms by (simp add: edits_length)
  then have "q + i \<in> {q..<q + n}"
    by simp
  then have "q + i \<notin> F"
    using assms(2) by blast
  then show "seg q n m' ! i = seg q n m ! i"
    using assms(1,3) i by (simp add: nth_seg edits_def)
qed

lemma edits_ld8: "edits F m m' \<Longrightarrow> i \<notin> F \<Longrightarrow> ld8 m' i = ld8 m i"
  by (auto simp: edits_def ld8_def)

lemma edits_ld16: "edits F m m' \<Longrightarrow> i \<notin> F \<Longrightarrow> i + 1 \<notin> F \<Longrightarrow> ld16 m' i = ld16 m i"
  by (auto simp: edits_def ld16_def)

lemma edits_ld32:
  "edits F m m' \<Longrightarrow> i \<notin> F \<Longrightarrow> i + 1 \<notin> F \<Longrightarrow> i + 2 \<notin> F \<Longrightarrow> i + 3 \<notin> F \<Longrightarrow> ld32 m' i = ld32 m i"
  by (auto simp: edits_def ld32_def)

lemma ld32_st32_same: "st32 m i v = Some m' \<Longrightarrow> ld32 m' i = Some v"
  by (auto simp: st32_def stn_Some_iff ld32_def nth_append min_def)

lemma ld8_st8_same: "st8 m i v = Some m' \<Longrightarrow> ld8 m' i = Some v"
  by (auto simp: st8_def stn_Some_iff ld8_def nth_append min_def)

section \<open>Zeroed memory\<close>

definition zeros :: "nat \<Rightarrow> bytes" where
  "zeros n = replicate n 0"

lemma length_zeros [simp]: "length (zeros n) = n"
  by (simp add: zeros_def)

section \<open>Errno values\<close>

text \<open>The Linux values; the datapath and the daemon exchange them in messages.\<close>

definition ENOENT :: int where "ENOENT = 2"
definition EAGAIN :: int where "EAGAIN = 11"
definition ENOMEM :: int where "ENOMEM = 12"
definition EBUSY :: int where "EBUSY = 16"
definition EEXIST :: int where "EEXIST = 17"
definition ENODEV :: int where "ENODEV = 19"
definition EINVAL :: int where "EINVAL = 22"
definition ENOSPC :: int where "ENOSPC = 28"
definition ENOBUFS :: int where "ENOBUFS = 105"
definition EDQUOT :: int where "EDQUOT = 122"
definition EOF :: int where "EOF = -1"

lemmas errno_defs = ENOENT_def EAGAIN_def ENOMEM_def EBUSY_def EEXIST_def ENODEV_def
  EINVAL_def ENOSPC_def ENOBUFS_def EDQUOT_def EOF_def

section \<open>Loops\<close>

text \<open>
  A C \<open>for\<close> loop from \<open>lo\<close> up to \<open>hi\<close> whose body threads a state.
\<close>

definition for_loop :: "nat \<Rightarrow> nat \<Rightarrow> (nat \<Rightarrow> 's \<Rightarrow> 's) \<Rightarrow> 's \<Rightarrow> 's" where
  "for_loop lo hi body s = fold body [lo..<hi] s"

lemma for_loop_empty [simp]: "hi \<le> lo \<Longrightarrow> for_loop lo hi body s = s"
  by (simp add: for_loop_def)

lemma for_loop_Suc: "lo \<le> hi \<Longrightarrow> for_loop lo (Suc hi) body s = body hi (for_loop lo hi body s)"
  by (simp add: for_loop_def)

lemma for_loop_inv:
  assumes "lo \<le> hi" and "P lo s"
    and "\<And>i s. lo \<le> i \<Longrightarrow> i < hi \<Longrightarrow> P i s \<Longrightarrow> P (Suc i) (body i s)"
  shows "P hi (for_loop lo hi body s)"
  using assms
proof (induction hi rule: dec_induct)
  case base
  then show ?case by simp
next
  case (step n)
  then show ?case by (simp add: for_loop_Suc)
qed

text \<open>The first index of an interval that satisfies a condition, as a search loop finds it.\<close>

definition find_from :: "nat \<Rightarrow> nat \<Rightarrow> (nat \<Rightarrow> bool) \<Rightarrow> nat option" where
  "find_from lo hi P = find P [lo..<hi]"

lemma find_from_Some_iff: "find_from lo hi P = Some i \<longleftrightarrow>
  lo \<le> i \<and> i < hi \<and> P i \<and> (\<forall>j. lo \<le> j \<and> j < i \<longrightarrow> \<not> P j)"
proof
  assume "find_from lo hi P = Some i"
  then obtain k where k: "k < hi - lo" "P (lo + k)" "i = lo + k" "\<forall>j<k. \<not> P (lo + j)"
    by (auto simp: find_from_def find_Some_iff)
  have "\<not> P j" if "lo \<le> j" "j < i" for j
    using k(3,4) that by (metis add_diff_inverse_nat linorder_not_le nat_add_left_cancel_less)
  with k show "lo \<le> i \<and> i < hi \<and> P i \<and> (\<forall>j. lo \<le> j \<and> j < i \<longrightarrow> \<not> P j)"
    by auto
next
  assume *: "lo \<le> i \<and> i < hi \<and> P i \<and> (\<forall>j. lo \<le> j \<and> j < i \<longrightarrow> \<not> P j)"
  then show "find_from lo hi P = Some i"
    unfolding find_from_def find_Some_iff by (intro exI [of _ "i - lo"]) auto
qed

lemma find_from_None_iff: "find_from lo hi P = None \<longleftrightarrow> (\<forall>i. lo \<le> i \<and> i < hi \<longrightarrow> \<not> P i)"
  by (auto simp: find_from_def find_None_iff)

end
