(* ===== verification/Crc32c.thy ===== *)
theory Crc32c
  imports Prelude
begin

text \<open>
  The table-driven CRC-32C of \<open>lib/crc32c.c\<close> that SCTP uses, and its equivalence with the bit-serial
  definition: the table holds the remainders of all bytes.
\<close>

section \<open>The code\<close>

definition crc32Table :: "u32 list" where
  "crc32Table = [
    0x00000000, 0xF26B8303, 0xE13B70F7, 0x1350F3F4,
    0xC79A971F, 0x35F1141C, 0x26A1E7E8, 0xD4CA64EB,
    0x8AD958CF, 0x78B2DBCC, 0x6BE22838, 0x9989AB3B,
    0x4D43CFD0, 0xBF284CD3, 0xAC78BF27, 0x5E133C24,
    0x105EC76F, 0xE235446C, 0xF165B798, 0x030E349B,
    0xD7C45070, 0x25AFD373, 0x36FF2087, 0xC494A384,
    0x9A879FA0, 0x68EC1CA3, 0x7BBCEF57, 0x89D76C54,
    0x5D1D08BF, 0xAF768BBC, 0xBC267848, 0x4E4DFB4B,
    0x20BD8EDE, 0xD2D60DDD, 0xC186FE29, 0x33ED7D2A,
    0xE72719C1, 0x154C9AC2, 0x061C6936, 0xF477EA35,
    0xAA64D611, 0x580F5512, 0x4B5FA6E6, 0xB93425E5,
    0x6DFE410E, 0x9F95C20D, 0x8CC531F9, 0x7EAEB2FA,
    0x30E349B1, 0xC288CAB2, 0xD1D83946, 0x23B3BA45,
    0xF779DEAE, 0x05125DAD, 0x1642AE59, 0xE4292D5A,
    0xBA3A117E, 0x4851927D, 0x5B016189, 0xA96AE28A,
    0x7DA08661, 0x8FCB0562, 0x9C9BF696, 0x6EF07595,
    0x417B1DBC, 0xB3109EBF, 0xA0406D4B, 0x522BEE48,
    0x86E18AA3, 0x748A09A0, 0x67DAFA54, 0x95B17957,
    0xCBA24573, 0x39C9C670, 0x2A993584, 0xD8F2B687,
    0x0C38D26C, 0xFE53516F, 0xED03A29B, 0x1F682198,
    0x5125DAD3, 0xA34E59D0, 0xB01EAA24, 0x42752927,
    0x96BF4DCC, 0x64D4CECF, 0x77843D3B, 0x85EFBE38,
    0xDBFC821C, 0x2997011F, 0x3AC7F2EB, 0xC8AC71E8,
    0x1C661503, 0xEE0D9600, 0xFD5D65F4, 0x0F36E6F7,
    0x61C69362, 0x93AD1061, 0x80FDE395, 0x72966096,
    0xA65C047D, 0x5437877E, 0x4767748A, 0xB50CF789,
    0xEB1FCBAD, 0x197448AE, 0x0A24BB5A, 0xF84F3859,
    0x2C855CB2, 0xDEEEDFB1, 0xCDBE2C45, 0x3FD5AF46,
    0x7198540D, 0x83F3D70E, 0x90A324FA, 0x62C8A7F9,
    0xB602C312, 0x44694011, 0x5739B3E5, 0xA55230E6,
    0xFB410CC2, 0x092A8FC1, 0x1A7A7C35, 0xE811FF36,
    0x3CDB9BDD, 0xCEB018DE, 0xDDE0EB2A, 0x2F8B6829,
    0x82F63B78, 0x709DB87B, 0x63CD4B8F, 0x91A6C88C,
    0x456CAC67, 0xB7072F64, 0xA457DC90, 0x563C5F93,
    0x082F63B7, 0xFA44E0B4, 0xE9141340, 0x1B7F9043,
    0xCFB5F4A8, 0x3DDE77AB, 0x2E8E845F, 0xDCE5075C,
    0x92A8FC17, 0x60C37F14, 0x73938CE0, 0x81F80FE3,
    0x55326B08, 0xA759E80B, 0xB4091BFF, 0x466298FC,
    0x1871A4D8, 0xEA1A27DB, 0xF94AD42F, 0x0B21572C,
    0xDFEB33C7, 0x2D80B0C4, 0x3ED04330, 0xCCBBC033,
    0xA24BB5A6, 0x502036A5, 0x4370C551, 0xB11B4652,
    0x65D122B9, 0x97BAA1BA, 0x84EA524E, 0x7681D14D,
    0x2892ED69, 0xDAF96E6A, 0xC9A99D9E, 0x3BC21E9D,
    0xEF087A76, 0x1D63F975, 0x0E330A81, 0xFC588982,
    0xB21572C9, 0x407EF1CA, 0x532E023E, 0xA145813D,
    0x758FE5D6, 0x87E466D5, 0x94B49521, 0x66DF1622,
    0x38CC2A06, 0xCAA7A905, 0xD9F75AF1, 0x2B9CD9F2,
    0xFF56BD19, 0x0D3D3E1A, 0x1E6DCDEE, 0xEC064EED,
    0xC38D26C4, 0x31E6A5C7, 0x22B65633, 0xD0DDD530,
    0x0417B1DB, 0xF67C32D8, 0xE52CC12C, 0x1747422F,
    0x49547E0B, 0xBB3FFD08, 0xA86F0EFC, 0x5A048DFF,
    0x8ECEE914, 0x7CA56A17, 0x6FF599E3, 0x9D9E1AE0,
    0xD3D3E1AB, 0x21B862A8, 0x32E8915C, 0xC083125F,
    0x144976B4, 0xE622F5B7, 0xF5720643, 0x07198540,
    0x590AB964, 0xAB613A67, 0xB831C993, 0x4A5A4A90,
    0x9E902E7B, 0x6CFBAD78, 0x7FAB5E8C, 0x8DC0DD8F,
    0xE330A81A, 0x115B2B19, 0x020BD8ED, 0xF0605BEE,
    0x24AA3F05, 0xD6C1BC06, 0xC5914FF2, 0x37FACCF1,
    0x69E9F0D5, 0x9B8273D6, 0x88D28022, 0x7AB90321,
    0xAE7367CA, 0x5C18E4C9, 0x4F48173D, 0xBD23943E,
    0xF36E6F75, 0x0105EC76, 0x12551F82, 0xE03E9C81,
    0x34F4F86A, 0xC69F7B69, 0xD5CF889D, 0x27A40B9E,
    0x79B737BA, 0x8BDCB4B9, 0x988C474D, 0x6AE7C44E,
    0xBE2DA0A5, 0x4C4623A6, 0x5F16D052, 0xAD7D5351
  ]"

definition crc32c_step :: "u8 \<Rightarrow> u32 \<Rightarrow> u32" where
  "crc32c_step x crc = (crc32Table ! unat ((crc XOR ucast x) AND 0xff)) XOR drop_bit 8 crc"

text \<open>The host is little-endian: the bytes are not swapped.\<close>

definition crc32c :: "bytes \<Rightarrow> u32" where
  "crc32c d = NOT (fold crc32c_step d 0xffffffff)"

section \<open>The reference\<close>

text \<open>One bit of the division by the reflected polynomial 0x1EDC6F41, and eight of them.\<close>

definition crc_bit :: "u32 \<Rightarrow> u32" where
  "crc_bit c = drop_bit 1 c XOR (if bit c 0 then 0x82F63B78 else 0)"

definition crc_bits :: "nat \<Rightarrow> u32 \<Rightarrow> u32" where
  "crc_bits n = crc_bit ^^ n"

definition crc32c_reference :: "bytes \<Rightarrow> u32" where
  "crc32c_reference d = NOT (fold (\<lambda>x crc. crc_bits 8 (crc XOR ucast x)) d 0xffffffff)"

section \<open>Linearity\<close>

lemma crc_bit_xor: "crc_bit (a XOR b) = crc_bit a XOR crc_bit b"
  by (rule bit_word_eqI) (auto simp: crc_bit_def bit_simps)

lemma crc_bits_xor: "crc_bits n (a XOR b) = crc_bits n a XOR crc_bits n b"
  by (induction n) (simp_all add: crc_bits_def crc_bit_xor)

lemma crc_bits_Suc: "crc_bits (Suc n) c = crc_bits n (crc_bit c)"
  by (simp add: crc_bits_def funpow_swap1)

lemma crc_bits_shift: "take_bit n c = 0 \<Longrightarrow> crc_bits n c = drop_bit n c"
proof (induction n arbitrary: c)
  case 0
  then show ?case by (simp add: crc_bits_def)
next
  case (Suc n)
  have low: "\<not> bit c i" if "i < Suc n" for i
    using that arg_cong [OF Suc.prems, of "\<lambda>w. bit w i"] by (auto simp: bit_simps)
  then have "crc_bit c = drop_bit 1 c"
    by (simp add: crc_bit_def)
  moreover have "take_bit n (drop_bit 1 c) = 0"
    using low by (intro bit_word_eqI) (auto simp: bit_simps)
  ultimately show ?case
    using Suc.IH [of "drop_bit 1 c"] by (simp add: crc_bits_Suc)
qed

section \<open>The table\<close>

text \<open>
  The second half of every power-of-two prefix of the table is the first half plus one remainder, so
  linearity reduces the 256 entries to the eight powers of two.
\<close>

lemma of_nat_add_xor:
  assumes "i < 2 ^ k" and "k < 32"
  shows "(word_of_nat (2 ^ k + i) :: u32) = word_of_nat i XOR 2 ^ k"
proof -
  have "take_bit k (word_of_nat i :: u32) = word_of_nat i"
    using assms(1) by (simp add: take_bit_of_nat take_bit_nat_eq_self)
  then have b: "\<not> bit (word_of_nat i :: u32) n" if "k \<le> n" for n
    using that by (metis bit_take_bit_iff not_less)
  have "(word_of_nat i :: u32) AND push_bit k 1 = 0"
    by (rule bit_word_eqI) (auto simp: b bit_and_iff bit_exp_iff)
  then have "(word_of_nat i :: u32) XOR push_bit k 1 = word_of_nat i + push_bit k 1"
    by (simp only: disjunctive_xor_eq_or disjunctive_add_eq_or)
  then show ?thesis by (simp add: add.commute)
qed

lemma table_double:
  assumes "take n t = map f [0..<n]" and "take n (drop n t) = map (\<lambda>x. x XOR c) (take n t)"
    and "\<And>i. i < n \<Longrightarrow> f (n + i) = f i XOR c"
  shows "take (n + n) t = map f [0..<n + n]"
proof -
  have "map f [n..<n + n] = map (\<lambda>i. f (n + i)) [0..<n]"
    by (rule nth_equalityI) simp_all
  also have "\<dots> = map (\<lambda>x. x XOR c) (map f [0..<n])"
    using assms(3) by simp
  finally show ?thesis
    using assms(1,2) take_add [of n n t] upt_add_eq_append [of 0 n n] by simp
qed

lemma crc_bits_8: "crc_bits 8 c =
  crc_bit (crc_bit (crc_bit (crc_bit (crc_bit (crc_bit (crc_bit (crc_bit c)))))))"
  by (simp add: crc_bits_def eval_nat_numeral)

lemma crc_bits_powers:
  "crc_bits 8 1 = 0xF26B8303"
  "crc_bits 8 0x2 = 0xE13B70F7"
  "crc_bits 8 0x4 = 0xC79A971F"
  "crc_bits 8 0x8 = 0x8AD958CF"
  "crc_bits 8 0x10 = 0x105EC76F"
  "crc_bits 8 0x20 = 0x20BD8EDE"
  "crc_bits 8 0x40 = 0x417B1DBC"
  "crc_bits 8 0x80 = 0x82F63B78"
  by (simp_all add: crc_bits_8 crc_bit_def)

lemma crc_bits_add:
  assumes "i < 2 ^ k" and "k < 32"
  shows "crc_bits 8 (word_of_nat (2 ^ k + i)) = crc_bits 8 (word_of_nat i) XOR crc_bits 8 (2 ^ k)"
  by (simp only: of_nat_add_xor [OF assms] crc_bits_xor)

definition crc_byte :: "nat \<Rightarrow> u32" where
  "crc_byte i = crc_bits 8 (word_of_nat i)"

lemma crc_byte_add:
  "i < 1 \<Longrightarrow> crc_byte (1 + i) = crc_byte i XOR 0xF26B8303"
  "i < 2 \<Longrightarrow> crc_byte (2 + i) = crc_byte i XOR 0xE13B70F7"
  "i < 4 \<Longrightarrow> crc_byte (4 + i) = crc_byte i XOR 0xC79A971F"
  "i < 8 \<Longrightarrow> crc_byte (8 + i) = crc_byte i XOR 0x8AD958CF"
  "i < 16 \<Longrightarrow> crc_byte (16 + i) = crc_byte i XOR 0x105EC76F"
  "i < 32 \<Longrightarrow> crc_byte (32 + i) = crc_byte i XOR 0x20BD8EDE"
  "i < 64 \<Longrightarrow> crc_byte (64 + i) = crc_byte i XOR 0x417B1DBC"
  "i < 128 \<Longrightarrow> crc_byte (128 + i) = crc_byte i XOR 0x82F63B78"
  using crc_bits_add [of i 0] crc_bits_add [of i 1] crc_bits_add [of i 2] crc_bits_add [of i 3] crc_bits_add [of i 4] crc_bits_add [of i 5] crc_bits_add [of i 6] crc_bits_add [of i 7]
  by (simp_all add: crc_byte_def crc_bits_powers)

lemma table_halves:
  "take 1 (drop 1 crc32Table) = map (\<lambda>x. x XOR 0xF26B8303) (take 1 crc32Table)"
  "take 2 (drop 2 crc32Table) = map (\<lambda>x. x XOR 0xE13B70F7) (take 2 crc32Table)"
  "take 4 (drop 4 crc32Table) = map (\<lambda>x. x XOR 0xC79A971F) (take 4 crc32Table)"
  "take 8 (drop 8 crc32Table) = map (\<lambda>x. x XOR 0x8AD958CF) (take 8 crc32Table)"
  "take 16 (drop 16 crc32Table) = map (\<lambda>x. x XOR 0x105EC76F) (take 16 crc32Table)"
  "take 32 (drop 32 crc32Table) = map (\<lambda>x. x XOR 0x20BD8EDE) (take 32 crc32Table)"
  "take 64 (drop 64 crc32Table) = map (\<lambda>x. x XOR 0x417B1DBC) (take 64 crc32Table)"
  "take 128 (drop 128 crc32Table) = map (\<lambda>x. x XOR 0x82F63B78) (take 128 crc32Table)"
  by (simp_all add: crc32Table_def)

lemma table_prefix: "take 256 crc32Table = map crc_byte [0..<256]"
proof -
  have t0: "take 1 crc32Table = map crc_byte [0..<1]"
    by (simp add: crc32Table_def crc_byte_def crc_bits_8 crc_bit_def)
  have t1: "take 2 crc32Table = map crc_byte [0..<2]"
    using table_double [OF t0 table_halves(1) crc_byte_add(1)] by (simp only: one_add_one)
  have t2: "take 4 crc32Table = map crc_byte [0..<4]"
    using table_double [OF t1 table_halves(2) crc_byte_add(2)] by simp
  have t3: "take 8 crc32Table = map crc_byte [0..<8]"
    using table_double [OF t2 table_halves(3) crc_byte_add(3)] by simp
  have t4: "take 16 crc32Table = map crc_byte [0..<16]"
    using table_double [OF t3 table_halves(4) crc_byte_add(4)] by simp
  have t5: "take 32 crc32Table = map crc_byte [0..<32]"
    using table_double [OF t4 table_halves(5) crc_byte_add(5)] by simp
  have t6: "take 64 crc32Table = map crc_byte [0..<64]"
    using table_double [OF t5 table_halves(6) crc_byte_add(6)] by simp
  have t7: "take 128 crc32Table = map crc_byte [0..<128]"
    using table_double [OF t6 table_halves(7) crc_byte_add(7)] by simp
  have t8: "take 256 crc32Table = map crc_byte [0..<256]"
    using table_double [OF t7 table_halves(8) crc_byte_add(8)] by simp
  show ?thesis by (rule t8)
qed

lemma crc32Table_nth: "i < 256 \<Longrightarrow> crc32Table ! i = crc_bits 8 (word_of_nat i)"
  using arg_cong [OF table_prefix, of "\<lambda>t. t ! i"] by (simp add: crc_byte_def)

section \<open>Properties\<close>

text \<open>C18: The table-driven CRC of any byte string equals the bit-serial CRC-32C: eight shift steps with the
  reflected polynomial per byte, starting from all ones, complemented at the end.\<close>

theorem crc32c_is_bit_serial: "crc32c d = crc32c_reference d"
proof -
  have "crc32c_step x c = crc_bits 8 (c XOR ucast x)" for x c
  proof -
    let ?w = "c XOR ucast x"
    have "unat (?w AND 0xff) = unat (take_bit 8 ?w)"
      by (simp add: take_bit_eq_mask mask_eq_exp_minus_1)
    moreover have "unat (take_bit 8 ?w) < 256"
      by (simp add: take_bit_eq_mod unat_mod_distrib)
    ultimately have "crc32c_step x c = crc_bits 8 (take_bit 8 ?w) XOR drop_bit 8 c"
      by (simp add: crc32c_step_def crc32Table_nth)
    also have "drop_bit 8 c = drop_bit 8 (?w AND NOT (mask 8))"
      by (rule bit_word_eqI) (auto simp: bit_simps dest: bit_imp_le_length)
    also have "\<dots> = crc_bits 8 (?w AND NOT (mask 8))"
      by (rule crc_bits_shift [symmetric]) (auto simp: bit_eq_iff bit_simps)
    also have "crc_bits 8 (take_bit 8 ?w) XOR \<dots> = crc_bits 8 ?w"
      unfolding crc_bits_xor [symmetric]
      by (rule arg_cong [of _ _ "crc_bits 8"]) (rule bit_word_eqI, auto simp: bit_simps)
    finally show ?thesis .
  qed
  then have "crc32c_step = (\<lambda>x c. crc_bits 8 (c XOR ucast x))"
    by (intro ext)
  then show ?thesis
    by (simp add: crc32c_def crc32c_reference_def)
qed

end
