(* ===== verification/Ofpbuf.thy ===== *)
theory Ofpbuf
  imports Prelude "HOL-Library.Char_ord"
begin

text \<open>
  The packet buffer of \<open>lib/ofpbuf.c\<close>. The bytes of the allocation that starts at
  \<open>base\<close> are the list \<open>ob_mem\<close>, so \<open>allocated\<close> is its length; \<open>data\<close> and the layer
  pointers are offsets from \<open>base\<close>, a null layer pointer is \<open>None\<close>. The bytes of
  fresh memory are not determined by the program: the functions that can
  allocate take them as the argument \<open>junk\<close>. The result \<open>None\<close> is a failed
  assertion, the \<open>NOT_REACHED()\<close> abort, or an access outside of the allocation.
\<close>

section \<open>The buffer\<close>

datatype ofpbuf_source = OFPBUF_MALLOC | OFPBUF_STACK | OFPBUF_STUB

record ofpbuf =
  ob_mem :: bytes
  ob_source :: ofpbuf_source
  ob_data :: nat
  ob_size :: nat
  ob_l2 :: "nat option"
  ob_l2_5 :: "nat option"
  ob_l3 :: "nat option"
  ob_l4 :: "nat option"
  ob_l7 :: "nat option"

type_synonym junk = "nat \<Rightarrow> u8"

definition xmalloc :: "junk \<Rightarrow> nat \<Rightarrow> bytes" where
  "xmalloc junk n = map junk [0..<n]"

definition xrealloc :: "junk \<Rightarrow> bytes \<Rightarrow> nat \<Rightarrow> bytes" where
  "xrealloc junk m n = take n m @ map junk [length m..<n]"

definition ofpbuf_use_raw :: "bytes \<Rightarrow> ofpbuf_source \<Rightarrow> ofpbuf" where
  "ofpbuf_use_raw base source = \<lparr>ob_mem = base, ob_source = source, ob_data = 0, ob_size = 0,
     ob_l2 = None, ob_l2_5 = None, ob_l3 = None, ob_l4 = None, ob_l7 = None\<rparr>"

definition ofpbuf_use :: "bytes \<Rightarrow> ofpbuf" where
  "ofpbuf_use base = ofpbuf_use_raw base OFPBUF_MALLOC"

definition ofpbuf_use_stack :: "bytes \<Rightarrow> ofpbuf" where
  "ofpbuf_use_stack base = ofpbuf_use_raw base OFPBUF_STACK"

definition ofpbuf_use_stub :: "bytes \<Rightarrow> ofpbuf" where
  "ofpbuf_use_stub base = ofpbuf_use_raw base OFPBUF_STUB"

definition ofpbuf_use_const :: "bytes \<Rightarrow> ofpbuf" where
  "ofpbuf_use_const d = (ofpbuf_use_raw d OFPBUF_STACK)\<lparr>ob_size := length d\<rparr>"

definition ofpbuf_init :: "junk \<Rightarrow> nat \<Rightarrow> ofpbuf" where
  "ofpbuf_init junk n = ofpbuf_use (xmalloc junk n)"

definition ofpbuf_headroom :: "ofpbuf \<Rightarrow> nat" where
  "ofpbuf_headroom b = ob_data b"

definition ofpbuf_tail :: "ofpbuf \<Rightarrow> nat" where
  "ofpbuf_tail b = ob_data b + ob_size b"

definition ofpbuf_end :: "ofpbuf \<Rightarrow> nat" where
  "ofpbuf_end b = length (ob_mem b)"

definition ofpbuf_tailroom :: "ofpbuf \<Rightarrow> nat" where
  "ofpbuf_tailroom b = ofpbuf_end b - ofpbuf_tail b"

section \<open>Reallocation\<close>

text \<open>\<open>ofpbuf_copy_raw\<close> copies the old contents, and as much head- and tailroom as fits, into \<open>new_base\<close>.\<close>

definition ofpbuf_copy_raw :: "ofpbuf \<Rightarrow> bytes \<Rightarrow> nat \<Rightarrow> nat \<Rightarrow> bytes option" where
  "ofpbuf_copy_raw b new_base new_headroom new_tailroom =
     (let old_base = ob_mem b; old_headroom = ofpbuf_headroom b; old_tailroom = ofpbuf_tailroom b;
          copy_headroom = min old_headroom new_headroom; copy_tailroom = min old_tailroom new_tailroom
      in do {
        src \<leftarrow> ldn old_base (old_headroom - copy_headroom) (copy_headroom + ob_size b + copy_tailroom);
        stn new_base (new_headroom - copy_headroom) src
      })"

text \<open>Moving a layer pointer by \<open>new_data - old_data\<close>; a pointer before the allocation is undefined.\<close>

definition move_ptr :: "nat \<Rightarrow> nat \<Rightarrow> nat option \<Rightarrow> nat option option" where
  "move_ptr old_data new_data p = (case p of None \<Rightarrow> Some None
     | Some q \<Rightarrow> if q + new_data < old_data then None else Some (Some (q + new_data - old_data)))"

definition ofpbuf_resize_raw :: "junk \<Rightarrow> ofpbuf \<Rightarrow> nat \<Rightarrow> nat \<Rightarrow> ofpbuf option" where
  "ofpbuf_resize_raw junk b new_headroom new_tailroom =
     (let new_allocated = new_headroom + ob_size b + new_tailroom in do {
        b1 \<leftarrow> (case ob_source b of
            OFPBUF_MALLOC \<Rightarrow>
              if new_headroom = ofpbuf_headroom b
              then Some (b\<lparr>ob_mem := xrealloc junk (ob_mem b) new_allocated\<rparr>)
              else do {
                m \<leftarrow> ofpbuf_copy_raw b (xmalloc junk new_allocated) new_headroom new_tailroom;
                Some (b\<lparr>ob_mem := m\<rparr>)
              }
          | OFPBUF_STACK \<Rightarrow> None
          | OFPBUF_STUB \<Rightarrow> do {
              m \<leftarrow> ofpbuf_copy_raw b (xmalloc junk new_allocated) new_headroom new_tailroom;
              Some (b\<lparr>ob_source := OFPBUF_MALLOC, ob_mem := m\<rparr>)
            });
        p2 \<leftarrow> move_ptr (ob_data b) new_headroom (ob_l2 b);
        p25 \<leftarrow> move_ptr (ob_data b) new_headroom (ob_l2_5 b);
        p3 \<leftarrow> move_ptr (ob_data b) new_headroom (ob_l3 b);
        p4 \<leftarrow> move_ptr (ob_data b) new_headroom (ob_l4 b);
        p7 \<leftarrow> move_ptr (ob_data b) new_headroom (ob_l7 b);
        Some (b1\<lparr>ob_data := new_headroom, ob_l2 := p2, ob_l2_5 := p25, ob_l3 := p3,
          ob_l4 := p4, ob_l7 := p7\<rparr>)
      })"

definition ofpbuf_prealloc_tailroom :: "junk \<Rightarrow> ofpbuf \<Rightarrow> nat \<Rightarrow> ofpbuf option" where
  "ofpbuf_prealloc_tailroom junk b n =
     (if n > ofpbuf_tailroom b then ofpbuf_resize_raw junk b (ofpbuf_headroom b) (max n 64) else Some b)"

definition ofpbuf_prealloc_headroom :: "junk \<Rightarrow> ofpbuf \<Rightarrow> nat \<Rightarrow> ofpbuf option" where
  "ofpbuf_prealloc_headroom junk b n =
     (if n > ofpbuf_headroom b then ofpbuf_resize_raw junk b (max n 64) (ofpbuf_tailroom b) else Some b)"

definition ofpbuf_trim :: "junk \<Rightarrow> ofpbuf \<Rightarrow> ofpbuf option" where
  "ofpbuf_trim junk b =
     (if ob_source b = OFPBUF_MALLOC \<and> (ofpbuf_headroom b \<noteq> 0 \<or> ofpbuf_tailroom b \<noteq> 0)
      then ofpbuf_resize_raw junk b 0 0 else Some b)"

section \<open>Appending, prefixing, removing\<close>

text \<open>Functions that return a pointer return its offset beside the buffer.\<close>

definition ofpbuf_put_uninit :: "junk \<Rightarrow> ofpbuf \<Rightarrow> nat \<Rightarrow> (nat \<times> ofpbuf) option" where
  "ofpbuf_put_uninit junk b n = do {
     b \<leftarrow> ofpbuf_prealloc_tailroom junk b n;
     Some (ofpbuf_tail b, b\<lparr>ob_size := ob_size b + n\<rparr>)
   }"

definition ofpbuf_put :: "junk \<Rightarrow> ofpbuf \<Rightarrow> bytes \<Rightarrow> ofpbuf option" where
  "ofpbuf_put junk b p = do {
     (dst, b) \<leftarrow> ofpbuf_put_uninit junk b (length p);
     m \<leftarrow> stn (ob_mem b) dst p;
     Some (b\<lparr>ob_mem := m\<rparr>)
   }"

definition ofpbuf_put_zeros :: "junk \<Rightarrow> ofpbuf \<Rightarrow> nat \<Rightarrow> ofpbuf option" where
  "ofpbuf_put_zeros junk b n = do {
     (dst, b) \<leftarrow> ofpbuf_put_uninit junk b n;
     m \<leftarrow> stn (ob_mem b) dst (zeros n);
     Some (b\<lparr>ob_mem := m\<rparr>)
   }"

definition ofpbuf_padto :: "junk \<Rightarrow> ofpbuf \<Rightarrow> nat \<Rightarrow> ofpbuf option" where
  "ofpbuf_padto junk b len =
     (if ob_size b < len then ofpbuf_put_zeros junk b (len - ob_size b) else Some b)"

definition ofpbuf_reserve :: "junk \<Rightarrow> ofpbuf \<Rightarrow> nat \<Rightarrow> ofpbuf option" where
  "ofpbuf_reserve junk b n = (if ob_size b \<noteq> 0 then None else do {
     b \<leftarrow> ofpbuf_prealloc_tailroom junk b n;
     Some (b\<lparr>ob_data := ob_data b + n\<rparr>)
   })"

definition ofpbuf_push_uninit :: "junk \<Rightarrow> ofpbuf \<Rightarrow> nat \<Rightarrow> ofpbuf option" where
  "ofpbuf_push_uninit junk b n = do {
     b \<leftarrow> ofpbuf_prealloc_headroom junk b n;
     Some (b\<lparr>ob_data := ob_data b - n, ob_size := ob_size b + n\<rparr>)
   }"

definition ofpbuf_push :: "junk \<Rightarrow> ofpbuf \<Rightarrow> bytes \<Rightarrow> ofpbuf option" where
  "ofpbuf_push junk b p = do {
     b \<leftarrow> ofpbuf_push_uninit junk b (length p);
     m \<leftarrow> stn (ob_mem b) (ob_data b) p;
     Some (b\<lparr>ob_mem := m\<rparr>)
   }"

definition ofpbuf_push_zeros :: "junk \<Rightarrow> ofpbuf \<Rightarrow> nat \<Rightarrow> ofpbuf option" where
  "ofpbuf_push_zeros junk b n = do {
     b \<leftarrow> ofpbuf_push_uninit junk b n;
     m \<leftarrow> stn (ob_mem b) (ob_data b) (zeros n);
     Some (b\<lparr>ob_mem := m\<rparr>)
   }"

definition ofpbuf_at :: "ofpbuf \<Rightarrow> nat \<Rightarrow> nat \<Rightarrow> nat option" where
  "ofpbuf_at b offset n = (if offset + n \<le> ob_size b then Some (ob_data b + offset) else None)"

definition ofpbuf_clear :: "ofpbuf \<Rightarrow> ofpbuf" where
  "ofpbuf_clear b = b\<lparr>ob_data := 0, ob_size := 0\<rparr>"

definition ofpbuf_pull :: "ofpbuf \<Rightarrow> nat \<Rightarrow> ofpbuf option" where
  "ofpbuf_pull b n = (if ob_size b \<ge> n
     then Some (b\<lparr>ob_data := ob_data b + n, ob_size := ob_size b - n\<rparr>) else None)"

text \<open>\<open>ofpbuf_try_pull\<close> leaves the buffer alone when it is too short, and reports it.\<close>

definition ofpbuf_try_pull :: "ofpbuf \<Rightarrow> nat \<Rightarrow> nat option \<times> ofpbuf" where
  "ofpbuf_try_pull b n = (case (if ob_size b \<ge> n then ofpbuf_pull b n else None) of
     Some b' \<Rightarrow> (Some (ob_data b), b') | None \<Rightarrow> (None, b))"

section \<open>Creating buffers\<close>

definition ofpbuf_new :: "junk \<Rightarrow> nat \<Rightarrow> ofpbuf" where
  "ofpbuf_new junk n = ofpbuf_init junk n"

definition ofpbuf_new_with_headroom :: "junk \<Rightarrow> nat \<Rightarrow> nat \<Rightarrow> ofpbuf option" where
  "ofpbuf_new_with_headroom junk n headroom = ofpbuf_reserve junk (ofpbuf_new junk (n + headroom)) headroom"

definition ofpbuf_clone_data_with_headroom :: "junk \<Rightarrow> bytes \<Rightarrow> nat \<Rightarrow> ofpbuf option" where
  "ofpbuf_clone_data_with_headroom junk d headroom = do {
     b \<leftarrow> ofpbuf_new_with_headroom junk (length d) headroom;
     ofpbuf_put junk b d
   }"

definition ofpbuf_clone_data :: "junk \<Rightarrow> bytes \<Rightarrow> ofpbuf option" where
  "ofpbuf_clone_data junk d = ofpbuf_clone_data_with_headroom junk d 0"

definition ofpbuf_clone_with_headroom :: "junk \<Rightarrow> ofpbuf \<Rightarrow> nat \<Rightarrow> ofpbuf option" where
  "ofpbuf_clone_with_headroom junk buffer headroom = do {
     d \<leftarrow> ldn (ob_mem buffer) (ob_data buffer) (ob_size buffer);
     new_buffer \<leftarrow> ofpbuf_clone_data_with_headroom junk d headroom;
     p2 \<leftarrow> move_ptr (ob_data buffer) (ob_data new_buffer) (ob_l2 buffer);
     p25 \<leftarrow> move_ptr (ob_data buffer) (ob_data new_buffer) (ob_l2_5 buffer);
     p3 \<leftarrow> move_ptr (ob_data buffer) (ob_data new_buffer) (ob_l3 buffer);
     p4 \<leftarrow> move_ptr (ob_data buffer) (ob_data new_buffer) (ob_l4 buffer);
     p7 \<leftarrow> move_ptr (ob_data buffer) (ob_data new_buffer) (ob_l7 buffer);
     Some (new_buffer\<lparr>ob_l2 := p2, ob_l2_5 := p25, ob_l3 := p3, ob_l4 := p4, ob_l7 := p7\<rparr>)
   }"

definition ofpbuf_clone :: "junk \<Rightarrow> ofpbuf \<Rightarrow> ofpbuf option" where
  "ofpbuf_clone junk buffer = ofpbuf_clone_with_headroom junk buffer 0"

text \<open>
  \<open>ofpbuf_steal_data\<close> hands the contents to the caller: the allocation itself when the data
  start at its base, in which case whatever follows the contents stays attached, and a copy otherwise.
\<close>

definition ofpbuf_steal_data :: "ofpbuf \<Rightarrow> (bytes \<times> ofpbuf) option" where
  "ofpbuf_steal_data b = do {
     p \<leftarrow> (if ob_source b = OFPBUF_MALLOC \<and> ob_data b = 0 then Some (ob_mem b)
           else ldn (ob_mem b) (ob_data b) (ob_size b));
     Some (p, b\<lparr>ob_mem := [], ob_data := 0\<rparr>)
   }"

section \<open>Hexadecimal input\<close>

text \<open>A C string is the list of its characters; its end is the terminating null.\<close>

definition hexit_value :: "char \<Rightarrow> int" where
  "hexit_value c =
     (if CHR ''0'' \<le> c \<and> c \<le> CHR ''9'' then int (of_char c) - 48
      else if c = CHR ''a'' \<or> c = CHR ''A'' then 0xa
      else if c = CHR ''b'' \<or> c = CHR ''B'' then 0xb
      else if c = CHR ''c'' \<or> c = CHR ''C'' then 0xc
      else if c = CHR ''d'' \<or> c = CHR ''D'' then 0xd
      else if c = CHR ''e'' \<or> c = CHR ''E'' then 0xe
      else if c = CHR ''f'' \<or> c = CHR ''F'' then 0xf
      else -1)"

fun hexits_value :: "string \<Rightarrow> nat \<Rightarrow> u32 \<Rightarrow> u32 \<times> bool" where
  "hexits_value s 0 v = (v, True)"
| "hexits_value [] (Suc n) v = (- 1, False)"
| "hexits_value (c # s) (Suc n) v =
     (if hexit_value c < 0 then (- 1, False)
      else hexits_value s n (push_bit 4 v + of_int (hexit_value c)))"

function ofpbuf_put_hex_loop :: "junk \<Rightarrow> ofpbuf \<Rightarrow> string \<Rightarrow> (string \<times> ofpbuf) option" where
  "ofpbuf_put_hex_loop junk b s =
     (let s1 = dropWhile (\<lambda>c. c = CHR '' '') s; (v, ok) = hexits_value s1 2 0 in
      if \<not> ok then Some (s1, b)
      else case ofpbuf_put junk b [ucast v] of
             None \<Rightarrow> None
           | Some b \<Rightarrow> ofpbuf_put_hex_loop junk b (drop 2 s1))"
  by pat_completeness auto

lemma hexits_value_short: "snd (hexits_value s n v) \<Longrightarrow> n \<le> length s"
  by (induction s n v rule: hexits_value.induct) (auto split: if_splits)

termination ofpbuf_put_hex_loop
proof (relation "measure (\<lambda>(junk, b, s). length s)", goal_cases)
  case 1
  then show ?case by simp
next
  case (2 junk b s s1 x v ok b')
  have "2 \<le> length s1"
    using 2 hexits_value_short [of s1 2 0] by (metis snd_conv)
  moreover have "length s1 \<le> length s"
    using 2(1) by (simp add: length_dropWhile_le)
  ultimately show ?case by simp
qed

declare ofpbuf_put_hex_loop.simps [simp del]

definition ofpbuf_put_hex :: "junk \<Rightarrow> ofpbuf \<Rightarrow> string \<Rightarrow> (string \<times> nat \<times> ofpbuf) option" where
  "ofpbuf_put_hex junk b s = do {
     (rest, b') \<leftarrow> ofpbuf_put_hex_loop junk b s;
     Some (rest, ob_size b' - ob_size b, b')
   }"

section \<open>The invariant and the contents\<close>

definition ofpbuf_ok :: "ofpbuf \<Rightarrow> bool" where
  "ofpbuf_ok b \<longleftrightarrow> ob_data b + ob_size b \<le> length (ob_mem b)"

definition contents :: "ofpbuf \<Rightarrow> bytes" where
  "contents b = take (ob_size b) (drop (ob_data b) (ob_mem b))"

text \<open>The layer pointers, relative to \<open>data\<close>: what a reallocation must keep.\<close>

definition rel_ptrs :: "ofpbuf \<Rightarrow> int option list" where
  "rel_ptrs b = map (map_option (\<lambda>q. int q - int (ob_data b)))
     [ob_l2 b, ob_l2_5 b, ob_l3 b, ob_l4 b, ob_l7 b]"

lemma length_xmalloc [simp]: "length (xmalloc junk n) = n"
  by (simp add: xmalloc_def)

lemma length_xrealloc [simp]: "length (xrealloc junk m n) = n"
  by (simp add: xrealloc_def)

lemma length_contents [simp]: "ofpbuf_ok b \<Longrightarrow> length (contents b) = ob_size b"
  by (simp add: ofpbuf_ok_def contents_def)

text \<open>Moving a layer pointer touches neither the invariant nor the contents.\<close>

lemma layer_ptr_updates [simp]:
  "ofpbuf_ok (b\<lparr>ob_l2 := p\<rparr>) = ofpbuf_ok b"
  "contents (b\<lparr>ob_l2 := p\<rparr>) = contents b"
  "ofpbuf_ok (b\<lparr>ob_l2_5 := p\<rparr>) = ofpbuf_ok b"
  "contents (b\<lparr>ob_l2_5 := p\<rparr>) = contents b"
  "ofpbuf_ok (b\<lparr>ob_l3 := p\<rparr>) = ofpbuf_ok b"
  "contents (b\<lparr>ob_l3 := p\<rparr>) = contents b"
  "ofpbuf_ok (b\<lparr>ob_l4 := p\<rparr>) = ofpbuf_ok b"
  "contents (b\<lparr>ob_l4 := p\<rparr>) = contents b"
  "ofpbuf_ok (b\<lparr>ob_l7 := p\<rparr>) = ofpbuf_ok b"
  "contents (b\<lparr>ob_l7 := p\<rparr>) = contents b"
  by (simp_all add: ofpbuf_ok_def contents_def)

lemma move_ptr_grow:
  "old \<le> new \<Longrightarrow> move_ptr old new p = Some (map_option (\<lambda>q. q + new - old) p)"
  by (cases p) (auto simp: move_ptr_def)

lemma take_drop_sub:
  "take n (drop k (take m (drop j xs))) = take (min n (m - k)) (drop (j + k) xs)"
  by (simp add: drop_take add.commute)

text \<open>Whatever the head- and tailroom asked for, the copy keeps the data in use.\<close>

lemma ofpbuf_copy_raw_contents:
  assumes "ofpbuf_ok b" and "length new_base = nh + ob_size b + nt"
  obtains m where "ofpbuf_copy_raw b new_base nh nt = Some m" "length m = length new_base"
    and "take (ob_size b) (drop nh m) = contents b"
proof -
  define ch where "ch = min (ob_data b) nh"
  define ct where "ct = min (ofpbuf_tailroom b) nt"
  define src where "src = take (ch + ob_size b + ct) (drop (ob_data b - ch) (ob_mem b))"
  have bounds: "ch \<le> ob_data b" "ch \<le> nh" "ct \<le> nt" "ob_data b + ob_size b + ct \<le> length (ob_mem b)"
    using assms(1)
    by (auto simp: ch_def ct_def ofpbuf_ok_def ofpbuf_tailroom_def ofpbuf_end_def ofpbuf_tail_def)
  have len: "length src = ch + ob_size b + ct"
    using bounds by (simp add: src_def)
  have fits: "nh - ch + length src \<le> length new_base"
    using assms(2) len bounds by simp
  have ld: "ldn (ob_mem b) (ob_data b - ch) (ch + ob_size b + ct) = Some src"
    using bounds by (simp add: ldn_def src_def)
  have cp: "ofpbuf_copy_raw b new_base nh nt = stn new_base (nh - ch) src"
    using ld by (simp add: ofpbuf_copy_raw_def ofpbuf_headroom_def Let_def flip: ch_def ct_def)
  obtain m where st: "stn new_base (nh - ch) src = Some m"
    using stn_defined [OF fits] by blast
  have "drop nh m = drop ch src @ drop (nh - ch + length src) new_base"
  proof -
    have "min (length new_base) (nh - ch) = nh - ch"
      using fits by simp
    then show ?thesis
      using st bounds len by (simp add: stn_Some_iff)
  qed
  then have "take (ob_size b) (drop nh m) = take (ob_size b) (drop ch src)"
    using len by simp
  also have "\<dots> = contents b"
    using bounds by (simp add: src_def take_drop_sub contents_def)
  finally show thesis
    using that cp st length_stn by simp
qed

lemma xrealloc_contents:
  assumes "ofpbuf_ok b" and "ob_data b + ob_size b \<le> n"
  shows "take (ob_size b) (drop (ob_data b) (xrealloc junk (ob_mem b) n)) = contents b"
  using assms by (simp add: xrealloc_def contents_def ofpbuf_ok_def drop_take min_def) linarith

text \<open>
  Growing a buffer that may be reallocated succeeds, keeps the data in use and the position of
  every layer pointer relative to them, and provides exactly the room that was asked for.
\<close>

lemma ofpbuf_resize_raw_grow:
  assumes "ofpbuf_ok b" and "ob_source b \<noteq> OFPBUF_STACK" and "ob_data b \<le> nh"
  obtains b' where "ofpbuf_resize_raw junk b nh nt = Some b'"
    and "ofpbuf_ok b'" and "contents b' = contents b" and "rel_ptrs b' = rel_ptrs b"
    and "ob_data b' = nh" and "ob_size b' = ob_size b" and "ofpbuf_tailroom b' = nt"
    and "ob_source b' \<noteq> OFPBUF_STACK"
proof -
  define n where "n = nh + ob_size b + nt"
  obtain m where m: "ofpbuf_copy_raw b (xmalloc junk n) nh nt = Some m" "length m = n"
      "take (ob_size b) (drop nh m) = contents b"
    by (rule ofpbuf_copy_raw_contents [OF assms(1), of "xmalloc junk n" nh nt]) (auto simp: n_def)
  define m' where "m' = (if ob_source b = OFPBUF_MALLOC \<and> nh = ob_data b
    then xrealloc junk (ob_mem b) n else m)"
  have m': "length m' = n" "take (ob_size b) (drop nh m') = contents b"
    using m xrealloc_contents [OF assms(1), of n junk] by (auto simp: m'_def n_def)
  define b' where "b' = b\<lparr>ob_mem := m', ob_source := OFPBUF_MALLOC, ob_data := nh,
    ob_l2 := map_option (\<lambda>q. q + nh - ob_data b) (ob_l2 b),
    ob_l2_5 := map_option (\<lambda>q. q + nh - ob_data b) (ob_l2_5 b),
    ob_l3 := map_option (\<lambda>q. q + nh - ob_data b) (ob_l3 b),
    ob_l4 := map_option (\<lambda>q. q + nh - ob_data b) (ob_l4 b),
    ob_l7 := map_option (\<lambda>q. q + nh - ob_data b) (ob_l7 b)\<rparr>"
  have "ofpbuf_resize_raw junk b nh nt = Some b'"
    using assms m(1)
    by (cases "ob_source b")
      (auto simp: ofpbuf_resize_raw_def move_ptr_grow ofpbuf_headroom_def m'_def b'_def Let_def n_def)
  moreover have "rel_ptrs b' = rel_ptrs b"
    using assms(3) by (auto simp: rel_ptrs_def b'_def option.map_comp intro!: map_option_cong)
  ultimately show thesis
    using m' that [of b']
    by (simp add: ofpbuf_ok_def contents_def b'_def n_def ofpbuf_tailroom_def ofpbuf_end_def
        ofpbuf_tail_def)
qed

text \<open>Room at one end: either there already, or the buffer can be reallocated.\<close>

definition headroom_ok :: "ofpbuf \<Rightarrow> nat \<Rightarrow> bool" where
  "headroom_ok b n \<longleftrightarrow> n \<le> ofpbuf_headroom b \<or> ob_source b \<noteq> OFPBUF_STACK"

definition tailroom_ok :: "ofpbuf \<Rightarrow> nat \<Rightarrow> bool" where
  "tailroom_ok b n \<longleftrightarrow> n \<le> ofpbuf_tailroom b \<or> ob_source b \<noteq> OFPBUF_STACK"

lemma ofpbuf_prealloc_tailroom_ok:
  assumes "ofpbuf_ok b" and "tailroom_ok b n"
  obtains b' where "ofpbuf_prealloc_tailroom junk b n = Some b'"
    and "ofpbuf_ok b'" and "contents b' = contents b" and "rel_ptrs b' = rel_ptrs b"
    and "ob_data b' = ob_data b" and "ob_size b' = ob_size b" and "n \<le> ofpbuf_tailroom b'"
proof (cases "n \<le> ofpbuf_tailroom b")
  case True
  then show thesis
    using that [of b] assms(1) by (simp add: ofpbuf_prealloc_tailroom_def)
next
  case False
  then have "ob_source b \<noteq> OFPBUF_STACK"
    using assms(2) by (simp add: tailroom_ok_def)
  then obtain b' where "ofpbuf_resize_raw junk b (ob_data b) (max n 64) = Some b'"
      "ofpbuf_ok b'" "contents b' = contents b" "rel_ptrs b' = rel_ptrs b"
      "ob_data b' = ob_data b" "ob_size b' = ob_size b" "ofpbuf_tailroom b' = max n 64"
    using ofpbuf_resize_raw_grow [OF assms(1)] by (metis order_refl)
  with False show thesis
    by (intro that [of b']) (simp_all add: ofpbuf_prealloc_tailroom_def ofpbuf_headroom_def)
qed

lemma ofpbuf_prealloc_headroom_ok:
  assumes "ofpbuf_ok b" and "headroom_ok b n"
  obtains b' where "ofpbuf_prealloc_headroom junk b n = Some b'"
    and "ofpbuf_ok b'" and "contents b' = contents b" and "rel_ptrs b' = rel_ptrs b"
    and "n \<le> ob_data b'" and "ob_size b' = ob_size b"
    and "n \<le> ob_data b \<Longrightarrow> b' = b"
proof (cases "n \<le> ofpbuf_headroom b")
  case True
  then show thesis
    using that [of b] assms(1) by (simp add: ofpbuf_prealloc_headroom_def ofpbuf_headroom_def)
next
  case False
  then have "ob_source b \<noteq> OFPBUF_STACK" and "ob_data b \<le> max n 64"
    using assms(2) by (auto simp: headroom_ok_def ofpbuf_headroom_def)
  then obtain b' where "ofpbuf_resize_raw junk b (max n 64) (ofpbuf_tailroom b) = Some b'"
      "ofpbuf_ok b'" "contents b' = contents b" "rel_ptrs b' = rel_ptrs b"
      "ob_data b' = max n 64" "ob_size b' = ob_size b"
    using ofpbuf_resize_raw_grow [OF assms(1)] by metis
  with False show thesis
    by (intro that [of b']) (simp_all add: ofpbuf_prealloc_headroom_def ofpbuf_headroom_def)
qed

section \<open>Appending and prefixing\<close>

lemma ofpbuf_put_ok:
  assumes "ofpbuf_ok b" and "tailroom_ok b (length p)"
  obtains b' where "ofpbuf_put junk b p = Some b'" and "ofpbuf_ok b'"
    and "contents b' = contents b @ p" and "rel_ptrs b' = rel_ptrs b" and "ob_data b' = ob_data b"
proof -
  obtain b1 where b1: "ofpbuf_prealloc_tailroom junk b (length p) = Some b1" "ofpbuf_ok b1"
      "contents b1 = contents b" "rel_ptrs b1 = rel_ptrs b" "ob_data b1 = ob_data b"
      "length p \<le> ofpbuf_tailroom b1"
    using ofpbuf_prealloc_tailroom_ok [OF assms] by metis
  have fits: "ofpbuf_tail b1 + length p \<le> length (ob_mem b1)"
    using b1(2,6) by (simp add: ofpbuf_ok_def ofpbuf_tailroom_def ofpbuf_end_def ofpbuf_tail_def)
  then obtain m where m: "stn (ob_mem b1) (ofpbuf_tail b1) p = Some m"
    using stn_defined by blast
  define b' where "b' = b1\<lparr>ob_size := ob_size b1 + length p, ob_mem := m\<rparr>"
  have "ofpbuf_put junk b p = Some b'"
    using b1(1) m by (simp add: ofpbuf_put_def ofpbuf_put_uninit_def b'_def)
  moreover have "min (length (ob_mem b1) - ob_data b1) (ob_size b1) = ob_size b1"
    using fits by (simp add: ofpbuf_tail_def)
  then have "contents b' = contents b1 @ p"
    using m fits by (simp add: b'_def contents_def stn_Some_iff ofpbuf_tail_def drop_take)
  moreover have "ofpbuf_ok b'"
    using fits m by (simp add: b'_def ofpbuf_ok_def length_stn ofpbuf_tail_def)
  ultimately show thesis
    using that b1 by (simp add: b'_def rel_ptrs_def)
qed

lemma ofpbuf_push_ok:
  assumes "ofpbuf_ok b" and "headroom_ok b (length p)"
  obtains b' where "ofpbuf_push junk b p = Some b'" and "ofpbuf_ok b'"
    and "contents b' = p @ contents b"
    and "rel_ptrs b' = map (map_option (\<lambda>i. i + int (length p))) (rel_ptrs b)"
proof -
  obtain b1 where b1: "ofpbuf_prealloc_headroom junk b (length p) = Some b1" "ofpbuf_ok b1"
      "contents b1 = contents b" "rel_ptrs b1 = rel_ptrs b" "length p \<le> ob_data b1"
    using ofpbuf_prealloc_headroom_ok [OF assms] by metis
  have fits: "ob_data b1 - length p + length p \<le> length (ob_mem b1)"
    using b1(2,5) by (simp add: ofpbuf_ok_def)
  then obtain m where m: "stn (ob_mem b1) (ob_data b1 - length p) p = Some m"
    using stn_defined by blast
  define b' where "b' = b1\<lparr>ob_data := ob_data b1 - length p, ob_size := ob_size b1 + length p, ob_mem := m\<rparr>"
  have "ofpbuf_push junk b p = Some b'"
    using b1(1) m by (simp add: ofpbuf_push_def ofpbuf_push_uninit_def b'_def)
  moreover have "contents b' = p @ contents b1"
    using b1(5) by (simp add: b'_def contents_def drop_stn [OF m])
  moreover have "ofpbuf_ok b'"
    using b1(2,5) m by (simp add: b'_def ofpbuf_ok_def length_stn)
  moreover have "rel_ptrs b' = map (map_option (\<lambda>i. i + int (length p))) (rel_ptrs b)"
    using b1(5) unfolding b1(4) [symmetric]
    by (simp add: b'_def rel_ptrs_def option.map_comp comp_def of_nat_diff algebra_simps)
  ultimately show thesis
    using that b1(3) by simp
qed

lemma ofpbuf_pull_ok:
  assumes "ofpbuf_ok b"
  shows "ofpbuf_pull b n = None \<longleftrightarrow> length (contents b) < n"
    and "ofpbuf_pull b n = Some b' \<Longrightarrow> ofpbuf_ok b' \<and> contents b' = drop n (contents b)"
  using assms
  by (auto simp: ofpbuf_pull_def ofpbuf_ok_def contents_def drop_take add.commute split: if_splits)

text \<open>Whether a buffer may be reallocated does not change.\<close>

lemma ofpbuf_resize_raw_source:
  "ofpbuf_resize_raw junk b nh nt = Some b' \<Longrightarrow> ob_source b \<noteq> OFPBUF_STACK \<and> ob_source b' \<noteq> OFPBUF_STACK"
  by (auto simp: ofpbuf_resize_raw_def Let_def split: ofpbuf_source.splits if_splits bind_splits)

lemma ofpbuf_put_source:
  assumes "ofpbuf_put junk b p = Some b'" and "ob_source b \<noteq> OFPBUF_STACK"
  shows "ob_source b' \<noteq> OFPBUF_STACK"
  using assms ofpbuf_resize_raw_source
  by (fastforce simp: ofpbuf_put_def ofpbuf_put_uninit_def ofpbuf_prealloc_tailroom_def
      split: bind_splits if_splits)

section \<open>The interface the header editing code relies on\<close>

text \<open>
  A byte buffer is a queue of bytes with two ends: bytes go on at both, and come off the front.
  The code that edits headers (\<open>lib/packets.c\<close>) and the code that clones and parses only rely
  on the following laws.
\<close>

locale byte_buffer =
  fixes ok :: "'b \<Rightarrow> bool" and cont :: "'b \<Rightarrow> bytes"
    and room_front :: "'b \<Rightarrow> nat \<Rightarrow> bool" and room_back :: "'b \<Rightarrow> nat \<Rightarrow> bool"
    and push :: "'b \<Rightarrow> bytes \<Rightarrow> 'b option" and put :: "'b \<Rightarrow> bytes \<Rightarrow> 'b option"
    and pull :: "'b \<Rightarrow> nat \<Rightarrow> 'b option"
  assumes push_law: "ok b \<Longrightarrow> room_front b (length p) \<Longrightarrow>
      \<exists>b'. push b p = Some b' \<and> ok b' \<and> cont b' = p @ cont b"
    and put_law: "ok b \<Longrightarrow> room_back b (length p) \<Longrightarrow>
      \<exists>b'. put b p = Some b' \<and> ok b' \<and> cont b' = cont b @ p"
    and pull_law: "ok b \<Longrightarrow> n \<le> length (cont b) \<Longrightarrow>
      \<exists>b'. pull b n = Some b' \<and> ok b' \<and> cont b' = drop n (cont b)"
    and pull_short: "ok b \<Longrightarrow> length (cont b) < n \<Longrightarrow> pull b n = None"
    and pull_room: "ok b \<Longrightarrow> pull b n = Some b' \<Longrightarrow> room_front b' n"
begin

lemma push_pull:
  assumes "ok b" and "room_front b (length p)"
  shows "\<exists>b'. Option.bind (push b p) (\<lambda>b. pull b (length p)) = Some b' \<and> ok b' \<and> cont b' = cont b"
  using push_law [OF assms] pull_law [where n = "length p"] by fastforce

text \<open>A header of the same length takes the place of the one that was pulled, with no room asked for.\<close>

lemma pull_push:
  assumes "ok b" and "length p \<le> length (cont b)"
  shows "\<exists>b'. Option.bind (pull b (length p)) (\<lambda>b. push b p) = Some b' \<and> ok b' \<and>
    cont b' = p @ drop (length p) (cont b)"
proof -
  obtain b1 where b1: "pull b (length p) = Some b1" "ok b1" "cont b1 = drop (length p) (cont b)"
    using pull_law [OF assms] by blast
  then show ?thesis
    using push_law [OF b1(2) pull_room [OF assms(1) b1(1)]] by auto
qed

end

interpretation ob: byte_buffer ofpbuf_ok contents headroom_ok tailroom_ok
  "ofpbuf_push junk" "ofpbuf_put junk" ofpbuf_pull for junk
proof (unfold_locales, goal_cases)
  case (1 b p)
  then show ?case using ofpbuf_push_ok [of b p junk] by metis
next
  case (2 b p)
  then show ?case using ofpbuf_put_ok [of b p junk] by metis
next
  case (3 b n)
  then show ?case using ofpbuf_pull_ok [of b n] by (metis linorder_not_le not_None_eq)
next
  case (4 b n)
  then show ?case using ofpbuf_pull_ok by blast
next
  case (5 b n b')
  then show ?case by (auto simp: ofpbuf_pull_def headroom_ok_def ofpbuf_headroom_def split: if_splits)
qed

section \<open>Cloning\<close>

text \<open>No layer pointer lies before the data.\<close>

definition ptrs_ok :: "ofpbuf \<Rightarrow> bool" where
  "ptrs_ok b \<longleftrightarrow> (\<forall>p \<in> set [ob_l2 b, ob_l2_5 b, ob_l3 b, ob_l4 b, ob_l7 b].
     case p of None \<Rightarrow> True | Some q \<Rightarrow> ob_data b \<le> q)"

lemma move_ptr_ge:
  "(case p of None \<Rightarrow> True | Some q \<Rightarrow> old \<le> q) \<Longrightarrow>
   move_ptr old new p = Some (map_option (\<lambda>q. q + new - old) p)"
  by (auto simp: move_ptr_def split: option.splits)

lemma rel_moved: "(case p of None \<Rightarrow> True | Some q \<Rightarrow> old \<le> q) \<Longrightarrow>
   map_option (\<lambda>q. int q - int new) (map_option (\<lambda>q. q + new - old) p) =
   map_option (\<lambda>q. int q - int old) p"
  by (auto split: option.splits)

lemma ofpbuf_clone_data_with_headroom_ok:
  obtains b where "ofpbuf_clone_data_with_headroom junk d h = Some b" and "ofpbuf_ok b"
    and "contents b = d" and "ob_data b = h"
proof -
  define b0 where "b0 = (ofpbuf_init junk (length d + h))\<lparr>ob_data := h\<rparr>"
  have new: "ofpbuf_new_with_headroom junk (length d) h = Some b0"
    by (simp add: ofpbuf_new_with_headroom_def ofpbuf_reserve_def ofpbuf_new_def b0_def ofpbuf_init_def
        ofpbuf_use_def ofpbuf_use_raw_def ofpbuf_prealloc_tailroom_def ofpbuf_tailroom_def
        ofpbuf_end_def ofpbuf_tail_def)
  have b0: "ofpbuf_ok b0" "tailroom_ok b0 (length d)" "contents b0 = []" "ob_data b0 = h"
    by (simp_all add: b0_def ofpbuf_ok_def tailroom_ok_def ofpbuf_init_def ofpbuf_use_def
        ofpbuf_use_raw_def contents_def)
  obtain b where "ofpbuf_put junk b0 d = Some b" "ofpbuf_ok b" "contents b = d" "ob_data b = h"
    using ofpbuf_put_ok [OF b0(1,2), of junk] b0(3,4) by (metis append_Nil)
  with new show thesis
    by (intro that [of b]) (simp_all add: ofpbuf_clone_data_with_headroom_def)
qed

section \<open>Parsing hexadecimal digits\<close>

definition hexdigit :: "nat \<Rightarrow> char" where
  "hexdigit n = ''0123456789abcdef'' ! n"

definition hexdump :: "bytes \<Rightarrow> string" where
  "hexdump bs = concat (map (\<lambda>x. [hexdigit (unat x div 16), hexdigit (unat x mod 16)]) bs)"

lemma less_16_cases: "n < (16::nat) \<Longrightarrow>
  n \<in> {0, 1, 2, 3, 4, 5, 6, 7, 8, 9, 10, 11, 12, 13, 14, 15}"
  by simp arith

lemma hexit_value_hexdigit: "n < 16 \<Longrightarrow> hexit_value (hexdigit n) = int n \<and> hexdigit n \<noteq> CHR '' ''"
  by (drule less_16_cases) (auto simp: hexdigit_def hexit_value_def less_eq_char_def)

lemma hexits_value_byte:
  "hexits_value (hexdigit (unat x div 16) # hexdigit (unat x mod 16) # s) 2 0 = (ucast x, True)"
  for x :: u8
proof -
  have d: "unat x div 16 < 16" "unat x mod 16 < 16"
    using unat_byte_less [of x] by auto
  have "hexits_value (hexdigit (unat x div 16) # hexdigit (unat x mod 16) # s) 2 0 =
      (push_bit 4 (word_of_nat (unat x div 16)) + word_of_nat (unat x mod 16), True)"
    using hexit_value_hexdigit [OF d(1)] hexit_value_hexdigit [OF d(2)]
    by (simp add: numeral_2_eq_2)
  also have "push_bit 4 (word_of_nat (unat x div 16)) + word_of_nat (unat x mod 16) =
      (word_of_nat (unat x div 16 * 16 + unat x mod 16) :: u32)"
    unfolding of_nat_add of_nat_mult push_bit_eq_mult by simp
  also have "unat x div 16 * 16 + unat x mod 16 = unat x"
    by simp
  finally show ?thesis by simp
qed

lemma ucast_up_down: "(ucast (ucast x :: u32) :: u8) = x" for x :: u8
  by (rule bit_word_eqI) (simp add: bit_simps)

lemma ofpbuf_put_hex_loop_hexdump:
  assumes "ofpbuf_ok b" and "ob_source b \<noteq> OFPBUF_STACK" and "s = [] \<or> hexit_value (hd s) < 0 \<and> hd s \<noteq> CHR '' ''"
  shows "\<exists>b'. ofpbuf_put_hex_loop junk b (hexdump bs @ s) = Some (s, b') \<and> ofpbuf_ok b' \<and>
    contents b' = contents b @ bs"
  using assms(1,2)
proof (induction bs arbitrary: b)
  case Nil
  have "dropWhile (\<lambda>c. c = CHR '' '') s = s" "hexits_value s 2 0 = (- 1, False)"
    using assms(3) by (cases s; simp add: numeral_2_eq_2)+
  then show ?case
    using Nil by (subst ofpbuf_put_hex_loop.simps) (simp add: hexdump_def)
next
  case (Cons x bs)
  obtain b1 where b1: "ofpbuf_put junk b [x] = Some b1" "ofpbuf_ok b1" "contents b1 = contents b @ [x]"
    using ob.put_law [of b "[x]" junk] Cons.prems by (auto simp: tailroom_ok_def)
  have nosp: "hexdigit (unat x div 16) \<noteq> CHR '' ''"
    using hexit_value_hexdigit [of "unat x div 16"] unat_byte_less [of x] by simp
  have hd: "hexdump (x # bs) @ s = hexdigit (unat x div 16) # hexdigit (unat x mod 16) # (hexdump bs @ s)"
    by (simp add: hexdump_def)
  have "ofpbuf_put_hex_loop junk b (hexdump (x # bs) @ s) = ofpbuf_put_hex_loop junk b1 (hexdump bs @ s)"
    using b1(1) by (subst ofpbuf_put_hex_loop.simps) (simp add: nosp hd hexits_value_byte ucast_up_down drop_Cons')
  then show ?case
    using Cons.IH [OF b1(2)] ofpbuf_put_source [OF b1(1)] Cons.prems(2) b1(3) by simp
qed

section \<open>Properties\<close>

text \<open>C35: Appending, prefixing and removing bytes act on the contents of the buffer as on a list of
  bytes. When there is room or the buffer may be reallocated, \<open>ofpbuf_put\<close> and \<open>ofpbuf_push\<close>
  succeed and add exactly the bytes given, at the tail and at the head; layer pointers keep
  pointing at the same bytes, also when the buffer moves.\<close>

theorem ofpbuf_put_push_contents:
  assumes "ofpbuf_ok b" and "tailroom_ok b (length p)" and "headroom_ok b (length q)"
  shows "\<exists>b1 b2. ofpbuf_put junk b p = Some b1 \<and> ofpbuf_push junk b q = Some b2 \<and>
    ofpbuf_ok b1 \<and> contents b1 = contents b @ p \<and> rel_ptrs b1 = rel_ptrs b \<and>
    ofpbuf_ok b2 \<and> contents b2 = q @ contents b \<and>
    rel_ptrs b2 = map (map_option (\<lambda>i. i + int (length q))) (rel_ptrs b)"
proof -
  obtain b1 where "ofpbuf_put junk b p = Some b1" "ofpbuf_ok b1"
      "contents b1 = contents b @ p" "rel_ptrs b1 = rel_ptrs b"
    using ofpbuf_put_ok [OF assms(1,2)] by metis
  moreover obtain b2 where "ofpbuf_push junk b q = Some b2" "ofpbuf_ok b2"
      "contents b2 = q @ contents b"
      "rel_ptrs b2 = map (map_option (\<lambda>i. i + int (length q))) (rel_ptrs b)"
    using ofpbuf_push_ok [OF assms(1,3)] by metis
  ultimately show ?thesis by blast
qed

theorem ofpbuf_put_push_contents_witness:
  "\<exists>b1 b2. ofpbuf_put (\<lambda>_. 0xAA) (ofpbuf_use_stub [1, 2]) [3, 4, 5] = Some b1 \<and>
     ofpbuf_push (\<lambda>_. 0xAA) (ofpbuf_use_stub [1, 2]) [6] = Some b2 \<and>
     contents b1 = [3, 4, 5] \<and> contents b2 = [6]"
  using ofpbuf_put_push_contents [of "ofpbuf_use_stub [1, 2]" "[3, 4, 5]" "[6]" "\<lambda>_. 0xAA"]
  by (auto simp: ofpbuf_ok_def ofpbuf_use_stub_def ofpbuf_use_raw_def tailroom_ok_def headroom_ok_def
      contents_def)

text \<open>A clone holds the same bytes as the original, with the headroom asked for, and its layer
  pointers point at the copies of the bytes the original's pointers point at.\<close>

theorem ofpbuf_clone_same:
  assumes "ofpbuf_ok b" and "ptrs_ok b"
  shows "\<exists>b'. ofpbuf_clone_with_headroom junk b h = Some b' \<and> ofpbuf_ok b' \<and>
    contents b' = contents b \<and> ofpbuf_headroom b' = h \<and> rel_ptrs b' = rel_ptrs b"
proof -
  obtain n where n: "ofpbuf_clone_data_with_headroom junk (contents b) h = Some n" "ofpbuf_ok n"
      "contents n = contents b" "ob_data n = h"
    using ofpbuf_clone_data_with_headroom_ok [of junk "contents b" h] by metis
  have ld: "ldn (ob_mem b) (ob_data b) (ob_size b) = Some (contents b)"
    using assms(1) by (simp add: ldn_def ofpbuf_ok_def contents_def)
  have ge: "case p of None \<Rightarrow> True | Some q \<Rightarrow> ob_data b \<le> q"
    if "p \<in> set [ob_l2 b, ob_l2_5 b, ob_l3 b, ob_l4 b, ob_l7 b]" for p
    using assms(2) that unfolding ptrs_ok_def by blast
  have ld': "ofpbuf_clone_with_headroom junk b h = Some (n\<lparr>
      ob_l2 := map_option (\<lambda>q. q + h - ob_data b) (ob_l2 b),
      ob_l2_5 := map_option (\<lambda>q. q + h - ob_data b) (ob_l2_5 b),
      ob_l3 := map_option (\<lambda>q. q + h - ob_data b) (ob_l3 b),
      ob_l4 := map_option (\<lambda>q. q + h - ob_data b) (ob_l4 b),
      ob_l7 := map_option (\<lambda>q. q + h - ob_data b) (ob_l7 b)\<rparr>)"
    by (simp add: ofpbuf_clone_with_headroom_def ld n(1,4) move_ptr_ge ge)
  have "rel_ptrs (the (ofpbuf_clone_with_headroom junk b h)) = rel_ptrs b"
    using ge by (simp add: ld' rel_ptrs_def n(4) rel_moved del: option.map_comp)
  with n(2-4) show ?thesis
    by (simp add: ld' ofpbuf_ok_def contents_def ofpbuf_headroom_def)
qed

theorem ofpbuf_clone_same_witness:
  "\<exists>b'. ofpbuf_clone_with_headroom (\<lambda>_. 0xAA) ((ofpbuf_use_const [1, 2, 3])\<lparr>ob_l3 := Some 2\<rparr>) 1 = Some b' \<and>
     contents b' = [1, 2, 3] \<and> rel_ptrs b' = [None, None, Some 2, None, None]"
  using ofpbuf_clone_same [of "(ofpbuf_use_const [1, 2, 3])\<lparr>ob_l3 := Some 2\<rparr>" "\<lambda>_. 0xAA" 1]
  by (auto simp: ofpbuf_ok_def ptrs_ok_def ofpbuf_use_const_def ofpbuf_use_raw_def contents_def rel_ptrs_def)

text \<open>\<open>ofpbuf_put_hex\<close> inverts a hexadecimal dump: it appends exactly the bytes dumped, stops at the
  first character that does not start a pair of hex digits, and reports the number of bytes added.\<close>

theorem ofpbuf_put_hex_hexdump:
  assumes "ofpbuf_ok b" and "ob_source b \<noteq> OFPBUF_STACK"
    and "s = [] \<or> hexit_value (hd s) < 0 \<and> hd s \<noteq> CHR '' ''"
  shows "\<exists>b'. ofpbuf_put_hex junk b (hexdump bs @ s) = Some (s, length bs, b') \<and>
    ofpbuf_ok b' \<and> contents b' = contents b @ bs"
proof -
  obtain b' where b': "ofpbuf_put_hex_loop junk b (hexdump bs @ s) = Some (s, b')" "ofpbuf_ok b'"
      "contents b' = contents b @ bs"
    using ofpbuf_put_hex_loop_hexdump [OF assms] by blast
  then have "ob_size b' = ob_size b + length bs"
    using length_contents [of b'] length_contents [of b] assms(1) by simp
  with b' show ?thesis by (simp add: ofpbuf_put_hex_def)
qed

theorem ofpbuf_put_hex_hexdump_witness:
  "\<exists>b'. ofpbuf_put_hex (\<lambda>_. 0) (ofpbuf_init (\<lambda>_. 0) 1) ''0a8100,rest'' = Some ('',rest'', 3, b') \<and>
     contents b' = [0x0a, 0x81, 0x00]"
  using ofpbuf_put_hex_hexdump [of "ofpbuf_init (\<lambda>_. 0) 1" "'',rest''" "\<lambda>_. 0" "[0x0a, 0x81, 0x00]"]
  by (auto simp: ofpbuf_ok_def ofpbuf_init_def ofpbuf_use_def ofpbuf_use_raw_def contents_def hexdump_def
      hexdigit_def hexit_value_def less_eq_char_def)

end
