(* ===== verification/Csum.thy ===== *)
theory Csum
  imports Prelude
begin

text \<open>
  The Internet checksum of \<open>lib/csum.c\<close>: the running 32-bit sum, the folding
  loop, and the incremental updates of RFC 1624. Sums are 32-bit words, so the
  wrap-around of a sum over a long buffer is part of the model.
\<close>

section \<open>Definitions\<close>

definition csum_add16 :: "u32 \<Rightarrow> u16 \<Rightarrow> u32" where
  "csum_add16 partial new = partial + ucast new"

definition csum_add32 :: "u32 \<Rightarrow> u32 \<Rightarrow> u32" where
  "csum_add32 partial new = partial + drop_bit 16 new + (new AND 0xffff)"

fun csum_continue :: "u32 \<Rightarrow> bytes \<Rightarrow> u32" where
  "csum_continue partial [] = partial"
| "csum_continue partial [x] = partial + ucast x"
| "csum_continue partial (a # b # data) = csum_continue (csum_add16 partial (le16 a b)) data"

text \<open>The \<open>while\<close> loop of \<open>csum_finish\<close>.\<close>

function csum_fold :: "u32 \<Rightarrow> u32" where
  "csum_fold partial = (if drop_bit 16 partial \<noteq> 0
     then csum_fold ((partial AND 0xffff) + drop_bit 16 partial) else partial)"
  by pat_completeness auto

lemma and_ffff: "unat ((x :: u32) AND 0xffff) = unat x mod 65536"
proof -
  have "x AND 0xffff = take_bit 16 x"
    by (simp add: take_bit_eq_mask mask_eq_exp_minus_1)
  then show ?thesis by (simp add: take_bit_eq_mod unat_mod_distrib)
qed

lemma unat_shift16: "unat (drop_bit 16 (x :: u32)) = unat x div 65536"
  by (simp add: drop_bit_eq_div unat_div_distrib)

lemma unat_csum_step:
  "unat ((x AND 0xffff) + drop_bit 16 (x :: u32)) = unat x mod 65536 + unat x div 65536"
proof -
  have "unat x div 65536 < 65536"
    using unat_less_2p [of x] by (simp add: less_mult_imp_div_less)
  then have "unat x mod 65536 + unat x div 65536 < 2 ^ 32"
    by simp
  then show ?thesis
    by (simp add: unat_word_ariths and_ffff unat_shift16)
qed

termination csum_fold
proof (relation "measure unat")
  fix x :: u32
  assume "drop_bit 16 x \<noteq> 0"
  then have "unat x div 65536 \<noteq> 0"
    by (metis unat_shift16 unsigned_0 unat_eqI)
  moreover have "unat x = unat x mod 65536 + unat x div 65536 * 65536"
    by (simp add: mod_div_mult_eq)
  ultimately have "unat x mod 65536 + unat x div 65536 < unat x"
    by linarith
  then show "((x AND 0xffff) + drop_bit 16 x, x) \<in> measure unat"
    by (simp add: unat_csum_step)
qed simp

declare csum_fold.simps [simp del]

definition csum_finish :: "u32 \<Rightarrow> u16" where
  "csum_finish partial = ucast (NOT (csum_fold partial))"

definition csum :: "bytes \<Rightarrow> u16" where
  "csum data = csum_finish (csum_continue 0 data)"

definition recalc_csum16 :: "u16 \<Rightarrow> u16 \<Rightarrow> u16 \<Rightarrow> u16" where
  "recalc_csum16 old_csum old_u16 new_u16 =
     (let hc_complement = NOT old_csum; m_complement = NOT old_u16; m_prime = new_u16;
          sum = ucast hc_complement + ucast m_complement + ucast m_prime
      in csum_finish sum)"

definition recalc_csum32 :: "u16 \<Rightarrow> u32 \<Rightarrow> u32 \<Rightarrow> u16" where
  "recalc_csum32 old_csum old_u32 new_u32 =
     recalc_csum16 (recalc_csum16 old_csum (lo16 old_u32) (lo16 new_u32))
       (lo16 (drop_bit 16 old_u32)) (lo16 (drop_bit 16 new_u32))"

text \<open>The loop over the four words of an IPv6 address.\<close>

definition recalc_csum128 :: "u16 \<Rightarrow> u32 list \<Rightarrow> u32 list \<Rightarrow> u16" where
  "recalc_csum128 old_csum old_u32 new_u32 =
     for_loop 0 4 (\<lambda>i new_csum. recalc_csum32 new_csum (old_u32 ! i) (new_u32 ! i)) old_csum"


section \<open>The reference: RFC 1071\<close>

text \<open>
  The specification adds 16-bit words with an end-around carry and complements
  the result; a trailing odd byte is a word whose second byte is zero.
\<close>

fun words16 :: "bytes \<Rightarrow> u16 list" where
  "words16 [] = []"
| "words16 [x] = [le16 x 0]"
| "words16 (a # b # data) = le16 a b # words16 data"

definition ones_add :: "u16 \<Rightarrow> u16 \<Rightarrow> u16" where
  "ones_add a b = (if unat a + unat b < 65536 then a + b else a + b + 1)"

definition rfc1071 :: "bytes \<Rightarrow> u16" where
  "rfc1071 data = NOT (fold (\<lambda>w acc. ones_add acc w) (words16 data) 0)"

section \<open>Sums modulo 65535\<close>

definition ones_fold :: "nat \<Rightarrow> nat" where
  "ones_fold n = (if n = 0 then 0 else (n - 1) mod 65535 + 1)"

definition word_sum :: "bytes \<Rightarrow> nat" where
  "word_sum data = sum_list (map unat (words16 data))"

lemma ones_fold_small: "n < 65536 \<Longrightarrow> ones_fold n = n"
  by (auto simp: ones_fold_def)

lemma ones_fold_le: "ones_fold n \<le> 65535"
proof -
  have "Suc ((n - 1) mod 65535) \<le> 65535"
    by (rule Suc_leI) (rule mod_less_divisor, simp)
  then show ?thesis by (simp only: ones_fold_def split: if_split) simp
qed

lemma ones_fold_step:
  assumes "65536 \<le> n"
  shows "ones_fold (n mod 65536 + n div 65536) = ones_fold n"
proof -
  define q r where "q = n div 65536" and "r = n mod 65536"
  have n: "n = q * 65536 + r" by (simp add: q_def r_def)
  have q: "0 < q" using assms by (simp add: q_def div_greater_zero_iff)
  have "n - 1 = q + r - 1 + q * 65535" using q by (simp add: n)
  then have "(n - 1) mod 65535 = (q + r - 1) mod 65535"
    by (metis mod_mult_self1)
  then show ?thesis
    using q assms by (simp add: ones_fold_def add.commute flip: q_def r_def)
qed

lemma unat_csum_fold: "unat (csum_fold x) = ones_fold (unat x)"
proof (induction x rule: csum_fold.induct)
  case (1 x)
  show ?case
  proof (cases "drop_bit 16 x \<noteq> 0")
    case True
    then have "unat x div 65536 \<noteq> 0"
      by (metis unat_shift16 unsigned_0 unat_eqI)
    then have "65536 \<le> unat x" by (simp add: div_eq_0_iff)
    with True 1 show ?thesis
      by (simp add: csum_fold.simps [of x] unat_csum_step ones_fold_step)
  next
    case False
    then have "unat x div 65536 = 0"
      by (metis unat_shift16 unsigned_0)
    then have "unat x < 65536" by (simp add: div_eq_0_iff)
    with False show ?thesis
      by (simp add: csum_fold.simps [of x] ones_fold_small)
  qed
qed

lemma unat_NOT16: "unat (NOT (x :: u16)) = 65535 - unat x"
proof -
  have "NOT x = - 1 - x" by (simp add: not_eq_complement)
  moreover have "unat (- 1 - x) = unat (- 1 :: u16) - unat x"
    by (rule unat_sub) simp
  ultimately show ?thesis by (simp add: unsigned_minus_1_eq_mask mask_eq_exp_minus_1)
qed

lemma unat_csum_finish: "unat (csum_finish x) = 65535 - ones_fold (unat x)"
proof -
  have "csum_finish x = NOT (ucast (csum_fold x))"
    by (rule bit_word_eqI) (simp add: csum_finish_def bit_ucast_iff bit_not_iff)
  moreover have "unat (ucast (csum_fold x) :: u16) = ones_fold (unat x)"
    using ones_fold_le [of "unat x"]
    by (simp add: unsigned_ucast_eq take_bit_eq_mod unat_csum_fold)
  ultimately show ?thesis by (simp add: unat_NOT16)
qed

lemma unat_csum_continue: "unat (csum_continue p data) = (unat p + word_sum data) mod 2 ^ 32"
proof (induction p data rule: csum_continue.induct)
  case (1 p)
  then show ?case using unat_less_2p [of p] by (simp add: word_sum_def)
next
  case (2 p x)
  then show ?case
    by (simp add: word_sum_def unat_word_ariths unat_le16 unsigned_ucast_eq take_bit_eq_mod
        unat_byte_less mod_add_right_eq)
next
  case (3 p a b data)
  have "unat (csum_add16 p (le16 a b)) = (unat p + unat (le16 a b)) mod 2 ^ 32"
    using unat_u16_less [of "le16 a b"]
    by (simp add: csum_add16_def unat_word_ariths unsigned_ucast_eq take_bit_eq_mod)
  with 3 show ?case
    by (simp add: word_sum_def mod_add_left_eq add.assoc)
qed

lemma word_sum_bound: "word_sum data \<le> 65535 * ((length data + 1) div 2)"
proof (induction data rule: words16.induct)
  case (2 x)
  then show ?case using unat_u16_less [of "le16 x 0"] by (simp add: word_sum_def)
next
  case (3 a b data)
  then show ?case using unat_u16_less [of "le16 a b"] by (simp add: word_sum_def)
qed (simp add: word_sum_def)

lemma unat_csum:
  assumes "length data \<le> 131074"
  shows "unat (csum data) = 65535 - ones_fold (word_sum data)"
proof -
  have "(length data + 1) div 2 \<le> 65537" using assms by simp
  then have "word_sum data < 2 ^ 32" using word_sum_bound [of data] by simp
  then show ?thesis
    by (simp add: csum_def unat_csum_finish unat_csum_continue)
qed


lemma ones_fold_add: "ones_fold (ones_fold m + n) = ones_fold (m + n)"
proof (cases "m = 0")
  case False
  then have "ones_fold m + n - 1 = (m - 1) mod 65535 + n"
    by (simp add: ones_fold_def)
  then have "(ones_fold m + n - 1) mod 65535 = (m - 1 + n) mod 65535"
    by (simp add: mod_add_left_eq)
  moreover have "m + n - 1 = m - 1 + n" using False by simp
  moreover have "ones_fold m \<noteq> 0" using False by (simp add: ones_fold_def)
  ultimately show ?thesis using False by (simp add: ones_fold_def [of "_ + n"])
qed (simp add: ones_fold_def)

lemma unat_ones_add: "unat (ones_add a b) = ones_fold (unat a + unat b)"
proof (cases "unat a + unat b < 65536")
  case True
  then show ?thesis by (simp add: ones_add_def unat_word_ariths ones_fold_small)
next
  case False
  define n where "n = unat a + unat b"
  have n: "65536 \<le> n" "n \<le> 131070"
    using False unat_u16_less [of a] unat_u16_less [of b] by (simp_all add: n_def)
  have "unat (a + b + 1) = (n + 1) mod 65536"
    by (simp add: unat_word_ariths n_def mod_Suc_eq)
  also have "\<dots> = n - 65535" using n by (simp add: mod_if)
  also have "\<dots> = ones_fold n"
  proof -
    obtain d where d: "n = 65536 + d" using n(1) le_Suc_ex by blast
    have "(d + 65535) mod 65535 = d" using n(2) by (simp add: d)
    then have "(n - 1) mod 65535 = d" by (simp add: d add.commute)
    then show ?thesis by (simp add: ones_fold_def d)
  qed
  finally show ?thesis using False by (simp add: ones_add_def n_def)
qed

lemma unat_fold_ones_add:
  "unat (fold (\<lambda>w acc. ones_add acc w) ws acc) = ones_fold (unat acc + sum_list (map unat ws))"
proof (induction ws arbitrary: acc)
  case Nil
  then show ?case by (simp add: ones_fold_small unat_u16_less)
next
  case (Cons w ws)
  then show ?case by (simp add: unat_ones_add ones_fold_add add.assoc)
qed

text \<open>C24: For every buffer of at most 131074 bytes (which no IP packet exceeds) the
  deferred-carry checksum of the code is the RFC 1071 checksum: the 32-bit
  running sum does not wrap, and folding its carries at the end gives the same
  word as an end-around carry after every addition.
\<close>

theorem csum_is_rfc1071:
  assumes "length data \<le> 131074"
  shows "csum data = rfc1071 data"
  by (rule unat_eqI)
    (simp add: assms unat_csum rfc1071_def unat_NOT16 unat_fold_ones_add word_sum_def)

theorem csum_is_rfc1071_witness:
  "length [0x45, 0, 0x1c :: u8] \<le> 131074 \<and> csum [0x45, 0, 0x1c] = rfc1071 [0x45, 0, 0x1c]"
  using csum_is_rfc1071 [of "[0x45, 0, 0x1c]"] by simp

section \<open>Incremental update\<close>

lemma unat_recalc_csum16:
  "unat (recalc_csum16 c m m') = 65535 - ones_fold ((65535 - unat c) + (65535 - unat m) + unat m')"
proof -
  have "(65535 - unat c) + (65535 - unat m) + unat m' < 2 ^ 32"
    using unat_u16_less [of m'] by simp
  moreover have "unat (ucast x :: u32) = unat x" for x :: u16
    using unat_u16_less [of x] by (simp add: unsigned_ucast_eq take_bit_eq_mod)
  ultimately show ?thesis
    by (simp add: recalc_csum16_def Let_def unat_csum_finish unat_word_ariths unat_NOT16
        mod_add_left_eq mod_add_right_eq)
qed

lemma mod_add_cancel_nat:
  assumes "(a + k) mod n = (b + k) mod (n :: nat)"
  shows "a mod n = b mod n"
proof -
  have "(int a + int k) mod int n = (int b + int k) mod int n"
    using arg_cong [OF assms, of int] by (simp add: zmod_int)
  then have "int a mod int n = int b mod int n"
    by (simp add: mod_eq_dvd_iff)
  then show ?thesis by (metis nat_int zmod_int)
qed

lemma ones_fold_decomp: "\<exists>k. n = ones_fold n + 65535 * k"
proof (cases "n = 0")
  case False
  have "n - 1 = (n - 1) mod 65535 + 65535 * ((n - 1) div 65535)" by simp
  then show ?thesis using False
    by (intro exI [of _ "(n - 1) div 65535"]) (simp add: ones_fold_def)
qed (simp add: ones_fold_def)

lemma ones_fold_max_iff: "ones_fold n = 65535 \<longleftrightarrow> 0 < n \<and> n mod 65535 = 0"
  by (cases n) (auto simp: ones_fold_def mod_Suc)

lemma recalc_csum16_mod:
  "(unat (recalc_csum16 c m m') + unat m') mod 65535 = (unat c + unat m) mod 65535"
proof -
  define x where "x = (65535 - unat c) + (65535 - unat m) + unat m'"
  obtain k where k: "x = ones_fold x + 65535 * k" using ones_fold_decomp by blast
  have c': "unat (recalc_csum16 c m m') + ones_fold x = 65535"
    using ones_fold_le [of x] by (simp add: unat_recalc_csum16 x_def)
  have "unat c \<le> 65535" "unat m \<le> 65535"
    using unat_u16_less [of c] unat_u16_less [of m] by simp_all
  with k c' have "unat (recalc_csum16 c m m') + unat m' + 65535 = unat c + unat m + 65535 * k"
    by (simp add: x_def)
  then show ?thesis by (metis mod_add_self2 mod_mult_self2)
qed

lemma recalc_csum32_mod:
  "(unat (recalc_csum32 c m m') + unat (lo16 m') + unat (hi16 m')) mod 65535 =
   (unat c + unat (lo16 m) + unat (hi16 m)) mod 65535"
proof -
  define c1 where "c1 = recalc_csum16 c (lo16 m) (lo16 m')"
  have 1: "(unat c1 + unat (lo16 m')) mod 65535 = (unat c + unat (lo16 m)) mod 65535"
    by (simp add: c1_def recalc_csum16_mod)
  have hi: "lo16 (drop_bit 16 x) = hi16 x" for x by (simp add: lo16_def hi16_def)
  have 2: "(unat (recalc_csum32 c m m') + unat (hi16 m')) mod 65535 = (unat c1 + unat (hi16 m)) mod 65535"
    by (simp add: recalc_csum32_def c1_def hi recalc_csum16_mod)
  have "(unat (recalc_csum32 c m m') + unat (hi16 m') + unat (lo16 m')) mod 65535 =
    (unat c1 + unat (hi16 m) + unat (lo16 m')) mod 65535"
    by (rule mod_add_cong [OF 2 refl])
  moreover have "(unat c1 + unat (lo16 m') + unat (hi16 m)) mod 65535 =
    (unat c + unat (lo16 m) + unat (hi16 m)) mod 65535"
    by (rule mod_add_cong [OF 1 refl])
  ultimately show ?thesis by (simp add: ac_simps)
qed

section \<open>Valid checksums\<close>

lemma csum_zero_iff:
  assumes "length data \<le> 131074"
  shows "csum data = 0 \<longleftrightarrow> 0 < word_sum data \<and> word_sum data mod 65535 = 0"
proof -
  have "csum data = 0 \<longleftrightarrow> unat (csum data) = 0" by (simp add: unat_eq_0)
  also have "\<dots> \<longleftrightarrow> ones_fold (word_sum data) = 65535"
    using ones_fold_le [of "word_sum data"] by (auto simp: assms unat_csum)
  finally show ?thesis by (simp add: ones_fold_max_iff)
qed

lemma words16_append: "even (length xs) \<Longrightarrow> words16 (xs @ ys) = words16 xs @ words16 ys"
  by (induction xs rule: words16.induct) auto

lemma word_sum_append: "even (length xs) \<Longrightarrow> word_sum (xs @ ys) = word_sum xs + word_sum ys"
  by (simp add: word_sum_def words16_append)

lemma word_sum_pos: "x \<in> set data \<Longrightarrow> x \<noteq> 0 \<Longrightarrow> 0 < word_sum data"
proof (induction data rule: words16.induct)
  case (2 y)
  then show ?case by (auto simp: word_sum_def unat_le16 unat_gt_0)
next
  case (3 a b data)
  then show ?case by (auto simp: word_sum_def unat_le16 unat_gt_0)
qed (simp add: word_sum_def)

text \<open>Storing a 16-bit field at an even offset replaces its term of the sum.\<close>

lemma word_sum_st16:
  assumes "st16 data i v = Some data'" and "ld16 data i = Some w" and "even i"
  shows "word_sum data' + unat w = word_sum data + unat v"
proof -
  have i: "i + 2 \<le> length data" and w: "w = le16 (data ! i) (data ! (i + 1))"
    using assms(2) by (auto simp: ld16_def split: if_splits)
  have d: "data = take i data @ [data ! i, data ! (i + 1)] @ drop (i + 2) data"
    using i by (simp add: Cons_nth_drop_Suc)
  have "word_sum data = word_sum (take i data) + (unat w + word_sum (drop (i + 2) data))"
    by (subst d) (use assms(3) i in \<open>simp add: word_sum_append w, simp add: word_sum_def\<close>)
  moreover have "word_sum data' = word_sum (take i data) + (unat v + word_sum (drop (i + 2) data))"
    using assms(1,3) i by (auto simp: st16_def stn_Some_iff word_sum_append)
      (simp add: word_sum_def)
  ultimately show ?thesis by simp
qed

lemma word_sum_st32:
  assumes "st32 data i v = Some data'" and "ld32 data i = Some w" and "even i"
  shows "word_sum data' + (unat (lo16 w) + unat (hi16 w)) = word_sum data + (unat (lo16 v) + unat (hi16 v))"
proof -
  have le: "i + 4 \<le> length data"
    using assms(2) by (auto simp: ld32_def split: if_splits)
  obtain d1 where d1: "st16 data i (lo16 v) = Some d1"
    using le stn_defined [of i "[lo8 (lo16 v), hi8 (lo16 v)]" data] by (auto simp: st16_def)
  have d2: "st16 d1 (i + 2) (hi16 v) = Some data'"
    using assms(1) d1 le by (auto simp: st32_def st16_def stn_Some_iff min_def)
  have l: "ld16 data i = Some (lo16 w)" "ld16 data (i + 2) = Some (hi16 w)"
    using assms(2) le by (auto simp: ld32_def ld16_def eval_nat_numeral)
  have l2: "ld16 d1 (i + 2) = Some (hi16 w)"
    using l(2) by (simp add: ld16_st16_other [OF d1])
  show ?thesis
    using word_sum_st16 [OF d1 l(1) assms(3)] word_sum_st16 [OF d2 l2] assms(3) by simp
qed

text \<open>A byte counts once at an even offset and 256 times at an odd one.\<close>

lemma word_sum_st8_even:
  assumes "st8 data i v = Some data'" and "ld8 data i = Some w" and "even i" and "i + 2 \<le> length data"
  shows "word_sum data' + unat w = word_sum data + unat v"
proof -
  have s: "st16 data i (le16 v (data ! (i + 1))) = Some data'"
    using assms(1,4) by (auto simp: st16_def st8_def stn_Some_iff Cons_nth_drop_Suc)
  have l: "ld16 data i = Some (le16 w (data ! (i + 1)))"
    using assms(2,4) by (auto simp: ld8_def ld16_def)
  show ?thesis
    using word_sum_st16 [OF s l assms(3)] by (simp add: unat_le16)
qed

lemma word_sum_st8_odd:
  assumes "st8 data (i + 1) v = Some data'" and "ld8 data (i + 1) = Some w" and "even i"
  shows "word_sum data' + 256 * unat w = word_sum data + 256 * unat v"
proof -
  have le: "i + 2 \<le> length data"
    using assms(2) by (auto simp: ld8_def split: if_splits)
  have s: "st16 data i (le16 (data ! i) v) = Some data'"
    using assms(1) le by (auto simp: st16_def st8_def stn_Some_iff take_Suc_conv_app_nth)
  have l: "ld16 data i = Some (le16 (data ! i) w)"
    using assms(2) le by (auto simp: ld8_def ld16_def)
  show ?thesis
    using word_sum_st16 [OF s l assms(3)] by (simp add: unat_le16)
qed

text \<open>C25: The RFC 1624 update keeps a valid checksum valid: if the checksum of a
  buffer with its checksum field in place is zero (what a receiver tests), and
  one other aligned 16-bit field is overwritten together with the checksum field,
  the latter by \<open>recalc_csum16\<close>, then the checksum of the result is zero again.
  Only a buffer that becomes all zero is excluded, which no header with a
  version or a port can be.
\<close>

theorem recalc_csum16_keeps_valid:
  assumes "csum data = 0" and "length data \<le> 131074"
    and "even i" and "even j" and "i \<noteq> j"
    and "ld16 data i = Some c" and "ld16 data j = Some m"
    and "st16 data i (recalc_csum16 c m m') = Some data1" and "st16 data1 j m' = Some data2"
    and "x \<in> set data2" and "x \<noteq> 0"
  shows "csum data2 = 0"
proof -
  have "j + 2 \<le> i \<or> i + 2 \<le> j" using assms(3-5) by presburger
  then have m1: "ld16 data1 j = Some m" using assms(7,8) by (simp add: ld16_st16_other)
  have "word_sum data2 + unat m + unat c = word_sum data + unat (recalc_csum16 c m m') + unat m'"
    using word_sum_st16 [OF assms(8,6,3)] word_sum_st16 [OF assms(9) m1 assms(4)] by simp
  then have "(word_sum data2 + (unat m + unat c)) mod 65535 =
      (word_sum data + (unat (recalc_csum16 c m m') + unat m')) mod 65535" by (simp add: add.assoc)
  also have "\<dots> = (word_sum data + (unat m + unat c)) mod 65535"
    by (rule mod_add_cong) (simp_all add: recalc_csum16_mod add.commute [of "unat m"])
  finally have "word_sum data2 mod 65535 = word_sum data mod 65535"
    by (rule mod_add_cancel_nat)
  moreover have "length data2 = length data" using assms(8,9) by (simp add: length_st16)
  ultimately show ?thesis
    using assms(1,2) word_sum_pos [OF assms(10,11)] by (simp add: csum_zero_iff)
qed

theorem recalc_csum16_keeps_valid_witness:
  "csum [0xCB, 0xED, 0x34, 0x12] = 0 \<and>
   (\<exists>d1 d2. st16 [0xCB, 0xED, 0x34, 0x12] 0 (recalc_csum16 0xEDCB 0x1234 0x5678) = Some d1 \<and>
     st16 d1 2 0x5678 = Some d2 \<and> csum d2 = 0)"
proof -
  let ?d = "[0xCB, 0xED, 0x34, 0x12] :: bytes"
  let ?c = "recalc_csum16 0xEDCB 0x1234 0x5678"
  have c: "csum ?d = 0" by (simp add: csum_zero_iff word_sum_def unat_le16)
  have l: "ld16 ?d 0 = Some 0xEDCB" "ld16 ?d 2 = Some 0x1234"
    by (simp_all add: ld16_def le16_def)
  have s1: "st16 ?d 0 ?c = Some [lo8 ?c, hi8 ?c, 0x34, 0x12]"
    by (simp add: st16_def stn_def)
  have s2: "st16 [lo8 ?c, hi8 ?c, 0x34, 0x12] 2 0x5678 = Some [lo8 ?c, hi8 ?c, 0x78, 0x56]"
    by (simp add: st16_def stn_def lo8_def hi8_def)
  have "csum [lo8 ?c, hi8 ?c, 0x78, 0x56] = 0"
    using recalc_csum16_keeps_valid [OF c _ _ _ _ l s1 s2, of "0x78"] by simp
  with c s1 s2 show ?thesis by blast
qed

end
