(* ===== verification/Packets.thy ===== *)
theory Packets
  imports Ofpbuf Csum
begin

text \<open>
  The header editing functions of \<open>lib/packets.c\<close>: VLAN tags and MPLS label stacks are pushed and
  popped at the front of a packet buffer; Ethernet headers are composed. A field of type
  \<open>ovs_be16\<close> or \<open>ovs_be32\<close> is the value a little-endian load of its bytes gives. A null pointer
  that the code dereferences makes the result \<open>None\<close>.
\<close>

section \<open>Constants and helpers\<close>

definition ETH_TYPE_VLAN :: u16 where "ETH_TYPE_VLAN = 0x8100"
definition ETH_TYPE_MPLS :: u16 where "ETH_TYPE_MPLS = 0x8847"
definition ETH_TYPE_MPLS_MCAST :: u16 where "ETH_TYPE_MPLS_MCAST = 0x8848"
definition ETH_TYPE_RARP :: u16 where "ETH_TYPE_RARP = 0x8035"

definition be16_bytes :: "u16 \<Rightarrow> bytes" where
  "be16_bytes v = [lo8 v, hi8 v]"

definition be32_bytes :: "u32 \<Rightarrow> bytes" where
  "be32_bytes v = be16_bytes (lo16 v) @ be16_bytes (hi16 v)"

definition store :: "ofpbuf \<Rightarrow> nat \<Rightarrow> bytes \<Rightarrow> ofpbuf option" where
  "store b off bs = map_option (\<lambda>m. b\<lparr>ob_mem := m\<rparr>) (stn (ob_mem b) off bs)"

definition ptr_sub :: "nat \<Rightarrow> nat \<Rightarrow> nat option" where
  "ptr_sub p n = (if n \<le> p then Some (p - n) else None)"

section \<open>VLAN tags\<close>

definition eth_push_vlan :: "junk \<Rightarrow> ofpbuf \<Rightarrow> u16 \<Rightarrow> ofpbuf option" where
  "eth_push_vlan junk packet tci = do {
     dst \<leftarrow> ldn (ob_mem packet) (ob_data packet) 6;
     src \<leftarrow> ldn (ob_mem packet) (ob_data packet + 6) 6;
     typ \<leftarrow> ld16 (ob_mem packet) (ob_data packet + 12);
     let tmp = dst @ src @ be16_bytes (htons ETH_TYPE_VLAN) @
       be16_bytes (tci AND htons (NOT 0x1000)) @ be16_bytes typ;
     packet \<leftarrow> ofpbuf_push_uninit junk packet 4;
     packet \<leftarrow> store packet (ob_data packet) tmp;
     Some (packet\<lparr>ob_l2 := Some (ob_data packet)\<rparr>)
   }"

definition eth_pop_vlan :: "ofpbuf \<Rightarrow> ofpbuf option" where
  "eth_pop_vlan packet =
     (if ob_size packet < 18 then Some packet
      else do {
        veh \<leftarrow> ob_l2 packet;
        typ \<leftarrow> ld16 (ob_mem packet) (veh + 12);
        if typ \<noteq> htons ETH_TYPE_VLAN then Some packet
        else do {
          dst \<leftarrow> ldn (ob_mem packet) veh 6;
          src \<leftarrow> ldn (ob_mem packet) (veh + 6) 6;
          next_type \<leftarrow> ld16 (ob_mem packet) (veh + 16);
          packet \<leftarrow> ofpbuf_pull packet 4;
          let packet = packet\<lparr>ob_l2 := Some (veh + 4)\<rparr>;
          store packet (ob_data packet) (dst @ src @ be16_bytes next_type)
        }
      })"

section \<open>MPLS label stacks\<close>

definition eth_type_mpls :: "u16 \<Rightarrow> bool" where
  "eth_type_mpls eth_type \<longleftrightarrow> eth_type = htons ETH_TYPE_MPLS \<or> eth_type = htons ETH_TYPE_MPLS_MCAST"

definition MPLS_TTL_MASK :: u32 where "MPLS_TTL_MASK = 0x000000ff"
definition MPLS_BOS_MASK :: u32 where "MPLS_BOS_MASK = 0x00000100"
definition MPLS_TC_MASK :: u32 where "MPLS_TC_MASK = 0x00000e00"
definition MPLS_LABEL_MASK :: u32 where "MPLS_LABEL_MASK = 0xfffff000"

lemmas mpls_masks = MPLS_TTL_MASK_def MPLS_BOS_MASK_def MPLS_TC_MASK_def MPLS_LABEL_MASK_def

text \<open>The loop of \<open>eth_mpls_depth\<close>; the depth is a 16-bit counter.\<close>

function mpls_depth_from :: "ofpbuf \<Rightarrow> nat \<Rightarrow> u16 \<Rightarrow> u16 option" where
  "mpls_depth_from packet mh depth =
     (if ob_data packet \<le> mh + 4 \<and> mh + 4 \<le> ob_data packet + ob_size packet then
        case ld32 (ob_mem packet) mh of
          None \<Rightarrow> None
        | Some lse \<Rightarrow> if lse AND htonl MPLS_BOS_MASK \<noteq> 0 then Some (depth + 1)
                      else mpls_depth_from packet (mh + 4) (depth + 1)
      else Some depth)"
  by pat_completeness auto

termination mpls_depth_from
  by (relation "measure (\<lambda>(packet, mh, depth). ob_data packet + ob_size packet - mh)") auto

declare mpls_depth_from.simps [simp del]

definition eth_mpls_depth :: "ofpbuf \<Rightarrow> u16 option" where
  "eth_mpls_depth packet = (case ob_l2_5 packet of None \<Rightarrow> Some 0 | Some mh \<Rightarrow> mpls_depth_from packet mh 0)"

definition set_ethertype :: "ofpbuf \<Rightarrow> u16 \<Rightarrow> ofpbuf option" where
  "set_ethertype packet eth_type = do {
     typ \<leftarrow> ld16 (ob_mem packet) (ob_data packet + 12);
     if typ = htons ETH_TYPE_VLAN then do {
       l \<leftarrow> (case ob_l2_5 packet of Some l \<Rightarrow> Some l | None \<Rightarrow> ob_l3 packet);
       p \<leftarrow> ptr_sub l 2;
       store packet p (be16_bytes eth_type)
     } else store packet (ob_data packet + 12) (be16_bytes eth_type)
   }"

definition is_mpls :: "ofpbuf \<Rightarrow> bool" where
  "is_mpls packet \<longleftrightarrow> ob_l2_5 packet \<noteq> None"

definition set_mpls_lse_ttl :: "u32 \<Rightarrow> u8 \<Rightarrow> u32" where
  "set_mpls_lse_ttl lse ttl =
     (lse AND NOT (htonl MPLS_TTL_MASK)) OR htonl (push_bit 0 (ucast ttl) AND MPLS_TTL_MASK)"

definition set_mpls_lse_tc :: "u32 \<Rightarrow> u8 \<Rightarrow> u32" where
  "set_mpls_lse_tc lse tc =
     (lse AND NOT (htonl MPLS_TC_MASK)) OR htonl (push_bit 9 (ucast tc) AND MPLS_TC_MASK)"

definition set_mpls_lse_label :: "u32 \<Rightarrow> u32 \<Rightarrow> u32" where
  "set_mpls_lse_label lse label =
     (lse AND NOT (htonl MPLS_LABEL_MASK)) OR htonl (push_bit 12 (ntohl label) AND MPLS_LABEL_MASK)"

definition set_mpls_lse_bos :: "u32 \<Rightarrow> u8 \<Rightarrow> u32" where
  "set_mpls_lse_bos lse bos =
     (lse AND NOT (htonl MPLS_BOS_MASK)) OR htonl (push_bit 8 (ucast bos) AND MPLS_BOS_MASK)"

definition set_mpls_lse_values :: "u8 \<Rightarrow> u8 \<Rightarrow> u8 \<Rightarrow> u32 \<Rightarrow> u32" where
  "set_mpls_lse_values ttl tc bos label =
     (let lse = htonl 0;
          lse = set_mpls_lse_ttl lse ttl;
          lse = set_mpls_lse_tc lse tc;
          lse = set_mpls_lse_bos lse bos;
          lse = set_mpls_lse_label lse label
      in lse)"

definition mpls_lse_to_label :: "u32 \<Rightarrow> u32" where
  "mpls_lse_to_label lse = drop_bit 12 (ntohl lse AND MPLS_LABEL_MASK)"

definition mpls_lse_to_tc :: "u32 \<Rightarrow> u8" where
  "mpls_lse_to_tc lse = ucast (drop_bit 9 (ntohl lse AND MPLS_TC_MASK))"

definition mpls_lse_to_ttl :: "u32 \<Rightarrow> u8" where
  "mpls_lse_to_ttl lse = ucast (drop_bit 0 (ntohl lse AND MPLS_TTL_MASK))"

definition mpls_lse_to_bos :: "u32 \<Rightarrow> u8" where
  "mpls_lse_to_bos lse = (if lse AND htonl MPLS_BOS_MASK \<noteq> 0 then 1 else 0)"

definition push_mpls_lse :: "junk \<Rightarrow> ofpbuf \<Rightarrow> u32 \<Rightarrow> ofpbuf option" where
  "push_mpls_lse junk packet mh = do {
     packet \<leftarrow> ofpbuf_push_uninit junk packet 4;
     l2 \<leftarrow> ob_l2 packet;
     l2_5 \<leftarrow> ob_l2_5 packet;
     let header = ob_data packet;
     len \<leftarrow> ptr_sub l2_5 l2;
     h \<leftarrow> ldn (ob_mem packet) l2 len;
     packet \<leftarrow> store packet header h;
     packet \<leftarrow> store packet (header + len) (be32_bytes mh);
     l2' \<leftarrow> ptr_sub l2 4;
     l2_5' \<leftarrow> ptr_sub l2_5 4;
     Some (packet\<lparr>ob_l2 := Some l2', ob_l2_5 := Some l2_5'\<rparr>)
   }"

definition set_mpls_lse :: "ofpbuf \<Rightarrow> u32 \<Rightarrow> ofpbuf option" where
  "set_mpls_lse packet mpls_lse = (case ob_l2_5 packet of
       Some mh \<Rightarrow> store packet mh (be32_bytes mpls_lse) | None \<Rightarrow> Some packet)"

definition push_mpls :: "junk \<Rightarrow> ofpbuf \<Rightarrow> u16 \<Rightarrow> u32 \<Rightarrow> ofpbuf option" where
  "push_mpls junk packet ethtype lse =
     (if \<not> eth_type_mpls ethtype then Some packet
      else do {
        packet \<leftarrow> (if \<not> is_mpls packet then do {
            packet \<leftarrow> set_ethertype packet ethtype;
            Some (packet\<lparr>ob_l2_5 := ob_l3 packet\<rparr>)
          } else Some packet);
        push_mpls_lse junk packet lse
      })"

definition pop_mpls :: "ofpbuf \<Rightarrow> u16 \<Rightarrow> ofpbuf option" where
  "pop_mpls packet ethtype = (case ob_l2_5 packet of
       None \<Rightarrow> Some packet
     | Some mh \<Rightarrow> do {
         l2 \<leftarrow> ob_l2 packet;
         len \<leftarrow> ptr_sub mh l2;
         packet \<leftarrow> set_ethertype packet ethtype;
         lse \<leftarrow> ld32 (ob_mem packet) mh;
         let packet = packet\<lparr>ob_l2_5 := (if lse AND htonl MPLS_BOS_MASK \<noteq> 0 then None else Some (mh + 4))\<rparr>;
         h \<leftarrow> ldn (ob_mem packet) (ob_data packet) len;
         packet \<leftarrow> store packet (ob_data packet + 4) h;
         sz \<leftarrow> ptr_sub (ob_size packet) 4;
         Some (packet\<lparr>ob_size := sz, ob_data := ob_data packet + 4, ob_l2 := Some (l2 + 4)\<rparr>)
       })"

section \<open>Composing Ethernet frames\<close>

text \<open>\<open>eth_compose\<close> leaves the payload uninitialised; the offset of the payload is returned.\<close>

definition eth_compose :: "junk \<Rightarrow> ofpbuf \<Rightarrow> bytes \<Rightarrow> bytes \<Rightarrow> u16 \<Rightarrow> nat \<Rightarrow> (nat \<times> ofpbuf) option" where
  "eth_compose junk b eth_dst eth_src eth_type n = do {
     let b = ofpbuf_clear b;
     b \<leftarrow> ofpbuf_prealloc_tailroom junk b (2 + 14 + 4 + n);
     b \<leftarrow> ofpbuf_reserve junk b (2 + 4);
     (eth, b) \<leftarrow> ofpbuf_put_uninit junk b 14;
     (d, b) \<leftarrow> ofpbuf_put_uninit junk b n;
     b \<leftarrow> store b eth (take 6 eth_dst @ take 6 eth_src @ be16_bytes (htons eth_type));
     Some (d, b\<lparr>ob_l2 := Some eth, ob_l3 := Some d\<rparr>)
   }"

definition compose_rarp :: "junk \<Rightarrow> ofpbuf \<Rightarrow> bytes \<Rightarrow> ofpbuf option" where
  "compose_rarp junk b eth_src = do {
     let b = ofpbuf_clear b;
     b \<leftarrow> ofpbuf_prealloc_tailroom junk b (2 + 14 + 4 + 28);
     b \<leftarrow> ofpbuf_reserve junk b (2 + 4);
     (eth, b) \<leftarrow> ofpbuf_put_uninit junk b 14;
     b \<leftarrow> store b eth (replicate 6 0xff @ take 6 eth_src @ be16_bytes (htons ETH_TYPE_RARP));
     (arp, b) \<leftarrow> ofpbuf_put_uninit junk b 28;
     store b arp (be16_bytes (htons 1) @ be16_bytes (htons 0x0800) @ [6, 4] @ be16_bytes (htons 3) @
       take 6 eth_src @ be32_bytes 0 @ take 6 eth_src @ be32_bytes 0)
   }"

section \<open>Loads and stores on the contents\<close>

lemma contents_seg: "contents b = seg (ob_data b) (ob_size b) (ob_mem b)"
  by (simp add: contents_def seg_def)

lemma length_be16_bytes [simp]: "length (be16_bytes v) = 2"
  by (simp add: be16_bytes_def)

lemma length_be32_bytes [simp]: "length (be32_bytes v) = 4"
  by (simp add: be32_bytes_def)

lemma be16_bytes_le16 [simp]: "be16_bytes (le16 a b) = [a, b]"
  by (simp add: be16_bytes_def)

lemma be16_bytes_htons: "be16_bytes (htons v) = [hi8 v, lo8 v]"
  by (simp add: be16_bytes_def htons_def)

lemma store_contents:
  assumes "ofpbuf_ok b" and "stn (contents b) k bs = Some c"
  obtains m where "store b (ob_data b + k) bs = Some (b\<lparr>ob_mem := m\<rparr>)"
    and "ofpbuf_ok (b\<lparr>ob_mem := m\<rparr>)" and "contents (b\<lparr>ob_mem := m\<rparr>) = c"
proof -
  have k: "k + length bs \<le> ob_size b"
    using assms by (simp add: stn_Some_iff)
  have fits: "ob_data b + ob_size b \<le> length (ob_mem b)"
    using assms(1) by (simp add: ofpbuf_ok_def)
  obtain m where m: "stn (ob_mem b) (ob_data b + k) bs = Some m"
    using stn_defined [of "ob_data b + k" bs "ob_mem b"] k fits by auto
  have "contents (b\<lparr>ob_mem := m\<rparr>) = c"
    using seg_stn_inside [OF m k fits] assms(2) by (simp add: contents_seg)
  then show thesis
    using that [of m] m fits by (simp add: store_def ofpbuf_ok_def length_stn [OF m])
qed

lemma ldn_contents:
  assumes "ofpbuf_ok b" and "k + n \<le> length (contents b)"
  shows "ldn (ob_mem b) (ob_data b + k) n = Some (take n (drop k (contents b)))"
  using assms ldn_seg [of "ob_data b" "ob_size b" "ob_mem b" k n]
  by (simp add: contents_seg ofpbuf_ok_def ldn_def)

lemma ld16_contents:
  assumes "ofpbuf_ok b" and "k + 2 \<le> length (contents b)"
  shows "ld16 (ob_mem b) (ob_data b + k) = Some (le16 (contents b ! k) (contents b ! (k + 1)))"
  using assms ld16_seg [of k "ob_size b" "ob_data b" "ob_mem b"]
  by (simp add: contents_seg ofpbuf_ok_def ld16_def)

lemma ld32_contents:
  assumes "ofpbuf_ok b" and "k + 4 \<le> length (contents b)"
  shows "ld32 (ob_mem b) (ob_data b + k) = ld32 (contents b) k"
  using assms ld32_seg [of k "ob_size b" "ob_data b" "ob_mem b"]
  by (simp add: contents_seg ofpbuf_ok_def)

lemma ofpbuf_push_uninit_ok:
  assumes "ofpbuf_ok b" and "headroom_ok b n"
  obtains b' where "ofpbuf_push_uninit junk b n = Some b'" and "ofpbuf_ok b'"
    and "drop n (contents b') = contents b" and "length (contents b') = length (contents b) + n"
    and "rel_ptrs b' = map (map_option (\<lambda>i. i + int n)) (rel_ptrs b)"
proof -
  obtain b1 where b1: "ofpbuf_prealloc_headroom junk b n = Some b1" "ofpbuf_ok b1"
      "contents b1 = contents b" "rel_ptrs b1 = rel_ptrs b" "n \<le> ob_data b1"
    using ofpbuf_prealloc_headroom_ok [OF assms] by metis
  define b' where "b' = b1\<lparr>ob_data := ob_data b1 - n, ob_size := ob_size b1 + n\<rparr>"
  have "ofpbuf_push_uninit junk b n = Some b'"
    using b1(1) by (simp add: ofpbuf_push_uninit_def b'_def)
  moreover have ok: "ofpbuf_ok b'"
    using b1(2,5) by (simp add: b'_def ofpbuf_ok_def)
  moreover have "drop n (contents b') = contents b1"
    using b1(5) by (simp add: b'_def contents_def drop_take)
  moreover have "length (contents b') = length (contents b1) + n"
    using ok b1(2) by (simp add: b'_def)
  moreover have "rel_ptrs b' = map (map_option (\<lambda>i. i + int n)) (rel_ptrs b)"
    using b1(5) unfolding b1(4) [symmetric]
    by (simp add: b'_def rel_ptrs_def option.map_comp comp_def of_nat_diff algebra_simps)
  ultimately show thesis
    using that b1(3) by simp
qed

section \<open>VLAN tags on the contents\<close>

definition vlan_tag :: "u16 \<Rightarrow> bytes" where
  "vlan_tag tci = be16_bytes (htons ETH_TYPE_VLAN) @ be16_bytes (tci AND htons (NOT 0x1000))"

lemma take_6_6: "take 6 c @ take 6 (drop 6 c) @ xs = take 12 c @ xs"
  using take_add [of 6 6 c] by simp

lemma eth_push_vlan_contents:
  assumes "ofpbuf_ok b" and "headroom_ok b 4" and "14 \<le> length (contents b)"
  obtains b' where "eth_push_vlan junk b tci = Some b'" and "ofpbuf_ok b'"
    and "contents b' = take 12 (contents b) @ vlan_tag tci @ drop 12 (contents b)"
    and "ob_l2 b' = Some (ob_data b')"
proof -
  let ?c = "contents b"
  let ?tmp = "take 12 ?c @ vlan_tag tci @ [?c ! 12, ?c ! 13]"
  obtain b1 where b1: "ofpbuf_push_uninit junk b 4 = Some b1" "ofpbuf_ok b1"
      "drop 4 (contents b1) = ?c" "length (contents b1) = length ?c + 4"
    using ofpbuf_push_uninit_ok [OF assms(1,2)] by metis
  have len: "length ?tmp = 18"
    using assms(3) by (simp add: vlan_tag_def)
  have st: "stn (contents b1) 0 ?tmp = Some (?tmp @ drop 18 (contents b1))"
    using len b1(4) assms(3) by (simp add: stn_def)
  have "drop 14 ?c = drop 18 (contents b1)"
    by (simp flip: b1(3))
  moreover have "drop 12 ?c = [?c ! 12, ?c ! 13] @ drop 14 ?c"
    using assms(3) Cons_nth_drop_Suc [of 12 ?c] Cons_nth_drop_Suc [of 13 ?c] by simp
  ultimately have res: "?tmp @ drop 18 (contents b1) = take 12 ?c @ vlan_tag tci @ drop 12 ?c"
    by simp
  obtain m where m: "store b1 (ob_data b1) ?tmp = Some (b1\<lparr>ob_mem := m\<rparr>)"
      "ofpbuf_ok (b1\<lparr>ob_mem := m\<rparr>)"
      "contents (b1\<lparr>ob_mem := m\<rparr>) = take 12 ?c @ vlan_tag tci @ drop 12 ?c"
    using store_contents [OF b1(2) st] unfolding res by (metis add.right_neutral)
  have "eth_push_vlan junk b tci = Some (b1\<lparr>ob_mem := m, ob_l2 := Some (ob_data b1)\<rparr>)"
    using ldn_contents [OF assms(1), of 0 6] ldn_contents [OF assms(1), of 6 6]
      ld16_contents [OF assms(1), of 12] assms(3) m(1) b1(1)
    by (simp add: eth_push_vlan_def Let_def vlan_tag_def take_6_6)
  with m(2,3) show thesis
    by (intro that [of "b1\<lparr>ob_mem := m, ob_l2 := Some (ob_data b1)\<rparr>"]) simp_all
qed

lemma eth_pop_vlan_contents:
  assumes "ofpbuf_ok b" and "ob_l2 b = Some (ob_data b)"
    and "18 \<le> length (contents b)" and "ld16 (contents b) 12 = Some (htons ETH_TYPE_VLAN)"
  obtains b' where "eth_pop_vlan b = Some b'" and "ofpbuf_ok b'"
    and "contents b' = take 12 (contents b) @ drop 16 (contents b)"
    and "ob_l2 b' = Some (ob_data b')"
proof -
  let ?c = "contents b"
  let ?tmp = "take 12 ?c @ [?c ! 16, ?c ! 17]"
  define b1 where "b1 = b\<lparr>ob_data := ob_data b + 4, ob_size := ob_size b - 4\<rparr>"
  have pull: "ofpbuf_pull b 4 = Some b1"
    using assms(1,3) by (simp add: ofpbuf_pull_def b1_def)
  then have b1: "ofpbuf_ok b1" "contents b1 = drop 4 ?c"
    using ofpbuf_pull_ok(2) [OF assms(1)] by blast+
  define b2 where "b2 = b1\<lparr>ob_l2 := Some (ob_data b + 4)\<rparr>"
  have b2: "ofpbuf_ok b2" "contents b2 = drop 4 ?c" "ob_data b2 = ob_data b + 4"
    using b1 by (simp_all add: b2_def b1_def ofpbuf_ok_def contents_def)
  have st: "stn (contents b2) 0 ?tmp = Some (?tmp @ drop 18 ?c)"
    using assms(3) by (simp add: stn_def b2(2))
  have "drop 16 ?c = [?c ! 16, ?c ! 17] @ drop 18 ?c"
    using assms(3) Cons_nth_drop_Suc [of 16 ?c] Cons_nth_drop_Suc [of 17 ?c] by simp
  then have res: "?tmp @ drop 18 ?c = take 12 ?c @ drop 16 ?c"
    by simp
  obtain m where m: "store b2 (ob_data b2) ?tmp = Some (b2\<lparr>ob_mem := m\<rparr>)"
      "ofpbuf_ok (b2\<lparr>ob_mem := m\<rparr>)" "contents (b2\<lparr>ob_mem := m\<rparr>) = take 12 ?c @ drop 16 ?c"
    using store_contents [OF b2(1) st] unfolding res by (metis add.right_neutral)
  have "ld16 (ob_mem b) (ob_data b + 12) = Some (htons ETH_TYPE_VLAN)"
    using assms ld16_contents [OF assms(1), of 12] by (simp add: ld16_def)
  then have "eth_pop_vlan b = Some (b2\<lparr>ob_mem := m\<rparr>)"
    using ldn_contents [OF assms(1), of 0 6] ldn_contents [OF assms(1), of 6 6]
      ld16_contents [OF assms(1), of 16] assms m(1) pull b2(3)
    by (simp add: eth_pop_vlan_def Let_def b2_def take_6_6)
  with m(2,3) b2(3) show thesis
    by (intro that [of "b2\<lparr>ob_mem := m\<rparr>"]) (simp_all add: b2_def)
qed

lemma eth_pop_vlan_untagged:
  assumes "ofpbuf_ok b" and "ob_l2 b = Some (ob_data b)"
    and "length (contents b) < 18 \<or> ld16 (contents b) 12 \<noteq> Some (htons ETH_TYPE_VLAN)"
  shows "eth_pop_vlan b = Some b"
proof (cases "ob_size b < 18")
  case False
  then have "ld16 (ob_mem b) (ob_data b + 12) = ld16 (contents b) 12"
    using assms(1) ld16_contents [OF assms(1), of 12] by (simp add: ld16_def [of "contents b"])
  moreover have "\<exists>v. ld16 (contents b) 12 = Some v"
    using False assms(1) by (simp add: ld16_def)
  ultimately show ?thesis
    using assms False by (auto simp: eth_pop_vlan_def)
qed (simp add: eth_pop_vlan_def)

lemma ld16_vlan_tag:
  "12 \<le> length c \<Longrightarrow> ld16 (take 12 c @ vlan_tag tci @ xs) 12 = Some (htons ETH_TYPE_VLAN)"
  by (simp add: ld16_def nth_append vlan_tag_def be16_bytes_def)

section \<open>Label stack entries\<close>

lemma mpls_masks_bits:
  "MPLS_TTL_MASK = mask 8" "MPLS_BOS_MASK = push_bit 8 (mask 1)"
  "MPLS_TC_MASK = push_bit 9 (mask 3)" "MPLS_LABEL_MASK = push_bit 12 (mask 20)"
  by (simp_all add: mpls_masks mask_eq_exp_minus_1 push_bit_eq_mult)

text \<open>In host order each setter replaces the bits of its field.\<close>

lemma set_mpls_host:
  "ntohl (set_mpls_lse_ttl lse ttl) = (ntohl lse AND NOT (mask 8)) OR (ucast ttl AND mask 8)"
  "ntohl (set_mpls_lse_tc lse tc) =
     (ntohl lse AND NOT (push_bit 9 (mask 3))) OR (push_bit 9 (ucast tc) AND push_bit 9 (mask 3))"
  "ntohl (set_mpls_lse_bos lse bos) =
     (ntohl lse AND NOT (push_bit 8 (mask 1))) OR (push_bit 8 (ucast bos) AND push_bit 8 (mask 1))"
  "ntohl (set_mpls_lse_label lse label) =
     (ntohl lse AND NOT (push_bit 12 (mask 20))) OR (push_bit 12 (ntohl label) AND push_bit 12 (mask 20))"
  by (simp_all add: set_mpls_lse_ttl_def set_mpls_lse_tc_def set_mpls_lse_bos_def set_mpls_lse_label_def
      htonl_and htonl_or htonl_not mpls_masks_bits)

lemma bit_256: "bit (256 :: int) n \<longleftrightarrow> n = 8"
proof -
  have "bit (2 ^ 8 :: int) n \<longleftrightarrow> n = 8"
    by (subst bit_exp_iff) auto
  then show ?thesis by simp
qed

lemma mpls_values_host:
  "ntohl (set_mpls_lse_values ttl tc bos label) =
     ucast ttl OR push_bit 9 (ucast tc AND mask 3) OR push_bit 8 (ucast bos AND mask 1) OR
     push_bit 12 (ntohl label AND mask 20)"
proof (rule bit_word_eqI)
  fix n assume "n < LENGTH(32)"
  have z: "ntohl (htonl 0) = 0" by simp
  show "bit (ntohl (set_mpls_lse_values ttl tc bos label)) n \<longleftrightarrow>
    bit (ucast ttl OR push_bit 9 (ucast tc AND mask 3) OR push_bit 8 (ucast bos AND mask 1) OR
     push_bit 12 (ntohl label AND mask 20)) n"
    unfolding set_mpls_lse_values_def Let_def set_mpls_host z
    by (auto simp: bit_simps bit_256 dest: bit_imp_le_length)
qed

section \<open>The label stack on the contents\<close>

text \<open>Where \<open>set_ethertype\<close> finds the type of a frame whose layer 2 header has \<open>L\<close> bytes.\<close>

definition type_pos :: "bytes \<Rightarrow> nat \<Rightarrow> nat" where
  "type_pos c L = (if ld16 c 12 = Some (htons ETH_TYPE_VLAN) then L - 2 else 12)"

lemma set_ethertype_contents:
  assumes "ofpbuf_ok b" and "14 \<le> length (contents b)" and "2 \<le> L"
    and "(case ob_l2_5 b of Some l \<Rightarrow> Some l | None \<Rightarrow> ob_l3 b) = Some (ob_data b + L)"
    and "stn (contents b) (type_pos (contents b) L) (be16_bytes t) = Some c"
  obtains m where "set_ethertype b t = Some (b\<lparr>ob_mem := m\<rparr>)" and "ofpbuf_ok (b\<lparr>ob_mem := m\<rparr>)"
    and "contents (b\<lparr>ob_mem := m\<rparr>) = c"
proof -
  obtain m where m: "store b (ob_data b + type_pos (contents b) L) (be16_bytes t) = Some (b\<lparr>ob_mem := m\<rparr>)"
      "ofpbuf_ok (b\<lparr>ob_mem := m\<rparr>)" "contents (b\<lparr>ob_mem := m\<rparr>) = c"
    using store_contents [OF assms(1,5)] by metis
  have "ld16 (ob_mem b) (ob_data b + 12) = ld16 (contents b) 12"
    using assms(2) ld16_contents [OF assms(1), of 12] by (simp add: ld16_def [of "contents b"])
  moreover have "\<exists>v. ld16 (contents b) 12 = Some v"
    using assms(1,2) by (simp add: ld16_def)
  ultimately have "set_ethertype b t = Some (b\<lparr>ob_mem := m\<rparr>)"
    using m(1) assms(3,4) by (auto simp: set_ethertype_def type_pos_def ptr_sub_def)
  with m(2,3) show thesis using that by blast
qed

lemma rel_ptr_Some:
  "map_option (\<lambda>q. int q - int d) p = Some (int k) \<Longrightarrow> p = Some (d + k)"
  by (cases p) auto

lemma push_mpls_lse_contents:
  assumes "ofpbuf_ok b" and "headroom_ok b 4" and "L \<le> length (contents b)"
    and "ob_l2 b = Some (ob_data b)" and "ob_l2_5 b = Some (ob_data b + L)"
  obtains b' where "push_mpls_lse junk b lse = Some b'" and "ofpbuf_ok b'"
    and "contents b' = take L (contents b) @ be32_bytes lse @ drop L (contents b)"
    and "ob_l2 b' = Some (ob_data b')" and "ob_l2_5 b' = Some (ob_data b' + L)"
proof -
  let ?c = "contents b"
  obtain b1 where b1: "ofpbuf_push_uninit junk b 4 = Some b1" "ofpbuf_ok b1" "drop 4 (contents b1) = ?c"
      "length (contents b1) = length ?c + 4"
      "rel_ptrs b1 = map (map_option (\<lambda>i. i + int 4)) (rel_ptrs b)"
    using ofpbuf_push_uninit_ok [OF assms(1,2)] by metis
  have l2: "ob_l2 b1 = Some (ob_data b1 + 4)"
    by (rule rel_ptr_Some) (use b1(5) assms(4) in \<open>simp add: rel_ptrs_def\<close>)
  have l25: "ob_l2_5 b1 = Some (ob_data b1 + (4 + L))"
    by (rule rel_ptr_Some) (use b1(5) assms(5) in \<open>auto simp: rel_ptrs_def\<close>)
  have h: "ldn (ob_mem b1) (ob_data b1 + 4) L = Some (take L ?c)"
    using ldn_contents [OF b1(2), of 4 L] b1(3,4) assms(3) by simp
  have c1: "drop (L + 4) (contents b1) = drop L ?c"
    by (simp flip: b1(3))
  have st1: "stn (contents b1) 0 (take L ?c) = Some (take L ?c @ drop L (contents b1))"
    using assms(3) b1(4) by (simp add: stn_def)
  obtain m1 where m1: "store b1 (ob_data b1) (take L ?c) = Some (b1\<lparr>ob_mem := m1\<rparr>)"
      "ofpbuf_ok (b1\<lparr>ob_mem := m1\<rparr>)"
      "contents (b1\<lparr>ob_mem := m1\<rparr>) = take L ?c @ drop L (contents b1)"
    using store_contents [OF b1(2) st1] by (metis add.right_neutral)
  have st2: "stn (contents (b1\<lparr>ob_mem := m1\<rparr>)) L (be32_bytes lse) =
      Some (take L ?c @ be32_bytes lse @ drop L ?c)"
    using assms(3) b1(4) c1 unfolding m1(3) by (simp add: stn_def add.commute)
  obtain m2 where m2: "store (b1\<lparr>ob_mem := m1\<rparr>) (ob_data b1 + L) (be32_bytes lse) =
        Some (b1\<lparr>ob_mem := m2\<rparr>)" "ofpbuf_ok (b1\<lparr>ob_mem := m2\<rparr>)"
      "contents (b1\<lparr>ob_mem := m2\<rparr>) = take L ?c @ be32_bytes lse @ drop L ?c"
    using store_contents [OF m1(2) st2] by auto
  define b' where "b' = b1\<lparr>ob_mem := m2, ob_l2 := Some (ob_data b1), ob_l2_5 := Some (ob_data b1 + L)\<rparr>"
  have "push_mpls_lse junk b lse = Some b'"
    using b1(1) l2 l25 h m1(1) m2(1) by (simp add: push_mpls_lse_def ptr_sub_def b'_def Let_def)
  moreover have "ofpbuf_ok b'" "contents b' = take L ?c @ be32_bytes lse @ drop L ?c"
    using m2(2,3) by (simp_all add: b'_def)
  ultimately show thesis
    using that [of b'] by (simp add: b'_def)
qed

lemma pop_mpls_contents:
  assumes "ofpbuf_ok b" and "14 \<le> L" and "L + 4 \<le> length (contents b)"
    and "ob_l2 b = Some (ob_data b)" and "ob_l2_5 b = Some (ob_data b + L)"
    and "stn (contents b) (type_pos (contents b) L) (be16_bytes t) = Some c"
    and "ld32 c L = Some lse"
  obtains b' where "pop_mpls b t = Some b'" and "ofpbuf_ok b'"
    and "contents b' = take L c @ drop (L + 4) c" and "ob_l2 b' = Some (ob_data b')"
    and "ob_l2_5 b' = (if lse AND htonl MPLS_BOS_MASK \<noteq> 0 then None else Some (ob_data b' + L))"
proof -
  have "14 \<le> length (contents b)" and "2 \<le> L"
    using assms(2,3) by simp_all
  then obtain m where m: "set_ethertype b t = Some (b\<lparr>ob_mem := m\<rparr>)" "ofpbuf_ok (b\<lparr>ob_mem := m\<rparr>)"
      "contents (b\<lparr>ob_mem := m\<rparr>) = c"
    using set_ethertype_contents [OF assms(1), of L t c] assms(5,6) by (metis option.simps(5))
  have len: "length c = length (contents b)"
    using assms(6) by (simp add: length_stn)
  define b0 where "b0 = b\<lparr>ob_mem := m,
    ob_l2_5 := (if lse AND htonl MPLS_BOS_MASK \<noteq> 0 then None else Some (ob_data b + L + 4))\<rparr>"
  have b0: "ofpbuf_ok b0" "contents b0 = c" "ob_data b0 = ob_data b" "ob_size b0 = ob_size b"
    using m(2,3) by (simp_all add: b0_def)
  have ld: "ld32 m (ob_data b + L) = Some lse"
    using ld32_contents [OF m(2), of L] assms(3,7) len m(3) by simp
  have h: "ldn m (ob_data b) L = Some (take L c)"
    using ldn_contents [OF m(2), of 0 L] m(3) assms(3) len by simp
  have st: "stn (contents b0) 4 (take L c) = Some (take 4 c @ take L c @ drop (L + 4) c)"
    using assms(3) len by (simp add: b0(2) stn_def add.commute)
  obtain m2 where m2: "store b0 (ob_data b + 4) (take L c) = Some (b0\<lparr>ob_mem := m2\<rparr>)"
      "ofpbuf_ok (b0\<lparr>ob_mem := m2\<rparr>)"
      "contents (b0\<lparr>ob_mem := m2\<rparr>) = take 4 c @ take L c @ drop (L + 4) c"
    using store_contents [OF b0(1) st] b0(3) by metis
  have sz: "4 \<le> ob_size b"
    using assms(1,3) by simp
  define b' where "b' = b0\<lparr>ob_mem := m2, ob_size := ob_size b - 4, ob_data := ob_data b + 4,
    ob_l2 := Some (ob_data b + 4)\<rparr>"
  have "pop_mpls b t = Some b'"
    using assms(4,5) m(1) ld h m2(1) sz
    by (simp add: pop_mpls_def ptr_sub_def b'_def b0_def Let_def)
  moreover have "ofpbuf_ok b'"
    using m2(2) sz b0(3,4) by (simp add: b'_def ofpbuf_ok_def)
  moreover have "contents b' = drop 4 (contents (b0\<lparr>ob_mem := m2\<rparr>))"
    using b0(3,4) by (simp add: b'_def contents_def drop_take add.commute)
  then have "contents b' = take L c @ drop (L + 4) c"
    using assms(3) len by (simp add: m2(3))
  ultimately show thesis
    using that [of b'] by (simp add: b'_def b0_def)
qed

lemma htonl_0 [simp]: "htonl 0 = 0"
  by (rule unat_eqI) (simp add: htonl_def htons_def unat_le32 unat_le16 unat_lo8 unat_hi8 unat_lo16 unat_hi16)

text \<open>The frame with the label keeps the place of its type; storing the old type undoes the new one.\<close>

lemma type_pos_push:
  assumes "stn c0 (type_pos c0 L) (be16_bytes t) = Some c" and "eth_type_mpls t"
    and "type_pos c0 L = 12 \<or> 14 \<le> type_pos c0 L" and "14 \<le> L" and "L \<le> length c"
  shows "type_pos (take L c @ xs) L = type_pos c0 L"
proof -
  have len: "length c = length c0"
    using assms(1) by (simp add: length_stn)
  have "ld16 (take L c @ xs) 12 = ld16 c 12"
    using assms(4,5) by (simp add: ld16_def nth_append)
  moreover have "ld16 c 12 = ld16 c0 12" if "14 \<le> type_pos c0 L"
    using that assms(4,5) len nth_stn [OF assms(1), of 12] nth_stn [OF assms(1), of 13]
    by (simp add: ld16_def)
  moreover have "ld16 c 12 = Some t" if "type_pos c0 L = 12"
    using that assms(1) by (intro ld16_st16_same [of c0]) (simp add: st16_def be16_bytes_def)
  moreover have "t \<noteq> htons ETH_TYPE_VLAN"
    using assms(2) by (auto simp: eth_type_mpls_def ETH_TYPE_VLAN_def ETH_TYPE_MPLS_def ETH_TYPE_MPLS_MCAST_def)
  ultimately show ?thesis
    using assms(3) by (auto simp: type_pos_def split: if_splits)
qed

lemma stn_back:
  assumes "stn c0 p (be16_bytes t) = Some c" and "ld16 c0 p = Some old" and "p + 2 \<le> L" and "L \<le> length c"
  shows "stn (take L c @ xs @ drop L c) p (be16_bytes old) = Some (take L c0 @ xs @ drop L c0)"
proof -
  have c: "c = take p c0 @ be16_bytes t @ drop (p + 2) c0" and le: "p + 2 \<le> length c0"
    using assms(1) by (auto simp: stn_Some_iff)
  have "be16_bytes old = [c0 ! p, c0 ! (p + 1)]"
    using assms(2) by (auto simp: ld16_def split: if_splits)
  then have "take p c0 @ be16_bytes old @ drop (p + 2) c0 = c0"
    using le by (simp add: Cons_nth_drop_Suc)
  moreover have "take L c @ xs @ drop L c =
      take p c0 @ be16_bytes t @ take (L - (p + 2)) (drop (p + 2) c0) @ xs @ drop L c0"
  proof -
    have "Suc (Suc (L - 2)) = L"
      using assms(3) by simp
    then show ?thesis
      using assms(3) le unfolding c by (simp add: min_def)
  qed
  moreover have "take L c0 = take p c0 @ take 2 (drop p c0) @ take (L - (p + 2)) (drop (p + 2) c0)"
  proof -
    have "p + 2 + (L - (p + 2)) = L"
      using assms(3) by simp
    then show ?thesis
      using take_add [of "p + 2" "L - (p + 2)" c0] take_add [of p 2 c0] by (metis append.assoc)
  qed
  moreover have "take 2 (drop p c0) = be16_bytes old"
    using \<open>be16_bytes old = _\<close> le by (simp add: take_Suc_conv_app_nth numeral_2_eq_2)
  ultimately show ?thesis
    using le by (simp add: stn_def)
qed

section \<open>Properties\<close>

text \<open>C19: Pushing a VLAN tag inserts the four bytes of the tag (type 0x8100 and the TCI with its CFI bit
  cleared) after the two Ethernet addresses and moves nothing else; popping then restores exactly the
  original frame.\<close>

theorem eth_pop_push_vlan:
  assumes "ofpbuf_ok b" and "headroom_ok b 4" and "14 \<le> length (contents b)"
  shows "\<exists>b1 b2. eth_push_vlan junk b tci = Some b1 \<and> eth_pop_vlan b1 = Some b2 \<and>
    contents b1 = take 12 (contents b) @ [0x81, 0x00] @ be16_bytes (tci AND htons 0xefff) @
      drop 12 (contents b) \<and>
    contents b2 = contents b \<and> ofpbuf_ok b1 \<and> ofpbuf_ok b2 \<and>
    ob_l2 b1 = Some (ob_data b1) \<and> ob_l2 b2 = Some (ob_data b2)"
proof -
  let ?c = "contents b"
  obtain b1 where b1: "eth_push_vlan junk b tci = Some b1" "ofpbuf_ok b1"
      "contents b1 = take 12 ?c @ vlan_tag tci @ drop 12 ?c" "ob_l2 b1 = Some (ob_data b1)"
    using eth_push_vlan_contents [OF assms] by metis
  have len: "18 \<le> length (contents b1)"
    using assms(3) by (simp add: b1(3) vlan_tag_def)
  have ty: "ld16 (contents b1) 12 = Some (htons ETH_TYPE_VLAN)"
    using assms(3) unfolding b1(3) by (simp add: ld16_vlan_tag)
  obtain b2 where b2: "eth_pop_vlan b1 = Some b2" "ofpbuf_ok b2" "ob_l2 b2 = Some (ob_data b2)"
      "contents b2 = take 12 (contents b1) @ drop 16 (contents b1)"
    using eth_pop_vlan_contents [OF b1(2,4) len ty] by metis
  have "contents b2 = ?c"
    using assms(3) by (simp add: b2(4) b1(3) vlan_tag_def)
  moreover have "vlan_tag tci = [0x81, 0x00] @ be16_bytes (tci AND htons 0xefff)"
  proof -
    have "hi8 ETH_TYPE_VLAN = 0x81" "lo8 ETH_TYPE_VLAN = 0"
      by (rule unat_eqI, simp add: unat_hi8 unat_lo8 ETH_TYPE_VLAN_def)+
    moreover have "NOT 0x1000 = (0xefff :: u16)"
      by simp
    ultimately show ?thesis
      unfolding vlan_tag_def by (simp only: be16_bytes_htons)
  qed
  ultimately show ?thesis
    using b1 b2 by auto
qed

theorem eth_pop_push_vlan_witness:
  "\<exists>b1 b2. eth_push_vlan (\<lambda>_. 0xAA) (ofpbuf_use_const [0, 0, 0, 0, 0, 1, 0, 0, 0, 0, 0, 2, 0x08, 0, 9]\<lparr>ob_source := OFPBUF_STUB\<rparr>) 0x6410 = Some b1 \<and>
     eth_pop_vlan b1 = Some b2 \<and>
     contents b1 = [0, 0, 0, 0, 0, 1, 0, 0, 0, 0, 0, 2, 0x81, 0, 0, 0x64, 0x08, 0, 9] \<and>
     contents b2 = [0, 0, 0, 0, 0, 1, 0, 0, 0, 0, 0, 2, 0x08, 0, 9]"
proof -
  let ?b = "ofpbuf_use_const [0, 0, 0, 0, 0, 1, 0, 0, 0, 0, 0, 2, 0x08, 0, 9]\<lparr>ob_source := OFPBUF_STUB\<rparr>"
  have c: "contents ?b = [0, 0, 0, 0, 0, 1, 0, 0, 0, 0, 0, 2, 0x08, 0, 9]" and ok: "ofpbuf_ok ?b"
      and hr: "headroom_ok ?b 4"
    by (simp_all add: ofpbuf_use_const_def ofpbuf_use_raw_def contents_def ofpbuf_ok_def headroom_ok_def)
  have "htons 0xefff = 0xffef"
    by (rule unat_eqI) (simp add: htons_def unat_le16 unat_hi8 unat_lo8)
  then have t: "be16_bytes (0x6410 AND htons 0xefff) = [0x00, 0x64]"
    by (simp add: be16_bytes_def lo8_def hi8_def)
  have "14 \<le> length (contents ?b)"
    by (simp add: c)
  from eth_pop_push_vlan [OF ok hr this, of "\<lambda>_. 0xAA" "0x6410"] show ?thesis
    unfolding t c by (elim exE conjE, intro exI conjI) simp_all
qed

text \<open>Composing a label stack entry from its fields and reading the fields back gives the traffic
  class, the bottom-of-stack bit and the label truncated to their 3, 1 and 20 bits, and the TTL; no
  field disturbs another.\<close>

theorem mpls_lse_fields:
  "mpls_lse_to_ttl (set_mpls_lse_values ttl tc bos label) = ttl \<and>
   mpls_lse_to_tc (set_mpls_lse_values ttl tc bos label) = tc AND mask 3 \<and>
   mpls_lse_to_bos (set_mpls_lse_values ttl tc bos label) = bos AND mask 1 \<and>
   mpls_lse_to_label (set_mpls_lse_values ttl tc bos label) = ntohl label AND mask 20"
proof (intro conjI)
  let ?h = "ntohl (set_mpls_lse_values ttl tc bos label)"
  show "mpls_lse_to_ttl (set_mpls_lse_values ttl tc bos label) = ttl"
    unfolding mpls_lse_to_ttl_def mpls_values_host mpls_masks_bits
    by (rule bit_word_eqI) (auto simp: bit_simps)
  show "mpls_lse_to_tc (set_mpls_lse_values ttl tc bos label) = tc AND mask 3"
    unfolding mpls_lse_to_tc_def mpls_values_host mpls_masks_bits
    by (rule bit_word_eqI) (auto simp: bit_simps dest: bit_imp_le_length)
  show "mpls_lse_to_label (set_mpls_lse_values ttl tc bos label) = ntohl label AND mask 20"
    unfolding mpls_lse_to_label_def mpls_values_host mpls_masks_bits
    by (rule bit_word_eqI) (auto simp: bit_simps dest: bit_imp_le_length)
  have b8: "?h AND MPLS_BOS_MASK = push_bit 8 (ucast (bos AND mask 1))"
    unfolding mpls_values_host mpls_masks_bits
    by (rule bit_word_eqI) (auto simp: bit_simps bit_256 dest: bit_imp_le_length)
  have h: "set_mpls_lse_values ttl tc bos label AND htonl MPLS_BOS_MASK = htonl (?h AND MPLS_BOS_MASK)"
    by (simp only: htonl_and htonl_htonl)
  have z: "htonl x = 0 \<longleftrightarrow> x = 0" for x
    by (metis htonl_htonl htonl_0)
  have "bos AND mask 1 = 0 \<or> bos AND mask 1 = 1"
    by (simp add: and_one_eq mod2_eq_if)
  then show "mpls_lse_to_bos (set_mpls_lse_values ttl tc bos label) = bos AND mask 1"
    unfolding mpls_lse_to_bos_def h z b8 by (elim disjE) simp_all
qed

text \<open>C34: Pushing an MPLS label onto a frame that has none replaces the Ethernet type of the payload and
  inserts the label between the layer 2 header and the payload, whether or not the frame has a VLAN tag;
  popping it (it carries the bottom-of-stack bit) with the original type restores the frame and clears
  the label stack pointer.\<close>

theorem pop_push_mpls:
  assumes "ofpbuf_ok b" and "headroom_ok b 4" and "L \<le> length (contents b)"
    and "14 \<le> L" and "ld16 (contents b) 12 = Some (htons ETH_TYPE_VLAN) \<Longrightarrow> 16 \<le> L"
    and "ob_l2 b = Some (ob_data b)" and "ob_l2_5 b = None" and "ob_l3 b = Some (ob_data b + L)"
    and "eth_type_mpls t" and "lse AND htonl MPLS_BOS_MASK \<noteq> 0"
    and "ld16 (contents b) (type_pos (contents b) L) = Some old"
  shows "\<exists>c b1 b2. stn (contents b) (type_pos (contents b) L) (be16_bytes t) = Some c \<and>
    push_mpls junk b t lse = Some b1 \<and> contents b1 = take L c @ be32_bytes lse @ drop L c \<and>
    pop_mpls b1 old = Some b2 \<and> contents b2 = contents b \<and> ofpbuf_ok b2 \<and>
    ob_l2 b2 = Some (ob_data b2) \<and> ob_l2_5 b2 = None"
proof -
  let ?c = "contents b" and ?p = "type_pos (contents b) L"
  have p: "?p + 2 \<le> L" "12 \<le> ?p" "?p = 12 \<or> 14 \<le> ?p"
    using assms(4,5) by (auto simp: type_pos_def)
  then obtain c where c: "stn ?c ?p (be16_bytes t) = Some c"
    using stn_defined [of ?p "be16_bytes t" ?c] assms(3) by auto
  have len: "length c = length ?c"
    using c by (simp add: length_stn)
  have "14 \<le> length ?c" "2 \<le> L"
    using assms(3,4) by simp_all
  then obtain m where m: "set_ethertype b t = Some (b\<lparr>ob_mem := m\<rparr>)" "ofpbuf_ok (b\<lparr>ob_mem := m\<rparr>)"
      "contents (b\<lparr>ob_mem := m\<rparr>) = c"
    using set_ethertype_contents [OF assms(1), of L t c] assms(7,8) c by (metis option.simps(4))
  define b0 where "b0 = b\<lparr>ob_mem := m, ob_l2_5 := ob_l3 b\<rparr>"
  have b0: "ofpbuf_ok b0" "contents b0 = c" "headroom_ok b0 4" "ob_l2 b0 = Some (ob_data b0)"
      "ob_l2_5 b0 = Some (ob_data b0 + L)"
    using m(2,3) assms(2,6,8) by (simp_all add: b0_def headroom_ok_def ofpbuf_headroom_def)
  have L: "L \<le> length (contents b0)"
    using assms(3) by (simp add: b0(2) len)
  obtain b1 where b1: "push_mpls_lse junk b0 lse = Some b1" "ofpbuf_ok b1"
      "contents b1 = take L c @ be32_bytes lse @ drop L c"
      "ob_l2 b1 = Some (ob_data b1)" "ob_l2_5 b1 = Some (ob_data b1 + L)"
    using push_mpls_lse_contents [OF b0(1,3) L b0(4,5)] b0(2) by metis
  have push: "push_mpls junk b t lse = Some b1"
    using assms(7,9) m(1) b1(1) by (simp add: push_mpls_def is_mpls_def b0_def)
  have ty: "type_pos (contents b1) L = ?p"
    using assms(3,4,9) p len unfolding b1(3) by (intro type_pos_push [OF c]) auto
  have undo: "stn (contents b1) ?p (be16_bytes old) = Some (take L ?c @ be32_bytes lse @ drop L ?c)"
    using c assms(11) p(1) L unfolding b1(3) b0(2) by (rule stn_back)
  have ld: "ld32 (take L ?c @ be32_bytes lse @ drop L ?c) L = Some lse"
    using assms(3) by (simp add: ld32_def nth_append be32_bytes_def be16_bytes_def)
  have L4: "L + 4 \<le> length (contents b1)"
    using assms(3) len by (simp add: b1(3))
  obtain b2 where b2: "pop_mpls b1 old = Some b2" "ofpbuf_ok b2" "ob_l2 b2 = Some (ob_data b2)"
      "ob_l2_5 b2 = None"
      "contents b2 = take L (take L ?c @ be32_bytes lse @ drop L ?c) @
         drop (L + 4) (take L ?c @ be32_bytes lse @ drop L ?c)"
    using pop_mpls_contents [OF b1(2) assms(4) L4 b1(4,5) undo [folded ty] ld]
    unfolding if_P [OF assms(10)] by metis
  have "contents b2 = ?c"
    using assms(3) unfolding b2(5) by simp
  with c push b1(3) b2(1-4) show ?thesis by blast
qed

theorem pop_push_mpls_witness:
  "\<exists>b1 b2. push_mpls (\<lambda>_. 0xAA) (ofpbuf_use_const [0, 0, 0, 0, 0, 1, 0, 0, 0, 0, 0, 2, 0x08, 0, 9]
       \<lparr>ob_source := OFPBUF_STUB, ob_l2 := Some 0, ob_l3 := Some 14\<rparr>) (htons ETH_TYPE_MPLS) 0x00010000 = Some b1 \<and>
     pop_mpls b1 (le16 0x08 0) = Some b2 \<and>
     contents b2 = [0, 0, 0, 0, 0, 1, 0, 0, 0, 0, 0, 2, 0x08, 0, 9]"
proof -
  let ?b = "ofpbuf_use_const [0, 0, 0, 0, 0, 1, 0, 0, 0, 0, 0, 2, 0x08, 0, 9]
       \<lparr>ob_source := OFPBUF_STUB, ob_l2 := Some 0, ob_l3 := Some 14\<rparr>"
  have c: "contents ?b = [0, 0, 0, 0, 0, 1, 0, 0, 0, 0, 0, 2, 0x08, 0, 9]" and ok: "ofpbuf_ok ?b"
      and hr: "headroom_ok ?b 4"
    by (simp_all add: ofpbuf_use_const_def ofpbuf_use_raw_def contents_def ofpbuf_ok_def headroom_ok_def)
  have "unat (le16 0x08 0) \<noteq> unat (htons ETH_TYPE_VLAN)"
    by (simp add: unat_le16 htons_def unat_hi8 unat_lo8 ETH_TYPE_VLAN_def)
  then have nv: "ld16 (contents ?b) 12 \<noteq> Some (htons ETH_TYPE_VLAN)"
    unfolding c by (auto simp: ld16_def)
  have ty: "ld16 (contents ?b) (type_pos (contents ?b) 14) = Some (le16 0x08 0)"
    unfolding type_pos_def if_not_P [OF nv] unfolding c by (simp add: ld16_def)
  have "unat (htonl MPLS_BOS_MASK) = unat (0x00010000 :: u32)"
    by (simp add: htonl_def htons_def unat_le32 unat_le16 unat_hi8 unat_lo8 unat_hi16 unat_lo16
        MPLS_BOS_MASK_def)
  then have "htonl MPLS_BOS_MASK = 0x00010000"
    by (rule unat_eqI)
  then have bos: "0x00010000 AND htonl MPLS_BOS_MASK \<noteq> 0"
    by simp
  have "14 \<le> length (contents ?b)" "(14::nat) \<le> 14"
    unfolding c by simp_all
  from pop_push_mpls [OF ok hr this, of "htons ETH_TYPE_MPLS" "0x00010000" "le16 0x08 0" "\<lambda>_. 0xAA"] nv ty bos
  show ?thesis
    by (auto simp: ofpbuf_use_const_def ofpbuf_use_raw_def eth_type_mpls_def contents_def)
qed

end
