(* ===== verification/Netlink.thy ===== *)
theory Netlink
  imports Packets
begin

text \<open>
  Netlink messages, \<open>lib/netlink.c\<close> and the inline functions of \<open>lib/netlink.h\<close>: attributes are appended to and prepended
  to a packet buffer, nested, iterated, searched and checked against a policy. A pointer to an attribute is its offset in
  the memory it lies in. The result \<open>None\<close> is a failed assertion or a read outside of the memory. Log messages are left out.
\<close>

section \<open>Headers\<close>

definition NLMSG_ALIGN :: "nat \<Rightarrow> nat" where "NLMSG_ALIGN n = (n + 3) div 4 * 4"
definition NLMSG_HDRLEN :: nat where "NLMSG_HDRLEN = 16"
definition GENL_HDRLEN :: nat where "GENL_HDRLEN = 4"
definition NLA_HDRLEN :: nat where "NLA_HDRLEN = 4"
definition NLA_TYPE_MASK :: u16 where "NLA_TYPE_MASK = 0x3fff"
definition NLMSG_ERROR :: u16 where "NLMSG_ERROR = 2"
definition EPROTO :: int where "EPROTO = 71"
definition UINT16_MAX :: nat where "UINT16_MAX = 0xffff"
definition SIZE_MAX :: nat where "SIZE_MAX = 2 ^ 64 - 1"

lemmas nl_consts = NLMSG_HDRLEN_def GENL_HDRLEN_def NLA_HDRLEN_def UINT16_MAX_def

definition ofpbuf_at_assert :: "ofpbuf \<Rightarrow> nat \<Rightarrow> nat \<Rightarrow> nat option" where
  "ofpbuf_at_assert b offset n = (if offset + n \<le> ob_size b then Some (ob_data b + offset) else None)"

definition nl_msg_nlmsghdr :: "ofpbuf \<Rightarrow> nat option" where
  "nl_msg_nlmsghdr msg = ofpbuf_at_assert msg 0 NLMSG_HDRLEN"

definition nl_msg_genlmsghdr :: "ofpbuf \<Rightarrow> nat option" where
  "nl_msg_genlmsghdr msg = ofpbuf_at msg NLMSG_HDRLEN GENL_HDRLEN"

text \<open>The error code of an error message; the inner \<open>None\<close> is another message.\<close>

definition nl_msg_nlmsgerr :: "ofpbuf \<Rightarrow> int option option" where
  "nl_msg_nlmsgerr msg = do {
     h \<leftarrow> nl_msg_nlmsghdr msg;
     type \<leftarrow> ld16 (ob_mem msg) (h + 4);
     if type = NLMSG_ERROR then
       (case ofpbuf_at msg NLMSG_HDRLEN 20 of
          None \<Rightarrow> Some (Some EPROTO)
        | Some err \<Rightarrow> do {
            e \<leftarrow> ld32 (ob_mem msg) err;
            let e = sint e;
            Some (Some (if e \<le> 0 \<and> e > - (2 ^ 31) then - e else EPROTO)) })
     else Some None }"

definition nl_msg_reserve :: "junk \<Rightarrow> ofpbuf \<Rightarrow> nat \<Rightarrow> ofpbuf option" where
  "nl_msg_reserve junk msg n = ofpbuf_prealloc_tailroom junk msg (NLMSG_ALIGN n)"

section \<open>Appending and prepending\<close>

definition nl_msg_put_uninit :: "junk \<Rightarrow> ofpbuf \<Rightarrow> nat \<Rightarrow> (nat \<times> ofpbuf) option" where
  "nl_msg_put_uninit junk msg n = do {
     let pad = NLMSG_ALIGN n - n;
     (p, msg) \<leftarrow> ofpbuf_put_uninit junk msg (n + pad);
     msg \<leftarrow> (if pad \<noteq> 0 then store msg (p + n) (zeros pad) else Some msg);
     Some (p, msg) }"

definition nl_msg_put :: "junk \<Rightarrow> ofpbuf \<Rightarrow> bytes \<Rightarrow> ofpbuf option" where
  "nl_msg_put junk msg d = do { (p, msg) \<leftarrow> nl_msg_put_uninit junk msg (length d); store msg p d }"

definition nl_msg_push_uninit :: "junk \<Rightarrow> ofpbuf \<Rightarrow> nat \<Rightarrow> (nat \<times> ofpbuf) option" where
  "nl_msg_push_uninit junk msg n = do {
     let pad = NLMSG_ALIGN n - n;
     msg \<leftarrow> ofpbuf_push_uninit junk msg (n + pad);
     let p = ob_data msg;
     msg \<leftarrow> (if pad \<noteq> 0 then store msg (p + n) (zeros pad) else Some msg);
     Some (p, msg) }"

definition nl_msg_push :: "junk \<Rightarrow> ofpbuf \<Rightarrow> bytes \<Rightarrow> ofpbuf option" where
  "nl_msg_push junk msg d = do { (p, msg) \<leftarrow> nl_msg_push_uninit junk msg (length d); store msg p d }"

definition nl_msg_put_nlmsghdr :: "junk \<Rightarrow> ofpbuf \<Rightarrow> nat \<Rightarrow> u32 \<Rightarrow> u32 \<Rightarrow> ofpbuf option" where
  "nl_msg_put_nlmsghdr junk msg expected_payload type flags = (if ob_size msg \<noteq> 0 then None else do {
     msg \<leftarrow> nl_msg_reserve junk msg (NLMSG_HDRLEN + expected_payload);
     (h, msg) \<leftarrow> nl_msg_put_uninit junk msg NLMSG_HDRLEN;
     store msg h (be32_bytes 0 @ be16_bytes (ucast type) @ be16_bytes (ucast flags) @ be32_bytes 0 @ be32_bytes 0) })"

definition nl_msg_put_genlmsghdr :: "junk \<Rightarrow> ofpbuf \<Rightarrow> nat \<Rightarrow> u32 \<Rightarrow> u32 \<Rightarrow> u8 \<Rightarrow> u8 \<Rightarrow> ofpbuf option" where
  "nl_msg_put_genlmsghdr junk msg expected_payload family flags cmd version = do {
     msg \<leftarrow> nl_msg_put_nlmsghdr junk msg (GENL_HDRLEN + expected_payload) family flags;
     if ob_size msg \<noteq> NLMSG_HDRLEN then None else do {
       (g, msg) \<leftarrow> nl_msg_put_uninit junk msg GENL_HDRLEN;
       store msg g ([cmd, version] @ be16_bytes 0) } }"

section \<open>Attributes\<close>

definition nl_msg_put_unspec_uninit :: "junk \<Rightarrow> ofpbuf \<Rightarrow> u16 \<Rightarrow> nat \<Rightarrow> (nat \<times> ofpbuf) option" where
  "nl_msg_put_unspec_uninit junk msg type n = do {
     let total_size = NLA_HDRLEN + n;
     (nla, msg) \<leftarrow> nl_msg_put_uninit junk msg total_size;
     if NLMSG_ALIGN total_size > UINT16_MAX then None else do {
       msg \<leftarrow> store msg nla (be16_bytes (of_nat total_size) @ be16_bytes type);
       Some (nla + NLA_HDRLEN, msg) } }"

definition nl_msg_put_unspec :: "junk \<Rightarrow> ofpbuf \<Rightarrow> u16 \<Rightarrow> bytes \<Rightarrow> ofpbuf option" where
  "nl_msg_put_unspec junk msg type d = do { (p, msg) \<leftarrow> nl_msg_put_unspec_uninit junk msg type (length d); store msg p d }"

definition nl_msg_put_flag :: "junk \<Rightarrow> ofpbuf \<Rightarrow> u16 \<Rightarrow> ofpbuf option" where
  "nl_msg_put_flag junk msg type = nl_msg_put_unspec junk msg type []"

definition nl_msg_put_u8 :: "junk \<Rightarrow> ofpbuf \<Rightarrow> u16 \<Rightarrow> u8 \<Rightarrow> ofpbuf option" where
  "nl_msg_put_u8 junk msg type v = nl_msg_put_unspec junk msg type [v]"

definition nl_msg_put_u16 :: "junk \<Rightarrow> ofpbuf \<Rightarrow> u16 \<Rightarrow> u16 \<Rightarrow> ofpbuf option" where
  "nl_msg_put_u16 junk msg type v = nl_msg_put_unspec junk msg type (be16_bytes v)"

definition nl_msg_put_u32 :: "junk \<Rightarrow> ofpbuf \<Rightarrow> u16 \<Rightarrow> u32 \<Rightarrow> ofpbuf option" where
  "nl_msg_put_u32 junk msg type v = nl_msg_put_unspec junk msg type (be32_bytes v)"

definition le64_bytes :: "u64 \<Rightarrow> bytes" where
  "le64_bytes v = be32_bytes (ucast v) @ be32_bytes (ucast (drop_bit 32 v))"

definition nl_msg_put_u64 :: "junk \<Rightarrow> ofpbuf \<Rightarrow> u16 \<Rightarrow> u64 \<Rightarrow> ofpbuf option" where
  "nl_msg_put_u64 junk msg type v = nl_msg_put_unspec junk msg type (le64_bytes v)"

text \<open>A value in network byte order is stored as it lies in memory.\<close>

definition nl_msg_put_be16 :: "junk \<Rightarrow> ofpbuf \<Rightarrow> u16 \<Rightarrow> u16 \<Rightarrow> ofpbuf option" where
  "nl_msg_put_be16 junk msg type v = nl_msg_put_unspec junk msg type (be16_bytes v)"

definition nl_msg_put_be32 :: "junk \<Rightarrow> ofpbuf \<Rightarrow> u16 \<Rightarrow> u32 \<Rightarrow> ofpbuf option" where
  "nl_msg_put_be32 junk msg type v = nl_msg_put_unspec junk msg type (be32_bytes v)"

definition nl_msg_put_be64 :: "junk \<Rightarrow> ofpbuf \<Rightarrow> u16 \<Rightarrow> u64 \<Rightarrow> ofpbuf option" where
  "nl_msg_put_be64 junk msg type v = nl_msg_put_unspec junk msg type (le64_bytes v)"

definition nl_msg_put_odp_port :: "junk \<Rightarrow> ofpbuf \<Rightarrow> u16 \<Rightarrow> u32 \<Rightarrow> ofpbuf option" where
  "nl_msg_put_odp_port junk msg type v = nl_msg_put_u32 junk msg type v"

definition nl_msg_put_string :: "junk \<Rightarrow> ofpbuf \<Rightarrow> u16 \<Rightarrow> string \<Rightarrow> ofpbuf option" where
  "nl_msg_put_string junk msg type s = nl_msg_put_unspec junk msg type (map of_char s @ [0])"

definition nl_msg_push_unspec_uninit :: "junk \<Rightarrow> ofpbuf \<Rightarrow> u16 \<Rightarrow> nat \<Rightarrow> (nat \<times> ofpbuf) option" where
  "nl_msg_push_unspec_uninit junk msg type n = do {
     let total_size = NLA_HDRLEN + n;
     (nla, msg) \<leftarrow> nl_msg_push_uninit junk msg total_size;
     if NLMSG_ALIGN total_size > UINT16_MAX then None else do {
       msg \<leftarrow> store msg nla (be16_bytes (of_nat total_size) @ be16_bytes type);
       Some (nla + NLA_HDRLEN, msg) } }"

definition nl_msg_push_unspec :: "junk \<Rightarrow> ofpbuf \<Rightarrow> u16 \<Rightarrow> bytes \<Rightarrow> ofpbuf option" where
  "nl_msg_push_unspec junk msg type d = do { (p, msg) \<leftarrow> nl_msg_push_unspec_uninit junk msg type (length d); store msg p d }"

definition nl_msg_push_flag :: "junk \<Rightarrow> ofpbuf \<Rightarrow> u16 \<Rightarrow> ofpbuf option" where
  "nl_msg_push_flag junk msg type = nl_msg_push_unspec junk msg type []"

definition nl_msg_push_u8 :: "junk \<Rightarrow> ofpbuf \<Rightarrow> u16 \<Rightarrow> u8 \<Rightarrow> ofpbuf option" where
  "nl_msg_push_u8 junk msg type v = nl_msg_push_unspec junk msg type [v]"

definition nl_msg_push_u16 :: "junk \<Rightarrow> ofpbuf \<Rightarrow> u16 \<Rightarrow> u16 \<Rightarrow> ofpbuf option" where
  "nl_msg_push_u16 junk msg type v = nl_msg_push_unspec junk msg type (be16_bytes v)"

definition nl_msg_push_u32 :: "junk \<Rightarrow> ofpbuf \<Rightarrow> u16 \<Rightarrow> u32 \<Rightarrow> ofpbuf option" where
  "nl_msg_push_u32 junk msg type v = nl_msg_push_unspec junk msg type (be32_bytes v)"

definition nl_msg_push_u64 :: "junk \<Rightarrow> ofpbuf \<Rightarrow> u16 \<Rightarrow> u64 \<Rightarrow> ofpbuf option" where
  "nl_msg_push_u64 junk msg type v = nl_msg_push_unspec junk msg type (le64_bytes v)"

definition nl_msg_push_be16 :: "junk \<Rightarrow> ofpbuf \<Rightarrow> u16 \<Rightarrow> u16 \<Rightarrow> ofpbuf option" where
  "nl_msg_push_be16 junk msg type v = nl_msg_push_unspec junk msg type (be16_bytes v)"

definition nl_msg_push_be32 :: "junk \<Rightarrow> ofpbuf \<Rightarrow> u16 \<Rightarrow> u32 \<Rightarrow> ofpbuf option" where
  "nl_msg_push_be32 junk msg type v = nl_msg_push_unspec junk msg type (be32_bytes v)"

definition nl_msg_push_be64 :: "junk \<Rightarrow> ofpbuf \<Rightarrow> u16 \<Rightarrow> u64 \<Rightarrow> ofpbuf option" where
  "nl_msg_push_be64 junk msg type v = nl_msg_push_unspec junk msg type (le64_bytes v)"

definition nl_msg_push_string :: "junk \<Rightarrow> ofpbuf \<Rightarrow> u16 \<Rightarrow> string \<Rightarrow> ofpbuf option" where
  "nl_msg_push_string junk msg type s = nl_msg_push_unspec junk msg type (map of_char s @ [0])"

text \<open>Nested attributes: the length is stored when the contents are complete.\<close>

definition nl_msg_start_nested :: "junk \<Rightarrow> ofpbuf \<Rightarrow> u16 \<Rightarrow> (nat \<times> ofpbuf) option" where
  "nl_msg_start_nested junk msg type = do { let offset = ob_size msg; msg \<leftarrow> nl_msg_put_unspec junk msg type []; Some (offset, msg) }"

definition nl_msg_end_nested :: "ofpbuf \<Rightarrow> nat \<Rightarrow> ofpbuf option" where
  "nl_msg_end_nested msg offset = do {
     attr \<leftarrow> ofpbuf_at_assert msg offset NLA_HDRLEN;
     store msg attr (be16_bytes (of_nat (ob_size msg - offset))) }"

definition nl_msg_put_nested :: "junk \<Rightarrow> ofpbuf \<Rightarrow> u16 \<Rightarrow> bytes \<Rightarrow> ofpbuf option" where
  "nl_msg_put_nested junk msg type d = do {
     (offset, msg) \<leftarrow> nl_msg_start_nested junk msg type;
     msg \<leftarrow> nl_msg_put junk msg d;
     nl_msg_end_nested msg offset }"

text \<open>The next message of a buffer: its bytes, and the buffer without them.\<close>

definition nl_msg_next :: "ofpbuf \<Rightarrow> (bytes option \<times> ofpbuf) option" where
  "nl_msg_next buffer =
     (if ob_size buffer \<ge> NLMSG_HDRLEN then do {
        h \<leftarrow> nl_msg_nlmsghdr buffer;
        len \<leftarrow> ld32 (ob_mem buffer) h;
        let len = unat len;
        if len \<ge> NLMSG_HDRLEN \<and> len \<le> ob_size buffer then do {
          d \<leftarrow> ldn (ob_mem buffer) h len;
          buffer \<leftarrow> ofpbuf_pull buffer len;
          Some (Some d, buffer) }
        else Some (None, buffer) }
      else Some (None, buffer))"

section \<open>Reading attributes\<close>

definition nl_attr_type :: "bytes \<Rightarrow> nat \<Rightarrow> u16 option" where
  "nl_attr_type m nla = do { t \<leftarrow> ld16 m (nla + 2); Some (t AND NLA_TYPE_MASK) }"

definition nl_attr_get_unspec :: "bytes \<Rightarrow> nat \<Rightarrow> nat \<Rightarrow> nat option" where
  "nl_attr_get_unspec m nla n = do { len \<leftarrow> ld16 m nla; if unat len \<ge> NLA_HDRLEN + n then Some (nla + NLA_HDRLEN) else None }"

definition nl_attr_get :: "bytes \<Rightarrow> nat \<Rightarrow> nat option" where
  "nl_attr_get m nla = do { len \<leftarrow> ld16 m nla; if unat len \<ge> NLA_HDRLEN then Some (nla + NLA_HDRLEN) else None }"

definition nl_attr_get_size :: "bytes \<Rightarrow> nat \<Rightarrow> nat option" where
  "nl_attr_get_size m nla = do { len \<leftarrow> ld16 m nla; if unat len \<ge> NLA_HDRLEN then Some (unat len - NLA_HDRLEN) else None }"

definition nl_attr_get_u8 :: "bytes \<Rightarrow> nat \<Rightarrow> u8 option" where
  "nl_attr_get_u8 m nla = do { p \<leftarrow> nl_attr_get_unspec m nla 1; ld8 m p }"

definition nl_attr_get_u16 :: "bytes \<Rightarrow> nat \<Rightarrow> u16 option" where
  "nl_attr_get_u16 m nla = do { p \<leftarrow> nl_attr_get_unspec m nla 2; ld16 m p }"

definition nl_attr_get_u32 :: "bytes \<Rightarrow> nat \<Rightarrow> u32 option" where
  "nl_attr_get_u32 m nla = do { p \<leftarrow> nl_attr_get_unspec m nla 4; ld32 m p }"

definition nl_attr_get_u64 :: "bytes \<Rightarrow> nat \<Rightarrow> u64 option" where
  "nl_attr_get_u64 m nla = do {
     p \<leftarrow> nl_attr_get_unspec m nla 8;
     lo \<leftarrow> ld32 m p;
     hi \<leftarrow> ld32 m (p + 4);
     Some (push_bit 32 (ucast hi) OR ucast lo) }"

text \<open>Values in network byte order are read as they lie in memory. A flag is there or not.\<close>

definition nl_attr_get_be16 :: "bytes \<Rightarrow> nat \<Rightarrow> u16 option" where
  "nl_attr_get_be16 = nl_attr_get_u16"

definition nl_attr_get_be32 :: "bytes \<Rightarrow> nat \<Rightarrow> u32 option" where
  "nl_attr_get_be32 = nl_attr_get_u32"

definition nl_attr_get_be64 :: "bytes \<Rightarrow> nat \<Rightarrow> u64 option" where
  "nl_attr_get_be64 = nl_attr_get_u64"

definition nl_attr_get_odp_port :: "bytes \<Rightarrow> nat \<Rightarrow> u32 option" where
  "nl_attr_get_odp_port = nl_attr_get_u32"

definition nl_attr_get_flag :: "nat option \<Rightarrow> bool" where
  "nl_attr_get_flag nla \<longleftrightarrow> nla \<noteq> None"

text \<open>The bytes of the string; the assertion is that a null byte ends it within the payload.\<close>

definition nl_attr_get_string :: "bytes \<Rightarrow> nat \<Rightarrow> bytes option" where
  "nl_attr_get_string m nla = do {
     len \<leftarrow> ld16 m nla;
     if unat len > NLA_HDRLEN then do {
       d \<leftarrow> ldn m (nla + NLA_HDRLEN) (unat len - NLA_HDRLEN);
       if 0 \<in> set d then Some (takeWhile (\<lambda>c. c \<noteq> 0) d) else None }
     else None }"

definition nl_attr_get_nested :: "bytes \<Rightarrow> nat \<Rightarrow> bytes option" where
  "nl_attr_get_nested m nla = do { p \<leftarrow> nl_attr_get m nla; n \<leftarrow> nl_attr_get_size m nla; ldn m p n }"

section \<open>Iteration and search\<close>

definition nl_attr_next :: "bytes \<Rightarrow> nat \<Rightarrow> nat option" where
  "nl_attr_next m nla = do { len \<leftarrow> ld16 m nla; Some (nla + NLMSG_ALIGN (unat len)) }"

definition nl_attr_is_valid :: "bytes \<Rightarrow> nat \<Rightarrow> nat \<Rightarrow> bool option" where
  "nl_attr_is_valid m nla maxlen =
     (if maxlen < NLA_HDRLEN then Some False
      else do { len \<leftarrow> ld16 m nla; Some (unat len \<ge> NLA_HDRLEN \<and> NLMSG_ALIGN (unat len) \<le> maxlen) })"

text \<open>Each loop over the attributes (\<open>NL_ATTR_FOR_EACH\<close>) is a recursion over what is left; the inner \<open>None\<close> is a null pointer.\<close>

lemma NLMSG_ALIGN_ge: "n \<le> NLMSG_ALIGN n"
  by (simp add: NLMSG_ALIGN_def)

lemma nl_attr_is_valid_pos: "nl_attr_is_valid m nla left = Some True \<Longrightarrow> ld16 m nla = Some len \<Longrightarrow> 0 < NLMSG_ALIGN (unat len) \<and> 0 < left"
  using NLMSG_ALIGN_ge [of "unat len"] by (auto simp: nl_attr_is_valid_def nl_consts split: if_splits)

function nl_attr_find_raw :: "bytes \<Rightarrow> nat \<Rightarrow> nat \<Rightarrow> u16 \<Rightarrow> nat option option" where
  "nl_attr_find_raw m nla left type = (case nl_attr_is_valid m nla left of
     None \<Rightarrow> None
   | Some False \<Rightarrow> Some None
   | Some True \<Rightarrow> (case nl_attr_type m nla of
       None \<Rightarrow> None
     | Some t \<Rightarrow> if t = type then Some (Some nla)
         else (case ld16 m nla of
             None \<Rightarrow> None
           | Some len \<Rightarrow> nl_attr_find_raw m (nla + NLMSG_ALIGN (unat len)) (left - NLMSG_ALIGN (unat len)) type)))"
  by pat_completeness auto
termination nl_attr_find_raw
  by (relation "measure (\<lambda>(m, nla, left, type). left)") (auto dest!: nl_attr_is_valid_pos)

declare nl_attr_find_raw.simps [simp del]

text \<open>A header longer than the buffer gives a null pointer and a length that wraps around.\<close>

definition nl_attr_find :: "ofpbuf \<Rightarrow> nat \<Rightarrow> u16 \<Rightarrow> nat option option" where
  "nl_attr_find buf hdr_len type = do {
     p \<leftarrow> ofpbuf_at buf hdr_len 0;
     nl_attr_find_raw (ob_mem buf) p (ob_size buf - hdr_len) type }"

definition nl_attr_find_nested :: "bytes \<Rightarrow> nat \<Rightarrow> u16 \<Rightarrow> nat option option" where
  "nl_attr_find_nested m nla type = do {
     p \<leftarrow> nl_attr_get m nla;
     n \<leftarrow> nl_attr_get_size m nla;
     nl_attr_find_raw m p n type }"

section \<open>Policies\<close>

datatype nl_attr_kind = NL_A_NO_ATTR | NL_A_UNSPEC | NL_A_U8 | NL_A_U16 | NL_A_U32 | NL_A_U64 | NL_A_STRING | NL_A_FLAG | NL_A_NESTED
  | N_NL_ATTR_TYPES

record nl_policy =
  np_type :: nl_attr_kind
  np_min_len :: nat
  np_max_len :: nat
  np_optional :: bool

fun min_attr_len :: "nl_attr_kind \<Rightarrow> nat option" where
  "min_attr_len NL_A_NO_ATTR = Some 0"
| "min_attr_len NL_A_UNSPEC = Some 0"
| "min_attr_len NL_A_U8 = Some 1"
| "min_attr_len NL_A_U16 = Some 2"
| "min_attr_len NL_A_U32 = Some 4"
| "min_attr_len NL_A_U64 = Some 8"
| "min_attr_len NL_A_STRING = Some 1"
| "min_attr_len NL_A_FLAG = Some 0"
| "min_attr_len NL_A_NESTED = Some 0"
| "min_attr_len N_NL_ATTR_TYPES = None"

fun max_attr_len :: "nl_attr_kind \<Rightarrow> nat option" where
  "max_attr_len NL_A_NO_ATTR = Some SIZE_MAX"
| "max_attr_len NL_A_UNSPEC = Some SIZE_MAX"
| "max_attr_len NL_A_U8 = Some 1"
| "max_attr_len NL_A_U16 = Some 2"
| "max_attr_len NL_A_U32 = Some 4"
| "max_attr_len NL_A_U64 = Some 8"
| "max_attr_len NL_A_STRING = Some SIZE_MAX"
| "max_attr_len NL_A_FLAG = Some SIZE_MAX"
| "max_attr_len NL_A_NESTED = Some SIZE_MAX"
| "max_attr_len N_NL_ATTR_TYPES = None"

text \<open>The search for an embedded null looks at all bytes of the string but the one at its end; a length of zero wraps around.\<close>

definition nl_attr_validate :: "bytes \<Rightarrow> nat \<Rightarrow> nl_policy \<Rightarrow> bool option" where
  "nl_attr_validate m nla policy =
     (if np_type policy = NL_A_NO_ATTR then Some True
      else do {
        min_len \<leftarrow> (if np_min_len policy = 0 then min_attr_len (np_type policy) else Some (np_min_len policy));
        max_len \<leftarrow> (if np_max_len policy = 0 then max_attr_len (np_type policy) else Some (np_max_len policy));
        len \<leftarrow> nl_attr_get_size m nla;
        if len < min_len \<or> len > max_len then Some False
        else if np_type policy = NL_A_STRING then do {
          c \<leftarrow> ld8 m (nla + NLA_HDRLEN + len - 1);
          if c \<noteq> 0 then Some False
          else if len = 0 then None
          else do { d \<leftarrow> ldn m (nla + NLA_HDRLEN) (len - 1); Some (0 \<notin> set d) } }
        else Some True })"

text \<open>The loop over the attributes: \<open>False\<close> when one is rejected, otherwise the attributes found and what is left.\<close>

function nl_policy_loop :: "bytes \<Rightarrow> nl_policy list \<Rightarrow> nat \<Rightarrow> nat \<Rightarrow> nat option list \<Rightarrow> (bool \<times> nat option list \<times> nat) option" where
  "nl_policy_loop m policy nla left attrs = (case nl_attr_is_valid m nla left of
     None \<Rightarrow> None
   | Some False \<Rightarrow> Some (True, attrs, left)
   | Some True \<Rightarrow> (case (nl_attr_type m nla, ld16 m nla) of
       (Some t, Some len) \<Rightarrow>
         (case (if unat t < length policy \<and> np_type (policy ! unat t) \<noteq> NL_A_NO_ATTR then nl_attr_validate m nla (policy ! unat t) else Some True) of
            None \<Rightarrow> None
          | Some False \<Rightarrow> Some (False, attrs, left)
          | Some True \<Rightarrow> nl_policy_loop m policy (nla + NLMSG_ALIGN (unat len)) (left - NLMSG_ALIGN (unat len))
              (if unat t < length policy \<and> np_type (policy ! unat t) \<noteq> NL_A_NO_ATTR then attrs[unat t := Some nla] else attrs))
     | _ \<Rightarrow> None))"
  by pat_completeness auto
termination nl_policy_loop
  by (relation "measure (\<lambda>(m, policy, nla, left, attrs). left)") (auto dest!: nl_attr_is_valid_pos [OF _ sym])

declare nl_policy_loop.simps [simp del]

definition nl_policy_parse :: "ofpbuf \<Rightarrow> nat \<Rightarrow> nl_policy list \<Rightarrow> (bool \<times> nat option list) option" where
  "nl_policy_parse msg nla_offset policy =
     (let attrs = replicate (length policy) None in
      if ob_size msg < nla_offset then Some (False, attrs)
      else do {
        p \<leftarrow> ofpbuf_at msg nla_offset 0;
        (ok, attrs, left) \<leftarrow> nl_policy_loop (ob_mem msg) policy p (ob_size msg - nla_offset) attrs;
        Some (ok \<and> left = 0 \<and>
          (\<forall>i \<in> {0..<length policy}. np_optional (policy ! i) \<or> np_type (policy ! i) = NL_A_NO_ATTR \<or> attrs ! i \<noteq> None), attrs) })"

definition nl_parse_nested :: "bytes \<Rightarrow> nat \<Rightarrow> nl_policy list \<Rightarrow> (bool \<times> nat option list) option" where
  "nl_parse_nested m nla policy = do { d \<leftarrow> nl_attr_get_nested m nla; nl_policy_parse (ofpbuf_use_const d) 0 policy }"

section \<open>What appending does\<close>

text \<open>The bytes of an attribute: length, type, payload, padding.\<close>

definition attr_bytes :: "u16 \<Rightarrow> bytes \<Rightarrow> bytes" where
  "attr_bytes type d = be16_bytes (of_nat (NLA_HDRLEN + length d)) @ be16_bytes type @ d @ zeros (NLMSG_ALIGN (length d) - length d)"

lemma NLMSG_ALIGN_hdr: "NLMSG_ALIGN (4 + n) = 4 + NLMSG_ALIGN n"
proof -
  have "4 + n + 3 = (n + 3) + 4" by simp
  then show ?thesis unfolding NLMSG_ALIGN_def by (simp only: div_add_self2) simp
qed

lemma NLMSG_ALIGN_idem [simp]: "NLMSG_ALIGN (NLMSG_ALIGN n) = NLMSG_ALIGN n"
  by (simp add: NLMSG_ALIGN_def)

lemma length_attr_bytes [simp]: "length (attr_bytes type d) = NLA_HDRLEN + NLMSG_ALIGN (length d)"
  using NLMSG_ALIGN_ge [of "length d"] by (simp add: attr_bytes_def nl_consts)

text \<open>Two stores side by side are one store.\<close>

lemma store_left: "length a = n \<Longrightarrow> Option.bind (store b (i + n) x) (\<lambda>b. store b i a) = store b i (a @ x)"
  by (auto simp: store_def stn_def add.assoc)

lemma store_right: "length a = n \<Longrightarrow> Option.bind (store b i a) (\<lambda>b. store b (i + n) x) = store b i (a @ x)"
  by (auto simp: store_def stn_def ac_simps)

lemma nl_msg_put_unspec_eq:
  "nl_msg_put_unspec junk b type d =
     (if NLMSG_ALIGN (NLA_HDRLEN + length d) > UINT16_MAX then None else ofpbuf_put junk b (attr_bytes type d))"
proof (cases "ofpbuf_prealloc_tailroom junk b (NLMSG_ALIGN (NLA_HDRLEN + length d))")
  case (Some b1)
  let ?n = "NLA_HDRLEN + length d" and ?h = "be16_bytes (of_nat (NLA_HDRLEN + length d)) @ be16_bytes type"
  let ?pad = "NLMSG_ALIGN ?n - ?n" and ?t = "ofpbuf_tail b1"
  let ?c = "b1\<lparr>ob_size := ob_size b1 + NLMSG_ALIGN ?n\<rparr>"
  have n: "?n + ?pad = NLMSG_ALIGN ?n" "?pad = NLMSG_ALIGN (length d) - length d" "length ?h = NLA_HDRLEN"
    "length (attr_bytes type d) = NLMSG_ALIGN ?n"
    using NLMSG_ALIGN_ge [of ?n] NLMSG_ALIGN_hdr [of "length d"] by (simp_all add: nl_consts)
  have 1: "Option.bind (if ?pad \<noteq> 0 then store ?c (?t + ?n) (zeros ?pad) else Some ?c) (\<lambda>b. Option.bind (store b ?t ?h) (\<lambda>b. store b (?t + NLA_HDRLEN) d)) =
      store ?c ?t (attr_bytes type d)" (is "?l = _")
  proof -
    have e: "attr_bytes type d = (?h @ d) @ zeros ?pad" using n(2) by (simp add: attr_bytes_def)
    have r: "Option.bind (store b ?t ?h) (\<lambda>b. store b (?t + NLA_HDRLEN) d) = store b ?t (?h @ d)" for b
      by (rule store_right [OF n(3)])
    have "length (?h @ d) = ?n" using n(3) by simp
    from store_left [OF this] have "Option.bind (store ?c (?t + ?n) (zeros ?pad)) (\<lambda>b. store b ?t (?h @ d)) = store ?c ?t (attr_bytes type d)"
      unfolding e by blast
    moreover have "?pad = 0 \<Longrightarrow> store ?c ?t (?h @ d) = store ?c ?t (attr_bytes type d)"
      unfolding e by (simp add: zeros_def)
    ultimately show ?thesis using r by auto
  qed
  have "nl_msg_put_unspec junk b type d = (if NLMSG_ALIGN ?n > UINT16_MAX then None else ?l)"
    using Some n(1) by (auto simp: nl_msg_put_unspec_def nl_msg_put_unspec_uninit_def nl_msg_put_uninit_def ofpbuf_put_uninit_def Let_def
        split: Option.bind_splits)
  moreover have "ofpbuf_put junk b (attr_bytes type d) = store ?c ?t (attr_bytes type d)"
    using Some unfolding ofpbuf_put_def ofpbuf_put_uninit_def n(4) by (auto simp: store_def split: Option.bind_splits)
  ultimately show ?thesis unfolding 1 by simp
next
  case None
  have "length (attr_bytes type d) = NLMSG_ALIGN (NLA_HDRLEN + length d)"
    using NLMSG_ALIGN_hdr [of "length d"] by (simp add: nl_consts)
  then have "ofpbuf_put junk b (attr_bytes type d) = None"
    using None unfolding ofpbuf_put_def ofpbuf_put_uninit_def by simp
  moreover have "NLA_HDRLEN + length d + (NLMSG_ALIGN (NLA_HDRLEN + length d) - (NLA_HDRLEN + length d)) = NLMSG_ALIGN (NLA_HDRLEN + length d)"
    using NLMSG_ALIGN_ge [of "NLA_HDRLEN + length d"] by simp
  ultimately show ?thesis
    using None by (simp add: nl_msg_put_unspec_def nl_msg_put_unspec_uninit_def nl_msg_put_uninit_def ofpbuf_put_uninit_def Let_def)
qed

text \<open>A buffer that may grow, such as one from \<open>ofpbuf_init\<close>.\<close>

definition growable :: "ofpbuf \<Rightarrow> bool" where
  "growable b \<longleftrightarrow> ofpbuf_ok b \<and> ob_source b \<noteq> OFPBUF_STACK"

abbreviation fits_attr :: "bytes \<Rightarrow> bool" where
  "fits_attr d \<equiv> NLMSG_ALIGN (NLA_HDRLEN + length d) \<le> UINT16_MAX"

lemma nl_msg_put_unspec_ok:
  assumes "growable b" "fits_attr d"
  shows "\<exists>b'. nl_msg_put_unspec junk b type d = Some b' \<and> growable b' \<and> contents b' = contents b @ attr_bytes type d"
proof -
  have "tailroom_ok b (length (attr_bytes type d))" "ofpbuf_ok b" using assms(1) by (auto simp: growable_def tailroom_ok_def)
  then obtain b' where "ofpbuf_put junk b (attr_bytes type d) = Some b'" "ofpbuf_ok b'" "contents b' = contents b @ attr_bytes type d"
    by (metis ofpbuf_put_ok)
  then show ?thesis using ofpbuf_put_source assms by (auto simp: nl_msg_put_unspec_eq growable_def)
qed

lemma store_splices:
  assumes "ofpbuf_ok b" "o' + length x \<le> ob_size b"
  shows "\<exists>b'. store b (ob_data b + o') x = Some b' \<and> ofpbuf_ok b' \<and> ob_source b' = ob_source b \<and>
    contents b' = take o' (contents b) @ x @ drop (o' + length x) (contents b)"
proof -
  from assms have "ob_data b + o' + length x \<le> length (ob_mem b)" by (simp add: ofpbuf_ok_def)
  then obtain m where m: "stn (ob_mem b) (ob_data b + o') x = Some m" using stn_defined by blast
  have "take (ob_size b) (drop (ob_data b) m) = take o' (contents b) @ x @ drop (o' + length x) (contents b)"
    using m assms by (simp add: stn_Some_iff contents_def ofpbuf_ok_def drop_take ac_simps)
  then show ?thesis using m length_stn [OF m] assms by (simp add: store_def ofpbuf_ok_def contents_def)
qed

text \<open>A nested attribute whose contents are appended by \<open>f\<close>; its length is that of the contents.\<close>

lemma nl_msg_nested_ok:
  assumes "growable b" "\<And>b1. growable b1 \<Longrightarrow> \<exists>b2. f b1 = Some b2 \<and> growable b2 \<and> contents b2 = contents b1 @ x"
  shows "\<exists>b'. Option.bind (nl_msg_start_nested junk b type) (\<lambda>(off, msg). Option.bind (f msg) (\<lambda>msg. nl_msg_end_nested msg off)) = Some b' \<and>
    growable b' \<and> contents b' = contents b @ be16_bytes (of_nat (NLA_HDRLEN + length x)) @ be16_bytes type @ x"
proof -
  have "fits_attr []" by (simp add: NLMSG_ALIGN_def nl_consts)
  from nl_msg_put_unspec_ok [OF assms(1) this] obtain b1 where 1: "nl_msg_put_unspec junk b type [] = Some b1" "growable b1"
    "contents b1 = contents b @ attr_bytes type []" by blast
  from assms(2) [OF 1(2)] obtain b2 where 2: "f b1 = Some b2" "growable b2" "contents b2 = contents b1 @ x" by blast
  have ok: "ofpbuf_ok b" "ofpbuf_ok b2" using assms(1) 2(2) by (auto simp: growable_def)
  have a: "attr_bytes type [] = be16_bytes (of_nat NLA_HDRLEN) @ be16_bytes type" by (simp add: attr_bytes_def NLMSG_ALIGN_def zeros_def)
  have l: "ob_size b2 = ob_size b + NLA_HDRLEN + length x"
    using length_contents [OF ok(2)] length_contents [OF ok(1)] unfolding 2(3) 1(3) by (simp add: NLMSG_ALIGN_def)
  obtain b3 where 3: "store b2 (ob_data b2 + ob_size b) (be16_bytes (of_nat (NLA_HDRLEN + length x))) = Some b3" "ofpbuf_ok b3"
    "ob_source b3 = ob_source b2" "contents b3 = contents b @ be16_bytes (of_nat (NLA_HDRLEN + length x)) @ be16_bytes type @ x"
    using store_splices [OF ok(2), of "ob_size b" "be16_bytes (of_nat (NLA_HDRLEN + length x))"] l length_contents [OF ok(1)]
    unfolding 2(3) 1(3) a by (auto simp: nl_consts)
  then show ?thesis using 1 2 l by (auto simp: nl_msg_start_nested_def nl_msg_end_nested_def ofpbuf_at_assert_def Let_def growable_def)
qed

lemma nl_msg_set_ok:
  assumes "growable b" "fits_attr d" "fits_attr (attr_bytes t d)"
  shows "\<exists>b'. Option.bind (nl_msg_start_nested junk b type) (\<lambda>(off, msg). Option.bind (nl_msg_put_unspec junk msg t d) (\<lambda>msg. nl_msg_end_nested msg off)) = Some b' \<and>
    growable b' \<and> contents b' = contents b @ attr_bytes type (attr_bytes t d)"
proof -
  have "NLMSG_ALIGN (length (attr_bytes t d)) = length (attr_bytes t d)" using NLMSG_ALIGN_hdr [of "NLMSG_ALIGN (length d)"] by (simp add: nl_consts)
  then have "attr_bytes type (attr_bytes t d) = be16_bytes (of_nat (NLA_HDRLEN + length (attr_bytes t d))) @ be16_bytes type @ attr_bytes t d"
    unfolding attr_bytes_def [of type] by (simp add: zeros_def)
  then show ?thesis using nl_msg_nested_ok [OF assms(1) nl_msg_put_unspec_ok [OF _ assms(2)]] by simp
qed

section \<open>Reading what was appended\<close>

lemma unat_attr_len: "fits_attr d \<Longrightarrow> unat (of_nat (NLA_HDRLEN + length d) :: u16) = NLA_HDRLEN + length d"
  using NLMSG_ALIGN_ge [of "NLA_HDRLEN + length d"] by (simp only: unat_of_nat) (simp add: nl_consts)

lemma attr_header:
  assumes "m = pre @ attr_bytes type d @ post"
  shows "ld16 m (length pre) = Some (of_nat (NLA_HDRLEN + length d))" "ld16 m (length pre + 2) = Some type"
    "ldn m (length pre + NLA_HDRLEN) (length d) = Some d"
  by (simp_all add: assms attr_bytes_def be16_bytes_def ld16_def ldn_def nth_append nl_consts)

lemma attr_read:
  assumes "m = pre @ attr_bytes type d @ post" "fits_attr d"
  shows "nl_attr_type m (length pre) = Some (type AND NLA_TYPE_MASK)"
    "nl_attr_get m (length pre) = Some (length pre + NLA_HDRLEN)"
    "nl_attr_get_size m (length pre) = Some (length d)"
    "n \<le> length d \<Longrightarrow> nl_attr_get_unspec m (length pre) n = Some (length pre + NLA_HDRLEN)"
    "length (attr_bytes type d) \<le> left \<Longrightarrow> nl_attr_is_valid m (length pre) left = Some True"
  using attr_header [OF assms(1)] unat_attr_len [OF assms(2)] NLMSG_ALIGN_hdr [of "length d"]
  by (simp_all add: nl_attr_type_def nl_attr_get_def nl_attr_get_size_def nl_attr_get_unspec_def nl_attr_is_valid_def)
    (simp_all add: nl_consts)

abbreviation attrs_bytes :: "(u16 \<times> bytes) list \<Rightarrow> bytes" where
  "attrs_bytes as \<equiv> concat (map (\<lambda>(t, d). attr_bytes t d) as)"

lemma attr_step:
  assumes "m = pre @ attr_bytes type d @ post" "fits_attr d"
  shows "ld16 m (length pre) = Some len \<Longrightarrow> NLMSG_ALIGN (unat len) = length (attr_bytes type d)"
  using attr_header(1) [OF assms(1)] unat_attr_len [OF assms(2)] NLMSG_ALIGN_hdr [of "length d"] by (auto simp: nl_consts)

text \<open>The position of the first attribute of a type, and what is there.\<close>

fun attr_pos :: "nat \<Rightarrow> (u16 \<times> bytes) list \<Rightarrow> u16 \<Rightarrow> nat option" where
  "attr_pos p [] type = None"
| "attr_pos p ((t, d) # as) type = (if t AND NLA_TYPE_MASK = type then Some p else attr_pos (p + length (attr_bytes t d)) as type)"

lemma nl_attr_find_raw_attrs:
  assumes "m = pre @ attrs_bytes as @ post" "\<forall>(t, d) \<in> set as. fits_attr d"
  shows "nl_attr_find_raw m (length pre) (length (attrs_bytes as)) type = Some (attr_pos (length pre) as type)"
  using assms
proof (induction as arbitrary: pre)
  case Nil
  then show ?case by (subst nl_attr_find_raw.simps) (simp add: nl_attr_is_valid_def nl_consts)
next
  case (Cons a as)
  obtain t d where a: "a = (t, d)" by (cases a)
  have m: "m = pre @ attr_bytes t d @ (attrs_bytes as @ post)" "m = (pre @ attr_bytes t d) @ attrs_bytes as @ post" "fits_attr d"
    using Cons.prems by (simp_all add: a)
  note r = attr_read [OF m(1,3)]
  obtain len where len: "ld16 m (length pre) = Some len" using attr_header(1) [OF m(1)] by blast
  note st = attr_step [OF m(1,3) len]
  have "nl_attr_is_valid m (length pre) (length (attrs_bytes (a # as))) = Some True" by (rule r(5)) (simp add: a)
  then show ?case using Cons.IH [OF m(2)] Cons.prems(2) r(1) len st
    by (subst nl_attr_find_raw.simps) (simp add: a)
qed

lemma attr_pos_Some:
  assumes "attr_pos (length pre) as type = Some q" "m = pre @ attrs_bytes as @ post"
  shows "\<exists>t d pre' post'. find (\<lambda>(t, d). t AND NLA_TYPE_MASK = type) as = Some (t, d) \<and> m = pre' @ attr_bytes t d @ post' \<and> q = length pre'"
  using assms
proof (induction as arbitrary: pre)
  case (Cons a as)
  obtain t d where a: "a = (t, d)" by (cases a)
  show ?case
  proof (cases "t AND NLA_TYPE_MASK = type")
    case True
    then show ?thesis using Cons.prems by (intro exI [of _ t] exI [of _ d] exI [of _ pre] exI [of _ "attrs_bytes as @ post"]) (simp add: a)
  next
    case False
    then show ?thesis using Cons.IH [of "pre @ attr_bytes t d"] Cons.prems by (simp add: a)
  qed
qed simp

lemma attr_pos_None: "attr_pos p as type = None \<longleftrightarrow> find (\<lambda>(t, d). t AND NLA_TYPE_MASK = type) as = None"
  by (induction p as type rule: attr_pos.induct) auto

text \<open>Appending a list of attributes.\<close>

fun put_attrs :: "junk \<Rightarrow> ofpbuf \<Rightarrow> (u16 \<times> bytes) list \<Rightarrow> ofpbuf option" where
  "put_attrs junk b [] = Some b"
| "put_attrs junk b ((t, d) # as) = do { b \<leftarrow> nl_msg_put_unspec junk b t d; put_attrs junk b as }"

lemma put_attrs_ok:
  assumes "growable b" "\<forall>(t, d) \<in> set as. fits_attr d"
  shows "\<exists>b'. put_attrs junk b as = Some b' \<and> growable b' \<and> contents b' = contents b @ attrs_bytes as"
  using assms
proof (induction junk b as rule: put_attrs.induct)
  case (2 junk b t d as)
  then obtain b1 where "nl_msg_put_unspec junk b t d = Some b1" "growable b1" "contents b1 = contents b @ attr_bytes t d"
    using nl_msg_put_unspec_ok [of b d junk t] by auto
  then show ?case using "2.IH" [of b1] "2.prems"(2) by auto
qed simp

lemma mem_contents:
  assumes "ofpbuf_ok b"
  obtains pre post where "ob_mem b = pre @ contents b @ post" "length pre = ob_data b"
proof
  show "ob_mem b = take (ob_data b) (ob_mem b) @ contents b @ drop (ob_size b) (drop (ob_data b) (ob_mem b))"
    unfolding contents_def append_take_drop_id ..
  show "length (take (ob_data b) (ob_mem b)) = ob_data b" using assms by (simp add: ofpbuf_ok_def)
qed

section \<open>Messages from elsewhere\<close>

text \<open>An attribute that lies in the bytes from \<open>lo\<close> to \<open>hi\<close>, and one that a policy accepts.\<close>

definition attr_within :: "bytes \<Rightarrow> nat \<Rightarrow> nat \<Rightarrow> nat \<Rightarrow> nat \<Rightarrow> bool" where
  "attr_within m lo hi p n \<longleftrightarrow> lo \<le> p \<and> nl_attr_get_size m p = Some n \<and> p + NLA_HDRLEN + n \<le> hi"

definition size_fits :: "nl_policy \<Rightarrow> nat \<Rightarrow> bool" where
  "size_fits pol n \<longleftrightarrow> (if np_min_len pol = 0 then the (min_attr_len (np_type pol)) else np_min_len pol) \<le> n \<and>
     n \<le> (if np_max_len pol = 0 then the (max_attr_len (np_type pol)) else np_max_len pol)"

definition attr_meets :: "bytes \<Rightarrow> nl_policy \<Rightarrow> nat \<Rightarrow> nat \<Rightarrow> bool" where
  "attr_meets m pol p n \<longleftrightarrow> size_fits pol n \<and>
     (np_type pol = NL_A_STRING \<longrightarrow> (\<exists>str. ldn m (p + NLA_HDRLEN) n = Some (str @ [0]) \<and> 0 \<notin> set str))"

lemma valid_within:
  assumes "nl_attr_is_valid m p left = Some True" "p + left \<le> length m"
  obtains len t where "ld16 m p = Some len" "nl_attr_type m p = Some t" "attr_within m p (p + left) p (unat len - NLA_HDRLEN)"
    "NLMSG_ALIGN (unat len) \<le> left" "0 < NLMSG_ALIGN (unat len)"
proof -
  from assms obtain len where len: "ld16 m p = Some len" "NLA_HDRLEN \<le> unat len" "NLMSG_ALIGN (unat len) \<le> left"
    by (auto simp: nl_attr_is_valid_def split: if_splits Option.bind_splits)
  moreover have "\<exists>t. nl_attr_type m p = Some t"
    using assms(2) len(2,3) NLMSG_ALIGN_ge [of "unat len"] by (simp add: nl_attr_type_def ld16_def nl_consts)
  ultimately show thesis using that NLMSG_ALIGN_ge [of "unat len"] by (auto simp: attr_within_def nl_attr_get_size_def nl_consts)
qed

lemma nl_attr_is_valid_defined: "p + left \<le> length m \<Longrightarrow> \<exists>r. nl_attr_is_valid m p left = Some r"
  by (auto simp: nl_attr_is_valid_def ld16_def nl_consts)

lemma ldn_snoc: "i + n \<le> length m \<Longrightarrow> 0 < n \<Longrightarrow> ldn m i n = Some (take (n - 1) (drop i m) @ [m ! (i + n - 1)])"
  by (cases n) (simp_all add: ldn_def take_Suc_conv_app_nth)

lemma nl_attr_validate_ok:
  assumes "attr_within m lo hi p n" "hi \<le> length m" "np_type pol \<noteq> N_NL_ATTR_TYPES" "np_type pol \<noteq> NL_A_NO_ATTR"
  shows "\<exists>r. nl_attr_validate m p pol = Some r \<and> (r \<longrightarrow> attr_meets m pol p n)"
proof -
  have "min_attr_len (np_type pol) \<noteq> None" "max_attr_len (np_type pol) \<noteq> None" using assms(3) by (cases "np_type pol"; simp)+
  then obtain mn mx where b: "(if np_min_len pol = 0 then min_attr_len (np_type pol) else Some (np_min_len pol)) = Some mn"
    "(if np_max_len pol = 0 then max_attr_len (np_type pol) else Some (np_max_len pol)) = Some mx" by fastforce
  have sf: "size_fits pol n \<longleftrightarrow> mn \<le> n \<and> n \<le> mx" using b by (auto simp: size_fits_def split: if_splits)
  have n: "nl_attr_get_size m p = Some n" "p + 4 + n \<le> length m" using assms(1,2) by (auto simp: attr_within_def nl_consts)
  have pos: "0 < n" if "np_type pol = NL_A_STRING" "size_fits pol n" using that by (auto simp: size_fits_def split: if_splits)
  show ?thesis
  proof (cases "size_fits pol n \<and> np_type pol = NL_A_STRING")
    case True
    with pos have n0: "0 < n" by blast
    have "nl_attr_validate m p pol = (if m ! (p + 4 + n - 1) \<noteq> 0 then Some False else Some (0 \<notin> set (take (n - 1) (drop (p + 4) m))))"
      unfolding nl_attr_validate_def b using True n n0 sf by (simp add: ld8_def ldn_def nl_consts)
    then show ?thesis using True ldn_snoc [OF n(2) n0] by (auto simp: attr_meets_def nl_consts)
  next
    case False
    then show ?thesis unfolding nl_attr_validate_def b using n(1) assms(4) sf by (auto simp: attr_meets_def)
  qed
qed

text \<open>What the loop has found so far lies in the message and meets the policy.\<close>

definition attrs_found :: "bytes \<Rightarrow> nat \<Rightarrow> nat \<Rightarrow> nl_policy list \<Rightarrow> nat option list \<Rightarrow> bool" where
  "attrs_found m lo hi policy attrs \<longleftrightarrow> length attrs = length policy \<and>
     (\<forall>i < length policy. \<forall>p. attrs ! i = Some p \<longrightarrow>
        (\<exists>n. attr_within m lo hi p n \<and> nl_attr_type m p = Some (of_nat i) \<and> attr_meets m (policy ! i) p n))"

lemma nl_policy_loop_ok:
  assumes "attrs_found m lo hi policy attrs" "lo \<le> nla" "nla + left = hi" "hi \<le> length m" "\<forall>pol \<in> set policy. np_type pol \<noteq> N_NL_ATTR_TYPES"
  shows "\<exists>ok attrs' left'. nl_policy_loop m policy nla left attrs = Some (ok, attrs', left') \<and> attrs_found m lo hi policy attrs'"
  using assms
proof (induction m policy nla left attrs rule: nl_policy_loop.induct)
  case (1 m policy nla left attrs)
  have in_m: "nla + left \<le> length m" using "1.prems" by simp
  then obtain v where v: "nl_attr_is_valid m nla left = Some v" using nl_attr_is_valid_defined by blast
  show ?case
  proof (cases v)
    case False
    then show ?thesis using v "1.prems"(1) by (subst nl_policy_loop.simps) auto
  next
    case True
    with v have valid: "nl_attr_is_valid m nla left = Some True" by simp
    from valid_within [OF valid in_m] obtain len t where a: "ld16 m nla = Some len" "nl_attr_type m nla = Some t"
      "attr_within m nla (nla + left) nla (unat len - NLA_HDRLEN)" "NLMSG_ALIGN (unat len) \<le> left" .
    have w: "attr_within m lo hi nla (unat len - NLA_HDRLEN)" using a(3) "1.prems"(2,3) by (simp add: attr_within_def)
    let ?c = "unat t < length policy \<and> np_type (policy ! unat t) \<noteq> NL_A_NO_ATTR"
    let ?v = "if ?c then nl_attr_validate m nla (policy ! unat t) else Some True"
    let ?attrs = "if ?c then attrs[unat t := Some nla] else attrs"
    have "\<exists>r. ?v = Some r \<and> (r \<longrightarrow> attrs_found m lo hi policy ?attrs)"
    proof (cases ?c)
      case True
      then have "np_type (policy ! unat t) \<noteq> N_NL_ATTR_TYPES" using "1.prems"(5) by auto
      from nl_attr_validate_ok [OF w "1.prems"(4) this] True obtain r where
        "nl_attr_validate m nla (policy ! unat t) = Some r" "r \<longrightarrow> attr_meets m (policy ! unat t) nla (unat len - NLA_HDRLEN)" by blast
      then show ?thesis using True w a(2) "1.prems"(1) by (auto simp: attrs_found_def nth_list_update)
    qed (use "1.prems"(1) in auto)
    then obtain r where r: "?v = Some r" "r \<longrightarrow> attrs_found m lo hi policy ?attrs" by blast
    show ?thesis
    proof (cases r)
      case False
      then show ?thesis using v True a(1,2) r(1) "1.prems"(1) by (subst nl_policy_loop.simps) auto
    next
      case True
      with r have r: "?v = Some True" "attrs_found m lo hi policy ?attrs" by simp_all
      from "1.IH" [OF valid refl _ a(2) a(1) r(1) refl r(2)] "1.prems"(2-5) a(4)
      show ?thesis using valid a(1,2) r(1) by (subst nl_policy_loop.simps) simp
    qed
  qed
qed

section \<open>Properties\<close>

text \<open>C20: Attributes appended to a message are found again. Behind whatever header the message starts with, the search for
  a type gives the first attribute of this type, with exactly the payload that was appended, and a null pointer when there
  is none.\<close>

theorem nl_put_find:
  assumes "ofpbuf_ok b" "ob_source b \<noteq> OFPBUF_STACK" "\<forall>(t, d) \<in> set as. NLMSG_ALIGN (NLA_HDRLEN + length d) \<le> UINT16_MAX"
  shows "\<exists>b'. put_attrs junk b as = Some b' \<and>
    (case find (\<lambda>(t, d). t AND NLA_TYPE_MASK = type) as of
       None \<Rightarrow> nl_attr_find b' (ob_size b) type = Some None
     | Some (t, d) \<Rightarrow> \<exists>p. nl_attr_find b' (ob_size b) type = Some (Some p) \<and>
         nl_attr_get_size (ob_mem b') p = Some (length d) \<and> ldn (ob_mem b') (p + NLA_HDRLEN) (length d) = Some d)"
proof -
  from put_attrs_ok [of b as junk] assms obtain b' where b': "put_attrs junk b as = Some b'" "ofpbuf_ok b'"
    "contents b' = contents b @ attrs_bytes as" by (auto simp: growable_def)
  obtain pre post where m: "ob_mem b' = pre @ contents b' @ post" "length pre = ob_data b'" using mem_contents [OF b'(2)] .
  let ?pre = "pre @ contents b"
  have m2: "ob_mem b' = ?pre @ attrs_bytes as @ post" using m b'(3) by simp
  have l: "length ?pre = ob_data b' + ob_size b" using m(2) length_contents [OF assms(1)] by simp
  have sz: "ob_size b' = ob_size b + length (attrs_bytes as)" using length_contents [OF b'(2)] length_contents [OF assms(1)] by (simp add: b'(3))
  have f: "nl_attr_find b' (ob_size b) type = Some (attr_pos (length ?pre) as type)"
    using nl_attr_find_raw_attrs [OF m2 assms(3), of type] sz unfolding l by (simp add: nl_attr_find_def ofpbuf_at_def)
  show ?thesis
  proof (cases "attr_pos (length ?pre) as type")
    case None
    then show ?thesis using b'(1) f by (simp add: attr_pos_None)
  next
    case (Some q)
    from attr_pos_Some [OF Some m2] obtain t d p' q' where q: "find (\<lambda>(t, d). t AND NLA_TYPE_MASK = type) as = Some (t, d)"
      "ob_mem b' = p' @ attr_bytes t d @ q'" "q = length p'" by blast
    then have "(t, d) \<in> set as" by (auto simp: find_Some_iff) (metis nth_mem)
    then have "fits_attr d" using assms(3) by auto
    then show ?thesis using b'(1) f Some q attr_read(3) [OF q(2)] attr_header(3) [OF q(2)] by simp
  qed
qed

text \<open>C21: A message is parsed safely whatever its bytes are. Parsing never reads outside of the message and always comes to a
  result; each attribute it hands out lies within the message behind the header, has the type of its place in the
  policy and a length the policy allows, and a string among them ends with its only null byte; when parsing succeeds, no
  required attribute is missing.\<close>

theorem nl_policy_parse_safe:
  assumes "ofpbuf_ok msg" "\<forall>pol \<in> set policy. np_type pol \<noteq> N_NL_ATTR_TYPES"
  shows "\<exists>ok attrs. nl_policy_parse msg off policy = Some (ok, attrs) \<and> length attrs = length policy \<and>
    (\<forall>i < length policy.
       (case attrs ! i of
          None \<Rightarrow> ok \<longrightarrow> np_optional (policy ! i) \<or> np_type (policy ! i) = NL_A_NO_ATTR
        | Some p \<Rightarrow> ob_data msg + off \<le> p \<and> nl_attr_type (ob_mem msg) p = Some (of_nat i) \<and>
            (\<exists>n. nl_attr_get_size (ob_mem msg) p = Some n \<and> p + NLA_HDRLEN + n \<le> ob_data msg + ob_size msg \<and> size_fits (policy ! i) n \<and>
               (np_type (policy ! i) = NL_A_STRING \<longrightarrow> (\<exists>str. ldn (ob_mem msg) (p + NLA_HDRLEN) n = Some (str @ [0]) \<and> 0 \<notin> set str)))))"
proof (cases "ob_size msg < off")
  case False
  let ?hi = "ob_data msg + ob_size msg" and ?lo = "ob_data msg + off"
  have "attrs_found (ob_mem msg) ?lo ?hi policy (replicate (length policy) None)" by (simp add: attrs_found_def)
  from nl_policy_loop_ok [OF this, of ?lo "ob_size msg - off"] False assms obtain ok attrs left where
    l: "nl_policy_loop (ob_mem msg) policy ?lo (ob_size msg - off) (replicate (length policy) None) = Some (ok, attrs, left)"
    "attrs_found (ob_mem msg) ?lo ?hi policy attrs" by (auto simp: ofpbuf_ok_def)
  then show ?thesis using False
    by (auto simp: nl_policy_parse_def ofpbuf_at_def Let_def attrs_found_def attr_within_def attr_meets_def split: option.split) blast
qed (auto simp: nl_policy_parse_def)

theorem nl_put_find_witness:
  "\<exists>b'. put_attrs (\<lambda>_. 0) (ofpbuf_init (\<lambda>_. 0) 0) [(1, [7]), (2, [8, 9]), (1, [3])] = Some b' \<and>
     (\<exists>p. nl_attr_find b' 0 1 = Some (Some p) \<and> nl_attr_get_size (ob_mem b') p = Some 1)"
proof -
  have "ofpbuf_ok (ofpbuf_init (\<lambda>_. 0) 0)" "ob_source (ofpbuf_init (\<lambda>_. 0) 0) \<noteq> OFPBUF_STACK" "ob_size (ofpbuf_init (\<lambda>_. 0) 0) = 0"
    by (simp_all add: ofpbuf_init_def ofpbuf_use_def ofpbuf_use_raw_def ofpbuf_ok_def)
  then show ?thesis
    using nl_put_find [of "ofpbuf_init (\<lambda>_. 0) 0" "[(1, [7]), (2, [8, 9]), (1, [3])]" "\<lambda>_. 0" 1]
    by (auto simp: NLMSG_ALIGN_def nl_consts NLA_TYPE_MASK_def)
qed

theorem nl_policy_parse_safe_witness:
  "\<exists>ok attrs. nl_policy_parse (ofpbuf_use_const (replicate 7 0xff)) 0 [\<lparr>np_type = NL_A_STRING, np_min_len = 0, np_max_len = 16, np_optional = False\<rparr>] =
     Some (ok, attrs) \<and> length attrs = 1"
  using nl_policy_parse_safe [of "ofpbuf_use_const (replicate 7 0xff)"
      "[\<lparr>np_type = NL_A_STRING, np_min_len = 0, np_max_len = 16, np_optional = False\<rparr>]" 0]
  by (auto simp: ofpbuf_use_const_def ofpbuf_use_raw_def ofpbuf_ok_def)

end
