(* ===== verification/FlowKey.thy ===== *)
theory FlowKey
  imports Prelude
begin

text \<open>
  Flow keys and the actions of a flow, \<open>datapath/dpdk/flow.h\<close> and \<open>action.h\<close>, and the extraction of the key from
  the head of a packet, \<open>flow_key_extract\<close> of \<open>flow.c\<close>. A packet is the memory of its buffer from the first byte
  of data on; reading beyond the buffer is undefined and gives \<open>None\<close>. The header layouts of Ethernet, 802.1Q, IPv4,
  TCP, UDP and ICMP are the ones on the wire.
\<close>

section \<open>Data\<close>

record flow_key =
  in_port :: u32
  ether_dst :: bytes
  ether_src :: bytes
  ether_type :: u16
  vlan_id :: u16
  vlan_prio :: u8
  ip_src :: u32
  ip_dst :: u32
  ip_proto :: u8
  ip_tos :: u8
  ip_ttl :: u8
  ip_frag :: u8
  tran_src_port :: u16
  tran_dst_port :: u16

record flow_stats =
  packet_count :: u64
  byte_count :: u64
  used :: u64
  tcp_flags :: u8

text \<open>A value of \<open>struct action\<close>: the tag and the member of the union that it selects.\<close>

datatype action = ACTION_NULL
  | ACTION_OUTPUT u32
  | ACTION_POP_VLAN
  | ACTION_PUSH_VLAN u16 u16
  | ACTION_SET_ETHERNET bytes bytes
  | ACTION_SET_IPV4 u32 u32 u8 u8 u8 u8
  | ACTION_SET_TCP u16 u16
  | ACTION_SET_UDP u16 u16
  | ACTION_MAX

definition MAX_ACTIONS :: nat where "MAX_ACTIONS = 48"

text \<open>All bytes zero.\<close>

definition zero_key :: flow_key where
  "zero_key = \<lparr>in_port = 0, ether_dst = zeros 6, ether_src = zeros 6, ether_type = 0, vlan_id = 0, vlan_prio = 0,
     ip_src = 0, ip_dst = 0, ip_proto = 0, ip_tos = 0, ip_ttl = 0, ip_frag = 0, tran_src_port = 0, tran_dst_port = 0\<rparr>"

definition zero_stats :: flow_stats where
  "zero_stats = \<lparr>packet_count = 0, byte_count = 0, used = 0, tcp_flags = 0\<rparr>"

definition zero_actions :: "action list" where
  "zero_actions = replicate MAX_ACTIONS ACTION_NULL"

definition ETHER_TYPE_IPv4 :: u16 where "ETHER_TYPE_IPv4 = 0x0800"
definition ETHER_TYPE_VLAN :: u16 where "ETHER_TYPE_VLAN = 0x8100"
definition IPPROTO_ICMP :: u8 where "IPPROTO_ICMP = 1"
definition IPPROTO_TCP :: u8 where "IPPROTO_TCP = 6"
definition IPPROTO_UDP :: u8 where "IPPROTO_UDP = 17"
definition IPV4_HDR_OFFSET_MASK :: u16 where "IPV4_HDR_OFFSET_MASK = 0x1fff"
definition IPV4_HDR_MF_FLAG :: u16 where "IPV4_HDR_MF_FLAG = 0x2000"
definition VLAN_ID_MASK :: u16 where "VLAN_ID_MASK = 0xfff"
definition OVS_FRAG_TYPE_NONE :: u8 where "OVS_FRAG_TYPE_NONE = 0"
definition OVS_FRAG_TYPE_FIRST :: u8 where "OVS_FRAG_TYPE_FIRST = 1"
definition OVS_FRAG_TYPE_LATER :: u8 where "OVS_FRAG_TYPE_LATER = 2"

lemmas key_consts = ETHER_TYPE_IPv4_def ETHER_TYPE_VLAN_def IPPROTO_ICMP_def IPPROTO_TCP_def IPPROTO_UDP_def
  IPV4_HDR_OFFSET_MASK_def IPV4_HDR_MF_FLAG_def VLAN_ID_MASK_def
  OVS_FRAG_TYPE_NONE_def OVS_FRAG_TYPE_FIRST_def OVS_FRAG_TYPE_LATER_def

section \<open>Extraction\<close>

text \<open>The Ethernet header and an 802.1Q tag; the offset is that of the next header.\<close>

definition extract_l2 :: "bytes \<Rightarrow> u8 \<Rightarrow> flow_key \<Rightarrow> (flow_key \<times> nat) option" where
  "extract_l2 pkt port key = do {
     dst \<leftarrow> ldn pkt 0 6;
     src \<leftarrow> ldn pkt 6 6;
     ty \<leftarrow> ld16 pkt 12;
     let key = key\<lparr>in_port := ucast port, ether_dst := dst, ether_src := src, ether_type := ntohs ty\<rparr>;
     if ether_type key = ETHER_TYPE_VLAN then do {
       tci \<leftarrow> ld16 pkt 14;
       proto \<leftarrow> ld16 pkt 16;
       let vlan_tci = ntohs tci;
       Some (key\<lparr>vlan_id := vlan_tci AND VLAN_ID_MASK, vlan_prio := ucast (drop_bit 13 vlan_tci),
                 ether_type := ntohs proto\<rparr>, 18) }
     else Some (key, 14) }"

text \<open>The IPv4 header; the flag says that the packet is a later fragment, for which extraction ends.\<close>

definition extract_ipv4 :: "bytes \<Rightarrow> nat \<Rightarrow> flow_key \<Rightarrow> (flow_key \<times> bool) option" where
  "extract_ipv4 pkt off key = do {
     dst \<leftarrow> ld32 pkt (off + 16);
     src \<leftarrow> ld32 pkt (off + 12);
     proto \<leftarrow> ld8 pkt (off + 9);
     tos \<leftarrow> ld8 pkt (off + 1);
     ttl \<leftarrow> ld8 pkt (off + 8);
     be_offset \<leftarrow> ld16 pkt (off + 6);
     let key = key\<lparr>ip_dst := ntohl dst, ip_src := ntohl src, ip_proto := proto, ip_tos := tos, ip_ttl := ttl\<rparr>;
     if be_offset AND ntohs IPV4_HDR_OFFSET_MASK \<noteq> 0 then Some (key\<lparr>ip_frag := OVS_FRAG_TYPE_LATER\<rparr>, True)
     else if be_offset AND ntohs IPV4_HDR_MF_FLAG \<noteq> 0 then Some (key\<lparr>ip_frag := OVS_FRAG_TYPE_FIRST\<rparr>, False)
     else Some (key\<lparr>ip_frag := OVS_FRAG_TYPE_NONE\<rparr>, False) }"

definition extract_l4 :: "bytes \<Rightarrow> nat \<Rightarrow> flow_key \<Rightarrow> flow_key option" where
  "extract_l4 pkt off key =
     (if ip_proto key = IPPROTO_TCP \<or> ip_proto key = IPPROTO_UDP then do {
        dst \<leftarrow> ld16 pkt (off + 2);
        src \<leftarrow> ld16 pkt off;
        Some (key\<lparr>tran_dst_port := ntohs dst, tran_src_port := ntohs src\<rparr>) }
      else if ip_proto key = IPPROTO_ICMP then do {
        code \<leftarrow> ld8 pkt (off + 1);
        type \<leftarrow> ld8 pkt off;
        Some (key\<lparr>tran_dst_port := ucast code, tran_src_port := ucast type\<rparr>) }
      else Some (key\<lparr>tran_dst_port := 0, tran_src_port := 0\<rparr>))"

definition flow_key_extract :: "bytes \<Rightarrow> u8 \<Rightarrow> flow_key \<Rightarrow> flow_key option" where
  "flow_key_extract pkt port key = do {
     (key, off) \<leftarrow> extract_l2 pkt port key;
     if ether_type key = ETHER_TYPE_IPv4 then do {
       (key, later) \<leftarrow> extract_ipv4 pkt off key;
       if later then Some key else extract_l4 pkt (off + 20) key }
     else extract_l4 pkt off key }"

section \<open>Frames composed from a key\<close>

text \<open>
  A reference for extraction: the head of a frame with the fields of a key. The arguments \<open>x\<close> to \<open>z\<close> are bytes that
  no key depends on: the drop-eligible bit of the tag, the length and identification of the packet, its checksum.
\<close>

definition be16 :: "u16 \<Rightarrow> bytes" where "be16 v = [hi8 v, lo8 v]"
definition be32 :: "u32 \<Rightarrow> bytes" where "be32 v = be16 (hi16 v) @ be16 (lo16 v)"

definition emit_l2 :: "bool \<Rightarrow> bool \<Rightarrow> flow_key \<Rightarrow> bytes" where
  "emit_l2 tagged x k = ether_dst k @ ether_src k @
     (if tagged then be16 0x8100 @ be16 (push_bit 13 (ucast (vlan_prio k)) OR (if x then 0x1000 else 0) OR vlan_id k) else []) @
     be16 (ether_type k)"

definition frag_field :: "u16 \<Rightarrow> u8 \<Rightarrow> u16" where
  "frag_field pos frag = (if frag = 2 then pos else if frag = 1 then 0x2000 else 0)"

definition emit_ipv4 :: "u16 \<Rightarrow> u8 list \<Rightarrow> u8 list \<Rightarrow> flow_key \<Rightarrow> bytes" where
  "emit_ipv4 pos y z k = [0x45, ip_tos k] @ y @ be16 (frag_field pos (ip_frag k)) @ [ip_ttl k, ip_proto k] @ z @
     be32 (ip_src k) @ be32 (ip_dst k)"

definition emit_l4 :: "flow_key \<Rightarrow> bytes" where
  "emit_l4 k = (if ip_proto k = 1 then [ucast (tran_src_port k), ucast (tran_dst_port k)]
     else be16 (tran_src_port k) @ be16 (tran_dst_port k))"

definition emit_frame :: "bool \<Rightarrow> bool \<Rightarrow> u16 \<Rightarrow> u8 list \<Rightarrow> u8 list \<Rightarrow> flow_key \<Rightarrow> bytes" where
  "emit_frame tagged x pos y z k = emit_l2 tagged x k @
     (if ether_type k = 0x0800 then emit_ipv4 pos y z k @ emit_l4 k else [])"

text \<open>The keys a packet can have.\<close>

definition key_ok :: "bool \<Rightarrow> flow_key \<Rightarrow> bool" where
  "key_ok tagged k \<longleftrightarrow> length (ether_dst k) = 6 \<and> length (ether_src k) = 6 \<and> in_port k < 256 \<and>
     vlan_id k < 4096 \<and> vlan_prio k < 8 \<and> (\<not> tagged \<longrightarrow> vlan_id k = 0 \<and> vlan_prio k = 0 \<and> ether_type k \<noteq> 0x8100) \<and>
     (if ether_type k = 0x0800
      then ip_frag k \<in> {0, 1, 2} \<and>
        (ip_frag k = 2 \<or> ip_proto k \<notin> {1, 6, 17} \<longrightarrow> tran_src_port k = 0 \<and> tran_dst_port k = 0) \<and>
        (ip_proto k = 1 \<longrightarrow> tran_src_port k < 256 \<and> tran_dst_port k < 256)
      else ip_src k = 0 \<and> ip_dst k = 0 \<and> ip_proto k = 0 \<and> ip_tos k = 0 \<and> ip_ttl k = 0 \<and> ip_frag k = 0 \<and>
        tran_src_port k = 0 \<and> tran_dst_port k = 0)"

section \<open>Lemmas\<close>

lemma length_be16 [simp]: "length (be16 v) = 2"
  by (simp add: be16_def)

lemma length_be32 [simp]: "length (be32 v) = 4"
  by (simp add: be32_def)

lemma ld16_be16: "length pre = i \<Longrightarrow> ld16 (pre @ be16 v @ post) i = Some (htons v)"
  by (auto simp: ld16_def be16_def htons_def nth_append)

lemma ld32_be32: "length pre = i \<Longrightarrow> ld32 (pre @ be32 v @ post) i = Some (htonl v)"
  by (auto simp: ld32_def be32_def be16_def htonl_def htons_def nth_append)

lemma ld8_at: "length pre = i \<Longrightarrow> ld8 (pre @ v # post) i = Some v"
  by (auto simp: ld8_def)

lemma ldn_at: "length pre = i \<Longrightarrow> length bs = n \<Longrightarrow> ldn (pre @ bs @ post) i n = Some bs"
  by (auto simp: ldn_def)

lemma bit_bound: "w < 2 ^ k \<Longrightarrow> bit (w :: 'a::len word) n \<Longrightarrow> n < k"
  using less_mask_eq [of w k] by (metis bit_and_iff bit_mask_iff)

lemma tci_fields:
  fixes x :: bool and vid :: u16
  assumes "vid < 4096" "prio < (8 :: u8)"
  defines "tci \<equiv> push_bit 13 (ucast prio) OR (if x then 0x1000 else 0) OR vid"
  shows "tci AND 0xfff = vid" "ucast (drop_bit 13 tci) = prio"
proof -
  have v: "bit vid n \<Longrightarrow> n < 12" for n using bit_bound [of vid 12 n] assms(1) by simp
  have p: "bit prio n \<Longrightarrow> n < 3" for n using bit_bound [of prio 3 n] assms(2) by simp
  have m: "bit (0xfff :: int) n \<longleftrightarrow> n < 12" for n
    using bit_mask_iff [where 'a = int, of 12 n] by (simp add: mask_eq_exp_minus_1)
  have f: "bit (0x1000 :: int) n \<longleftrightarrow> n = 12" for n
    using bit_exp_iff [where 'a = int, of 12 n] by auto
  show "tci AND 0xfff = vid"
    unfolding tci_def by (rule bit_eqI) (auto simp: bit_and_iff bit_or_iff bit_push_bit_iff bit_unsigned_iff m f dest: v)
  show "ucast (drop_bit 13 tci) = prio"
    unfolding tci_def by (rule bit_eqI) (auto simp: bit_or_iff bit_drop_bit_eq bit_push_bit_iff bit_unsigned_iff f dest: v p)
qed

lemma htons_0_iff: "htons x = 0 \<longleftrightarrow> x = 0"
  using htons_inject [of x 0] by (simp add: htons_def hi8_def lo8_def le16_def)

lemma frag_tests:
  "(htons f AND htons m \<noteq> 0) = (f AND m \<noteq> 0)"
  by (simp only: htons_and [symmetric] htons_0_iff)

lemma extract_l2_emit:
  assumes "key_ok tagged k"
  shows "extract_l2 (emit_l2 tagged x k @ rest) (ucast (in_port k)) zero_key =
    Some (zero_key\<lparr>in_port := in_port k, ether_dst := ether_dst k, ether_src := ether_src k, ether_type := ether_type k,
       vlan_id := vlan_id k, vlan_prio := vlan_prio k\<rparr>, length (emit_l2 tagged x k))"
proof -
  have l: "length (ether_dst k) = 6" "length (ether_src k) = 6" and p: "in_port k < 256"
    and v: "vlan_id k < 4096" "vlan_prio k < 8"
    using assms by (auto simp: key_ok_def)
  have port: "ucast (ucast (in_port k) :: u8) = in_port k"
    using p by (intro unat_eqI) (simp add: unsigned_ucast_eq take_bit_eq_mod word_less_nat_alt unat_mod_distrib)
  let ?p = "emit_l2 tagged x k @ rest"
  have d: "ldn ?p 0 6 = Some (ether_dst k)" "ldn ?p 6 6 = Some (ether_src k)"
    using l by (simp_all add: emit_l2_def ldn_def)
  show ?thesis
  proof (cases tagged)
    case True
    let ?tci = "push_bit 13 (ucast (vlan_prio k)) OR (if x then 0x1000 else 0) OR vlan_id k"
    let ?h = "ether_dst k @ ether_src k"
    have "?p = ?h @ be16 0x8100 @ be16 ?tci @ be16 (ether_type k) @ rest"
      using True by (simp add: emit_l2_def)
    then have "ld16 ?p 12 = Some (htons 0x8100)" "ld16 ?p 14 = Some (htons ?tci)" "ld16 ?p 16 = Some (htons (ether_type k))"
      using l ld16_be16 [of ?h 12 "0x8100"] ld16_be16 [of "?h @ be16 0x8100" 14 ?tci "be16 (ether_type k) @ rest"]
        ld16_be16 [of "?h @ be16 0x8100 @ be16 ?tci" 16 "ether_type k" rest] by simp_all
    then show ?thesis
      using True d tci_fields [OF v, of x] l
      by (simp add: extract_l2_def key_consts port Let_def emit_l2_def)
  next
    case False
    then have "?p = (ether_dst k @ ether_src k) @ be16 (ether_type k) @ rest" by (simp add: emit_l2_def)
    then have "ld16 ?p 12 = Some (htons (ether_type k))"
      using l ld16_be16 [of "ether_dst k @ ether_src k" 12] by simp
    then show ?thesis
      using False d assms l by (simp add: extract_l2_def key_consts port Let_def emit_l2_def key_ok_def zero_key_def)
  qed
qed

lemma extract_ipv4_emit:
  assumes "length pre = off" "length y = 4" "length z = 2" "pos AND 0x1fff \<noteq> 0" "ip_frag k \<in> {0, 1, 2}"
  shows "extract_ipv4 (pre @ emit_ipv4 pos y z k @ rest) off a =
    Some (a\<lparr>ip_dst := ip_dst k, ip_src := ip_src k, ip_proto := ip_proto k, ip_tos := ip_tos k, ip_ttl := ip_ttl k,
       ip_frag := ip_frag k\<rparr>, ip_frag k = 2)"
proof -
  let ?p = "pre @ emit_ipv4 pos y z k @ rest"
  let ?f = "frag_field pos (ip_frag k)"
  let ?h = "pre @ [0x45, ip_tos k] @ y"
  let ?i = "?h @ be16 ?f @ [ip_ttl k, ip_proto k] @ z"
  have e: "?p = ?h @ be16 ?f @ [ip_ttl k, ip_proto k] @ z @ be32 (ip_src k) @ be32 (ip_dst k) @ rest"
    by (simp add: emit_ipv4_def)
  have l: "ld32 ?p (off + 16) = Some (htonl (ip_dst k))" "ld32 ?p (off + 12) = Some (htonl (ip_src k))"
    "ld16 ?p (off + 6) = Some (htons ?f)"
    using assms(1-3) ld32_be32 [of "?i @ be32 (ip_src k)" "off + 16" "ip_dst k" rest]
      ld32_be32 [of ?i "off + 12" "ip_src k" "be32 (ip_dst k) @ rest"] ld16_be16 [of ?h "off + 6" ?f] unfolding e by simp_all
  have b: "ld8 ?p (off + 9) = Some (ip_proto k)" "ld8 ?p (off + 8) = Some (ip_ttl k)" "ld8 ?p (off + 1) = Some (ip_tos k)"
    using assms(1-3) ld8_at [of "?h @ be16 ?f @ [ip_ttl k]" "off + 9"] ld8_at [of "?h @ be16 ?f" "off + 8"]
      ld8_at [of "pre @ [0x45]" "off + 1"] unfolding e by simp_all
  have t: "(?f AND IPV4_HDR_OFFSET_MASK \<noteq> 0) = (ip_frag k = 2)"
    "ip_frag k \<noteq> 2 \<Longrightarrow> (?f AND IPV4_HDR_MF_FLAG \<noteq> 0) = (ip_frag k = 1)"
    using assms(4,5) by (auto simp: frag_field_def key_consts)
  have "ip_frag k = 2 \<or> ip_frag k = 1 \<or> ip_frag k = 0" using assms(5) by auto
  then show ?thesis
    unfolding extract_ipv4_def l b Option.bind.simps Let_def frag_tests t(1)
    using t(2) by (elim disjE) (simp_all add: OVS_FRAG_TYPE_NONE_def OVS_FRAG_TYPE_FIRST_def OVS_FRAG_TYPE_LATER_def)
qed

lemma ucast_u8_u16: "(w :: u16) < 256 \<Longrightarrow> ucast (ucast w :: u8) = w"
  by (intro unat_eqI) (simp add: unsigned_ucast_eq take_bit_eq_mod word_less_nat_alt unat_mod_distrib)

lemma extract_l4_emit:
  assumes "length pre = off" "ip_proto a = ip_proto k"
    and "ip_proto k \<notin> {1, 6, 17} \<longrightarrow> tran_src_port k = 0 \<and> tran_dst_port k = 0"
    and "ip_proto k = 1 \<longrightarrow> tran_src_port k < 256 \<and> tran_dst_port k < 256"
  shows "extract_l4 (pre @ emit_l4 k @ rest) off a =
    Some (a\<lparr>tran_dst_port := tran_dst_port k, tran_src_port := tran_src_port k\<rparr>)"
proof -
  let ?p = "pre @ emit_l4 k @ rest"
  have "ip_proto k \<noteq> 1 \<Longrightarrow> ld16 ?p off = Some (htons (tran_src_port k))"
    "ip_proto k \<noteq> 1 \<Longrightarrow> ld16 ?p (off + 2) = Some (htons (tran_dst_port k))"
    using assms(1) ld16_be16 [of pre off "tran_src_port k"] ld16_be16 [of "pre @ be16 (tran_src_port k)" "off + 2"]
    by (simp_all add: emit_l4_def)
  moreover have "ip_proto k = 1 \<Longrightarrow> ld8 ?p off = Some (ucast (tran_src_port k))"
    "ip_proto k = 1 \<Longrightarrow> ld8 ?p (off + 1) = Some (ucast (tran_dst_port k))"
    using assms(1) ld8_at [of pre off] ld8_at [of "pre @ [ucast (tran_src_port k)]" "off + 1"]
    by (simp_all add: emit_l4_def)
  ultimately show ?thesis
    using assms(2-4) by (auto simp: extract_l4_def key_consts ucast_u8_u16)
qed

section \<open>Properties\<close>

text \<open>C16: \<open>flow_key_extract\<close> inverts the composition of a frame: from a frame with the fields of a key, tagged or
  not, IPv4 or not, whole or a fragment, it reads that key, whatever the other header bytes and the payload
  are.\<close>

theorem flow_key_extract_emit:
  assumes "key_ok tagged k" "length y = 4" "length z = 2" "pos AND 0x1fff \<noteq> 0"
  shows "flow_key_extract (emit_frame tagged x pos y z k @ rest) (ucast (in_port k)) zero_key = Some k"
proof (cases "ether_type k = 0x0800")
  case True
  let ?l2 = "emit_l2 tagged x k" and ?ip = "emit_ipv4 pos y z k"
  have e: "emit_frame tagged x pos y z k @ rest = ?l2 @ (?ip @ emit_l4 k @ rest)"
    using True by (simp add: emit_frame_def)
  have n: "length (?l2 @ ?ip) = length ?l2 + 20"
    using assms(2,3) by (simp add: emit_ipv4_def)
  have "ip_frag k \<in> {0, 1, 2}" using assms(1) True by (simp add: key_ok_def)
  note i = extract_ipv4_emit [OF refl assms(2-4) this, of ?l2 "emit_l4 k @ rest"]
  note l4 = extract_l4_emit [OF n, of _ k rest, unfolded append_assoc]
  show ?thesis
    unfolding flow_key_extract_def e extract_l2_emit [OF assms(1)]
    using True assms(1) by (cases "ip_frag k = 2") (auto simp: i l4 key_consts key_ok_def zero_key_def)
next
  case False
  then have e: "emit_frame tagged x pos y z k @ rest = emit_l2 tagged x k @ rest"
    by (simp add: emit_frame_def)
  show ?thesis
    unfolding flow_key_extract_def e extract_l2_emit [OF assms(1)]
    using False assms(1) by (auto simp: key_consts key_ok_def zero_key_def extract_l4_def)
qed

definition example_key :: flow_key where
  "example_key = \<lparr>in_port = 17, ether_dst = [1, 2, 3, 4, 5, 6], ether_src = [6, 5, 4, 3, 2, 1], ether_type = 0x0800,
     vlan_id = 100, vlan_prio = 3, ip_src = 0x0a000001, ip_dst = 0x0a000002, ip_proto = 6, ip_tos = 0, ip_ttl = 64,
     ip_frag = 0, tran_src_port = 1234, tran_dst_port = 80\<rparr>"

theorem flow_key_extract_emit_witness:
  "flow_key_extract (emit_frame True False 1 [0, 40, 0, 1] [0, 0] example_key @ [7, 7, 7]) (ucast (in_port example_key)) zero_key =
     Some example_key"
  by (rule flow_key_extract_emit) (simp_all add: key_ok_def example_key_def)

end
