(* ===== verification/OdpKey.thy ===== *)
theory OdpKey
  imports Netlink FlowKey
begin

text \<open>
  Flow keys as Netlink attributes, \<open>lib/odp-util.c\<close>: \<open>struct flow\<close> of \<open>lib/flow.h\<close> is written as a sequence of attributes
  and read back. The structures of \<open>include/linux/openvswitch.h\<close> are the bytes of their members. Reading takes the memory
  the attributes lie in. Log messages are left out. The result \<open>None\<close> is undefined behaviour: a null or uninitialized
  pointer, or a shift by more than the width.
\<close>

section \<open>Flows\<close>

record flow_tnl =
  tun_id :: u64
  tun_ip_src :: u32
  tun_ip_dst :: u32
  tun_flags :: u16
  tun_ip_tos :: u8
  tun_ip_ttl :: u8

record flow =
  tunnel :: flow_tnl
  metadata :: u64
  ipv6_src :: bytes
  ipv6_dst :: bytes
  nd_target :: bytes
  skb_priority :: u32
  regs :: "u32 list"
  nw_src :: u32
  nw_dst :: u32
  ipv6_label :: u32
  fl_in_port :: u32
  pkt_mark :: u32
  mpls_lse :: u32
  mpls_depth :: u16
  vlan_tci :: u16
  dl_type :: u16
  tp_src :: u16
  tp_dst :: u16
  dl_src :: bytes
  dl_dst :: bytes
  nw_proto :: u8
  nw_tos :: u8
  arp_sha :: bytes
  arp_tha :: bytes
  nw_ttl :: u8
  nw_frag :: u8

definition zero_tnl :: flow_tnl where
  "zero_tnl = \<lparr>tun_id = 0, tun_ip_src = 0, tun_ip_dst = 0, tun_flags = 0, tun_ip_tos = 0, tun_ip_ttl = 0\<rparr>"

definition zero_flow :: flow where
  "zero_flow = \<lparr>tunnel = zero_tnl, metadata = 0, ipv6_src = zeros 16, ipv6_dst = zeros 16, nd_target = zeros 16, skb_priority = 0,
     regs = replicate 8 0, nw_src = 0, nw_dst = 0, ipv6_label = 0, fl_in_port = 0, pkt_mark = 0, mpls_lse = 0, mpls_depth = 0,
     vlan_tci = 0, dl_type = 0, tp_src = 0, tp_dst = 0, dl_src = zeros 6, dl_dst = zeros 6, nw_proto = 0, nw_tos = 0,
     arp_sha = zeros 6, arp_tha = zeros 6, nw_ttl = 0, nw_frag = 0\<rparr>"

definition ODPP_NONE :: u32 where "ODPP_NONE = 0xffffffff"
definition FLOW_DL_TYPE_NONE :: u16 where "FLOW_DL_TYPE_NONE = 0x5ff"
definition ETH_TYPE_MIN :: u16 where "ETH_TYPE_MIN = 0x600"
definition ETH_TYPE_IP :: u16 where "ETH_TYPE_IP = 0x0800"
definition ETH_TYPE_ARP :: u16 where "ETH_TYPE_ARP = 0x0806"
definition ETH_TYPE_IPV6 :: u16 where "ETH_TYPE_IPV6 = 0x86dd"
definition VLAN_CFI :: u16 where "VLAN_CFI = 0x1000"
definition IPPROTO_ICMPV6 :: u8 where "IPPROTO_ICMPV6 = 58"
definition IPPROTO_SCTP :: u8 where "IPPROTO_SCTP = 132"
definition ND_NEIGHBOR_SOLICIT :: u16 where "ND_NEIGHBOR_SOLICIT = 135"
definition ND_NEIGHBOR_ADVERT :: u16 where "ND_NEIGHBOR_ADVERT = 136"
definition FLOW_NW_FRAG_ANY :: u8 where "FLOW_NW_FRAG_ANY = 1"
definition FLOW_NW_FRAG_LATER :: u8 where "FLOW_NW_FRAG_LATER = 2"
definition FLOW_TNL_F_DONT_FRAGMENT :: u16 where "FLOW_TNL_F_DONT_FRAGMENT = 1"
definition FLOW_TNL_F_CSUM :: u16 where "FLOW_TNL_F_CSUM = 2"
definition FLOW_TNL_F_KEY :: u16 where "FLOW_TNL_F_KEY = 4"

text \<open>The numbers of the attributes.\<close>

abbreviation (input) OVS_KEY_ATTR_ENCAP :: nat where "OVS_KEY_ATTR_ENCAP \<equiv> 1"
abbreviation (input) OVS_KEY_ATTR_PRIORITY :: nat where "OVS_KEY_ATTR_PRIORITY \<equiv> 2"
abbreviation (input) OVS_KEY_ATTR_IN_PORT :: nat where "OVS_KEY_ATTR_IN_PORT \<equiv> 3"
abbreviation (input) OVS_KEY_ATTR_ETHERNET :: nat where "OVS_KEY_ATTR_ETHERNET \<equiv> 4"
abbreviation (input) OVS_KEY_ATTR_VLAN :: nat where "OVS_KEY_ATTR_VLAN \<equiv> 5"
abbreviation (input) OVS_KEY_ATTR_ETHERTYPE :: nat where "OVS_KEY_ATTR_ETHERTYPE \<equiv> 6"
abbreviation (input) OVS_KEY_ATTR_IPV4 :: nat where "OVS_KEY_ATTR_IPV4 \<equiv> 7"
abbreviation (input) OVS_KEY_ATTR_IPV6 :: nat where "OVS_KEY_ATTR_IPV6 \<equiv> 8"
abbreviation (input) OVS_KEY_ATTR_TCP :: nat where "OVS_KEY_ATTR_TCP \<equiv> 9"
abbreviation (input) OVS_KEY_ATTR_UDP :: nat where "OVS_KEY_ATTR_UDP \<equiv> 10"
abbreviation (input) OVS_KEY_ATTR_ICMP :: nat where "OVS_KEY_ATTR_ICMP \<equiv> 11"
abbreviation (input) OVS_KEY_ATTR_ICMPV6 :: nat where "OVS_KEY_ATTR_ICMPV6 \<equiv> 12"
abbreviation (input) OVS_KEY_ATTR_ARP :: nat where "OVS_KEY_ATTR_ARP \<equiv> 13"
abbreviation (input) OVS_KEY_ATTR_ND :: nat where "OVS_KEY_ATTR_ND \<equiv> 14"
abbreviation (input) OVS_KEY_ATTR_SKB_MARK :: nat where "OVS_KEY_ATTR_SKB_MARK \<equiv> 15"
abbreviation (input) OVS_KEY_ATTR_TUNNEL :: nat where "OVS_KEY_ATTR_TUNNEL \<equiv> 16"
abbreviation (input) OVS_KEY_ATTR_SCTP :: nat where "OVS_KEY_ATTR_SCTP \<equiv> 17"
abbreviation (input) OVS_KEY_ATTR_MPLS :: nat where "OVS_KEY_ATTR_MPLS \<equiv> 62"
abbreviation (input) OVS_KEY_ATTR_MAX :: nat where "OVS_KEY_ATTR_MAX \<equiv> 62"

definition is_ip_any :: "flow \<Rightarrow> bool" where
  "is_ip_any flow \<longleftrightarrow> dl_type flow = htons ETH_TYPE_IP \<or> dl_type flow = htons ETH_TYPE_IPV6"

section \<open>Writing a flow\<close>

definition ovs_to_odp_frag :: "u8 \<Rightarrow> u8" where
  "ovs_to_odp_frag frag = (if frag = 0 then OVS_FRAG_TYPE_NONE
     else if frag = FLOW_NW_FRAG_ANY then OVS_FRAG_TYPE_FIRST else OVS_FRAG_TYPE_LATER)"

definition ovs_to_odp_frag_mask :: "u8 \<Rightarrow> u8" where
  "ovs_to_odp_frag_mask nw_frag_mask = NOT (OVS_FRAG_TYPE_FIRST OR OVS_FRAG_TYPE_LATER)
     OR (if nw_frag_mask AND FLOW_NW_FRAG_ANY \<noteq> 0 then OVS_FRAG_TYPE_FIRST else 0)
     OR (if nw_frag_mask AND FLOW_NW_FRAG_LATER \<noteq> 0 then OVS_FRAG_TYPE_LATER else 0)"

text \<open>A step that is taken under a condition.\<close>

definition when_put :: "bool \<Rightarrow> (ofpbuf \<Rightarrow> ofpbuf option) \<Rightarrow> ofpbuf \<Rightarrow> ofpbuf option" where
  "when_put c f b = (if c then f b else Some b)"

abbreviation put_key :: "junk \<Rightarrow> nat \<Rightarrow> bytes \<Rightarrow> ofpbuf \<Rightarrow> ofpbuf option" where
  "put_key junk type d b \<equiv> nl_msg_put_unspec junk b (of_nat type) d"

definition tun_key_to_attr :: "junk \<Rightarrow> ofpbuf \<Rightarrow> flow_tnl \<Rightarrow> ofpbuf option" where
  "tun_key_to_attr junk a tun_key = do {
     (tun_key_ofs, a) \<leftarrow> nl_msg_start_nested junk a (of_nat OVS_KEY_ATTR_TUNNEL);
     a \<leftarrow> when_put (tun_flags tun_key AND FLOW_TNL_F_KEY \<noteq> 0) (put_key junk 0 (le64_bytes (tun_id tun_key))) a;
     a \<leftarrow> when_put (tun_ip_src tun_key \<noteq> 0) (put_key junk 1 (be32_bytes (tun_ip_src tun_key))) a;
     a \<leftarrow> when_put (tun_ip_dst tun_key \<noteq> 0) (put_key junk 2 (be32_bytes (tun_ip_dst tun_key))) a;
     a \<leftarrow> when_put (tun_ip_tos tun_key \<noteq> 0) (put_key junk 3 [tun_ip_tos tun_key]) a;
     a \<leftarrow> put_key junk 4 [tun_ip_ttl tun_key] a;
     a \<leftarrow> when_put (tun_flags tun_key AND FLOW_TNL_F_DONT_FRAGMENT \<noteq> 0) (put_key junk 5 []) a;
     a \<leftarrow> when_put (tun_flags tun_key AND FLOW_TNL_F_CSUM \<noteq> 0) (put_key junk 6 []) a;
     nl_msg_end_nested a tun_key_ofs }"

definition ipv4_key :: "bool \<Rightarrow> flow \<Rightarrow> bytes" where
  "ipv4_key is_mask data = be32_bytes (nw_src data) @ be32_bytes (nw_dst data) @
     [nw_proto data, nw_tos data, nw_ttl data, if is_mask then ovs_to_odp_frag_mask (nw_frag data) else ovs_to_odp_frag (nw_frag data)]"

definition ipv6_key :: "bool \<Rightarrow> flow \<Rightarrow> bytes" where
  "ipv6_key is_mask data = take 16 (ipv6_src data) @ take 16 (ipv6_dst data) @ be32_bytes (ipv6_label data) @
     [nw_proto data, nw_tos data, nw_ttl data, if is_mask then ovs_to_odp_frag_mask (nw_frag data) else ovs_to_odp_frag (nw_frag data)]"

definition arp_key :: "flow \<Rightarrow> bytes" where
  "arp_key data = be32_bytes (nw_src data) @ be32_bytes (nw_dst data) @ be16_bytes (htons (ucast (nw_proto data))) @
     take 6 (arp_sha data) @ take 6 (arp_tha data) @ zeros 2"

definition nd_key :: "flow \<Rightarrow> bytes" where
  "nd_key data = take 16 (nd_target data) @ take 6 (arp_sha data) @ take 6 (arp_tha data)"

definition put_l3_key :: "junk \<Rightarrow> flow \<Rightarrow> flow \<Rightarrow> bool \<Rightarrow> ofpbuf \<Rightarrow> ofpbuf option" where
  "put_l3_key junk data flow is_mask buf =
     (if dl_type flow = htons ETH_TYPE_IP then put_key junk OVS_KEY_ATTR_IPV4 (ipv4_key is_mask data) buf
      else if dl_type flow = htons ETH_TYPE_IPV6 then put_key junk OVS_KEY_ATTR_IPV6 (ipv6_key is_mask data) buf
      else if dl_type flow = htons ETH_TYPE_ARP \<or> dl_type flow = htons ETH_TYPE_RARP then put_key junk OVS_KEY_ATTR_ARP (arp_key data) buf
      else Some buf)"

definition is_nd :: "flow \<Rightarrow> bool" where
  "is_nd flow \<longleftrightarrow> tp_dst flow = 0 \<and> (tp_src flow = htons ND_NEIGHBOR_SOLICIT \<or> tp_src flow = htons ND_NEIGHBOR_ADVERT)"

definition ports_key :: "flow \<Rightarrow> bytes" where
  "ports_key data = be16_bytes (tp_src data) @ be16_bytes (tp_dst data)"

definition icmp_key :: "flow \<Rightarrow> bytes" where
  "icmp_key data = [ucast (ntohs (tp_src data)), ucast (ntohs (tp_dst data))]"

definition put_l4_key :: "junk \<Rightarrow> flow \<Rightarrow> flow \<Rightarrow> bool \<Rightarrow> ofpbuf \<Rightarrow> ofpbuf option" where
  "put_l4_key junk data flow is_mask buf =
     (if is_ip_any flow \<and> nw_frag flow AND FLOW_NW_FRAG_LATER = 0 then
        if nw_proto flow = IPPROTO_TCP then put_key junk OVS_KEY_ATTR_TCP (ports_key data) buf
        else if nw_proto flow = IPPROTO_UDP then put_key junk OVS_KEY_ATTR_UDP (ports_key data) buf
        else if nw_proto flow = IPPROTO_SCTP then put_key junk OVS_KEY_ATTR_SCTP (ports_key data) buf
        else if dl_type flow = htons ETH_TYPE_IP \<and> nw_proto flow = IPPROTO_ICMP then put_key junk OVS_KEY_ATTR_ICMP (icmp_key data) buf
        else if dl_type flow = htons ETH_TYPE_IPV6 \<and> nw_proto flow = IPPROTO_ICMPV6 then do {
          buf \<leftarrow> put_key junk OVS_KEY_ATTR_ICMPV6 (icmp_key data) buf;
          when_put (is_nd flow \<and> (is_mask \<longrightarrow> tp_src data = htons 0xffff \<and> tp_dst data = htons 0xffff))
            (put_key junk OVS_KEY_ATTR_ND (nd_key data)) buf }
        else Some buf
      else Some buf)"

text \<open>From the Ethertype on, until the label \<open>unencap\<close>.\<close>

definition put_inner_key :: "junk \<Rightarrow> flow \<Rightarrow> flow \<Rightarrow> bool \<Rightarrow> ofpbuf \<Rightarrow> ofpbuf option" where
  "put_inner_key junk data flow is_mask buf =
     (if ntohs (dl_type flow) < ETH_TYPE_MIN then when_put is_mask (put_key junk OVS_KEY_ATTR_ETHERTYPE (be16_bytes (htons 0xffff))) buf
      else do {
        buf \<leftarrow> put_key junk OVS_KEY_ATTR_ETHERTYPE (be16_bytes (dl_type data)) buf;
        buf \<leftarrow> put_l3_key junk data flow is_mask buf;
        buf \<leftarrow> when_put (mpls_depth flow \<noteq> 0) (put_key junk OVS_KEY_ATTR_MPLS (be32_bytes (mpls_lse data))) buf;
        put_l4_key junk data flow is_mask buf })"

text \<open>\<open>encap\<close> is the offset of the nested attribute; it is not zero, because other attributes come first.\<close>

definition odp_flow_key_from_flow_raw :: "junk \<Rightarrow> ofpbuf \<Rightarrow> flow \<Rightarrow> flow \<Rightarrow> bool \<Rightarrow> u32 \<Rightarrow> ofpbuf option" where
  "odp_flow_key_from_flow_raw junk buf data flow is_mask odp_in_port = do {
     buf \<leftarrow> put_key junk OVS_KEY_ATTR_PRIORITY (be32_bytes (skb_priority data)) buf;
     buf \<leftarrow> when_put (tun_ip_dst (tunnel flow) \<noteq> 0 \<or> is_mask) (\<lambda>buf. tun_key_to_attr junk buf (tunnel data)) buf;
     buf \<leftarrow> put_key junk OVS_KEY_ATTR_SKB_MARK (be32_bytes (pkt_mark data)) buf;
     buf \<leftarrow> when_put (is_mask \<or> odp_in_port \<noteq> ODPP_NONE) (put_key junk OVS_KEY_ATTR_IN_PORT (be32_bytes odp_in_port)) buf;
     buf \<leftarrow> put_key junk OVS_KEY_ATTR_ETHERNET (take 6 (dl_src data) @ take 6 (dl_dst data)) buf;
     if vlan_tci flow \<noteq> 0 \<or> dl_type flow = htons ETH_TYPE_VLAN then do {
       buf \<leftarrow> put_key junk OVS_KEY_ATTR_ETHERTYPE (be16_bytes (if is_mask then htons 0xffff else htons ETH_TYPE_VLAN)) buf;
       buf \<leftarrow> put_key junk OVS_KEY_ATTR_VLAN (be16_bytes (vlan_tci data)) buf;
       (encap, buf) \<leftarrow> nl_msg_start_nested junk buf (of_nat OVS_KEY_ATTR_ENCAP);
       buf \<leftarrow> (if vlan_tci flow = 0 then Some buf else put_inner_key junk data flow is_mask buf);
       nl_msg_end_nested buf encap }
     else put_inner_key junk data flow is_mask buf }"

definition odp_flow_key_from_flow :: "junk \<Rightarrow> ofpbuf \<Rightarrow> flow \<Rightarrow> u32 \<Rightarrow> ofpbuf option" where
  "odp_flow_key_from_flow junk buf flow odp_in_port = odp_flow_key_from_flow_raw junk buf flow flow False odp_in_port"

definition odp_flow_key_from_mask :: "junk \<Rightarrow> ofpbuf \<Rightarrow> flow \<Rightarrow> flow \<Rightarrow> u32 \<Rightarrow> ofpbuf option" where
  "odp_flow_key_from_mask junk buf msk flow odp_in_port_mask = odp_flow_key_from_flow_raw junk buf msk flow True odp_in_port_mask"

section \<open>Reading a flow\<close>

datatype odp_key_fitness = ODP_FIT_PERFECT | ODP_FIT_TOO_MUCH | ODP_FIT_TOO_LITTLE | ODP_FIT_ERROR

text \<open>The values of the enumeration are ordered; the overall fitness is the greater one.\<close>

fun fit_rank :: "odp_key_fitness \<Rightarrow> nat" where
  "fit_rank ODP_FIT_PERFECT = 0"
| "fit_rank ODP_FIT_TOO_MUCH = 1"
| "fit_rank ODP_FIT_TOO_LITTLE = 2"
| "fit_rank ODP_FIT_ERROR = 3"

instantiation odp_key_fitness :: linorder
begin

definition less_eq_odp_key_fitness :: "odp_key_fitness \<Rightarrow> odp_key_fitness \<Rightarrow> bool" where
  "less_eq_odp_key_fitness a b \<longleftrightarrow> fit_rank a \<le> fit_rank b"

definition less_odp_key_fitness :: "odp_key_fitness \<Rightarrow> odp_key_fitness \<Rightarrow> bool" where
  "less_odp_key_fitness a b \<longleftrightarrow> fit_rank a < fit_rank b"

instance
proof
  fix a b :: odp_key_fitness
  show "a \<le> b \<Longrightarrow> b \<le> a \<Longrightarrow> a = b" by (cases a; cases b) (simp_all add: less_eq_odp_key_fitness_def)
qed (auto simp: less_eq_odp_key_fitness_def less_odp_key_fitness_def)

end

definition odp_flow_key_attr_len :: "nat \<Rightarrow> int" where
  "odp_flow_key_attr_len type =
     (if type > OVS_KEY_ATTR_MAX then -1
      else if type = OVS_KEY_ATTR_ENCAP \<or> type = OVS_KEY_ATTR_TUNNEL then -2
      else if type = OVS_KEY_ATTR_PRIORITY \<or> type = OVS_KEY_ATTR_SKB_MARK \<or> type = OVS_KEY_ATTR_IN_PORT \<or> type = OVS_KEY_ATTR_MPLS then 4
      else if type = OVS_KEY_ATTR_ETHERNET \<or> type = OVS_KEY_ATTR_IPV4 then 12
      else if type = OVS_KEY_ATTR_VLAN \<or> type = OVS_KEY_ATTR_ETHERTYPE \<or> type = OVS_KEY_ATTR_ICMP \<or> type = OVS_KEY_ATTR_ICMPV6 then 2
      else if type = OVS_KEY_ATTR_IPV6 then 40
      else if type = OVS_KEY_ATTR_TCP \<or> type = OVS_KEY_ATTR_UDP \<or> type = OVS_KEY_ATTR_SCTP then 4
      else if type = OVS_KEY_ATTR_ARP then 24
      else if type = OVS_KEY_ATTR_ND then 28
      else -1)"

definition tunnel_key_attr_len :: "nat \<Rightarrow> int" where
  "tunnel_key_attr_len type = (if type = 0 then 8 else if type = 1 \<or> type = 2 then 4 else if type = 3 \<or> type = 4 then 1
     else if type = 5 \<or> type = 6 then 0 else -1)"

text \<open>One attribute of a tunnel; the flags say whether a TTL and whether an unknown attribute has been seen.\<close>

definition tun_attr :: "bytes \<Rightarrow> nat \<Rightarrow> nat \<Rightarrow> flow_tnl \<times> bool \<times> bool \<Rightarrow> (flow_tnl \<times> bool \<times> bool) option" where
  "tun_attr m a type = (\<lambda>(tun, ttl, unknown).
     if type = 0 then do { v \<leftarrow> nl_attr_get_u64 m a; Some (tun\<lparr>tun_id := v, tun_flags := tun_flags tun OR FLOW_TNL_F_KEY\<rparr>, ttl, unknown) }
     else if type = 1 then do { v \<leftarrow> nl_attr_get_u32 m a; Some (tun\<lparr>tun_ip_src := v\<rparr>, ttl, unknown) }
     else if type = 2 then do { v \<leftarrow> nl_attr_get_u32 m a; Some (tun\<lparr>tun_ip_dst := v\<rparr>, ttl, unknown) }
     else if type = 3 then do { v \<leftarrow> nl_attr_get_u8 m a; Some (tun\<lparr>tun_ip_tos := v\<rparr>, ttl, unknown) }
     else if type = 4 then do { v \<leftarrow> nl_attr_get_u8 m a; Some (tun\<lparr>tun_ip_ttl := v\<rparr>, True, unknown) }
     else if type = 5 then Some (tun\<lparr>tun_flags := tun_flags tun OR FLOW_TNL_F_DONT_FRAGMENT\<rparr>, ttl, unknown)
     else if type = 6 then Some (tun\<lparr>tun_flags := tun_flags tun OR FLOW_TNL_F_CSUM\<rparr>, ttl, unknown)
     else Some (tun, ttl, True))"

text \<open>
  The loops over attributes follow one pattern: an attribute that is well-formed is handled by \<open>body\<close>, which may reject
  it; the loop ends when what is left is no attribute. The result says whether an attribute was rejected, and what is left.
\<close>

function attr_loop :: "bytes \<Rightarrow> (nat \<Rightarrow> nat \<Rightarrow> nat \<Rightarrow> 's \<Rightarrow> 's option option) \<Rightarrow> nat \<Rightarrow> nat \<Rightarrow> 's \<Rightarrow> (bool \<times> nat \<times> 's) option" where
  "attr_loop m body nla left s = (case nl_attr_is_valid m nla left of
     None \<Rightarrow> None
   | Some False \<Rightarrow> Some (True, left, s)
   | Some True \<Rightarrow> (case (nl_attr_type m nla, nl_attr_get_size m nla, ld16 m nla) of
       (Some t, Some n, Some len) \<Rightarrow> (case body nla (unat t) n s of
           None \<Rightarrow> None
         | Some None \<Rightarrow> Some (False, left, s)
         | Some (Some s) \<Rightarrow> attr_loop m body (nla + NLMSG_ALIGN (unat len)) (left - NLMSG_ALIGN (unat len)) s)
     | _ \<Rightarrow> None))"
  by pat_completeness auto
termination attr_loop
  by (relation "measure (\<lambda>(m, body, nla, left, s). left)") (auto dest!: nl_attr_is_valid_pos [OF _ sym])

declare attr_loop.simps [simp del]

definition odp_tun_key_from_attr :: "bytes \<Rightarrow> nat \<Rightarrow> flow_tnl \<Rightarrow> (odp_key_fitness \<times> flow_tnl) option" where
  "odp_tun_key_from_attr m attr tun = do {
     p \<leftarrow> nl_attr_get m attr;
     n \<leftarrow> nl_attr_get_size m attr;
     (ok, left, tun, ttl, unknown) \<leftarrow> attr_loop m
       (\<lambda>a type len s. if int len \<noteq> tunnel_key_attr_len type \<and> tunnel_key_attr_len type \<ge> 0 then Some None
          else map_option Some (tun_attr m a type s)) p n (tun, False, False);
     Some (if \<not> ok \<or> \<not> ttl then ODP_FIT_ERROR else if unknown then ODP_FIT_TOO_MUCH else ODP_FIT_PERFECT, tun) }"

text \<open>The attributes found, the bits of their types, and a type out of range.\<close>

record key_attrs =
  ka_attrs :: "nat \<Rightarrow> nat option"
  ka_present :: u64
  ka_out_of_range :: nat

abbreviation attr_bit :: "nat \<Rightarrow> u64" where
  "attr_bit type \<equiv> push_bit type 1"

definition flow_attr :: "nat \<Rightarrow> nat \<Rightarrow> nat \<Rightarrow> key_attrs \<Rightarrow> key_attrs option option" where
  "flow_attr nla type len k =
     (if int len \<noteq> odp_flow_key_attr_len type \<and> odp_flow_key_attr_len type \<ge> 0 then Some None
      else if type > OVS_KEY_ATTR_MAX then Some (Some (k\<lparr>ka_out_of_range := type\<rparr>))
      else if bit (ka_present k) type then Some None
      else Some (Some (k\<lparr>ka_present := ka_present k OR attr_bit type, ka_attrs := (ka_attrs k)(type := Some nla)\<rparr>)))"

text \<open>\<open>None\<close> inside says that the attributes are rejected.\<close>

definition parse_flow_nlattrs :: "bytes \<Rightarrow> nat \<Rightarrow> nat \<Rightarrow> (nat \<Rightarrow> nat option) \<Rightarrow> key_attrs option option" where
  "parse_flow_nlattrs m key key_len attrs = do {
     (ok, left, k) \<leftarrow> attr_loop m flow_attr key key_len \<lparr>ka_attrs = attrs, ka_present = 0, ka_out_of_range = 0\<rparr>;
     Some (if ok \<and> left = 0 then Some k else None) }"

definition check_expectations :: "key_attrs \<Rightarrow> u64 \<Rightarrow> odp_key_fitness" where
  "check_expectations k expected_attrs =
     (if expected_attrs AND NOT (ka_present k) \<noteq> 0 then ODP_FIT_TOO_LITTLE
      else if ka_present k AND NOT expected_attrs \<noteq> 0 \<or> ka_out_of_range k \<noteq> 0 then ODP_FIT_TOO_MUCH
      else ODP_FIT_PERFECT)"

text \<open>
  When a flow and not a mask is read, \<open>src_flow\<close> is the flow itself, as far as it has been read (\<open>None\<close>).
\<close>

definition src_of :: "flow option \<Rightarrow> flow \<Rightarrow> flow" where
  "src_of src_flow flow = (case src_flow of None \<Rightarrow> flow | Some f \<Rightarrow> f)"

abbreviation is_mask :: "flow option \<Rightarrow> bool" where
  "is_mask src_flow \<equiv> src_flow \<noteq> None"

abbreviation present :: "key_attrs \<Rightarrow> nat \<Rightarrow> bool" where
  "present k type \<equiv> bit (ka_present k) type"

definition parse_ethertype :: "bytes \<Rightarrow> key_attrs \<Rightarrow> u64 \<Rightarrow> flow \<Rightarrow> flow option \<Rightarrow> (bool \<times> u64 \<times> flow) option" where
  "parse_ethertype m k expected_attrs flow src_flow =
     (if present k OVS_KEY_ATTR_ETHERTYPE then do {
        a \<leftarrow> ka_attrs k OVS_KEY_ATTR_ETHERTYPE;
        t \<leftarrow> nl_attr_get_u16 m a;
        let flow = flow\<lparr>dl_type := t\<rparr>;
        if \<not> is_mask src_flow \<and> ntohs (dl_type flow) < ETH_TYPE_MIN then Some (False, expected_attrs, flow)
        else if is_mask src_flow \<and> ntohs (dl_type (src_of src_flow flow)) < ETH_TYPE_MIN \<and> dl_type flow \<noteq> htons 0xffff
        then Some (False, expected_attrs, flow)
        else Some (True, expected_attrs OR attr_bit OVS_KEY_ATTR_ETHERTYPE, flow) }
      else if \<not> is_mask src_flow then Some (True, expected_attrs, flow\<lparr>dl_type := htons FLOW_DL_TYPE_NONE\<rparr>)
      else Some (\<not> ntohs (dl_type (src_of src_flow flow)) < ETH_TYPE_MIN, expected_attrs, flow))"

definition odp_to_ovs_frag :: "u8 \<Rightarrow> flow \<Rightarrow> bool \<times> flow" where
  "odp_to_ovs_frag odp_frag flow =
     (if odp_frag > OVS_FRAG_TYPE_LATER then (False, flow)
      else if odp_frag \<noteq> OVS_FRAG_TYPE_NONE then
        let flow = flow\<lparr>nw_frag := nw_frag flow OR FLOW_NW_FRAG_ANY\<rparr>
        in (True, if odp_frag = OVS_FRAG_TYPE_LATER then flow\<lparr>nw_frag := nw_frag flow OR FLOW_NW_FRAG_LATER\<rparr> else flow)
      else (True, flow))"

text \<open>The payload of a present attribute, of the size its structure has.\<close>

definition key_struct :: "bytes \<Rightarrow> key_attrs \<Rightarrow> nat \<Rightarrow> nat \<Rightarrow> bytes option" where
  "key_struct m k type n = do { a \<leftarrow> ka_attrs k type; p \<leftarrow> nl_attr_get m a; ldn m p n }"

abbreviation sub :: "nat \<Rightarrow> nat \<Rightarrow> bytes \<Rightarrow> bytes" where
  "sub i n d \<equiv> take n (drop i d)"

text \<open>
  The network layer: the function returns, goes to its label \<open>done\<close>, or goes on with the structure to check and its bit
  when a mask is read.
\<close>

datatype l3_step = L3_RETURN odp_key_fitness flow | L3_DONE u64 flow | L3_NEXT u64 flow bytes nat

definition no_bit :: nat where "no_bit = 0xff"

definition parse_mpls :: "bytes \<Rightarrow> key_attrs \<Rightarrow> u64 \<Rightarrow> flow \<Rightarrow> flow option \<Rightarrow> l3_step option" where
  "parse_mpls m k expected_attrs flow src_flow =
     (if \<not> is_mask src_flow then
        let expected_attrs = expected_attrs OR attr_bit OVS_KEY_ATTR_MPLS in
        if \<not> present k OVS_KEY_ATTR_MPLS then Some (L3_RETURN ODP_FIT_TOO_LITTLE flow)
        else do {
          a \<leftarrow> ka_attrs k OVS_KEY_ATTR_MPLS;
          lse \<leftarrow> nl_attr_get_u32 m a;
          Some (L3_DONE expected_attrs (flow\<lparr>mpls_lse := lse, mpls_depth := mpls_depth flow + 1\<rparr>)) }
      else if present k OVS_KEY_ATTR_MPLS then do {
        a \<leftarrow> ka_attrs k OVS_KEY_ATTR_MPLS;
        lse \<leftarrow> nl_attr_get_u32 m a;
        let flow = flow\<lparr>mpls_lse := lse\<rparr>;
        if lse \<noteq> 0 \<and> dl_type flow \<noteq> htons 0xffff then Some (L3_RETURN ODP_FIT_ERROR flow)
        else Some (L3_DONE (expected_attrs OR attr_bit OVS_KEY_ATTR_MPLS) (if lse \<noteq> 0 then flow\<lparr>mpls_depth := 0xffff\<rparr> else flow)) }
      else Some (L3_DONE expected_attrs flow))"

definition ip_frag_step :: "u64 \<Rightarrow> flow \<Rightarrow> flow option \<Rightarrow> u8 \<Rightarrow> bytes \<Rightarrow> nat \<Rightarrow> l3_step" where
  "ip_frag_step expected_attrs flow src_flow frag d type =
     (if is_mask src_flow then L3_NEXT expected_attrs (flow\<lparr>nw_frag := frag\<rparr>) d type
      else case odp_to_ovs_frag frag flow of (ok, flow) \<Rightarrow> if ok then L3_NEXT expected_attrs flow [] no_bit else L3_RETURN ODP_FIT_ERROR flow)"

definition parse_ipv4 :: "bytes \<Rightarrow> key_attrs \<Rightarrow> u64 \<Rightarrow> flow \<Rightarrow> flow option \<Rightarrow> l3_step option" where
  "parse_ipv4 m k expected_attrs flow src_flow =
     (let expected_attrs = (if is_mask src_flow then expected_attrs else expected_attrs OR attr_bit OVS_KEY_ATTR_IPV4) in
      if present k OVS_KEY_ATTR_IPV4 then do {
        d \<leftarrow> key_struct m k OVS_KEY_ATTR_IPV4 12;
        src \<leftarrow> ld32 d 0;
        dst \<leftarrow> ld32 d 4;
        let flow = flow\<lparr>nw_src := src, nw_dst := dst, nw_proto := d ! 8, nw_tos := d ! 9, nw_ttl := d ! 10\<rparr>;
        Some (ip_frag_step expected_attrs flow src_flow (d ! 11) d OVS_KEY_ATTR_IPV4) }
      else Some (L3_NEXT expected_attrs flow [] no_bit))"

definition parse_ipv6 :: "bytes \<Rightarrow> key_attrs \<Rightarrow> u64 \<Rightarrow> flow \<Rightarrow> flow option \<Rightarrow> l3_step option" where
  "parse_ipv6 m k expected_attrs flow src_flow =
     (let expected_attrs = (if is_mask src_flow then expected_attrs else expected_attrs OR attr_bit OVS_KEY_ATTR_IPV6) in
      if present k OVS_KEY_ATTR_IPV6 then do {
        d \<leftarrow> key_struct m k OVS_KEY_ATTR_IPV6 40;
        label \<leftarrow> ld32 d 32;
        let flow = flow\<lparr>ipv6_src := sub 0 16 d, ipv6_dst := sub 16 16 d, ipv6_label := label, nw_proto := d ! 36, nw_tos := d ! 37,
          nw_ttl := d ! 38\<rparr>;
        Some (ip_frag_step expected_attrs flow src_flow (d ! 39) d OVS_KEY_ATTR_IPV6) }
      else Some (L3_NEXT expected_attrs flow [] no_bit))"

definition parse_arp :: "bytes \<Rightarrow> key_attrs \<Rightarrow> u64 \<Rightarrow> flow \<Rightarrow> flow option \<Rightarrow> l3_step option" where
  "parse_arp m k expected_attrs flow src_flow =
     (let expected_attrs = (if is_mask src_flow then expected_attrs else expected_attrs OR attr_bit OVS_KEY_ATTR_ARP) in
      if present k OVS_KEY_ATTR_ARP then do {
        d \<leftarrow> key_struct m k OVS_KEY_ATTR_ARP 24;
        sip \<leftarrow> ld32 d 0;
        tip \<leftarrow> ld32 d 4;
        arp_op \<leftarrow> ld16 d 8;
        let flow = flow\<lparr>nw_src := sip, nw_dst := tip\<rparr>;
        if \<not> is_mask src_flow \<and> arp_op AND htons 0xff00 \<noteq> 0 then Some (L3_RETURN ODP_FIT_ERROR flow)
        else do {
          let flow = flow\<lparr>nw_proto := ucast (ntohs arp_op), arp_sha := sub 10 6 d, arp_tha := sub 16 6 d\<rparr>;
          Some (if is_mask src_flow then L3_NEXT expected_attrs flow d OVS_KEY_ATTR_ARP else L3_NEXT expected_attrs flow [] no_bit) } }
      else Some (L3_NEXT expected_attrs flow [] no_bit))"

definition parse_l3 :: "bytes \<Rightarrow> key_attrs \<Rightarrow> u64 \<Rightarrow> flow \<Rightarrow> flow option \<Rightarrow> l3_step option" where
  "parse_l3 m k expected_attrs flow src_flow =
     (let t = dl_type (src_of src_flow flow) in
      if eth_type_mpls t then parse_mpls m k expected_attrs flow src_flow
      else if t = htons ETH_TYPE_IP then parse_ipv4 m k expected_attrs flow src_flow
      else if t = htons ETH_TYPE_IPV6 then parse_ipv6 m k expected_attrs flow src_flow
      else if t = htons ETH_TYPE_ARP \<or> t = htons ETH_TYPE_RARP then parse_arp m k expected_attrs flow src_flow
      else Some (L3_DONE expected_attrs flow))"

text \<open>
  The transport layer. Each protocol sets the bit it expects and, if its attribute is present, reads the ports; the last
  component is the bit to check when a mask is read (\<open>0\<close>, \<open>OVS_KEY_ATTR_UNSPEC\<close>, for none).
\<close>

definition expect :: "flow option \<Rightarrow> nat \<Rightarrow> u64 \<Rightarrow> u64" where
  "expect src_flow type expected_attrs = (if is_mask src_flow then expected_attrs else expected_attrs OR attr_bit type)"

definition parse_ports :: "bytes \<Rightarrow> key_attrs \<Rightarrow> u64 \<Rightarrow> flow \<Rightarrow> flow option \<Rightarrow> nat \<Rightarrow> (u64 \<times> flow \<times> nat) option" where
  "parse_ports m k expected_attrs flow src_flow type =
     (if present k type then do {
        d \<leftarrow> key_struct m k type 4;
        src \<leftarrow> ld16 d 0;
        dst \<leftarrow> ld16 d 2;
        Some (expect src_flow type expected_attrs, flow\<lparr>tp_src := src, tp_dst := dst\<rparr>, type) }
      else Some (expect src_flow type expected_attrs, flow, 0))"

definition parse_icmp :: "bytes \<Rightarrow> key_attrs \<Rightarrow> u64 \<Rightarrow> flow \<Rightarrow> flow option \<Rightarrow> nat \<Rightarrow> (u64 \<times> flow \<times> nat) option" where
  "parse_icmp m k expected_attrs flow src_flow type =
     (if present k type then do {
        d \<leftarrow> key_struct m k type 2;
        Some (expect src_flow type expected_attrs, flow\<lparr>tp_src := htons (ucast (d ! 0)), tp_dst := htons (ucast (d ! 1))\<rparr>, type) }
      else Some (expect src_flow type expected_attrs, flow, 0))"

text \<open>Neighbour discovery; \<open>None\<close> inside is \<open>ODP_FIT_ERROR\<close>.\<close>

definition parse_nd :: "bytes \<Rightarrow> key_attrs \<Rightarrow> u64 \<Rightarrow> flow \<Rightarrow> flow option \<Rightarrow> (u64 \<times> flow) option option" where
  "parse_nd m k expected_attrs flow src_flow =
     (if is_nd (src_of src_flow flow) then
        let expected_attrs = expect src_flow OVS_KEY_ATTR_ND expected_attrs in
        if present k OVS_KEY_ATTR_ND then do {
          d \<leftarrow> key_struct m k OVS_KEY_ATTR_ND 28;
          let flow = flow\<lparr>nd_target := sub 0 16 d, arp_sha := sub 16 6 d, arp_tha := sub 22 6 d\<rparr>;
          if is_mask src_flow then
            if \<not> list_all (\<lambda>b. b = 0) d \<and> (tp_src flow \<noteq> htons 0xffff \<or> tp_dst flow \<noteq> htons 0xffff) then Some None
            else Some (Some (expected_attrs OR attr_bit OVS_KEY_ATTR_ND, flow))
          else Some (Some (expected_attrs, flow)) }
        else Some (Some (expected_attrs, flow))
      else Some (Some (expected_attrs, flow)))"

definition parse_l4 :: "bytes \<Rightarrow> key_attrs \<Rightarrow> u64 \<Rightarrow> flow \<Rightarrow> flow option \<Rightarrow> (u64 \<times> flow \<times> nat) option option" where
  "parse_l4 m k expected_attrs flow src_flow =
     (let src = src_of src_flow flow; l4 = (\<lambda>f. is_ip_any f \<and> nw_frag f AND FLOW_NW_FRAG_LATER = 0) in
      if nw_proto src = IPPROTO_TCP \<and> l4 src then map_option Some (parse_ports m k expected_attrs flow src_flow OVS_KEY_ATTR_TCP)
      else if nw_proto src = IPPROTO_UDP \<and> l4 src then map_option Some (parse_ports m k expected_attrs flow src_flow OVS_KEY_ATTR_UDP)
      else if nw_proto flow = IPPROTO_SCTP \<and> l4 flow then map_option Some (parse_ports m k expected_attrs flow src_flow OVS_KEY_ATTR_SCTP)
      else if nw_proto src = IPPROTO_ICMP \<and> dl_type src = htons ETH_TYPE_IP \<and> nw_frag src AND FLOW_NW_FRAG_LATER = 0
      then map_option Some (parse_icmp m k expected_attrs flow src_flow OVS_KEY_ATTR_ICMP)
      else if nw_proto src = IPPROTO_ICMPV6 \<and> dl_type src = htons ETH_TYPE_IPV6 \<and> nw_frag src AND FLOW_NW_FRAG_LATER = 0
      then do {
        (expected_attrs, flow, bit) \<leftarrow> parse_icmp m k expected_attrs flow src_flow OVS_KEY_ATTR_ICMPV6;
        if bit = 0 then Some (Some (expected_attrs, flow, bit))
        else do {
          r \<leftarrow> parse_nd m k expected_attrs flow src_flow;
          Some (map_option (\<lambda>(expected_attrs, flow). (expected_attrs, flow, bit)) r) } }
      else Some (Some (expected_attrs, flow, 0)))"

text \<open>A shift by \<open>no_bit\<close> is undefined.\<close>

definition parse_l2_5_onward :: "bytes \<Rightarrow> key_attrs \<Rightarrow> u64 \<Rightarrow> flow \<Rightarrow> flow option \<Rightarrow> (odp_key_fitness \<times> flow) option" where
  "parse_l2_5_onward m k expected_attrs flow src_flow = do {
     r \<leftarrow> parse_l3 m k expected_attrs flow src_flow;
     case r of
       L3_RETURN fit flow \<Rightarrow> Some (fit, flow)
     | L3_DONE expected_attrs flow \<Rightarrow> Some (check_expectations k expected_attrs, flow)
     | L3_NEXT expected_attrs flow d type \<Rightarrow>
         if is_mask src_flow \<and> \<not> list_all (\<lambda>b. b = 0) d \<and> dl_type flow \<noteq> htons 0xffff then Some (ODP_FIT_ERROR, flow)
         else if is_mask src_flow \<and> type = no_bit then None
         else do {
           let expected_attrs = (if is_mask src_flow then expected_attrs OR attr_bit type else expected_attrs);
           r \<leftarrow> parse_l4 m k expected_attrs flow src_flow;
           case r of
             None \<Rightarrow> Some (ODP_FIT_ERROR, flow)
           | Some (expected_attrs, flow, type) \<Rightarrow>
               if is_mask src_flow \<and> type \<noteq> 0 then
                 if (tp_src flow \<noteq> 0 \<or> tp_dst flow \<noteq> 0) \<and> nw_proto flow \<noteq> 0xff then Some (ODP_FIT_ERROR, flow)
                 else Some (check_expectations k (expected_attrs OR attr_bit type), flow)
               else Some (check_expectations k expected_attrs, flow) } }"

definition parse_8021q_onward :: "bytes \<Rightarrow> key_attrs \<Rightarrow> u64 \<Rightarrow> flow \<Rightarrow> flow option \<Rightarrow> (odp_key_fitness \<times> flow) option" where
  "parse_8021q_onward m k expected_attrs flow src_flow =
     (let encap = (if present k OVS_KEY_ATTR_ENCAP then ka_attrs k OVS_KEY_ATTR_ENCAP else None);
          expected_attrs = expected_attrs OR (if \<not> is_mask src_flow \<or> present k OVS_KEY_ATTR_VLAN then attr_bit OVS_KEY_ATTR_VLAN else 0)
            OR (if \<not> is_mask src_flow \<or> present k OVS_KEY_ATTR_ENCAP then attr_bit OVS_KEY_ATTR_ENCAP else 0);
          fitness = check_expectations k expected_attrs
      in if \<not> is_mask src_flow \<and> \<not> present k OVS_KEY_ATTR_VLAN then Some (ODP_FIT_TOO_LITTLE, flow)
         else do {
           a \<leftarrow> (if present k OVS_KEY_ATTR_VLAN then ka_attrs k OVS_KEY_ATTR_VLAN else None);
           tci \<leftarrow> nl_attr_get_u16 m a;
           if \<not> is_mask src_flow \<and> tci = 0 then
             (if fitness = ODP_FIT_PERFECT then do {
                e \<leftarrow> encap;
                n \<leftarrow> nl_attr_get_size m e;
                Some (if n \<noteq> 0 then ODP_FIT_TOO_MUCH else fitness, flow) }
              else Some (fitness, flow))
           else if \<not> is_mask src_flow \<and> tci AND htons VLAN_CFI = 0 then Some (ODP_FIT_ERROR, flow)
           else do {
             let flow = flow\<lparr>dl_type := 0, vlan_tci := tci\<rparr>;
             if is_mask src_flow \<and> \<not> present k OVS_KEY_ATTR_ENCAP then Some (fitness, flow)
             else do {
               e \<leftarrow> encap;
               p \<leftarrow> nl_attr_get m e;
               n \<leftarrow> nl_attr_get_size m e;
               r \<leftarrow> parse_flow_nlattrs m p n (ka_attrs k);
               case r of
                 None \<Rightarrow> Some (ODP_FIT_ERROR, flow)
               | Some k \<Rightarrow> do {
                   (ok, expected_attrs, flow) \<leftarrow> parse_ethertype m k 0 flow src_flow;
                   if \<not> ok then Some (ODP_FIT_ERROR, flow)
                   else do {
                     (encap_fitness, flow) \<leftarrow> parse_l2_5_onward m k expected_attrs flow src_flow;
                     Some (max fitness encap_fitness, flow) } } } } })"

definition parse_tunnel :: "bytes \<Rightarrow> key_attrs \<Rightarrow> u64 \<Rightarrow> flow \<Rightarrow> (odp_key_fitness \<times> u64 \<times> flow) option" where
  "parse_tunnel m k expected_attrs flow =
     (if present k OVS_KEY_ATTR_TUNNEL then do {
        a \<leftarrow> ka_attrs k OVS_KEY_ATTR_TUNNEL;
        (res, tun) \<leftarrow> odp_tun_key_from_attr m a (tunnel flow);
        Some (res, if res = ODP_FIT_PERFECT then expected_attrs OR attr_bit OVS_KEY_ATTR_TUNNEL else expected_attrs, flow\<lparr>tunnel := tun\<rparr>) }
      else Some (ODP_FIT_PERFECT, expected_attrs, flow))"

definition parse_in_port :: "bytes \<Rightarrow> key_attrs \<Rightarrow> u64 \<Rightarrow> flow \<Rightarrow> flow option \<Rightarrow> (u64 \<times> flow) option" where
  "parse_in_port m k expected_attrs flow src_flow =
     (if present k OVS_KEY_ATTR_IN_PORT then do {
        a \<leftarrow> ka_attrs k OVS_KEY_ATTR_IN_PORT;
        v \<leftarrow> nl_attr_get_u32 m a;
        Some (expected_attrs OR attr_bit OVS_KEY_ATTR_IN_PORT, flow\<lparr>fl_in_port := v\<rparr>) }
      else Some (expected_attrs, if is_mask src_flow then flow else flow\<lparr>fl_in_port := ODPP_NONE\<rparr>))"

text \<open>The metadata and the Ethernet header; \<open>None\<close> inside is \<open>ODP_FIT_ERROR\<close> from the tunnel.\<close>

definition parse_meta :: "bytes \<Rightarrow> key_attrs \<Rightarrow> flow \<Rightarrow> flow option \<Rightarrow> ((u64 \<times> flow) option \<times> flow) option" where
  "parse_meta m k flow src_flow = do {
     (expected_attrs, flow) \<leftarrow> (if present k OVS_KEY_ATTR_PRIORITY then do {
         a \<leftarrow> ka_attrs k OVS_KEY_ATTR_PRIORITY; v \<leftarrow> nl_attr_get_u32 m a;
         Some (attr_bit OVS_KEY_ATTR_PRIORITY, flow\<lparr>skb_priority := v\<rparr>) } else Some (0, flow));
     (expected_attrs, flow) \<leftarrow> (if present k OVS_KEY_ATTR_SKB_MARK then do {
         a \<leftarrow> ka_attrs k OVS_KEY_ATTR_SKB_MARK; v \<leftarrow> nl_attr_get_u32 m a;
         Some (expected_attrs OR attr_bit OVS_KEY_ATTR_SKB_MARK, flow\<lparr>pkt_mark := v\<rparr>) } else Some (expected_attrs, flow));
     (res, expected_attrs, flow) \<leftarrow> parse_tunnel m k expected_attrs flow;
     if res = ODP_FIT_ERROR then Some (None, flow)
     else do {
       (expected_attrs, flow) \<leftarrow> parse_in_port m k expected_attrs flow src_flow;
       flow \<leftarrow> (if present k OVS_KEY_ATTR_ETHERNET then do {
           d \<leftarrow> key_struct m k OVS_KEY_ATTR_ETHERNET 12; Some (flow\<lparr>dl_src := sub 0 6 d, dl_dst := sub 6 6 d\<rparr>) } else Some flow);
       Some (Some (if \<not> is_mask src_flow \<or> present k OVS_KEY_ATTR_ETHERNET then expected_attrs OR attr_bit OVS_KEY_ATTR_ETHERNET
         else expected_attrs, flow), flow) } }"

definition odp_flow_key_to_flow_raw :: "bytes \<Rightarrow> nat \<Rightarrow> nat \<Rightarrow> flow option \<Rightarrow> (odp_key_fitness \<times> flow) option" where
  "odp_flow_key_to_flow_raw m key key_len src_flow = do {
     r \<leftarrow> parse_flow_nlattrs m key key_len (\<lambda>_. None);
     case r of
       None \<Rightarrow> Some (ODP_FIT_ERROR, zero_flow)
     | Some k \<Rightarrow> do {
         (r, flow) \<leftarrow> parse_meta m k zero_flow src_flow;
         case r of
           None \<Rightarrow> Some (ODP_FIT_ERROR, flow)
         | Some (expected_attrs, flow) \<Rightarrow> do {
             (ok, expected_attrs, flow) \<leftarrow> parse_ethertype m k expected_attrs flow src_flow;
             let src = src_of src_flow flow;
             if \<not> ok then Some (ODP_FIT_ERROR, flow)
             else if (if is_mask src_flow then vlan_tci src AND htons VLAN_CFI \<noteq> 0 else dl_type src = htons ETH_TYPE_VLAN)
             then parse_8021q_onward m k expected_attrs flow src_flow
             else do {
               (expected_attrs, flow) \<leftarrow> (if \<not> is_mask src_flow then Some (expected_attrs, flow)
                 else if present k OVS_KEY_ATTR_VLAN then do {
                   a \<leftarrow> ka_attrs k OVS_KEY_ATTR_VLAN; v \<leftarrow> nl_attr_get_u16 m a;
                   Some (expected_attrs OR attr_bit OVS_KEY_ATTR_VLAN, flow\<lparr>vlan_tci := v\<rparr>) }
                 else Some (expected_attrs, flow\<lparr>vlan_tci := htons 0xffff\<rparr>));
               parse_l2_5_onward m k expected_attrs flow src_flow } } } }"

definition odp_flow_key_to_flow :: "bytes \<Rightarrow> nat \<Rightarrow> nat \<Rightarrow> (odp_key_fitness \<times> flow) option" where
  "odp_flow_key_to_flow m key key_len = odp_flow_key_to_flow_raw m key key_len None"

definition odp_flow_key_to_mask :: "bytes \<Rightarrow> nat \<Rightarrow> nat \<Rightarrow> flow \<Rightarrow> (odp_key_fitness \<times> flow) option" where
  "odp_flow_key_to_mask m key key_len flow = odp_flow_key_to_flow_raw m key key_len (Some flow)"

section \<open>What is written\<close>

text \<open>The attributes of a flow, as a list of types and payloads.\<close>

definition opt :: "bool \<Rightarrow> 'a \<Rightarrow> 'a list" where
  "opt c x = (if c then [x] else [])"

definition tun_attrs :: "flow_tnl \<Rightarrow> (u16 \<times> bytes) list" where
  "tun_attrs t = opt (tun_flags t AND FLOW_TNL_F_KEY \<noteq> 0) (0, le64_bytes (tun_id t)) @ opt (tun_ip_src t \<noteq> 0) (1, be32_bytes (tun_ip_src t)) @
     opt (tun_ip_dst t \<noteq> 0) (2, be32_bytes (tun_ip_dst t)) @ opt (tun_ip_tos t \<noteq> 0) (3, [tun_ip_tos t]) @ [(4, [tun_ip_ttl t])] @
     opt (tun_flags t AND FLOW_TNL_F_DONT_FRAGMENT \<noteq> 0) (5, []) @ opt (tun_flags t AND FLOW_TNL_F_CSUM \<noteq> 0) (6, [])"

definition l4_attrs :: "flow \<Rightarrow> (u16 \<times> bytes) list" where
  "l4_attrs f =
     (if is_ip_any f \<and> nw_frag f AND FLOW_NW_FRAG_LATER = 0 then
        if nw_proto f = IPPROTO_TCP then [(9, ports_key f)]
        else if nw_proto f = IPPROTO_UDP then [(10, ports_key f)]
        else if nw_proto f = IPPROTO_SCTP then [(17, ports_key f)]
        else if dl_type f = htons ETH_TYPE_IP \<and> nw_proto f = IPPROTO_ICMP then [(11, icmp_key f)]
        else if dl_type f = htons ETH_TYPE_IPV6 \<and> nw_proto f = IPPROTO_ICMPV6 then (12, icmp_key f) # opt (is_nd f) (14, nd_key f)
        else []
      else [])"

definition l3_attrs :: "flow \<Rightarrow> (u16 \<times> bytes) list" where
  "l3_attrs f =
     (if dl_type f = htons ETH_TYPE_IP then [(7, ipv4_key False f)]
      else if dl_type f = htons ETH_TYPE_IPV6 then [(8, ipv6_key False f)]
      else if dl_type f = htons ETH_TYPE_ARP \<or> dl_type f = htons ETH_TYPE_RARP then [(13, arp_key f)]
      else [])"

definition inner_attrs :: "flow \<Rightarrow> (u16 \<times> bytes) list" where
  "inner_attrs f =
     (if ntohs (dl_type f) < ETH_TYPE_MIN then []
      else (6, be16_bytes (dl_type f)) # l3_attrs f @ opt (mpls_depth f \<noteq> 0) (62, be32_bytes (mpls_lse f)) @ l4_attrs f)"

definition vlan_attrs :: "flow \<Rightarrow> (u16 \<times> bytes) list" where
  "vlan_attrs f = [(6, be16_bytes (htons ETH_TYPE_VLAN)), (5, be16_bytes (vlan_tci f)),
     (1, attrs_bytes (if vlan_tci f = 0 then [] else inner_attrs f))]"

definition flow_attrs :: "flow \<Rightarrow> u32 \<Rightarrow> (u16 \<times> bytes) list" where
  "flow_attrs f port = (2, be32_bytes (skb_priority f)) # opt (tun_ip_dst (tunnel f) \<noteq> 0) (16, attrs_bytes (tun_attrs (tunnel f))) @
     [(15, be32_bytes (pkt_mark f))] @ opt (port \<noteq> ODPP_NONE) (3, be32_bytes port) @ [(4, take 6 (dl_src f) @ take 6 (dl_dst f))] @
     (if vlan_tci f \<noteq> 0 \<or> dl_type f = htons ETH_TYPE_VLAN then vlan_attrs f else inner_attrs f)"

text \<open>A step that appends attributes.\<close>

definition puts :: "(ofpbuf \<Rightarrow> ofpbuf option) \<Rightarrow> bytes \<Rightarrow> bool" where
  "puts f x \<longleftrightarrow> (\<forall>b. growable b \<longrightarrow> (\<exists>b'. f b = Some b' \<and> growable b' \<and> contents b' = contents b @ x))"

lemma puts_bind: "puts f x \<Longrightarrow> puts g y \<Longrightarrow> puts (\<lambda>b. Option.bind (f b) g) (x @ y)"
  by (fastforce simp: puts_def)

lemma puts_key: "fits_attr d \<Longrightarrow> puts (put_key junk t d) (attr_bytes (of_nat t) d)"
  using nl_msg_put_unspec_ok by (simp add: puts_def)

lemma puts_none: "puts Some []"
  by (simp add: puts_def)

lemma when_put_simps [simp]: "when_put True f = f" "when_put False f = Some"
  by (simp_all add: when_put_def fun_eq_iff)

lemma puts_nested:
  assumes "puts f x" "4 dvd length x"
  shows "puts (\<lambda>b. Option.bind (nl_msg_start_nested junk b type) (\<lambda>(off, msg). Option.bind (f msg) (\<lambda>msg. nl_msg_end_nested msg off)))
    (attr_bytes type x)"
proof -
  have "NLMSG_ALIGN (length x) = length x" using assms(2) by (auto simp: NLMSG_ALIGN_def elim!: dvdE)
  then have "attr_bytes type x = be16_bytes (of_nat (NLA_HDRLEN + length x)) @ be16_bytes type @ x"
    by (simp add: attr_bytes_def zeros_def)
  then show ?thesis unfolding puts_def using nl_msg_nested_ok [of _ f x junk type] assms(1) by (auto simp: puts_def)
qed

lemma dvd_attrs_bytes: "4 dvd length (attrs_bytes as)"
  by (induction as) (auto simp: NLMSG_ALIGN_def nl_consts)

lemma length_key_bytes [simp]:
  "length (be32_bytes v) = 4" "length (le64_bytes w) = 8" "length (ports_key f) = 4" "length (icmp_key f) = 2" "length (ipv4_key c f) = 12"
  by (simp_all add: be32_bytes_def le64_bytes_def ports_key_def icmp_key_def ipv4_key_def)

text \<open>Payloads of at most 40 bytes, in the attributes of a key.\<close>

lemma fits_short: "length d \<le> 40 \<Longrightarrow> fits_attr d"
  by (simp add: NLMSG_ALIGN_def nl_consts)

abbreviation puts_attrs :: "(ofpbuf \<Rightarrow> ofpbuf option) \<Rightarrow> (u16 \<times> bytes) list \<Rightarrow> bool" where
  "puts_attrs f as \<equiv> puts f (attrs_bytes as)"

lemma puts_attr: "length d \<le> 40 \<Longrightarrow> t' = of_nat t \<Longrightarrow> puts_attrs (put_key junk t d) [(t', d)]"
  using puts_key [OF fits_short] by simp

lemma puts_attr16: "length d \<le> 40 \<Longrightarrow> puts (\<lambda>b. nl_msg_put_unspec junk b t d) (attr_bytes t d)"
  using nl_msg_put_unspec_ok [OF _ fits_short] by (simp add: puts_def)

lemma puts_opt: "length d \<le> 40 \<Longrightarrow> t' = of_nat t \<Longrightarrow> puts_attrs (when_put c (put_key junk t d)) (opt c (t', d))"
  using puts_attr puts_none by (cases c) (simp_all add: opt_def)

lemma puts_seq: "puts_attrs f as \<Longrightarrow> puts_attrs g bs \<Longrightarrow> puts_attrs (\<lambda>b. Option.bind (f b) g) (as @ bs)"
  using puts_bind by fastforce

lemma puts_then: "length d \<le> 40 \<Longrightarrow> t' = of_nat t \<Longrightarrow> puts_attrs g bs \<Longrightarrow> puts_attrs (\<lambda>b. Option.bind (put_key junk t d b) g) ((t', d) # bs)"
  using puts_seq [OF puts_attr, of d t' t g bs junk] by simp

lemma puts_nested_attrs: "puts_attrs f as \<Longrightarrow> t' = of_nat t \<Longrightarrow>
  puts_attrs (\<lambda>b. Option.bind (nl_msg_start_nested junk b (of_nat t)) (\<lambda>(off, msg). Option.bind (f msg) (\<lambda>msg. nl_msg_end_nested msg off))) [(t', attrs_bytes as)]"
  using puts_nested [OF _ dvd_attrs_bytes, of f as junk "of_nat t"] by simp

lemma tun_key_puts: "puts_attrs (\<lambda>b. tun_key_to_attr junk b t) [(16, attrs_bytes (tun_attrs t))]"
proof -
  let ?f = "\<lambda>a. do {
     a \<leftarrow> when_put (tun_flags t AND FLOW_TNL_F_KEY \<noteq> 0) (put_key junk 0 (le64_bytes (tun_id t))) a;
     a \<leftarrow> when_put (tun_ip_src t \<noteq> 0) (put_key junk 1 (be32_bytes (tun_ip_src t))) a;
     a \<leftarrow> when_put (tun_ip_dst t \<noteq> 0) (put_key junk 2 (be32_bytes (tun_ip_dst t))) a;
     a \<leftarrow> when_put (tun_ip_tos t \<noteq> 0) (put_key junk 3 [tun_ip_tos t]) a;
     a \<leftarrow> put_key junk 4 [tun_ip_ttl t] a;
     a \<leftarrow> when_put (tun_flags t AND FLOW_TNL_F_DONT_FRAGMENT \<noteq> 0) (put_key junk 5 []) a;
     when_put (tun_flags t AND FLOW_TNL_F_CSUM \<noteq> 0) (put_key junk 6 []) a }"
  have "puts_attrs ?f (tun_attrs t)" unfolding tun_attrs_def
    by (intro puts_seq puts_opt puts_attr) simp_all
  from puts_nested_attrs [OF this, of 16 16 junk] show ?thesis
    by (simp add: tun_key_to_attr_def Option.bind_assoc split_def cong: Option.bind_cong)
qed

lemma put_inner_puts:
  assumes "length (ipv6_src f) = 16" "length (ipv6_dst f) = 16"
  shows "puts_attrs (put_inner_key junk f f False) (inner_attrs f)"
proof (cases "ntohs (dl_type f) < ETH_TYPE_MIN")
  case True
  then show ?thesis using puts_none by (simp add: put_inner_key_def [abs_def] inner_attrs_def)
next
  case False
  have l: "length (ipv6_key False f) \<le> 40" "length (arp_key f) \<le> 40" "length (nd_key f) \<le> 40"
    using assms by (simp_all add: ipv6_key_def arp_key_def nd_key_def)
  have 3: "puts_attrs (put_l3_key junk f f False) (l3_attrs f)"
    unfolding put_l3_key_def [abs_def] l3_attrs_def using l by (auto intro!: puts_attr16 puts_none)
  have 6: "puts (\<lambda>b. Option.bind (nl_msg_put_unspec junk b 12 (icmp_key f)) (when_put (is_nd f) (put_key junk 14 (nd_key f))))
    (attrs_bytes ((12, icmp_key f) # opt (is_nd f) (14, nd_key f)))"
    using puts_then [of "icmp_key f" 12 12, OF _ _ puts_opt [OF l(3), of 14 14]] by simp
  have 4: "puts_attrs (put_l4_key junk f f False) (l4_attrs f)"
    unfolding put_l4_key_def [abs_def] l4_attrs_def using 6 by (auto intro!: puts_attr16 puts_none)
  from False show ?thesis unfolding put_inner_key_def [abs_def] inner_attrs_def
    by (simp only: if_False) (intro puts_then puts_seq puts_opt 3 4; simp)
qed

lemma from_flow_puts:
  assumes "length (ipv6_src f) = 16" "length (ipv6_dst f) = 16"
  shows "puts_attrs (\<lambda>b. odp_flow_key_from_flow junk b f port) (flow_attrs f port)"
proof -
  let ?v = "\<lambda>buf. do {
       buf \<leftarrow> put_key junk OVS_KEY_ATTR_ETHERTYPE (be16_bytes (htons ETH_TYPE_VLAN)) buf;
       buf \<leftarrow> put_key junk OVS_KEY_ATTR_VLAN (be16_bytes (vlan_tci f)) buf;
       (encap, buf) \<leftarrow> nl_msg_start_nested junk buf (of_nat OVS_KEY_ATTR_ENCAP);
       buf \<leftarrow> (if vlan_tci f = 0 then Some buf else put_inner_key junk f f False buf);
       nl_msg_end_nested buf encap }"
  have "puts_attrs (\<lambda>b. if vlan_tci f = 0 then Some b else put_inner_key junk f f False b) (if vlan_tci f = 0 then [] else inner_attrs f)"
    using puts_none put_inner_puts [OF assms] by simp
  from puts_nested_attrs [OF this, of 1 1 junk] have v: "puts_attrs ?v (vlan_attrs f)"
    unfolding vlan_attrs_def by (intro puts_then) (simp_all add: be16_bytes_def)
  have "puts_attrs (\<lambda>buf. if vlan_tci f \<noteq> 0 \<or> dl_type f = htons ETH_TYPE_VLAN then ?v buf else put_inner_key junk f f False buf)
    (if vlan_tci f \<noteq> 0 \<or> dl_type f = htons ETH_TYPE_VLAN then vlan_attrs f else inner_attrs f)"
    using v put_inner_puts [OF assms] by simp
  moreover have "puts_attrs (when_put (tun_ip_dst (tunnel f) \<noteq> 0) (\<lambda>b. tun_key_to_attr junk b (tunnel f)))
    (opt (tun_ip_dst (tunnel f) \<noteq> 0) (16, attrs_bytes (tun_attrs (tunnel f))))"
    using puts_none tun_key_puts [of junk "tunnel f"] by (cases "tun_ip_dst (tunnel f) = 0") (simp_all add: opt_def)
  ultimately show ?thesis unfolding odp_flow_key_from_flow_def odp_flow_key_from_flow_raw_def flow_attrs_def
    by (simp only: simp_thms if_False) (intro puts_then puts_seq puts_opt puts_attr; simp)
qed

section \<open>Reading what was written\<close>

definition attr_at :: "bytes \<Rightarrow> nat \<Rightarrow> u16 \<Rightarrow> bytes \<Rightarrow> bool" where
  "attr_at m a t d \<longleftrightarrow> fits_attr d \<and> (\<exists>pre post. m = pre @ attr_bytes t d @ post \<and> a = length pre)"

lemma attr_at_get:
  assumes "attr_at m a t d"
  shows "nl_attr_get m a = Some (a + NLA_HDRLEN)" "nl_attr_get_size m a = Some (length d)" "ldn m (a + NLA_HDRLEN) (length d) = Some d"
    "n \<le> length d \<Longrightarrow> nl_attr_get_unspec m a n = Some (a + NLA_HDRLEN)" "nl_attr_type m a = Some (t AND NLA_TYPE_MASK)"
proof -
  from assms obtain pre post where m: "m = pre @ attr_bytes t d @ post" "a = length pre" "fits_attr d" by (auto simp: attr_at_def)
  show "nl_attr_get m a = Some (a + NLA_HDRLEN)" "nl_attr_get_size m a = Some (length d)" "ldn m (a + NLA_HDRLEN) (length d) = Some d"
    "n \<le> length d \<Longrightarrow> nl_attr_get_unspec m a n = Some (a + NLA_HDRLEN)" "nl_attr_type m a = Some (t AND NLA_TYPE_MASK)"
    using attr_read [OF m(1,3)] attr_header(3) [OF m(1)] m(2) by auto
qed

lemma ldn_nth: "ldn m p n = Some d \<Longrightarrow> i < n \<Longrightarrow> p + i < length m \<and> m ! (p + i) = d ! i"
  by (auto simp: ldn_def split: if_splits)

lemma ld_ldn:
  assumes "ldn m p n = Some d"
  shows "i + 4 \<le> n \<Longrightarrow> ld32 m (p + i) = ld32 d i" "i + 2 \<le> n \<Longrightarrow> ld16 m (p + i) = ld16 d i" "i < n \<Longrightarrow> ld8 m (p + i) = ld8 d i"
proof -
  have n: "p + n \<le> length m" "length d = n" "\<And>j. j < n \<Longrightarrow> m ! (p + j) = d ! j" using assms by (auto simp: ldn_def split: if_splits)
  show "i + 4 \<le> n \<Longrightarrow> ld32 m (p + i) = ld32 d i" "i + 2 \<le> n \<Longrightarrow> ld16 m (p + i) = ld16 d i" "i < n \<Longrightarrow> ld8 m (p + i) = ld8 d i"
    using n(1,2) n(3) [of i] n(3) [of "i + 1"] n(3) [of "i + 2"] n(3) [of "i + 3"] by (auto simp: ld32_def ld16_def ld8_def ac_simps)
qed

lemma ld_bytes [simp]: "ld32 (be32_bytes v @ r) 0 = Some v" "ld16 (be16_bytes w @ r) 0 = Some w" "ld32 (be32_bytes v) 0 = Some v" "ld16 (be16_bytes w) 0 = Some w"
  by (simp_all add: ld32_def ld16_def be32_bytes_def be16_bytes_def nth_append)

lemma attr_at_values:
  shows "attr_at m a t (be32_bytes v) \<Longrightarrow> nl_attr_get_u32 m a = Some v" "attr_at m a t (be16_bytes w) \<Longrightarrow> nl_attr_get_u16 m a = Some w"
    "attr_at m a t [x] \<Longrightarrow> nl_attr_get_u8 m a = Some x" "attr_at m a t (le64_bytes y) \<Longrightarrow> nl_attr_get_u64 m a = Some y"
proof -
  show "attr_at m a t (be32_bytes v) \<Longrightarrow> nl_attr_get_u32 m a = Some v"
    using attr_at_get(3,4) [of m a t "be32_bytes v"] ld_ldn(1) [of m "a + NLA_HDRLEN" 4 "be32_bytes v" 0] by (simp add: nl_attr_get_u32_def)
  show "attr_at m a t (be16_bytes w) \<Longrightarrow> nl_attr_get_u16 m a = Some w"
    using attr_at_get(3,4) [of m a t "be16_bytes w"] ld_ldn(2) [of m "a + NLA_HDRLEN" 2 "be16_bytes w" 0] by (simp add: nl_attr_get_u16_def)
  show "attr_at m a t [x] \<Longrightarrow> nl_attr_get_u8 m a = Some x"
    using attr_at_get(3,4) [of m a t "[x]"] ld_ldn(3) [of m "a + NLA_HDRLEN" 1 "[x]" 0] by (simp add: nl_attr_get_u8_def ld8_def)
  have "ld32 (le64_bytes y) 0 = Some (ucast y)" "ld32 (le64_bytes y) 4 = Some (ucast (drop_bit 32 y))"
    by (simp_all add: le64_bytes_def) (simp_all add: ld32_def be32_bytes_def be16_bytes_def nth_append)
  moreover have "push_bit 32 (ucast (ucast (drop_bit 32 y) :: u32)) OR ucast (ucast y :: u32) = y"
    by (rule bit_eqI) (auto simp: bit_or_iff bit_push_bit_iff bit_ucast_iff bit_drop_bit_eq)
  ultimately show "attr_at m a t (le64_bytes y) \<Longrightarrow> nl_attr_get_u64 m a = Some y"
    using attr_at_get(3,4) [of m a t "le64_bytes y"] ld_ldn(1) [of m "a + NLA_HDRLEN" 8 "le64_bytes y" 0]
      ld_ldn(1) [of m "a + NLA_HDRLEN" 8 "le64_bytes y" 4] by (simp add: nl_attr_get_u64_def)
qed

text \<open>A loop over attributes that are all accepted.\<close>

lemma attr_loop_fold:
  assumes "m = pre @ attrs_bytes as @ post" "\<forall>(t, d) \<in> set as. fits_attr d" "I prev s"
    and "\<And>as1 t d as2 a s. as = as1 @ (t, d) # as2 \<Longrightarrow> I (prev @ as1) s \<Longrightarrow> attr_at m a t d \<Longrightarrow>
      \<exists>s'. body a (unat (t AND NLA_TYPE_MASK)) (length d) s = Some (Some s') \<and> I (prev @ as1 @ [(t, d)]) s'"
  shows "\<exists>s'. attr_loop m body (length pre) (length (attrs_bytes as)) s = Some (True, 0, s') \<and> I (prev @ as) s'"
  using assms
proof (induction as arbitrary: pre s prev)
  case Nil
  then show ?case by (subst attr_loop.simps) (simp add: nl_attr_is_valid_def nl_consts)
next
  case (Cons x as)
  obtain t d where x: "x = (t, d)" by (cases x)
  have m: "m = pre @ attr_bytes t d @ (attrs_bytes as @ post)" "m = (pre @ attr_bytes t d) @ attrs_bytes as @ post" "fits_attr d"
    using Cons.prems by (simp_all add: x)
  note r = attr_read [OF m(1,3)]
  have at: "attr_at m (length pre) t d" using m by (auto simp: attr_at_def)
  obtain len where len: "ld16 m (length pre) = Some len" using attr_header(1) [OF m(1)] by blast
  note st = attr_step [OF m(1,3) len]
  have v: "nl_attr_is_valid m (length pre) (length (attrs_bytes (x # as))) = Some True" by (rule r(5)) (simp add: x)
  from Cons.prems(4) [of "[]" t d as s "length pre"] at Cons.prems(3) obtain s1 where
    s1: "body (length pre) (unat (t AND NLA_TYPE_MASK)) (length d) s = Some (Some s1)" "I (prev @ [(t, d)]) s1" by (auto simp: x)
  have "\<exists>s'. attr_loop m body (length (pre @ attr_bytes t d)) (length (attrs_bytes as)) s1 = Some (True, 0, s') \<and> I ((prev @ [(t, d)]) @ as) s'"
  proof (rule Cons.IH [OF m(2) _ s1(2)])
    show "\<forall>(t, d) \<in> set as. fits_attr d" using Cons.prems(2) by simp
    fix as1 t' d' as2 a s
    assume "as = as1 @ (t', d') # as2" "I ((prev @ [(t, d)]) @ as1) s" "attr_at m a t' d'"
    then show "\<exists>s'. body a (unat (t' AND NLA_TYPE_MASK)) (length d') s = Some (Some s') \<and> I ((prev @ [(t, d)]) @ as1 @ [(t', d')]) s'"
      using Cons.prems(4) [of "(t, d) # as1" t' d' as2 s a] by (simp add: x)
  qed
  then show ?case using v r(1,3) len st s1(1) by (subst attr_loop.simps) (simp add: x)
qed

subsection \<open>Tunnels\<close>

definition tun_step :: "u16 \<Rightarrow> bytes \<Rightarrow> flow_tnl \<times> bool \<times> bool \<Rightarrow> flow_tnl \<times> bool \<times> bool" where
  "tun_step t d = (\<lambda>(tun, ttl, unknown).
     if t = 0 then (tun\<lparr>tun_id := push_bit 32 (ucast (the (ld32 d 4))) OR ucast (the (ld32 d 0)), tun_flags := tun_flags tun OR FLOW_TNL_F_KEY\<rparr>, ttl, unknown)
     else if t = 1 then (tun\<lparr>tun_ip_src := the (ld32 d 0)\<rparr>, ttl, unknown)
     else if t = 2 then (tun\<lparr>tun_ip_dst := the (ld32 d 0)\<rparr>, ttl, unknown)
     else if t = 3 then (tun\<lparr>tun_ip_tos := d ! 0\<rparr>, ttl, unknown)
     else if t = 4 then (tun\<lparr>tun_ip_ttl := d ! 0\<rparr>, True, unknown)
     else if t = 5 then (tun\<lparr>tun_flags := tun_flags tun OR FLOW_TNL_F_DONT_FRAGMENT\<rparr>, ttl, unknown)
     else (tun\<lparr>tun_flags := tun_flags tun OR FLOW_TNL_F_CSUM\<rparr>, ttl, unknown))"

text \<open>A tunnel that has an identifier only if its flag says so, and no unknown flag.\<close>

definition tnl_ok :: "flow_tnl \<Rightarrow> bool" where
  "tnl_ok t \<longleftrightarrow> (tun_flags t AND FLOW_TNL_F_KEY = 0 \<longrightarrow> tun_id t = 0) \<and> tun_flags t AND NOT 7 = 0"

lemma tun_flags_split:
  assumes "f AND NOT 7 = (0 :: u16)"
  shows "(if f AND FLOW_TNL_F_KEY \<noteq> 0 then FLOW_TNL_F_KEY else 0) OR (if f AND FLOW_TNL_F_DONT_FRAGMENT \<noteq> 0 then FLOW_TNL_F_DONT_FRAGMENT else 0) OR
    (if f AND FLOW_TNL_F_CSUM \<noteq> 0 then FLOW_TNL_F_CSUM else 0) = f"
proof -
  have "f = f AND (7 OR NOT 7)" by simp
  then have "f = f AND 7" using assms unfolding bit.conj_disj_distrib by simp
  then have "f \<le> 7" by (metis word_and_le1)
  then have "unat f < 8" by (simp add: word_le_nat_alt)
  then have "unat f = 0 \<or> unat f = 1 \<or> unat f = 2 \<or> unat f = 3 \<or> unat f = 4 \<or> unat f = 5 \<or> unat f = 6 \<or> unat f = 7" by auto
  then have "f \<in> {0, 1, 2, 3, 4, 5, 6, 7}" by (simp add: word_unat_eq_iff)
  then show ?thesis by (auto simp: FLOW_TNL_F_KEY_def FLOW_TNL_F_DONT_FRAGMENT_def FLOW_TNL_F_CSUM_def)
qed

lemma le64_halves: "push_bit 32 (ucast (the (ld32 (le64_bytes v) 4))) OR ucast (the (ld32 (le64_bytes v) 0)) = v"
proof -
  have "ld32 (le64_bytes v) 0 = Some (ucast v)" "ld32 (le64_bytes v) 4 = Some (ucast (drop_bit 32 v))"
    by (simp_all add: le64_bytes_def) (simp_all add: ld32_def be32_bytes_def be16_bytes_def nth_append)
  then show ?thesis by (intro bit_eqI) (auto simp: bit_or_iff bit_push_bit_iff bit_ucast_iff bit_drop_bit_eq)
qed

lemma tun_opt_steps:
  shows "tun_id u = 0 \<Longrightarrow> (\<not> c \<longrightarrow> v = 0) \<Longrightarrow> fold (\<lambda>(x, d). tun_step x d) (opt c (0, le64_bytes v)) (u, a, b) =
      (u\<lparr>tun_id := v, tun_flags := tun_flags u OR (if c then FLOW_TNL_F_KEY else 0)\<rparr>, a, b)"
    "tun_ip_src u = 0 \<Longrightarrow> fold (\<lambda>(x, d). tun_step x d) (opt (w \<noteq> 0) (1, be32_bytes w)) (u, a, b) = (u\<lparr>tun_ip_src := w\<rparr>, a, b)"
    "tun_ip_dst u = 0 \<Longrightarrow> fold (\<lambda>(x, d). tun_step x d) (opt (w \<noteq> 0) (2, be32_bytes w)) (u, a, b) = (u\<lparr>tun_ip_dst := w\<rparr>, a, b)"
    "tun_ip_tos u = 0 \<Longrightarrow> fold (\<lambda>(x, d). tun_step x d) (opt (y \<noteq> 0) (3, [y])) (u, a, b) = (u\<lparr>tun_ip_tos := y\<rparr>, a, b)"
    "fold (\<lambda>(x, d). tun_step x d) ((4, [y]) # r) (u, a, b) = fold (\<lambda>(x, d). tun_step x d) r (u\<lparr>tun_ip_ttl := y\<rparr>, True, b)"
    "fold (\<lambda>(x, d). tun_step x d) (opt c (5, [])) (u, a, b) = (u\<lparr>tun_flags := tun_flags u OR (if c then FLOW_TNL_F_DONT_FRAGMENT else 0)\<rparr>, a, b)"
    "fold (\<lambda>(x, d). tun_step x d) (opt c (6, [])) (u, a, b) = (u\<lparr>tun_flags := tun_flags u OR (if c then FLOW_TNL_F_CSUM else 0)\<rparr>, a, b)"
  by (cases u; simp add: opt_def tun_step_def le64_halves)+

lemma tun_attrs_fold:
  assumes "tnl_ok t"
  shows "fold (\<lambda>(x, d). tun_step x d) (tun_attrs t) (zero_tnl, False, False) = (t, True, False)"
proof -
  have t: "tun_flags t AND FLOW_TNL_F_KEY = 0 \<longrightarrow> tun_id t = 0" "tun_flags t AND NOT 7 = 0" using assms by (auto simp: tnl_ok_def)
  show ?thesis using t(1) tun_flags_split [OF t(2)] unfolding tun_attrs_def
    by (cases t) (simp add: tun_opt_steps zero_tnl_def fold_append or.assoc del: fold.simps split del: if_split)
qed

lemma attr_at_payload:
  assumes "attr_at m a t d"
  obtains pre post where "m = pre @ d @ post" "length pre = a + NLA_HDRLEN"
proof -
  from assms obtain pre post where m: "m = pre @ attr_bytes t d @ post" "a = length pre" by (auto simp: attr_at_def)
  show thesis
  proof (rule that)
    show "m = (pre @ be16_bytes (of_nat (NLA_HDRLEN + length d)) @ be16_bytes t) @ d @ (zeros (NLMSG_ALIGN (length d) - length d) @ post)"
      using m(1) by (simp add: attr_bytes_def)
  qed (use m(2) in \<open>simp add: nl_consts\<close>)
qed

lemma tun_attr_step:
  assumes "(x, d) \<in> set (tun_attrs t)" "attr_at m a x d"
  shows "(if int (length d) \<noteq> tunnel_key_attr_len (unat (x AND NLA_TYPE_MASK)) \<and> tunnel_key_attr_len (unat (x AND NLA_TYPE_MASK)) \<ge> 0 then Some None
     else map_option Some (tun_attr m a (unat (x AND NLA_TYPE_MASK)) s)) = Some (Some (tun_step x d s))"
proof -
  have "x = 0 \<and> d = le64_bytes (tun_id t) \<or> x = 1 \<and> d = be32_bytes (tun_ip_src t) \<or> x = 2 \<and> d = be32_bytes (tun_ip_dst t) \<or>
    x = 3 \<and> d = [tun_ip_tos t] \<or> x = 4 \<and> d = [tun_ip_ttl t] \<or> (x = 5 \<or> x = 6) \<and> d = []"
    using assms(1) by (auto simp: tun_attrs_def opt_def split: if_splits)
  then show ?thesis using assms(2) attr_at_values [of m a x]
    by (cases s; elim disjE conjE; simp add: tunnel_key_attr_len_def tun_attr_def tun_step_def NLA_TYPE_MASK_def le64_halves)
qed

lemma tun_attrs_fits: "(x, d) \<in> set (tun_attrs t) \<Longrightarrow> fits_attr d"
  by (rule fits_short) (auto simp: tun_attrs_def opt_def split: if_splits)

lemma odp_tun_key_from_attr_ok:
  assumes "attr_at m a x (attrs_bytes (tun_attrs t))" "tnl_ok t"
  shows "odp_tun_key_from_attr m a zero_tnl = Some (ODP_FIT_PERFECT, t)"
proof -
  obtain pre post where m: "m = pre @ attrs_bytes (tun_attrs t) @ post" "length pre = a + NLA_HDRLEN" by (rule attr_at_payload [OF assms(1)])
  let ?body = "\<lambda>a type len s. if int len \<noteq> tunnel_key_attr_len type \<and> tunnel_key_attr_len type \<ge> 0 then Some None else map_option Some (tun_attr m a type s)"
  have "\<exists>s'. attr_loop m ?body (length pre) (length (attrs_bytes (tun_attrs t))) (zero_tnl, False, False) = Some (True, 0, s') \<and>
    s' = fold (\<lambda>(x, d). tun_step x d) ([] @ tun_attrs t) (zero_tnl, False, False)"
  proof (rule attr_loop_fold [OF m(1), where I = "\<lambda>as s'. s' = fold (\<lambda>(x, d). tun_step x d) as (zero_tnl, False, False)"])
    fix as1 y d as2 b s
    assume "tun_attrs t = as1 @ (y, d) # as2" "s = fold (\<lambda>(x, d). tun_step x d) ([] @ as1) (zero_tnl, False, False)" "attr_at m b y d"
    then show "\<exists>s'. ?body b (unat (y AND NLA_TYPE_MASK)) (length d) s = Some (Some s') \<and>
      s' = fold (\<lambda>(x, d). tun_step x d) ([] @ as1 @ [(y, d)]) (zero_tnl, False, False)"
      using tun_attr_step [of y d t m b s] by simp
  qed (use tun_attrs_fits in auto)
  then have "attr_loop m ?body (length pre) (length (attrs_bytes (tun_attrs t))) (zero_tnl, False, False) = Some (True, 0, t, True, False)"
    using tun_attrs_fold [OF assms(2)] by auto
  then show ?thesis using attr_at_get(1,2) [OF assms(1)] m(2) by (simp add: odp_tun_key_from_attr_def)
qed

subsection \<open>The attributes of a key\<close>

definition key_attr_ok :: "u16 \<times> bytes \<Rightarrow> bool" where
  "key_attr_ok = (\<lambda>(t, d). fits_attr d \<and> unat t \<le> OVS_KEY_ATTR_MAX \<and>
     (odp_flow_key_attr_len (unat t) < 0 \<or> odp_flow_key_attr_len (unat t) = int (length d)))"

definition types_mask :: "(u16 \<times> bytes) list \<Rightarrow> u64" where
  "types_mask as = foldr (\<lambda>(t, d) x. attr_bit (unat t) OR x) as 0"

lemma types_mask_simps [simp]: "types_mask [] = 0" "types_mask ((t, d) # as) = attr_bit (unat t) OR types_mask as"
  "types_mask (as @ bs) = types_mask as OR types_mask bs"
  by (simp_all add: types_mask_def) (induction as; auto simp: or.assoc)

lemma bit_types_mask: "bit (types_mask as) n \<longleftrightarrow> n < 64 \<and> (\<exists>(t, d) \<in> set as. unat t = n)"
  by (induction as) (auto simp: bit_or_iff bit_exp_iff split: prod.splits)

lemma key_type_mask: "unat t \<le> 62 \<Longrightarrow> t AND NLA_TYPE_MASK = t"
proof -
  assume "unat t \<le> 62"
  then have "t < 2 ^ 14" by (simp add: word_less_nat_alt)
  then have "t AND mask 14 = t" by (simp add: less_mask_eq)
  then show ?thesis by (simp add: NLA_TYPE_MASK_def mask_eq_exp_minus_1)
qed

text \<open>What the parser knows: the attributes of the list, each at its place.\<close>

definition key_holds :: "bytes \<Rightarrow> key_attrs \<Rightarrow> (u16 \<times> bytes) list \<Rightarrow> bool" where
  "key_holds m k as \<longleftrightarrow> ka_out_of_range k = 0 \<and> ka_present k = types_mask as \<and>
     (\<forall>(t, d) \<in> set as. \<exists>a. ka_attrs k (unat t) = Some a \<and> attr_at m a t d)"

lemma parse_flow_nlattrs_ok:
  assumes "m = pre @ attrs_bytes as @ post" "\<forall>x \<in> set as. key_attr_ok x" "distinct (map fst as)"
  shows "\<exists>k. parse_flow_nlattrs m (length pre) (length (attrs_bytes as)) attrs = Some (Some k) \<and> key_holds m k as"
proof -
  have "\<exists>k. attr_loop m flow_attr (length pre) (length (attrs_bytes as)) \<lparr>ka_attrs = attrs, ka_present = 0, ka_out_of_range = 0\<rparr> = Some (True, 0, k) \<and>
    key_holds m k ([] @ as)"
  proof (rule attr_loop_fold [OF assms(1), where I = "\<lambda>as k. key_holds m k as"])
    fix as1 t d as2 a k
    assume as: "as = as1 @ (t, d) # as2" and k: "key_holds m k ([] @ as1)" and a: "attr_at m a t d"
    have ok: "key_attr_ok (t, d)" and new: "t \<notin> fst ` set as1" using assms(2,3) as by auto
    have tt: "unat (t AND NLA_TYPE_MASK) = unat t" "unat t \<le> 62" using ok key_type_mask [of t] by (auto simp: key_attr_ok_def)
    have ne: "\<forall>(t', d') \<in> set as1. unat t' \<noteq> unat t" using new by (auto simp: image_iff) (metis fst_conv unat_eqI)
    then have "\<not> present k (unat t)" using k by (auto simp: key_holds_def bit_types_mask)
    with ne show "\<exists>k'. flow_attr a (unat (t AND NLA_TYPE_MASK)) (length d) k = Some (Some k') \<and> key_holds m k' ([] @ as1 @ [(t, d)])"
      using k a ok tt by (auto simp: flow_attr_def key_attr_ok_def key_holds_def)
  qed (use assms(2) in \<open>auto simp: key_attr_ok_def key_holds_def\<close>)
  then show ?thesis by (auto simp: parse_flow_nlattrs_def)
qed

lemma key_holds_get:
  assumes "key_holds m k as" "(t, d) \<in> set as"
  obtains a where "ka_attrs k (unat t) = Some a" "attr_at m a t d"
  using assms unfolding key_holds_def by fastforce

lemma key_holds_struct: "key_holds m k as \<Longrightarrow> (t, d) \<in> set as \<Longrightarrow> key_struct m k (unat t) (length d) = Some d"
proof -
  assume "key_holds m k as" "(t, d) \<in> set as"
  then obtain a where "ka_attrs k (unat t) = Some a" "attr_at m a t d" by (rule key_holds_get)
  then show ?thesis using attr_at_get(1,3) [of m a t d] by (simp add: key_struct_def)
qed

lemma key_holds_present: "key_holds m k as \<Longrightarrow> (t, d) \<in> set as \<Longrightarrow> unat t < 64 \<Longrightarrow> present k (unat t)"
  by (auto simp: key_holds_def bit_types_mask)

lemma key_holds_absent: "key_holds m k as \<Longrightarrow> n \<notin> (unat \<circ> fst) ` set as \<Longrightarrow> \<not> present k n"
  by (force simp: key_holds_def bit_types_mask)

lemma check_perfect: "key_holds m k as \<Longrightarrow> expected = types_mask as \<Longrightarrow> check_expectations k expected = ODP_FIT_PERFECT"
  by (simp add: key_holds_def check_expectations_def)

section \<open>Well-formed flows\<close>

text \<open>
  The flows that have a key of their own: the fields a packet of the flow does not have are zero, a tagged flow has the
  CFI bit, fragments are none, first or later, and an ICMP type and code have eight bits.
\<close>

definition l4_zero :: "flow \<Rightarrow> bool" where
  "l4_zero f \<longleftrightarrow> tp_src f = 0 \<and> tp_dst f = 0"

definition v6_zero :: "flow \<Rightarrow> bool" where
  "v6_zero f \<longleftrightarrow> ipv6_src f = zeros 16 \<and> ipv6_dst f = zeros 16 \<and> ipv6_label f = 0 \<and> nd_target f = zeros 16"

definition arp_zero :: "flow \<Rightarrow> bool" where
  "arp_zero f \<longleftrightarrow> arp_sha f = zeros 6 \<and> arp_tha f = zeros 6"

definition ip_zero :: "flow \<Rightarrow> bool" where
  "ip_zero f \<longleftrightarrow> nw_tos f = 0 \<and> nw_ttl f = 0 \<and> nw_frag f = 0"

definition icmp_ok :: "flow \<Rightarrow> bool" where
  "icmp_ok f \<longleftrightarrow> ntohs (tp_src f) < 0x100 \<and> ntohs (tp_dst f) < 0x100"

definition frag_ok :: "u8 \<Rightarrow> bool" where
  "frag_ok x \<longleftrightarrow> x = 0 \<or> x = 1 \<or> x = 3"

definition ports_proto :: "flow \<Rightarrow> bool" where
  "ports_proto f \<longleftrightarrow> nw_proto f = IPPROTO_TCP \<or> nw_proto f = IPPROTO_UDP \<or> nw_proto f = IPPROTO_SCTP"

text \<open>The layers above Ethernet.\<close>

definition inner_ok :: "flow \<Rightarrow> bool" where
  "inner_ok f \<longleftrightarrow>
     (if dl_type f = htons ETH_TYPE_IP then
        frag_ok (nw_frag f) \<and> v6_zero f \<and> arp_zero f \<and> mpls_lse f = 0 \<and> mpls_depth f = 0 \<and>
        (if nw_frag f AND FLOW_NW_FRAG_LATER = 0 \<and> ports_proto f then True
         else if nw_frag f AND FLOW_NW_FRAG_LATER = 0 \<and> nw_proto f = IPPROTO_ICMP then icmp_ok f else l4_zero f)
      else if dl_type f = htons ETH_TYPE_IPV6 then
        frag_ok (nw_frag f) \<and> nw_src f = 0 \<and> nw_dst f = 0 \<and> mpls_lse f = 0 \<and> mpls_depth f = 0 \<and>
        length (ipv6_src f) = 16 \<and> length (ipv6_dst f) = 16 \<and>
        (if nw_frag f AND FLOW_NW_FRAG_LATER = 0 \<and> ports_proto f then nd_target f = zeros 16 \<and> arp_zero f
         else if nw_frag f AND FLOW_NW_FRAG_LATER = 0 \<and> nw_proto f = IPPROTO_ICMPV6 then
           icmp_ok f \<and> (if is_nd f then length (nd_target f) = 16 \<and> length (arp_sha f) = 6 \<and> length (arp_tha f) = 6
             else nd_target f = zeros 16 \<and> arp_zero f)
         else l4_zero f \<and> nd_target f = zeros 16 \<and> arp_zero f)
      else v6_zero f \<and> l4_zero f \<and> ip_zero f \<and>
        (if dl_type f = htons ETH_TYPE_ARP \<or> dl_type f = htons ETH_TYPE_RARP then
           length (arp_sha f) = 6 \<and> length (arp_tha f) = 6 \<and> mpls_lse f = 0 \<and> mpls_depth f = 0
         else nw_src f = 0 \<and> nw_dst f = 0 \<and> nw_proto f = 0 \<and> arp_zero f \<and>
           (if eth_type_mpls (dl_type f) \<and> mpls_depth f = 1 then True else mpls_lse f = 0 \<and> mpls_depth f = 0)))"

definition flow_ok :: "flow \<Rightarrow> bool" where
  "flow_ok f \<longleftrightarrow> tnl_ok (tunnel f) \<and> (tun_ip_dst (tunnel f) = 0 \<longrightarrow> tunnel f = zero_tnl) \<and> metadata f = 0 \<and> regs f = replicate 8 0 \<and>
     length (dl_src f) = 6 \<and> length (dl_dst f) = 6 \<and> inner_ok f \<and>
     (dl_type f = htons FLOW_DL_TYPE_NONE \<or> ETH_TYPE_MIN \<le> ntohs (dl_type f)) \<and>
     (vlan_tci f \<noteq> 0 \<longrightarrow> vlan_tci f AND htons VLAN_CFI \<noteq> 0)"

text \<open>An MPLS flow without a label has a key that lacks the attribute the reader expects.\<close>

definition key_fit :: "flow \<Rightarrow> odp_key_fitness" where
  "key_fit f = (if eth_type_mpls (dl_type f) \<and> mpls_depth f = 0 then ODP_FIT_TOO_LITTLE else ODP_FIT_PERFECT)"

section \<open>Keys read back\<close>

text \<open>A flow whose layers above Ethernet have not been read yet, and one whose transport layer has not.\<close>

definition strip_l3 :: "flow \<Rightarrow> flow" where
  "strip_l3 f = f\<lparr>ipv6_src := zeros 16, ipv6_dst := zeros 16, nd_target := zeros 16, nw_src := 0, nw_dst := 0, ipv6_label := 0, mpls_lse := 0,
     mpls_depth := 0, tp_src := 0, tp_dst := 0, nw_proto := 0, nw_tos := 0, arp_sha := zeros 6, arp_tha := zeros 6, nw_ttl := 0, nw_frag := 0\<rparr>"

definition strip_l4 :: "flow \<Rightarrow> flow" where
  "strip_l4 f = f\<lparr>nd_target := zeros 16, tp_src := 0, tp_dst := 0, arp_sha := zeros 6, arp_tha := zeros 6\<rparr>"

lemma frag_roundtrip:
  assumes "frag_ok x" "nw_frag g = 0"
  shows "odp_to_ovs_frag (ovs_to_odp_frag x) g = (True, g\<lparr>nw_frag := x\<rparr>)"
proof -
  have "g\<lparr>nw_frag := 0\<rparr> = g" using assms(2) by (cases g) simp
  moreover have "x = 0 \<or> x = 1 \<or> x = 3" using assms(1) by (simp add: frag_ok_def)
  ultimately show ?thesis using assms(2)
    by (elim disjE) (simp_all add: odp_to_ovs_frag_def ovs_to_odp_frag_def FLOW_NW_FRAG_ANY_def FLOW_NW_FRAG_LATER_def key_consts)
qed

lemma eth_types [simp]:
  "ETH_TYPE_IP \<noteq> ETH_TYPE_IPV6" "ETH_TYPE_IPV6 \<noteq> ETH_TYPE_IP" "ETH_TYPE_IP \<noteq> ETH_TYPE_ARP" "ETH_TYPE_ARP \<noteq> ETH_TYPE_IP"
  "ETH_TYPE_IP \<noteq> ETH_TYPE_RARP" "ETH_TYPE_RARP \<noteq> ETH_TYPE_IP" "ETH_TYPE_IPV6 \<noteq> ETH_TYPE_ARP" "ETH_TYPE_ARP \<noteq> ETH_TYPE_IPV6"
  "ETH_TYPE_IPV6 \<noteq> ETH_TYPE_RARP" "ETH_TYPE_RARP \<noteq> ETH_TYPE_IPV6"
  "\<not> eth_type_mpls (htons ETH_TYPE_IP)" "\<not> eth_type_mpls (htons ETH_TYPE_IPV6)" "\<not> eth_type_mpls (htons ETH_TYPE_ARP)"
  "\<not> eth_type_mpls (htons ETH_TYPE_RARP)"
  by (simp_all add: ETH_TYPE_IP_def ETH_TYPE_IPV6_def ETH_TYPE_ARP_def ETH_TYPE_RARP_def eth_type_mpls_def ETH_TYPE_MPLS_def ETH_TYPE_MPLS_MCAST_def)

lemma src_of_None [simp]: "src_of None f = f"
  by (simp add: src_of_def)

lemma ipv4_key_fields:
  "ld32 (ipv4_key False f) 0 = Some (nw_src f)" "ld32 (ipv4_key False f) 4 = Some (nw_dst f)" "ipv4_key False f ! 8 = nw_proto f"
  "ipv4_key False f ! 9 = nw_tos f" "ipv4_key False f ! 10 = nw_ttl f" "ipv4_key False f ! 11 = ovs_to_odp_frag (nw_frag f)"
  by (simp_all add: ipv4_key_def) (simp_all add: ld32_def be32_bytes_def be16_bytes_def nth_append)

lemma parse_ipv4_ok:
  assumes "key_holds m k as" "(7, ipv4_key False f) \<in> set as" "dl_type f = htons ETH_TYPE_IP" "inner_ok f"
  shows "parse_l3 m k e (strip_l3 f) None = Some (L3_NEXT (e OR attr_bit 7) (strip_l4 f) [] no_bit)"
proof -
  have d: "key_struct m k 7 12 = Some (ipv4_key False f)" "present k 7"
    using key_holds_struct [OF assms(1,2)] key_holds_present [OF assms(1,2)] by simp_all
  have ok: "frag_ok (nw_frag f)" "v6_zero f" "mpls_lse f = 0" "mpls_depth f = 0" using assms(3,4) by (auto simp: inner_ok_def)
  let ?g = "(strip_l3 f)\<lparr>nw_src := nw_src f, nw_dst := nw_dst f, nw_proto := nw_proto f, nw_tos := nw_tos f, nw_ttl := nw_ttl f\<rparr>"
  have "odp_to_ovs_frag (ovs_to_odp_frag (nw_frag f)) ?g = (True, ?g\<lparr>nw_frag := nw_frag f\<rparr>)"
    by (rule frag_roundtrip [OF ok(1)]) (simp add: strip_l3_def)
  moreover have "?g\<lparr>nw_frag := nw_frag f\<rparr> = strip_l4 f" using ok by (cases f) (simp add: strip_l3_def strip_l4_def v6_zero_def)
  moreover have "dl_type (strip_l3 f) = dl_type f" by (simp add: strip_l3_def)
  ultimately show ?thesis using d assms(3) by (simp add: parse_l3_def parse_ipv4_def ipv4_key_fields ip_frag_step_def Let_def)
qed

lemma ipv6_key_fields:
  assumes "length (ipv6_src f) = 16" "length (ipv6_dst f) = 16"
  shows "length (ipv6_key False f) = 40" "ld32 (ipv6_key False f) 32 = Some (ipv6_label f)" "take 16 (ipv6_key False f) = ipv6_src f"
    "take 16 (drop 16 (ipv6_key False f)) = ipv6_dst f" "ipv6_key False f ! 36 = nw_proto f" "ipv6_key False f ! 37 = nw_tos f"
    "ipv6_key False f ! 38 = nw_ttl f" "ipv6_key False f ! 39 = ovs_to_odp_frag (nw_frag f)"
  using assms by (simp_all add: ipv6_key_def) (simp_all add: ld32_def be32_bytes_def be16_bytes_def nth_append)

lemma parse_ipv6_ok:
  assumes "key_holds m k as" "(8, ipv6_key False f) \<in> set as" "dl_type f = htons ETH_TYPE_IPV6" "inner_ok f"
  shows "parse_l3 m k e (strip_l3 f) None = Some (L3_NEXT (e OR attr_bit 8) (strip_l4 f) [] no_bit)"
proof -
  have ok: "frag_ok (nw_frag f)" "nw_src f = 0" "nw_dst f = 0" "mpls_lse f = 0" "mpls_depth f = 0" "length (ipv6_src f) = 16" "length (ipv6_dst f) = 16"
    using assms(3,4) by (auto simp: inner_ok_def)
  note fields = ipv6_key_fields [OF ok(6,7)]
  have d: "key_struct m k 8 40 = Some (ipv6_key False f)" "present k 8"
    using key_holds_struct [OF assms(1,2)] key_holds_present [OF assms(1,2)] fields(1) by simp_all
  let ?g = "(strip_l3 f)\<lparr>ipv6_src := ipv6_src f, ipv6_dst := ipv6_dst f, ipv6_label := ipv6_label f, nw_proto := nw_proto f, nw_tos := nw_tos f,
    nw_ttl := nw_ttl f\<rparr>"
  have "odp_to_ovs_frag (ovs_to_odp_frag (nw_frag f)) ?g = (True, ?g\<lparr>nw_frag := nw_frag f\<rparr>)"
    by (rule frag_roundtrip [OF ok(1)]) (simp add: strip_l3_def)
  moreover have "?g\<lparr>nw_frag := nw_frag f\<rparr> = strip_l4 f" using ok by (cases f) (simp add: strip_l3_def strip_l4_def)
  moreover have "dl_type (strip_l3 f) = dl_type f" by (simp add: strip_l3_def)
  ultimately show ?thesis using d assms(3) fields by (simp add: parse_l3_def parse_ipv6_def ip_frag_step_def Let_def)
qed

lemma arp_op_byte: "htons (ucast (x :: u8)) AND htons 0xff00 = 0"
proof -
  have "ucast x AND (0xff00 :: u16) = 0"
  proof (rule bit_eqI)
    fix n
    have "(0xff00 :: u16) = push_bit 8 (mask 8)" by (simp add: push_bit_eq_mult mask_eq_exp_minus_1)
    then have "bit (0xff00 :: u16) n \<longleftrightarrow> 8 \<le> n \<and> n < 16" by (simp only: bit_push_bit_iff bit_mask_iff) auto
    then show "bit (ucast x AND (0xff00 :: u16)) n = bit 0 n" by (auto simp: bit_and_iff bit_ucast_iff dest: bit_imp_le_length)
  qed
  moreover have "htons 0 = 0" using htons_le16 [of 0 0] by (simp add: le16_def)
  ultimately show ?thesis by (metis htons_and)
qed

lemma arp_key_fields:
  assumes "length (arp_sha f) = 6" "length (arp_tha f) = 6"
  shows "length (arp_key f) = 24" "ld32 (arp_key f) 0 = Some (nw_src f)" "ld32 (arp_key f) 4 = Some (nw_dst f)"
    "ld16 (arp_key f) 8 = Some (htons (ucast (nw_proto f)))" "take 6 (drop 10 (arp_key f)) = arp_sha f" "take 6 (drop 16 (arp_key f)) = arp_tha f"
  using assms by (simp_all add: arp_key_def) (simp_all add: ld32_def ld16_def be32_bytes_def be16_bytes_def nth_append)

lemma ucast_up8 [simp]: "ucast (ucast (x :: u8) :: u16) = x"
  by (rule bit_eqI) (auto simp: bit_ucast_iff)

lemma parse_arp_ok:
  assumes "key_holds m k as" "(13, arp_key f) \<in> set as" "dl_type f = htons ETH_TYPE_ARP \<or> dl_type f = htons ETH_TYPE_RARP" "inner_ok f"
  shows "parse_l3 m k e (strip_l3 f) None = Some (L3_NEXT (e OR attr_bit 13) f [] no_bit)"
proof -
  have t: "dl_type f \<noteq> htons ETH_TYPE_IP" "dl_type f \<noteq> htons ETH_TYPE_IPV6" "\<not> eth_type_mpls (dl_type f)" using assms(3) by auto
  have ok: "v6_zero f" "l4_zero f" "ip_zero f" "mpls_lse f = 0" "mpls_depth f = 0" "length (arp_sha f) = 6" "length (arp_tha f) = 6"
    using assms(3,4) t(1,2) by (auto simp: inner_ok_def)
  note fields = arp_key_fields [OF ok(6,7)]
  have d: "key_struct m k 13 24 = Some (arp_key f)" "present k 13"
    using key_holds_struct [OF assms(1,2)] key_holds_present [OF assms(1,2)] fields(1) by simp_all
  let ?g = "(strip_l3 f)\<lparr>nw_src := nw_src f, nw_dst := nw_dst f, nw_proto := nw_proto f, arp_sha := arp_sha f, arp_tha := arp_tha f\<rparr>"
  have "?g = f" using ok by (cases f) (simp add: strip_l3_def v6_zero_def l4_zero_def ip_zero_def)
  moreover have "dl_type (strip_l3 f) = dl_type f" by (simp add: strip_l3_def)
  ultimately show ?thesis using d assms(3) t fields arp_op_byte [of "nw_proto f"] by (simp add: parse_l3_def parse_arp_def Let_def)
qed

lemma parse_mpls_ok:
  assumes "key_holds m k as" "(62, be32_bytes (mpls_lse f)) \<in> set as" "eth_type_mpls (dl_type f)" "mpls_depth f = 1" "inner_ok f"
  shows "parse_l3 m k e (strip_l3 f) None = Some (L3_DONE (e OR attr_bit 62) f)"
proof -
  have t: "dl_type f \<noteq> htons ETH_TYPE_IP" "dl_type f \<noteq> htons ETH_TYPE_IPV6" "dl_type f \<noteq> htons ETH_TYPE_ARP" "dl_type f \<noteq> htons ETH_TYPE_RARP"
    using assms(3) by auto
  have ok: "v6_zero f" "l4_zero f" "ip_zero f" "nw_src f = 0" "nw_dst f = 0" "nw_proto f = 0" "arp_zero f" "mpls_depth f = 1"
    using assms(3-5) t by (simp_all add: inner_ok_def)
  obtain a where a: "ka_attrs k 62 = Some a" "attr_at m a 62 (be32_bytes (mpls_lse f))" using key_holds_get [OF assms(1,2)] by auto
  have "present k 62" using key_holds_present [OF assms(1,2)] by simp
  moreover have "(strip_l3 f)\<lparr>mpls_lse := mpls_lse f, mpls_depth := 1\<rparr> = f"
    using ok by (cases f) (simp add: strip_l3_def v6_zero_def l4_zero_def ip_zero_def arp_zero_def)
  moreover have "dl_type (strip_l3 f) = dl_type f" "mpls_depth (strip_l3 f) = 0" by (simp_all add: strip_l3_def)
  ultimately show ?thesis using assms(3) a attr_at_values(1) [OF a(2)] by (simp add: parse_l3_def parse_mpls_def Let_def)
qed

lemma strip_l3_other:
  assumes "dl_type f \<noteq> htons ETH_TYPE_IP" "dl_type f \<noteq> htons ETH_TYPE_IPV6" "dl_type f \<noteq> htons ETH_TYPE_ARP" "dl_type f \<noteq> htons ETH_TYPE_RARP"
    "\<not> (eth_type_mpls (dl_type f) \<and> mpls_depth f = 1)" "inner_ok f"
  shows "strip_l3 f = f"
proof -
  have "v6_zero f" "l4_zero f" "ip_zero f" "nw_src f = 0" "nw_dst f = 0" "nw_proto f = 0" "arp_zero f" "mpls_lse f = 0" "mpls_depth f = 0"
    using assms by (simp_all add: inner_ok_def split: if_splits)
  then show ?thesis by (cases f) (simp add: strip_l3_def v6_zero_def l4_zero_def ip_zero_def arp_zero_def)
qed

lemma parse_mpls_none:
  assumes "eth_type_mpls (dl_type f)" "mpls_depth f = 0" "inner_ok f" "\<not> present k 62"
  shows "parse_l3 m k e (strip_l3 f) None = Some (L3_RETURN ODP_FIT_TOO_LITTLE f)"
proof -
  have "strip_l3 f = f" by (rule strip_l3_other) (use assms in auto)
  then show ?thesis using assms by (simp add: parse_l3_def parse_mpls_def Let_def)
qed

lemma parse_other_ok:
  assumes "dl_type f \<noteq> htons ETH_TYPE_IP" "dl_type f \<noteq> htons ETH_TYPE_IPV6" "dl_type f \<noteq> htons ETH_TYPE_ARP" "dl_type f \<noteq> htons ETH_TYPE_RARP"
    "\<not> eth_type_mpls (dl_type f)" "inner_ok f"
  shows "parse_l3 m k e (strip_l3 f) None = Some (L3_DONE e f)"
  using assms by (simp add: strip_l3_other parse_l3_def)

lemma strip_l4_sel [simp]: "nw_proto (strip_l4 f) = nw_proto f" "nw_frag (strip_l4 f) = nw_frag f" "dl_type (strip_l4 f) = dl_type f"
  "is_ip_any (strip_l4 f) = is_ip_any f"
  by (simp_all add: strip_l4_def is_ip_any_def)

lemma parse_ports_ok:
  assumes "key_holds m k as" "(t, ports_key f) \<in> set as" "unat t < 64" "nd_target f = zeros 16" "arp_zero f"
  shows "parse_ports m k e (strip_l4 f) None (unat t) = Some (e OR attr_bit (unat t), f, unat t)"
proof -
  have "key_struct m k (unat t) 4 = Some (ports_key f)" "present k (unat t)"
    using key_holds_struct [OF assms(1,2)] key_holds_present [OF assms(1-3)] by simp_all
  moreover have "ld16 (ports_key f) 0 = Some (tp_src f)" "ld16 (ports_key f) 2 = Some (tp_dst f)"
    by (simp_all add: ports_key_def) (simp add: ld16_def be16_bytes_def nth_append)
  moreover have "(strip_l4 f)\<lparr>tp_src := tp_src f, tp_dst := tp_dst f\<rparr> = f" using assms(4,5) by (cases f) (simp add: strip_l4_def arp_zero_def)
  ultimately show ?thesis by (simp add: parse_ports_def expect_def)
qed

lemma icmp_byte: "ntohs x < 0x100 \<Longrightarrow> htons (ucast (ucast (ntohs x) :: u8)) = x"
proof -
  assume "ntohs x < 0x100"
  then have "unat (ntohs x) < 256" by (simp add: word_less_nat_alt)
  then have "ucast (ucast (ntohs x) :: u8) = ntohs x" by (intro unat_eqI) (simp add: unsigned_ucast_eq take_bit_eq_mod unat_mod_distrib)
  then show ?thesis by simp
qed

lemma parse_icmp_ok:
  assumes "key_holds m k as" "(t, icmp_key f) \<in> set as" "unat t < 64" "icmp_ok f"
  shows "parse_icmp m k e (strip_l4 f) None (unat t) = Some (e OR attr_bit (unat t), (strip_l4 f)\<lparr>tp_src := tp_src f, tp_dst := tp_dst f\<rparr>, unat t)"
proof -
  have "key_struct m k (unat t) 2 = Some (icmp_key f)" "present k (unat t)"
    using key_holds_struct [OF assms(1,2)] key_holds_present [OF assms(1-3)] by simp_all
  then show ?thesis using assms(4) icmp_byte by (simp add: parse_icmp_def expect_def icmp_key_def icmp_ok_def)
qed

lemma parse_nd_ok:
  assumes "key_holds m k as" "set (opt (is_nd f) (14, nd_key f)) \<subseteq> set as"
    and "if is_nd f then length (nd_target f) = 16 \<and> length (arp_sha f) = 6 \<and> length (arp_tha f) = 6 else nd_target f = zeros 16 \<and> arp_zero f"
  shows "parse_nd m k e ((strip_l4 f)\<lparr>tp_src := tp_src f, tp_dst := tp_dst f\<rparr>) None = Some (Some (e OR types_mask (opt (is_nd f) (14, nd_key f)), f))"
proof -
  let ?g = "(strip_l4 f)\<lparr>tp_src := tp_src f, tp_dst := tp_dst f\<rparr>"
  have nd: "is_nd ?g = is_nd f" by (simp add: is_nd_def)
  show ?thesis
  proof (cases "is_nd f")
    case True
    then have l: "length (nd_target f) = 16" "length (arp_sha f) = 6" "length (arp_tha f) = 6" using assms(3) by auto
    have d: "(14, nd_key f) \<in> set as" using assms(2) True by (simp add: opt_def)
    have n: "length (nd_key f) = 28" using l by (simp add: nd_key_def)
    have "key_struct m k 14 28 = Some (nd_key f)" "present k 14"
      using key_holds_struct [OF assms(1) d] key_holds_present [OF assms(1) d] n by simp_all
    moreover have "take 16 (nd_key f) = nd_target f" "take 6 (drop 16 (nd_key f)) = arp_sha f" "take 6 (drop 22 (nd_key f)) = arp_tha f"
      using l by (simp_all add: nd_key_def)
    moreover have "?g\<lparr>nd_target := nd_target f, arp_sha := arp_sha f, arp_tha := arp_tha f\<rparr> = f" by (cases f) (simp add: strip_l4_def)
    ultimately show ?thesis using True nd by (simp add: parse_nd_def expect_def opt_def Let_def)
  next
    case False
    then have "?g = f" using assms(3) by (cases f) (simp add: strip_l4_def arp_zero_def)
    then show ?thesis using False nd by (simp add: parse_nd_def opt_def)
  qed
qed

lemma protos [simp]: "IPPROTO_TCP \<noteq> IPPROTO_UDP" "IPPROTO_UDP \<noteq> IPPROTO_TCP" "IPPROTO_TCP \<noteq> IPPROTO_SCTP" "IPPROTO_SCTP \<noteq> IPPROTO_TCP"
  "IPPROTO_UDP \<noteq> IPPROTO_SCTP" "IPPROTO_SCTP \<noteq> IPPROTO_UDP" "IPPROTO_ICMP \<noteq> IPPROTO_TCP" "IPPROTO_ICMP \<noteq> IPPROTO_UDP" "IPPROTO_ICMP \<noteq> IPPROTO_SCTP"
  "IPPROTO_ICMPV6 \<noteq> IPPROTO_TCP" "IPPROTO_ICMPV6 \<noteq> IPPROTO_UDP" "IPPROTO_ICMPV6 \<noteq> IPPROTO_SCTP" "IPPROTO_ICMP \<noteq> IPPROTO_ICMPV6"
  by (simp_all add: key_consts IPPROTO_SCTP_def IPPROTO_ICMPV6_def)

lemma parse_l4_ok:
  assumes k: "key_holds m k as" "set (l4_attrs f) \<subseteq> set as" and f: "inner_ok f" "is_ip_any f"
  shows "\<exists>b. parse_l4 m k e (strip_l4 f) None = Some (Some (e OR types_mask (l4_attrs f), f, b))"
proof -
  let ?l = "nw_frag f AND FLOW_NW_FRAG_LATER = 0"
  have plain: "strip_l4 f = f" if "l4_zero f" "nd_target f = zeros 16" "arp_zero f"
    using that by (cases f) (simp add: strip_l4_def l4_zero_def arp_zero_def)
  have net: "dl_type f = htons ETH_TYPE_IP \<Longrightarrow> nd_target f = zeros 16 \<and> arp_zero f" using f(1) by (simp add: inner_ok_def v6_zero_def)
  consider (ports) "?l" "ports_proto f" | (icmp) "?l" "dl_type f = htons ETH_TYPE_IP" "nw_proto f = IPPROTO_ICMP"
    | (icmp6) "?l" "dl_type f = htons ETH_TYPE_IPV6" "nw_proto f = IPPROTO_ICMPV6"
    | (none) "\<not> ?l \<or> \<not> ports_proto f" "\<not> (?l \<and> dl_type f = htons ETH_TYPE_IP \<and> nw_proto f = IPPROTO_ICMP)"
        "\<not> (?l \<and> dl_type f = htons ETH_TYPE_IPV6 \<and> nw_proto f = IPPROTO_ICMPV6)" by blast
  then show ?thesis
  proof cases
    case ports
    then have z: "nd_target f = zeros 16" "arp_zero f" using f net by (auto simp: inner_ok_def is_ip_any_def)
    note p = parse_ports_ok [OF k(1) _ _ z]
    show ?thesis using ports f(2) k(2) p [of 9 e] p [of 10 e] p [of 17 e] by (auto simp: ports_proto_def parse_l4_def l4_attrs_def Let_def)
  next
    case icmp
    then have z: "nd_target f = zeros 16" "arp_zero f" "icmp_ok f" using f net by (auto simp: inner_ok_def ports_proto_def)
    have "(strip_l4 f)\<lparr>tp_src := tp_src f, tp_dst := tp_dst f\<rparr> = f" using z by (cases f) (simp add: strip_l4_def arp_zero_def)
    then show ?thesis using icmp f(2) k(2) parse_icmp_ok [OF k(1) _ _ z(3), of 11 e] by (auto simp: parse_l4_def l4_attrs_def Let_def)
  next
    case icmp6
    then have z: "icmp_ok f" "if is_nd f then length (nd_target f) = 16 \<and> length (arp_sha f) = 6 \<and> length (arp_tha f) = 6 else nd_target f = zeros 16 \<and> arp_zero f"
      using f by (auto simp: inner_ok_def ports_proto_def)
    have a: "(12, icmp_key f) \<in> set as" "set (opt (is_nd f) (14, nd_key f)) \<subseteq> set as"
      using k(2) icmp6 f(2) by (auto simp: l4_attrs_def)
    show ?thesis using icmp6 f(2) parse_icmp_ok [OF k(1) a(1) _ z(1), of e] parse_nd_ok [OF k(1) a(2) z(2), of "e OR attr_bit 12"]
      by (auto simp: parse_l4_def l4_attrs_def Let_def or.assoc)
  next
    case none
    then have "l4_zero f" "nd_target f = zeros 16" "arp_zero f" using f net by (auto simp: inner_ok_def is_ip_any_def split: if_splits)
    with plain have p: "strip_l4 f = f" by blast
    show ?thesis
    proof (cases ?l)
      case True
      then have "nw_proto f \<noteq> IPPROTO_TCP" "nw_proto f \<noteq> IPPROTO_UDP" "nw_proto f \<noteq> IPPROTO_SCTP"
        "dl_type f = htons ETH_TYPE_IP \<Longrightarrow> nw_proto f \<noteq> IPPROTO_ICMP" "dl_type f = htons ETH_TYPE_IPV6 \<Longrightarrow> nw_proto f \<noteq> IPPROTO_ICMPV6"
        using none by (auto simp: ports_proto_def)
      then have "l4_attrs f = []" "parse_l4 m k e f None = Some (Some (e, f, 0))" by (auto simp: parse_l4_def l4_attrs_def Let_def)
      then show ?thesis unfolding p by simp
    next
      case False
      then show ?thesis unfolding p by (simp add: parse_l4_def l4_attrs_def Let_def)
    qed
  qed
qed

text \<open>The layers above Ethernet, when the attributes of the flow are present beside those in \<open>E\<close>.\<close>

lemma parse_l2_5_ok:
  assumes k: "key_holds m k as" "set (inner_attrs f) \<subseteq> set as" "types_mask as = E OR types_mask (inner_attrs f)"
    and f: "inner_ok f" "ETH_TYPE_MIN \<le> ntohs (dl_type f)" and n62: "mpls_depth f = 0 \<Longrightarrow> \<not> present k 62"
  shows "parse_l2_5_onward m k (E OR attr_bit 6) (strip_l3 f) None = Some (key_fit f, f)"
proof -
  let ?rest = "l3_attrs f @ opt (mpls_depth f \<noteq> 0) (62, be32_bytes (mpls_lse f)) @ l4_attrs f"
  have i: "inner_attrs f = (6, be16_bytes (dl_type f)) # ?rest" using f(2) by (simp add: inner_attrs_def not_less)
  have sub: "set ?rest \<subseteq> set as" using k(2) i by auto
  have e: "types_mask as = (E OR attr_bit 6) OR types_mask ?rest" using k(3) by (simp add: i or.assoc)
  note perfect = check_perfect [OF k(1)]
  consider (ip) "is_ip_any f" | (arp) "dl_type f = htons ETH_TYPE_ARP \<or> dl_type f = htons ETH_TYPE_RARP" | (mpls) "eth_type_mpls (dl_type f)"
    | (other) "\<not> is_ip_any f" "dl_type f \<noteq> htons ETH_TYPE_ARP" "dl_type f \<noteq> htons ETH_TYPE_RARP" "\<not> eth_type_mpls (dl_type f)" by blast
  then show ?thesis
  proof cases
    case ip
    then have d: "mpls_depth f = 0" using f(1) by (auto simp: inner_ok_def is_ip_any_def)
    have 3: "parse_l3 m k (E OR attr_bit 6) (strip_l3 f) None = Some (L3_NEXT ((E OR attr_bit 6) OR types_mask (l3_attrs f)) (strip_l4 f) [] no_bit)"
      using ip sub parse_ipv4_ok [OF k(1) _ _ f(1), of "E OR attr_bit 6"] parse_ipv6_ok [OF k(1) _ _ f(1), of "E OR attr_bit 6"]
      by (auto simp: is_ip_any_def l3_attrs_def)
    have s4: "set (l4_attrs f) \<subseteq> set as" using sub by simp
    from parse_l4_ok [OF k(1) s4 f(1) ip, of "(E OR attr_bit 6) OR types_mask (l3_attrs f)"] obtain b where
      4: "parse_l4 m k ((E OR attr_bit 6) OR types_mask (l3_attrs f)) (strip_l4 f) None =
        Some (Some (((E OR attr_bit 6) OR types_mask (l3_attrs f)) OR types_mask (l4_attrs f), f, b))" by blast
    have "key_fit f = ODP_FIT_PERFECT" using ip by (auto simp: key_fit_def is_ip_any_def)
    then show ?thesis using 3 4 perfect e d by (simp add: parse_l2_5_onward_def opt_def or.assoc)
  next
    case arp
    then have n: "\<not> is_ip_any f" "mpls_depth f = 0" using f(1) by (auto simp: inner_ok_def is_ip_any_def)
    then have l: "l3_attrs f = [(13, arp_key f)]" "l4_attrs f = []" using arp by (auto simp: l3_attrs_def l4_attrs_def)
    have "parse_l3 m k (E OR attr_bit 6) (strip_l3 f) None = Some (L3_NEXT ((E OR attr_bit 6) OR attr_bit 13) f [] no_bit)"
      using parse_arp_ok [OF k(1) _ arp f(1)] sub l by simp
    moreover have "parse_l4 m k ((E OR attr_bit 6) OR attr_bit 13) f None = Some (Some ((E OR attr_bit 6) OR attr_bit 13, f, 0))"
      using n(1) arp by (auto simp: parse_l4_def Let_def)
    moreover have "key_fit f = ODP_FIT_PERFECT" using arp by (auto simp: key_fit_def)
    ultimately show ?thesis using perfect e l n(2) by (simp add: parse_l2_5_onward_def opt_def)
  next
    case mpls
    then have t: "dl_type f \<noteq> htons ETH_TYPE_IP" "dl_type f \<noteq> htons ETH_TYPE_IPV6" "dl_type f \<noteq> htons ETH_TYPE_ARP" "dl_type f \<noteq> htons ETH_TYPE_RARP" by auto
    then have n: "\<not> is_ip_any f" by (simp add: is_ip_any_def)
    then have l: "l3_attrs f = []" "l4_attrs f = []" using t by (simp_all add: l3_attrs_def l4_attrs_def)
    show ?thesis
    proof (cases "mpls_depth f = 1")
      case True
      then show ?thesis using parse_mpls_ok [OF k(1) _ mpls True f(1), of "E OR attr_bit 6"] sub l perfect e
        by (simp add: parse_l2_5_onward_def opt_def key_fit_def)
    next
      case False
      then have d: "mpls_depth f = 0" using f(1) t by (simp add: inner_ok_def)
      then show ?thesis using parse_mpls_none [OF mpls d f(1) n62 [OF d]] mpls by (simp add: parse_l2_5_onward_def key_fit_def)
    qed
  next
    case other
    then have t: "dl_type f \<noteq> htons ETH_TYPE_IP" "dl_type f \<noteq> htons ETH_TYPE_IPV6" by (auto simp: is_ip_any_def)
    then have l: "l3_attrs f = []" "l4_attrs f = []" "mpls_depth f = 0" using other f(1) by (auto simp: l3_attrs_def l4_attrs_def inner_ok_def)
    show ?thesis using parse_other_ok [OF t other(2-4) f(1)] perfect e l other(4) by (simp add: parse_l2_5_onward_def opt_def key_fit_def)
  qed
qed

lemma dl_type_none: "ntohs (htons FLOW_DL_TYPE_NONE) < ETH_TYPE_MIN" "htons FLOW_DL_TYPE_NONE \<noteq> htons ETH_TYPE_IP"
  "htons FLOW_DL_TYPE_NONE \<noteq> htons ETH_TYPE_IPV6" "htons FLOW_DL_TYPE_NONE \<noteq> htons ETH_TYPE_ARP" "htons FLOW_DL_TYPE_NONE \<noteq> htons ETH_TYPE_RARP"
  "\<not> eth_type_mpls (htons FLOW_DL_TYPE_NONE)" "htons FLOW_DL_TYPE_NONE \<noteq> htons ETH_TYPE_VLAN"
  by (simp_all add: FLOW_DL_TYPE_NONE_def ETH_TYPE_MIN_def ETH_TYPE_IP_def ETH_TYPE_IPV6_def ETH_TYPE_ARP_def ETH_TYPE_RARP_def eth_type_mpls_def
      ETH_TYPE_MPLS_def ETH_TYPE_MPLS_MCAST_def ETH_TYPE_VLAN_def)

lemma eth_type_vlan: "htons ETH_TYPE_VLAN \<noteq> htons ETH_TYPE_IP" "htons ETH_TYPE_VLAN \<noteq> htons ETH_TYPE_IPV6" "htons ETH_TYPE_VLAN \<noteq> htons ETH_TYPE_ARP"
  "htons ETH_TYPE_VLAN \<noteq> htons ETH_TYPE_RARP" "\<not> eth_type_mpls (htons ETH_TYPE_VLAN)"
  by (simp_all add: ETH_TYPE_IP_def ETH_TYPE_IPV6_def ETH_TYPE_ARP_def ETH_TYPE_RARP_def eth_type_mpls_def ETH_TYPE_MPLS_def ETH_TYPE_MPLS_MCAST_def ETH_TYPE_VLAN_def)

lemma parse_inner_ok:
  assumes k: "key_holds m k as" "set (inner_attrs f) \<subseteq> set as" "types_mask as = E OR types_mask (inner_attrs f)"
    and f: "inner_ok f" "dl_type f = htons FLOW_DL_TYPE_NONE \<or> ETH_TYPE_MIN \<le> ntohs (dl_type f)"
    and g: "g\<lparr>dl_type := dl_type f\<rparr> = strip_l3 f" "dl_type f = htons FLOW_DL_TYPE_NONE \<Longrightarrow> \<not> present k 6"
    and n62: "mpls_depth f = 0 \<Longrightarrow> \<not> present k 62"
  shows "\<exists>e. parse_ethertype m k E g None = Some (True, e, strip_l3 f) \<and> parse_l2_5_onward m k e (strip_l3 f) None = Some (key_fit f, f)"
proof (cases "dl_type f = htons FLOW_DL_TYPE_NONE")
  case True
  then have "inner_attrs f = []" using dl_type_none(1) by (simp add: inner_attrs_def)
  then have "types_mask as = E" using k(3) by simp
  then have "parse_l2_5_onward m k E (strip_l3 f) None = Some (key_fit f, f)"
    using parse_other_ok [of f m k E] check_perfect [OF k(1)] True dl_type_none f(1) by (simp add: parse_l2_5_onward_def key_fit_def)
  then show ?thesis using True g by (simp add: parse_ethertype_def)
next
  case False
  then have t: "ETH_TYPE_MIN \<le> ntohs (dl_type f)" using f(2) by simp
  then have a: "(6, be16_bytes (dl_type f)) \<in> set as" using k(2) by (auto simp: inner_attrs_def)
  obtain x where x: "ka_attrs k 6 = Some x" "attr_at m x 6 (be16_bytes (dl_type f))" using key_holds_get [OF k(1) a] by auto
  have "parse_ethertype m k E g None = Some (True, E OR attr_bit 6, strip_l3 f)"
    using key_holds_present [OF k(1) a] x attr_at_values(2) [OF x(2)] t g(1) by (simp add: parse_ethertype_def Let_def not_less)
  then show ?thesis using parse_l2_5_ok [OF k f(1) t n62] by blast
qed

subsection \<open>The attributes of a well-formed flow\<close>

lemma key_lens:
  assumes "inner_ok f"
  shows "dl_type f = htons ETH_TYPE_IPV6 \<Longrightarrow> length (ipv6_key False f) = 40"
    "dl_type f = htons ETH_TYPE_ARP \<or> dl_type f = htons ETH_TYPE_RARP \<Longrightarrow> length (arp_key f) = 24"
    "dl_type f = htons ETH_TYPE_IPV6 \<Longrightarrow> nw_frag f AND FLOW_NW_FRAG_LATER = 0 \<Longrightarrow> nw_proto f = IPPROTO_ICMPV6 \<Longrightarrow> is_nd f \<Longrightarrow> length (nd_key f) = 28"
    "length (ipv6_src f) = 16" "length (ipv6_dst f) = 16"
proof -
  show v6: "length (ipv6_src f) = 16" "length (ipv6_dst f) = 16" using assms by (auto simp: inner_ok_def v6_zero_def zeros_def split: if_splits)
  then show "dl_type f = htons ETH_TYPE_IPV6 \<Longrightarrow> length (ipv6_key False f) = 40" by (simp add: ipv6_key_def)
  show "dl_type f = htons ETH_TYPE_ARP \<or> dl_type f = htons ETH_TYPE_RARP \<Longrightarrow> length (arp_key f) = 24"
    using assms by (auto simp: inner_ok_def arp_key_def)
  show "length (nd_key f) = 28" if "dl_type f = htons ETH_TYPE_IPV6" "nw_frag f AND FLOW_NW_FRAG_LATER = 0" "nw_proto f = IPPROTO_ICMPV6" "is_nd f"
  proof -
    have "\<not> ports_proto f" using that(3) by (simp add: ports_proto_def)
    then have "length (nd_target f) = 16" "length (arp_sha f) = 6" "length (arp_tha f) = 6" using assms that by (simp_all add: inner_ok_def)
    then show ?thesis by (simp add: nd_key_def)
  qed
qed

lemma short_key_attr: "length d = n \<Longrightarrow> n \<le> 40 \<Longrightarrow> unat t \<le> 62 \<Longrightarrow> odp_flow_key_attr_len (unat t) = int n \<Longrightarrow> key_attr_ok (t, d) \<and> length d \<le> 40"
  using fits_short [of d] by (simp add: key_attr_ok_def)

lemma inner_attrs_ok:
  assumes "inner_ok f" "(t, d) \<in> set (inner_attrs f)"
  shows "key_attr_ok (t, d) \<and> length d \<le> 40"
proof -
  note l = key_lens [OF assms(1)]
  consider "t = 6" "d = be16_bytes (dl_type f)" | "t = 62" "d = be32_bytes (mpls_lse f)" | "(t, d) \<in> set (l3_attrs f)" | "(t, d) \<in> set (l4_attrs f)"
    using assms(2) by (auto simp: inner_attrs_def opt_def split: if_splits)
  then show ?thesis
  proof cases
    case 1 then show ?thesis by (intro short_key_attr [of _ 2]) (simp_all add: be16_bytes_def odp_flow_key_attr_len_def)
  next
    case 2 then show ?thesis by (intro short_key_attr [of _ 4]) (simp_all add: odp_flow_key_attr_len_def)
  next
    case 3
    then have "t = 7 \<and> length d = 12 \<or> t = 8 \<and> length d = 40 \<or> t = 13 \<and> length d = 24" using l by (auto simp: l3_attrs_def split: if_splits)
    then show ?thesis by (elim disjE conjE) (rule short_key_attr; simp add: odp_flow_key_attr_len_def)+
  next
    case 4
    then have "(t = 9 \<or> t = 10 \<or> t = 17) \<and> length d = 4 \<or> (t = 11 \<or> t = 12) \<and> length d = 2 \<or> t = 14 \<and> length d = 28"
      using l(3) by (auto simp: l4_attrs_def opt_def split: if_splits)
    then show ?thesis by (elim disjE conjE) (rule short_key_attr; simp add: odp_flow_key_attr_len_def)+
  qed
qed

lemma inner_types: "fst ` set (inner_attrs f) \<subseteq> {6, 7, 8, 9, 10, 11, 12, 13, 14, 17, 62}"
  by (auto simp: inner_attrs_def l3_attrs_def l4_attrs_def opt_def split: if_splits)

lemma inner_distinct: "distinct (map fst (inner_attrs f))"
proof -
  have 3: "map fst (l3_attrs f) \<in> {[], [7], [8], [13]}" by (simp add: l3_attrs_def)
  have 4: "map fst (l4_attrs f) \<in> {[], [9], [10], [17], [11], [12], [12, 14]}" by (simp add: l4_attrs_def opt_def)
  have "map fst (inner_attrs f) = (if ntohs (dl_type f) < ETH_TYPE_MIN then [] else
    6 # map fst (l3_attrs f) @ (if mpls_depth f \<noteq> 0 then [62] else []) @ map fst (l4_attrs f))" by (simp add: inner_attrs_def opt_def)
  then show ?thesis using 3 4 by (elim insertE emptyE) simp_all
qed

lemma no_mpls_attr: "mpls_depth f = 0 \<Longrightarrow> 62 \<notin> unat ` fst ` set (inner_attrs f)"
  by (auto simp: inner_attrs_def l3_attrs_def l4_attrs_def opt_def split: if_splits)

lemma inner_length: "length (inner_attrs f) \<le> 5"
  by (simp add: inner_attrs_def l3_attrs_def l4_attrs_def opt_def)

lemma length_attrs_bytes: "\<forall>(t, d) \<in> set as. length d \<le> 40 \<Longrightarrow> length (attrs_bytes as) \<le> 44 * length as"
proof (induction as)
  case (Cons x as)
  have "(length (snd x) + 3) div 4 * 4 \<le> 40" using Cons.prems by (auto simp: split_def)
  then show ?case using Cons by (auto simp: NLMSG_ALIGN_def nl_consts)
qed simp

lemma encap_fits: "inner_ok f \<Longrightarrow> fits_attr (attrs_bytes (if vlan_tci f = 0 then [] else inner_attrs f))"
proof -
  assume "inner_ok f"
  then have "length (attrs_bytes (inner_attrs f)) \<le> 44 * length (inner_attrs f)" using inner_attrs_ok by (intro length_attrs_bytes) blast
  then have "length (attrs_bytes (inner_attrs f)) \<le> 220" using inner_length [of f] by linarith
  then have "(7 + length (attrs_bytes (inner_attrs f))) div 4 * 4 \<le> 227"
    using div_times_less_eq_dividend [of "7 + length (attrs_bytes (inner_attrs f))" 4] by linarith
  then show ?thesis by (auto simp: NLMSG_ALIGN_def nl_consts)
qed

lemma tun_attrs_length: "length (attrs_bytes (tun_attrs t)) \<le> 308"
proof -
  have "length (attrs_bytes (tun_attrs t)) \<le> 44 * length (tun_attrs t)"
    by (rule length_attrs_bytes) (auto simp: tun_attrs_def opt_def split: if_splits)
  moreover have "length (tun_attrs t) \<le> 7" by (simp add: tun_attrs_def opt_def)
  ultimately show ?thesis by linarith
qed

text \<open>The attributes of the metadata and the Ethernet header, and those of what follows.\<close>

definition meta_attrs :: "flow \<Rightarrow> u32 \<Rightarrow> (u16 \<times> bytes) list" where
  "meta_attrs f port = (2, be32_bytes (skb_priority f)) # opt (tun_ip_dst (tunnel f) \<noteq> 0) (16, attrs_bytes (tun_attrs (tunnel f))) @
     [(15, be32_bytes (pkt_mark f))] @ opt (port \<noteq> ODPP_NONE) (3, be32_bytes port) @ [(4, take 6 (dl_src f) @ take 6 (dl_dst f))]"

definition outer_attrs :: "flow \<Rightarrow> (u16 \<times> bytes) list" where
  "outer_attrs f = (if vlan_tci f \<noteq> 0 \<or> dl_type f = htons ETH_TYPE_VLAN then vlan_attrs f else inner_attrs f)"

lemma flow_attrs_split: "flow_attrs f port = meta_attrs f port @ outer_attrs f"
  by (simp add: flow_attrs_def meta_attrs_def outer_attrs_def)

lemma meta_types: "fst ` set (meta_attrs f port) \<subseteq> {2, 3, 4, 15, 16}"
  by (auto simp: meta_attrs_def opt_def)

lemma outer_types: "fst ` set (outer_attrs f) \<subseteq> {1, 5, 6, 7, 8, 9, 10, 11, 12, 13, 14, 17, 62}"
proof -
  have "fst ` set (vlan_attrs f) \<subseteq> {1, 5, 6}" by (auto simp: vlan_attrs_def)
  then show ?thesis using inner_types [of f] by (auto simp: outer_attrs_def)
qed

lemma flow_attrs_distinct: "distinct (map fst (flow_attrs f port))"
proof -
  have "distinct (map fst (meta_attrs f port))" by (auto simp: meta_attrs_def opt_def)
  moreover have "distinct (map fst (outer_attrs f))" using inner_distinct by (simp add: outer_attrs_def vlan_attrs_def)
  moreover have "{2, 3, 4, 15, 16} \<inter> {1, 5, 6, 7, 8, 9, 10, 11, 12, 13, 14, 17, 62 :: u16} = {}" by simp
  then have "fst ` set (meta_attrs f port) \<inter> fst ` set (outer_attrs f) = {}" using Int_mono [OF meta_types [of f port] outer_types [of f]] by simp
  ultimately show ?thesis by (simp add: flow_attrs_split)
qed

lemma flow_attrs_ok:
  assumes "flow_ok f" "x \<in> set (flow_attrs f port)"
  shows "key_attr_ok x"
proof -
  have f: "inner_ok f" "length (dl_src f) = 6" "length (dl_dst f) = 6" using assms(1) by (auto simp: flow_ok_def)
  obtain t d where x: "x = (t, d)" by (cases x)
  have nested: "key_attr_ok (16, d)" if "length d \<le> 308" for d
    using that div_times_less_eq_dividend [of "length d + 7" 4] by (simp add: key_attr_ok_def odp_flow_key_attr_len_def NLMSG_ALIGN_def nl_consts)
  consider "t = 16" "d = attrs_bytes (tun_attrs (tunnel f))" | "(t = 2 \<or> t = 15 \<or> t = 3) \<and> length d = 4 \<or> t = 4 \<and> length d = 12 \<or> (t = 5 \<or> t = 6) \<and> length d = 2"
    | "t = 1" "d = attrs_bytes (if vlan_tci f = 0 then [] else inner_attrs f)" | "(t, d) \<in> set (inner_attrs f)"
    using assms(2) unfolding x flow_attrs_split set_append
  proof (elim UnE)
    assume "(t, d) \<in> set (meta_attrs f port)"
    then have "t = 16 \<and> d = attrs_bytes (tun_attrs (tunnel f)) \<or> (t = 2 \<or> t = 15 \<or> t = 3) \<and> length d = 4 \<or> t = 4 \<and> length d = 12"
      using f(2,3) by (auto simp: meta_attrs_def opt_def split: if_splits)
    then show thesis using that by blast
  next
    assume "(t, d) \<in> set (outer_attrs f)"
    then have "(t, d) \<in> set (inner_attrs f) \<or> (t, d) \<in> set (vlan_attrs f)" by (simp add: outer_attrs_def split: if_splits)
    moreover have "(t, d) \<in> set (vlan_attrs f) \<Longrightarrow> (t = 5 \<or> t = 6) \<and> length d = 2 \<or> t = 1 \<and> d = attrs_bytes (if vlan_tci f = 0 then [] else inner_attrs f)"
      by (auto simp: vlan_attrs_def be16_bytes_def)
    ultimately show thesis using that by blast
  qed
  then show ?thesis
  proof cases
    case 1 then show ?thesis using nested [OF tun_attrs_length] x by simp
  next
    case 2 then show ?thesis unfolding x by (elim disjE conjE) (rule short_key_attr [THEN conjunct1]; simp add: odp_flow_key_attr_len_def)+
  next
    case 3 then show ?thesis using encap_fits [OF f(1)] x by (simp add: key_attr_ok_def odp_flow_key_attr_len_def)
  next
    case 4 then show ?thesis using inner_attrs_ok [OF f(1)] x by blast
  qed
qed

definition meta_flow :: "flow \<Rightarrow> u32 \<Rightarrow> flow" where
  "meta_flow f port = zero_flow\<lparr>skb_priority := skb_priority f, pkt_mark := pkt_mark f, tunnel := tunnel f, fl_in_port := port,
     dl_src := dl_src f, dl_dst := dl_dst f\<rparr>"

lemma flow_absent: "key_holds m k (flow_attrs f port) \<Longrightarrow> n \<notin> unat ` fst ` set (flow_attrs f port) \<Longrightarrow> \<not> present k n"
  using key_holds_absent by (simp add: image_comp)

lemma parse_tunnel_ok:
  assumes k: "key_holds m k (flow_attrs f port)" and f: "flow_ok f" and g: "tunnel g = zero_tnl"
  shows "parse_tunnel m k e g = Some (ODP_FIT_PERFECT, e OR types_mask (opt (tun_ip_dst (tunnel f) \<noteq> 0) (16, attrs_bytes (tun_attrs (tunnel f)))),
    g\<lparr>tunnel := tunnel f\<rparr>)"
proof (cases "tun_ip_dst (tunnel f) = 0")
  case True
  then have "tunnel f = zero_tnl" using f by (simp add: flow_ok_def)
  then have "g\<lparr>tunnel := tunnel f\<rparr> = g" using g by (cases g) simp
  moreover have "16 \<notin> unat ` fst ` set (flow_attrs f port)" using True outer_types [of f] by (auto simp: flow_attrs_split meta_attrs_def opt_def image_iff)
  ultimately show ?thesis using flow_absent [OF k] True by (simp add: parse_tunnel_def opt_def)
next
  case False
  then have i: "(16, attrs_bytes (tun_attrs (tunnel f))) \<in> set (flow_attrs f port)" by (simp add: flow_attrs_def opt_def)
  obtain a where "ka_attrs k 16 = Some a" "attr_at m a 16 (attrs_bytes (tun_attrs (tunnel f)))" using key_holds_get [OF k i] by auto
  then show ?thesis using key_holds_present [OF k i] odp_tun_key_from_attr_ok [of m a 16 "tunnel f"] False g f
    by (simp add: parse_tunnel_def opt_def flow_ok_def)
qed

lemma parse_in_port_ok:
  assumes k: "key_holds m k (flow_attrs f port)"
  shows "parse_in_port m k e g None = Some (e OR types_mask (opt (port \<noteq> ODPP_NONE) (3, be32_bytes port)), g\<lparr>fl_in_port := port\<rparr>)"
proof (cases "port = ODPP_NONE")
  case True
  have "3 \<notin> unat ` fst ` set (flow_attrs f port)" using True outer_types [of f] by (auto simp: flow_attrs_split meta_attrs_def opt_def image_iff)
  then show ?thesis using flow_absent [OF k] True by (simp add: parse_in_port_def opt_def)
next
  case False
  then have i: "(3, be32_bytes port) \<in> set (flow_attrs f port)" by (simp add: flow_attrs_def opt_def)
  obtain a where "ka_attrs k 3 = Some a" "attr_at m a 3 (be32_bytes port)" using key_holds_get [OF k i] by auto
  then show ?thesis using key_holds_present [OF k i] attr_at_values(1) [of m a 3 port] False by (simp add: parse_in_port_def opt_def)
qed

lemma parse_meta_ok:
  assumes k: "key_holds m k (flow_attrs f port)" and f: "flow_ok f"
  shows "parse_meta m k zero_flow None = Some (Some (types_mask (meta_attrs f port), meta_flow f port), meta_flow f port)"
proof -
  have ok: "length (dl_src f) = 6" "length (dl_dst f) = 6" using f by (auto simp: flow_ok_def)
  have in2: "(2, be32_bytes (skb_priority f)) \<in> set (flow_attrs f port)" and in15: "(15, be32_bytes (pkt_mark f)) \<in> set (flow_attrs f port)"
    and in4: "(4, dl_src f @ dl_dst f) \<in> set (flow_attrs f port)" using ok by (auto simp: flow_attrs_def)
  obtain a2 where a2: "ka_attrs k 2 = Some a2" "attr_at m a2 2 (be32_bytes (skb_priority f))" using key_holds_get [OF k in2] by auto
  obtain a15 where a15: "ka_attrs k 15 = Some a15" "attr_at m a15 15 (be32_bytes (pkt_mark f))" using key_holds_get [OF k in15] by auto
  have p: "present k 2" "present k 15" "present k 4"
    using key_holds_present [OF k in2] key_holds_present [OF k in15] key_holds_present [OF k in4] by simp_all
  have eth: "key_struct m k 4 12 = Some (dl_src f @ dl_dst f)" using key_holds_struct [OF k in4] ok by simp
  have z: "tunnel (zero_flow\<lparr>skb_priority := skb_priority f, pkt_mark := pkt_mark f\<rparr>) = zero_tnl" by (simp add: zero_flow_def)
  have m: "types_mask (meta_attrs f port) = ((((attr_bit 2 OR attr_bit 15) OR types_mask (opt (tun_ip_dst (tunnel f) \<noteq> 0)
      (16, attrs_bytes (tun_attrs (tunnel f))))) OR types_mask (opt (port \<noteq> ODPP_NONE) (3, be32_bytes port))) OR attr_bit 4)"
    by (simp add: meta_attrs_def or.assoc or.commute or.left_commute del: power_numeral)
  show ?thesis using p a2 a15 attr_at_values(1) [OF a2(2)] attr_at_values(1) [OF a15(2)] eth ok
    unfolding parse_meta_def m meta_flow_def by (simp add: parse_tunnel_ok [OF k f] parse_in_port_ok [OF k] z del: power_numeral)
qed

subsection \<open>The whole key\<close>

lemma outer_vlan:
  assumes k: "key_holds m k (flow_attrs f port)" and v: "vlan_tci f \<noteq> 0 \<or> dl_type f = htons ETH_TYPE_VLAN"
  obtains a5 a1 where "ka_attrs k 5 = Some a5" "nl_attr_get_u16 m a5 = Some (vlan_tci f)" "present k 5"
    "ka_attrs k 1 = Some a1" "attr_at m a1 1 (attrs_bytes (if vlan_tci f = 0 then [] else inner_attrs f))" "present k 1"
proof -
  let ?as = "flow_attrs f port"
  have i: "(5, be16_bytes (vlan_tci f)) \<in> set ?as" "(1, attrs_bytes (if vlan_tci f = 0 then [] else inner_attrs f)) \<in> set ?as"
    using v by (auto simp: flow_attrs_split outer_attrs_def vlan_attrs_def)
  obtain a5 where a5: "ka_attrs k 5 = Some a5" "attr_at m a5 5 (be16_bytes (vlan_tci f))" using key_holds_get [OF k i(1)] by auto
  obtain a1 where a1: "ka_attrs k 1 = Some a1" "attr_at m a1 1 (attrs_bytes (if vlan_tci f = 0 then [] else inner_attrs f))"
    using key_holds_get [OF k i(2)] by auto
  have p: "present k 5" "present k 1" using key_holds_present [OF k i(1)] key_holds_present [OF k i(2)] by simp_all
  show thesis by (rule that [OF a5(1) attr_at_values(2) [OF a5(2)] p(1) a1 p(2)])
qed

lemma outer_ethertype:
  assumes k: "key_holds m k (flow_attrs f port)" and v: "vlan_tci f \<noteq> 0 \<or> dl_type f = htons ETH_TYPE_VLAN"
  shows "parse_ethertype m k E g None = Some (True, E OR attr_bit 6, g\<lparr>dl_type := htons ETH_TYPE_VLAN\<rparr>)"
proof -
  have i: "(6, be16_bytes (htons ETH_TYPE_VLAN)) \<in> set (flow_attrs f port)" using v by (auto simp: flow_attrs_split outer_attrs_def vlan_attrs_def)
  obtain a6 where a6: "ka_attrs k 6 = Some a6" "attr_at m a6 6 (be16_bytes (htons ETH_TYPE_VLAN))" using key_holds_get [OF k i] by auto
  have "ETH_TYPE_MIN \<le> ntohs (htons ETH_TYPE_VLAN)" by (simp add: ETH_TYPE_MIN_def ETH_TYPE_VLAN_def)
  then show ?thesis using key_holds_present [OF k i] a6(1) attr_at_values(2) [OF a6(2)] by (simp add: parse_ethertype_def Let_def not_less)
qed

lemma vlan_mask: "vlan_tci f \<noteq> 0 \<or> dl_type f = htons ETH_TYPE_VLAN \<Longrightarrow>
  types_mask (flow_attrs f port) = (types_mask (meta_attrs f port) OR attr_bit 6) OR attr_bit 5 OR attr_bit 1"
  by (simp add: flow_attrs_split outer_attrs_def vlan_attrs_def or.assoc del: power_numeral)

lemma to_flow_truncated:
  assumes k: "key_holds m k (flow_attrs f port)" and v: "dl_type f = htons ETH_TYPE_VLAN" "vlan_tci f = 0"
  shows "parse_8021q_onward m k (types_mask (meta_attrs f port) OR attr_bit 6) h None = Some (ODP_FIT_PERFECT, h)"
proof -
  from v have c: "vlan_tci f \<noteq> 0 \<or> dl_type f = htons ETH_TYPE_VLAN" by simp
  obtain a5 a1 where a: "ka_attrs k 5 = Some a5" "nl_attr_get_u16 m a5 = Some (vlan_tci f)" "present k 5"
    "ka_attrs k 1 = Some a1" "attr_at m a1 1 (attrs_bytes (if vlan_tci f = 0 then [] else inner_attrs f))" "present k 1" by (rule outer_vlan [OF k c])
  have n: "nl_attr_get_size m a1 = Some 0" using attr_at_get(2) [OF a(5)] v(2) by simp
  show ?thesis using a(1-4,6) n check_perfect [OF k] vlan_mask [OF c, of port] v by (simp add: parse_8021q_onward_def Let_def del: power_numeral)
qed

lemma to_flow_tagged:
  assumes k: "key_holds m k (flow_attrs f port)" and f: "flow_ok f" "vlan_tci f \<noteq> 0" and h: "h\<lparr>dl_type := dl_type f, vlan_tci := vlan_tci f\<rparr> = strip_l3 f"
  shows "parse_8021q_onward m k (types_mask (meta_attrs f port) OR attr_bit 6) h None = Some (key_fit f, f)"
proof -
  have ok: "inner_ok f" "dl_type f = htons FLOW_DL_TYPE_NONE \<or> ETH_TYPE_MIN \<le> ntohs (dl_type f)" "vlan_tci f AND htons VLAN_CFI \<noteq> 0"
    using f by (auto simp: flow_ok_def)
  from f(2) have c: "vlan_tci f \<noteq> 0 \<or> dl_type f = htons ETH_TYPE_VLAN" by simp
  obtain a5 a1 where a: "ka_attrs k 5 = Some a5" "nl_attr_get_u16 m a5 = Some (vlan_tci f)" "present k 5"
    "ka_attrs k 1 = Some a1" "attr_at m a1 1 (attrs_bytes (if vlan_tci f = 0 then [] else inner_attrs f))" "present k 1"
    by (rule outer_vlan [OF k c])
  then have a1: "attr_at m a1 1 (attrs_bytes (inner_attrs f))" using f(2) by simp
  obtain pre post where m: "m = pre @ attrs_bytes (inner_attrs f) @ post" "length pre = a1 + NLA_HDRLEN" by (rule attr_at_payload [OF a1])
  from parse_flow_nlattrs_ok [OF m(1) _ inner_distinct, of "ka_attrs k"] inner_attrs_ok [OF ok(1)] obtain k' where
    k': "parse_flow_nlattrs m (a1 + NLA_HDRLEN) (length (attrs_bytes (inner_attrs f))) (ka_attrs k) = Some (Some k')" "key_holds m k' (inner_attrs f)"
    using m(2) by fastforce
  let ?h = "h\<lparr>dl_type := 0, vlan_tci := vlan_tci f\<rparr>"
  have h': "?h\<lparr>dl_type := dl_type f\<rparr> = strip_l3 f" using h by (cases h) simp
  have no6: "dl_type f = htons FLOW_DL_TYPE_NONE \<Longrightarrow> \<not> present k' 6"
    using key_holds_absent [OF k'(2), of 6] dl_type_none(1) by (simp add: inner_attrs_def)
  have no62: "mpls_depth f = 0 \<Longrightarrow> \<not> present k' 62" using key_holds_absent [OF k'(2), of 62] no_mpls_attr [of f] by (simp add: image_comp)
  from parse_inner_ok [OF k'(2) subset_refl _ ok(1,2) h' no6 no62, of 0] obtain e where
    e: "parse_ethertype m k' 0 ?h None = Some (True, e, strip_l3 f)" "parse_l2_5_onward m k' e (strip_l3 f) None = Some (key_fit f, f)" by auto
  have "max ODP_FIT_PERFECT (key_fit f) = key_fit f" by (simp add: key_fit_def max_def less_eq_odp_key_fitness_def)
  then show ?thesis using a(1-4,6) attr_at_get(1,2) [OF a1] k'(1) e check_perfect [OF k] vlan_mask [OF c, of port] f(2) ok(3)
    by (simp add: parse_8021q_onward_def Let_def del: power_numeral)
qed

lemma to_flow_ok:
  assumes f: "flow_ok f" "fl_in_port f = port" and m: "m = pre @ attrs_bytes (flow_attrs f port) @ post"
  shows "odp_flow_key_to_flow m (length pre) (length (attrs_bytes (flow_attrs f port))) = Some (key_fit f, f)"
proof -
  let ?E = "types_mask (meta_attrs f port)" and ?g = "meta_flow f port"
  have ok: "inner_ok f" "dl_type f = htons FLOW_DL_TYPE_NONE \<or> ETH_TYPE_MIN \<le> ntohs (dl_type f)" using f(1) by (auto simp: flow_ok_def)
  have g: "?g\<lparr>dl_type := dl_type f, vlan_tci := vlan_tci f\<rparr> = strip_l3 f" "vlan_tci ?g = 0"
    using f by (cases f; simp add: meta_flow_def strip_l3_def zero_flow_def flow_ok_def)+
  from parse_flow_nlattrs_ok [OF m _ flow_attrs_distinct] flow_attrs_ok [OF f(1)] obtain k where
    k: "parse_flow_nlattrs m (length pre) (length (attrs_bytes (flow_attrs f port))) (\<lambda>_. None) = Some (Some k)" "key_holds m k (flow_attrs f port)"
    by blast
  note start = k(1) parse_meta_ok [OF k(2) f(1)]
  consider (tag) "vlan_tci f \<noteq> 0" | (trunc) "vlan_tci f = 0" "dl_type f = htons ETH_TYPE_VLAN" | (plain) "vlan_tci f = 0" "dl_type f \<noteq> htons ETH_TYPE_VLAN" by blast
  then show ?thesis
  proof cases
    case tag
    have "(?g\<lparr>dl_type := htons ETH_TYPE_VLAN\<rparr>)\<lparr>dl_type := dl_type f, vlan_tci := vlan_tci f\<rparr> = strip_l3 f" using g(1) by (cases ?g) simp
    from to_flow_tagged [OF k(2) f(1) tag this] show ?thesis
      using start outer_ethertype [OF k(2), of ?E ?g] tag by (simp add: odp_flow_key_to_flow_def odp_flow_key_to_flow_raw_def Let_def del: power_numeral)
  next
    case trunc
    have "strip_l3 f = f" by (rule strip_l3_other) (use trunc(2) ok(1) eth_type_vlan in simp_all)
    then have "?g\<lparr>dl_type := htons ETH_TYPE_VLAN\<rparr> = f" using g trunc by (cases ?g) simp
    moreover have "key_fit f = ODP_FIT_PERFECT" using trunc(2) eth_type_vlan by (simp add: key_fit_def)
    ultimately show ?thesis
      using start outer_ethertype [OF k(2), of ?E ?g] to_flow_truncated [OF k(2) trunc(2,1), of f] trunc
      by (simp add: odp_flow_key_to_flow_def odp_flow_key_to_flow_raw_def Let_def del: power_numeral)
  next
    case plain
    then have o: "outer_attrs f = inner_attrs f" by (simp add: outer_attrs_def)
    have "6 \<notin> unat ` fst ` set (meta_attrs f port)" by (auto simp: meta_attrs_def opt_def)
    then have no6: "dl_type f = htons FLOW_DL_TYPE_NONE \<Longrightarrow> \<not> present k 6"
      using flow_absent [OF k(2), of 6] dl_type_none(1) o by (simp add: flow_attrs_split inner_attrs_def)
    have "62 \<notin> unat ` fst ` set (meta_attrs f port)" by (auto simp: meta_attrs_def opt_def)
    then have no62: "mpls_depth f = 0 \<Longrightarrow> \<not> present k 62"
      using flow_absent [OF k(2), of 62] no_mpls_attr [of f] o by (simp add: flow_attrs_split image_Un)
    have "?g\<lparr>dl_type := dl_type f\<rparr> = strip_l3 f" using g plain(1) by (cases ?g) simp
    from parse_inner_ok [OF k(2) _ _ ok this no6 no62, of ?E] obtain e where
      "parse_ethertype m k ?E ?g None = Some (True, e, strip_l3 f)" "parse_l2_5_onward m k e (strip_l3 f) None = Some (key_fit f, f)"
      using o by (auto simp: flow_attrs_split)
    moreover have "dl_type (strip_l3 f) \<noteq> htons ETH_TYPE_VLAN" using plain(2) by (simp add: strip_l3_def)
    ultimately show ?thesis using start by (simp add: odp_flow_key_to_flow_def odp_flow_key_to_flow_raw_def Let_def del: power_numeral)
  qed
qed

section \<open>Arbitrary keys\<close>

text \<open>A loop over the bytes of any message stays inside of them.\<close>

lemma attr_loop_safe:
  assumes "nla + left \<le> length m" "I s"
    and "\<And>a t n s. I s \<Longrightarrow> attr_within m 0 (length m) a n \<Longrightarrow> \<exists>r. body a t n s = Some r \<and> (\<forall>s'. r = Some s' \<longrightarrow> I s')"
  shows "\<exists>ok left' s'. attr_loop m body nla left s = Some (ok, left', s') \<and> I s'"
  using assms(1,2)
proof (induction left arbitrary: nla s rule: less_induct)
  case (less left)
  obtain v where v: "nl_attr_is_valid m nla left = Some v" using nl_attr_is_valid_defined [OF less.prems(1)] by blast
  show ?case
  proof (cases v)
    case False
    then show ?thesis using v less.prems by (subst attr_loop.simps) auto
  next
    case True
    with v have valid: "nl_attr_is_valid m nla left = Some True" by simp
    from valid_within [OF valid less.prems(1)] obtain len t where a: "ld16 m nla = Some len" "nl_attr_type m nla = Some t"
      "attr_within m nla (nla + left) nla (unat len - NLA_HDRLEN)" "NLMSG_ALIGN (unat len) \<le> left" "0 < NLMSG_ALIGN (unat len)" .
    have w: "attr_within m 0 (length m) nla (unat len - NLA_HDRLEN)" "nl_attr_get_size m nla = Some (unat len - NLA_HDRLEN)"
      using a(3) less.prems(1) by (auto simp: attr_within_def)
    from assms(3) [OF less.prems(2) w(1), of "unat t"] obtain r where
      r: "body nla (unat t) (unat len - NLA_HDRLEN) s = Some r" "\<And>s'. r = Some s' \<Longrightarrow> I s'" by blast
    show ?thesis
    proof (cases r)
      case None
      then show ?thesis using valid a(1,2) w(2) r(1) less.prems(2) by (subst attr_loop.simps) auto
    next
      case (Some s')
      from less.IH [of "left - NLMSG_ALIGN (unat len)" "nla + NLMSG_ALIGN (unat len)" s'] a(4,5) less.prems(1) r(2) [OF Some]
      have "\<exists>ok left' s''. attr_loop m body (nla + NLMSG_ALIGN (unat len)) (left - NLMSG_ALIGN (unat len)) s' = Some (ok, left', s'') \<and> I s''" by simp
      then show ?thesis using valid a(1,2) w(2) r(1) Some by (subst attr_loop.simps) simp
    qed
  qed
qed

text \<open>The attributes present lie in the message and have the length of their type.\<close>

definition key_found :: "bytes \<Rightarrow> key_attrs \<Rightarrow> bool" where
  "key_found m k \<longleftrightarrow> (\<forall>t. present k t \<longrightarrow> (\<exists>a n. ka_attrs k t = Some a \<and> attr_within m 0 (length m) a n \<and>
     (odp_flow_key_attr_len t \<ge> 0 \<longrightarrow> int n = odp_flow_key_attr_len t)))"

lemma flow_attr_found:
  assumes "key_found m k" "attr_within m 0 (length m) a n" "flow_attr a t n k = Some (Some k')"
  shows "key_found m k'"
proof -
  have c: "\<not> (int n \<noteq> odp_flow_key_attr_len t \<and> odp_flow_key_attr_len t \<ge> 0)" using assms(3) by (auto simp: flow_attr_def split: if_splits)
  consider "k' = k\<lparr>ka_out_of_range := t\<rparr>" | "k' = k\<lparr>ka_present := ka_present k OR attr_bit t, ka_attrs := (ka_attrs k)(t := Some a)\<rparr>"
    using assms(3) by (auto simp: flow_attr_def split: if_splits)
  then show ?thesis
  proof cases
    case 2
    show ?thesis unfolding key_found_def
    proof (intro allI impI)
      fix t' assume p: "present k' t'"
      show "\<exists>a n. ka_attrs k' t' = Some a \<and> attr_within m 0 (length m) a n \<and> (odp_flow_key_attr_len t' \<ge> 0 \<longrightarrow> int n = odp_flow_key_attr_len t')"
      proof (cases "t' = t")
        case True then show ?thesis using 2 assms(2) c by auto
      next
        case False
        then have "present k t'" using p 2 by (auto simp: bit_or_iff bit_exp_iff)
        then show ?thesis using 2 False assms(1) by (simp add: key_found_def)
      qed
    qed
  qed (use assms(1) in \<open>simp add: key_found_def\<close>)
qed

lemma parse_flow_nlattrs_safe:
  assumes "key + key_len \<le> length m"
  shows "\<exists>r. parse_flow_nlattrs m key key_len attrs = Some r \<and> (\<forall>k. r = Some k \<longrightarrow> key_found m k)"
proof -
  let ?s = "\<lparr>ka_attrs = attrs, ka_present = 0, ka_out_of_range = 0\<rparr>"
  have 0: "key_found m ?s" by (simp add: key_found_def)
  have step: "\<exists>r. flow_attr a t n k = Some r \<and> (\<forall>k'. r = Some k' \<longrightarrow> key_found m k')" if "key_found m k" "attr_within m 0 (length m) a n" for a t n k
  proof -
    have "\<exists>r. flow_attr a t n k = Some r" by (simp add: flow_attr_def)
    then show ?thesis using flow_attr_found [OF that] by blast
  qed
  from attr_loop_safe [where I = "key_found m" and body = flow_attr, OF assms 0 step] obtain ok left k where "attr_loop m flow_attr key key_len ?s = Some (ok, left, k)" "key_found m k" by blast
  then show ?thesis by (simp add: parse_flow_nlattrs_def)
qed

lemma within_get:
  assumes "attr_within m 0 (length m) a n"
  shows "nl_attr_get m a = Some (a + NLA_HDRLEN)" "nl_attr_get_size m a = Some n" "a + NLA_HDRLEN + n \<le> length m"
    "n = 1 \<Longrightarrow> \<exists>v. nl_attr_get_u8 m a = Some v" "n = 2 \<Longrightarrow> \<exists>v. nl_attr_get_u16 m a = Some v"
    "n = 4 \<Longrightarrow> \<exists>v. nl_attr_get_u32 m a = Some v" "n = 8 \<Longrightarrow> \<exists>v. nl_attr_get_u64 m a = Some v"
proof -
  obtain len where len: "ld16 m a = Some len" "NLA_HDRLEN \<le> unat len" "n = unat len - NLA_HDRLEN"
    using assms by (auto simp: attr_within_def nl_attr_get_size_def split: Option.bind_splits if_splits)
  show h: "a + NLA_HDRLEN + n \<le> length m" "nl_attr_get m a = Some (a + NLA_HDRLEN)" "nl_attr_get_size m a = Some n"
    using assms len by (auto simp: attr_within_def nl_attr_get_def)
  have u: "nl_attr_get_unspec m a n = Some (a + NLA_HDRLEN)" using len by (simp add: nl_attr_get_unspec_def)
  show "n = 1 \<Longrightarrow> \<exists>v. nl_attr_get_u8 m a = Some v" "n = 2 \<Longrightarrow> \<exists>v. nl_attr_get_u16 m a = Some v"
    "n = 4 \<Longrightarrow> \<exists>v. nl_attr_get_u32 m a = Some v" "n = 8 \<Longrightarrow> \<exists>v. nl_attr_get_u64 m a = Some v"
    using u h(1) by (simp_all add: nl_attr_get_u8_def nl_attr_get_u16_def nl_attr_get_u32_def nl_attr_get_u64_def ld8_def ld16_def ld32_def)
qed

lemma found_get:
  assumes "key_found m k" "present k t"
  obtains a n where "ka_attrs k t = Some a" "attr_within m 0 (length m) a n" "odp_flow_key_attr_len t \<ge> 0 \<longrightarrow> int n = odp_flow_key_attr_len t"
  using assms unfolding key_found_def by blast

lemma found_struct: "key_found m k \<Longrightarrow> present k t \<Longrightarrow> odp_flow_key_attr_len t = int n \<Longrightarrow> \<exists>d. key_struct m k t n = Some d \<and> length d = n"
proof -
  assume k: "key_found m k" "present k t" and n: "odp_flow_key_attr_len t = int n"
  obtain a n' where a: "ka_attrs k t = Some a" "attr_within m 0 (length m) a n'" "odp_flow_key_attr_len t \<ge> 0 \<longrightarrow> int n' = odp_flow_key_attr_len t"
    by (rule found_get [OF k])
  then show ?thesis using n within_get(1,3) [OF a(2)] by (auto simp: key_struct_def ldn_def)
qed

lemma found_u16: "key_found m k \<Longrightarrow> present k t \<Longrightarrow> odp_flow_key_attr_len t = 2 \<Longrightarrow> \<exists>a v. ka_attrs k t = Some a \<and> nl_attr_get_u16 m a = Some v"
  by (elim found_get) (auto dest: within_get(5))

lemma found_u32: "key_found m k \<Longrightarrow> present k t \<Longrightarrow> odp_flow_key_attr_len t = 4 \<Longrightarrow> \<exists>a v. ka_attrs k t = Some a \<and> nl_attr_get_u32 m a = Some v"
  by (elim found_get) (auto dest: within_get(6))

lemma attr_lens [simp]:
  "odp_flow_key_attr_len 2 = 4" "odp_flow_key_attr_len 15 = 4" "odp_flow_key_attr_len 3 = 4" "odp_flow_key_attr_len 62 = 4"
  "odp_flow_key_attr_len 4 = 12" "odp_flow_key_attr_len 5 = 2" "odp_flow_key_attr_len 6 = 2" "odp_flow_key_attr_len 7 = 12"
  "odp_flow_key_attr_len 8 = 40" "odp_flow_key_attr_len 9 = 4" "odp_flow_key_attr_len 10 = 4" "odp_flow_key_attr_len 17 = 4"
  "odp_flow_key_attr_len 11 = 2" "odp_flow_key_attr_len 12 = 2" "odp_flow_key_attr_len 13 = 24" "odp_flow_key_attr_len 14 = 28"
  by (simp_all add: odp_flow_key_attr_len_def)

lemma ld_defined: "i + 4 \<le> length d \<Longrightarrow> \<exists>v. ld32 d i = Some v" "i + 2 \<le> length d \<Longrightarrow> \<exists>v. ld16 d i = Some v"
  by (simp_all add: ld32_def ld16_def)

lemma parse_l3_safe: "key_found m k \<Longrightarrow> \<exists>r. parse_l3 m k e g None = Some r"
proof -
  assume k: "key_found m k"
  have "\<exists>r. parse_mpls m k e g None = Some r" using found_u32 [OF k, of 62] by (auto simp: parse_mpls_def Let_def)
  moreover have "\<exists>r. parse_ipv4 m k e g None = Some r"
  proof (cases "present k 7")
    case True
    obtain d where d: "key_struct m k 7 12 = Some d" "length d = 12" using found_struct [OF k True, of 12] by auto
    obtain x y where "ld32 d 0 = Some x" "ld32 d 4 = Some y" using ld_defined(1) [of 0 d] ld_defined(1) [of 4 d] d(2) by auto
    then show ?thesis using True d(1) by (simp add: parse_ipv4_def Let_def)
  qed (simp add: parse_ipv4_def)
  moreover have "\<exists>r. parse_ipv6 m k e g None = Some r"
  proof (cases "present k 8")
    case True
    obtain d where d: "key_struct m k 8 40 = Some d" "length d = 40" using found_struct [OF k True, of 40] by auto
    obtain x where "ld32 d 32 = Some x" using ld_defined(1) [of 32 d] d(2) by auto
    then show ?thesis using True d(1) by (simp add: parse_ipv6_def Let_def)
  qed (simp add: parse_ipv6_def)
  moreover have "\<exists>r. parse_arp m k e g None = Some r"
  proof (cases "present k 13")
    case True
    obtain d where d: "key_struct m k 13 24 = Some d" "length d = 24" using found_struct [OF k True, of 24] by auto
    obtain x y z where "ld32 d 0 = Some x" "ld32 d 4 = Some y" "ld16 d 8 = Some z"
      using ld_defined(1) [of 0 d] ld_defined(1) [of 4 d] ld_defined(2) [of 8 d] d(2) by auto
    then show ?thesis using True d(1) by (simp add: parse_arp_def Let_def)
  qed (simp add: parse_arp_def)
  ultimately show ?thesis by (simp add: parse_l3_def Let_def)
qed

lemma parse_l4_safe: "key_found m k \<Longrightarrow> \<exists>r. parse_l4 m k e g None = Some r"
proof -
  assume k: "key_found m k"
  have ports: "\<exists>r. parse_ports m k e g None t = Some r" if t: "odp_flow_key_attr_len t = 4" for t
  proof (cases "present k t")
    case True
    obtain d where d: "key_struct m k t 4 = Some d" "length d = 4" using found_struct [OF k True, of 4] t by auto
    obtain x y where "ld16 d 0 = Some x" "ld16 d 2 = Some y" using ld_defined(2) [of 0 d] ld_defined(2) [of 2 d] d(2) by auto
    then show ?thesis using True d(1) by (simp add: parse_ports_def)
  qed (simp add: parse_ports_def)
  have icmp: "\<exists>r. parse_icmp m k e g None t = Some r" if "odp_flow_key_attr_len t = 2" for t
    using found_struct [OF k, of t 2] that by (auto simp: parse_icmp_def)
  have nd: "\<exists>r. parse_nd m k e' g' None = Some r" for e' g'
    using found_struct [OF k, of 14 28] by (auto simp: parse_nd_def Let_def)
  have "\<exists>r. Option.bind (parse_icmp m k e g None 12) (\<lambda>(e', g', bit). if bit = 0 then Some (Some (e', g', bit)) else Option.bind (parse_nd m k e' g' None)
    (\<lambda>r. Some (map_option (\<lambda>(e', g'). (e', g', bit)) r))) = Some r"
  proof -
    obtain e' g' b where i: "parse_icmp m k e g None 12 = Some (e', g', b)" using icmp [of 12] by auto
    obtain r where "parse_nd m k e' g' None = Some r" using nd by blast
    with i show ?thesis by (cases "b = 0") simp_all
  qed
  then show ?thesis using ports [of 9] ports [of 10] ports [of 17] icmp [of 11] unfolding parse_l4_def Let_def by (elim exE) (simp split del: if_split split: if_splits)
qed

lemma parse_l2_5_safe: "key_found m k \<Longrightarrow> \<exists>r. parse_l2_5_onward m k e g None = Some r"
proof -
  assume k: "key_found m k"
  obtain r where r: "parse_l3 m k e g None = Some r" using parse_l3_safe [OF k] by blast
  show ?thesis
  proof (cases r)
    case (L3_NEXT e' g' d t)
    obtain r' where "parse_l4 m k e' g' None = Some r'" using parse_l4_safe [OF k] by blast
    then show ?thesis using r L3_NEXT by (cases r') (auto simp: parse_l2_5_onward_def split: prod.splits)
  qed (use r in \<open>auto simp: parse_l2_5_onward_def\<close>)
qed

lemma parse_ethertype_safe: "key_found m k \<Longrightarrow> \<exists>r. parse_ethertype m k e g None = Some r"
  using found_u16 [of m k 6] by (cases "present k 6") (auto simp: parse_ethertype_def Let_def simp del: split_paired_Ex)

lemma tun_attr_safe:
  assumes "attr_within m 0 (length m) a n" "\<not> (int n \<noteq> tunnel_key_attr_len t \<and> tunnel_key_attr_len t \<ge> 0)"
  shows "\<exists>r. tun_attr m a t s = Some r"
proof -
  have "t \<in> {0, 1, 2, 3, 4} \<or> t \<notin> {0, 1, 2, 3, 4}" by blast
  then show ?thesis using within_get(4-7) [OF assms(1)] assms(2) by (cases s) (auto simp: tun_attr_def tunnel_key_attr_len_def simp del: split_paired_Ex)
qed

lemma odp_tun_key_from_attr_safe:
  assumes "attr_within m 0 (length m) a n"
  shows "\<exists>r. odp_tun_key_from_attr m a tun = Some r"
proof -
  let ?body = "\<lambda>a type len s. if int len \<noteq> tunnel_key_attr_len type \<and> tunnel_key_attr_len type \<ge> 0 then Some None else map_option Some (tun_attr m a type s)"
  have step: "\<exists>r. ?body b t l s = Some r \<and> (\<forall>s'. r = Some s' \<longrightarrow> True)" if "attr_within m 0 (length m) b l" for b t l s
    using tun_attr_safe [OF that, of t s] by (auto simp del: split_paired_Ex)
  from attr_loop_safe [where I = "\<lambda>_. True" and body = ?body and s = "(tun, False, False)", OF within_get(3) [OF assms] TrueI step]
  obtain ok left s where "attr_loop m ?body (a + NLA_HDRLEN) n (tun, False, False) = Some (ok, left, s)" by blast
  then show ?thesis using within_get(1,2) [OF assms] by (cases s) (simp add: odp_tun_key_from_attr_def)
qed

lemma parse_meta_safe:
  assumes k: "key_found m k"
  shows "\<exists>r g. parse_meta m k zero_flow None = Some (r, g)"
proof -
  obtain e1 g1 where 1: "(if present k 2 then do { a \<leftarrow> ka_attrs k 2; v \<leftarrow> nl_attr_get_u32 m a; Some (attr_bit 2, zero_flow\<lparr>skb_priority := v\<rparr>) } else Some (0, zero_flow)) =
    Some (e1, g1)" using found_u32 [OF k, of 2] by (cases "present k 2") auto
  obtain e2 g2 where 2: "(if present k 15 then do { a \<leftarrow> ka_attrs k 15; v \<leftarrow> nl_attr_get_u32 m a; Some (e1 OR attr_bit 15, g1\<lparr>pkt_mark := v\<rparr>) } else Some (e1, g1)) =
    Some (e2, g2)" using found_u32 [OF k, of 15] by (cases "present k 15") auto
  obtain res e3 g3 where 3: "parse_tunnel m k e2 g2 = Some (res, e3, g3)"
  proof (cases "present k 16")
    case True
    obtain a n where a: "ka_attrs k 16 = Some a" "attr_within m 0 (length m) a n" using found_get [OF k True] by metis
    obtain x t where "odp_tun_key_from_attr m a (tunnel g2) = Some (x, t)" using odp_tun_key_from_attr_safe [OF a(2)] by fastforce
    then show thesis using that a(1) True by (simp add: parse_tunnel_def)
  qed (use that in \<open>simp add: parse_tunnel_def\<close>)
  obtain e4 g4 where 4: "parse_in_port m k e3 g3 None = Some (e4, g4)" using found_u32 [OF k, of 3] by (cases "present k 3") (auto simp: parse_in_port_def)
  obtain g5 where 5: "(if present k 4 then do { d \<leftarrow> key_struct m k 4 12; Some (g4\<lparr>dl_src := sub 0 6 d, dl_dst := sub 6 6 d\<rparr>) } else Some g4) = Some g5"
    using found_struct [OF k, of 4 12] by (cases "present k 4") auto
  show ?thesis unfolding parse_meta_def 1 using 2 3 4 5 by simp
qed

text \<open>The one read of a tagged key that is not guarded: the encapsulated attributes.\<close>

lemma parse_8021q_safe:
  assumes k: "key_found m k"
  shows "parse_8021q_onward m k e g None = None \<longleftrightarrow>
    present k OVS_KEY_ATTR_VLAN \<and> \<not> present k OVS_KEY_ATTR_ENCAP \<and>
    (\<exists>a tci. ka_attrs k OVS_KEY_ATTR_VLAN = Some a \<and> nl_attr_get_u16 m a = Some tci \<and> tci AND htons VLAN_CFI \<noteq> 0)"
proof (cases "present k OVS_KEY_ATTR_VLAN")
  case True
  obtain a tci where a: "ka_attrs k OVS_KEY_ATTR_VLAN = Some a" "nl_attr_get_u16 m a = Some tci" using found_u16 [OF k True] by auto
  let ?fit = "check_expectations k (e OR attr_bit OVS_KEY_ATTR_VLAN OR attr_bit OVS_KEY_ATTR_ENCAP)"
  show ?thesis
  proof (cases "present k OVS_KEY_ATTR_ENCAP")
    case False
    then have "?fit = ODP_FIT_TOO_LITTLE" by (auto simp: check_expectations_def bit_eq_iff bit_and_iff bit_or_iff bit_not_iff bit_1_iff bit_exp_iff intro!: exI [of _ 1])
    then show ?thesis using True False a by (auto simp: parse_8021q_onward_def Let_def)
  next
    case enc: True
    obtain p n where p: "ka_attrs k OVS_KEY_ATTR_ENCAP = Some p" "attr_within m 0 (length m) p n" using found_get [OF k enc] by metis
    obtain r where r: "parse_flow_nlattrs m (p + NLA_HDRLEN) n (ka_attrs k) = Some r" "\<forall>k. r = Some k \<longrightarrow> key_found m k"
      using parse_flow_nlattrs_safe [OF within_get(3) [OF p(2)]] by blast
    let ?g = "g\<lparr>dl_type := 0, vlan_tci := tci\<rparr>"
    have c: "\<exists>x. (case r of None \<Rightarrow> Some (ODP_FIT_ERROR, ?g) | Some k \<Rightarrow> do { (ok, e, g) \<leftarrow> parse_ethertype m k 0 ?g None;
       if \<not> ok then Some (ODP_FIT_ERROR, g) else do { (encap_fitness, g) \<leftarrow> parse_l2_5_onward m k e g None; Some (max fit encap_fitness, g) } }) = Some x" for fit
    proof (cases r)
      case (Some k')
      with r(2) have k': "key_found m k'" by simp
      obtain ok e' g' where e: "parse_ethertype m k' 0 ?g None = Some (ok, e', g')" using parse_ethertype_safe [OF k'] by (metis prod_cases3)
      obtain x y where "parse_l2_5_onward m k' e' g' None = Some (x, y)" using parse_l2_5_safe [OF k'] by (metis surj_pair)
      with e Some show ?thesis by simp
    qed simp
    show ?thesis using c [of "check_expectations k (e OR 34)"] True enc a p(1) within_get(1,2) [OF p(2)] r(1) by (auto simp: parse_8021q_onward_def Let_def)
  qed
qed (simp add: parse_8021q_onward_def Let_def)

lemma to_flow_raw_tail:
  assumes k: "key_found m k"
  shows "(if dl_type g = htons ETH_TYPE_VLAN then parse_8021q_onward m k e g None else parse_l2_5_onward m k e g None) = None \<longleftrightarrow>
    dl_type g = htons ETH_TYPE_VLAN \<and> present k OVS_KEY_ATTR_VLAN \<and> \<not> present k OVS_KEY_ATTR_ENCAP \<and>
    (\<exists>a tci. ka_attrs k OVS_KEY_ATTR_VLAN = Some a \<and> nl_attr_get_u16 m a = Some tci \<and> tci AND htons VLAN_CFI \<noteq> 0)"
  using parse_8021q_safe [OF k, of e g] parse_l2_5_safe [OF k, of e g] by auto

section \<open>Properties\<close>

lemma flow_attrs_in_port: "flow_attrs (f\<lparr>fl_in_port := x\<rparr>) port = flow_attrs f port"
  by (simp add: flow_attrs_def vlan_attrs_def inner_attrs_def l3_attrs_def l4_attrs_def ipv4_key_def ipv6_key_def arp_key_def nd_key_def
      ports_key_def icmp_key_def is_ip_any_def is_nd_def)

lemma flow_ok_in_port: "flow_ok (f\<lparr>fl_in_port := x\<rparr>) = flow_ok f"
  by (simp add: flow_ok_def inner_ok_def v6_zero_def l4_zero_def ip_zero_def arp_zero_def icmp_ok_def is_nd_def ports_proto_def cong: if_cong split del: if_split)

text \<open>C7: A flow survives the trip through its Netlink key. Every well-formed flow, whatever its layers (tunnel, VLAN tag, ARP,
  MPLS, IPv4, IPv6, fragments, TCP, UDP, SCTP, ICMP, neighbour discovery), is appended to an empty message as a key that
  reads back with every field as it was and the port that was passed, as a perfect fit; only an MPLS flow without a label
  is reported as lacking it.\<close>

theorem odp_key_roundtrip:
  assumes "flow_ok f" "ofpbuf_ok b" "ob_source b \<noteq> OFPBUF_STACK" "contents b = []"
  shows "\<exists>b'. odp_flow_key_from_flow junk b f port = Some b' \<and>
    odp_flow_key_to_flow (ob_mem b') (ob_data b') (ob_size b') = Some (key_fit f, f\<lparr>fl_in_port := port\<rparr>)"
proof -
  have l: "length (ipv6_src f) = 16" "length (ipv6_dst f) = 16" using assms(1) key_lens(4,5) by (auto simp: flow_ok_def)
  obtain b' where b': "odp_flow_key_from_flow junk b f port = Some b'" "ofpbuf_ok b'" "contents b' = attrs_bytes (flow_attrs f port)"
    using from_flow_puts [OF l, of junk port] assms(2-4) by (auto simp: puts_def growable_def)
  obtain pre post where m: "ob_mem b' = pre @ contents b' @ post" "length pre = ob_data b'" using mem_contents [OF b'(2)] .
  have "ob_size b' = length (attrs_bytes (flow_attrs f port))" using length_contents [OF b'(2)] b'(3) by simp
  then show ?thesis using b' m to_flow_ok [of "f\<lparr>fl_in_port := port\<rparr>" port "ob_mem b'" pre post] assms(1)
    by (simp add: flow_attrs_in_port flow_ok_in_port key_fit_def)
qed

theorem odp_key_roundtrip_witness:
  "let f = zero_flow\<lparr>skb_priority := 7, dl_src := [1, 2, 3, 4, 5, 6], dl_dst := [7, 8, 9, 10, 11, 12], vlan_tci := htons 0x1005, dl_type := htons ETH_TYPE_IP,
       nw_src := 0x0100000a, nw_dst := 0x0200000a, nw_proto := IPPROTO_TCP, nw_ttl := 64, tp_src := htons 1000, tp_dst := htons 80\<rparr>
   in \<exists>b'. odp_flow_key_from_flow (\<lambda>_. 0) (ofpbuf_init (\<lambda>_. 0) 0) f 3 = Some b' \<and>
     odp_flow_key_to_flow (ob_mem b') (ob_data b') (ob_size b') = Some (ODP_FIT_PERFECT, f\<lparr>fl_in_port := 3\<rparr>)"
proof -
  let ?f = "zero_flow\<lparr>skb_priority := 7, dl_src := [1, 2, 3, 4, 5, 6], dl_dst := [7, 8, 9, 10, 11, 12], vlan_tci := htons 0x1005, dl_type := htons ETH_TYPE_IP,
       nw_src := 0x0100000a, nw_dst := 0x0200000a, nw_proto := IPPROTO_TCP, nw_ttl := 64, tp_src := htons 1000, tp_dst := htons 80\<rparr>"
  have "flow_ok ?f" by (simp add: flow_ok_def inner_ok_def zero_flow_def zero_tnl_def tnl_ok_def v6_zero_def arp_zero_def frag_ok_def ports_proto_def zeros_def
      VLAN_CFI_def ETH_TYPE_IP_def ETH_TYPE_MIN_def FLOW_DL_TYPE_NONE_def htons_def hi8_def lo8_def le16_def)
  moreover have "ofpbuf_ok (ofpbuf_init (\<lambda>_. 0) 0)" "ob_source (ofpbuf_init (\<lambda>_. 0) 0) \<noteq> OFPBUF_STACK" "contents (ofpbuf_init (\<lambda>_. 0) 0) = []"
    by (simp_all add: ofpbuf_init_def ofpbuf_use_def ofpbuf_use_raw_def ofpbuf_ok_def contents_def)
  moreover have "key_fit ?f = ODP_FIT_PERFECT" by (simp add: key_fit_def)
  ultimately show ?thesis unfolding Let_def using odp_key_roundtrip [of ?f "ofpbuf_init (\<lambda>_. 0) 0" "\<lambda>_. 0" 3] by metis
qed

text \<open>C8: Reading a key is safe for every byte string, with one exception. Whatever the bytes of the key are, parsing stays inside
  of them and ends with a fitness, except for a key with a VLAN attribute whose CFI bit is set and without the ENCAP
  attribute: there the missing attribute is read through a null pointer.\<close>

theorem odp_key_parse_safe:
  assumes "key + key_len \<le> length m"
  shows "odp_flow_key_to_flow m key key_len = None \<longleftrightarrow>
    (\<exists>k e g e' g' a tci. parse_flow_nlattrs m key key_len (\<lambda>_. None) = Some (Some k) \<and> parse_meta m k zero_flow None = Some (Some (e, g), g) \<and>
       parse_ethertype m k e g None = Some (True, e', g') \<and> dl_type g' = htons ETH_TYPE_VLAN \<and>
       present k OVS_KEY_ATTR_VLAN \<and> ka_attrs k OVS_KEY_ATTR_VLAN = Some a \<and> nl_attr_get_u16 m a = Some tci \<and> tci AND htons VLAN_CFI \<noteq> 0 \<and>
       \<not> present k OVS_KEY_ATTR_ENCAP)"
proof -
  obtain r where r: "parse_flow_nlattrs m key key_len (\<lambda>_. None) = Some r" "\<forall>k. r = Some k \<longrightarrow> key_found m k"
    using parse_flow_nlattrs_safe [OF assms] by blast
  show ?thesis
  proof (cases r)
    case (Some k)
    with r have k: "key_found m k" by simp
    obtain x g where x: "parse_meta m k zero_flow None = Some (x, g)" using parse_meta_safe [OF k] by blast
    show ?thesis
    proof (cases x)
      case (Some y)
      obtain e h where y: "y = (e, h)" by fastforce
      have "h = g" using x Some y by (auto simp: parse_meta_def split: Option.bind_splits if_splits prod.splits)
      moreover obtain ok e' g' where e: "parse_ethertype m k e g None = Some (ok, e', g')" using parse_ethertype_safe [OF k] by (metis prod_cases3)
      ultimately show ?thesis using r(1) x \<open>r = Some k\<close> Some y to_flow_raw_tail [OF k, of g' e']
        by (cases ok) (auto simp: odp_flow_key_to_flow_def odp_flow_key_to_flow_raw_def Let_def)
    qed (use r(1) x \<open>r = Some k\<close> in \<open>auto simp: odp_flow_key_to_flow_def odp_flow_key_to_flow_raw_def\<close>)
  qed (use r(1) in \<open>auto simp: odp_flow_key_to_flow_def odp_flow_key_to_flow_raw_def\<close>)
qed

theorem odp_key_parse_safe_witness:
  "let m = attrs_bytes [(4, zeros 12), (6, be16_bytes (htons ETH_TYPE_VLAN)), (5, be16_bytes (htons 0x1005))]
   in odp_flow_key_to_flow m 0 (length m) = None"
proof -
  let ?as = "[(4, zeros 12), (6, be16_bytes (htons ETH_TYPE_VLAN)), (5, be16_bytes (htons 0x1005))] :: (u16 \<times> bytes) list"
  let ?m = "attrs_bytes ?as"
  have l: "length (zeros 12) = 12" "length (be16_bytes x) = 2" for x by (simp_all add: zeros_def be16_bytes_def)
  have "\<forall>x \<in> set ?as. key_attr_ok x" using fits_short [of "zeros 12"] fits_short [of "be16_bytes x" for x] l by (simp add: key_attr_ok_def)
  from parse_flow_nlattrs_ok [of ?m "[]" ?as "[]", OF _ this] obtain k where
    k: "parse_flow_nlattrs ?m 0 (length ?m) (\<lambda>_. None) = Some (Some k)" "key_holds ?m k ?as" by fastforce
  have p: "present k 4" "present k 6" "present k 5" "\<not> present k 2" "\<not> present k 15" "\<not> present k 16" "\<not> present k 3" "\<not> present k 1"
    using k(2) by (auto simp: key_holds_def)
  obtain a6 a5 where a: "ka_attrs k 6 = Some a6" "attr_at ?m a6 6 (be16_bytes (htons ETH_TYPE_VLAN))" "ka_attrs k 5 = Some a5"
    "attr_at ?m a5 5 (be16_bytes (htons 0x1005))" using k(2) by (auto simp: key_holds_def)
  have eth: "key_struct ?m k 4 12 = Some (zeros 12)" using key_holds_struct [OF k(2), of 4 "zeros 12"] l by simp
  have "\<exists>e g. parse_meta ?m k zero_flow None = Some (Some (e, g), g)" using p eth by (simp add: parse_meta_def parse_tunnel_def parse_in_port_def)
  then obtain e g where g: "parse_meta ?m k zero_flow None = Some (Some (e, g), g)" by blast
  have e: "parse_ethertype ?m k e g None = Some (True, e OR attr_bit 6, g\<lparr>dl_type := htons ETH_TYPE_VLAN\<rparr>)"
    using p(2) a(1) attr_at_values(2) [OF a(2)] by (simp add: parse_ethertype_def Let_def not_less ETH_TYPE_VLAN_def ETH_TYPE_MIN_def)
  have "htons 0x1005 AND htons VLAN_CFI \<noteq> 0" by (simp add: VLAN_CFI_def htons_def hi8_def lo8_def le16_def)
  then show ?thesis using odp_key_parse_safe [of 0 "length ?m" ?m] k(1) p(3,8) g e a(3) attr_at_values(2) [OF a(4)] unfolding Let_def by fastforce
qed

end
