(* ===== verification/Stats.thy ===== *)
theory Stats
  imports Prelude
begin

text \<open>
  The packet counters of \<open>datapath/dpdk/stats.c\<close>. Every logical core has its own copy of each counter, so
  that cores never write the same word; a counter is read by adding up the copies. \<open>RTE_MAX_LCORE\<close>, a
  constant of the DPDK configuration, is the argument \<open>max_lcore\<close>, and the core that runs the code,
  \<open>rte_lcore_id()\<close>, the argument \<open>lcore\<close>. Counters are 64-bit and wrap around.
\<close>

section \<open>State\<close>

record vport_lcore_statistics =
  vs_rx :: u64
  vs_tx :: u64
  vs_rx_drop :: u64
  vs_tx_drop :: u64
  vs_overrun :: u64

record vswitch_lcore_statistics =
  vsw_tx_drop :: u64
  vsw_rx_drop :: u64

record statistics =
  vport_stats :: "nat \<Rightarrow> nat \<Rightarrow> vport_lcore_statistics"
  vswitch_stats :: "nat \<Rightarrow> vswitch_lcore_statistics"

record port_stats =
  ps_rx :: u64
  ps_tx :: u64
  ps_rx_bytes :: u64
  ps_tx_bytes :: u64
  ps_rx_drop :: u64
  ps_tx_drop :: u64
  ps_rx_error :: u64
  ps_tx_error :: u64

definition MAX_VPORTS :: nat where "MAX_VPORTS = 256"

definition zero_vport_stats :: vport_lcore_statistics where
  "zero_vport_stats = \<lparr>vs_rx = 0, vs_tx = 0, vs_rx_drop = 0, vs_tx_drop = 0, vs_overrun = 0\<rparr>"

definition zero_vswitch_stats :: vswitch_lcore_statistics where
  "zero_vswitch_stats = \<lparr>vsw_tx_drop = 0, vsw_rx_drop = 0\<rparr>"

section \<open>Operations\<close>

definition upd_vport :: "nat \<Rightarrow> nat \<Rightarrow> (vport_lcore_statistics \<Rightarrow> vport_lcore_statistics) \<Rightarrow> statistics \<Rightarrow> statistics" where
  "upd_vport vportid i f s = s\<lparr>vport_stats := (vport_stats s)(vportid :=
     (vport_stats s vportid)(i := f (vport_stats s vportid i)))\<rparr>"

definition upd_vswitch :: "nat \<Rightarrow> (vswitch_lcore_statistics \<Rightarrow> vswitch_lcore_statistics) \<Rightarrow> statistics \<Rightarrow> statistics" where
  "upd_vswitch i f s = s\<lparr>vswitch_stats := (vswitch_stats s)(i := f (vswitch_stats s i))\<rparr>"

definition stats_vswitch_clear :: "nat \<Rightarrow> statistics \<Rightarrow> statistics" where
  "stats_vswitch_clear max_lcore s =
     for_loop 0 max_lcore (\<lambda>i. upd_vswitch i (\<lambda>c. c\<lparr>vsw_rx_drop := 0, vsw_tx_drop := 0\<rparr>)) s"

definition stats_vport_clear :: "nat \<Rightarrow> nat \<Rightarrow> statistics \<Rightarrow> statistics" where
  "stats_vport_clear max_lcore vportid s =
     for_loop 0 max_lcore (\<lambda>i. upd_vport vportid i
       (\<lambda>c. c\<lparr>vs_rx := 0, vs_rx_drop := 0, vs_tx := 0, vs_tx_drop := 0, vs_overrun := 0\<rparr>)) s"

definition stats_vport_clear_all :: "nat \<Rightarrow> statistics \<Rightarrow> statistics" where
  "stats_vport_clear_all max_lcore s = for_loop 0 MAX_VPORTS (stats_vport_clear max_lcore) s"

definition stats_clear :: "nat \<Rightarrow> statistics \<Rightarrow> statistics" where
  "stats_clear max_lcore s = stats_vport_clear_all max_lcore (stats_vswitch_clear max_lcore s)"

text \<open>The \<open>int\<close> increment is converted to the unsigned type of the counter.\<close>

definition stats_vport_rx_increment :: "nat \<Rightarrow> nat \<Rightarrow> int \<Rightarrow> statistics \<Rightarrow> statistics" where
  "stats_vport_rx_increment lcore vportid inc = upd_vport vportid lcore (\<lambda>c. c\<lparr>vs_rx := vs_rx c + of_int inc\<rparr>)"

definition stats_vport_rx_drop_increment :: "nat \<Rightarrow> nat \<Rightarrow> int \<Rightarrow> statistics \<Rightarrow> statistics" where
  "stats_vport_rx_drop_increment lcore vportid inc =
     upd_vport vportid lcore (\<lambda>c. c\<lparr>vs_rx_drop := vs_rx_drop c + of_int inc\<rparr>)"

definition stats_vport_tx_increment :: "nat \<Rightarrow> nat \<Rightarrow> int \<Rightarrow> statistics \<Rightarrow> statistics" where
  "stats_vport_tx_increment lcore vportid inc = upd_vport vportid lcore (\<lambda>c. c\<lparr>vs_tx := vs_tx c + of_int inc\<rparr>)"

definition stats_vport_tx_drop_increment :: "nat \<Rightarrow> nat \<Rightarrow> int \<Rightarrow> statistics \<Rightarrow> statistics" where
  "stats_vport_tx_drop_increment lcore vportid inc =
     upd_vport vportid lcore (\<lambda>c. c\<lparr>vs_tx_drop := vs_tx_drop c + of_int inc\<rparr>)"

definition stats_vport_overrun_increment :: "nat \<Rightarrow> nat \<Rightarrow> int \<Rightarrow> statistics \<Rightarrow> statistics" where
  "stats_vport_overrun_increment lcore vportid inc =
     upd_vport vportid lcore (\<lambda>c. c\<lparr>vs_overrun := vs_overrun c + of_int inc\<rparr>)"

definition stats_vswitch_rx_drop_increment :: "nat \<Rightarrow> int \<Rightarrow> statistics \<Rightarrow> statistics" where
  "stats_vswitch_rx_drop_increment lcore inc =
     upd_vswitch lcore (\<lambda>c. c\<lparr>vsw_rx_drop := vsw_rx_drop c + of_int inc\<rparr>)"

definition stats_vswitch_tx_drop_increment :: "nat \<Rightarrow> int \<Rightarrow> statistics \<Rightarrow> statistics" where
  "stats_vswitch_tx_drop_increment lcore inc =
     upd_vswitch lcore (\<lambda>c. c\<lparr>vsw_tx_drop := vsw_tx_drop c + of_int inc\<rparr>)"

definition stats_vport_rx_get :: "nat \<Rightarrow> nat \<Rightarrow> statistics \<Rightarrow> u64" where
  "stats_vport_rx_get max_lcore vportid s =
     for_loop 0 max_lcore (\<lambda>i rx. rx + vs_rx (vport_stats s vportid i)) 0"

definition stats_vport_rx_drop_get :: "nat \<Rightarrow> nat \<Rightarrow> statistics \<Rightarrow> u64" where
  "stats_vport_rx_drop_get max_lcore vportid s =
     for_loop 0 max_lcore (\<lambda>i rx_drop. rx_drop + vs_rx_drop (vport_stats s vportid i)) 0"

definition stats_vport_tx_get :: "nat \<Rightarrow> nat \<Rightarrow> statistics \<Rightarrow> u64" where
  "stats_vport_tx_get max_lcore vportid s =
     for_loop 0 max_lcore (\<lambda>i tx. tx + vs_tx (vport_stats s vportid i)) 0"

definition stats_vport_tx_drop_get :: "nat \<Rightarrow> nat \<Rightarrow> statistics \<Rightarrow> u64" where
  "stats_vport_tx_drop_get max_lcore vportid s =
     for_loop 0 max_lcore (\<lambda>i tx_drop. tx_drop + vs_tx_drop (vport_stats s vportid i)) 0"

definition stats_vport_overrun_get :: "nat \<Rightarrow> nat \<Rightarrow> statistics \<Rightarrow> u64" where
  "stats_vport_overrun_get max_lcore vportid s =
     for_loop 0 max_lcore (\<lambda>i overrun. overrun + vs_overrun (vport_stats s vportid i)) 0"

definition stats_vport_get :: "nat \<Rightarrow> nat \<Rightarrow> statistics \<Rightarrow> port_stats" where
  "stats_vport_get max_lcore vportid s =
     \<lparr>ps_rx = stats_vport_rx_get max_lcore vportid s, ps_tx = stats_vport_tx_get max_lcore vportid s,
      ps_rx_bytes = 0, ps_tx_bytes = 0,
      ps_rx_drop = stats_vport_rx_drop_get max_lcore vportid s,
      ps_tx_drop = stats_vport_tx_drop_get max_lcore vportid s, ps_rx_error = 0, ps_tx_error = 0\<rparr>"

definition stats_vswitch_rx_drop_get :: "nat \<Rightarrow> statistics \<Rightarrow> u64" where
  "stats_vswitch_rx_drop_get max_lcore s =
     for_loop 0 max_lcore (\<lambda>i rx_drop. rx_drop + vsw_rx_drop (vswitch_stats s i)) 0"

definition stats_vswitch_tx_drop_get :: "nat \<Rightarrow> statistics \<Rightarrow> u64" where
  "stats_vswitch_tx_drop_get max_lcore s =
     for_loop 0 max_lcore (\<lambda>i tx_drop. tx_drop + vsw_tx_drop (vswitch_stats s i)) 0"

text \<open>The memory zone is cleared; \<open>rte_exit\<close> when it cannot be reserved.\<close>

definition stats_init :: statistics where
  "stats_init = \<lparr>vport_stats = (\<lambda>_ _. zero_vport_stats), vswitch_stats = (\<lambda>_. zero_vswitch_stats)\<rparr>"

section \<open>Sums over the cores\<close>

lemma for_loop_sum: "for_loop 0 n (\<lambda>i acc. acc + f i) a = a + (\<Sum>i<n. f i)" for f :: "nat \<Rightarrow> 'a::comm_monoid_add"
  by (induction n) (simp_all add: for_loop_Suc add.assoc)

lemma sum_update:
  fixes f :: "nat \<Rightarrow> 'a::comm_monoid_add"
  assumes "k < n"
  shows "(\<Sum>i<n. (f(k := f k + d)) i) = (\<Sum>i<n. f i) + d"
proof -
  have "(\<Sum>i<n. (f(k := f k + d)) i) = (\<Sum>i<n. f i + (if i = k then d else 0))"
    by (rule sum.cong) auto
  then show ?thesis
    using assms by (simp add: sum.distrib)
qed

lemma for_loop_upd_vport:
  "vport_stats (for_loop 0 n (\<lambda>i. upd_vport v i f) s) v' j =
     (if v' = v \<and> j < n then f (vport_stats s v' j) else vport_stats s v' j)"
  "vswitch_stats (for_loop 0 n (\<lambda>i. upd_vport v i f) s) = vswitch_stats s"
  by (induction n) (auto simp: for_loop_Suc upd_vport_def less_Suc_eq)

lemma for_loop_upd_vswitch:
  "vswitch_stats (for_loop 0 n (\<lambda>i. upd_vswitch i f) s) j = (if j < n then f (vswitch_stats s j) else vswitch_stats s j)"
  "vport_stats (for_loop 0 n (\<lambda>i. upd_vswitch i f) s) = vport_stats s"
  by (induction n) (auto simp: for_loop_Suc upd_vswitch_def less_Suc_eq)

lemma stats_clear_rx:
  assumes "v < MAX_VPORTS" and "i < n"
  shows "vs_rx (vport_stats (stats_clear n s) v i) = 0"
proof -
  have "\<forall>v < m. vs_rx (vport_stats (for_loop 0 m (stats_vport_clear n) s) v i) = 0" for m s
  proof (induction m)
    case (Suc m)
    then show ?case
      using assms(2) by (auto simp: for_loop_Suc stats_vport_clear_def for_loop_upd_vport less_Suc_eq)
  qed simp
  then show ?thesis
    using assms(1) by (simp add: stats_clear_def stats_vport_clear_all_def)
qed

lemmas stats_get_defs = stats_vport_rx_get_def stats_vport_rx_drop_get_def stats_vport_tx_get_def
  stats_vport_tx_drop_get_def stats_vport_overrun_get_def stats_vswitch_rx_drop_get_def
  stats_vswitch_tx_drop_get_def

lemmas stats_inc_defs = stats_vport_rx_increment_def stats_vport_rx_drop_increment_def
  stats_vport_tx_increment_def stats_vport_tx_drop_increment_def stats_vport_overrun_increment_def
  stats_vswitch_rx_drop_increment_def stats_vswitch_tx_drop_increment_def

section \<open>The interface: a family of counters\<close>

text \<open>
  What the rest of the datapath relies on: a counter of port \<open>v\<close> read from any core shows the increments of
  every core, and nothing else changes it.
\<close>

text \<open>A history of increments, each by some core, on some port.\<close>

definition run_incs :: "(nat \<Rightarrow> 'p \<Rightarrow> int \<Rightarrow> statistics \<Rightarrow> statistics) \<Rightarrow> (nat \<times> 'p \<times> int) list \<Rightarrow> statistics \<Rightarrow> statistics" where
  "run_incs inc h s = fold (\<lambda>(l, v, d). inc l v d) h s"

locale counter =
  fixes inc :: "nat \<Rightarrow> 'p \<Rightarrow> int \<Rightarrow> statistics \<Rightarrow> statistics" and get :: "nat \<Rightarrow> 'p \<Rightarrow> statistics \<Rightarrow> u64"
  assumes get_inc: "l < n \<Longrightarrow> get n v (inc l v d s) = get n v s + of_int d"
    and get_inc_other: "v' \<noteq> v \<Longrightarrow> get n v' (inc l v d s) = get n v' s"
begin

lemma get_run:
  assumes "\<And>l v d. (l, v, d) \<in> set h \<Longrightarrow> l < n"
  shows "get n v (run_incs inc h s) = get n v s + of_int (\<Sum>(l, v', d) \<leftarrow> h. if v' = v then d else 0)"
  using assms
proof (induction h arbitrary: s)
  case Nil
  then show ?case by (simp add: run_incs_def)
next
  case (Cons e h)
  obtain l w d where e: "e = (l, w, d)" by (cases e)
  have IH: "get n v (run_incs inc h (inc l w d s)) =
      get n v (inc l w d s) + of_int (\<Sum>(l, v', d) \<leftarrow> h. if v' = v then d else 0)"
    using Cons.prems by (intro Cons.IH) auto
  have "l < n" using Cons.prems [of l w d] e by simp
  then have "get n v (inc l w d s) = get n v s + of_int (if w = v then d else 0)"
    by (auto simp: get_inc get_inc_other)
  then show ?case
    using IH by (simp add: run_incs_def e add.assoc)
qed

end

lemma upd_vport_sum:
  assumes "l < n" and "\<And>c. fld (f c) = fld c + d"
  shows "(\<Sum>i<n. fld (vport_stats (upd_vport v l f s) v i)) = (\<Sum>i<n. fld (vport_stats s v i)) + (d :: u64)"
proof -
  have "(\<Sum>i<n. fld (vport_stats (upd_vport v l f s) v i)) =
      (\<Sum>i<n. ((\<lambda>i. fld (vport_stats s v i))(l := fld (vport_stats s v l) + d)) i)"
    by (rule sum.cong) (auto simp: upd_vport_def assms(2))
  then show ?thesis
    using sum_update [OF assms(1), of "\<lambda>i. fld (vport_stats s v i)" d] by simp
qed

lemma upd_vswitch_sum:
  assumes "l < n" and "\<And>c. fld (f c) = fld c + d"
  shows "(\<Sum>i<n. fld (vswitch_stats (upd_vswitch l f s) i)) = (\<Sum>i<n. fld (vswitch_stats s i)) + (d :: u64)"
proof -
  have "(\<Sum>i<n. fld (vswitch_stats (upd_vswitch l f s) i)) =
      (\<Sum>i<n. ((\<lambda>i. fld (vswitch_stats s i))(l := fld (vswitch_stats s l) + d)) i)"
    by (rule sum.cong) (auto simp: upd_vswitch_def assms(2))
  then show ?thesis
    using sum_update [OF assms(1), of "\<lambda>i. fld (vswitch_stats s i)" d] by simp
qed

interpretation rx: counter stats_vport_rx_increment stats_vport_rx_get
  by unfold_locales (simp_all add: stats_inc_defs stats_get_defs for_loop_sum upd_vport_sum, simp add: upd_vport_def)

interpretation rx_drop: counter stats_vport_rx_drop_increment stats_vport_rx_drop_get
  by unfold_locales (simp_all add: stats_inc_defs stats_get_defs for_loop_sum upd_vport_sum, simp add: upd_vport_def)

interpretation tx: counter stats_vport_tx_increment stats_vport_tx_get
  by unfold_locales (simp_all add: stats_inc_defs stats_get_defs for_loop_sum upd_vport_sum, simp add: upd_vport_def)

interpretation tx_drop: counter stats_vport_tx_drop_increment stats_vport_tx_drop_get
  by unfold_locales (simp_all add: stats_inc_defs stats_get_defs for_loop_sum upd_vport_sum, simp add: upd_vport_def)

interpretation overrun: counter stats_vport_overrun_increment stats_vport_overrun_get
  by unfold_locales (simp_all add: stats_inc_defs stats_get_defs for_loop_sum upd_vport_sum, simp add: upd_vport_def)

interpretation vsw_tx_drop: counter "\<lambda>l (_ :: unit). stats_vswitch_tx_drop_increment l" "\<lambda>n _. stats_vswitch_tx_drop_get n"
  by unfold_locales (simp_all add: stats_inc_defs stats_get_defs for_loop_sum upd_vswitch_sum)

interpretation vsw_rx_drop: counter "\<lambda>l (_ :: unit). stats_vswitch_rx_drop_increment l" "\<lambda>n _. stats_vswitch_rx_drop_get n"
  by unfold_locales (simp_all add: stats_inc_defs stats_get_defs for_loop_sum upd_vswitch_sum)

section \<open>Properties\<close>

text \<open>After the counters are cleared, the received-packets counter of a port, read by any core, is the sum of
  the increments all cores made for that port, whatever their interleaving, modulo \<open>2^64\<close>; the increments for
  other ports do not show.\<close>

theorem stats_rx_sum:
  assumes "v < MAX_VPORTS" and "\<forall>e \<in> set h. fst e < n"
  shows "stats_vport_rx_get n v (run_incs stats_vport_rx_increment h (stats_clear n s)) =
    of_int (\<Sum>(l, v', d) \<leftarrow> h. if v' = v then d else 0)"
proof -
  have "stats_vport_rx_get n v (stats_clear n s) = 0"
    using assms(1) by (simp add: stats_vport_rx_get_def for_loop_sum stats_clear_rx)
  then show ?thesis
    using rx.get_run [of h n v "stats_clear n s"] assms(2) by fastforce
qed

theorem stats_rx_sum_witness:
  "stats_vport_rx_get 4 17 (run_incs stats_vport_rx_increment [(0, 17, 5), (1, 3, 9), (3, 17, 2)] (stats_clear 4 stats_init)) = 7"
  using stats_rx_sum [of 17 "[(0, 17, 5), (1, 3, 9), (3, 17, 2)]" 4 stats_init]
  by (simp add: MAX_VPORTS_def)

end
