(* ===== verification/Vport.thy ===== *)
theory Vport
  imports Stats "HOL-Library.Char_ord"
begin

text \<open>
  The table of virtual ports of \<open>datapath/dpdk/vport.c\<close>. Every port has a fixed place in the table, given by its
  kind: clients from 1, physical ports from 0x10, KNI ports from 0x20, vETH ports from 0x40 and vhost ports from
  0x50. Ports exist from the start and are only enabled and disabled later. The union in \<open>struct vport_info\<close> is
  flattened: the index of the device and the vhost device. A C string is the list of its characters. Reading
  the table beyond its end is undefined and gives \<open>None\<close>.
\<close>

section \<open>The table\<close>

datatype vport_type = VPORT_TYPE_DISABLED | VPORT_TYPE_VSWITCHD | VPORT_TYPE_BRIDGE | VPORT_TYPE_PHY
  | VPORT_TYPE_CLIENT | VPORT_TYPE_KNI | VPORT_TYPE_VETH | VPORT_TYPE_VHOST

record vport_info =
  vi_type :: vport_type
  vi_name :: string
  vi_enabled :: bool
  vi_index :: nat
  vi_dev :: "nat option"

text \<open>The numbers of ports of each kind, from the command line, and the ports of the physical devices.\<close>

record vport_cfg =
  num_clients :: nat
  num_kni :: nat
  num_veth :: nat
  num_vhost :: nat
  cfg_ports :: "(nat \<times> nat) list"

type_synonym vport_table = "nat \<Rightarrow> vport_info"

definition CLIENT0 :: nat where "CLIENT0 = 0"
definition CLIENT1 :: nat where "CLIENT1 = 1"
definition PHYPORT0 :: nat where "PHYPORT0 = 0x10"
definition KNI0 :: nat where "KNI0 = 0x20"
definition VETH0 :: nat where "VETH0 = 0x40"
definition VHOST0 :: nat where "VHOST0 = 0x50"
definition MAX_VPORT_NAME_SIZE :: nat where "MAX_VPORT_NAME_SIZE = 32"
definition VPORT_INFO_NAMESZ :: nat where "VPORT_INFO_NAMESZ = 32"
definition UINT32_MAX :: nat where "UINT32_MAX = 4294967295"

lemmas vport_consts = CLIENT0_def CLIENT1_def PHYPORT0_def KNI0_def VETH0_def VHOST0_def MAX_VPORTS_def
  MAX_VPORT_NAME_SIZE_def VPORT_INFO_NAMESZ_def UINT32_MAX_def

section \<open>Queries\<close>

definition vport_exists :: "vport_table \<Rightarrow> nat \<Rightarrow> bool" where
  "vport_exists vports vportid \<longleftrightarrow> vportid < MAX_VPORTS \<and> vi_type (vports vportid) \<noteq> VPORT_TYPE_DISABLED"

definition vport_is_enabled :: "vport_table \<Rightarrow> nat \<Rightarrow> bool" where
  "vport_is_enabled vports vportid = (if vport_exists vports vportid then vi_enabled (vports vportid) else False)"

definition vport_get_name :: "vport_table \<Rightarrow> nat \<Rightarrow> string option" where
  "vport_get_name vports vportid = (if vport_exists vports vportid then Some (vi_name (vports vportid)) else None)"

definition vport_get_type :: "vport_table \<Rightarrow> nat \<Rightarrow> vport_type" where
  "vport_get_type vports vportid = (if vport_exists vports vportid then vi_type (vports vportid) else VPORT_TYPE_DISABLED)"

text \<open>\<open>strncmp\<close> compares at most \<open>n\<close> characters.\<close>

definition strncmp_eq :: "string \<Rightarrow> string \<Rightarrow> nat \<Rightarrow> bool" where
  "strncmp_eq a b n \<longleftrightarrow> take n a = take n b"

definition vport_name_to_portid :: "vport_table \<Rightarrow> string \<Rightarrow> nat" where
  "vport_name_to_portid vports name =
     (case find_from 0 MAX_VPORTS (\<lambda>i. vport_exists vports i \<and> strncmp_eq (vi_name (vports i)) name MAX_VPORT_NAME_SIZE) of
        Some i \<Rightarrow> i | None \<Rightarrow> UINT32_MAX)"

text \<open>The search range of a kind of port; \<open>CLIENT1 + (num_clients - 1)\<close> is computed in unsigned arithmetic.\<close>

definition vport_range :: "vport_cfg \<Rightarrow> vport_type \<Rightarrow> (nat \<times> nat) option" where
  "vport_range cfg type = (case type of
       VPORT_TYPE_CLIENT \<Rightarrow> Some (CLIENT1, (CLIENT1 + num_clients cfg + UINT32_MAX) mod (UINT32_MAX + 1))
     | VPORT_TYPE_PHY \<Rightarrow> Some (PHYPORT0, KNI0)
     | VPORT_TYPE_KNI \<Rightarrow> Some (KNI0, KNI0 + num_kni cfg)
     | VPORT_TYPE_VETH \<Rightarrow> Some (VETH0, VETH0 + num_veth cfg)
     | VPORT_TYPE_VHOST \<Rightarrow> Some (VHOST0, VHOST0 + num_vhost cfg)
     | _ \<Rightarrow> None)"

definition vport_next_available_index :: "vport_cfg \<Rightarrow> vport_table \<Rightarrow> vport_type \<Rightarrow> nat" where
  "vport_next_available_index cfg vports type =
     (if type = VPORT_TYPE_VSWITCHD \<or> type = VPORT_TYPE_BRIDGE then CLIENT0
      else case vport_range cfg type of
        None \<Rightarrow> MAX_VPORTS
      | Some (start_idx, end_idx) \<Rightarrow>
          (case find_from start_idx end_idx (\<lambda>i. vport_exists vports i \<and> \<not> vport_is_enabled vports i) of
             Some i \<Rightarrow> i | None \<Rightarrow> MAX_VPORTS))"

text \<open>The table is read before the index is checked.\<close>

definition vport_id_is_valid :: "vport_table \<Rightarrow> nat \<Rightarrow> vport_type \<Rightarrow> bool option" where
  "vport_id_is_valid vports vportid type =
     (if vportid \<ge> MAX_VPORTS then None
      else if vi_type (vports vportid) = VPORT_TYPE_VSWITCHD \<and> type = VPORT_TYPE_BRIDGE then Some True
      else Some (vi_type (vports vportid) = type))"

definition vport_is_valid_name :: "string \<Rightarrow> int" where
  "vport_is_valid_name port_name =
     (if length port_name \<ge> VPORT_INFO_NAMESZ + 1 then -1
      else if \<forall>c \<in> set port_name. CHR ''0'' \<le> c \<and> c \<le> CHR ''9'' \<or> CHR ''A'' \<le> c \<and> c \<le> CHR ''Z'' \<or> CHR ''a'' \<le> c \<and> c \<le> CHR ''z''
      then 0 else -1)"

section \<open>Updates\<close>

text \<open>\<open>vsnprintf\<close> keeps what fits with the terminating null; the formatted text is the argument.\<close>

definition vport_set_name :: "nat \<Rightarrow> string \<Rightarrow> vport_table \<Rightarrow> vport_table" where
  "vport_set_name vportid text vports = (if vport_exists vports vportid
     then vports(vportid := (vports vportid)\<lparr>vi_name := take (VPORT_INFO_NAMESZ - 1) text\<rparr>) else vports)"

definition vport_enable :: "nat \<Rightarrow> vport_table \<Rightarrow> vport_table" where
  "vport_enable vportid vports = (if vport_exists vports vportid
     then vports(vportid := (vports vportid)\<lparr>vi_enabled := True\<rparr>) else vports)"

definition vport_disable :: "nat \<Rightarrow> vport_table \<Rightarrow> vport_table" where
  "vport_disable vportid vports = (if vport_exists vports vportid
     then vports(vportid := (vports vportid)\<lparr>vi_enabled := False\<rparr>) else vports)"

text \<open>
  \<open>vport_vhost_up\<close> and \<open>vport_vhost_down\<close> look for the vhost port with the name of the device: equal for the
  length of the device's name, and of that length.
\<close>

definition vhost_name_matches :: "string \<Rightarrow> string \<Rightarrow> bool" where
  "vhost_name_matches port_name info_name \<longleftrightarrow>
     strncmp_eq port_name info_name (length port_name) \<and> length port_name = length info_name"

definition vport_vhost_find :: "vport_cfg \<Rightarrow> vport_table \<Rightarrow> string \<Rightarrow> nat option" where
  "vport_vhost_find cfg vports port_name =
     find_from 0 (num_vhost cfg) (\<lambda>vhostid. vhost_name_matches port_name (vi_name (vports (VHOST0 + vhostid))))"

definition vport_vhost_up :: "vport_cfg \<Rightarrow> nat \<Rightarrow> string \<Rightarrow> vport_table \<Rightarrow> int \<times> vport_table" where
  "vport_vhost_up cfg dev port_name vports = (case vport_vhost_find cfg vports port_name of
       Some vhostid \<Rightarrow> (0, vports(VHOST0 + vhostid := (vports (VHOST0 + vhostid))\<lparr>vi_dev := Some dev\<rparr>))
     | None \<Rightarrow> (-1, vports))"

definition vport_vhost_down :: "vport_cfg \<Rightarrow> string \<Rightarrow> vport_table \<Rightarrow> int \<times> vport_table" where
  "vport_vhost_down cfg port_name vports = (case vport_vhost_find cfg vports port_name of
       Some vhostid \<Rightarrow> (0, vports(VHOST0 + vhostid := (vports (VHOST0 + vhostid))\<lparr>vi_dev := None\<rparr>))
     | None \<Rightarrow> (-1, vports))"

section \<open>Initialisation\<close>

text \<open>Decimal text of a number, and the conversion \<open>%2u\<close>.\<close>

fun dec :: "nat \<Rightarrow> string" where
  "dec n = (if n < 10 then [char_of (48 + n)] else dec (n div 10) @ [char_of (48 + n mod 10)])"

declare dec.simps [simp del]

definition dec2 :: "nat \<Rightarrow> string" where
  "dec2 n = (if n < 10 then CHR '' '' # dec n else dec n)"

definition zero_vport :: vport_info where
  "zero_vport = \<lparr>vi_type = VPORT_TYPE_DISABLED, vi_name = [], vi_enabled = False, vi_index = 0, vi_dev = None\<rparr>"

definition setup_port :: "nat \<Rightarrow> vport_type \<Rightarrow> nat \<Rightarrow> string \<Rightarrow> vport_table \<Rightarrow> vport_table" where
  "setup_port vportid type index name vports =
     vport_set_name vportid name (vport_disable vportid
       (vports(vportid := (vports vportid)\<lparr>vi_type := type, vi_index := index\<rparr>)))"

definition vport_init :: "vport_cfg \<Rightarrow> vport_table" where
  "vport_init cfg =
     (let vports = (\<lambda>_. zero_vport);
          vports = setup_port 0 VPORT_TYPE_VSWITCHD 0 ''vswitchd'' vports;
          vports = for_loop CLIENT1 (num_clients cfg)
            (\<lambda>i. setup_port i VPORT_TYPE_CLIENT 0 (''Client'' @ dec i)) vports;
          vports = for_loop 0 (num_kni cfg)
            (\<lambda>i. setup_port (KNI0 + i) VPORT_TYPE_KNI i (''KNI'' @ dec i)) vports;
          vports = for_loop 0 (num_veth cfg)
            (\<lambda>i. setup_port (VETH0 + i) VPORT_TYPE_VETH i (''vEth Port  '' @ dec2 i)) vports;
          vports = for_loop 0 (num_vhost cfg)
            (\<lambda>i. setup_port (VHOST0 + i) VPORT_TYPE_VHOST i (''vHost Port '' @ dec2 i)) vports
      in fold (\<lambda>(vportid, id). setup_port vportid VPORT_TYPE_PHY id (''Port       '' @ dec2 id)) (cfg_ports cfg) vports)"

section \<open>The invariant of the table\<close>

text \<open>
  The limits of the command line keep the ranges of the kinds apart. Under them the type found in the table at
  each index is a function of the configuration alone.
\<close>

definition cfg_ok :: "vport_cfg \<Rightarrow> bool" where
  "cfg_ok cfg \<longleftrightarrow> 1 \<le> num_clients cfg \<and> num_clients cfg \<le> 16 \<and> num_kni cfg \<le> 16 \<and> num_veth cfg \<le> 16 \<and> num_vhost cfg \<le> 64 \<and>
     (\<forall>p \<in> set (cfg_ports cfg). PHYPORT0 \<le> fst p \<and> fst p < KNI0)"

definition vport_kind :: "vport_cfg \<Rightarrow> nat \<Rightarrow> vport_type" where
  "vport_kind cfg i =
     (if i = CLIENT0 then VPORT_TYPE_VSWITCHD
      else if i < num_clients cfg then VPORT_TYPE_CLIENT
      else if i \<in> fst ` set (cfg_ports cfg) then VPORT_TYPE_PHY
      else if KNI0 \<le> i \<and> i < KNI0 + num_kni cfg then VPORT_TYPE_KNI
      else if VETH0 \<le> i \<and> i < VETH0 + num_veth cfg then VPORT_TYPE_VETH
      else if VHOST0 \<le> i \<and> i < VHOST0 + num_vhost cfg then VPORT_TYPE_VHOST
      else VPORT_TYPE_DISABLED)"

definition vports_ok :: "vport_cfg \<Rightarrow> vport_table \<Rightarrow> bool" where
  "vports_ok cfg vports \<longleftrightarrow>
     (\<forall>i < MAX_VPORTS. vi_type (vports i) = vport_kind cfg i \<and> length (vi_name (vports i)) < VPORT_INFO_NAMESZ)"

lemma vports_ok_type: "vports_ok cfg t \<Longrightarrow> i < MAX_VPORTS \<Longrightarrow> vi_type (t i) = vport_kind cfg i"
  by (simp add: vports_ok_def)

lemma vport_kind_range:
  assumes "cfg_ok cfg" "vport_kind cfg i = k" "k \<notin> {VPORT_TYPE_DISABLED, VPORT_TYPE_VSWITCHD}"
  shows "i < MAX_VPORTS \<and> (\<exists>lo hi. vport_range cfg k = Some (lo, hi) \<and> lo \<le> i \<and> i < hi)"
proof -
  have c: "(CLIENT1 + num_clients cfg + UINT32_MAX) mod (UINT32_MAX + 1) = num_clients cfg"
    using assms(1) by (simp add: cfg_ok_def vport_consts)
  show ?thesis
    using assms unfolding vport_kind_def
    by (auto simp: vport_range_def c cfg_ok_def vport_consts split: if_splits)
qed

lemma vport_range_kind:
  assumes "cfg_ok cfg" "vport_range cfg k = Some (lo, hi)" "lo \<le> i" "i < hi" "vport_kind cfg i \<noteq> VPORT_TYPE_DISABLED"
  shows "vport_kind cfg i = k"
proof -
  have c: "(CLIENT1 + num_clients cfg + UINT32_MAX) mod (UINT32_MAX + 1) = num_clients cfg"
    using assms(1) by (simp add: cfg_ok_def vport_consts)
  have p: "i \<in> fst ` set (cfg_ports cfg) \<Longrightarrow> 0x10 \<le> i \<and> i < 0x20"
    using assms(1) by (auto simp: cfg_ok_def vport_consts)
  show ?thesis
    using assms(2-) p assms(1) unfolding vport_kind_def
    by (cases k) (auto simp: vport_range_def c cfg_ok_def vport_consts split: if_splits)
qed

section \<open>Updates of the table keep its shape\<close>

text \<open>
  The contract of an operation on the table: the type at every index is the same afterwards, and names stay short
  enough for their field.
\<close>

locale port_update =
  fixes upd :: "vport_table \<Rightarrow> vport_table"
  assumes same_type: "vi_type (upd t i) = vi_type (t i)"
    and short_name: "length (vi_name (t i)) < VPORT_INFO_NAMESZ \<Longrightarrow> length (vi_name (upd t i)) < VPORT_INFO_NAMESZ"
begin

lemma keeps_ok: "vports_ok cfg t \<Longrightarrow> vports_ok cfg (upd t)"
  by (simp add: vports_ok_def same_type short_name)

lemma exists_same [simp]: "vport_exists (upd t) i = vport_exists t i"
  by (simp add: vport_exists_def same_type)

lemma get_type_same [simp]: "vport_get_type (upd t) i = vport_get_type t i"
  by (simp add: vport_get_type_def same_type)

lemma id_valid_same [simp]: "vport_id_is_valid (upd t) i k = vport_id_is_valid t i k"
  by (simp add: vport_id_is_valid_def same_type)

end

interpretation set_name: port_update "vport_set_name i n" for i n
  by unfold_locales (auto simp: vport_set_name_def VPORT_INFO_NAMESZ_def)

interpretation enable: port_update "vport_enable i" for i
  by unfold_locales (auto simp: vport_enable_def)

interpretation disable: port_update "vport_disable i" for i
  by unfold_locales (auto simp: vport_disable_def)

interpretation vhost_up: port_update "\<lambda>t. snd (vport_vhost_up cfg dev n t)" for cfg dev n
  by unfold_locales (auto simp: vport_vhost_up_def split: option.splits)

interpretation vhost_down: port_update "\<lambda>t. snd (vport_vhost_down cfg n t)" for cfg n
  by unfold_locales (auto simp: vport_vhost_down_def split: option.splits)

section \<open>Initialisation establishes the invariant\<close>

lemma setup_port_type: "vi_type (setup_port p k x n t i) = (if i = p then k else vi_type (t i))"
  by (simp add: setup_port_def set_name.same_type disable.same_type)

lemma setup_port_name:
  "length (vi_name (t i)) < VPORT_INFO_NAMESZ \<Longrightarrow> length (vi_name (setup_port p k x n t i)) < VPORT_INFO_NAMESZ"
  unfolding setup_port_def by (intro set_name.short_name disable.short_name) (cases "i = p"; simp)

lemma fold_setup_type:
  "vi_type (fold (\<lambda>j. setup_port (f j) k (x j) (n j)) js t i) = (if i \<in> f ` set js then k else vi_type (t i))"
  by (induction js arbitrary: t) (auto simp: setup_port_type)

lemma fold_setup_name:
  "length (vi_name (t i)) < VPORT_INFO_NAMESZ \<Longrightarrow>
     length (vi_name (fold (\<lambda>j. setup_port (f j) k (x j) (n j)) js t i)) < VPORT_INFO_NAMESZ"
  by (induction js arbitrary: t) (auto simp: setup_port_name)

lemma image_add_range: "i \<in> (\<lambda>j. b + j) ` set [0..<n] \<longleftrightarrow> b \<le> i \<and> i < b + (n::nat)"
  by (auto simp: image_iff intro!: bexI [of _ "i - b"])

lemma vport_init_ok:
  assumes "cfg_ok cfg"
  shows "vports_ok cfg (vport_init cfg)"
proof -
  have split: "(\<lambda>(v, d). setup_port v VPORT_TYPE_PHY d (''Port       '' @ dec2 d)) =
      (\<lambda>p. setup_port (fst p) VPORT_TYPE_PHY (snd p) (''Port       '' @ dec2 (snd p)))"
    by auto
  have "length (vi_name (vport_init cfg i)) < VPORT_INFO_NAMESZ" for i
    unfolding vport_init_def Let_def for_loop_def split
    by (intro fold_setup_name setup_port_name) (simp add: zero_vport_def VPORT_INFO_NAMESZ_def)
  moreover have "vi_type (vport_init cfg i) = vport_kind cfg i" for i
  proof -
    have p: "i \<in> fst ` set (cfg_ports cfg) \<Longrightarrow> 0x10 \<le> i \<and> i < 0x20"
      using assms by (auto simp: cfg_ok_def vport_consts)
    show ?thesis
      unfolding vport_init_def Let_def for_loop_def split fold_setup_type image_add_range setup_port_type vport_kind_def
      using assms p by (auto simp: cfg_ok_def vport_consts zero_vport_def)
  qed
  ultimately show ?thesis by (simp add: vports_ok_def)
qed

text \<open>The tables the operations lead to.\<close>

inductive vport_reach :: "vport_cfg \<Rightarrow> vport_table \<Rightarrow> bool" for cfg where
  reach_init: "vport_reach cfg (vport_init cfg)"
| reach_name: "vport_reach cfg t \<Longrightarrow> vport_reach cfg (vport_set_name i n t)"
| reach_enable: "vport_reach cfg t \<Longrightarrow> vport_reach cfg (vport_enable i t)"
| reach_disable: "vport_reach cfg t \<Longrightarrow> vport_reach cfg (vport_disable i t)"
| reach_up: "vport_reach cfg t \<Longrightarrow> vport_reach cfg (snd (vport_vhost_up cfg dev n t))"
| reach_down: "vport_reach cfg t \<Longrightarrow> vport_reach cfg (snd (vport_vhost_down cfg n t))"

section \<open>Properties\<close>

text \<open>In a table of the right shape \<open>vport_next_available_index\<close> of a kind of port that can be added gives the
  first port of that kind that exists and is not enabled, which \<open>vport_id_is_valid\<close> accepts for the kind; it
  gives \<open>MAX_VPORTS\<close> exactly when every port of the kind is enabled.\<close>

theorem vport_next_available_index_first:
  assumes "cfg_ok cfg" "vports_ok cfg t" "type \<notin> {VPORT_TYPE_DISABLED, VPORT_TYPE_VSWITCHD, VPORT_TYPE_BRIDGE}"
    and "vport_next_available_index cfg t type = r"
  shows "(r = MAX_VPORTS \<and> (\<forall>i. vport_get_type t i = type \<longrightarrow> vport_is_enabled t i)) \<or>
    (r < MAX_VPORTS \<and> vport_id_is_valid t r type = Some True \<and> vport_exists t r \<and> \<not> vport_is_enabled t r \<and>
      (\<forall>i < r. vport_get_type t i = type \<longrightarrow> vport_is_enabled t i))"
proof -
  let ?P = "\<lambda>i. vport_exists t i \<and> \<not> vport_is_enabled t i"
  obtain lo hi where lh: "vport_range cfg type = Some (lo, hi)"
    using assms(3) by (cases type) (auto simp: vport_range_def)
  have mem: "vport_exists t i \<and> lo \<le> i \<and> i < hi" if "vport_get_type t i = type" for i
  proof -
    from that assms(3) have e: "vport_exists t i" and "vi_type (t i) = type"
      by (auto simp: vport_get_type_def split: if_splits)
    then have k: "vport_kind cfg i = type"
      using vports_ok_type [OF assms(2), of i] by (simp add: vport_exists_def)
    show ?thesis using e vport_kind_range [OF assms(1) k] assms(3) lh by auto
  qed
  have ty: "vport_exists t i \<Longrightarrow> lo \<le> i \<Longrightarrow> i < hi \<Longrightarrow> vi_type (t i) = type \<and> i < MAX_VPORTS" for i
    using vports_ok_type [OF assms(2), of i] vport_range_kind [OF assms(1) lh, of i] by (auto simp: vport_exists_def)
  have r: "r = (case find_from lo hi ?P of Some i \<Rightarrow> i | None \<Rightarrow> MAX_VPORTS)"
    using assms(3,4) lh by (auto simp: vport_next_available_index_def)
  show ?thesis
  proof (cases "find_from lo hi ?P")
    case None
    then have "r = MAX_VPORTS" using r by simp
    then show ?thesis using None mem by (auto simp: find_from_None_iff)
  next
    case (Some i)
    then have "r = i" using r by simp
    moreover from Some have "lo \<le> i" "i < hi" "?P i" "\<forall>j. lo \<le> j \<and> j < i \<longrightarrow> \<not> ?P j"
      by (auto simp: find_from_Some_iff)
    ultimately show ?thesis
      using ty [of i] mem by (auto simp: vport_id_is_valid_def)
  qed
qed

definition example_cfg :: vport_cfg where
  "example_cfg = \<lparr>num_clients = 3, num_kni = 1, num_veth = 1, num_vhost = 2, cfg_ports = [(0x10, 0)]\<rparr>"

lemma example_cfg_ok: "cfg_ok example_cfg"
  by (simp add: cfg_ok_def example_cfg_def vport_consts)

theorem vport_next_available_index_first_witness:
  "let t = vport_init example_cfg; r = vport_next_available_index example_cfg t VPORT_TYPE_VHOST in
   (r = MAX_VPORTS \<and> (\<forall>i. vport_get_type t i = VPORT_TYPE_VHOST \<longrightarrow> vport_is_enabled t i)) \<or>
    (r < MAX_VPORTS \<and> vport_id_is_valid t r VPORT_TYPE_VHOST = Some True \<and> vport_exists t r \<and> \<not> vport_is_enabled t r \<and>
      (\<forall>i < r. vport_get_type t i = VPORT_TYPE_VHOST \<longrightarrow> vport_is_enabled t i))"
  unfolding Let_def
  by (rule vport_next_available_index_first [OF example_cfg_ok vport_init_ok [OF example_cfg_ok] _ refl]) simp

text \<open>C36: Starting from \<open>vport_init\<close>, any sequence of renames, enables, disables and attachments and detachments of
  vhost devices leaves every port at the type the configuration gives its index, with a name that fits its
  field.\<close>

theorem vport_reach_ok:
  assumes "vport_reach cfg t" "cfg_ok cfg"
  shows "vports_ok cfg t"
  using assms
  by (induction rule: vport_reach.induct)
    (simp_all add: vport_init_ok set_name.keeps_ok enable.keeps_ok disable.keeps_ok vhost_up.keeps_ok vhost_down.keeps_ok)

theorem vport_reach_ok_witness:
  "vports_ok example_cfg (vport_enable 0x50 (vport_set_name 0x50 ''vhost0'' (vport_init example_cfg)))"
  by (rule vport_reach_ok [OF _ example_cfg_ok]) (intro vport_reach.intros)

text \<open>A port that exists can be found under the name it was just given, when the name fits the field and no
  port with a smaller index has it.\<close>

theorem vport_name_roundtrip:
  assumes "vport_exists t i" "length n < VPORT_INFO_NAMESZ" "\<forall>j < i. vport_get_name t j \<noteq> Some n"
    and "\<forall>j. length (vi_name (t j)) < VPORT_INFO_NAMESZ"
  shows "vport_get_name (vport_set_name i n t) i = Some n \<and> vport_name_to_portid (vport_set_name i n t) n = i"
proof -
  let ?t = "vport_set_name i n t"
  have ex: "vport_exists ?t j = vport_exists t j" for j by simp
  have short: "take 32 (vi_name (t j)) = vi_name (t j)" for j
    using assms(4) by (simp add: VPORT_INFO_NAMESZ_def less_imp_le)
  have nm: "vi_name (?t j) = (if j = i then n else vi_name (t j))" for j
    using assms(1,2) by (simp add: vport_set_name_def VPORT_INFO_NAMESZ_def)
  have "find_from 0 MAX_VPORTS (\<lambda>j. vport_exists ?t j \<and> strncmp_eq (vi_name (?t j)) n MAX_VPORT_NAME_SIZE) = Some i"
    unfolding find_from_Some_iff ex nm
    using assms short by (auto simp: strncmp_eq_def vport_get_name_def vport_exists_def VPORT_INFO_NAMESZ_def MAX_VPORT_NAME_SIZE_def)
  then show ?thesis
    using assms(1) nm [of i] by (simp add: vport_name_to_portid_def vport_get_name_def)
qed

theorem vport_name_roundtrip_witness:
  "let t = (\<lambda>_. zero_vport)(0x50 := zero_vport\<lparr>vi_type := VPORT_TYPE_VHOST\<rparr>) in
   vport_get_name (vport_set_name 0x50 ''vhost0'' t) 0x50 = Some ''vhost0'' \<and>
   vport_name_to_portid (vport_set_name 0x50 ''vhost0'' t) ''vhost0'' = 0x50"
  unfolding Let_def
  by (rule vport_name_roundtrip) (simp_all add: zero_vport_def vport_exists_def vport_get_name_def VPORT_INFO_NAMESZ_def MAX_VPORTS_def)

text \<open>A name of 32 letters and digits passes \<open>vport_is_valid_name\<close>, but the field of the table keeps only 31 of
  them: no table ever has a port under that name, not even after a port was given it.\<close>

theorem vport_long_name_lost:
  assumes "length n = VPORT_INFO_NAMESZ" "\<forall>c \<in> set n. CHR ''a'' \<le> c \<and> c \<le> CHR ''z''" "vports_ok cfg t"
  shows "vport_is_valid_name n = 0 \<and> vport_name_to_portid (vport_set_name i n t) n = UINT32_MAX"
proof -
  let ?t = "vport_set_name i n t"
  have "vports_ok cfg ?t" using assms(3) by (rule set_name.keeps_ok)
  then have "j < MAX_VPORTS \<Longrightarrow> take 32 (vi_name (?t j)) \<noteq> n" for j
    using assms(1) by (auto simp: vports_ok_def VPORT_INFO_NAMESZ_def)
  then have "find_from 0 MAX_VPORTS (\<lambda>j. vport_exists ?t j \<and> strncmp_eq (vi_name (?t j)) n MAX_VPORT_NAME_SIZE) = None"
    using assms(1) unfolding find_from_None_iff
    by (auto simp: strncmp_eq_def VPORT_INFO_NAMESZ_def MAX_VPORT_NAME_SIZE_def)
  then show ?thesis
    using assms(1,2) by (simp add: vport_name_to_portid_def vport_is_valid_name_def)
qed

theorem vport_long_name_lost_witness:
  "let n = replicate 32 (CHR ''a'') in
   vport_is_valid_name n = 0 \<and> vport_name_to_portid (vport_set_name 0x50 n (vport_init example_cfg)) n = UINT32_MAX"
  unfolding Let_def
  by (rule vport_long_name_lost [OF _ _ vport_init_ok [OF example_cfg_ok]]) (simp_all add: VPORT_INFO_NAMESZ_def)

end
