(* ===== verification/Virtio.thy ===== *)
theory Virtio
  imports Vport
begin

text \<open>
  The configuration side of userspace vhost: \<open>datapath/dpdk/virtio-net.c\<close> and \<open>vhost.c\<close>. QEMU opens a character
  device, sends its configuration as ioctls and starts the device by setting a back end; the device is then
  attached to the port that has the name of its tap interface. The linked list of devices is a list; a device is
  referred to by its handle \<open>device_fh\<close>. Undefined behaviour of C (a null or dangling pointer that is used, a
  virtqueue index out of range) is the result \<open>None\<close>. What the operating system answers (memory, event file
  descriptors, the mapping of QEMU's memory, the name of the tap device) is an argument.
\<close>

section \<open>Data\<close>

record virtio_region =
  guest_phys_address :: u64
  guest_phys_address_end :: u64
  memory_size :: u64
  userspace_address :: u64
  address_offset :: u64

record virtio_memory =
  base_address :: u64
  mapped_address :: u64
  mapped_size :: u64
  regions :: "virtio_region list"

text \<open>The pointer \<open>dev->mem\<close>: null, to a memory table, or to one that was freed.\<close>

datatype mem_ref = MEM_NULL | MEM virtio_memory | MEM_FREED

record vhost_virtqueue =
  vq_desc :: u64
  vq_avail :: u64
  vq_used :: u64
  vq_size :: u32
  vq_backend :: u32
  vhost_hlen :: u16
  last_used_idx :: u16
  last_used_idx_res :: u16
  callfd :: u64
  kickfd :: u64

record virtio_net =
  rxq :: vhost_virtqueue
  txq :: vhost_virtqueue
  dev_mem :: mem_ref
  features :: u64
  device_fh :: u64
  running :: bool
  port_name :: string

record vhost_state =
  ll_root :: "virtio_net list"
  num_cur_devices :: u32
  vst_vports :: vport_table

text \<open>A region of QEMU's memory table, as the ioctl passes it.\<close>

record vhost_memory_region =
  mr_guest_phys_addr :: u64
  mr_memory_size :: u64
  mr_userspace_addr :: u64

definition VIRTIO_DEV_STOPPED :: u32 where "VIRTIO_DEV_STOPPED = -1"
definition num_devices :: u32 where "num_devices = 64"
definition VIRTIO_NET_F_MRG_RXBUF :: nat where "VIRTIO_NET_F_MRG_RXBUF = 15"

section \<open>The list of devices\<close>

definition get_device :: "u64 \<Rightarrow> virtio_net list \<Rightarrow> virtio_net option" where
  "get_device fh ll = find (\<lambda>d. device_fh d = fh) ll"

text \<open>The devices behind one with the handle \<open>prev\<close>: the first gap in the handles is filled.\<close>

fun insert_gap :: "u64 \<Rightarrow> virtio_net \<Rightarrow> virtio_net list \<Rightarrow> virtio_net list" where
  "insert_gap prev new [] = [new\<lparr>device_fh := prev + 1\<rparr>]"
| "insert_gap prev new (d # ll) =
     (if prev = device_fh d - 1 then d # insert_gap (device_fh d) new ll
      else new\<lparr>device_fh := prev + 1\<rparr> # d # ll)"

fun add_config_ll_entry :: "virtio_net \<Rightarrow> virtio_net list \<Rightarrow> virtio_net list" where
  "add_config_ll_entry new [] = [new\<lparr>device_fh := 0\<rparr>]"
| "add_config_ll_entry new (d # ll) =
     (if device_fh d \<noteq> 0 then new\<lparr>device_fh := 0\<rparr> # d # ll else d # insert_gap (device_fh d) new ll)"

text \<open>The handle the new device got: the one by which the list grew.\<close>

fun gap_fh :: "u64 \<Rightarrow> virtio_net list \<Rightarrow> u64" where
  "gap_fh prev [] = prev + 1"
| "gap_fh prev (d # ll) = (if prev = device_fh d - 1 then gap_fh (device_fh d) ll else prev + 1)"

fun new_fh :: "virtio_net list \<Rightarrow> u64" where
  "new_fh [] = 0"
| "new_fh (d # ll) = (if device_fh d \<noteq> 0 then 0 else gap_fh (device_fh d) ll)"

definition zero_vq :: vhost_virtqueue where
  "zero_vq = \<lparr>vq_desc = 0, vq_avail = 0, vq_used = 0, vq_size = 0, vq_backend = VIRTIO_DEV_STOPPED, vhost_hlen = 0,
     last_used_idx = 0, last_used_idx_res = 0, callfd = 0, kickfd = 0\<rparr>"

definition init_device :: "virtio_net \<Rightarrow> virtio_net" where
  "init_device dev = dev\<lparr>rxq := zero_vq, txq := zero_vq, dev_mem := MEM_NULL, features := 0, device_fh := 0,
     running := False, port_name := []\<rparr>"

definition blank_device :: virtio_net where
  "blank_device = \<lparr>rxq = zero_vq, txq = zero_vq, dev_mem = MEM_NULL, features = 0, device_fh = 0, running = False,
     port_name = []\<rparr>"

definition new_device :: "bool \<Rightarrow> bool \<Rightarrow> bool \<Rightarrow> vhost_state \<Rightarrow> int \<times> vhost_state" where
  "new_device dev_ok rx_ok tx_ok S =
     (if num_cur_devices S = num_devices then (-1, S)
      else if \<not> dev_ok then (-1, S)
      else if \<not> rx_ok then (-1, S)
      else if \<not> tx_ok then (-1, S)
      else let new = init_device blank_device
        in (sint (ucast (new_fh (ll_root S)) :: 32 word),
            S\<lparr>ll_root := add_config_ll_entry new (ll_root S), num_cur_devices := num_cur_devices S + 1\<rparr>))"

text \<open>Releasing a memory table twice is undefined; the file descriptors that are closed leave no trace.\<close>

definition cleanup_device :: "virtio_net \<Rightarrow> unit option" where
  "cleanup_device dev = (case dev_mem dev of MEM_FREED \<Rightarrow> None | _ \<Rightarrow> Some ())"

fun update_first :: "u64 \<Rightarrow> (virtio_net \<Rightarrow> virtio_net) \<Rightarrow> virtio_net list \<Rightarrow> virtio_net list" where
  "update_first fh f [] = []"
| "update_first fh f (d # ll) = (if device_fh d = fh then f d # ll else d # update_first fh f ll)"

fun remove_first :: "u64 \<Rightarrow> virtio_net list \<Rightarrow> virtio_net list" where
  "remove_first fh [] = []"
| "remove_first fh (d # ll) = (if device_fh d = fh then ll else d # remove_first fh ll)"

definition update_dev :: "u64 \<Rightarrow> (virtio_net \<Rightarrow> virtio_net) \<Rightarrow> vhost_state \<Rightarrow> vhost_state" where
  "update_dev fh f S = S\<lparr>ll_root := update_first fh f (ll_root S)\<rparr>"

section \<open>Attaching a device to its port\<close>

text \<open>\<open>new_device\<close> and \<open>destroy_device\<close> of \<open>vhost.c\<close>; notifications are switched off through the used rings.\<close>

definition set_irq_status :: "virtio_net \<Rightarrow> unit option" where
  "set_irq_status dev = (if vq_used (rxq dev) = 0 \<or> vq_used (txq dev) = 0 then None else Some ())"

definition vhost_new_device :: "vport_cfg \<Rightarrow> virtio_net \<Rightarrow> vhost_state \<Rightarrow> (int \<times> vhost_state) option" where
  "vhost_new_device cfg dev S = do {
     _ \<leftarrow> set_irq_status dev;
     let (r, t) = vport_vhost_up cfg (unat (device_fh dev)) (port_name dev) (vst_vports S);
     if r < 0 then Some (-1, S)
     else Some (0, update_dev (device_fh dev) (\<lambda>d. d\<lparr>running := True\<rparr>) (S\<lparr>vst_vports := t\<rparr>)) }"

definition vhost_destroy_device :: "vport_cfg \<Rightarrow> virtio_net \<Rightarrow> vhost_state \<Rightarrow> vhost_state" where
  "vhost_destroy_device cfg dev S =
     (let (r, t) = vport_vhost_down cfg (port_name dev) (vst_vports S)
      in update_dev (device_fh dev) (\<lambda>d. d\<lparr>running := False\<rparr>) (S\<lparr>vst_vports := t\<rparr>))"

text \<open>
  \<open>destroy_device\<close> of \<open>virtio-net.c\<close> walks the list and removes the entry with the handle; the count goes down
  whether or not there is one.
\<close>

definition destroy_device :: "vport_cfg \<Rightarrow> u64 \<Rightarrow> vhost_state \<Rightarrow> vhost_state option" where
  "destroy_device cfg fh S = (case get_device fh (ll_root S) of
       None \<Rightarrow> Some (S\<lparr>num_cur_devices := num_cur_devices S - 1\<rparr>)
     | Some dev \<Rightarrow> do {
         let S = (if running dev then vhost_destroy_device cfg dev S else S);
         _ \<leftarrow> cleanup_device dev;
         Some (S\<lparr>ll_root := remove_first fh (ll_root S),
                num_cur_devices := num_cur_devices S - 1\<rparr>) })"

section \<open>The requests\<close>

definition set_owner :: "u64 \<Rightarrow> vhost_state \<Rightarrow> int" where
  "set_owner fh S = (if get_device fh (ll_root S) = None then -1 else 0)"

text \<open>The entry is used without a test; \<open>init_device\<close> also resets the handle.\<close>

definition reset_owner :: "u64 \<Rightarrow> vhost_state \<Rightarrow> (int \<times> vhost_state) option" where
  "reset_owner fh S = do {
     dev \<leftarrow> get_device fh (ll_root S);
     _ \<leftarrow> cleanup_device dev;
     Some (0, update_dev fh init_device S) }"

definition get_features :: "u64 \<Rightarrow> u64 \<Rightarrow> vhost_state \<Rightarrow> int \<times> u64 option" where
  "get_features VHOST_FEATURES fh S = (if get_device fh (ll_root S) = None then (-1, None) else (0, Some VHOST_FEATURES))"

definition set_features :: "u64 \<Rightarrow> u64 \<Rightarrow> u64 \<Rightarrow> vhost_state \<Rightarrow> int \<times> vhost_state" where
  "set_features VHOST_FEATURES fh pu S =
     (if get_device fh (ll_root S) = None then (-1, S)
      else if pu AND NOT VHOST_FEATURES \<noteq> 0 then (-1, S)
      else let hlen = (if bit pu VIRTIO_NET_F_MRG_RXBUF then 12 else 10)
        in (0, update_dev fh (\<lambda>d. d\<lparr>features := pu, rxq := (rxq d)\<lparr>vhost_hlen := hlen\<rparr>,
              txq := (txq d)\<lparr>vhost_hlen := hlen\<rparr>\<rparr>) S))"

text \<open>
  The memory table. The regions are copied in order; the one at guest address 0 gives the base address, and mapping
  the file behind it may fail.
\<close>

definition copy_region :: "vhost_memory_region \<Rightarrow> virtio_region" where
  "copy_region r = \<lparr>guest_phys_address = mr_guest_phys_addr r,
     guest_phys_address_end = mr_guest_phys_addr r + mr_memory_size r,
     memory_size = mr_memory_size r, userspace_address = mr_userspace_addr r, address_offset = 0\<rparr>"

fun map_base :: "(u64 \<Rightarrow> (u64 \<times> u64) option) \<Rightarrow> vhost_memory_region list \<Rightarrow> virtio_memory \<Rightarrow> virtio_memory option" where
  "map_base host_map [] mem = Some mem"
| "map_base host_map (r # rs) mem =
     (if mr_guest_phys_addr r = 0 then
        (case host_map (mr_userspace_addr r) of
           None \<Rightarrow> None
         | Some (addr, len) \<Rightarrow> map_base host_map rs
             (mem\<lparr>base_address := mr_userspace_addr r, mapped_address := addr, mapped_size := len\<rparr>))
      else map_base host_map rs mem)"

definition bad_region :: "virtio_memory \<Rightarrow> virtio_region \<Rightarrow> bool" where
  "bad_region mem r \<longleftrightarrow> userspace_address r < base_address mem \<or> userspace_address r > base_address mem + mapped_size mem"

text \<open>
  The compaction in place: from the last region to the first, a region without a valid mapping is overwritten by
  moving the \<open>n\<close> valid regions behind it down by one. The array keeps its length.
\<close>

fun compact :: "virtio_memory \<Rightarrow> nat \<Rightarrow> virtio_region list \<Rightarrow> nat \<Rightarrow> virtio_region list \<times> nat" where
  "compact mem 0 rs n = (rs, n)"
| "compact mem (Suc i) rs n =
     (if bad_region mem (rs ! i) then compact mem i (take i rs @ take n (drop (Suc i) rs) @ drop (i + n) rs) n
      else compact mem i rs (Suc n))"

definition valid_regions :: "virtio_memory \<Rightarrow> virtio_region list" where
  "valid_regions mem =
     (if length (filter (Not \<circ> bad_region mem) (regions mem)) \<noteq> length (regions mem)
      then let (rs, n) = compact mem (length (regions mem)) (regions mem) 0 in take n rs
      else regions mem)"

definition set_offset :: "virtio_memory \<Rightarrow> virtio_region \<Rightarrow> virtio_region" where
  "set_offset mem r = r\<lparr>address_offset := userspace_address r - base_address mem + mapped_address mem - guest_phys_address r\<rparr>"

definition build_mem :: "(u64 \<Rightarrow> (u64 \<times> u64) option) \<Rightarrow> vhost_memory_region list \<Rightarrow> virtio_memory option" where
  "build_mem host_map rs = do {
     mem \<leftarrow> map_base host_map rs \<lparr>base_address = 0, mapped_address = 0, mapped_size = 0, regions = map copy_region rs\<rparr>;
     if base_address mem = 0 then None
     else let mem = mem\<lparr>regions := valid_regions mem\<rparr>
       in Some (mem\<lparr>regions := map (set_offset mem) (regions mem)\<rparr>) }"

text \<open>
  The old table is released first, and the pointer to it stays in the device when the new one cannot be made.
\<close>

definition set_mem_table :: "(u64 \<Rightarrow> (u64 \<times> u64) option) \<Rightarrow> bool \<Rightarrow> u64 \<Rightarrow> vhost_memory_region list \<Rightarrow> vhost_state \<Rightarrow>
    (int \<times> vhost_state) option" where
  "set_mem_table host_map calloc_ok fh rs S = (case get_device fh (ll_root S) of
       None \<Rightarrow> Some (-1, S)
     | Some dev \<Rightarrow> (case dev_mem dev of
           MEM_FREED \<Rightarrow> None
         | old \<Rightarrow>
             (let freed = (if old = MEM_NULL then MEM_NULL else MEM_FREED);
                  failed = Some (-1, update_dev fh (\<lambda>d. d\<lparr>dev_mem := freed\<rparr>) S)
              in if \<not> calloc_ok then failed
                 else case build_mem host_map rs of
                     None \<Rightarrow> failed
                   | Some mem \<Rightarrow> Some (0, update_dev fh (\<lambda>d. d\<lparr>dev_mem := MEM mem\<rparr>) S))))"

section \<open>Address translation\<close>

definition qva_to_vva :: "virtio_memory \<Rightarrow> u64 \<Rightarrow> u64" where
  "qva_to_vva mem qemu_va = (case find (\<lambda>r. userspace_address r \<le> qemu_va \<and> qemu_va \<le> userspace_address r + memory_size r)
       (regions mem) of
     Some r \<Rightarrow> mapped_address mem + qemu_va - base_address mem | None \<Rightarrow> 0)"

text \<open>From \<open>vport.c\<close>, for the addresses in descriptors.\<close>

definition gpa_to_vva :: "virtio_memory \<Rightarrow> u64 \<Rightarrow> u64" where
  "gpa_to_vva mem guest_pa = (case find (\<lambda>r. guest_phys_address r \<le> guest_pa \<and> guest_pa \<le> guest_phys_address_end r)
       (regions mem) of
     Some r \<Rightarrow> address_offset r + guest_pa | None \<Rightarrow> 0)"

section \<open>Virtqueue requests\<close>

text \<open>The queue index comes from the request: 0 is the receive queue, 1 the transmit queue, and it is not checked.\<close>

definition update_vq :: "u64 \<Rightarrow> u32 \<Rightarrow> (vhost_virtqueue \<Rightarrow> vhost_virtqueue) \<Rightarrow> vhost_state \<Rightarrow> vhost_state option" where
  "update_vq fh index f S =
     (if index = 0 then Some (update_dev fh (\<lambda>d. d\<lparr>rxq := f (rxq d)\<rparr>) S)
      else if index = 1 then Some (update_dev fh (\<lambda>d. d\<lparr>txq := f (txq d)\<rparr>) S)
      else None)"

definition set_vring_num :: "u64 \<Rightarrow> u32 \<Rightarrow> u32 \<Rightarrow> vhost_state \<Rightarrow> (int \<times> vhost_state) option" where
  "set_vring_num fh index num S =
     (if get_device fh (ll_root S) = None then Some (-1, S)
      else do { S' \<leftarrow> update_vq fh index (\<lambda>q. q\<lparr>vq_size := num\<rparr>) S; Some (0, S') })"

definition set_vring_addr :: "u64 \<Rightarrow> u32 \<Rightarrow> u64 \<Rightarrow> u64 \<Rightarrow> u64 \<Rightarrow> vhost_state \<Rightarrow> (int \<times> vhost_state) option" where
  "set_vring_addr fh index desc_user_addr avail_user_addr used_user_addr S = (case get_device fh (ll_root S) of
       None \<Rightarrow> Some (-1, S)
     | Some dev \<Rightarrow> (case dev_mem dev of
           MEM mem \<Rightarrow> do {
             let d = qva_to_vva mem desc_user_addr;
             S \<leftarrow> update_vq fh index (\<lambda>q. q\<lparr>vq_desc := d\<rparr>) S;
             if d = 0 then Some (-1, S)
             else do {
               let a = qva_to_vva mem avail_user_addr;
               S \<leftarrow> update_vq fh index (\<lambda>q. q\<lparr>vq_avail := a\<rparr>) S;
               if a = 0 then Some (-1, S)
               else do {
                 let u = qva_to_vva mem used_user_addr;
                 S \<leftarrow> update_vq fh index (\<lambda>q. q\<lparr>vq_used := u\<rparr>) S;
                 Some (if u = 0 then -1 else 0, S) } } }
         | _ \<Rightarrow> None))"

definition set_vring_base :: "u64 \<Rightarrow> u32 \<Rightarrow> u32 \<Rightarrow> vhost_state \<Rightarrow> (int \<times> vhost_state) option" where
  "set_vring_base fh index num S =
     (if get_device fh (ll_root S) = None then Some (-1, S)
      else do { S' \<leftarrow> update_vq fh index (\<lambda>q. q\<lparr>last_used_idx := ucast num, last_used_idx_res := ucast num\<rparr>) S; Some (0, S') })"

definition get_vring_base :: "u64 \<Rightarrow> u32 \<Rightarrow> vhost_state \<Rightarrow> (int \<times> (u32 \<times> u32) option) option" where
  "get_vring_base fh index S = (case get_device fh (ll_root S) of
       None \<Rightarrow> Some (-1, None)
     | Some dev \<Rightarrow> if index = 0 then Some (0, Some (index, ucast (last_used_idx (rxq dev))))
         else if index = 1 then Some (0, Some (index, ucast (last_used_idx (txq dev))))
         else None)"

text \<open>
  A new event descriptor is stored even when it cannot be linked to QEMU's. \<open>set_vring_call\<close> sets the descriptor
  that kicks the guest, \<open>set_vring_kick\<close> the one on which the guest calls.
\<close>

definition set_vring_call :: "u64 \<Rightarrow> bool \<Rightarrow> u64 \<Rightarrow> u32 \<Rightarrow> vhost_state \<Rightarrow> (int \<times> vhost_state) option" where
  "set_vring_call event_fd link_ok fh index S =
     (if get_device fh (ll_root S) = None then Some (-1, S)
      else do { S' \<leftarrow> update_vq fh index (\<lambda>q. q\<lparr>kickfd := event_fd\<rparr>) S; Some (if link_ok then 0 else -1, S') })"

definition set_vring_kick :: "u64 \<Rightarrow> bool \<Rightarrow> u64 \<Rightarrow> u32 \<Rightarrow> vhost_state \<Rightarrow> (int \<times> vhost_state) option" where
  "set_vring_kick event_fd link_ok fh index S =
     (if get_device fh (ll_root S) = None then Some (-1, S)
      else do { S' \<leftarrow> update_vq fh index (\<lambda>q. q\<lparr>callfd := event_fd\<rparr>) S; Some (if link_ok then 0 else -1, S') })"

text \<open>
  The name of the tap device; \<open>None\<close> when its descriptor cannot be linked. \<open>strncpy\<close> with the length of the
  name writes no terminating null, so a shorter name leaves the tail of the old one.
\<close>

definition get_port_name :: "string option \<Rightarrow> string \<Rightarrow> string option" where
  "get_port_name tap old = (case tap of None \<Rightarrow> None
     | Some ifr_name \<Rightarrow> (let n = min (length ifr_name) VPORT_INFO_NAMESZ in Some (take n ifr_name @ drop n old)))"

definition set_backend :: "vport_cfg \<Rightarrow> string option \<Rightarrow> u64 \<Rightarrow> u32 \<Rightarrow> u32 \<Rightarrow> vhost_state \<Rightarrow> (int \<times> vhost_state) option" where
  "set_backend cfg tap fh index fd S = (case get_device fh (ll_root S) of
       None \<Rightarrow> Some (-1, S)
     | Some _ \<Rightarrow> do {
         S \<leftarrow> update_vq fh index (\<lambda>q. q\<lparr>vq_backend := fd\<rparr>) S;
         dev \<leftarrow> get_device fh (ll_root S);
         if \<not> running dev then
           (if vq_backend (txq dev) \<noteq> VIRTIO_DEV_STOPPED \<and> vq_backend (rxq dev) \<noteq> VIRTIO_DEV_STOPPED then
              (case get_port_name tap (port_name dev) of
                 None \<Rightarrow> Some (-1, S)
               | Some name \<Rightarrow> do {
                   let S = update_dev fh (\<lambda>d. d\<lparr>port_name := name\<rparr>) S;
                   (r, S) \<leftarrow> vhost_new_device cfg (dev\<lparr>port_name := name\<rparr>) S;
                   Some (if r < 0 then -1 else 0, S) })
            else Some (0, S))
         else if fd = VIRTIO_DEV_STOPPED then Some (0, vhost_destroy_device cfg dev S)
         else Some (0, S) })"

section \<open>The list of devices stays in order\<close>

abbreviation handles :: "virtio_net list \<Rightarrow> u64 list" where
  "handles ll \<equiv> map device_fh ll"

lemma insert_gap_spec:
  assumes "sorted_wrt (<) (prev # handles ll)" "unat prev + length ll + 1 < 2 ^ 64"
  defines "g \<equiv> gap_fh prev ll"
  shows "sorted_wrt (<) (prev # handles (insert_gap prev new ll)) \<and> set (handles (insert_gap prev new ll)) = insert g (set (handles ll)) \<and>
    g \<notin> set (handles ll) \<and> prev < g \<and> unat g \<le> unat prev + length ll + 1 \<and> (\<forall>x. prev < x \<and> x < g \<longrightarrow> x \<in> set (handles ll)) \<and>
    length (insert_gap prev new ll) = Suc (length ll)"
  using assms(1,2) unfolding g_def
proof (induction ll arbitrary: prev)
  case Nil
  then have "unat (prev + 1) = unat prev + 1" by (simp add: unat_word_ariths)
  then show ?case by (auto simp: word_less_nat_alt)
next
  case (Cons d ll)
  have u: "unat (prev + 1) = unat prev + 1" using Cons.prems(2) by (simp add: unat_word_ariths)
  show ?case
  proof (cases "prev = device_fh d - 1")
    case True
    then have d: "device_fh d = prev + 1" by simp
    have "sorted_wrt (<) (device_fh d # handles ll)" "unat (device_fh d) + length ll + 1 < 2 ^ 64"
      using Cons.prems u d by simp_all
    note IH = Cons.IH [OF this]
    have lt: "prev < device_fh d" using Cons.prems(1) by simp
    have step: "prev < x \<Longrightarrow> x = device_fh d \<or> device_fh d < x" for x
      using u d unat_eqI [of x "device_fh d"] by (auto simp: word_less_nat_alt)
    have "\<forall>x. prev < x \<and> x < gap_fh (device_fh d) ll \<longrightarrow> x \<in> set (handles (d # ll))"
    proof (intro allI impI)
      fix x assume "prev < x \<and> x < gap_fh (device_fh d) ll"
      then show "x \<in> set (handles (d # ll))" using IH step [of x] by auto
    qed
    moreover have "prev < gap_fh (device_fh d) ll" using IH lt by (meson less_trans)
    moreover have "sorted_wrt (<) (prev # device_fh d # handles (insert_gap (device_fh d) new ll))"
      using IH lt Cons.prems(1) by (auto intro: less_trans)
    moreover have e: "insert_gap prev new (d # ll) = d # insert_gap (device_fh d) new ll"
      "gap_fh prev (d # ll) = gap_fh (device_fh d) ll" and n: "unat (device_fh d) = Suc (unat prev)"
      using True u d by simp_all
    moreover have "gap_fh (device_fh d) ll \<noteq> device_fh d" using IH by auto
    moreover have "set (handles (d # insert_gap (device_fh d) new ll)) =
        insert (gap_fh (device_fh d) ll) (set (handles (d # ll)))"
      using IH by (simp add: insert_commute)
    moreover have "unat (gap_fh (device_fh d) ll) \<le> unat prev + length (d # ll) + 1" using IH n by simp
    ultimately show ?thesis
      using IH unfolding e by (intro conjI) (simp_all only: list.map list.set insert_iff length_Cons, blast+)
  next
    case False
    have "prev < device_fh d" using Cons.prems(1) by simp
    moreover have "prev + 1 \<noteq> device_fh d" using False by (metis add_diff_cancel_right')
    then have "unat (prev + 1) \<noteq> unat (device_fh d)" using unat_eqI by blast
    ultimately have "prev + 1 < device_fh d"
      using u by (simp add: word_less_nat_alt)
    then show ?thesis
      using Cons.prems u False by (auto simp: word_less_nat_alt)
  qed
qed

lemma add_entry_spec:
  assumes "sorted_wrt (<) (handles ll)" "length ll + 1 < 2 ^ 64" "ll' = add_config_ll_entry new ll"
  shows "sorted_wrt (<) (handles ll')" "set (handles ll') = insert (new_fh ll) (set (handles ll))"
    "new_fh ll \<notin> set (handles ll)" "\<forall>x < new_fh ll. x \<in> set (handles ll)" "length ll' = Suc (length ll)"
    "unat (new_fh ll) \<le> length ll"
proof -
  have "sorted_wrt (<) (handles ll') \<and> set (handles ll') = insert (new_fh ll) (set (handles ll)) \<and>
    new_fh ll \<notin> set (handles ll) \<and> (\<forall>x < new_fh ll. x \<in> set (handles ll)) \<and> length ll' = Suc (length ll) \<and>
    unat (new_fh ll) \<le> length ll"
  proof (cases ll)
    case Nil
    then show ?thesis by (simp add: assms(3))
  next
    case (Cons d ds)
    show ?thesis
    proof (cases "device_fh d = 0")
      case True
      have so: "sorted_wrt (<) (0 # handles ds)" and "unat (0 :: u64) + length ds + 1 < 2 ^ 64"
        using assms(1,2) Cons True by simp_all
      note g = insert_gap_spec [OF this, of new]
      have z: "x \<noteq> 0 \<Longrightarrow> 0 < x" for x :: u64 by (simp add: word_gt_0)
      have "\<forall>x < gap_fh 0 ds. x \<in> insert 0 (set (handles ds))" using g z by blast
      then show ?thesis using g so Cons True by (auto simp: assms(3))
    next
      case False
      then have "0 < device_fh d" by (simp add: word_gt_0)
      moreover have "x \<in> set ds \<Longrightarrow> device_fh d < device_fh x" for x using assms(1) Cons by simp
      ultimately show ?thesis
        using assms(1) Cons False by (fastforce simp: assms(3))
    qed
  qed
  then show "sorted_wrt (<) (handles ll')" "set (handles ll') = insert (new_fh ll) (set (handles ll))"
    "new_fh ll \<notin> set (handles ll)" "\<forall>x < new_fh ll. x \<in> set (handles ll)" "length ll' = Suc (length ll)"
    "unat (new_fh ll) \<le> length ll"
    by blast+
qed

text \<open>The invariant: handles in strictly increasing order, counted by \<open>num_cur_devices\<close>, at most 64 of them.\<close>

definition ll_ok :: "vhost_state \<Rightarrow> bool" where
  "ll_ok S \<longleftrightarrow> sorted_wrt (<) (handles (ll_root S)) \<and> unat (num_cur_devices S) = length (ll_root S) \<and> length (ll_root S) \<le> 64"

lemma handles_update_first:
  "(\<And>d. device_fh (f d) = device_fh d) \<Longrightarrow> handles (update_first fh f ll) = handles ll"
  by (induction ll) auto

lemma ll_ok_update_dev: "(\<And>d. device_fh (f d) = device_fh d) \<Longrightarrow> ll_ok (update_dev fh f S) = ll_ok S"
  using handles_update_first [of f fh "ll_root S"] by (simp add: ll_ok_def update_dev_def) (metis length_map)

lemma handles_remove_first: "sorted_wrt (<) (handles ll) \<Longrightarrow> handles (remove_first fh ll) = filter (\<lambda>x. x \<noteq> fh) (handles ll)"
proof (induction ll)
  case (Cons d ll)
  show ?case
  proof (cases "device_fh d = fh")
    case True
    then have "\<forall>x \<in> set (handles ll). x \<noteq> fh" using Cons.prems by auto
    then have "filter (\<lambda>x. x \<noteq> fh) (handles ll) = handles ll" by (simp add: filter_id_conv)
    then show ?thesis using True by simp
  qed (use Cons in simp)
qed simp

lemma sorted_wrt_filter_less: "sorted_wrt (<) (xs :: u64 list) \<Longrightarrow> sorted_wrt (<) (filter P xs)"
  by (induction xs) auto

lemma get_device_Some: "get_device fh ll = Some d \<Longrightarrow> d \<in> set ll \<and> device_fh d = fh"
  by (auto simp: get_device_def find_Some_iff)

lemma get_device_None: "get_device fh ll = None \<longleftrightarrow> fh \<notin> set (handles ll)"
  by (auto simp: get_device_def find_None_iff)

lemma get_device_update:
  "(\<And>d. device_fh (f d) = device_fh d) \<Longrightarrow> get_device fh (update_first fh f ll) = map_option f (get_device fh ll)"
  by (induction ll) (auto simp: get_device_def)

lemma length_remove_first: "fh \<in> set (handles ll) \<Longrightarrow> Suc (length (remove_first fh ll)) = length ll"
  by (induction ll) auto

lemma new_device_ok:
  assumes "ll_ok S" "new_device a b c S = (r, S')"
  shows "ll_ok S' \<and> (0 \<le> r \<longrightarrow> r \<le> 63 \<and> of_int r \<notin> set (handles (ll_root S)) \<and>
    set (handles (ll_root S')) = insert (of_int r) (set (handles (ll_root S))) \<and> get_device (of_int r) (ll_root S') \<noteq> None)"
proof (cases "num_cur_devices S = num_devices \<or> \<not> a \<or> \<not> b \<or> \<not> c")
  case True
  then show ?thesis using assms by (auto simp: new_device_def split: if_splits)
next
  case False
  let ?f = "new_fh (ll_root S)"
  have n: "unat (num_cur_devices S) < 64"
    using assms(1) False unat_eqI [of "num_cur_devices S" 64] by (auto simp: ll_ok_def num_devices_def le_less)
  have l: "sorted_wrt (<) (handles (ll_root S))" "length (ll_root S) + 1 < 2 ^ 64"
    using assms(1) by (auto simp: ll_ok_def)
  note A = add_entry_spec [OF l refl]
  have f: "unat ?f \<le> 63" using A(6) n assms(1) by (simp add: ll_ok_def)
  have "unat (ucast ?f :: u32) = unat ?f" using f by (simp add: unsigned_ucast_eq take_bit_nat_eq_self)
  then have "uint (ucast ?f :: u32) = int (unat ?f)" by (simp only: uint_nat)
  moreover have f63: "uint ?f \<le> 63" using f by (metis of_nat_le_iff of_nat_numeral uint_nat)
  ultimately have r: "sint (ucast ?f :: u32) = int (unat ?f)"
    using order_trans [OF _ uint_ge_0, of "- (2 ^ 31)" ?f] signed_take_bit_int_eq_self [of 31 "uint ?f"] by (simp add: sint_uint)
  have S': "S' = S\<lparr>ll_root := add_config_ll_entry (init_device blank_device) (ll_root S), num_cur_devices := num_cur_devices S + 1\<rparr>"
    and ri: "r = int (unat ?f)"
    using assms(2) False r unfolding new_device_def by auto
  have rf: "of_int r = ?f" unfolding ri by simp
  have "unat (num_cur_devices S + 1) = Suc (length (ll_root S))"
    using n assms(1) by (simp add: ll_ok_def unat_word_ariths)
  then have "ll_ok S'" using A n assms(1) unfolding S' ll_ok_def by simp
  moreover have "get_device ?f (ll_root S') \<noteq> None" using A(2) unfolding S' get_device_None by simp
  ultimately show ?thesis
    using A f63 unfolding rf unfolding S' ri by simp
qed

lemma destroy_device_ok:
  assumes "ll_ok S" "destroy_device cfg fh S = Some S'" "get_device fh (ll_root S) \<noteq> None"
  shows "ll_ok S' \<and> handles (ll_root S') = filter (\<lambda>x. x \<noteq> fh) (handles (ll_root S))"
proof -
  obtain dev where dev: "get_device fh (ll_root S) = Some dev" using assms(3) by auto
  define S1 where "S1 = (if running dev then vhost_destroy_device cfg dev S else S)"
  have h: "handles (ll_root S1) = handles (ll_root S)" "num_cur_devices S1 = num_cur_devices S"
    by (auto simp: S1_def vhost_destroy_device_def update_dev_def handles_update_first split: prod.splits)
  have s: "sorted_wrt (<) (handles (ll_root S1))" using assms(1) h by (simp add: ll_ok_def)
  have S': "S' = S1\<lparr>ll_root := remove_first fh (ll_root S1), num_cur_devices := num_cur_devices S1 - 1\<rparr>"
    using assms(2) dev by (auto simp: destroy_device_def S1_def cleanup_device_def Let_def split: mem_ref.splits)
  have "fh \<in> set (handles (ll_root S1))" using assms(3) h get_device_None by metis
  note len = length_remove_first [OF this]
  have "length (ll_root S1) = length (ll_root S)" using h(1) by (metis length_map)
  then have n: "unat (num_cur_devices S1) = length (ll_root S1)" "length (ll_root S1) \<le> 64"
    using assms(1) h(2) by (simp_all add: ll_ok_def)
  then have "unat (num_cur_devices S1 - 1) = length (remove_first fh (ll_root S1))"
    using len by (subst unat_sub) (auto simp: word_le_nat_alt)
  then show ?thesis
    using n len s by (simp add: S' ll_ok_def handles_remove_first sorted_wrt_filter_less h(1))
qed

section \<open>The memory table\<close>

lemma compact_filter:
  "i + n \<le> length rs \<Longrightarrow> compact mem i rs n = (rs', m) \<Longrightarrow>
     take m rs' = filter (Not \<circ> bad_region mem) (take i rs) @ take n (drop i rs)"
proof (induction i arbitrary: rs n)
  case (Suc i)
  have d: "drop i rs = rs ! i # drop (Suc i) rs" using Suc.prems(1) by (simp add: Cons_nth_drop_Suc)
  have t: "take (Suc i) rs = take i rs @ [rs ! i]" using Suc.prems(1) by (simp add: take_Suc_conv_app_nth)
  show ?case
  proof (cases "bad_region mem (rs ! i)")
    case True
    let ?rs = "take i rs @ take n (drop (Suc i) rs) @ drop (i + n) rs"
    have l: "length (take i rs) = i" "length (take n (drop (Suc i) rs)) = n" using Suc.prems(1) by simp_all
    then have "take i ?rs = take i rs" "take n (drop i ?rs) = take n (drop (Suc i) rs)" "i + n \<le> length ?rs"
      using Suc.prems(1) by simp_all
    then show ?thesis
      using Suc.IH [of n ?rs] Suc.prems(2) True by (simp add: t)
  next
    case False
    then show ?thesis
      using Suc.IH [of "Suc n" rs] Suc.prems by (simp add: t d)
  qed
qed simp

lemma valid_regions_eq: "valid_regions mem = filter (Not \<circ> bad_region mem) (regions mem)"
proof (cases "length (filter (Not \<circ> bad_region mem) (regions mem)) = length (regions mem)")
  case True
  then have "filter (Not \<circ> bad_region mem) (regions mem) = regions mem"
    by (metis filter_id_conv length_filter_less less_irrefl)
  then show ?thesis using True by (simp add: valid_regions_def)
next
  case False
  obtain rs m where c: "compact mem (length (regions mem)) (regions mem) 0 = (rs, m)" by fastforce
  from compact_filter [OF _ this] show ?thesis
    using False by (simp add: valid_regions_def c)
qed

text \<open>The compaction of the memory table in place, by moving the valid regions down over each invalid one, leaves
  exactly the regions that lie in QEMU's memory file, in their order.\<close>

theorem valid_regions_filter: "valid_regions mem = filter (Not \<circ> bad_region mem) (regions mem)"
  by (rule valid_regions_eq)

text \<open>The regions of a table that was built: offsets are set, and the mapped file covers their start.\<close>

lemma map_base_regions: "map_base hm rs mem = Some mem' \<Longrightarrow> regions mem' = regions mem"
  by (induction hm rs mem rule: map_base.induct) (auto split: if_splits option.splits)

lemma build_mem_region:
  assumes "build_mem hm rs = Some mem" "r \<in> set (regions mem)"
  shows "\<exists>q \<in> set rs. guest_phys_address r = mr_guest_phys_addr q \<and> guest_phys_address_end r = mr_guest_phys_addr q + mr_memory_size q \<and>
    userspace_address r = mr_userspace_addr q \<and> memory_size r = mr_memory_size q \<and>
    address_offset r = mr_userspace_addr q - base_address mem + mapped_address mem - mr_guest_phys_addr q"
proof -
  let ?m0 = "\<lparr>base_address = 0, mapped_address = 0, mapped_size = 0, regions = map copy_region rs\<rparr>"
  obtain m1 where m1: "map_base hm rs ?m0 = Some m1" and mem: "mem = m1\<lparr>regions := map (set_offset (m1\<lparr>regions := valid_regions m1\<rparr>)) (valid_regions m1)\<rparr>"
    using assms(1) by (auto simp: build_mem_def Let_def split: bind_splits if_splits)
  have "set (valid_regions m1) \<subseteq> copy_region ` set rs"
    using map_base_regions [OF m1] by (auto simp: valid_regions_eq)
  then show ?thesis
    using assms(2) by (fastforce simp: mem set_offset_def copy_region_def)
qed

text \<open>C39: In a memory table that \<open>set_mem_table\<close> builds, a guest physical address that lies in one region only is translated
  to the place of that byte in the mapped file: the distance from the base of QEMU's memory is kept.\<close>

theorem gpa_to_vva_in_file:
  assumes "build_mem hm rs = Some mem" "r \<in> set (regions mem)"
    and "guest_phys_address r \<le> gpa" "gpa \<le> guest_phys_address_end r"
    and "\<forall>q \<in> set (regions mem). guest_phys_address q \<le> gpa \<and> gpa \<le> guest_phys_address_end q \<longrightarrow> q = r"
  shows "gpa_to_vva mem gpa - mapped_address mem = (userspace_address r + (gpa - guest_phys_address r)) - base_address mem"
proof -
  obtain q where q: "find (\<lambda>q. guest_phys_address q \<le> gpa \<and> gpa \<le> guest_phys_address_end q) (regions mem) = Some q"
    using assms(2-4) by (cases "find (\<lambda>q. guest_phys_address q \<le> gpa \<and> gpa \<le> guest_phys_address_end q) (regions mem)")
      (auto simp: find_None_iff)
  then have "q = r" using assms(5) by (auto simp: find_Some_iff)
  moreover obtain p :: vhost_memory_region where "guest_phys_address r = mr_guest_phys_addr p" "userspace_address r = mr_userspace_addr p"
    "address_offset r = mr_userspace_addr p - base_address mem + mapped_address mem - mr_guest_phys_addr p"
    using build_mem_region [OF assms(1,2)] by blast
  ultimately show ?thesis using q by (simp add: gpa_to_vva_def algebra_simps)
qed

definition example_regions :: "vhost_memory_region list" where
  "example_regions = [
     \<lparr>mr_guest_phys_addr = 0x100000, mr_memory_size = 0x1000, mr_userspace_addr = 0x7f0000\<rparr>,
     \<lparr>mr_guest_phys_addr = 0, mr_memory_size = 0xa0000, mr_userspace_addr = 0x500000\<rparr>]"

definition example_map :: "u64 \<Rightarrow> (u64 \<times> u64) option" where
  "example_map addr = (if addr = 0x500000 then Some (0x900000, 0x400000) else None)"

lemma example_build: "build_mem example_map example_regions = Some \<lparr>base_address = 0x500000, mapped_address = 0x900000, mapped_size = 0x400000,
   regions = [\<lparr>guest_phys_address = 0x100000, guest_phys_address_end = 0x101000, memory_size = 0x1000,
       userspace_address = 0x7f0000, address_offset = 0xaf0000\<rparr>,
     \<lparr>guest_phys_address = 0, guest_phys_address_end = 0xa0000, memory_size = 0xa0000,
       userspace_address = 0x500000, address_offset = 0x900000\<rparr>]\<rparr>"
  by (simp add: build_mem_def example_map_def example_regions_def valid_regions_eq copy_region_def set_offset_def
      bad_region_def)

theorem gpa_to_vva_in_file_witness:
  "case build_mem example_map example_regions of
     Some mem \<Rightarrow> gpa_to_vva mem 0x100800 - mapped_address mem = 0x7f0800 - base_address mem
   | None \<Rightarrow> False"
  using gpa_to_vva_in_file [OF example_build, of "\<lparr>guest_phys_address = 0x100000, guest_phys_address_end = 0x101000,
     memory_size = 0x1000, userspace_address = 0x7f0000, address_offset = 0xaf0000\<rparr>" "0x100800"]
  by (simp add: example_build)

text \<open>The end of a region is tested inclusively: the first address behind the region, which may start another one, is
  translated by the offset of the region before it.\<close>

theorem gpa_to_vva_past_end:
  assumes "regions mem = [r1, r2]" "guest_phys_address r1 \<le> guest_phys_address_end r1"
    and "guest_phys_address r2 = guest_phys_address_end r1" "address_offset r1 \<noteq> address_offset r2"
  shows "gpa_to_vva mem (guest_phys_address r2) \<noteq> address_offset r2 + guest_phys_address r2"
  using assms by (simp add: gpa_to_vva_def)

theorem gpa_to_vva_past_end_witness:
  "let r1 = \<lparr>guest_phys_address = 0, guest_phys_address_end = 0xa0000, memory_size = 0xa0000, userspace_address = 0x500000,
         address_offset = 0x900000\<rparr>;
       r2 = \<lparr>guest_phys_address = 0xa0000, guest_phys_address_end = 0xb0000, memory_size = 0x10000, userspace_address = 0x600000,
         address_offset = 0x960000\<rparr>;
       mem = \<lparr>base_address = 0x500000, mapped_address = 0x900000, mapped_size = 0x400000, regions = [r1, r2]\<rparr>
   in gpa_to_vva mem (guest_phys_address r2) \<noteq> address_offset r2 + guest_phys_address r2"
  unfolding Let_def by (rule gpa_to_vva_past_end [OF virtio_memory.select_convs(4)]) simp_all

text \<open>When a new memory table cannot be allocated or mapped, the device keeps the pointer to the table that was just
  released: the next request to set the table, to reset the owner or to release the device uses freed memory.\<close>

theorem set_mem_table_dangling:
  assumes "get_device fh (ll_root S) = Some dev" "dev_mem dev = MEM m" "\<not> ok \<or> build_mem hm rs = None"
  shows "\<exists>S'. set_mem_table hm ok fh rs S = Some (-1, S') \<and> set_mem_table hm' ok' fh rs' S' = None \<and>
    reset_owner fh S' = None \<and> destroy_device cfg fh S' = None"
proof -
  let ?S = "update_dev fh (\<lambda>d. d\<lparr>dev_mem := MEM_FREED\<rparr>) S"
  have "get_device fh (ll_root ?S) = Some (dev\<lparr>dev_mem := MEM_FREED\<rparr>)"
    using assms(1) get_device_update [of "\<lambda>d. d\<lparr>dev_mem := MEM_FREED\<rparr>" fh "ll_root S"] by (simp add: update_dev_def)
  moreover have "set_mem_table hm ok fh rs S = Some (-1, ?S)"
    using assms by (auto simp: set_mem_table_def Let_def)
  ultimately show ?thesis
    by (auto simp: set_mem_table_def reset_owner_def destroy_device_def cleanup_device_def Let_def)
qed

definition example_vhost :: vhost_state where
  "example_vhost = \<lparr>ll_root = [blank_device\<lparr>dev_mem := MEM \<lparr>base_address = 1, mapped_address = 1, mapped_size = 1, regions = []\<rparr>\<rparr>,
      blank_device\<lparr>device_fh := 1\<rparr>], num_cur_devices = 2, vst_vports = vport_init example_cfg\<rparr>"

theorem set_mem_table_dangling_witness:
  "\<exists>S'. set_mem_table (\<lambda>_. None) True 0 example_regions example_vhost = Some (-1, S') \<and>
     set_mem_table (\<lambda>_. None) True 0 [] S' = None \<and> reset_owner 0 S' = None \<and> destroy_device example_cfg 0 S' = None"
  by (rule set_mem_table_dangling [where m = "\<lparr>base_address = 1, mapped_address = 1, mapped_size = 1, regions = []\<rparr>"])
    (auto simp: example_vhost_def get_device_def blank_device_def build_mem_def example_regions_def)

lemma reset_not_found:
  "sorted_wrt (<) (handles ll) \<Longrightarrow> fh \<noteq> 0 \<Longrightarrow> fh \<notin> set (handles (update_first fh init_device ll))"
proof (induction ll)
  case (Cons d ll)
  then show ?case by (cases "device_fh d = fh") (auto simp: init_device_def)
qed simp

text \<open>Resetting the owner of a device clears its handle with the rest of the structure. A device with a handle other
  than 0 can then no longer be found, so every later request of its owner fails.\<close>

theorem reset_owner_loses_handle:
  assumes "ll_ok S" "get_device fh (ll_root S) = Some dev" "dev_mem dev \<noteq> MEM_FREED" "fh \<noteq> 0"
  shows "\<exists>S'. reset_owner fh S = Some (0, S') \<and> set_owner fh S' = -1"
proof -
  have "fh \<notin> set (handles (update_first fh init_device (ll_root S)))"
    using assms(1,4) reset_not_found by (simp add: ll_ok_def)
  then have "get_device fh (update_first fh init_device (ll_root S)) = None"
    by (simp add: get_device_None)
  then show ?thesis
    using assms(2,3) by (auto simp: reset_owner_def cleanup_device_def set_owner_def update_dev_def split: mem_ref.splits)
qed

lemma example_vhost_ok: "ll_ok example_vhost"
  by (simp add: ll_ok_def example_vhost_def blank_device_def)

theorem reset_owner_loses_handle_witness:
  "\<exists>S'. reset_owner 1 example_vhost = Some (0, S') \<and> set_owner 1 S' = -1"
  by (rule reset_owner_loses_handle [OF example_vhost_ok, where dev = "blank_device\<lparr>device_fh := 1\<rparr>"])
    (simp_all add: example_vhost_def get_device_def blank_device_def)

section \<open>Requests keep the list of devices\<close>

text \<open>
  The requests of the character device that change the state, with the handle of the device that each is for: opening and releasing
  it, and the ioctls. A request that runs into undefined behaviour takes no step.
\<close>

datatype vhost_request = OPEN | RELEASE u64 | RESET_OWNER u64 | SET_FEATURES u64 | SET_MEM_TABLE u64 | SET_VRING_NUM u64
  | SET_VRING_ADDR u64 | SET_VRING_BASE u64 | SET_VRING_CALL u64 | SET_VRING_KICK u64 | SET_BACKEND u64

inductive vhost_step :: "vport_cfg \<Rightarrow> vhost_state \<Rightarrow> vhost_request \<Rightarrow> vhost_state \<Rightarrow> bool" for cfg where
  step_open: "new_device a b c S = (r, S') \<Longrightarrow> vhost_step cfg S OPEN S'"
| step_release: "destroy_device cfg fh S = Some S' \<Longrightarrow> vhost_step cfg S (RELEASE fh) S'"
| step_reset: "reset_owner fh S = Some (r, S') \<Longrightarrow> vhost_step cfg S (RESET_OWNER fh) S'"
| step_features: "set_features F fh pu S = (r, S') \<Longrightarrow> vhost_step cfg S (SET_FEATURES fh) S'"
| step_mem: "set_mem_table hm ok fh rs S = Some (r, S') \<Longrightarrow> vhost_step cfg S (SET_MEM_TABLE fh) S'"
| step_num: "set_vring_num fh i n S = Some (r, S') \<Longrightarrow> vhost_step cfg S (SET_VRING_NUM fh) S'"
| step_addr: "set_vring_addr fh i d a u S = Some (r, S') \<Longrightarrow> vhost_step cfg S (SET_VRING_ADDR fh) S'"
| step_base: "set_vring_base fh i n S = Some (r, S') \<Longrightarrow> vhost_step cfg S (SET_VRING_BASE fh) S'"
| step_call: "set_vring_call e l fh i S = Some (r, S') \<Longrightarrow> vhost_step cfg S (SET_VRING_CALL fh) S'"
| step_kick: "set_vring_kick e l fh i S = Some (r, S') \<Longrightarrow> vhost_step cfg S (SET_VRING_KICK fh) S'"
| step_backend: "set_backend cfg tap fh i fd S = Some (r, S') \<Longrightarrow> vhost_step cfg S (SET_BACKEND fh) S'"

text \<open>
  The requests that leave the list in order: all but the release of a device that is not in the list, and a reset of the owner of
  a device that is not the first of the list.
\<close>

fun orderly :: "vhost_state \<Rightarrow> vhost_request \<Rightarrow> bool" where
  "orderly S (RELEASE fh) = (fh \<in> set (handles (ll_root S)))"
| "orderly S (RESET_OWNER fh) = (\<forall>x \<in> set (handles (ll_root S)). fh \<le> x)"
| "orderly S _ = True"

lemma length_update_first [simp]: "length (update_first fh f ll) = length ll"
  by (induction ll) auto

lemma sorted_reset:
  assumes "sorted_wrt (<) (handles ll)" "fh \<in> set (handles ll)"
  shows "sorted_wrt (<) (handles (update_first fh init_device ll)) \<longleftrightarrow> (\<forall>x \<in> set (handles ll). fh \<le> x)"
proof (cases ll)
  case (Cons d rest)
  have zero: "fh \<in> set (handles xs) \<Longrightarrow> 0 \<in> set (handles (update_first fh init_device xs))" for xs
    by (induction xs) (auto simp: init_device_def)
  show ?thesis
  proof (cases "device_fh d = fh")
    case True
    then have up: "\<forall>x \<in> set (handles rest). fh < x" using assms(1) Cons by simp
    then have "\<forall>x \<in> set (handles rest). 0 < x" using le_less_trans [OF word_zero_le, of fh] by blast
    then show ?thesis using True assms(1) Cons up by (auto simp: init_device_def)
  next
    case False
    then have f: "fh \<in> set (handles rest)" using assms(2) Cons by auto
    then have "device_fh d < fh" using assms(1) Cons by auto
    moreover have "\<not> device_fh d < 0" by (simp add: word_less_nat_alt)
    then have "\<not> sorted_wrt (<) (handles (update_first fh init_device ll))" using False zero [OF f] unfolding Cons
      by (simp only: update_first.simps list.map sorted_wrt.simps if_False) blast
    ultimately show ?thesis unfolding Cons by (simp add: not_le)
  qed
qed (use assms in simp)

lemma update_vq_ll_ok: "update_vq fh i f S = Some S' \<Longrightarrow> ll_ok S \<Longrightarrow> ll_ok S'"
  by (auto simp: update_vq_def ll_ok_update_dev split: if_splits)

lemma ll_ok_vports [simp]: "ll_ok (S\<lparr>vst_vports := t\<rparr>) = ll_ok S"
  by (simp add: ll_ok_def)

lemma vhost_new_device_ll_ok: "vhost_new_device cfg dev S = Some (r, S') \<Longrightarrow> ll_ok S \<Longrightarrow> ll_ok S'"
  by (auto simp: vhost_new_device_def ll_ok_update_dev split: bind_splits prod.splits if_splits)

lemma vhost_destroy_device_ll_ok: "ll_ok (vhost_destroy_device cfg dev S) = ll_ok S"
  by (simp add: vhost_destroy_device_def ll_ok_update_dev split: prod.splits)

lemma set_vring_addr_ll_ok: "set_vring_addr fh i d a u S = Some (r, S') \<Longrightarrow> ll_ok S \<Longrightarrow> ll_ok S'"
  unfolding set_vring_addr_def Let_def
  by (auto split: option.splits mem_ref.splits bind_splits if_splits dest!: update_vq_ll_ok)

lemma set_backend_ll_ok: "set_backend cfg tap fh i fd S = Some (r, S') \<Longrightarrow> ll_ok S \<Longrightarrow> ll_ok S'"
  unfolding set_backend_def Let_def
  by (auto split: option.splits bind_splits if_splits prod.splits
      dest!: update_vq_ll_ok dest: vhost_new_device_ll_ok simp: ll_ok_update_dev vhost_destroy_device_ll_ok)

lemma set_mem_table_ll_ok: "set_mem_table hm ok fh rs S = Some (r, S') \<Longrightarrow> ll_ok S \<Longrightarrow> ll_ok S'"
  unfolding set_mem_table_def Let_def
  by (auto split: option.splits mem_ref.splits if_splits simp: ll_ok_update_dev)

lemma release_ll_ok:
  assumes "ll_ok S" "destroy_device cfg fh S = Some S'"
  shows "ll_ok S' \<longleftrightarrow> fh \<in> set (handles (ll_root S))"
proof (cases "get_device fh (ll_root S)")
  case None
  then have "S' = S\<lparr>num_cur_devices := num_cur_devices S - 1\<rparr>" using assms(2) by (simp add: destroy_device_def)
  moreover have "unat (num_cur_devices S - 1) \<noteq> unat (num_cur_devices S)" by (simp add: word_unat_eq_iff [symmetric])
  ultimately show ?thesis using assms(1) None get_device_None [of fh "ll_root S"] by (auto simp: ll_ok_def)
next
  case (Some dev)
  then have "fh \<in> set (handles (ll_root S))" using get_device_None [of fh "ll_root S"] by (metis option.distinct(1))
  then show ?thesis using destroy_device_ok [OF assms] Some by simp
qed

lemma reset_ll_ok:
  assumes "ll_ok S" "reset_owner fh S = Some (r, S')"
  shows "ll_ok S' \<longleftrightarrow> (\<forall>x \<in> set (handles (ll_root S)). fh \<le> x)"
proof -
  have S': "S' = update_dev fh init_device S" "get_device fh (ll_root S) \<noteq> None" using assms(2) by (auto simp: reset_owner_def split: Option.bind_splits)
  have "fh \<in> set (handles (ll_root S))" using S'(2) get_device_None by metis
  then show ?thesis using assms(1) sorted_reset [of "ll_root S" fh] by (simp add: ll_ok_def S'(1) update_dev_def)
qed

lemma vhost_step_ll_ok:
  assumes "vhost_step cfg S req S'" "ll_ok S"
  shows "ll_ok S' \<longleftrightarrow> orderly S req"
  using assms
proof (induction rule: vhost_step.induct)
  case (step_features F fh pu S r S')
  then show ?case by (auto simp: set_features_def ll_ok_update_dev Let_def split: if_splits)
next
  case (step_release fh S S')
  then show ?case using release_ll_ok by simp
next
  case (step_reset fh S r S')
  then show ?case using reset_ll_ok by simp
qed (auto dest: new_device_ok set_mem_table_ll_ok set_vring_addr_ll_ok set_backend_ll_ok update_vq_ll_ok
    simp: set_vring_num_def set_vring_base_def set_vring_call_def set_vring_kick_def split: if_splits bind_splits)

text \<open>C37: Which requests keep the list of devices. In every state that is reached from the start, without devices, by requests other than
  a release of a device that is not in the list and a reset of the owner of a device that is not the first, the handles in the list are
  strictly increasing, hence unique, and the counter of devices equals the length of the list, at most 64. In such a state exactly
  these two requests break that: the counter is decremented for a device that is not there, and the reset clears the handle with the
  rest of the device.\<close>

theorem vhost_requests_keep_list:
  assumes "(\<lambda>S S'. \<exists>req. orderly S req \<and> vhost_step cfg S req S')\<^sup>*\<^sup>* \<lparr>ll_root = [], num_cur_devices = 0, vst_vports = t\<rparr> S"
  shows "sorted_wrt (<) (map device_fh (ll_root S)) \<and> unat (num_cur_devices S) = length (ll_root S) \<and> length (ll_root S) \<le> 64 \<and>
    (\<forall>req S'. vhost_step cfg S req S' \<longrightarrow>
      (sorted_wrt (<) (map device_fh (ll_root S')) \<and> unat (num_cur_devices S') = length (ll_root S') \<and> length (ll_root S') \<le> 64 \<longleftrightarrow> orderly S req))"
proof -
  have "ll_ok S"
    using assms by (induction rule: rtranclp_induct) (auto simp: ll_ok_def [of "\<lparr>ll_root = [], num_cur_devices = 0, vst_vports = t\<rparr>"]
      vhost_step_ll_ok)
  then show ?thesis using vhost_step_ll_ok [where S = S, unfolded ll_ok_def] unfolding ll_ok_def by blast
qed

text \<open>Two devices are opened; then the owner of the second is reset.\<close>

theorem vhost_requests_keep_list_witness:
  "let S = snd (new_device True True True (snd (new_device True True True \<lparr>ll_root = [], num_cur_devices = 0, vst_vports = vport_init example_cfg\<rparr>)));
       S' = snd (the (reset_owner 1 S))
   in map device_fh (ll_root S) = [0, 1] \<and> unat (num_cur_devices S) = 2 \<and> \<not> sorted_wrt (<) (map device_fh (ll_root S'))"
proof -
  let ?S0 = "\<lparr>ll_root = [], num_cur_devices = 0, vst_vports = vport_init example_cfg\<rparr>"
  define S where "S = snd (new_device True True True (snd (new_device True True True ?S0)))"
  let ?step = "\<lambda>S S'. \<exists>req. orderly S req \<and> vhost_step example_cfg S req S'"
  have opened: "?step S (snd (new_device True True True S))" for S
    by (intro exI [of _ OPEN] conjI) (simp, rule step_open [OF prod.collapse [symmetric]])
  have run: "?step\<^sup>*\<^sup>* ?S0 S" unfolding S_def using opened by (intro rtranclp.rtrancl_into_rtrancl [OF r_into_rtranclp])
  have S: "S = \<lparr>ll_root = [blank_device, blank_device\<lparr>device_fh := 1\<rparr>], num_cur_devices = 2, vst_vports = vport_init example_cfg\<rparr>"
    by (simp add: S_def new_device_def num_devices_def init_device_def blank_device_def)
  then have r: "reset_owner 1 S = Some (0, snd (the (reset_owner 1 S)))"
    by (simp add: reset_owner_def get_device_def blank_device_def cleanup_device_def)
  have "\<not> orderly S (RESET_OWNER 1)" by (simp add: S blank_device_def)
  moreover have l: "length (ll_root (snd (the (reset_owner 1 S)))) = 2" "num_cur_devices (snd (the (reset_owner 1 S))) = 2"
    by (simp_all add: S reset_owner_def get_device_def blank_device_def cleanup_device_def update_dev_def)
  ultimately have "\<not> sorted_wrt (<) (map device_fh (ll_root (snd (the (reset_owner 1 S)))))"
    using vhost_requests_keep_list [OF run, THEN conjunct2, THEN conjunct2, THEN conjunct2, rule_format, OF step_reset [OF r]] by simp
  then show ?thesis unfolding Let_def S_def [symmetric] by (simp add: S blank_device_def)
qed

section \<open>Starting and stopping a device\<close>

lemma get_update_dev:
  "(\<And>d. device_fh (f d) = device_fh d) \<Longrightarrow> get_device fh (ll_root (update_dev fh f S)) = map_option f (get_device fh (ll_root S))"
  by (simp add: update_dev_def get_device_update)

lemma vhost_find_dev: "vport_vhost_find cfg (t(i := (t i)\<lparr>vi_dev := x\<rparr>)) n = vport_vhost_find cfg t n"
proof -
  have "vi_name ((t(i := (t i)\<lparr>vi_dev := x\<rparr>)) j) = vi_name (t j)" for j by simp
  then show ?thesis by (simp only: vport_vhost_find_def)
qed

lemma vports_update_dev [simp]: "vst_vports (update_dev fh f S) = vst_vports S"
  by (simp add: update_dev_def)

text \<open>C38: Setting the back end of the transmit queue of a device whose receive queue has one attaches the device to the first vhost port
  that has the name kept in the device and marks it as running; the request fails and nothing is attached when no port has the
  name. Setting the back end to -1 afterwards detaches it again. The name kept is that of the tap device, followed by the tail of the
  name from an earlier start when that one was longer: the copy writes no terminating null.\<close>

theorem set_backend_start_stop:
  assumes "get_device fh (ll_root S) = Some dev" "\<not> running dev" "vq_backend (rxq dev) \<noteq> VIRTIO_DEV_STOPPED"
    and "vq_used (rxq dev) \<noteq> 0" "vq_used (txq dev) \<noteq> 0" "length tap_name < VPORT_INFO_NAMESZ" "fd \<noteq> VIRTIO_DEV_STOPPED"
    and "name = tap_name @ drop (length tap_name) (port_name dev)"
  shows "\<exists>r S1. set_backend cfg (Some tap_name) fh 1 fd S = Some (r, S1) \<and> map_option port_name (get_device fh (ll_root S1)) = Some name \<and>
    (case vport_vhost_find cfg (vst_vports S) name of
      None \<Rightarrow> r = -1 \<and> vst_vports S1 = vst_vports S \<and> map_option running (get_device fh (ll_root S1)) = Some False
    | Some v \<Rightarrow> r = 0 \<and> vst_vports S1 = (vst_vports S)(VHOST0 + v := (vst_vports S (VHOST0 + v))\<lparr>vi_dev := Some (unat fh)\<rparr>) \<and>
        map_option running (get_device fh (ll_root S1)) = Some True \<and>
        (\<exists>S2. set_backend cfg tap fh 1 VIRTIO_DEV_STOPPED S1 = Some (0, S2) \<and>
          vi_dev (vst_vports S2 (VHOST0 + v)) = None \<and> map_option running (get_device fh (ll_root S2)) = Some False))"
proof -
  have fh: "device_fh dev = fh" using get_device_Some [OF assms(1)] by simp
  let ?d1 = "dev\<lparr>txq := (txq dev)\<lparr>vq_backend := fd\<rparr>\<rparr>"
  let ?Sa = "update_dev fh (\<lambda>d. d\<lparr>txq := (txq d)\<lparr>vq_backend := fd\<rparr>\<rparr>) S"
  let ?Sb = "update_dev fh (\<lambda>d. d\<lparr>port_name := name\<rparr>) ?Sa"
  have a: "get_device fh (ll_root ?Sa) = Some ?d1" "get_device fh (ll_root ?Sb) = Some (?d1\<lparr>port_name := name\<rparr>)"
    by (simp_all add: get_update_dev assms(1))
  have n: "get_port_name (Some tap_name) (port_name dev) = Some name" using assms(6,8) by (simp add: get_port_name_def)
  have e: "set_backend cfg (Some tap_name) fh 1 fd S =
      (vhost_new_device cfg (?d1\<lparr>port_name := name\<rparr>) ?Sb \<bind> (\<lambda>(r, S). Some (if r < 0 then -1 else 0, S)))"
    using assms(1-5,7) a n by (simp add: set_backend_def update_vq_def)
  have i: "set_irq_status (?d1\<lparr>port_name := name\<rparr>) = Some ()" using assms(4,5) by (simp add: set_irq_status_def)
  show ?thesis
  proof (cases "vport_vhost_find cfg (vst_vports S) name")
    case None
    then show ?thesis
      unfolding e using assms(2) a(2) by (simp add: vhost_new_device_def i vport_vhost_up_def)
  next
    case (Some v)
    let ?t = "(vst_vports S)(VHOST0 + v := (vst_vports S (VHOST0 + v))\<lparr>vi_dev := Some (unat fh)\<rparr>)"
    let ?d2 = "?d1\<lparr>port_name := name, running := True\<rparr>"
    define S1 where "S1 = update_dev fh (\<lambda>d. d\<lparr>running := True\<rparr>) (?Sb\<lparr>vst_vports := ?t\<rparr>)"
    have S1: "set_backend cfg (Some tap_name) fh 1 fd S = Some (0, S1)"
      using Some unfolding e by (simp add: vhost_new_device_def i vport_vhost_up_def fh S1_def)
    have "ll_root (?Sb\<lparr>vst_vports := ?t\<rparr>) = ll_root ?Sb" by simp
    then have d2: "get_device fh (ll_root S1) = Some ?d2" using assms(1) by (simp add: S1_def get_update_dev)
    have t: "vst_vports S1 = ?t" by (simp add: S1_def)
    have f: "vport_vhost_find cfg ?t name = Some v"
      using Some vhost_find_dev [of cfg "vst_vports S" "VHOST0 + v" "Some (unat fh)" name] by simp
    let ?S = "update_dev fh (\<lambda>d. d\<lparr>txq := (txq d)\<lparr>vq_backend := VIRTIO_DEV_STOPPED\<rparr>\<rparr>) S1"
    let ?d3 = "?d2\<lparr>txq := (txq ?d2)\<lparr>vq_backend := VIRTIO_DEV_STOPPED\<rparr>\<rparr>"
    have d3: "get_device fh (ll_root ?S) = Some ?d3" using d2 by (simp add: get_update_dev)
    have "set_backend cfg tap fh 1 VIRTIO_DEV_STOPPED S1 = Some (0, vhost_destroy_device cfg ?d3 ?S)"
      using d2 d3 by (simp add: set_backend_def update_vq_def)
    moreover have "vi_dev (vst_vports (vhost_destroy_device cfg ?d3 ?S) (VHOST0 + v)) = None"
      by (simp add: vhost_destroy_device_def t vport_vhost_down_def f)
    moreover have "map_option running (get_device fh (ll_root (vhost_destroy_device cfg ?d3 ?S))) = Some False"
      using d2 by (simp add: vhost_destroy_device_def fh get_update_dev option.map_comp split: prod.splits)
    ultimately show ?thesis using Some S1 d2 t by simp
  qed
qed

text \<open>A device that was stopped after a start as tap10, and is started as tap1: it is attached to the port of tap10 again.\<close>

definition started_dev :: "string \<Rightarrow> virtio_net" where
  "started_dev old = blank_device\<lparr>rxq := zero_vq\<lparr>vq_backend := 5, vq_used := 1\<rparr>, txq := zero_vq\<lparr>vq_used := 1\<rparr>, port_name := old\<rparr>"

definition started_vhost :: "string \<Rightarrow> vhost_state" where
  "started_vhost old = \<lparr>ll_root = [started_dev old], num_cur_devices = 1,
     vst_vports = (\<lambda>i. zero_vport\<lparr>vi_name := if i = VHOST0 then ''tap1'' else ''tap10''\<rparr>)\<rparr>"

theorem set_backend_start_stop_witness:
  "(\<exists>S1 S2. set_backend example_cfg (Some ''tap1'') 0 1 6 (started_vhost []) = Some (0, S1) \<and> vi_dev (vst_vports S1 0x50) = Some 0 \<and>
     set_backend example_cfg None 0 1 VIRTIO_DEV_STOPPED S1 = Some (0, S2) \<and> vi_dev (vst_vports S2 0x50) = None) \<and>
   (\<exists>S1. set_backend example_cfg (Some ''tap1'') 0 1 6 (started_vhost ''tap10'') = Some (0, S1) \<and> vi_dev (vst_vports S1 0x50) = None \<and>
     vi_dev (vst_vports S1 0x51) = Some 0)"
proof -
  have f: "vport_vhost_find example_cfg (vst_vports (started_vhost old)) ''tap1'' = Some 0"
    "vport_vhost_find example_cfg (vst_vports (started_vhost old)) ''tap10'' = Some 1" for old
    by (simp_all add: vport_vhost_find_def started_vhost_def example_cfg_def zero_vport_def vhost_name_matches_def
        strncmp_eq_def find_from_def upt_rec VHOST0_def)
  have d: "get_device 0 (ll_root (started_vhost old)) = Some (started_dev old)" for old
    by (simp add: started_vhost_def started_dev_def get_device_def blank_device_def)
  have v: "vi_dev (vst_vports (started_vhost old) i) = None" for old i by (simp add: started_vhost_def zero_vport_def)
  note w = set_backend_start_stop [OF d, of _ "''tap1''" 6 _ example_cfg None]
  show ?thesis
    using w [of "[]"] w [of "''tap10''"] f v
    by (auto simp: started_dev_def blank_device_def zero_vq_def VIRTIO_DEV_STOPPED_def VPORT_INFO_NAMESZ_def VHOST0_def)
qed

end
