(* ===== verification/Dpdk.thy ===== *)
theory Dpdk
  imports Virtio "HOL-Library.Multiset"
begin

text \<open>
  The state of the packet path and the part of the DPDK library it uses. The library is not part of the repository:
  its packet buffers (mbufs), rings, KNI fifos and Ethernet devices are a parameter, a record of functions on an
  opaque state. An mbuf is a number; its header lies in the state of the datapath, because the datapath writes it,
  and points into a buffer, which a clone shares with its original. Every mbuf has one segment.

  What the code relies on is \<open>dpdk_ok\<close>: the library accounts for every mbuf it is given. Its abstraction is the
  multiset of mbufs the library holds, in pools, rings, fifos and devices alike.
\<close>

section \<open>The library\<close>

datatype ring = PORT_TX nat | CLIENT_RX nat | CLIENT_TX nat | CLIENT_FREE nat
  | VSWITCHD_PACKET | VSWITCHD_REPLY | VSWITCHD_MESSAGE | VSWITCHD_FREE | VSWITCHD_ALLOC

datatype kni_dev = KNI_DEV nat | VETH_DEV nat

record 'w dpdk =
  pktmbuf_free :: "nat \<Rightarrow> 'w \<Rightarrow> 'w"
  pktmbuf_alloc :: "'w \<Rightarrow> nat option \<times> 'w"
  pktmbuf_clone :: "nat \<Rightarrow> 'w \<Rightarrow> nat option \<times> 'w"
  ring_enqueue :: "ring \<Rightarrow> nat \<Rightarrow> 'w \<Rightarrow> int \<times> 'w"
  ring_enqueue_burst :: "ring \<Rightarrow> nat list \<Rightarrow> 'w \<Rightarrow> nat \<times> 'w"
  ring_dequeue_burst :: "ring \<Rightarrow> nat \<Rightarrow> 'w \<Rightarrow> nat list \<times> 'w"
  ring_dequeue_bulk :: "ring \<Rightarrow> nat \<Rightarrow> 'w \<Rightarrow> nat list option \<times> 'w"
  ring_enqueue_bulk :: "ring \<Rightarrow> nat list \<Rightarrow> 'w \<Rightarrow> int \<times> 'w"
  ring_count :: "ring \<Rightarrow> 'w \<Rightarrow> nat"
  kni_tx_burst :: "kni_dev \<Rightarrow> nat list \<Rightarrow> 'w \<Rightarrow> nat \<times> 'w"
  kni_rx_burst :: "kni_dev \<Rightarrow> nat \<Rightarrow> 'w \<Rightarrow> nat list \<times> 'w"
  kni_handle_request :: "kni_dev \<Rightarrow> 'w \<Rightarrow> 'w"
  eth_tx_burst :: "nat \<Rightarrow> nat list \<Rightarrow> 'w \<Rightarrow> nat \<times> 'w"
  eth_rx_burst :: "nat \<Rightarrow> nat \<Rightarrow> 'w \<Rightarrow> nat list \<times> 'w"
  rdtsc :: "'w \<Rightarrow> u64 \<times> 'w"
  pktmbuf_headroom :: nat

text \<open>
  The documented accounting. A burst sends or queues a prefix of its packets; a single enqueue takes the packet
  unless it returns \<open>-ENOBUFS\<close> (\<open>-EDQUOT\<close> says that it was queued above the watermark); a bulk operation moves all
  packets or none.
\<close>

definition gives :: "('w \<Rightarrow> nat multiset) \<Rightarrow> nat list \<times> 'w \<Rightarrow> 'w \<Rightarrow> nat \<Rightarrow> bool" where
  "gives holds res w n \<longleftrightarrow> (case res of (ms, w') \<Rightarrow> length ms \<le> n \<and> holds w = mset ms + holds w')"

definition takes :: "('w \<Rightarrow> nat multiset) \<Rightarrow> nat \<times> 'w \<Rightarrow> 'w \<Rightarrow> nat list \<Rightarrow> bool" where
  "takes holds res w ms \<longleftrightarrow> (case res of (k, w') \<Rightarrow> k \<le> length ms \<and> holds w' = mset (take k ms) + holds w)"

definition fetches :: "('w \<Rightarrow> nat multiset) \<Rightarrow> nat option \<times> 'w \<Rightarrow> 'w \<Rightarrow> bool" where
  "fetches holds res w \<longleftrightarrow> (case res of (None, w') \<Rightarrow> holds w' = holds w | (Some m, w') \<Rightarrow> holds w = add_mset m (holds w'))"

definition dpdk_ok :: "'w dpdk \<Rightarrow> ('w \<Rightarrow> nat multiset) \<Rightarrow> bool" where
  "dpdk_ok L holds \<longleftrightarrow>
     (\<forall>m w. holds (pktmbuf_free L m w) = add_mset m (holds w)) \<and>
     (\<forall>w. fetches holds (pktmbuf_alloc L w) w) \<and>
     (\<forall>m w. fetches holds (pktmbuf_clone L m w) w) \<and>
     (\<forall>q m w r w'. ring_enqueue L q m w = (r, w') \<longrightarrow>
        r = - ENOBUFS \<and> holds w' = holds w \<or> (r = 0 \<or> r = - EDQUOT) \<and> holds w' = add_mset m (holds w)) \<and>
     (\<forall>q ms w. takes holds (ring_enqueue_burst L q ms w) w ms) \<and>
     (\<forall>q n w. gives holds (ring_dequeue_burst L q n w) w n) \<and>
     (\<forall>q n w. case ring_dequeue_bulk L q n w of
        (None, w') \<Rightarrow> holds w' = holds w | (Some ms, w') \<Rightarrow> length ms = n \<and> holds w = mset ms + holds w') \<and>
     (\<forall>q ms w r w'. ring_enqueue_bulk L q ms w = (r, w') \<longrightarrow>
        r = - ENOBUFS \<and> holds w' = holds w \<or> (r = 0 \<or> r = - EDQUOT) \<and> holds w' = mset ms + holds w) \<and>
     (\<forall>d ms w. takes holds (kni_tx_burst L d ms w) w ms) \<and>
     (\<forall>d n w. gives holds (kni_rx_burst L d n w) w n) \<and>
     (\<forall>d w. holds (kni_handle_request L d w) = holds w) \<and>
     (\<forall>p ms w. takes holds (eth_tx_burst L p ms w) w ms) \<and>
     (\<forall>p n w. gives holds (eth_rx_burst L p n w) w n) \<and>
     (\<forall>w. holds (snd (rdtsc L w)) = holds w)"

section \<open>The state of the packet path\<close>

record rte_mbuf =
  mb_buf :: nat
  mb_off :: nat
  mb_data_len :: u16
  mb_pkt_len :: u32

text \<open>
  The rings of a virtqueue, in the guest's memory: descriptors, the available ring, whose index the guest may move
  at any time (\<open>gq_avail_idx n\<close> is the value at the \<open>n\<close>-th read of a burst), and the used ring.
\<close>

record vring_desc =
  desc_addr :: u64
  desc_len :: u32
  desc_flags :: u16
  desc_next :: u16

record guest_queue =
  gq_desc :: "vring_desc list"
  gq_avail_idx :: "nat \<Rightarrow> u16"
  gq_avail_ring :: "u16 list"
  gq_used_idx :: u16
  gq_used_ring :: "(u32 \<times> u32) list"

text \<open>
  A device on the data path: its negotiated features, its memory table, both virtqueues with their rings, and the
  guest's memory as the datapath has it mapped.
\<close>

record vhost_dev =
  vd_features :: u64
  vd_mem :: virtio_memory
  vd_rxq :: vhost_virtqueue
  vd_txq :: vhost_virtqueue
  vd_rx_rings :: guest_queue
  vd_tx_rings :: guest_queue
  vd_host :: "u64 \<rightharpoonup> u8"

record 'w dp =
  d_lib :: 'w
  d_mbuf :: "nat \<Rightarrow> rte_mbuf"
  d_buf :: "nat \<Rightarrow> bytes"
  d_stats :: statistics
  d_vports :: vport_table
  d_client_cache :: "nat \<Rightarrow> nat \<Rightarrow> nat list"
  d_port_cache :: "nat \<Rightarrow> nat \<Rightarrow> nat list"
  d_vhost_cache :: "nat \<Rightarrow> nat \<Rightarrow> nat list"
  d_prev_tsc :: "nat \<Rightarrow> u64"
  d_dev :: "nat \<Rightarrow> vhost_dev"

text \<open>
  What does not change while the datapath runs: the library, the core that runs, the number of cores, the row of
  each core in the caches, the configuration.
\<close>

record 'w env =
  e_lib :: "'w dpdk"
  e_lcore :: nat
  e_cores :: nat
  e_lcore_map :: "nat \<Rightarrow> nat"
  e_cfg :: vport_cfg
  e_flush_period :: u64

abbreviation num_phy_ports :: "vport_cfg \<Rightarrow> nat" where
  "num_phy_ports cfg \<equiv> length (cfg_ports cfg)"

definition PKT_BURST_SIZE :: nat where "PKT_BURST_SIZE = 32"
definition LOCAL_MBUF_CACHE_SIZE :: nat where "LOCAL_MBUF_CACHE_SIZE = 32"

text \<open>Calls of the library and of the statistics in the state.\<close>

definition mbuf_free :: "'w env \<Rightarrow> nat \<Rightarrow> 'w dp \<Rightarrow> 'w dp" where
  "mbuf_free E m s = s\<lparr>d_lib := pktmbuf_free (e_lib E) m (d_lib s)\<rparr>"

definition upd_stats :: "(statistics \<Rightarrow> statistics) \<Rightarrow> 'w dp \<Rightarrow> 'w dp" where
  "upd_stats f s = s\<lparr>d_stats := f (d_stats s)\<rparr>"

text \<open>A fresh mbuf: empty, with its own buffer and the headroom of the library's configuration.\<close>

definition mbuf_alloc :: "'w env \<Rightarrow> 'w dp \<Rightarrow> nat option \<times> 'w dp" where
  "mbuf_alloc E s = (case pktmbuf_alloc (e_lib E) (d_lib s) of
       (None, w) \<Rightarrow> (None, s\<lparr>d_lib := w\<rparr>)
     | (Some m, w) \<Rightarrow> (Some m, s\<lparr>d_lib := w,
         d_mbuf := (d_mbuf s)(m := \<lparr>mb_buf = m, mb_off = pktmbuf_headroom (e_lib E), mb_data_len = 0, mb_pkt_len = 0\<rparr>)\<rparr>))"

text \<open>A clone has its own header, with the fields of the original, and the same data.\<close>

definition mbuf_clone :: "'w env \<Rightarrow> nat \<Rightarrow> 'w dp \<Rightarrow> nat option \<times> 'w dp" where
  "mbuf_clone E m s = (case pktmbuf_clone (e_lib E) m (d_lib s) of
       (None, w) \<Rightarrow> (None, s\<lparr>d_lib := w\<rparr>)
     | (Some c, w) \<Rightarrow> (Some c, s\<lparr>d_lib := w, d_mbuf := (d_mbuf s)(c := d_mbuf s m)\<rparr>))"

text \<open>The memory of a packet from its first byte on (\<open>rte_pktmbuf_mtod\<close>), and its data.\<close>

definition mtod :: "'w dp \<Rightarrow> nat \<Rightarrow> bytes" where
  "mtod s m = drop (mb_off (d_mbuf s m)) (d_buf s (mb_buf (d_mbuf s m)))"

definition pkt_data :: "'w dp \<Rightarrow> nat \<Rightarrow> bytes" where
  "pkt_data s m = take (unat (mb_data_len (d_mbuf s m))) (mtod s m)"

text \<open>The data lies in the buffer; otherwise reading it is undefined.\<close>

definition pkt_fits :: "'w dp \<Rightarrow> nat \<Rightarrow> bool" where
  "pkt_fits s m \<longleftrightarrow> unat (mb_data_len (d_mbuf s m)) \<le> length (mtod s m)"

section \<open>Accounting of mbufs\<close>

text \<open>
  The mbufs of the datapath: those the library holds and those in the caches of a core. \<open>cores\<close> bounds the rows of
  the caches, and 256 their columns.
\<close>

definition cache_sum :: "nat \<Rightarrow> (nat \<Rightarrow> nat \<Rightarrow> nat list) \<Rightarrow> nat multiset" where
  "cache_sum cores c = (\<Sum>l < cores. \<Sum>p < MAX_VPORTS. mset (c l p))"

definition owned :: "('w \<Rightarrow> nat multiset) \<Rightarrow> nat \<Rightarrow> 'w dp \<Rightarrow> nat multiset" where
  "owned holds cores s = holds (d_lib s) + cache_sum cores (d_client_cache s) + cache_sum cores (d_port_cache s) +
     cache_sum cores (d_vhost_cache s)"

lemma cache_sum_upd:
  assumes "l < cores" "p < MAX_VPORTS"
  shows "cache_sum cores (c(l := (c l)(p := ms))) + mset (c l p) = cache_sum cores c + mset ms"
proof -
  let ?row = "\<lambda>f. \<Sum>p < MAX_VPORTS. mset (f p)"
  have row: "?row (f(p := ms)) + mset (f p) = ?row f + mset ms" for f :: "nat \<Rightarrow> nat list"
  proof -
    have "?row (f(p := ms)) = mset ms + (\<Sum>q \<in> {..<MAX_VPORTS} - {p}. mset (f q))"
      using assms(2) by (subst sum.remove [of _ p]) (auto intro!: arg_cong2 [where f = "(+)"] sum.cong)
    moreover have "?row f = mset (f p) + (\<Sum>q \<in> {..<MAX_VPORTS} - {p}. mset (f q))"
      using assms(2) by (subst sum.remove [of _ p]) auto
    ultimately show ?thesis by simp
  qed
  have "cache_sum cores (c(l := g)) = ?row g + (\<Sum>k \<in> {..<cores} - {l}. ?row (c k))" for g
    unfolding cache_sum_def using assms(1)
    by (subst sum.remove [of _ l]) (auto intro!: arg_cong2 [where f = "(+)"] sum.cong)
  moreover have "cache_sum cores c = ?row (c l) + (\<Sum>k \<in> {..<cores} - {l}. ?row (c k))"
    unfolding cache_sum_def using assms(1) by (subst sum.remove [of _ l]) auto
  ultimately show ?thesis using row [of "c l"] by simp
qed

lemma owned_stats [simp]: "owned holds cores (upd_stats f s) = owned holds cores s"
  by (simp add: owned_def upd_stats_def)

lemma dpdk_free: "dpdk_ok L holds \<Longrightarrow> holds (pktmbuf_free L m w) = add_mset m (holds w)"
  by (simp add: dpdk_ok_def)

lemma owned_free: "dpdk_ok (e_lib E) holds \<Longrightarrow> owned holds cores (mbuf_free E m s) = add_mset m (owned holds cores s)"
  by (simp add: owned_def mbuf_free_def dpdk_free)

lemma owned_lib:
  "owned holds cores (s\<lparr>d_lib := w\<rparr>) + holds (d_lib s) = owned holds cores s + holds w"
  by (simp add: owned_def)

lemma owned_alloc:
  assumes "dpdk_ok (e_lib E) holds" "mbuf_alloc E s = (r, s')"
  shows "owned holds cores s = (case r of None \<Rightarrow> {#} | Some m \<Rightarrow> {#m#}) + owned holds cores s'"
proof -
  have "fetches holds (pktmbuf_alloc (e_lib E) (d_lib s)) (d_lib s)" using assms(1) by (simp add: dpdk_ok_def)
  then show ?thesis using assms(2) by (auto simp: mbuf_alloc_def owned_def fetches_def split: prod.splits option.splits)
qed

lemma owned_clone:
  assumes "dpdk_ok (e_lib E) holds" "mbuf_clone E m s = (r, s')"
  shows "owned holds cores s = (case r of None \<Rightarrow> {#} | Some c \<Rightarrow> {#c#}) + owned holds cores s'"
proof -
  have "fetches holds (pktmbuf_clone (e_lib E) m (d_lib s)) (d_lib s)" using assms(1) by (simp add: dpdk_ok_def)
  then show ?thesis using assms(2) by (auto simp: mbuf_clone_def owned_def fetches_def split: prod.splits option.splits)
qed

text \<open>Devices, headers and buffers do not enter the account.\<close>

lemma owned_other [simp]:
  "owned holds cores (s\<lparr>d_dev := x\<rparr>) = owned holds cores s"
  "owned holds cores (s\<lparr>d_mbuf := y\<rparr>) = owned holds cores s"
  "owned holds cores (s\<lparr>d_buf := z\<rparr>) = owned holds cores s"
  "owned holds cores (s\<lparr>d_vports := t\<rparr>) = owned holds cores s"
  "owned holds cores (s\<lparr>d_prev_tsc := v\<rparr>) = owned holds cores s"
  by (simp_all add: owned_def)

section \<open>A library that meets the contract\<close>

text \<open>
  The state is the list of mbufs the library holds: what is freed or sent goes to its front and is given out again by
  the pool and by the clones; nothing is received. It shows that the contract can be met.
\<close>

definition pool_take :: "nat list \<Rightarrow> nat option \<times> nat list" where
  "pool_take w = (case w of [] \<Rightarrow> (None, []) | m # ms \<Rightarrow> (Some m, ms))"

definition pool_lib :: "nat list dpdk" where
  "pool_lib = \<lparr>pktmbuf_free = (\<lambda>m w. m # w), pktmbuf_alloc = pool_take, pktmbuf_clone = (\<lambda>_. pool_take),
     ring_enqueue = (\<lambda>_ m w. (0, m # w)), ring_enqueue_burst = (\<lambda>_ ms w. (length ms, ms @ w)),
     ring_dequeue_burst = (\<lambda>_ n w. ([], w)), ring_dequeue_bulk = (\<lambda>_ n w. (if n = 0 then Some [] else None, w)),
     ring_enqueue_bulk = (\<lambda>_ ms w. (0, ms @ w)), ring_count = (\<lambda>_ w. 0),
     kni_tx_burst = (\<lambda>_ ms w. (length ms, ms @ w)), kni_rx_burst = (\<lambda>_ n w. ([], w)), kni_handle_request = (\<lambda>_ w. w),
     eth_tx_burst = (\<lambda>_ ms w. (length ms, ms @ w)), eth_rx_burst = (\<lambda>_ n w. ([], w)), rdtsc = (\<lambda>w. (0, w)),
     pktmbuf_headroom = 128\<rparr>"

lemma pool_lib_ok: "dpdk_ok pool_lib mset"
  by (simp add: dpdk_ok_def pool_lib_def pool_take_def fetches_def takes_def gives_def split: list.splits)

definition example_env :: "nat list env" where
  "example_env = \<lparr>e_lib = pool_lib, e_lcore = 0, e_cores = 1, e_lcore_map = (\<lambda>_. 0), e_cfg = example_cfg, e_flush_period = 0\<rparr>"

lemma example_env_ok: "dpdk_ok (e_lib example_env) mset"
  by (simp add: example_env_def pool_lib_ok)

end
