(* ===== verification/VhostRing.thy ===== *)
theory VhostRing
  imports Dpdk
begin

text \<open>
  The virtqueues of vhost ports on the data path: \<open>vhost_enqueue_burst\<close> and \<open>vhost_dequeue_burst\<close> of
  \<open>datapath/dpdk/vport.c\<close>. The rings and the packet memory of the guest are apart. One core runs at a time, so the
  reservation of ring entries succeeds at once; when another core has unfinished entries before them, the wait for
  it does not end (\<open>None\<close>). An access outside of the descriptor table, a ring, the guest's mapped memory or the
  buffer of an mbuf is undefined (\<open>None\<close>). The interrupt to the guest at the end of a burst is not modelled.
\<close>

section \<open>Guest memory\<close>

definition host_store :: "(u64 \<rightharpoonup> u8) \<Rightarrow> u64 \<Rightarrow> bytes \<Rightarrow> (u64 \<rightharpoonup> u8) option" where
  "host_store h a bs = (if \<forall>i < length bs. h (a + of_nat i) \<noteq> None
     then Some (\<lambda>x. if unat (x - a) < length bs then Some (bs ! unat (x - a)) else h x) else None)"

definition host_load :: "(u64 \<rightharpoonup> u8) \<Rightarrow> u64 \<Rightarrow> nat \<Rightarrow> bytes option" where
  "host_load h a n = (if \<forall>i < n. h (a + of_nat i) \<noteq> None then Some (map (\<lambda>i. the (h (a + of_nat i))) [0..<n]) else None)"

definition get_nth :: "'a list \<Rightarrow> nat \<Rightarrow> 'a option" where
  "get_nth xs i = (if i < length xs then Some (xs ! i) else None)"

definition set_nth :: "'a list \<Rightarrow> nat \<Rightarrow> 'a \<Rightarrow> 'a list option" where
  "set_nth xs i v = (if i < length xs then Some (xs[i := v]) else None)"

text \<open>
  The place of an index in a ring: \<open>idx & (vq->size - 1)\<close>, in the 32 bits of the size. The index of the first head is
  widened before the number of the head is added to it.
\<close>

definition slot32 :: "vhost_virtqueue \<Rightarrow> u32 \<Rightarrow> nat" where
  "slot32 vq idx = unat (idx AND (vq_size vq - 1))"

definition slot :: "vhost_virtqueue \<Rightarrow> u16 \<Rightarrow> nat" where
  "slot vq idx = slot32 vq (ucast idx)"

fun read_heads :: "vhost_virtqueue \<Rightarrow> guest_queue \<Rightarrow> u32 \<Rightarrow> nat \<Rightarrow> u16 list option" where
  "read_heads vq g idx 0 = Some []"
| "read_heads vq g idx (Suc n) = do {
     h \<leftarrow> get_nth (gq_avail_ring g) (slot32 vq idx);
     hs \<leftarrow> read_heads vq g (idx + 1) n;
     Some (h # hs) }"

section \<open>To the guest\<close>

definition burst_tx_retry_num :: nat where "burst_tx_retry_num = 4"
definition MAX_MRG_PKT_BURST :: nat where "MAX_MRG_PKT_BURST = 16"
definition VRING_DESC_F_NEXT :: nat where "VRING_DESC_F_NEXT = 0"

text \<open>The free entries, read again after a delay while there are fewer than packets.\<close>

fun wait_free :: "(nat \<Rightarrow> u16) \<Rightarrow> u16 \<Rightarrow> nat \<Rightarrow> nat \<Rightarrow> nat \<Rightarrow> nat" where
  "wait_free avail base cnt i 0 = unat (avail i - base)"
| "wait_free avail base cnt i (Suc n) =
     (if cnt \<le> unat (avail i - base) then unat (avail i - base) else wait_free avail base cnt (Suc i) n)"

text \<open>The header before a packet; the final two bytes exist with mergeable buffers only.\<close>

definition virtio_hdr :: "u16 \<Rightarrow> u16 \<Rightarrow> bytes" where
  "virtio_hdr hlen num_buffers = take (unat hlen) (zeros 10 @ [lo8 num_buffers, hi8 num_buffers])"

record enq_state =
  eq_host :: "u64 \<rightharpoonup> u8"
  eq_desc :: "vring_desc list"
  eq_used :: "(u32 \<times> u32) list"
  eq_mrg :: nat
  eq_hdr_addr :: u64

text \<open>
  Where a packet goes: the address for its data and the length reported to the guest. Within a group of mergeable
  buffers the data fills the buffer; otherwise the header comes first, in a descriptor of its own when they are
  chained.
\<close>

definition place_packet :: "vhost_dev \<Rightarrow> bool \<Rightarrow> u16 \<Rightarrow> u16 \<Rightarrow> enq_state \<Rightarrow> (u64 \<times> u32 \<times> enq_state) option" where
  "place_packet dev mergeable head len st = do {
     desc \<leftarrow> get_nth (eq_desc st) (unat head);
     let buff_addr = gpa_to_vva (vd_mem dev) (desc_addr desc);
     let hlen = vhost_hlen (vd_rxq dev);
     if mergeable \<and> eq_mrg st \<noteq> 0 then
       Some (buff_addr, ucast len, st\<lparr>eq_desc := (eq_desc st)[unat head := desc\<lparr>desc_len := ucast len\<rparr>]\<rparr>)
     else do {
       let packet_len = ucast len + ucast hlen;
       let st = st\<lparr>eq_hdr_addr := buff_addr\<rparr>;
       if bit (desc_flags desc) VRING_DESC_F_NEXT then do {
         let st = st\<lparr>eq_desc := (eq_desc st)[unat head := desc\<lparr>desc_len := ucast hlen\<rparr>]\<rparr>;
         d2 \<leftarrow> get_nth (eq_desc st) (unat (desc_next desc));
         Some (gpa_to_vva (vd_mem dev) (desc_addr d2), packet_len,
               st\<lparr>eq_desc := (eq_desc st)[unat (desc_next desc) := d2\<lparr>desc_len := ucast len\<rparr>]\<rparr>) }
       else Some (buff_addr + ucast hlen, packet_len,
               st\<lparr>eq_desc := (eq_desc st)[unat head := desc\<lparr>desc_len := packet_len\<rparr>]\<rparr>) } }"

definition enqueue_packet :: "vhost_dev \<Rightarrow> bool \<Rightarrow> u16 \<Rightarrow> u16 \<Rightarrow> bool \<Rightarrow> bytes \<Rightarrow> enq_state \<Rightarrow> enq_state option" where
  "enqueue_packet dev mergeable head cur final pkt st = do {
     (buff_addr, packet_len, st) \<leftarrow> place_packet dev mergeable head (of_nat (length pkt)) st;
     used \<leftarrow> set_nth (eq_used st) (slot (vd_rxq dev) cur) (ucast head, packet_len);
     host \<leftarrow> host_store (eq_host st) buff_addr pkt;
     let st = st\<lparr>eq_used := used, eq_host := host\<rparr>;
     let hlen = vhost_hlen (vd_rxq dev);
     if \<not> mergeable then do {
       host \<leftarrow> host_store (eq_host st) (eq_hdr_addr st) (virtio_hdr hlen 0);
       Some (st\<lparr>eq_host := host\<rparr>) }
     else do {
       let st = st\<lparr>eq_mrg := eq_mrg st + 1\<rparr>;
       if eq_mrg st = MAX_MRG_PKT_BURST \<or> final then do {
         host \<leftarrow> host_store (eq_host st) (eq_hdr_addr st) (virtio_hdr hlen (of_nat (eq_mrg st)));
         Some (st\<lparr>eq_host := host, eq_mrg := 0\<rparr>) }
       else Some st } }"

fun enqueue_loop :: "vhost_dev \<Rightarrow> bool \<Rightarrow> u16 \<Rightarrow> u16 list \<Rightarrow> bytes list \<Rightarrow> enq_state \<Rightarrow> enq_state option" where
  "enqueue_loop dev mergeable cur (h # hs) (p # ps) st = do {
     st \<leftarrow> enqueue_packet dev mergeable h cur (hs = []) p st;
     enqueue_loop dev mergeable (cur + 1) hs ps st }"
| "enqueue_loop dev mergeable cur _ _ st = Some st"

definition vhost_enqueue_burst :: "vhost_dev \<Rightarrow> bytes list \<Rightarrow> (nat \<times> vhost_dev) option" where
  "vhost_enqueue_burst dev pkts =
     (let vq = vd_rxq dev; g = vd_rx_rings dev;
          cnt = min (length pkts) PKT_BURST_SIZE;
          base = last_used_idx_res vq;
          cnt = min cnt (wait_free (gq_avail_idx g) base cnt 0 burst_tx_retry_num)
      in if cnt = 0 then Some (0, dev)
         else do {
           let vq = vq\<lparr>last_used_idx_res := base + of_nat cnt\<rparr>;
           heads \<leftarrow> read_heads vq g (ucast base) cnt;
           st \<leftarrow> enqueue_loop (dev\<lparr>vd_rxq := vq\<rparr>) (bit (vd_features dev) VIRTIO_NET_F_MRG_RXBUF) base heads (take cnt pkts)
             \<lparr>eq_host = vd_host dev, eq_desc = gq_desc g, eq_used = gq_used_ring g, eq_mrg = 0, eq_hdr_addr = 0\<rparr>;
           if last_used_idx vq \<noteq> base then None
           else Some (cnt, dev\<lparr>vd_rxq := vq\<lparr>last_used_idx := base + of_nat cnt\<rparr>, vd_host := eq_host st,
             vd_rx_rings := g\<lparr>gq_desc := eq_desc st, gq_used_ring := eq_used st,
               gq_used_idx := gq_used_idx g + of_nat cnt\<rparr>\<rparr>) })"

section \<open>From the guest\<close>

definition DESC_PER_CACHELINE :: nat where "DESC_PER_CACHELINE = 4"

text \<open>The number of entries to take: at most \<open>cnt\<close>, and up to the end of a cache line of descriptors when there are many.\<close>

definition dequeue_count :: "u16 \<Rightarrow> u16 \<Rightarrow> nat \<Rightarrow> nat" where
  "dequeue_count avail_idx final cnt =
     (let free_entries = min (unat (avail_idx - final)) cnt
      in if free_entries > DESC_PER_CACHELINE then free_entries - (unat final + free_entries) mod DESC_PER_CACHELINE
         else free_entries)"

definition upd_dev :: "nat \<Rightarrow> (vhost_dev \<Rightarrow> vhost_dev) \<Rightarrow> 'w dp \<Rightarrow> 'w dp" where
  "upd_dev d f s = s\<lparr>d_dev := (d_dev s)(d := f (d_dev s d))\<rparr>"

text \<open>
  One entry: it is put into the used ring, then its data, behind the first descriptor with the header, is copied to
  a new mbuf. \<open>Inl\<close> is the early return when there is no mbuf. The length is the guest's, cut to 16 bits.
\<close>

definition dequeue_packet :: "'w env \<Rightarrow> nat \<Rightarrow> u16 \<Rightarrow> 'w dp \<Rightarrow> ('w dp + nat \<times> 'w dp) option" where
  "dequeue_packet E d head s = do {
     let dev = d_dev s d;
     let vq = vd_txq dev;
     let g = vd_tx_rings dev;
     d1 \<leftarrow> get_nth (gq_desc g) (unat head);
     desc \<leftarrow> get_nth (gq_desc g) (unat (desc_next d1));
     let buff_addr = gpa_to_vva (vd_mem dev) (desc_addr desc);
     used \<leftarrow> set_nth (gq_used_ring g) (slot vq (last_used_idx vq)) (ucast head, 0);
     let s = upd_dev d (\<lambda>dev. dev\<lparr>vd_tx_rings := g\<lparr>gq_used_ring := used\<rparr>\<rparr>) s;
     case mbuf_alloc E s of
       (None, s) \<Rightarrow> Some (Inl s)
     | (Some m, s) \<Rightarrow> do {
         let len = (ucast (desc_len desc) :: u16);
         let mb = (d_mbuf s m)\<lparr>mb_data_len := len, mb_pkt_len := ucast len\<rparr>;
         bs \<leftarrow> host_load (vd_host dev) buff_addr (unat len);
         buf \<leftarrow> stn (d_buf s (mb_buf mb)) (mb_off mb) bs;
         let s = s\<lparr>d_mbuf := (d_mbuf s)(m := mb), d_buf := (d_buf s)(mb_buf mb := buf)\<rparr>;
         Some (Inr (m, upd_dev d (\<lambda>dev. dev\<lparr>vd_txq := (vd_txq dev)\<lparr>last_used_idx := last_used_idx (vd_txq dev) + 1\<rparr>\<rparr>) s)) } }"

text \<open>The mbufs, and whether the loop ran to its end.\<close>

fun dequeue_loop :: "'w env \<Rightarrow> nat \<Rightarrow> u16 list \<Rightarrow> 'w dp \<Rightarrow> (nat list \<times> bool \<times> 'w dp) option" where
  "dequeue_loop E d [] s = Some ([], True, s)"
| "dequeue_loop E d (h # hs) s = do {
     r \<leftarrow> dequeue_packet E d h s;
     case r of Inl s \<Rightarrow> Some ([], False, s)
     | Inr (m, s) \<Rightarrow> do { (ms, full, s) \<leftarrow> dequeue_loop E d hs s; Some (m # ms, full, s) } }"

definition vhost_dequeue_burst :: "'w env \<Rightarrow> nat \<Rightarrow> nat \<Rightarrow> 'w dp \<Rightarrow> (nat list \<times> 'w dp) option" where
  "vhost_dequeue_burst E d cnt s =
     (let dev = d_dev s d; vq = vd_txq dev; g = vd_tx_rings dev; avail = gq_avail_idx g 0
      in if last_used_idx vq = avail then Some ([], s)
         else do {
           heads \<leftarrow> read_heads vq g (ucast (last_used_idx vq)) (dequeue_count avail (last_used_idx vq) cnt);
           (ms, full, s) \<leftarrow> dequeue_loop E d heads s;
           Some (ms, if full then upd_dev d (\<lambda>dev. dev\<lparr>vd_tx_rings := (vd_tx_rings dev)
               \<lparr>gq_used_idx := gq_used_idx (vd_tx_rings dev) + of_nat (length ms)\<rparr>\<rparr>) s else s) })"

section \<open>Guest memory after stores\<close>

definition patch :: "u64 \<Rightarrow> bytes \<Rightarrow> (u64 \<rightharpoonup> u8) \<Rightarrow> (u64 \<rightharpoonup> u8)" where
  "patch a bs h = (\<lambda>x. if unat (x - a) < length bs then Some (bs ! unat (x - a)) else h x)"

definition mapped :: "(u64 \<rightharpoonup> u8) \<Rightarrow> u64 \<Rightarrow> nat \<Rightarrow> bool" where
  "mapped h a n \<longleftrightarrow> (\<forall>i < n. h (a + of_nat i) \<noteq> None)"

lemma host_store_patch: "mapped h a (length bs) \<Longrightarrow> host_store h a bs = Some (patch a bs h)"
  by (simp add: host_store_def patch_def mapped_def)

lemma mapped_patch [simp]: "mapped h a n \<Longrightarrow> mapped (patch b bs h) a n"
  by (simp add: mapped_def patch_def)

lemma mapped_sub: "mapped h a n \<Longrightarrow> k + m \<le> n \<Longrightarrow> mapped h (a + of_nat k) m"
  unfolding mapped_def by (metis add.assoc add_less_cancel_left dual_order.strict_trans1 of_nat_add)

lemma patch_patch:
  assumes "length xs + length ys < 2 ^ 64"
  shows "patch a xs (patch (a + of_nat (length xs)) ys h) = patch a (xs @ ys) h"
proof
  fix x
  let ?d = "unat (x - a)" and ?n = "length xs"
  have n: "unat (of_nat ?n :: u64) = ?n" using assms by (simp add: unsigned_of_nat take_bit_nat_eq_self)
  have e: "x - (a + of_nat ?n) = x - a - of_nat ?n" by simp
  show "patch a xs (patch (a + of_nat ?n) ys h) x = patch a (xs @ ys) h x"
  proof (cases "?d < ?n")
    case False
    then have "unat (x - (a + of_nat ?n)) = ?d - ?n"
      unfolding e using n by (subst unat_sub) (auto simp: word_le_nat_alt)
    then show ?thesis using False by (auto simp: patch_def nth_append)
  qed (simp add: patch_def nth_append)
qed

lemma unat_offset: "i < 2 ^ 64 \<Longrightarrow> unat ((a + of_nat i :: u64) - a) = i"
  by (simp add: unsigned_of_nat take_bit_nat_eq_self)

lemma load_patch_same:
  assumes "length bs < 2 ^ 64"
  shows "host_load (patch a bs h) a (length bs) = Some bs"
proof -
  have "i < length bs \<Longrightarrow> patch a bs h (a + of_nat i) = Some (bs ! i)" for i
    using unat_offset [of i a] assms by (simp add: patch_def)
  then show ?thesis by (auto simp: host_load_def intro: nth_equalityI)
qed

text \<open>Two areas that share no byte.\<close>

definition apart :: "u64 \<times> nat \<Rightarrow> u64 \<times> nat \<Rightarrow> bool" where
  "apart p q \<longleftrightarrow> (\<forall>i < snd p. \<not> unat (fst p + of_nat i - fst q) < snd q)"

lemma load_patch_apart: "apart (a, n) (b, length bs) \<Longrightarrow> host_load (patch b bs h) a n = host_load h a n"
  by (simp add: host_load_def patch_def apart_def cong: map_cong)

section \<open>Ring places\<close>

text \<open>Rings of a size that is a power of two, and heads within the descriptor table.\<close>

definition queue_ok :: "nat \<Rightarrow> vhost_virtqueue \<Rightarrow> guest_queue \<Rightarrow> bool" where
  "queue_ok k vq g \<longleftrightarrow> k \<le> 15 \<and> vq_size vq = 2 ^ k \<and> length (gq_desc g) = 2 ^ k \<and> length (gq_avail_ring g) = 2 ^ k \<and>
     length (gq_used_ring g) = 2 ^ k \<and> (\<forall>h \<in> set (gq_avail_ring g). unat h < 2 ^ k)"

lemma slot32_mod:
  assumes "vq_size vq = 2 ^ k"
  shows "slot32 vq idx = unat idx mod 2 ^ k"
proof -
  have "slot32 vq idx = unat (take_bit k idx)"
    using assms by (simp add: slot32_def take_bit_eq_mask mask_eq_exp_minus_1)
  also have "\<dots> = take_bit k (unat idx)" by (rule unsigned_take_bit_eq)
  finally show ?thesis by (simp add: take_bit_eq_mod)
qed

lemma slot_mod: "vq_size vq = 2 ^ k \<Longrightarrow> slot vq idx = unat idx mod 2 ^ k"
  using unat_u16_less [of idx] by (simp add: slot_def slot32_mod unsigned_ucast_eq take_bit_nat_eq_self)

lemma slot_less: "vq_size vq = 2 ^ k \<Longrightarrow> slot vq idx < 2 ^ k"
  by (simp add: slot_mod)

lemma slot_add: "vq_size vq = 2 ^ k \<Longrightarrow> k \<le> 15 \<Longrightarrow> slot vq (idx + of_nat i) = (slot vq idx + i) mod 2 ^ k"
proof -
  assume s: "vq_size vq = 2 ^ k" and k: "k \<le> 15"
  have d: "2 ^ k dvd (65536 :: nat)" using le_imp_power_dvd [of k 16 "2 :: nat"] k by simp
  have "unat (idx + of_nat i) = (unat idx + i) mod 2 ^ 16"
    by (simp add: unat_word_ariths unsigned_of_nat take_bit_eq_mod mod_add_right_eq)
  then show ?thesis by (simp add: slot_mod [OF s] mod_mod_cancel [OF d] mod_add_left_eq)
qed

lemma mod_shift_inj:
  assumes "(s + i) mod m = (s + j) mod m" "i < m" "j < (m :: nat)"
  shows "i = j"
  using assms
proof (induction i j rule: linorder_wlog)
  case (le i j)
  then have "m dvd (s + j) - (s + i)" using mod_eq_dvd_iff_nat [of "s + i" "s + j" m] by simp
  then show ?case using le by (auto dest: dvd_imp_le)
next
  case (sym i j)
  then show ?case by simp
qed

lemma slot_inj: "vq_size vq = 2 ^ k \<Longrightarrow> k \<le> 15 \<Longrightarrow> i < 2 ^ k \<Longrightarrow> j < 2 ^ k \<Longrightarrow>
  slot vq (idx + of_nat i) = slot vq (idx + of_nat j) \<Longrightarrow> i = j"
  using mod_shift_inj [of "slot vq idx" i "2 ^ k" j] by (simp add: slot_add)

section \<open>Delivery of packets\<close>

text \<open>The buffer of a head: the area that its first descriptor names.\<close>

definition head_addr :: "vhost_dev \<Rightarrow> u16 \<Rightarrow> u64" where
  "head_addr dev h = gpa_to_vva (vd_mem dev) (desc_addr (gq_desc (vd_rx_rings dev) ! unat h))"

text \<open>The header and the data of a packet, as the guest finds them in its buffer.\<close>

definition framed :: "vhost_dev \<Rightarrow> bytes \<Rightarrow> bytes" where
  "framed dev p = virtio_hdr (vhost_hlen (vd_rxq dev)) 0 @ p"

definition same_desc :: "vring_desc list \<Rightarrow> vring_desc list \<Rightarrow> bool" where
  "same_desc ds ds' \<longleftrightarrow> map desc_addr ds' = map desc_addr ds \<and> map desc_flags ds' = map desc_flags ds"

lemma same_desc_upd: "same_desc ds ds' \<Longrightarrow> i < length ds' \<Longrightarrow> same_desc ds (ds'[i := (ds' ! i)\<lparr>desc_len := l\<rparr>])"
  by (simp add: same_desc_def map_update) (metis list_update_id nth_map)

lemma length_virtio_hdr: "unat hlen \<le> 12 \<Longrightarrow> length (virtio_hdr hlen n) = unat hlen"
  by (simp add: virtio_hdr_def)

lemma enqueue_packet_plain:
  assumes "unat h < length (eq_desc st)" "same_desc (gq_desc (vd_rx_rings dev)) (eq_desc st)"
    and "\<forall>d \<in> set (gq_desc (vd_rx_rings dev)). \<not> bit (desc_flags d) VRING_DESC_F_NEXT"
    and "unat (vhost_hlen (vd_rxq dev)) \<le> 12" "length p < 65536"
    and "slot (vd_rxq dev) cur < length (eq_used st)"
    and "mapped (eq_host st) (head_addr dev h) (unat (vhost_hlen (vd_rxq dev)) + length p)"
  shows "\<exists>st'. enqueue_packet dev False h cur final p st = Some st' \<and> eq_host st' = patch (head_addr dev h) (framed dev p) (eq_host st) \<and>
    eq_used st' = (eq_used st)[slot (vd_rxq dev) cur := (ucast h, of_nat (length p) + ucast (vhost_hlen (vd_rxq dev)))] \<and>
    same_desc (gq_desc (vd_rx_rings dev)) (eq_desc st') \<and> length (eq_desc st') = length (eq_desc st)"
proof -
  let ?d = "eq_desc st ! unat h" and ?hl = "vhost_hlen (vd_rxq dev)"
  let ?D = "gq_desc (vd_rx_rings dev)"
  have l: "length ?D = length (eq_desc st)" using assms(2) unfolding same_desc_def by (metis length_map)
  have ad: "desc_addr ?d = desc_addr (?D ! unat h)" "desc_flags ?d = desc_flags (?D ! unat h)"
    using assms(1,2) l unfolding same_desc_def by (metis nth_map)+
  then have fl: "\<not> bit (desc_flags ?d) VRING_DESC_F_NEXT" using assms(1,3) l by simp
  have len: "ucast (of_nat (length p) :: u16) = (of_nat (length p) :: u32)"
    using assms(5) by (intro unat_eqI) (simp add: unsigned_ucast_eq unsigned_of_nat take_bit_nat_eq_self)
  let ?a = "head_addr dev h"
  have n: "unat (ucast ?hl :: u64) = unat ?hl"
    using assms(4) by (simp add: unsigned_ucast_eq take_bit_nat_eq_self)
  then have u: "(ucast ?hl :: u64) = of_nat (length (virtio_hdr ?hl 0))"
    using assms(4) length_virtio_hdr [OF assms(4), of 0]
    by (intro unat_eqI) (simp add: unsigned_of_nat take_bit_nat_eq_self)
  have m1: "mapped (eq_host st) (?a + ucast ?hl) (length p)"
    unfolding u length_virtio_hdr [OF assms(4)] by (rule mapped_sub [OF assms(7)]) simp
  have m2: "mapped (eq_host st) ?a (length (virtio_hdr ?hl 0))"
    using mapped_sub [OF assms(7), of 0 "unat ?hl"] length_virtio_hdr [OF assms(4), of 0] by simp
  have pp: "patch ?a (virtio_hdr ?hl 0) (patch (?a + ucast ?hl) p (eq_host st)) = patch ?a (framed dev p) (eq_host st)"
    unfolding u framed_def using assms(4,5) length_virtio_hdr [OF assms(4), of 0] by (intro patch_patch) simp
  show ?thesis
    using assms(1,6) fl host_store_patch [OF m1] host_store_patch [OF mapped_patch [OF m2, of "?a + ucast ?hl" p]]
      same_desc_upd [OF assms(2,1)]
    by (simp add: enqueue_packet_def place_packet_def get_nth_def set_nth_def ad(1) head_addr_def [symmetric] pp len Let_def)
qed

text \<open>
  A burst that can be delivered: the rings have room, the heads are descriptors without a chain, and the buffers are
  mapped and do not overlap. What delivering it means: each buffer holds its framed packet, the used ring names
  each head with its length, and nothing else changes.
\<close>

definition area :: "vhost_dev \<Rightarrow> u16 \<Rightarrow> bytes \<Rightarrow> u64 \<times> nat" where
  "area dev h p = (head_addr dev h, length (framed dev p))"

definition used_entry :: "vhost_dev \<Rightarrow> u16 \<Rightarrow> bytes \<Rightarrow> u32 \<times> u32" where
  "used_entry dev h p = (ucast h, of_nat (length p) + ucast (vhost_hlen (vd_rxq dev)))"

definition deliverable :: "nat \<Rightarrow> vhost_dev \<Rightarrow> u16 list \<Rightarrow> bytes list \<Rightarrow> enq_state \<Rightarrow> bool" where
  "deliverable k dev hs ps st \<longleftrightarrow> k \<le> 15 \<and> vq_size (vd_rxq dev) = 2 ^ k \<and> length (eq_used st) = 2 ^ k \<and> unat (vhost_hlen (vd_rxq dev)) \<le> 12 \<and>
     same_desc (gq_desc (vd_rx_rings dev)) (eq_desc st) \<and>
     (\<forall>d \<in> set (gq_desc (vd_rx_rings dev)). \<not> bit (desc_flags d) VRING_DESC_F_NEXT) \<and>
     length ps = length hs \<and> length hs \<le> 2 ^ k \<and> (\<forall>h \<in> set hs. unat h < length (eq_desc st)) \<and> (\<forall>p \<in> set ps. length p < 65536) \<and>
     (\<forall>i < length hs. case area dev (hs ! i) (ps ! i) of (a, n) \<Rightarrow> mapped (eq_host st) a n) \<and>
     (\<forall>i < length hs. \<forall>j < length hs. i \<noteq> j \<longrightarrow> apart (area dev (hs ! i) (ps ! i)) (area dev (hs ! j) (ps ! j)))"

definition delivered :: "nat \<Rightarrow> vhost_dev \<Rightarrow> u16 \<Rightarrow> u16 list \<Rightarrow> bytes list \<Rightarrow> enq_state \<Rightarrow> enq_state \<Rightarrow> bool" where
  "delivered k dev cur hs ps st st' \<longleftrightarrow> length (eq_used st') = 2 ^ k \<and>
    (\<forall>i < length hs. host_load (eq_host st') (head_addr dev (hs ! i)) (length (framed dev (ps ! i))) = Some (framed dev (ps ! i))) \<and>
    (\<forall>a n. (\<forall>i < length hs. apart (a, n) (area dev (hs ! i) (ps ! i))) \<longrightarrow> host_load (eq_host st') a n = host_load (eq_host st) a n) \<and>
    (\<forall>i < length hs. eq_used st' ! slot (vd_rxq dev) (cur + of_nat i) = used_entry dev (hs ! i) (ps ! i)) \<and>
    (\<forall>j < 2 ^ k. (\<forall>i < length hs. j \<noteq> slot (vd_rxq dev) (cur + of_nat i)) \<longrightarrow> eq_used st' ! j = eq_used st ! j)"

lemma all_less_Suc: "(\<forall>i < Suc n. P i) \<longleftrightarrow> P 0 \<and> (\<forall>i < n. P (Suc i))"
  using less_Suc_eq_0_disj by auto

lemma deliverable_step:
  assumes "deliverable k dev (h # hs) (p # ps) st"
  shows "\<exists>st1. enqueue_packet dev False h cur (hs = []) p st = Some st1 \<and>
    eq_host st1 = patch (head_addr dev h) (framed dev p) (eq_host st) \<and>
    eq_used st1 = (eq_used st)[slot (vd_rxq dev) cur := used_entry dev h p] \<and> deliverable k dev hs ps st1"
proof -
  note D = assms [unfolded deliverable_def all_less_Suc length_Cons]
  have fl: "length (framed dev p) = unat (vhost_hlen (vd_rxq dev)) + length p"
    using D length_virtio_hdr [of "vhost_hlen (vd_rxq dev)" 0] by (simp add: framed_def)
  have "\<exists>st1. enqueue_packet dev False h cur (hs = []) p st = Some st1 \<and> eq_host st1 = patch (head_addr dev h) (framed dev p) (eq_host st) \<and>
    eq_used st1 = (eq_used st)[slot (vd_rxq dev) cur := (ucast h, of_nat (length p) + ucast (vhost_hlen (vd_rxq dev)))] \<and>
    same_desc (gq_desc (vd_rx_rings dev)) (eq_desc st1) \<and> length (eq_desc st1) = length (eq_desc st)"
    by (rule enqueue_packet_plain) (use D slot_less [of "vd_rxq dev" k cur] fl in \<open>auto simp: area_def\<close>)
  then show ?thesis
    using D by (auto simp: used_entry_def deliverable_def area_def)
qed

lemma delivered_Cons:
  assumes "deliverable k dev (h # hs) (p # ps) st" "delivered k dev (cur + 1) hs ps st1 st'"
    and h: "eq_host st1 = patch (head_addr dev h) (framed dev p) (eq_host st)"
    and u: "eq_used st1 = (eq_used st)[slot (vd_rxq dev) cur := used_entry dev h p]"
  shows "delivered k dev cur (h # hs) (p # ps) st st'"
proof -
  note D = assms(1) [unfolded deliverable_def all_less_Suc length_Cons nth_Cons_0 nth_Cons_Suc]
  note R = assms(2) [unfolded delivered_def]
  have s: "vq_size (vd_rxq dev) = 2 ^ k" "k \<le> 15" using D by blast+
  have fl: "length (framed dev p) < 2 ^ 64"
    using D length_virtio_hdr [of "vhost_hlen (vd_rxq dev)" 0] by (simp add: framed_def)
  have sl: "slot (vd_rxq dev) cur \<noteq> slot (vd_rxq dev) (cur + 1 + of_nat i)" if "i < length hs" for i
    using slot_inj [OF s, of 0 "Suc i" cur] that D by (auto simp: add.assoc)
  have e: "cur + of_nat (Suc i) = cur + 1 + of_nat i" for i by simp
  have "eq_used st' ! slot (vd_rxq dev) cur = used_entry dev h p"
    using R slot_less [OF s(1), of cur] sl D by (auto simp: u)
  moreover have "host_load (eq_host st') (head_addr dev h) (length (framed dev p)) = Some (framed dev p)"
  proof -
    have "\<forall>i < length hs. apart (area dev h p) (area dev (hs ! i) (ps ! i))" using D by blast
    then have "host_load (eq_host st') (head_addr dev h) (length (framed dev p)) =
        host_load (eq_host st1) (head_addr dev h) (length (framed dev p))"
      using R by (simp add: area_def)
    then show ?thesis using load_patch_same [OF fl] by (simp add: h)
  qed
  moreover have "host_load (eq_host st') a n = host_load (eq_host st) a n"
    if "apart (a, n) (area dev h p)" "\<forall>i < length hs. apart (a, n) (area dev (hs ! i) (ps ! i))" for a n
    using R that load_patch_apart [of a n "head_addr dev h" "framed dev p" "eq_host st"] by (simp add: h area_def)
  ultimately show ?thesis
    using R unfolding delivered_def length_Cons all_less_Suc nth_Cons_0 nth_Cons_Suc e by (auto simp: u)
qed

lemma enqueue_loop_delivers:
  "deliverable k dev hs ps st \<Longrightarrow> \<exists>st'. enqueue_loop dev False cur hs ps st = Some st' \<and> delivered k dev cur hs ps st st'"
proof (induction hs arbitrary: ps st cur)
  case Nil
  then show ?case by (auto simp: delivered_def deliverable_def)
next
  case (Cons h hs)
  then obtain p ps' where ps: "ps = p # ps'" by (cases ps) (auto simp: deliverable_def)
  obtain st1 where st1: "enqueue_packet dev False h cur (hs = []) p st = Some st1" "deliverable k dev hs ps' st1"
      "eq_host st1 = patch (head_addr dev h) (framed dev p) (eq_host st)"
      "eq_used st1 = (eq_used st)[slot (vd_rxq dev) cur := used_entry dev h p]"
    using deliverable_step [OF Cons.prems [unfolded ps]] by metis
  obtain st' where "enqueue_loop dev False (cur + 1) hs ps' st1 = Some st'" "delivered k dev (cur + 1) hs ps' st1 st'"
    using Cons.IH [OF st1(2)] by blast
  then show ?case
    using st1 delivered_Cons [OF Cons.prems [unfolded ps] _ st1(3,4)] ps by auto
qed

lemma slot32_add:
  assumes "vq_size vq = 2 ^ k" "k \<le> 15"
  shows "slot32 vq (ucast idx + of_nat i) = slot vq (idx + of_nat i)"
proof -
  have d: "2 ^ k dvd (4294967296 :: nat)" using le_imp_power_dvd [of k 32 "2 :: nat"] assms(2) by simp
  have "unat (ucast idx :: u32) = unat idx"
    using unat_u16_less [of idx] by (simp add: unsigned_ucast_eq take_bit_nat_eq_self)
  then have "unat (ucast idx + of_nat i :: u32) = (unat idx + i) mod 2 ^ 32"
    by (simp add: unat_word_ariths unsigned_of_nat take_bit_eq_mod mod_add_right_eq)
  then show ?thesis
    using slot_add [OF assms, of idx i] by (simp add: slot32_mod [OF assms(1)] slot_mod [OF assms(1)] mod_mod_cancel [OF d] mod_add_left_eq)
qed

lemma read_heads_from:
  assumes "queue_ok k vq g"
  shows "read_heads vq g x n = Some (map (\<lambda>i. gq_avail_ring g ! slot32 vq (x + of_nat i)) [0..<n])"
proof (induction n arbitrary: x)
  case (Suc n)
  have "slot32 vq x < length (gq_avail_ring g)" using assms slot32_mod [of vq k x] by (simp add: queue_ok_def)
  moreover have "map (\<lambda>i. gq_avail_ring g ! slot32 vq (x + of_nat i)) [0..<Suc n] =
      gq_avail_ring g ! slot32 vq x # map (\<lambda>i. gq_avail_ring g ! slot32 vq (x + 1 + of_nat i)) [0..<n]"
    by (simp add: map_upt_Suc add.assoc del: upt_Suc)
  ultimately show ?case using Suc [of "x + 1"] by (simp add: get_nth_def)
qed simp

lemma read_heads_nth:
  assumes "queue_ok k vq g"
  shows "read_heads vq g (ucast idx) n = Some (map (\<lambda>i. gq_avail_ring g ! slot vq (idx + of_nat i)) [0..<n])"
  using assms by (simp add: read_heads_from [OF assms] queue_ok_def slot32_add)

text \<open>The reservation does not change what a burst means.\<close>

lemma reserved_same [simp]:
  "slot (vq\<lparr>last_used_idx_res := x\<rparr>) idx = slot vq idx" "slot32 (vq\<lparr>last_used_idx_res := x\<rparr>) i = slot32 vq i"
  "framed (dev\<lparr>vd_rxq := (vd_rxq dev)\<lparr>last_used_idx_res := x\<rparr>\<rparr>) p = framed dev p"
  "head_addr (dev\<lparr>vd_rxq := vq'\<rparr>) h = head_addr dev h"
  "area (dev\<lparr>vd_rxq := (vd_rxq dev)\<lparr>last_used_idx_res := x\<rparr>\<rparr>) h p = area dev h p"
  "used_entry (dev\<lparr>vd_rxq := (vd_rxq dev)\<lparr>last_used_idx_res := x\<rparr>\<rparr>) h p = used_entry dev h p"
  "deliverable k (dev\<lparr>vd_rxq := (vd_rxq dev)\<lparr>last_used_idx_res := x\<rparr>\<rparr>) hs ps st = deliverable k dev hs ps st"
  "queue_ok k (vq\<lparr>last_used_idx_res := x\<rparr>) g = queue_ok k vq g"
  by (simp_all add: slot_def slot32_def framed_def head_addr_def area_def used_entry_def deliverable_def queue_ok_def)

definition enq_start :: "vhost_dev \<Rightarrow> enq_state" where
  "enq_start dev = \<lparr>eq_host = vd_host dev, eq_desc = gq_desc (vd_rx_rings dev), eq_used = gq_used_ring (vd_rx_rings dev),
     eq_mrg = 0, eq_hdr_addr = 0\<rparr>"

definition rx_heads :: "vhost_dev \<Rightarrow> nat \<Rightarrow> u16 list" where
  "rx_heads dev n = map (\<lambda>i. gq_avail_ring (vd_rx_rings dev) ! slot (vd_rxq dev) (last_used_idx_res (vd_rxq dev) + of_nat i)) [0..<n]"

section \<open>Guests whose buffers can be written\<close>

text \<open>
  Every descriptor of a queue continues in the table and names memory with room for a header and a packet of \<open>n\<close> bytes.
  A guest is ready for packets of up to \<open>n\<close> bytes when that holds of its receive queue and no reservation is pending; it
  may offer any number of buffers, chained or not, with mergeable buffers or without.
\<close>

definition descs_ready :: "nat \<Rightarrow> nat \<Rightarrow> virtio_memory \<Rightarrow> (u64 \<rightharpoonup> u8) \<Rightarrow> vring_desc list \<Rightarrow> bool" where
  "descs_ready n k mem h ds \<longleftrightarrow> length ds = 2 ^ k \<and>
     (\<forall>x \<in> set ds. unat (desc_next x) < 2 ^ k \<and> mapped h (gpa_to_vva mem (desc_addr x)) (12 + n))"

definition rx_ready :: "nat \<Rightarrow> vhost_dev \<Rightarrow> bool" where
  "rx_ready n dev \<longleftrightarrow> (\<exists>k. queue_ok k (vd_rxq dev) (vd_rx_rings dev) \<and> descs_ready n k (vd_mem dev) (vd_host dev) (gq_desc (vd_rx_rings dev))) \<and>
     last_used_idx (vd_rxq dev) = last_used_idx_res (vd_rxq dev) \<and> unat (vhost_hlen (vd_rxq dev)) \<le> 12"

definition enq_ready :: "nat \<Rightarrow> nat \<Rightarrow> vhost_dev \<Rightarrow> enq_state \<Rightarrow> bool" where
  "enq_ready n k dev st \<longleftrightarrow> vq_size (vd_rxq dev) = 2 ^ k \<and> unat (vhost_hlen (vd_rxq dev)) \<le> 12 \<and> length (eq_used st) = 2 ^ k \<and>
     descs_ready n k (vd_mem dev) (eq_host st) (eq_desc st) \<and> (eq_mrg st \<noteq> 0 \<longrightarrow> mapped (eq_host st) (eq_hdr_addr st) 12)"

lemma descs_ready_len: "descs_ready n k mem h ds \<Longrightarrow> i < 2 ^ k \<Longrightarrow> descs_ready n k mem h (ds[i := (ds ! i)\<lparr>desc_len := l\<rparr>])"
  unfolding descs_ready_def by (auto dest!: subsetD [OF set_update_subset_insert])

lemma descs_ready_patch: "descs_ready n k mem h ds \<Longrightarrow> descs_ready n k mem (patch a bs h) ds"
  by (simp add: descs_ready_def)

lemma mapped_less: "mapped h a n \<Longrightarrow> m \<le> n \<Longrightarrow> mapped h a m"
  by (simp add: mapped_def)

lemma mapped_ucast: "mapped h a n \<Longrightarrow> unat (x :: u16) + m \<le> n \<Longrightarrow> mapped h (a + ucast x) m"
  using mapped_sub [of h a n "unat x" m] by simp

text \<open>The place of a packet is mapped, and so is the header that is still to be written.\<close>

lemma place_packet_ready:
  assumes "enq_ready n k dev st" "unat h < 2 ^ k" "unat len \<le> n"
  shows "\<exists>a l st'. place_packet dev mg h len st = Some (a, l, st') \<and> mapped (eq_host st) a (unat len) \<and>
    eq_host st' = eq_host st \<and> eq_used st' = eq_used st \<and> eq_mrg st' = eq_mrg st \<and> mapped (eq_host st) (eq_hdr_addr st') 12 \<and>
    descs_ready n k (vd_mem dev) (eq_host st) (eq_desc st')"
proof -
  let ?D = "eq_desc st" and ?hl = "vhost_hlen (vd_rxq dev)"
  let ?d = "?D ! unat h"
  note R = assms(1) [unfolded enq_ready_def]
  have D: "descs_ready n k (vd_mem dev) (eq_host st) ?D" "length ?D = 2 ^ k" using R by (simp_all add: descs_ready_def)
  have at: "unat (desc_next x) < 2 ^ k" "mapped (eq_host st) (gpa_to_vva (vd_mem dev) (desc_addr x)) (12 + n)" if "x \<in> set ?D" for x
    using D(1) that by (simp_all add: descs_ready_def)
  have d: "?d \<in> set ?D" using assms(2) D(2) by simp
  let ?D1 = "?D[unat h := ?d\<lparr>desc_len := ucast ?hl\<rparr>]"
  have D1: "descs_ready n k (vd_mem dev) (eq_host st) ?D1" by (rule descs_ready_len [OF D(1) assms(2)])
  have nx: "unat (desc_next ?d) < 2 ^ k" by (rule at(1) [OF d])
  let ?d2 = "?D1 ! unat (desc_next ?d)"
  have "?d2 \<in> set ?D1" using nx D(2) by simp
  then have m2: "mapped (eq_host st) (gpa_to_vva (vd_mem dev) (desc_addr ?d2)) (12 + n)"
    using D1 by (simp add: descs_ready_def)
  have le: "unat len \<le> 12 + n" "unat ?hl + unat len \<le> 12 + n" "(12 :: nat) \<le> 12 + n" using assms(3) R by simp_all
  note M = mapped_less [OF at(2) [OF d] le(1)] mapped_ucast [OF at(2) [OF d] le(2)] mapped_less [OF at(2) [OF d] le(3)] mapped_less [OF m2 le(1)]
  show ?thesis
    using R assms(2) D nx M descs_ready_len [OF D(1) assms(2)] descs_ready_len [OF D1 nx]
    by (simp add: place_packet_def get_nth_def Let_def)
qed

lemma enqueue_packet_ready:
  assumes "enq_ready n k dev st" "unat h < 2 ^ k" "length p \<le> n" "length p < 65536"
  shows "\<exists>st'. enqueue_packet dev mg h cur final p st = Some st' \<and> enq_ready n k dev st'"
proof -
  have u: "unat (of_nat (length p) :: u16) = length p" using assms(4) by (simp add: unsigned_of_nat take_bit_nat_eq_self)
  obtain a l t where t: "place_packet dev mg h (of_nat (length p)) st = Some (a, l, t)" "mapped (eq_host st) a (length p)"
    "eq_host t = eq_host st" "eq_used t = eq_used st" "eq_mrg t = eq_mrg st" "mapped (eq_host st) (eq_hdr_addr t) 12"
    "descs_ready n k (vd_mem dev) (eq_host st) (eq_desc t)"
    using place_packet_ready [OF assms(1,2), of "of_nat (length p)" mg] assms(3) u by auto
  note R = assms(1) [unfolded enq_ready_def]
  have sl: "slot (vd_rxq dev) cur < 2 ^ k" using R slot_less [of "vd_rxq dev" k cur] by simp
  have hl: "length (virtio_hdr (vhost_hlen (vd_rxq dev)) x) \<le> 12" for x using R by (simp add: length_virtio_hdr)
  note st = host_store_patch [OF t(2)] host_store_patch [OF mapped_less [OF mapped_patch [OF t(6)] hl]]
  show ?thesis
    using R t sl st descs_ready_patch
    by (auto simp: enqueue_packet_def set_nth_def Let_def enq_ready_def)
qed

lemma enqueue_loop_ready:
  "enq_ready n k dev st \<Longrightarrow> \<forall>h \<in> set hs. unat h < 2 ^ k \<Longrightarrow> \<forall>p \<in> set ps. length p \<le> n \<and> length p < 65536 \<Longrightarrow>
   \<exists>st'. enqueue_loop dev mg cur hs ps st = Some st' \<and> enq_ready n k dev st'"
proof (induction dev mg cur hs ps st rule: enqueue_loop.induct)
  case (1 dev mg cur h hs p ps st)
  from enqueue_packet_ready [OF "1.prems"(1), of h p mg cur "hs = []"] "1.prems" obtain t
    where t: "enqueue_packet dev mg h cur (hs = []) p st = Some t" "enq_ready n k dev t" by auto
  from "1.IH" [OF t] "1.prems" t(1) show ?case by simp
qed auto

text \<open>A guest that is ready takes any burst of such packets and is ready for the next one.\<close>

lemma enqueue_burst_ready:
  assumes "rx_ready n dev" "\<forall>p \<in> set pkts. length p \<le> n \<and> length p < 65536"
  shows "\<exists>c dev'. vhost_enqueue_burst dev pkts = Some (c, dev') \<and> rx_ready n dev' \<and> c \<le> length pkts"
proof -
  let ?g = "vd_rx_rings dev" and ?b = "last_used_idx_res (vd_rxq dev)" and ?mg = "bit (vd_features dev) VIRTIO_NET_F_MRG_RXBUF"
  obtain k where q: "queue_ok k (vd_rxq dev) ?g" "descs_ready n k (vd_mem dev) (vd_host dev) (gq_desc ?g)"
    and l: "last_used_idx (vd_rxq dev) = ?b" "unat (vhost_hlen (vd_rxq dev)) \<le> 12" using assms(1) by (auto simp: rx_ready_def)
  define c where "c = min (min (length pkts) PKT_BURST_SIZE) (wait_free (gq_avail_idx ?g) ?b (min (length pkts) PKT_BURST_SIZE) 0 burst_tx_retry_num)"
  show ?thesis
  proof (cases "c = 0")
    case True
    then show ?thesis using assms(1) by (simp add: vhost_enqueue_burst_def flip: c_def)
  next
    case False
    let ?q = "(vd_rxq dev)\<lparr>last_used_idx_res := ?b + of_nat c\<rparr>"
    let ?d = "dev\<lparr>vd_rxq := ?q\<rparr>"
    let ?hs = "map (\<lambda>i. gq_avail_ring ?g ! slot ?q (?b + of_nat i)) [0..<c]"
    have "queue_ok k ?q ?g" using q(1) by simp
    from read_heads_nth [OF this] have rh: "read_heads ?q ?g (ucast ?b) c = Some ?hs" .
    have "slot (vd_rxq dev) i < length (gq_avail_ring ?g)" for i using q(1) slot_less [of "vd_rxq dev" k i] by (simp add: queue_ok_def)
    then have hs: "\<forall>h \<in> set ?hs. unat h < 2 ^ k" using q(1) by (auto simp: queue_ok_def)
    have "enq_ready n k ?d (enq_start dev)" using q l by (simp add: enq_ready_def enq_start_def queue_ok_def)
    from enqueue_loop_ready [OF this hs, of "take c pkts" ?mg ?b] assms(2) obtain st
      where st: "enqueue_loop ?d ?mg ?b ?hs (take c pkts) (enq_start dev) = Some st" "enq_ready n k ?d st"
      by (meson in_set_takeD)
    have "vhost_enqueue_burst dev pkts = Some (c, dev\<lparr>vd_rxq := ?q\<lparr>last_used_idx := ?b + of_nat c\<rparr>, vd_host := eq_host st,
        vd_rx_rings := ?g\<lparr>gq_desc := eq_desc st, gq_used_ring := eq_used st, gq_used_idx := gq_used_idx ?g + of_nat c\<rparr>\<rparr>)"
      using st(1) False l(1) rh unfolding vhost_enqueue_burst_def Let_def c_def [symmetric] enq_start_def by simp
    moreover have "c \<le> length pkts" by (simp add: c_def)
    ultimately show ?thesis using st(2) q(1) l(2) by (auto simp: rx_ready_def enq_ready_def queue_ok_def descs_ready_def)
  qed
qed

section \<open>Packets from the guest\<close>

lemma owned_upd_dev [simp]: "owned holds cores (upd_dev d f s) = owned holds cores s"
  by (simp add: upd_dev_def)

definition tx_idx :: "nat \<Rightarrow> 'w dp \<Rightarrow> u16" where
  "tx_idx d s = last_used_idx (vd_txq (d_dev s d))"

definition tx_used_idx :: "nat \<Rightarrow> 'w dp \<Rightarrow> u16" where
  "tx_used_idx d s = gq_used_idx (vd_tx_rings (d_dev s d))"

lemma alloc_account:
  "dpdk_ok (e_lib E) holds \<Longrightarrow> mbuf_alloc E s = (r, s') \<Longrightarrow> d_dev s' = d_dev s \<and>
     owned holds cores s = (case r of None \<Rightarrow> {#} | Some m \<Rightarrow> {#m#}) + owned holds cores s'"
  using owned_alloc [of E holds s r s' cores] by (auto simp: mbuf_alloc_def split: prod.splits option.splits)

lemma dequeue_packet_account:
  assumes "dpdk_ok (e_lib E) holds" "dequeue_packet E d h s = Some r"
  shows "case r of
      Inl s' \<Rightarrow> owned holds cores s' = owned holds cores s \<and> tx_idx d s' = tx_idx d s \<and> tx_used_idx d s' = tx_used_idx d s
    | Inr (m, s') \<Rightarrow> owned holds cores s = add_mset m (owned holds cores s') \<and> tx_idx d s' = tx_idx d s + 1 \<and>
        tx_used_idx d s' = tx_used_idx d s"
  using assms(2) unfolding dequeue_packet_def Let_def
  by (auto split: bind_splits prod.splits option.splits dest!: alloc_account [OF assms(1), where cores = cores]
      simp: tx_idx_def tx_used_idx_def upd_dev_def)

lemma dequeue_loop_account:
  assumes "dpdk_ok (e_lib E) holds"
  shows "dequeue_loop E d hs s = Some (ms, full, s') \<Longrightarrow>
    owned holds cores s = mset ms + owned holds cores s' \<and> tx_idx d s' = tx_idx d s + of_nat (length ms) \<and>
    tx_used_idx d s' = tx_used_idx d s \<and> length ms \<le> length hs \<and> full = (length ms = length hs)"
proof (induction hs arbitrary: s ms)
  case (Cons h hs)
  then obtain r where r: "dequeue_packet E d h s = Some r" by (cases "dequeue_packet E d h s") auto
  note A = dequeue_packet_account [OF assms r, of cores]
  show ?case
  proof (cases r)
    case (Inl s1)
    then show ?thesis using Cons.prems A r by auto
  next
    case (Inr p)
    obtain m s1 where p: "p = (m, s1)" by (cases p)
    obtain ms' where "dequeue_loop E d hs s1 = Some (ms', full, s')" "ms = m # ms'"
      using Cons.prems r Inr p by (auto split: bind_splits)
    then show ?thesis using Cons.IH [of s1 ms'] A Inr p by (auto simp: add.assoc)
  qed
qed auto

lemma length_read_heads: "read_heads vq g idx n = Some hs \<Longrightarrow> length hs = n"
  by (induction n arbitrary: idx hs) (auto split: bind_splits)

lemma dequeue_count_le: "dequeue_count a l n \<le> n"
  unfolding dequeue_count_def Let_def by (auto intro: order_trans [OF diff_le_self])

lemma dequeue_burst_account:
  assumes "dpdk_ok (e_lib E) holds" "vhost_dequeue_burst E d n s = Some (ms, s')"
  shows "owned holds cores s = mset ms + owned holds cores s'" "length ms \<le> n"
    "tx_idx d s' = tx_idx d s + of_nat (length ms)"
    "tx_used_idx d s' = tx_used_idx d s + (if length ms = dequeue_count (gq_avail_idx (vd_tx_rings (d_dev s d)) 0) (tx_idx d s) n
       then of_nat (length ms) else 0)"
proof -
  let ?a = "gq_avail_idx (vd_tx_rings (d_dev s d)) 0"
  have "owned holds cores s = mset ms + owned holds cores s' \<and> length ms \<le> n \<and> tx_idx d s' = tx_idx d s + of_nat (length ms) \<and>
    tx_used_idx d s' = tx_used_idx d s + (if length ms = dequeue_count ?a (tx_idx d s) n then of_nat (length ms) else 0)"
  proof (cases "tx_idx d s = ?a")
    case True
    then show ?thesis using assms(2) by (auto simp: vhost_dequeue_burst_def Let_def tx_idx_def dequeue_count_def)
  next
    case False
    then obtain heads ms1 full s1 where *:
      "read_heads (vd_txq (d_dev s d)) (vd_tx_rings (d_dev s d)) (ucast (tx_idx d s)) (dequeue_count ?a (tx_idx d s) n) = Some heads"
      "dequeue_loop E d heads s = Some (ms1, full, s1)" "ms = ms1"
      "s' = (if full then upd_dev d (\<lambda>dev. dev\<lparr>vd_tx_rings := (vd_tx_rings dev)
               \<lparr>gq_used_idx := gq_used_idx (vd_tx_rings dev) + of_nat (length ms)\<rparr>\<rparr>) s1 else s1)"
      using assms(2) by (auto simp: vhost_dequeue_burst_def Let_def tx_idx_def split: bind_splits)
    show ?thesis
      using dequeue_loop_account [OF assms(1) *(2), of cores] length_read_heads [OF *(1)] dequeue_count_le [of ?a "tx_idx d s" n] *(3,4)
      by (auto simp: tx_idx_def tx_used_idx_def upd_dev_def)
  qed
  then show "owned holds cores s = mset ms + owned holds cores s'" "length ms \<le> n" "tx_idx d s' = tx_idx d s + of_nat (length ms)"
    "tx_used_idx d s' = tx_used_idx d s + (if length ms = dequeue_count ?a (tx_idx d s) n then of_nat (length ms) else 0)"
    by blast+
qed


text \<open>
  A transmit queue in order: every descriptor continues at one in the table and names mapped memory, and any mbuf has
  room for its data. The packet of a head is the memory of its second descriptor.
\<close>

definition tx_len :: "vring_desc \<Rightarrow> nat" where
  "tx_len ds = unat (ucast (desc_len ds) :: u16)"

definition tx_ready :: "nat \<Rightarrow> 'w env \<Rightarrow> nat \<Rightarrow> 'w dp \<Rightarrow> bool" where
  "tx_ready k E d s \<longleftrightarrow> queue_ok k (vd_txq (d_dev s d)) (vd_tx_rings (d_dev s d)) \<and>
     (\<forall>ds \<in> set (gq_desc (vd_tx_rings (d_dev s d))). unat (desc_next ds) < 2 ^ k \<and>
        mapped (vd_host (d_dev s d)) (gpa_to_vva (vd_mem (d_dev s d)) (desc_addr ds)) (tx_len ds) \<and>
        (\<forall>m. pktmbuf_headroom (e_lib E) + tx_len ds \<le> length (d_buf s m)))"

definition guest_pkt :: "vhost_dev \<Rightarrow> u16 \<Rightarrow> bytes" where
  "guest_pkt dev h = (let D = gq_desc (vd_tx_rings dev); ds = D ! unat (desc_next (D ! unat h))
     in the (host_load (vd_host dev) (gpa_to_vva (vd_mem dev) (desc_addr ds)) (tx_len ds)))"

text \<open>The packets of the mbufs outside of the library, each in its own buffer.\<close>

definition keeps_packets :: "('w \<Rightarrow> nat multiset) \<Rightarrow> 'w dp \<Rightarrow> 'w dp \<Rightarrow> bool" where
  "keeps_packets holds s s' \<longleftrightarrow> (\<forall>m. m \<notin># holds (d_lib s) \<and> mb_buf (d_mbuf s m) = m \<longrightarrow>
     pkt_data s' m = pkt_data s m \<and> mb_buf (d_mbuf s' m) = m)"

definition once :: "nat multiset \<Rightarrow> bool" where
  "once M \<longleftrightarrow> (\<forall>m. count M m \<le> 1)"

lemma once_add: "once (add_mset m M) \<Longrightarrow> once M \<and> m \<notin># M"
  unfolding once_def by (metis Suc_le_mono count_add_mset count_eq_zero_iff le_zero_eq One_nat_def not_less_eq_eq nat_le_linear le_SucI)

lemma host_load_mapped: "mapped h a n \<Longrightarrow> \<exists>bs. host_load h a n = Some bs \<and> length bs = n"
  by (simp add: host_load_def mapped_def)

lemma dequeue_packet_ready:
  assumes L: "dpdk_ok (e_lib E) holds" and R: "tx_ready k E d s" and h: "unat h < 2 ^ k" and O: "once (holds (d_lib s))"
  shows "\<exists>r. dequeue_packet E d h s = Some r \<and> (case r of Inl s' \<Rightarrow> True | Inr (m, s') \<Rightarrow>
    tx_ready k E d s' \<and> guest_pkt (d_dev s' d) = guest_pkt (d_dev s d) \<and> once (holds (d_lib s')) \<and> m \<notin># holds (d_lib s') \<and>
    mb_buf (d_mbuf s' m) = m \<and> pkt_data s' m = guest_pkt (d_dev s d) h \<and> keeps_packets holds s s')"
proof -
  let ?dev = "d_dev s d"
  let ?g = "vd_tx_rings ?dev" and ?vq = "vd_txq ?dev"
  let ?d1 = "gq_desc ?g ! unat h"
  let ?ds = "gq_desc ?g ! unat (desc_next ?d1)"
  note Q = R [unfolded tx_ready_def queue_ok_def]
  have n: "unat h < length (gq_desc ?g)" "unat (desc_next ?d1) < length (gq_desc ?g)" using Q h by auto
  have sl: "slot ?vq (last_used_idx ?vq) < length (gq_used_ring ?g)" using Q slot_less [of ?vq k] by simp
  obtain bs where bs: "host_load (vd_host ?dev) (gpa_to_vva (vd_mem ?dev) (desc_addr ?ds)) (tx_len ?ds) = Some bs" "length bs = tx_len ?ds"
    using Q n host_load_mapped by (metis nth_mem)
  define s1 where "s1 = upd_dev d (\<lambda>dev. dev\<lparr>vd_tx_rings := ?g\<lparr>gq_used_ring :=
     (gq_used_ring ?g)[slot ?vq (last_used_idx ?vq) := (ucast h, 0)]\<rparr>\<rparr>) s"
  have s1: "d_lib s1 = d_lib s" "d_buf s1 = d_buf s" "d_mbuf s1 = d_mbuf s" by (simp_all add: s1_def upd_dev_def)
  obtain r w where a: "pktmbuf_alloc (e_lib E) (d_lib s) = (r, w)" by fastforce
  have f: "fetches holds (r, w) (d_lib s)" using L a unfolding dpdk_ok_def by metis
  show ?thesis
  proof (cases r)
    case None
    then show ?thesis using n sl a by (simp add: dequeue_packet_def get_nth_def set_nth_def mbuf_alloc_def s1 flip: s1_def)
  next
    case (Some m)
    let ?mb = "\<lparr>mb_buf = m, mb_off = pktmbuf_headroom (e_lib E), mb_data_len = ucast (desc_len ?ds), mb_pkt_len = ucast (ucast (desc_len ?ds) :: u16)\<rparr>"
    have room: "pktmbuf_headroom (e_lib E) + length bs \<le> length (d_buf s m)" using Q n bs(2) by auto
    then obtain buf where buf: "stn (d_buf s m) (pktmbuf_headroom (e_lib E)) bs = Some buf"
      by (auto simp: stn_def)
    let ?s' = "upd_dev d (\<lambda>dev. dev\<lparr>vd_txq := (vd_txq dev)\<lparr>last_used_idx := last_used_idx (vd_txq dev) + 1\<rparr>\<rparr>)
      (s1\<lparr>d_lib := w, d_mbuf := (d_mbuf s)(m := ?mb), d_buf := (d_buf s)(m := buf)\<rparr>)"
    have e: "dequeue_packet E d h s = Some (Inr (m, ?s'))"
      using n sl a Some bs(1) buf by (simp add: dequeue_packet_def get_nth_def set_nth_def mbuf_alloc_def s1 tx_len_def Let_def flip: s1_def)
    have M: "once (holds w)" "m \<notin># holds w" "m \<in># holds (d_lib s)"
      using f O once_add [of m "holds w"] Some by (auto simp: fetches_def)
    have "length buf = length (d_buf s m)" using buf by (rule length_stn)
    then have "tx_ready k E d ?s'" "guest_pkt (d_dev ?s' d) = guest_pkt ?dev"
      using R by (auto simp: tx_ready_def queue_ok_def s1_def upd_dev_def guest_pkt_def)
    moreover have "pkt_data ?s' m = guest_pkt ?dev h"
      using bs drop_stn [OF buf] by (simp add: pkt_data_def mtod_def upd_dev_def guest_pkt_def Let_def tx_len_def)
    moreover have "keeps_packets holds s ?s'"
      using M by (auto simp: keeps_packets_def pkt_data_def mtod_def upd_dev_def)
    moreover have "d_lib ?s' = w" "mb_buf (d_mbuf ?s' m) = m" by (simp_all add: upd_dev_def)
    ultimately show ?thesis using e M by auto
  qed
qed

lemma keeps_packets_trans:
  assumes "keeps_packets holds s s1" "keeps_packets holds s1 s2" "holds (d_lib s) = add_mset x (holds (d_lib s1))"
  shows "keeps_packets holds s s2"
  using assms unfolding keeps_packets_def by (metis (no_types, lifting) insert_iff set_mset_add_mset_insert)

lemma dequeue_loop_ready:
  assumes L: "dpdk_ok (e_lib E) holds"
  shows "tx_ready k E d s \<Longrightarrow> once (holds (d_lib s)) \<Longrightarrow> \<forall>h \<in> set hs. unat h < 2 ^ k \<Longrightarrow>
    \<exists>ms full s'. dequeue_loop E d hs s = Some (ms, full, s') \<and> keeps_packets holds s s' \<and> length ms \<le> length hs \<and>
      (\<forall>i < length ms. pkt_data s' (ms ! i) = guest_pkt (d_dev s d) (hs ! i))"
proof (induction hs arbitrary: s)
  case Nil
  then show ?case by (auto simp: keeps_packets_def)
next
  case (Cons h hs)
  obtain r where r: "dequeue_packet E d h s = Some r" and C: "case r of Inl s' \<Rightarrow> True | Inr (m, s') \<Rightarrow>
    tx_ready k E d s' \<and> guest_pkt (d_dev s' d) = guest_pkt (d_dev s d) \<and> once (holds (d_lib s')) \<and> m \<notin># holds (d_lib s') \<and>
    mb_buf (d_mbuf s' m) = m \<and> pkt_data s' m = guest_pkt (d_dev s d) h \<and> keeps_packets holds s s'"
    using dequeue_packet_ready [OF L Cons.prems(1) _ Cons.prems(2), of h] Cons.prems(3) by auto
  show ?case
  proof (cases r)
    case (Inl s1)
    have "keeps_packets holds s s1"
      using r Inl unfolding dequeue_packet_def Let_def
      by (auto split: bind_splits prod.splits option.splits simp: mbuf_alloc_def upd_dev_def keeps_packets_def pkt_data_def mtod_def)
    then show ?thesis using r Inl by auto
  next
    case (Inr p)
    obtain m s1 where p: "p = (m, s1)" by (cases p)
    note D = C [unfolded Inr p, simplified]
    obtain ms full s' where IH: "dequeue_loop E d hs s1 = Some (ms, full, s')" "keeps_packets holds s1 s'" "length ms \<le> length hs"
        "\<forall>i < length ms. pkt_data s' (ms ! i) = guest_pkt (d_dev s1 d) (hs ! i)"
      using Cons.IH [of s1] D Cons.prems(3) by auto
    have "owned holds 0 s = add_mset m (owned holds 0 s1)" using dequeue_packet_account [OF L r, of 0] Inr p by simp
    then have "holds (d_lib s) = add_mset m (holds (d_lib s1))" by (simp add: owned_def cache_sum_def)
    then have k: "keeps_packets holds s s'" using D IH(2) keeps_packets_trans by blast
    have "pkt_data s' m = pkt_data s1 m" using IH(2) D by (simp add: keeps_packets_def)
    then have "\<forall>i < length (m # ms). pkt_data s' ((m # ms) ! i) = guest_pkt (d_dev s d) ((h # hs) ! i)"
      using D IH(4) by (simp add: all_less_Suc)
    then show ?thesis using r Inr p IH(1,3) k by auto
  qed
qed

text \<open>The number of entries to take, in terms of what is offered and asked for.\<close>

lemma dequeue_count_bounds:
  fixes avail_idx idx :: u16 and n :: nat
  defines "a \<equiv> min (unat (avail_idx - idx)) n" and "c \<equiv> dequeue_count avail_idx idx n"
  shows "c \<le> a" "a \<le> c + 3" "a \<le> 4 \<Longrightarrow> c = a" "4 < a \<Longrightarrow> (unat idx + c) mod 4 = 0"
proof -
  have m: "(unat idx + a) mod 4 \<le> 3" by (simp add: mod_le_divisor [THEN order_trans] less_Suc_eq_le [symmetric])
  show "c \<le> a" "a \<le> c + 3" "a \<le> 4 \<Longrightarrow> c = a"
    using m unfolding c_def a_def dequeue_count_def Let_def DESC_PER_CACHELINE_def by auto
  show "(unat idx + c) mod 4 = 0" if "4 < a"
  proof -
    have "c = a - (unat idx + a) mod 4" using that by (simp add: c_def a_def dequeue_count_def Let_def DESC_PER_CACHELINE_def)
    then have "unat idx + c = unat idx + a - (unat idx + a) mod 4" using m that by simp
    then show ?thesis by (simp add: minus_mod_eq_mult_div)
  qed
qed

text \<open>A burst ends early only because no mbuf can be allocated.\<close>

lemma dequeue_loop_short:
  "dequeue_loop E d hs s = Some (ms, full, s') \<Longrightarrow> length ms < length hs \<Longrightarrow> \<exists>w. pktmbuf_alloc (e_lib E) w = (None, d_lib s')"
proof (induction hs arbitrary: s ms)
  case (Cons h hs)
  then obtain r where r: "dequeue_packet E d h s = Some r" by (cases "dequeue_packet E d h s") auto
  show ?case
  proof (cases r)
    case (Inl s1)
    then have "\<exists>w. pktmbuf_alloc (e_lib E) w = (None, d_lib s1)"
      using r unfolding dequeue_packet_def Let_def
      by (auto split: bind_splits prod.splits option.splits simp: mbuf_alloc_def)
    then show ?thesis using Cons.prems(1) r Inl by simp
  next
    case (Inr p)
    obtain m s1 where p: "p = (m, s1)" by (cases p)
    obtain ms' where "dequeue_loop E d hs s1 = Some (ms', full, s')" "ms = m # ms'"
      using Cons.prems(1) r Inr p by (auto split: bind_splits)
    then show ?thesis using Cons.IH [of s1 ms'] Cons.prems(2) by simp
  qed
qed simp

text \<open>The used ring names the heads that were taken, with length 0.\<close>

definition tx_used :: "nat \<Rightarrow> 'w dp \<Rightarrow> (u32 \<times> u32) list" where
  "tx_used d s = gq_used_ring (vd_tx_rings (d_dev s d))"

lemma dequeue_packet_used:
  assumes "dequeue_packet E d h s = Some (Inr (m, s'))"
  shows "tx_used d s' = (tx_used d s)[slot (vd_txq (d_dev s d)) (tx_idx d s) := (ucast h, 0)]" "tx_idx d s' = tx_idx d s + 1"
    "vq_size (vd_txq (d_dev s' d)) = vq_size (vd_txq (d_dev s d))"
  using assms unfolding dequeue_packet_def Let_def
  by (auto split: bind_splits prod.splits option.splits if_splits simp: mbuf_alloc_def upd_dev_def tx_used_def tx_idx_def set_nth_def)

lemma dequeue_packet_used_short:
  assumes "dequeue_packet E d h s = Some (Inl s')"
  shows "tx_used d s' = (tx_used d s)[slot (vd_txq (d_dev s d)) (tx_idx d s) := (ucast h, 0)]"
  using assms unfolding dequeue_packet_def Let_def
  by (auto split: bind_splits prod.splits option.splits if_splits simp: mbuf_alloc_def upd_dev_def tx_used_def tx_idx_def set_nth_def)

lemma slot_size: "vq_size vq' = vq_size vq \<Longrightarrow> slot vq' = slot vq"
  by (simp add: slot_def slot32_def fun_eq_iff)

lemma dequeue_loop_used:
  "dequeue_loop E d hs s = Some (ms, full, s') \<Longrightarrow> vq_size (vd_txq (d_dev s d)) = 2 ^ k \<Longrightarrow> k \<le> 15 \<Longrightarrow> length (tx_used d s) = 2 ^ k \<Longrightarrow>
   length hs \<le> 2 ^ k \<Longrightarrow> (\<forall>i < length ms. tx_used d s' ! slot (vd_txq (d_dev s d)) (tx_idx d s + of_nat i) = (ucast (hs ! i), 0)) \<and>
     (\<forall>j < 2 ^ k. (\<forall>i < length hs. j \<noteq> slot (vd_txq (d_dev s d)) (tx_idx d s + of_nat i)) \<longrightarrow> tx_used d s' ! j = tx_used d s ! j)"
proof (induction hs arbitrary: s ms)
  case (Cons h hs)
  let ?sl = "slot (vd_txq (d_dev s d))"
  obtain r where r: "dequeue_packet E d h s = Some r" using Cons.prems(1) by (cases "dequeue_packet E d h s") auto
  have sl: "?sl (tx_idx d s) \<noteq> ?sl (tx_idx d s + of_nat (Suc i))" if "i < length hs" for i
    using slot_inj [OF Cons.prems(2,3), of 0 "Suc i" "tx_idx d s"] that Cons.prems(5) by auto
  have lt: "?sl (tx_idx d s) < 2 ^ k" by (rule slot_less [OF Cons.prems(2)])
  show ?case
  proof (cases r)
    case (Inl s1)
    then have "ms = []" "s' = s1" using Cons.prems(1) r by auto
    then show ?thesis using dequeue_packet_used_short [OF r [unfolded Inl]] by (auto simp: all_less_Suc)
  next
    case (Inr p)
    obtain m s1 where p: "p = (m, s1)" by (cases p)
    obtain ms' where l: "dequeue_loop E d hs s1 = Some (ms', full, s')" "ms = m # ms'"
      using Cons.prems(1) r Inr p by (auto split: bind_splits)
    note u = dequeue_packet_used [OF r [unfolded Inr p]]
    have e: "tx_idx d s1 + of_nat i = tx_idx d s + of_nat (Suc i)" for i by (simp add: u(2))
    have IH: "(\<forall>i < length ms'. tx_used d s' ! ?sl (tx_idx d s + of_nat (Suc i)) = (ucast (hs ! i), 0)) \<and>
      (\<forall>j < 2 ^ k. (\<forall>i < length hs. j \<noteq> ?sl (tx_idx d s + of_nat (Suc i))) \<longrightarrow> tx_used d s' ! j = tx_used d s1 ! j)"
      using Cons.IH [OF l(1)] Cons.prems(2-5) u(1,3) unfolding e slot_size [OF u(3)] by simp
    then have "tx_used d s' ! ?sl (tx_idx d s) = (ucast h, 0)" using sl lt u(1) Cons.prems(4) by simp
    moreover have "tx_used d s' ! j = tx_used d s ! j"
      if "j < 2 ^ k" "j \<noteq> ?sl (tx_idx d s)" "\<forall>i < length hs. j \<noteq> ?sl (tx_idx d s + of_nat (Suc i))" for j
      using IH that u(1) by simp
    ultimately show ?thesis using IH unfolding l(2) length_Cons all_less_Suc nth_Cons_0 nth_Cons_Suc by simp
  qed
qed simp

section \<open>Properties\<close>

text \<open>C22: Without mergeable buffers a burst that can be delivered is delivered: as many packets as there are free entries, up
  to 32, are sent. The guest finds each of them, behind a zero header, in the buffer of its head and in the used
  ring with its length, and the indices move on by their number.\<close>

theorem vhost_enqueue_burst_delivers:
  assumes "queue_ok k (vd_rxq dev) (vd_rx_rings dev)" "last_used_idx (vd_rxq dev) = last_used_idx_res (vd_rxq dev)"
    and "\<not> bit (vd_features dev) VIRTIO_NET_F_MRG_RXBUF"
    and "n = min (min (length pkts) PKT_BURST_SIZE)
      (wait_free (gq_avail_idx (vd_rx_rings dev)) (last_used_idx_res (vd_rxq dev)) (min (length pkts) PKT_BURST_SIZE) 0 burst_tx_retry_num)"
    and "deliverable k dev (rx_heads dev n) (take n pkts) (enq_start dev)"
  shows "\<exists>dev'. vhost_enqueue_burst dev pkts = Some (n, dev') \<and>
    gq_used_idx (vd_rx_rings dev') = gq_used_idx (vd_rx_rings dev) + of_nat n \<and>
    last_used_idx (vd_rxq dev') = last_used_idx (vd_rxq dev) + of_nat n \<and> last_used_idx_res (vd_rxq dev') = last_used_idx (vd_rxq dev') \<and>
    (\<forall>i < n. host_load (vd_host dev') (head_addr dev (rx_heads dev n ! i)) (length (framed dev (pkts ! i))) = Some (framed dev (pkts ! i)) \<and>
      gq_used_ring (vd_rx_rings dev') ! slot (vd_rxq dev) (last_used_idx (vd_rxq dev) + of_nat i) =
        used_entry dev (rx_heads dev n ! i) (pkts ! i))"
proof (cases "n = 0")
  case True
  then show ?thesis using assms(2,4) by (simp add: vhost_enqueue_burst_def)
next
  case False
  let ?b = "last_used_idx_res (vd_rxq dev)"
  let ?q = "(vd_rxq dev)\<lparr>last_used_idx_res := ?b + of_nat n\<rparr>"
  let ?d = "dev\<lparr>vd_rxq := ?q\<rparr>"
  have "deliverable k ?d (rx_heads dev n) (take n pkts) (enq_start dev)" using assms(5) by simp
  from enqueue_loop_delivers [OF this, of ?b] obtain st
    where st: "enqueue_loop ?d False ?b (rx_heads dev n) (take n pkts) (enq_start dev) = Some st"
      "delivered k ?d ?b (rx_heads dev n) (take n pkts) (enq_start dev) st" by blast
  have "read_heads ?q (vd_rx_rings dev) (ucast ?b) n = Some (rx_heads dev n)"
    using read_heads_nth [of k ?q "vd_rx_rings dev" ?b n] assms(1) by (simp add: rx_heads_def)
  then have "vhost_enqueue_burst dev pkts = Some (n, dev\<lparr>vd_rxq := ?q\<lparr>last_used_idx := ?b + of_nat n\<rparr>, vd_host := eq_host st,
      vd_rx_rings := (vd_rx_rings dev)\<lparr>gq_desc := eq_desc st, gq_used_ring := eq_used st,
        gq_used_idx := gq_used_idx (vd_rx_rings dev) + of_nat n\<rparr>\<rparr>)"
    using st(1) False assms(2,3) unfolding vhost_enqueue_burst_def Let_def assms(4) [symmetric] enq_start_def by simp
  moreover have "length (rx_heads dev n) = n" by (simp add: rx_heads_def)
  ultimately show ?thesis
    using st(2) assms(2) by (simp add: delivered_def)
qed

definition example_dev :: vhost_dev where
  "example_dev = \<lparr>vd_features = 0,
     vd_mem = \<lparr>base_address = 0x1000, mapped_address = 0x2000, mapped_size = 0x1000, regions =
       [\<lparr>guest_phys_address = 0, guest_phys_address_end = 0x1000, memory_size = 0x1000, userspace_address = 0x1000, address_offset = 0x2000\<rparr>]\<rparr>,
     vd_rxq = zero_vq\<lparr>vq_size := 2, vhost_hlen := 10\<rparr>, vd_txq = zero_vq\<lparr>vq_size := 2, vhost_hlen := 10\<rparr>,
     vd_rx_rings = \<lparr>gq_desc = replicate 2 \<lparr>desc_addr = 0x100, desc_len = 64, desc_flags = 0, desc_next = 0\<rparr>,
       gq_avail_idx = (\<lambda>_. 1), gq_avail_ring = [1, 0], gq_used_idx = 0, gq_used_ring = [(0, 0), (0, 0)]\<rparr>,
     vd_tx_rings = \<lparr>gq_desc = replicate 2 \<lparr>desc_addr = 0x100, desc_len = 4096, desc_flags = 1, desc_next = 1\<rparr>,
       gq_avail_idx = (\<lambda>_. 1), gq_avail_ring = [0, 0], gq_used_idx = 0, gq_used_ring = [(0, 0), (0, 0)]\<rparr>,
     vd_host = (\<lambda>_. Some 0)\<rparr>"

theorem vhost_enqueue_burst_delivers_witness:
  "\<exists>dev'. vhost_enqueue_burst example_dev [[1, 2, 3]] = Some (1, dev') \<and>
     host_load (vd_host dev') 0x2100 13 = Some (zeros 10 @ [1, 2, 3]) \<and> gq_used_ring (vd_rx_rings dev') ! 0 = (1, 13)"
proof -
  have h: "rx_heads example_dev 1 = [1]" "head_addr example_dev 1 = 0x2100" "framed example_dev [1, 2, 3] = zeros 10 @ [1, 2, 3]"
    by (simp_all add: rx_heads_def example_dev_def zero_vq_def slot_def slot32_def head_addr_def gpa_to_vva_def framed_def virtio_hdr_def)
  have "deliverable 1 example_dev (rx_heads example_dev 1) (take 1 [[1, 2, 3]]) (enq_start example_dev)"
    unfolding h(1) deliverable_def
    by (intro conjI) (simp_all add: mapped_def same_desc_def example_dev_def zero_vq_def enq_start_def VRING_DESC_F_NEXT_def
      split: prod.splits)
  moreover have "queue_ok 1 (vd_rxq example_dev) (vd_rx_rings example_dev)"
    by (simp add: queue_ok_def example_dev_def zero_vq_def)
  moreover have "last_used_idx (vd_rxq example_dev) = 0" "last_used_idx_res (vd_rxq example_dev) = 0"
    "\<not> bit (vd_features example_dev) VIRTIO_NET_F_MRG_RXBUF" "slot (vd_rxq example_dev) 0 = 0"
    "gq_avail_idx (vd_rx_rings example_dev) = (\<lambda>_. 1)" "used_entry example_dev 1 [1, 2, 3] = (1, 13)"
    by (simp_all add: example_dev_def zero_vq_def slot_def slot32_def used_entry_def)
  moreover have "wait_free (\<lambda>_. 1) 0 1 0 burst_tx_retry_num = 1"
    by (simp add: burst_tx_retry_num_def eval_nat_numeral)
  ultimately obtain dev' where "vhost_enqueue_burst example_dev [[1, 2, 3]] = Some (1, dev')"
    "host_load (vd_host dev') (head_addr example_dev (rx_heads example_dev 1 ! 0)) (length (framed example_dev [1, 2, 3])) =
       Some (framed example_dev [1, 2, 3])"
    "gq_used_ring (vd_rx_rings dev') ! 0 = (1, 13)"
    using vhost_enqueue_burst_delivers [of 1 example_dev 1 "[[1, 2, 3]]"] h
    by (auto simp: PKT_BURST_SIZE_def)
  then show ?thesis using h by simp
qed

text \<open>C23: A burst from a guest with a well-formed transmit queue. Let \<open>a\<close> be the number of entries the guest offers, cut to
  the number asked for. The burst is to take all of them if they are at most 4, and otherwise stops at the last end of a
  group of 4 entries, so that it leaves at most 3. It takes that many, \<open>c\<close>, unless the pool has no mbuf left. The mbufs
  come from the pool and hold the guest's packets in the order of the available ring, the index of the queue moves on by
  their number, and the used ring names their heads; its index moves on only if the burst took all \<open>c\<close>.\<close>

theorem vhost_dequeue_burst_receives:
  assumes "dpdk_ok (e_lib E) holds" "tx_ready k E d s" "once (holds (d_lib s))"
    and "a = min (unat (gq_avail_idx (vd_tx_rings (d_dev s d)) 0 - tx_idx d s)) n"
  shows "\<exists>c ms s'. vhost_dequeue_burst E d n s = Some (ms, s') \<and>
    c \<le> a \<and> a \<le> c + 3 \<and> (a \<le> 4 \<longrightarrow> c = a) \<and> (4 < a \<longrightarrow> (unat (tx_idx d s) + c) mod 4 = 0) \<and>
    length ms \<le> c \<and> (length ms < c \<longrightarrow> (\<exists>w. pktmbuf_alloc (e_lib E) w = (None, d_lib s'))) \<and>
    owned holds cores s = mset ms + owned holds cores s' \<and>
    tx_idx d s' = tx_idx d s + of_nat (length ms) \<and>
    tx_used_idx d s' = tx_used_idx d s + (if length ms = c then of_nat (length ms) else 0) \<and>
    (\<forall>i < length ms. pkt_data s' (ms ! i) = guest_pkt (d_dev s d)
       (gq_avail_ring (vd_tx_rings (d_dev s d)) ! slot (vd_txq (d_dev s d)) (tx_idx d s + of_nat i))) \<and>
    (c \<le> 2 ^ k \<longrightarrow> (\<forall>i < length ms. tx_used d s' ! slot (vd_txq (d_dev s d)) (tx_idx d s + of_nat i) =
       (ucast (gq_avail_ring (vd_tx_rings (d_dev s d)) ! slot (vd_txq (d_dev s d)) (tx_idx d s + of_nat i)), 0)))"
proof -
  let ?vq = "vd_txq (d_dev s d)" and ?g = "vd_tx_rings (d_dev s d)"
  let ?c = "dequeue_count (gq_avail_idx ?g 0) (tx_idx d s) n"
  let ?head = "\<lambda>i. gq_avail_ring ?g ! slot ?vq (tx_idx d s + of_nat i)"
  let ?hs = "map ?head [0..<?c]"
  have q: "queue_ok k ?vq ?g" using assms(2) by (simp add: tx_ready_def)
  have "\<forall>h \<in> set ?hs. unat h < 2 ^ k" using q slot_less [of ?vq k] by (auto simp: queue_ok_def)
  from dequeue_loop_ready [OF assms(1-3) this] obtain ms full s1 where l: "dequeue_loop E d ?hs s = Some (ms, full, s1)"
      "length ms \<le> ?c" "\<forall>i < length ms. pkt_data s1 (ms ! i) = guest_pkt (d_dev s d) (?hs ! i)" by auto
  define s' where "s' = (if full then upd_dev d (\<lambda>dev. dev\<lparr>vd_tx_rings := (vd_tx_rings dev)
      \<lparr>gq_used_idx := gq_used_idx (vd_tx_rings dev) + of_nat (length ms)\<rparr>\<rparr>) s1 else s1)"
  have same: "d_lib s' = d_lib s1" "tx_used d s' = tx_used d s1" "pkt_data s' = pkt_data s1"
    by (simp_all add: s'_def upd_dev_def tx_used_def pkt_data_def mtod_def fun_eq_iff)
  have b: "vhost_dequeue_burst E d n s = Some (ms, s')"
  proof (cases "tx_idx d s = gq_avail_idx ?g 0")
    case True
    then have "?c = 0" by (simp add: dequeue_count_def)
    then have "ms = []" "s1 = s" using l(1) by auto
    then have "s' = s" by (simp add: s'_def upd_dev_def)
    then show ?thesis using True \<open>ms = []\<close> by (simp add: vhost_dequeue_burst_def tx_idx_def)
  next
    case False
    then show ?thesis
      using l(1) read_heads_nth [OF q, of "tx_idx d s" ?c] by (simp add: vhost_dequeue_burst_def Let_def tx_idx_def s'_def)
  qed
  have "\<forall>i < length ms. pkt_data s' (ms ! i) = guest_pkt (d_dev s d) (?head i)" using l(2,3) by (simp add: same)
  moreover have "?c \<le> 2 ^ k \<longrightarrow> (\<forall>i < length ms. tx_used d s' ! slot ?vq (tx_idx d s + of_nat i) = (ucast (?head i), 0))"
  proof -
    have "length (tx_used d s) = 2 ^ k" using q by (simp add: queue_ok_def tx_used_def)
    with dequeue_loop_used [OF l(1), of k] q l(2) show ?thesis by (simp add: same queue_ok_def)
  qed
  moreover have "length ms < ?c \<longrightarrow> (\<exists>w. pktmbuf_alloc (e_lib E) w = (None, d_lib s'))"
    using dequeue_loop_short [OF l(1)] by (simp add: same)
  ultimately show ?thesis
    using b l(2) dequeue_burst_account [OF assms(1) b] dequeue_count_bounds [where n = n and idx = "tx_idx d s" and avail_idx = "gq_avail_idx ?g 0"]
    unfolding assms(4) by (intro exI [of _ ?c] exI [of _ ms] exI [of _ s']) simp
qed

text \<open>The length of a packet is the guest's, and the copy is not limited to the mbuf: a descriptor whose length, modulo
  2^16, exceeds the room behind the headroom makes the datapath write beyond the end of the buffer.\<close>

theorem vhost_dequeue_overruns_mbuf:
  assumes "pktmbuf_alloc (e_lib E) (d_lib s) = (Some m, w)"
    and "tx_len (gq_desc (vd_tx_rings (d_dev s d)) ! unat (desc_next (gq_desc (vd_tx_rings (d_dev s d)) ! unat h))) +
      pktmbuf_headroom (e_lib E) > length (d_buf s m)"
  shows "dequeue_packet E d h s = None"
proof -
  have "stn b i bs = None" if "length bs + i > length b" for b i and bs :: bytes
    using that by (simp add: stn_def)
  then show ?thesis
    using assms by (auto simp: dequeue_packet_def Let_def get_nth_def set_nth_def mbuf_alloc_def upd_dev_def host_load_def tx_len_def add.commute
      split: option.splits bind_splits)
qed

definition example_dp :: "nat list dp" where
  "example_dp = \<lparr>d_lib = [7, 8], d_mbuf = (\<lambda>m. \<lparr>mb_buf = m, mb_off = 128, mb_data_len = 0, mb_pkt_len = 0\<rparr>), d_buf = (\<lambda>_. zeros 2048),
     d_stats = stats_init, d_vports = vport_init example_cfg, d_client_cache = (\<lambda>_ _. []), d_port_cache = (\<lambda>_ _. []),
     d_vhost_cache = (\<lambda>_ _. []), d_prev_tsc = (\<lambda>_. 0), d_dev = (\<lambda>_. example_dev)\<rparr>"

theorem vhost_dequeue_overruns_mbuf_witness:
  "dequeue_packet example_env 0 0 example_dp = None"
  by (rule vhost_dequeue_overruns_mbuf [where m = 7 and w = "[8]"])
    (simp_all add: example_env_def pool_lib_def pool_take_def example_dp_def example_dev_def tx_len_def)

definition good_dev :: vhost_dev where
  "good_dev = example_dev\<lparr>vd_tx_rings := (vd_tx_rings example_dev)\<lparr>gq_desc :=
     replicate 2 \<lparr>desc_addr = 0x100, desc_len = 60, desc_flags = 1, desc_next = 1\<rparr>\<rparr>\<rparr>"

theorem vhost_dequeue_burst_receives_witness:
  "\<exists>m s'. vhost_dequeue_burst example_env 0 32 (example_dp\<lparr>d_dev := (\<lambda>_. good_dev)\<rparr>) = Some ([m], s') \<and>
     pkt_data s' m = zeros 60 \<and> tx_idx 0 s' = 1 \<and> tx_used_idx 0 s' = 1 \<and> tx_used 0 s' ! 0 = (0, 0)"
proof -
  let ?s = "example_dp\<lparr>d_dev := (\<lambda>_. good_dev)\<rparr>"
  have r: "tx_ready 1 example_env 0 ?s"
    by (simp add: tx_ready_def queue_ok_def good_dev_def example_dev_def zero_vq_def example_dp_def mapped_def tx_len_def
        example_env_def pool_lib_def)
  have o: "once (mset (d_lib ?s))" by (simp add: once_def example_dp_def)
  have i: "tx_idx 0 ?s = 0" "tx_used_idx 0 ?s = 0" "gq_avail_idx (vd_tx_rings (d_dev ?s 0)) 0 = 1"
    "slot (vd_txq (d_dev ?s 0)) 0 = 0" "gq_avail_ring (vd_tx_rings (d_dev ?s 0)) = [0, 0]"
    by (simp_all add: tx_idx_def tx_used_idx_def good_dev_def example_dev_def zero_vq_def slot_def slot32_def)
  have g: "guest_pkt (d_dev ?s 0) 0 = zeros 60"
    by (simp add: guest_pkt_def Let_def good_dev_def example_dev_def host_load_def tx_len_def zeros_def map_replicate_const)
  have ow: "owned mset 0 ?s = {#7, 8#}" by (simp add: owned_def cache_sum_def example_dp_def)
  obtain ms s' where b: "vhost_dequeue_burst example_env 0 32 ?s = Some (ms, s')" "length ms \<le> 1"
    "length ms < 1 \<longrightarrow> (\<exists>w. pktmbuf_alloc (e_lib example_env) w = (None, d_lib s'))" "{#7, 8#} = mset ms + owned mset 0 s'"
    "tx_idx 0 s' = of_nat (length ms)" "tx_used_idx 0 s' = (if length ms = 1 then of_nat (length ms) else 0)"
    "\<forall>i < length ms. pkt_data s' (ms ! i) = guest_pkt (d_dev ?s 0) ([0, 0] ! slot (vd_txq (d_dev ?s 0)) (of_nat i))"
    "\<forall>i < length ms. tx_used 0 s' ! slot (vd_txq (d_dev ?s 0)) (of_nat i) = (ucast ([0, 0 :: u16] ! slot (vd_txq (d_dev ?s 0)) (of_nat i)), 0)"
  proof -
    obtain c ms s' where *: "c \<le> 1" "1 \<le> (4 :: nat) \<longrightarrow> c = 1" "vhost_dequeue_burst example_env 0 32 ?s = Some (ms, s') \<and> length ms \<le> c \<and>
      (length ms < c \<longrightarrow> (\<exists>w. pktmbuf_alloc (e_lib example_env) w = (None, d_lib s'))) \<and> {#7, 8#} = mset ms + owned mset 0 s' \<and>
      tx_idx 0 s' = 0 + of_nat (length ms) \<and> tx_used_idx 0 s' = 0 + (if length ms = c then of_nat (length ms) else 0) \<and>
      (\<forall>i < length ms. pkt_data s' (ms ! i) = guest_pkt (d_dev ?s 0) ([0, 0] ! slot (vd_txq (d_dev ?s 0)) (0 + of_nat i))) \<and>
      (c \<le> 2 ^ 1 \<longrightarrow> (\<forall>i < length ms. tx_used 0 s' ! slot (vd_txq (d_dev ?s 0)) (0 + of_nat i) =
         (ucast ([0, 0 :: u16] ! slot (vd_txq (d_dev ?s 0)) (0 + of_nat i)), 0)))"
      using vhost_dequeue_burst_receives [OF example_env_ok r o, of 1 32 0] unfolding i ow by (simp add: min_def) blast
    then have "c = 1" by simp
    from *(3) [unfolded this] that show ?thesis by simp
  qed
  have "\<not> length ms < 1"
  proof
    assume "length ms < 1"
    with b(3,4) obtain w where "pool_take w = (None, d_lib s')" "{#7, 8#} = owned mset 0 s'" by (auto simp: example_env_def pool_lib_def)
    then show False by (auto simp: pool_take_def owned_def cache_sum_def split: list.splits)
  qed
  then obtain m where "ms = [m]" using b(2) by (cases ms) auto
  then show ?thesis using b(1,5-8) g i(4) by auto
qed

end
