(* ===== verification/VportIO.thy ===== *)
theory VportIO
  imports VhostRing
begin

text \<open>
  Sending to, receiving from and flushing ports, \<open>datapath/dpdk/vport.c\<close>. Packets to clients, physical ports and vhost
  ports are collected in a cache per core and port, which is flushed in one burst when it is full, and
  periodically. The caches have a row per core and a column per port of the kind, and a cache has 32 places;
  an access outside of them is undefined (\<open>None\<close>).
\<close>

section \<open>Caches\<close>

definition cache_row :: "'w env \<Rightarrow> nat" where
  "cache_row E = e_lcore_map E (e_lcore E)"

text \<open>
  The place of port \<open>v\<close> of a kind whose first port is \<open>base\<close>. The difference is unsigned, so that a port below \<open>base\<close>
  is outside of the row too.
\<close>

definition in_cache :: "nat \<Rightarrow> nat \<Rightarrow> nat \<Rightarrow> nat \<Rightarrow> nat \<Rightarrow> bool" where
  "in_cache rows cols base l v \<longleftrightarrow> l < rows \<and> base \<le> v \<and> v - base < cols"

definition cache_push :: "nat \<Rightarrow> nat \<Rightarrow> nat \<Rightarrow> (nat \<Rightarrow> nat \<Rightarrow> nat list) \<Rightarrow> (nat \<Rightarrow> nat \<Rightarrow> nat list) option" where
  "cache_push l p m c =
     (if length (c l p) < LOCAL_MBUF_CACHE_SIZE then Some (c(l := (c l)(p := c l p @ [m]))) else None)"

definition free_all :: "'w env \<Rightarrow> nat list \<Rightarrow> 'w dp \<Rightarrow> 'w dp" where
  "free_all E ms s = fold (mbuf_free E) ms s"

section \<open>Flushing\<close>

definition flush_phy_port_cache :: "'w env \<Rightarrow> nat \<Rightarrow> 'w dp \<Rightarrow> 'w dp option" where
  "flush_phy_port_cache E vportid s =
     (let l = cache_row E; portid = vportid - PHYPORT0; cache = d_port_cache s l portid in
      if \<not> in_cache (e_cores E) (num_phy_ports (e_cfg E)) PHYPORT0 l vportid then None
      else let (tx_count, w) = ring_enqueue_burst (e_lib E) (PORT_TX vportid) cache (d_lib s);
               s = s\<lparr>d_lib := w\<rparr>;
               dropped = int (length cache - tx_count) mod 256;
               s = (if tx_count < length cache
                    then upd_stats (stats_vport_tx_drop_increment (e_lcore E) vportid dropped)
                      (upd_stats (stats_vswitch_tx_drop_increment (e_lcore E) dropped) (free_all E (drop tx_count cache) s))
                    else s)
        in Some (s\<lparr>d_port_cache := (d_port_cache s)(l := (d_port_cache s l)(portid := []))\<rparr>))"

definition flush_client_port_cache :: "'w env \<Rightarrow> nat \<Rightarrow> 'w dp \<Rightarrow> 'w dp option" where
  "flush_client_port_cache E clientid s =
     (let l = cache_row E; i = clientid - CLIENT1; cache = d_client_cache s l i in
      if \<not> in_cache (e_cores E) (num_clients (e_cfg E)) CLIENT1 l clientid then None
      else let (tx_count, w) = ring_enqueue_burst (e_lib E) (CLIENT_RX clientid) cache (d_lib s);
               s = s\<lparr>d_lib := w\<rparr>;
               dropped = int (length cache - tx_count) mod 256;
               s = (if tx_count < length cache
                    then upd_stats (stats_vport_rx_drop_increment (e_lcore E) clientid dropped)
                      (upd_stats (stats_vswitch_tx_drop_increment (e_lcore E) dropped) (free_all E (drop tx_count cache) s))
                    else s);
               s = upd_stats (stats_vport_rx_increment (e_lcore E) clientid (int tx_count)) s
        in Some (s\<lparr>d_client_cache := (d_client_cache s)(l := (d_client_cache s l)(i := []))\<rparr>))"

text \<open>The caches of vhost ports have their row at the number of the core itself, which \<open>lcore_map\<close> does not translate.\<close>

definition flush_vhost_dev_port_cache :: "'w env \<Rightarrow> nat \<Rightarrow> 'w dp \<Rightarrow> 'w dp option" where
  "flush_vhost_dev_port_cache E vportid s =
     (let l = e_lcore E; i = vportid - VHOST0; cache = d_vhost_cache s l i in
      if \<not> in_cache (e_cores E) (num_vhost (e_cfg E)) VHOST0 l vportid then None
      else do {
        s \<leftarrow> (case vi_dev (d_vports s vportid) of
            None \<Rightarrow> Some (upd_stats (stats_vport_rx_drop_increment (e_lcore E) vportid (int (length cache)))
              (upd_stats (stats_vswitch_tx_drop_increment (e_lcore E) (int (length cache))) s))
          | Some d \<Rightarrow> do {
              (tx_count, dev) \<leftarrow> vhost_enqueue_burst (d_dev s d) (map (pkt_data s) cache);
              _ \<leftarrow> (if list_all (pkt_fits s) (take tx_count cache) then Some () else None);
              let s = s\<lparr>d_dev := (d_dev s)(d := dev)\<rparr>;
              let dropped = int (length cache - tx_count) mod 256;
              let s = (if tx_count < length cache
                  then upd_stats (stats_vport_rx_drop_increment (e_lcore E) vportid dropped)
                    (upd_stats (stats_vswitch_tx_drop_increment (e_lcore E) dropped) s)
                  else s);
              Some (upd_stats (stats_vport_rx_increment (e_lcore E) vportid (int tx_count)) s) });
        let s = free_all E cache s;
        Some (s\<lparr>d_vhost_cache := (d_vhost_cache s)(l := (d_vhost_cache s l)(i := []))\<rparr>) })"

text \<open>A loop of fallible steps.\<close>

fun iterate :: "(nat \<Rightarrow> 's \<Rightarrow> 's option) \<Rightarrow> nat list \<Rightarrow> 's \<Rightarrow> 's option" where
  "iterate f [] s = Some s"
| "iterate f (i # js) s = do { s \<leftarrow> f i s; iterate f js s }"

definition flush_ports :: "'w env \<Rightarrow> 'w dp \<Rightarrow> 'w dp option" where
  "flush_ports E = iterate (\<lambda>portid s.
     if \<not> cache_row E < e_cores E then None
     else if d_port_cache s (cache_row E) portid \<noteq> [] then flush_phy_port_cache E (portid + PHYPORT0) s else Some s)
     [0..<num_phy_ports (e_cfg E)]"

definition flush_clients :: "'w env \<Rightarrow> 'w dp \<Rightarrow> 'w dp option" where
  "flush_clients E = iterate (\<lambda>clientid s.
     if \<not> cache_row E < e_cores E then None
     else if d_client_cache s (cache_row E) clientid \<noteq> [] then flush_client_port_cache E (clientid + CLIENT1) s else Some s)
     [0..<num_clients (e_cfg E)]"

definition flush_vhost_devs :: "'w env \<Rightarrow> 'w dp \<Rightarrow> 'w dp option" where
  "flush_vhost_devs E = iterate (\<lambda>vhostid s.
     if \<not> e_lcore E mod 256 < e_cores E then None
     else if d_vhost_cache s (e_lcore E mod 256) vhostid \<noteq> [] then flush_vhost_dev_port_cache E (vhostid + VHOST0) s else Some s)
     [0..<num_vhost (e_cfg E)]"

definition MAX_PHYPORTS :: nat where "MAX_PHYPORTS = 16"

definition flush_nic_tx_ring :: "'w env \<Rightarrow> nat \<Rightarrow> 'w dp \<Rightarrow> 'w dp option" where
  "flush_nic_tx_ring E vportid s =
     (let portid = vi_index (d_vports s vportid);
          (cur_tsc, w) = rdtsc (e_lib E) (d_lib s);
          s = s\<lparr>d_lib := w\<rparr>;
          tx_count = ring_count (e_lib E) (PORT_TX vportid) w
      in if tx_count < PKT_BURST_SIZE \<and> \<not> portid < MAX_PHYPORTS then None
         else if tx_count < PKT_BURST_SIZE \<and> cur_tsc - d_prev_tsc s portid < e_flush_period E then Some s
         else let tx_count = min tx_count PKT_BURST_SIZE in
           (case ring_dequeue_bulk (e_lib E) (PORT_TX vportid) tx_count (d_lib s) of
              (None, w) \<Rightarrow> Some (s\<lparr>d_lib := w\<rparr>)
            | (Some pkts, w) \<Rightarrow>
                if \<not> portid < MAX_PHYPORTS then None
                else let (pkts_sent, w) = eth_tx_burst (e_lib E) portid pkts w;
                         s = s\<lparr>d_lib := w, d_prev_tsc := (d_prev_tsc s)(portid := cur_tsc)\<rparr>;
                         s = (if pkts_sent < tx_count
                              then upd_stats (stats_vport_tx_drop_increment (e_lcore E) vportid (int (tx_count - pkts_sent)))
                                (free_all E (drop pkts_sent pkts) s)
                              else s)
                  in Some (upd_stats (stats_vport_tx_increment (e_lcore E) vportid (int pkts_sent)) s)))"

section \<open>Sending\<close>

definition send_to_client :: "'w env \<Rightarrow> nat \<Rightarrow> nat \<Rightarrow> 'w dp \<Rightarrow> 'w dp option" where
  "send_to_client E client m s = do {
     let l = cache_row E;
     let i = client - CLIENT1;
     c \<leftarrow> (if in_cache (e_cores E) (num_clients (e_cfg E)) CLIENT1 l client then cache_push l i m (d_client_cache s) else None);
     let s = s\<lparr>d_client_cache := c\<rparr>;
     s \<leftarrow> (if length (c l i) = LOCAL_MBUF_CACHE_SIZE then flush_client_port_cache E client s else Some s);
     let (freebufs, w) = ring_dequeue_burst (e_lib E) (CLIENT_FREE client) PKT_BURST_SIZE (d_lib s);
     Some (free_all E freebufs (s\<lparr>d_lib := w\<rparr>)) }"

definition send_to_port :: "'w env \<Rightarrow> nat \<Rightarrow> nat \<Rightarrow> 'w dp \<Rightarrow> 'w dp option" where
  "send_to_port E vportid m s = do {
     let l = cache_row E;
     let i = vportid - PHYPORT0;
     c \<leftarrow> (if in_cache (e_cores E) (num_phy_ports (e_cfg E)) PHYPORT0 l vportid then cache_push l i m (d_port_cache s) else None);
     let s = s\<lparr>d_port_cache := c\<rparr>;
     if length (c l i) = LOCAL_MBUF_CACHE_SIZE then flush_phy_port_cache E vportid s else Some s }"

definition send_to_kni :: "'w env \<Rightarrow> nat \<Rightarrow> nat \<Rightarrow> 'w dp \<Rightarrow> 'w dp" where
  "send_to_kni E vportid m s =
     (let (tx_count, w) = kni_tx_burst (e_lib E) (KNI_DEV (vi_index (d_vports s vportid))) [m] (d_lib s);
          s = s\<lparr>d_lib := w\<rparr>
      in if tx_count = 0
         then upd_stats (stats_vswitch_tx_drop_increment (e_lcore E) 1)
           (upd_stats (stats_vport_rx_drop_increment (e_lcore E) vportid 1) (mbuf_free E m s))
         else upd_stats (stats_vport_rx_increment (e_lcore E) vportid 1) s)"

definition send_to_veth :: "'w env \<Rightarrow> nat \<Rightarrow> nat \<Rightarrow> 'w dp \<Rightarrow> 'w dp" where
  "send_to_veth E vportid m s =
     (let (tx_count, w) = kni_tx_burst (e_lib E) (VETH_DEV (vi_index (d_vports s vportid))) [m] (d_lib s);
          s = s\<lparr>d_lib := w\<rparr>
      in if tx_count = 0
         then upd_stats (stats_vswitch_tx_drop_increment (e_lcore E) 1)
           (upd_stats (stats_vport_rx_drop_increment (e_lcore E) vportid 1) (mbuf_free E m s))
         else upd_stats (stats_vport_rx_increment (e_lcore E) vportid 1) s)"

definition send_to_vhost :: "'w env \<Rightarrow> nat \<Rightarrow> nat \<Rightarrow> 'w dp \<Rightarrow> 'w dp option" where
  "send_to_vhost E vportid m s = do {
     let l = e_lcore E;
     let i = vportid - VHOST0;
     c \<leftarrow> (if in_cache (e_cores E) (num_vhost (e_cfg E)) VHOST0 l vportid then cache_push l i m (d_vhost_cache s) else None);
     let s = s\<lparr>d_vhost_cache := c\<rparr>;
     if length (c l i) = LOCAL_MBUF_CACHE_SIZE then flush_vhost_dev_port_cache E vportid s else Some s }"

definition send_to_vport :: "'w env \<Rightarrow> nat \<Rightarrow> nat \<Rightarrow> 'w dp \<Rightarrow> (int \<times> 'w dp) option" where
  "send_to_vport E vportid m s =
     (if vportid \<ge> MAX_VPORTS then Some (-1, mbuf_free E m s)
      else (case vi_type (d_vports s vportid) of
          VPORT_TYPE_PHY \<Rightarrow> map_option (Pair 0) (send_to_port E vportid m s)
        | VPORT_TYPE_CLIENT \<Rightarrow> map_option (Pair 0) (send_to_client E vportid m s)
        | VPORT_TYPE_KNI \<Rightarrow> Some (0, send_to_kni E vportid m s)
        | VPORT_TYPE_VETH \<Rightarrow> Some (0, send_to_veth E vportid m s)
        | VPORT_TYPE_VHOST \<Rightarrow> map_option (Pair 0) (send_to_vhost E vportid m s)
        | _ \<Rightarrow> Some (-1, mbuf_free E m s)))"

section \<open>Receiving\<close>

definition receive_from_veth :: "'w env \<Rightarrow> nat \<Rightarrow> 'w dp \<Rightarrow> nat list \<times> 'w dp" where
  "receive_from_veth E vportid s =
     (let dev = VETH_DEV (vi_index (d_vports s vportid));
          (ms, w) = kni_rx_burst (e_lib E) dev PKT_BURST_SIZE (d_lib s);
          s = s\<lparr>d_lib := w\<rparr>;
          s = (if ms \<noteq> [] then upd_stats (stats_vport_tx_increment (e_lcore E) vportid (int (length ms))) s else s)
      in (ms, s\<lparr>d_lib := kni_handle_request (e_lib E) dev (d_lib s)\<rparr>))"

definition receive_from_kni :: "'w env \<Rightarrow> nat \<Rightarrow> 'w dp \<Rightarrow> nat list \<times> 'w dp" where
  "receive_from_kni E vportid s =
     (let (ms, w) = kni_rx_burst (e_lib E) (KNI_DEV (vi_index (d_vports s vportid))) PKT_BURST_SIZE (d_lib s);
          s = s\<lparr>d_lib := w\<rparr>
      in (ms, if ms \<noteq> [] then upd_stats (stats_vport_tx_increment (e_lcore E) vportid (int (length ms))) s else s))"

definition receive_from_client :: "'w env \<Rightarrow> nat \<Rightarrow> 'w dp \<Rightarrow> nat list \<times> 'w dp" where
  "receive_from_client E client s =
     (let (ms, w) = ring_dequeue_burst (e_lib E) (CLIENT_TX client) PKT_BURST_SIZE (d_lib s)
      in (ms, upd_stats (stats_vport_tx_increment (e_lcore E) client (int (length ms))) (s\<lparr>d_lib := w\<rparr>)))"

definition receive_from_port :: "'w env \<Rightarrow> nat \<Rightarrow> 'w dp \<Rightarrow> nat list \<times> 'w dp" where
  "receive_from_port E vportid s =
     (let (ms, w) = eth_rx_burst (e_lib E) (vi_index (d_vports s vportid)) PKT_BURST_SIZE (d_lib s);
          s = s\<lparr>d_lib := w\<rparr>
      in (ms, if ms \<noteq> [] then upd_stats (stats_vport_rx_increment (e_lcore E) vportid (int (length ms))) s else s))"

definition receive_from_vhost :: "'w env \<Rightarrow> nat \<Rightarrow> 'w dp \<Rightarrow> (nat list \<times> 'w dp) option" where
  "receive_from_vhost E vportid s = (case vi_dev (d_vports s vportid) of
       None \<Rightarrow> Some ([], s)
     | Some d \<Rightarrow> do {
         (ms, s) \<leftarrow> vhost_dequeue_burst E d PKT_BURST_SIZE s;
         Some (ms, upd_stats (stats_vport_tx_increment (e_lcore E) vportid (int (length ms))) s) })"

definition receive_from_vport :: "'w env \<Rightarrow> nat \<Rightarrow> 'w dp \<Rightarrow> (nat list \<times> 'w dp) option" where
  "receive_from_vport E vportid s =
     (if vportid \<ge> MAX_VPORTS then Some ([], s)
      else (case vi_type (d_vports s vportid) of
          VPORT_TYPE_PHY \<Rightarrow> Some (receive_from_port E vportid s)
        | VPORT_TYPE_CLIENT \<Rightarrow> Some (receive_from_client E vportid s)
        | VPORT_TYPE_KNI \<Rightarrow> Some (receive_from_kni E vportid s)
        | VPORT_TYPE_VETH \<Rightarrow> Some (receive_from_veth E vportid s)
        | VPORT_TYPE_VHOST \<Rightarrow> receive_from_vhost E vportid s
        | _ \<Rightarrow> Some ([], s)))"

section \<open>Accounting\<close>

lemma free_all_lib: "free_all E ms s = s\<lparr>d_lib := fold (pktmbuf_free (e_lib E)) ms (d_lib s)\<rparr>"
  unfolding free_all_def by (induction ms arbitrary: s) (simp_all add: mbuf_free_def)

lemma holds_fold_free:
  "dpdk_ok L holds \<Longrightarrow> holds (fold (pktmbuf_free L) ms w) = mset ms + holds w"
  by (induction ms arbitrary: w) (simp_all add: dpdk_free)

lemma owned_free_all: "dpdk_ok (e_lib E) holds \<Longrightarrow> owned holds n (free_all E ms s) = mset ms + owned holds n s"
  unfolding free_all_def by (induction ms arbitrary: s) (simp_all add: owned_free)

lemma free_all_sel [simp]:
  "d_vports (free_all E ms s) = d_vports s" "d_client_cache (free_all E ms s) = d_client_cache s"
  "d_port_cache (free_all E ms s) = d_port_cache s" "d_vhost_cache (free_all E ms s) = d_vhost_cache s"
  "d_mbuf (free_all E ms s) = d_mbuf s" "d_buf (free_all E ms s) = d_buf s" "d_dev (free_all E ms s) = d_dev s"
  by (simp_all add: free_all_lib)

lemma upd_stats_sel [simp]:
  "d_vports (upd_stats f s) = d_vports s" "d_client_cache (upd_stats f s) = d_client_cache s"
  "d_port_cache (upd_stats f s) = d_port_cache s" "d_vhost_cache (upd_stats f s) = d_vhost_cache s"
  "d_mbuf (upd_stats f s) = d_mbuf s" "d_buf (upd_stats f s) = d_buf s" "d_dev (upd_stats f s) = d_dev s"
  "d_lib (upd_stats f s) = d_lib s"
  by (simp_all add: upd_stats_def)

lemma mbuf_free_sel [simp]:
  "d_vports (mbuf_free E m s) = d_vports s" "d_client_cache (mbuf_free E m s) = d_client_cache s"
  "d_port_cache (mbuf_free E m s) = d_port_cache s" "d_vhost_cache (mbuf_free E m s) = d_vhost_cache s"
  "d_mbuf (mbuf_free E m s) = d_mbuf s" "d_buf (mbuf_free E m s) = d_buf s" "d_dev (mbuf_free E m s) = d_dev s"
  by (simp_all add: mbuf_free_def)

text \<open>The library's side of a call in the account of the datapath.\<close>

lemma owned_takes:
  assumes "takes holds (k, w) (d_lib s) ms"
  shows "owned holds n (s\<lparr>d_lib := w\<rparr>) = mset (take k ms) + owned holds n s"
  using assms by (simp add: takes_def owned_def)

lemma owned_gives:
  assumes "gives holds (ms, w) (d_lib s) k"
  shows "owned holds n s = mset ms + owned holds n (s\<lparr>d_lib := w\<rparr>)" "length ms \<le> k"
  using assms by (simp_all add: gives_def owned_def)

lemma mset_take_drop: "mset (drop k ms) + mset (take k ms) = mset ms"
  by (metis append_take_drop_id mset_append add.commute)

text \<open>Emptying and extending one cache.\<close>

lemma owned_client_cache:
  "l < n \<Longrightarrow> p < MAX_VPORTS \<Longrightarrow> owned holds n (s\<lparr>d_client_cache := (d_client_cache s)(l := (d_client_cache s l)(p := ms))\<rparr>) +
     mset (d_client_cache s l p) = owned holds n s + mset ms"
  using cache_sum_upd [of l n p "d_client_cache s" ms] by (simp add: owned_def ac_simps)

lemma owned_port_cache:
  "l < n \<Longrightarrow> p < MAX_VPORTS \<Longrightarrow> owned holds n (s\<lparr>d_port_cache := (d_port_cache s)(l := (d_port_cache s l)(p := ms))\<rparr>) +
     mset (d_port_cache s l p) = owned holds n s + mset ms"
  using cache_sum_upd [of l n p "d_port_cache s" ms] by (simp add: owned_def ac_simps)

lemma owned_vhost_cache:
  "l < n \<Longrightarrow> p < MAX_VPORTS \<Longrightarrow> owned holds n (s\<lparr>d_vhost_cache := (d_vhost_cache s)(l := (d_vhost_cache s l)(p := ms))\<rparr>) +
     mset (d_vhost_cache s l p) = owned holds n s + mset ms"
  using cache_sum_upd [of l n p "d_vhost_cache s" ms] by (simp add: owned_def ac_simps)

text \<open>What no operation on ports touches: the ports, and headers and bytes of the packets.\<close>

definition io_frame :: "'w dp \<Rightarrow> 'w dp \<Rightarrow> bool" where
  "io_frame s s' \<longleftrightarrow> d_vports s' = d_vports s \<and> d_mbuf s' = d_mbuf s \<and> d_buf s' = d_buf s"

lemma io_frame_refl [simp]: "io_frame s s"
  by (simp add: io_frame_def)

lemma io_frame_trans [trans]: "io_frame s t \<Longrightarrow> io_frame t u \<Longrightarrow> io_frame s u"
  by (simp add: io_frame_def)

text \<open>The caches after a flush: those of one kind have one place empty, the others are the same.\<close>

definition cleared :: "nat \<Rightarrow> nat \<Rightarrow> (nat \<Rightarrow> nat \<Rightarrow> nat list) \<Rightarrow> (nat \<Rightarrow> nat \<Rightarrow> nat list)" where
  "cleared l p c = c(l := (c l)(p := []))"

lemma flush_phy_port_cache_ok:
  assumes L: "dpdk_ok (e_lib E) holds"
    and c: "in_cache (e_cores E) (num_phy_ports (e_cfg E)) PHYPORT0 (cache_row E) v" "v < MAX_VPORTS"
  shows "\<exists>s'. flush_phy_port_cache E v s = Some s' \<and> owned holds (e_cores E) s' = owned holds (e_cores E) s \<and> io_frame s s' \<and>
    d_port_cache s' = cleared (cache_row E) (v - PHYPORT0) (d_port_cache s) \<and> d_client_cache s' = d_client_cache s \<and>
    d_vhost_cache s' = d_vhost_cache s \<and> d_dev s' = d_dev s"
proof -
  let ?l = "cache_row E" and ?p = "v - PHYPORT0"
  let ?ms = "d_port_cache s ?l ?p"
  obtain k w where r: "ring_enqueue_burst (e_lib E) (PORT_TX v) ?ms (d_lib s) = (k, w)" by fastforce
  then have t: "takes holds (k, w) (d_lib s) ?ms" using L by (simp add: dpdk_ok_def flip: r)
  let ?t = "s\<lparr>d_lib := w\<rparr>"
  define u where "u = (if k < length ?ms
    then upd_stats (stats_vport_tx_drop_increment (e_lcore E) v (int (length ?ms - k) mod 256))
      (upd_stats (stats_vswitch_tx_drop_increment (e_lcore E) (int (length ?ms - k) mod 256)) (free_all E (drop k ?ms) ?t))
    else ?t)"
  have u: "d_port_cache u = d_port_cache s" "d_client_cache u = d_client_cache s" "d_vhost_cache u = d_vhost_cache s" "io_frame s u"
    "d_dev u = d_dev s"
    by (simp_all add: u_def io_frame_def)
  have "owned holds (e_cores E) u = mset ?ms + owned holds (e_cores E) s"
    using owned_takes [OF t, of "e_cores E"] mset_take_drop [of k ?ms] by (simp add: u_def owned_free_all [OF L])
  moreover have "flush_phy_port_cache E v s = Some (u\<lparr>d_port_cache := cleared ?l ?p (d_port_cache s)\<rparr>)"
    using c(1) by (simp add: flush_phy_port_cache_def Let_def r u_def cleared_def)
  ultimately show ?thesis
    using owned_port_cache [of ?l "e_cores E" ?p holds u "[]"] c u by (auto simp: in_cache_def cleared_def io_frame_def)
qed

lemma flush_client_port_cache_ok:
  assumes L: "dpdk_ok (e_lib E) holds"
    and c: "in_cache (e_cores E) (num_clients (e_cfg E)) CLIENT1 (cache_row E) v" "v < MAX_VPORTS"
  shows "\<exists>s'. flush_client_port_cache E v s = Some s' \<and> owned holds (e_cores E) s' = owned holds (e_cores E) s \<and> io_frame s s' \<and>
    d_client_cache s' = cleared (cache_row E) (v - CLIENT1) (d_client_cache s) \<and> d_port_cache s' = d_port_cache s \<and>
    d_vhost_cache s' = d_vhost_cache s \<and> d_dev s' = d_dev s"
proof -
  let ?l = "cache_row E" and ?p = "v - CLIENT1"
  let ?ms = "d_client_cache s ?l ?p"
  obtain k w where r: "ring_enqueue_burst (e_lib E) (CLIENT_RX v) ?ms (d_lib s) = (k, w)" by fastforce
  then have t: "takes holds (k, w) (d_lib s) ?ms" using L by (simp add: dpdk_ok_def flip: r)
  let ?t = "s\<lparr>d_lib := w\<rparr>"
  define u where "u = upd_stats (stats_vport_rx_increment (e_lcore E) v (int k)) (if k < length ?ms
    then upd_stats (stats_vport_rx_drop_increment (e_lcore E) v (int (length ?ms - k) mod 256))
      (upd_stats (stats_vswitch_tx_drop_increment (e_lcore E) (int (length ?ms - k) mod 256)) (free_all E (drop k ?ms) ?t))
    else ?t)"
  have u: "d_port_cache u = d_port_cache s" "d_client_cache u = d_client_cache s" "d_vhost_cache u = d_vhost_cache s" "io_frame s u"
    "d_dev u = d_dev s"
    by (simp_all add: u_def io_frame_def)
  have "owned holds (e_cores E) u = mset ?ms + owned holds (e_cores E) s"
    using owned_takes [OF t, of "e_cores E"] mset_take_drop [of k ?ms] by (simp add: u_def owned_free_all [OF L])
  moreover have "flush_client_port_cache E v s = Some (u\<lparr>d_client_cache := cleared ?l ?p (d_client_cache s)\<rparr>)"
    using c(1) by (simp add: flush_client_port_cache_def Let_def r u_def cleared_def)
  ultimately show ?thesis
    using owned_client_cache [of ?l "e_cores E" ?p holds u "[]"] c u by (auto simp: in_cache_def cleared_def io_frame_def)
qed

text \<open>
  The packet memory: the data of every mbuf lies within its buffer. The guests: every attached device is ready for
  packets as long as a buffer, however many of them its guest offers to take.
\<close>

definition mbuf_in :: "rte_mbuf \<Rightarrow> nat \<Rightarrow> bool" where
  "mbuf_in mb n \<longleftrightarrow> mb_off mb + unat (mb_data_len mb) \<le> n \<and> mb_off mb + unat (mb_pkt_len mb) \<le> n"

definition mbufs_ok :: "'w dp \<Rightarrow> bool" where
  "mbufs_ok s \<longleftrightarrow> (\<forall>m. mbuf_in (d_mbuf s m) (length (d_buf s (mb_buf (d_mbuf s m)))))"

definition guests_ready :: "'w dp \<Rightarrow> bool" where
  "guests_ready s \<longleftrightarrow> (\<exists>n. (\<forall>b. length (d_buf s b) \<le> n) \<and> (\<forall>v d. vi_dev (d_vports s v) = Some d \<longrightarrow> rx_ready n (d_dev s d)))"

lemma mbufs_ok_cong: "d_mbuf s' = d_mbuf s \<Longrightarrow> (\<And>b. length (d_buf s' b) = length (d_buf s b)) \<Longrightarrow> mbufs_ok s' = mbufs_ok s"
  by (simp add: mbufs_ok_def)

lemma guests_ready_cong:
  "(\<And>v. vi_dev (d_vports s' v) = vi_dev (d_vports s v)) \<Longrightarrow> d_dev s' = d_dev s \<Longrightarrow> (\<And>b. length (d_buf s' b) = length (d_buf s b)) \<Longrightarrow>
   guests_ready s' = guests_ready s"
  by (simp add: guests_ready_def)

lemma memory_same:
  "guests_ready s \<Longrightarrow> d_vports s' = d_vports s \<Longrightarrow> d_dev s' = d_dev s \<Longrightarrow> d_buf s' = d_buf s \<Longrightarrow> guests_ready s'"
  "mbufs_ok s \<Longrightarrow> d_mbuf s' = d_mbuf s \<Longrightarrow> d_buf s' = d_buf s \<Longrightarrow> mbufs_ok s'"
  by (simp_all add: guests_ready_def mbufs_ok_def)

text \<open>What changes the header of one mbuf and bytes of buffers only.\<close>

lemma mbufs_ok_upd:
  assumes "mbufs_ok s" "\<And>x. x \<noteq> m \<Longrightarrow> d_mbuf s' x = d_mbuf s x" "\<And>b. length (d_buf s' b) = length (d_buf s b)"
    and "mbuf_in (d_mbuf s' m) (length (d_buf s (mb_buf (d_mbuf s' m))))"
  shows "mbufs_ok s'"
  unfolding mbufs_ok_def
proof
  fix x
  show "mbuf_in (d_mbuf s' x) (length (d_buf s' (mb_buf (d_mbuf s' x))))"
    using assms by (cases "x = m") (simp_all add: mbufs_ok_def)
qed

lemma mbufs_ok_fits: "mbufs_ok s \<Longrightarrow> pkt_fits s m"
  unfolding mbufs_ok_def mbuf_in_def pkt_fits_def mtod_def
  by (metis add.commute le_diff_conv2 length_drop add_leD1)

lemma length_pkt_data: "length (pkt_data s m) \<le> length (d_buf s (mb_buf (d_mbuf s m)))" "length (pkt_data s m) < 65536"
  using unat_u16_less [of "mb_data_len (d_mbuf s m)"] by (auto simp: pkt_data_def mtod_def)

lemma flush_vhost_account:
  assumes L: "dpdk_ok (e_lib E) holds"
    and c: "in_cache (e_cores E) (num_vhost (e_cfg E)) VHOST0 (e_lcore E) v" "v < MAX_VPORTS"
    and f: "flush_vhost_dev_port_cache E v s = Some s'"
  shows "owned holds (e_cores E) s' = owned holds (e_cores E) s \<and> io_frame s s' \<and>
    d_vhost_cache s' = cleared (e_lcore E) (v - VHOST0) (d_vhost_cache s) \<and> d_port_cache s' = d_port_cache s \<and>
    d_client_cache s' = d_client_cache s"
proof -
  let ?l = "e_lcore E" and ?p = "v - VHOST0"
  let ?ms = "d_vhost_cache s ?l ?p"
  obtain u where u: "s' = (free_all E ?ms u)\<lparr>d_vhost_cache := cleared ?l ?p (d_vhost_cache s)\<rparr>"
    "d_port_cache u = d_port_cache s" "d_client_cache u = d_client_cache s" "d_vhost_cache u = d_vhost_cache s" "io_frame s u"
    "owned holds (e_cores E) u = owned holds (e_cores E) s"
    using c(1) f unfolding flush_vhost_dev_port_cache_def
    by (auto simp: Let_def cleared_def io_frame_def split: option.splits bind_splits prod.splits if_splits)
  show ?thesis
    using owned_vhost_cache [of ?l "e_cores E" ?p holds "free_all E ?ms u" "[]"] c u
    by (auto simp: in_cache_def cleared_def io_frame_def owned_free_all [OF L])
qed

lemma guests_ready_burst:
  assumes "guests_ready s" "vi_dev (d_vports s v) = Some d"
  shows "\<exists>k dev. vhost_enqueue_burst (d_dev s d) (map (pkt_data s) ms) = Some (k, dev) \<and> guests_ready (s\<lparr>d_dev := (d_dev s)(d := dev)\<rparr>)"
proof -
  obtain n where n: "\<forall>b. length (d_buf s b) \<le> n" "\<forall>v d. vi_dev (d_vports s v) = Some d \<longrightarrow> rx_ready n (d_dev s d)"
    using assms(1) unfolding guests_ready_def by blast
  have "\<forall>p \<in> set (map (pkt_data s) ms). length p \<le> n \<and> length p < 65536"
    using n(1) length_pkt_data [of s] by (auto intro: order_trans)
  from enqueue_burst_ready [OF n(2) [rule_format, OF assms(2)] this] obtain k dev where
    b: "vhost_enqueue_burst (d_dev s d) (map (pkt_data s) ms) = Some (k, dev)" "rx_ready n dev" by blast
  moreover have "guests_ready (s\<lparr>d_dev := (d_dev s)(d := dev)\<rparr>)" using n b(2) by (auto simp: guests_ready_def)
  ultimately show ?thesis by blast
qed

lemma memory_frame [simp]:
  "guests_ready (upd_stats f s) = guests_ready s" "guests_ready (free_all E ms s) = guests_ready s"
  "guests_ready (s\<lparr>d_vhost_cache := c\<rparr>) = guests_ready s" "guests_ready (s\<lparr>d_lib := w\<rparr>) = guests_ready s"
  "mbufs_ok (upd_stats f s) = mbufs_ok s" "mbufs_ok (free_all E ms s) = mbufs_ok s" "mbufs_ok (s\<lparr>d_vhost_cache := c\<rparr>) = mbufs_ok s"
  "mbufs_ok (s\<lparr>d_lib := w\<rparr>) = mbufs_ok s" "mbufs_ok (s\<lparr>d_dev := x\<rparr>) = mbufs_ok s"
  by (simp_all add: guests_ready_def mbufs_ok_def)

lemma flush_vhost_defined:
  assumes c: "in_cache (e_cores E) (num_vhost (e_cfg E)) VHOST0 (e_lcore E) v" and d: "guests_ready s" "mbufs_ok s"
  shows "\<exists>s'. flush_vhost_dev_port_cache E v s = Some s' \<and> guests_ready s' \<and> mbufs_ok s'"
proof (cases "vi_dev (d_vports s v)")
  case None
  then show ?thesis using c d by (simp add: flush_vhost_dev_port_cache_def Let_def)
next
  case (Some x)
  from guests_ready_burst [OF d(1) Some] obtain k dev where
    "vhost_enqueue_burst (d_dev s x) (map (pkt_data s) (d_vhost_cache s (e_lcore E) (v - VHOST0))) = Some (k, dev)"
    "guests_ready (s\<lparr>d_dev := (d_dev s)(x := dev)\<rparr>)" by blast
  then show ?thesis using c Some d(2) mbufs_ok_fits [OF d(2)] by (simp add: flush_vhost_dev_port_cache_def Let_def list_all_iff)
qed

section \<open>The invariant of the packet path\<close>

text \<open>
  The running core has its rows in the caches, the physical ports are numbered without gaps, and no cache is full.
\<close>

definition caches_ok :: "'w dp \<Rightarrow> bool" where
  "caches_ok s \<longleftrightarrow> (\<forall>l p. length (d_client_cache s l p) < LOCAL_MBUF_CACHE_SIZE \<and> length (d_port_cache s l p) < LOCAL_MBUF_CACHE_SIZE \<and>
     length (d_vhost_cache s l p) < LOCAL_MBUF_CACHE_SIZE)"

definition env_ok :: "'w env \<Rightarrow> bool" where
  "env_ok E \<longleftrightarrow> cfg_ok (e_cfg E) \<and> fst ` set (cfg_ports (e_cfg E)) = {PHYPORT0..<PHYPORT0 + num_phy_ports (e_cfg E)} \<and>
     cache_row E < e_cores E \<and> e_lcore E < e_cores E \<and> e_lcore E < 256"

definition io_ok :: "'w env \<Rightarrow> 'w dp \<Rightarrow> bool" where
  "io_ok E s \<longleftrightarrow> vports_ok (e_cfg E) (d_vports s) \<and> caches_ok s \<and> mbufs_ok s \<and> guests_ready s"

lemma vport_in_cache:
  assumes "env_ok E" "vports_ok (e_cfg E) t" "v < MAX_VPORTS"
  shows "vi_type (t v) = VPORT_TYPE_PHY \<Longrightarrow> in_cache (e_cores E) (num_phy_ports (e_cfg E)) PHYPORT0 (cache_row E) v"
    "vi_type (t v) = VPORT_TYPE_CLIENT \<Longrightarrow> in_cache (e_cores E) (num_clients (e_cfg E)) CLIENT1 (cache_row E) v"
    "vi_type (t v) = VPORT_TYPE_VHOST \<Longrightarrow> in_cache (e_cores E) (num_vhost (e_cfg E)) VHOST0 (e_lcore E) v"
  using assms(1) unfolding env_ok_def vports_ok_type [OF assms(2,3)] vport_kind_def in_cache_def
  by (auto simp: vport_consts split: if_splits)

definition bounded :: "(nat \<Rightarrow> nat \<Rightarrow> nat list) \<Rightarrow> bool" where
  "bounded c \<longleftrightarrow> (\<forall>l p. length (c l p) < LOCAL_MBUF_CACHE_SIZE)"

definition pushed :: "nat \<Rightarrow> nat \<Rightarrow> nat \<Rightarrow> (nat \<Rightarrow> nat \<Rightarrow> nat list) \<Rightarrow> (nat \<Rightarrow> nat \<Rightarrow> nat list)" where
  "pushed l p m c = c(l := (c l)(p := c l p @ [m]))"

lemma caches_ok_bounded: "caches_ok s \<longleftrightarrow> bounded (d_client_cache s) \<and> bounded (d_port_cache s) \<and> bounded (d_vhost_cache s)"
  by (auto simp: caches_ok_def bounded_def)

lemma bounded_push: "bounded c \<Longrightarrow> cache_push l p m c = Some (pushed l p m c)"
  by (simp add: bounded_def cache_push_def pushed_def)

lemma bounded_pushed:
  "bounded c \<Longrightarrow> length (pushed l p m c l p) \<noteq> LOCAL_MBUF_CACHE_SIZE \<Longrightarrow> bounded (pushed l p m c)"
  by (auto simp: bounded_def pushed_def less_Suc_eq) (metis Suc_lessI)

lemma bounded_cleared: "bounded c \<Longrightarrow> bounded (cleared l p c)" "bounded c \<Longrightarrow> bounded (cleared l p (pushed l p m c))"
  by (simp_all add: bounded_def cleared_def pushed_def LOCAL_MBUF_CACHE_SIZE_def)

text \<open>
  One packet more for the account, none of the ports touched: what a successful send of \<open>m\<close> does.
\<close>

definition accepted :: "('w \<Rightarrow> nat multiset) \<Rightarrow> 'w env \<Rightarrow> nat \<Rightarrow> 'w dp \<Rightarrow> 'w dp \<Rightarrow> bool" where
  "accepted holds E m s s' \<longleftrightarrow> owned holds (e_cores E) s' = add_mset m (owned holds (e_cores E) s) \<and> io_ok E s' \<and> io_frame s s'"

lemma io_ok_lib [simp]: "io_ok E (s\<lparr>d_lib := w\<rparr>) = io_ok E s"
  by (simp add: io_ok_def caches_ok_def)

lemma io_ok_stats [simp]: "io_ok E (upd_stats f s) = io_ok E s"
  by (simp add: io_ok_def caches_ok_def)

lemma io_ok_free [simp]: "io_ok E (mbuf_free E' m s) = io_ok E s" "io_ok E (free_all E' ms s) = io_ok E s"
  by (simp_all add: mbuf_free_def free_all_lib)

lemma send_to_port_ok:
  assumes L: "dpdk_ok (e_lib E) holds" and io: "io_ok E s" and v: "v < MAX_VPORTS"
    and c: "in_cache (e_cores E) (num_phy_ports (e_cfg E)) PHYPORT0 (cache_row E) v"
  shows "\<exists>s'. send_to_port E v m s = Some s' \<and> accepted holds E m s s'"
proof -
  let ?l = "cache_row E" and ?p = "v - PHYPORT0"
  let ?c = "pushed ?l ?p m (d_port_cache s)"
  let ?s = "s\<lparr>d_port_cache := ?c\<rparr>"
  have b: "bounded (d_port_cache s)" using io by (simp add: io_ok_def caches_ok_bounded)
  have o: "owned holds (e_cores E) ?s = add_mset m (owned holds (e_cores E) s)"
    using owned_port_cache [of ?l "e_cores E" ?p holds s "d_port_cache s ?l ?p @ [m]"] c v by (simp add: in_cache_def pushed_def)
  have e: "send_to_port E v m s = (if length (?c ?l ?p) = LOCAL_MBUF_CACHE_SIZE then flush_phy_port_cache E v ?s else Some ?s)"
    using c by (simp add: send_to_port_def bounded_push [OF b])
  show ?thesis
  proof (cases "length (?c ?l ?p) = LOCAL_MBUF_CACHE_SIZE")
    case True
    with flush_phy_port_cache_ok [OF L c v, of ?s] o io bounded_cleared(2) [OF b, of ?l ?p m] show ?thesis
      by (auto simp: e accepted_def io_frame_def io_ok_def caches_ok_bounded intro: memory_same)
  next
    case False
    with o io bounded_pushed [OF b] show ?thesis
      by (auto simp: e accepted_def io_frame_def io_ok_def caches_ok_bounded intro: memory_same)
  qed
qed

lemma send_to_client_ok:
  assumes L: "dpdk_ok (e_lib E) holds" and io: "io_ok E s" and v: "v < MAX_VPORTS"
    and c: "in_cache (e_cores E) (num_clients (e_cfg E)) CLIENT1 (cache_row E) v"
  shows "\<exists>s'. send_to_client E v m s = Some s' \<and> accepted holds E m s s'"
proof -
  let ?l = "cache_row E" and ?p = "v - CLIENT1"
  let ?c = "pushed ?l ?p m (d_client_cache s)"
  let ?s = "s\<lparr>d_client_cache := ?c\<rparr>"
  let ?f = "if length (?c ?l ?p) = LOCAL_MBUF_CACHE_SIZE then flush_client_port_cache E v ?s else Some ?s"
  have b: "bounded (d_client_cache s)" using io by (simp add: io_ok_def caches_ok_bounded)
  have o: "owned holds (e_cores E) ?s = add_mset m (owned holds (e_cores E) s)"
    using owned_client_cache [of ?l "e_cores E" ?p holds s "d_client_cache s ?l ?p @ [m]"] c v by (simp add: in_cache_def pushed_def)
  have "\<exists>t. ?f = Some t \<and> accepted holds E m s t"
  proof (cases "length (?c ?l ?p) = LOCAL_MBUF_CACHE_SIZE")
    case True
    with flush_client_port_cache_ok [OF L c v, of ?s] o io bounded_cleared(2) [OF b, of ?l ?p m] show ?thesis
      by (auto simp: accepted_def io_frame_def io_ok_def caches_ok_bounded intro: memory_same)
  next
    case False
    with o io bounded_pushed [OF b] show ?thesis
      by (auto simp: accepted_def io_frame_def io_ok_def caches_ok_bounded intro: memory_same)
  qed
  then obtain t where t: "?f = Some t" "accepted holds E m s t" by blast
  obtain ms w where r: "ring_dequeue_burst (e_lib E) (CLIENT_FREE v) PKT_BURST_SIZE (d_lib t) = (ms, w)" by fastforce
  then have "gives holds (ms, w) (d_lib t) PKT_BURST_SIZE" using L by (simp add: dpdk_ok_def flip: r)
  then have "owned holds (e_cores E) (free_all E ms (t\<lparr>d_lib := w\<rparr>)) = owned holds (e_cores E) t"
    by (simp add: owned_free_all [OF L] owned_gives(1))
  moreover have "send_to_client E v m s = Some (free_all E ms (t\<lparr>d_lib := w\<rparr>))"
    using c t(1) by (simp add: send_to_client_def bounded_push [OF b] r)
  ultimately show ?thesis using t(2) by (auto simp: accepted_def io_frame_def)
qed

lemma send_to_vhost_ok:
  assumes L: "dpdk_ok (e_lib E) holds" and io: "io_ok E s" and v: "v < MAX_VPORTS"
    and c: "in_cache (e_cores E) (num_vhost (e_cfg E)) VHOST0 (e_lcore E) v"
  shows "\<exists>s'. send_to_vhost E v m s = Some s' \<and> accepted holds E m s s'"
proof -
  let ?l = "e_lcore E" and ?p = "v - VHOST0"
  let ?c = "pushed ?l ?p m (d_vhost_cache s)"
  let ?s = "s\<lparr>d_vhost_cache := ?c\<rparr>"
  have b: "bounded (d_vhost_cache s)" using io by (simp add: io_ok_def caches_ok_bounded)
  have o: "owned holds (e_cores E) ?s = add_mset m (owned holds (e_cores E) s)"
    using owned_vhost_cache [of ?l "e_cores E" ?p holds s "d_vhost_cache s ?l ?p @ [m]"] c v by (simp add: in_cache_def pushed_def)
  have e: "send_to_vhost E v m s = (if length (?c ?l ?p) = LOCAL_MBUF_CACHE_SIZE then flush_vhost_dev_port_cache E v ?s else Some ?s)"
    using c by (simp add: send_to_vhost_def bounded_push [OF b])
  show ?thesis
  proof (cases "length (?c ?l ?p) = LOCAL_MBUF_CACHE_SIZE")
    case True
    have "guests_ready ?s" "mbufs_ok ?s" using io by (simp_all add: io_ok_def)
    from flush_vhost_defined [OF c this] obtain t
      where t: "flush_vhost_dev_port_cache E v ?s = Some t" "guests_ready t" "mbufs_ok t" by blast
    from flush_vhost_account [OF L c v t(1)] o io bounded_cleared(2) [OF b, of ?l ?p m] t True show ?thesis
      by (auto simp: e accepted_def io_frame_def io_ok_def caches_ok_bounded)
  next
    case False
    with o io bounded_pushed [OF b] show ?thesis
      by (auto simp: e accepted_def io_frame_def io_ok_def caches_ok_bounded)
  qed
qed

lemma send_to_fifo_ok:
  assumes L: "dpdk_ok (e_lib E) holds" and io: "io_ok E s"
  shows "accepted holds E m s (send_to_kni E v m s)" "accepted holds E m s (send_to_veth E v m s)"
proof -
  have t: "takes holds (kni_tx_burst (e_lib E) d [m] (d_lib s)) (d_lib s) [m]" for d using L by (simp add: dpdk_ok_def)
  have "owned holds (e_cores E) (s\<lparr>d_lib := w\<rparr>) = (if k = 0 then {#} else {#m#}) + owned holds (e_cores E) s"
    if "kni_tx_burst (e_lib E) d [m] (d_lib s) = (k, w)" for k w d
    using owned_takes [of holds k w s "[m]"] t [of d] that by (cases k) (auto simp: takes_def)
  then show "accepted holds E m s (send_to_kni E v m s)" "accepted holds E m s (send_to_veth E v m s)"
    using io by (simp_all add: accepted_def send_to_kni_def send_to_veth_def io_frame_def owned_free [OF L] Let_def split: prod.splits)
qed

lemma send_to_vport_ok:
  assumes L: "dpdk_ok (e_lib E) holds" and E: "env_ok E" and io: "io_ok E s"
  shows "\<exists>r s'. send_to_vport E v m s = Some (r, s') \<and> accepted holds E m s s' \<and>
    (r = 0 \<longleftrightarrow> v < MAX_VPORTS \<and> vi_type (d_vports s v) \<notin> {VPORT_TYPE_DISABLED, VPORT_TYPE_VSWITCHD, VPORT_TYPE_BRIDGE})"
proof (cases "v < MAX_VPORTS")
  case True
  have t: "vports_ok (e_cfg E) (d_vports s)" using io by (simp add: io_ok_def)
  have "accepted holds E m s (mbuf_free E m s)" using io by (simp add: accepted_def owned_free [OF L] io_frame_def)
  then show ?thesis
    using True send_to_port_ok [OF L io True vport_in_cache(1) [OF E t True], of m]
      send_to_client_ok [OF L io True vport_in_cache(2) [OF E t True], of m]
      send_to_vhost_ok [OF L io True vport_in_cache(3) [OF E t True], of m] send_to_fifo_ok [OF L io, of m v]
    by (cases "vi_type (d_vports s v)") (auto simp: send_to_vport_def)
qed (use io in \<open>simp add: send_to_vport_def accepted_def owned_free [OF L] io_frame_def\<close>)

section \<open>Flushing all caches of a core\<close>

lemma iterate_append: "iterate f (is @ js) s = do { s \<leftarrow> iterate f is s; iterate f js s }"
  by (induction "is" arbitrary: s) (auto split: bind_splits)

text \<open>A step that keeps an invariant and does its own part of the work, in any loop.\<close>

lemma iterate_upto:
  assumes "P 0 s" "\<And>i s. i < n \<Longrightarrow> P i s \<Longrightarrow> \<exists>s'. f i s = Some s' \<and> P (Suc i) s'"
  shows "\<exists>s'. iterate f [0..<n] s = Some s' \<and> P n s'"
  using assms(2)
proof (induction n)
  case 0
  then show ?case using assms(1) by simp
next
  case (Suc n)
  then obtain t where "iterate f [0..<n] s = Some t" "P n t" by (metis less_Suc_eq)
  moreover from this Suc.prems [of n t] obtain u where "f n t = Some u" "P (Suc n) u" by blast
  ultimately show ?case by (auto simp: iterate_append)
qed

text \<open>What flushing keeps.\<close>

definition flushed :: "('w \<Rightarrow> nat multiset) \<Rightarrow> 'w env \<Rightarrow> 'w dp \<Rightarrow> 'w dp \<Rightarrow> bool" where
  "flushed holds E s s' \<longleftrightarrow> owned holds (e_cores E) s' = owned holds (e_cores E) s \<and> io_ok E s' \<and> io_frame s s'"

lemma flushed_trans: "flushed holds E s t \<Longrightarrow> flushed holds E t u \<Longrightarrow> flushed holds E s u"
  by (auto simp: flushed_def io_frame_def)

lemma flushed_self: "io_ok E s \<Longrightarrow> flushed holds E s s"
  by (simp add: flushed_def)

lemma flush_phy_flushed:
  assumes "dpdk_ok (e_lib E) holds" "io_ok E s"
    "in_cache (e_cores E) (num_phy_ports (e_cfg E)) PHYPORT0 (cache_row E) v" "v < MAX_VPORTS"
  shows "\<exists>s'. flush_phy_port_cache E v s = Some s' \<and> flushed holds E s s' \<and>
    d_port_cache s' = cleared (cache_row E) (v - PHYPORT0) (d_port_cache s) \<and> d_client_cache s' = d_client_cache s \<and>
    d_vhost_cache s' = d_vhost_cache s"
  using flush_phy_port_cache_ok [OF assms(1,3,4), of s] assms(2) bounded_cleared(1) [of "d_port_cache s"]
  by (auto simp: flushed_def io_ok_def caches_ok_bounded io_frame_def intro: memory_same)

lemma flush_client_flushed:
  assumes "dpdk_ok (e_lib E) holds" "io_ok E s"
    "in_cache (e_cores E) (num_clients (e_cfg E)) CLIENT1 (cache_row E) v" "v < MAX_VPORTS"
  shows "\<exists>s'. flush_client_port_cache E v s = Some s' \<and> flushed holds E s s' \<and>
    d_client_cache s' = cleared (cache_row E) (v - CLIENT1) (d_client_cache s) \<and> d_port_cache s' = d_port_cache s \<and>
    d_vhost_cache s' = d_vhost_cache s"
  using flush_client_port_cache_ok [OF assms(1,3,4), of s] assms(2) bounded_cleared(1) [of "d_client_cache s"]
  by (auto simp: flushed_def io_ok_def caches_ok_bounded io_frame_def intro: memory_same)

lemma flush_vhost_flushed:
  assumes "dpdk_ok (e_lib E) holds" "io_ok E s"
    "in_cache (e_cores E) (num_vhost (e_cfg E)) VHOST0 (e_lcore E) v" "v < MAX_VPORTS"
  shows "\<exists>s'. flush_vhost_dev_port_cache E v s = Some s' \<and> flushed holds E s s' \<and>
    d_vhost_cache s' = cleared (e_lcore E) (v - VHOST0) (d_vhost_cache s) \<and> d_port_cache s' = d_port_cache s \<and>
    d_client_cache s' = d_client_cache s"
proof -
  have "guests_ready s" "mbufs_ok s" using assms(2) by (simp_all add: io_ok_def)
  from flush_vhost_defined [OF assms(3) this] obtain t
    where "flush_vhost_dev_port_cache E v s = Some t" "guests_ready t" "mbufs_ok t" by blast
  with flush_vhost_account [OF assms(1,3,4) this(1)] assms(2) bounded_cleared(1) [of "d_vhost_cache s"] show ?thesis
    by (auto simp: flushed_def io_ok_def caches_ok_bounded io_frame_def)
qed

text \<open>
  The three loops have one shape: they visit the places of a row and flush those that are not empty. \<open>c\<close> reads the
  caches of the kind, \<open>keep\<close> says that the other caches are the same.
\<close>

lemma flush_loop:
  assumes io: "io_ok E s"
    and step: "\<And>i t. i < n \<Longrightarrow> io_ok E t \<Longrightarrow> \<exists>t'. fl i t = Some t' \<and> flushed holds E t t' \<and> c t' = cleared l i (c t) \<and> other t' = other t"
  shows "\<exists>s'. iterate (\<lambda>i t. if c t l i \<noteq> [] then fl i t else Some t) [0..<n] s = Some s' \<and> flushed holds E s s' \<and>
    other s' = other s \<and> (\<forall>i < n. c s' l i = [])"
proof -
  let ?P = "\<lambda>i t. flushed holds E s t \<and> other t = other s \<and> (\<forall>j < i. c t l j = [])"
  have "\<exists>t'. (if c t l i \<noteq> [] then fl i t else Some t) = Some t' \<and> ?P (Suc i) t'" if "i < n" "?P i t" for i t
  proof (cases "c t l i = []")
    case True
    with that(2) show ?thesis by (auto simp: less_Suc_eq)
  next
    case False
    have "io_ok E t" using that(2) by (simp add: flushed_def)
    from step [OF that(1) this] obtain t' where
      "fl i t = Some t'" "flushed holds E t t'" "c t' = cleared l i (c t)" "other t' = other t" by blast
    with False that(2) show ?thesis by (auto simp: less_Suc_eq cleared_def intro: flushed_trans)
  qed
  then have "\<exists>s'. iterate (\<lambda>i t. if c t l i \<noteq> [] then fl i t else Some t) [0..<n] s = Some s' \<and> ?P n s'"
    by (intro iterate_upto [where P = ?P]) (simp_all add: flushed_self [OF io])
  then show ?thesis by blast
qed

lemma few_phy_ports:
  assumes "env_ok E"
  shows "num_phy_ports (e_cfg E) \<le> 16"
proof -
  have "{PHYPORT0..<PHYPORT0 + num_phy_ports (e_cfg E)} = fst ` set (cfg_ports (e_cfg E))" using assms by (simp add: env_ok_def)
  also have "\<dots> \<subseteq> {PHYPORT0..<KNI0}" using assms by (force simp: env_ok_def cfg_ok_def)
  finally show ?thesis by (auto simp: vport_consts)
qed

lemma flush_ports_ok:
  assumes L: "dpdk_ok (e_lib E) holds" and E: "env_ok E" and io: "io_ok E s"
  shows "\<exists>s'. flush_ports E s = Some s' \<and> flushed holds E s s' \<and> d_client_cache s' = d_client_cache s \<and>
    d_vhost_cache s' = d_vhost_cache s \<and> (\<forall>p < num_phy_ports (e_cfg E). d_port_cache s' (cache_row E) p = [])"
proof -
  have c: "in_cache (e_cores E) (num_phy_ports (e_cfg E)) PHYPORT0 (cache_row E) (i + PHYPORT0)" "i + PHYPORT0 < MAX_VPORTS"
    if "i < num_phy_ports (e_cfg E)" for i
    using that E few_phy_ports [OF E] by (simp_all add: in_cache_def env_ok_def vport_consts)
  show ?thesis
    using flush_loop [OF io, where c = d_port_cache and other = "\<lambda>t. (d_client_cache t, d_vhost_cache t)" and l = "cache_row E"
      and fl = "\<lambda>i. flush_phy_port_cache E (i + PHYPORT0)" and n = "num_phy_ports (e_cfg E)" and holds = holds]
      flush_phy_flushed [OF L _ c] E by (simp add: flush_ports_def env_ok_def)
qed

lemma flush_clients_ok:
  assumes L: "dpdk_ok (e_lib E) holds" and E: "env_ok E" and io: "io_ok E s"
  shows "\<exists>s'. flush_clients E s = Some s' \<and> flushed holds E s s' \<and> d_port_cache s' = d_port_cache s \<and>
    d_vhost_cache s' = d_vhost_cache s \<and> (\<forall>p < num_clients (e_cfg E). d_client_cache s' (cache_row E) p = [])"
proof -
  have c: "in_cache (e_cores E) (num_clients (e_cfg E)) CLIENT1 (cache_row E) (i + CLIENT1)" "i + CLIENT1 < MAX_VPORTS"
    if "i < num_clients (e_cfg E)" for i
    using that E by (simp_all add: in_cache_def env_ok_def vport_consts cfg_ok_def)
  show ?thesis
    using flush_loop [OF io, where c = d_client_cache and other = "\<lambda>t. (d_port_cache t, d_vhost_cache t)" and l = "cache_row E"
      and fl = "\<lambda>i. flush_client_port_cache E (i + CLIENT1)" and n = "num_clients (e_cfg E)" and holds = holds]
      flush_client_flushed [OF L _ c] E by (simp add: flush_clients_def env_ok_def)
qed

lemma flush_vhost_devs_ok:
  assumes L: "dpdk_ok (e_lib E) holds" and E: "env_ok E" and io: "io_ok E s"
  shows "\<exists>s'. flush_vhost_devs E s = Some s' \<and> flushed holds E s s' \<and> d_port_cache s' = d_port_cache s \<and>
    d_client_cache s' = d_client_cache s \<and> (\<forall>p < num_vhost (e_cfg E). d_vhost_cache s' (e_lcore E) p = [])"
proof -
  have c: "in_cache (e_cores E) (num_vhost (e_cfg E)) VHOST0 (e_lcore E) (i + VHOST0)" "i + VHOST0 < MAX_VPORTS"
    if "i < num_vhost (e_cfg E)" for i
    using that E by (simp_all add: in_cache_def env_ok_def vport_consts cfg_ok_def)
  show ?thesis
    using flush_loop [OF io, where c = d_vhost_cache and other = "\<lambda>t. (d_port_cache t, d_client_cache t)" and l = "e_lcore E"
      and fl = "\<lambda>i. flush_vhost_dev_port_cache E (i + VHOST0)" and n = "num_vhost (e_cfg E)" and holds = holds]
      flush_vhost_flushed [OF L _ c] E by (simp add: flush_vhost_devs_def env_ok_def)
qed

lemma flush_nic_tx_ring_ok:
  assumes L: "dpdk_ok (e_lib E) holds" and p: "vi_index (d_vports s v) < MAX_PHYPORTS"
  shows "\<exists>s'. flush_nic_tx_ring E v s = Some s' \<and> owned holds n s' = owned holds n s \<and> d_client_cache s' = d_client_cache s \<and>
    d_port_cache s' = d_port_cache s \<and> d_vhost_cache s' = d_vhost_cache s \<and> d_vports s' = d_vports s \<and> d_dev s' = d_dev s \<and>
    d_mbuf s' = d_mbuf s \<and> d_buf s' = d_buf s"
proof -
  obtain tsc w where r: "rdtsc (e_lib E) (d_lib s) = (tsc, w)" by fastforce
  let ?s = "s\<lparr>d_lib := w\<rparr>" and ?k = "min (ring_count (e_lib E) (PORT_TX v) w) PKT_BURST_SIZE"
  have "holds (snd (rdtsc (e_lib E) (d_lib s))) = holds (d_lib s)" using L by (simp add: dpdk_ok_def)
  then have o: "owned holds n ?s = owned holds n s" by (simp add: r owned_def)
  obtain res w1 where d: "ring_dequeue_bulk (e_lib E) (PORT_TX v) ?k w = (res, w1)" by fastforce
  have bulk: "case ring_dequeue_bulk (e_lib E) (PORT_TX v) ?k w of
    (None, w') \<Rightarrow> holds w' = holds w | (Some ms, w') \<Rightarrow> length ms = ?k \<and> holds w = mset ms + holds w'"
    using L unfolding dpdk_ok_def by simp
  show ?thesis
  proof (cases res)
    case None
    then show ?thesis using bulk d r p o by (auto simp: flush_nic_tx_ring_def Let_def owned_def split: prod.splits option.splits)
  next
    case (Some pkts)
    obtain k w2 where e: "eth_tx_burst (e_lib E) (vi_index (d_vports s v)) pkts w1 = (k, w2)" by fastforce
    have t: "takes holds (k, w2) (d_lib (s\<lparr>d_lib := w1\<rparr>)) pkts" using L by (simp add: dpdk_ok_def flip: e)
    have len: "length pkts = ?k" and b: "holds w = mset pkts + holds w1" using bulk d Some by simp_all
    have "owned holds n (s\<lparr>d_lib := w2\<rparr>) + mset (drop k pkts) = owned holds n ?s"
      using owned_takes [OF t, of n] owned_lib [of holds n w1 s] owned_lib [of holds n w s] b mset_take_drop [of k pkts]
      by (auto simp: owned_def ac_simps)
    moreover have "drop k pkts = []" if "\<not> k < ?k" using that len by auto
    moreover define u where "u = s\<lparr>d_lib := w2, d_prev_tsc := (d_prev_tsc s)(vi_index (d_vports s v) := tsc)\<rparr>"
    moreover define u' where "u' = upd_stats (stats_vport_tx_increment (e_lcore E) v (int k)) (if k < ?k
      then upd_stats (stats_vport_tx_drop_increment (e_lcore E) v (int (?k - k))) (free_all E (drop k pkts) u) else u)"
    ultimately have u: "owned holds n u' = owned holds n s"
      using o by (cases "k < ?k") (simp_all add: owned_free_all [OF L] ac_simps)
    have "flush_nic_tx_ring E v s \<in> {Some ?s, Some u'}"
      using p by (simp add: flush_nic_tx_ring_def Let_def r d Some e u'_def u_def)
    then show ?thesis using u o by (auto simp: u'_def u_def)
  qed
qed

section \<open>Receiving\<close>

lemma receive_from_vport_account:
  assumes L: "dpdk_ok (e_lib E) holds" and r: "receive_from_vport E v s = Some (ms, s')"
  shows "owned holds n s = mset ms + owned holds n s' \<and> length ms \<le> PKT_BURST_SIZE"
proof -
  have g: "gives holds (kni_rx_burst (e_lib E) d PKT_BURST_SIZE w) w PKT_BURST_SIZE"
    "gives holds (ring_dequeue_burst (e_lib E) q PKT_BURST_SIZE w) w PKT_BURST_SIZE"
    "gives holds (eth_rx_burst (e_lib E) p PKT_BURST_SIZE w) w PKT_BURST_SIZE"
    "holds (kni_handle_request (e_lib E) d w) = holds w" for d q p w
    using L by (simp_all add: dpdk_ok_def)
  have k: "owned holds n (t\<lparr>d_lib := kni_handle_request (e_lib E) d w\<rparr>) = owned holds n (t\<lparr>d_lib := w\<rparr>)"
    "owned holds n (upd_stats f (t\<lparr>d_lib := w\<rparr>)\<lparr>d_lib := w\<rparr>) = owned holds n (t\<lparr>d_lib := w\<rparr>)" for t :: "'a dp" and f d w
    using g(4) by (simp_all add: owned_def)
  have lib: "owned holds n s = mset ms + owned holds n (s\<lparr>d_lib := w\<rparr>) \<and> length ms \<le> PKT_BURST_SIZE"
    if "gives holds (ms, w) (d_lib s) PKT_BURST_SIZE" for ms w
    using owned_gives [OF that] by auto
  show ?thesis
  proof (cases "vi_type (d_vports s v)")
    case VPORT_TYPE_VHOST
    then show ?thesis using r dequeue_burst_account(1,2) [OF L, of _ PKT_BURST_SIZE s]
      by (auto simp: receive_from_vport_def receive_from_vhost_def split: if_splits option.splits bind_splits)
  next
    case VPORT_TYPE_VETH
    obtain ms1 w where b: "kni_rx_burst (e_lib E) (VETH_DEV (vi_index (d_vports s v))) PKT_BURST_SIZE (d_lib s) = (ms1, w)" by fastforce
    have "gives holds (ms1, w) (d_lib s) PKT_BURST_SIZE" using g(1) by (simp flip: b)
    from lib [OF this] VPORT_TYPE_VETH r k show ?thesis
      by (auto simp: receive_from_vport_def receive_from_veth_def Let_def b split: if_splits)
  next
    case VPORT_TYPE_KNI
    obtain ms1 w where b: "kni_rx_burst (e_lib E) (KNI_DEV (vi_index (d_vports s v))) PKT_BURST_SIZE (d_lib s) = (ms1, w)" by fastforce
    have "gives holds (ms1, w) (d_lib s) PKT_BURST_SIZE" using g(1) by (simp flip: b)
    from lib [OF this] VPORT_TYPE_KNI r show ?thesis
      by (auto simp: receive_from_vport_def receive_from_kni_def Let_def b split: if_splits)
  next
    case VPORT_TYPE_CLIENT
    obtain ms1 w where b: "ring_dequeue_burst (e_lib E) (CLIENT_TX v) PKT_BURST_SIZE (d_lib s) = (ms1, w)" by fastforce
    have "gives holds (ms1, w) (d_lib s) PKT_BURST_SIZE" using g(2) by (simp flip: b)
    from lib [OF this] VPORT_TYPE_CLIENT r show ?thesis
      by (auto simp: receive_from_vport_def receive_from_client_def Let_def b split: if_splits)
  next
    case VPORT_TYPE_PHY
    obtain ms1 w where b: "eth_rx_burst (e_lib E) (vi_index (d_vports s v)) PKT_BURST_SIZE (d_lib s) = (ms1, w)" by fastforce
    have "gives holds (ms1, w) (d_lib s) PKT_BURST_SIZE" using g(3) by (simp flip: b)
    from lib [OF this] VPORT_TYPE_PHY r show ?thesis
      by (auto simp: receive_from_vport_def receive_from_port_def Let_def b split: if_splits)
  qed (use r in \<open>auto simp: receive_from_vport_def split: if_splits\<close>)
qed

section \<open>Properties\<close>

text \<open>A sequence of sends, and the flushes a core does in turn.\<close>

fun sends :: "'w env \<Rightarrow> (nat \<times> nat) list \<Rightarrow> 'w dp \<Rightarrow> 'w dp option" where
  "sends E [] s = Some s"
| "sends E ((v, m) # xs) s = do { (_, s) \<leftarrow> send_to_vport E v m s; sends E xs s }"

definition flush_all :: "'w env \<Rightarrow> 'w dp \<Rightarrow> 'w dp option" where
  "flush_all E s = do { s \<leftarrow> flush_clients E s; s \<leftarrow> flush_ports E s; flush_vhost_devs E s }"

lemma sends_ok:
  assumes L: "dpdk_ok (e_lib E) holds" and E: "env_ok E" and io: "io_ok E s"
  shows "\<exists>s'. sends E xs s = Some s' \<and> owned holds (e_cores E) s' = mset (map snd xs) + owned holds (e_cores E) s \<and> io_ok E s' \<and>
    io_frame s s'"
  using io
proof (induction xs arbitrary: s)
  case (Cons x xs)
  obtain v m where x: "x = (v, m)" by fastforce
  from send_to_vport_ok [OF L E Cons.prems, of v m] obtain r t where t: "send_to_vport E v m s = Some (r, t)" "accepted holds E m s t"
    by blast
  then have "io_ok E t" by (simp add: accepted_def)
  from Cons.IH [OF this] t show ?case by (auto simp: x accepted_def io_frame_def)
qed simp

text \<open>C14: Any sequence of packets sent to any ports, valid or not, is handled without an access outside of the caches: no
  cache ever holds more than 31 packets between two sends. Every packet is afterwards in a cache or with the library
  (queued, sent or freed): none is lost and none is held twice. The table of ports and the packets are untouched. It is
  assumed that the physical ports are numbered from 0x10 on without gaps and the running core has its rows in the caches
  (\<open>env_ok\<close>), that the table of ports is well-formed, no cache is full, the data of every mbuf lies in its buffer, and
  that every attached guest is ready: its rings are consistent, and every buffer it can offer is mapped with room for a
  header and a packet (\<open>guests_ready\<close>).\<close>

theorem sends_bounded_and_accounted:
  assumes "dpdk_ok (e_lib E) holds" "env_ok E" "vports_ok (e_cfg E) (d_vports s)" "caches_ok s" "mbufs_ok s" "guests_ready s"
  shows "\<exists>s'. sends E xs s = Some s' \<and> caches_ok s' \<and> guests_ready s' \<and>
    owned holds (e_cores E) s' = mset (map snd xs) + owned holds (e_cores E) s \<and>
    d_vports s' = d_vports s \<and> d_mbuf s' = d_mbuf s \<and> d_buf s' = d_buf s"
  using sends_ok [OF assms(1,2), of s xs] assms(3-6) by (auto simp: io_ok_def io_frame_def)

text \<open>C28: A core that flushes the clients, the physical ports and the vhost ports leaves none of its caches with a
  packet, whatever the rings and the devices accept and however many buffers the guests offer: what is not accepted is
  freed, and the account of packets is the same. The guests are ready for the next flush. It is assumed that the physical
  ports are numbered without gaps, that the data of every mbuf lies in its buffer, and that the rings of every attached
  guest are consistent and its buffers mapped with room for a header and a packet.\<close>

theorem flush_all_empties:
  assumes "dpdk_ok (e_lib E) holds" "env_ok E" "vports_ok (e_cfg E) (d_vports s)" "caches_ok s" "mbufs_ok s" "guests_ready s"
  shows "\<exists>s'. flush_all E s = Some s' \<and> owned holds (e_cores E) s' = owned holds (e_cores E) s \<and> guests_ready s' \<and>
    (\<forall>p < num_clients (e_cfg E). d_client_cache s' (cache_row E) p = []) \<and>
    (\<forall>p < num_phy_ports (e_cfg E). d_port_cache s' (cache_row E) p = []) \<and>
    (\<forall>p < num_vhost (e_cfg E). d_vhost_cache s' (e_lcore E) p = [])"
proof -
  have "io_ok E s" using assms(3-6) by (simp add: io_ok_def)
  from flush_clients_ok [OF assms(1,2) this] obtain s1 where 1: "flush_clients E s = Some s1" "flushed holds E s s1"
    "\<forall>p < num_clients (e_cfg E). d_client_cache s1 (cache_row E) p = []" by blast
  then have "io_ok E s1" by (simp add: flushed_def)
  from flush_ports_ok [OF assms(1,2) this] obtain s2 where 2: "flush_ports E s1 = Some s2" "flushed holds E s1 s2"
    "d_client_cache s2 = d_client_cache s1" "\<forall>p < num_phy_ports (e_cfg E). d_port_cache s2 (cache_row E) p = []" by blast
  then have "io_ok E s2" by (simp add: flushed_def)
  from flush_vhost_devs_ok [OF assms(1,2) this] 1 2 show ?thesis by (auto simp: flush_all_def flushed_def io_ok_def)
qed


text \<open>
  A guest that offers two buffers in 16 kB of mapped memory, and a state in which it is attached to the first vhost
  port; in \<open>busy_io\<close> the caches of the core hold packets of 60 bytes.
\<close>

definition live_dev :: vhost_dev where
  "live_dev = example_dev\<lparr>
     vd_mem := \<lparr>base_address = 0x1000, mapped_address = 0x10000, mapped_size = 0x4000, regions =
       [\<lparr>guest_phys_address = 0, guest_phys_address_end = 0x4000, memory_size = 0x4000, userspace_address = 0x1000, address_offset = 0x10000\<rparr>]\<rparr>,
     vd_rx_rings := \<lparr>gq_desc = [\<lparr>desc_addr = 0x1000, desc_len = 1536, desc_flags = 0, desc_next = 0\<rparr>,
         \<lparr>desc_addr = 0x2000, desc_len = 1536, desc_flags = 0, desc_next = 0\<rparr>],
       gq_avail_idx = (\<lambda>_. 2), gq_avail_ring = [0, 1], gq_used_idx = 0, gq_used_ring = [(0, 0), (0, 0)]\<rparr>,
     vd_host := (\<lambda>x. if 0x10000 \<le> x \<and> x < 0x14000 then Some 0 else None)\<rparr>"

definition example_io :: "nat list dp" where
  "example_io = example_dp\<lparr>d_vports := (\<lambda>i. (vport_init example_cfg i)\<lparr>vi_dev := if i = VHOST0 then Some 0 else None\<rparr>),
     d_dev := (\<lambda>_. live_dev)\<rparr>"

definition busy_io :: "nat list dp" where
  "busy_io = example_io\<lparr>d_mbuf := (\<lambda>m. \<lparr>mb_buf = m, mb_off = 128, mb_data_len = 60, mb_pkt_len = 60\<rparr>),
     d_client_cache := (\<lambda>l p. if p = 1 then [21] else []), d_port_cache := (\<lambda>l p. if p = 0 then [22] else []),
     d_vhost_cache := (\<lambda>l p. if p = 0 then [23, 24, 25] else [])\<rparr>"

lemma mapped_range:
  assumes "lo \<le> a" "unat a + n \<le> unat hi"
  shows "mapped (\<lambda>x. if lo \<le> x \<and> x < hi then Some v else None) a n"
proof -
  have "lo \<le> a + of_nat i \<and> a + of_nat i < hi" if "i < n" for i
  proof -
    have "unat a + i < 2 ^ 64" using assms(2) that unsigned_less [of hi, where 'a = nat] by simp
    then have "unat (a + of_nat i) = unat a + i" by (simp add: unat_word_ariths unsigned_of_nat take_bit_eq_mod mod_add_right_eq)
    then show ?thesis using assms that by (simp add: word_le_nat_alt word_less_nat_alt)
  qed
  then show ?thesis by (simp add: mapped_def)
qed

lemma live_dev_ready: "rx_ready 2048 live_dev"
proof -
  have "mapped (vd_host live_dev) 0x11000 2060" "mapped (vd_host live_dev) 0x12000 2060"
    using mapped_range [of "0x10000" "0x11000" 2060 "0x14000" 0] mapped_range [of "0x10000" "0x12000" 2060 "0x14000" 0]
    by (simp_all add: live_dev_def)
  moreover have "queue_ok 1 (vd_rxq live_dev) (vd_rx_rings live_dev)"
    by (simp add: queue_ok_def live_dev_def example_dev_def zero_vq_def)
  moreover have "gq_desc (vd_rx_rings live_dev) = [\<lparr>desc_addr = 0x1000, desc_len = 1536, desc_flags = 0, desc_next = 0\<rparr>,
      \<lparr>desc_addr = 0x2000, desc_len = 1536, desc_flags = 0, desc_next = 0\<rparr>]"
    "gpa_to_vva (vd_mem live_dev) 0x1000 = 0x11000" "gpa_to_vva (vd_mem live_dev) 0x2000 = 0x12000"
    by (simp_all add: live_dev_def gpa_to_vva_def)
  ultimately have "queue_ok 1 (vd_rxq live_dev) (vd_rx_rings live_dev) \<and>
      descs_ready 2048 1 (vd_mem live_dev) (vd_host live_dev) (gq_desc (vd_rx_rings live_dev))" by (simp add: descs_ready_def)
  moreover have "last_used_idx (vd_rxq live_dev) = last_used_idx_res (vd_rxq live_dev) \<and> unat (vhost_hlen (vd_rxq live_dev)) \<le> 12"
    by (simp add: live_dev_def example_dev_def zero_vq_def)
  ultimately show ?thesis unfolding rx_ready_def by blast
qed

lemma example_io_ok: "env_ok example_env" "vports_ok (e_cfg example_env) (d_vports example_io)" "caches_ok example_io" "mbufs_ok example_io"
  "guests_ready example_io"
proof -
  show "env_ok example_env" by (auto simp: env_ok_def example_env_def cache_row_def cfg_ok_def example_cfg_def vport_consts)
  show "vports_ok (e_cfg example_env) (d_vports example_io)"
    using vport_init_ok [OF example_cfg_ok] by (simp add: vports_ok_def example_env_def example_io_def)
  show "caches_ok example_io" by (simp add: caches_ok_def example_io_def example_dp_def LOCAL_MBUF_CACHE_SIZE_def)
  show "mbufs_ok example_io" by (simp add: mbufs_ok_def mbuf_in_def example_io_def example_dp_def)
  show "guests_ready example_io"
    unfolding guests_ready_def by (intro exI [of _ 2048]) (simp add: example_io_def example_dp_def live_dev_ready)
qed

lemma busy_io_ok: "vports_ok (e_cfg example_env) (d_vports busy_io)" "caches_ok busy_io" "mbufs_ok busy_io" "guests_ready busy_io"
proof -
  show "vports_ok (e_cfg example_env) (d_vports busy_io)" using example_io_ok(2) by (simp add: busy_io_def)
  show "caches_ok busy_io" by (simp add: caches_ok_def busy_io_def LOCAL_MBUF_CACHE_SIZE_def)
  show "mbufs_ok busy_io" by (simp add: mbufs_ok_def mbuf_in_def busy_io_def example_io_def example_dp_def)
  show "guests_ready busy_io" using example_io_ok(5) guests_ready_cong [of busy_io example_io] by (simp add: busy_io_def)
qed

theorem sends_bounded_and_accounted_witness:
  "\<exists>s'. sends example_env [(0x10, 1), (2, 2), (0x50, 3), (7, 4), (999, 5)] example_io = Some s' \<and> caches_ok s' \<and>
     owned mset 1 s' = {#1, 2, 3, 4, 5#} + owned mset 1 example_io"
  using sends_bounded_and_accounted [OF example_env_ok example_io_ok, of "[(0x10, 1), (2, 2), (0x50, 3), (7, 4), (999, 5)]"]
  by (auto simp: example_env_def)

theorem flush_all_empties_witness:
  "\<exists>s'. flush_all example_env busy_io = Some s' \<and> d_client_cache s' 0 1 = [] \<and> d_port_cache s' 0 0 = [] \<and> d_vhost_cache s' 0 0 = [] \<and>
     owned mset 1 s' = owned mset 1 busy_io \<and> d_vhost_cache busy_io 0 0 = [23, 24, 25]"
  using flush_all_empties [OF example_env_ok example_io_ok(1) busy_io_ok]
  by (auto simp: example_env_def example_cfg_def cache_row_def) (simp add: busy_io_def)


end
