(* ===== verification/PacketSet.thy ===== *)
theory PacketSet
  imports Packets Crc32c
begin

text \<open>
  The functions of \<open>lib/packets.c\<close> that overwrite header fields of IPv4, IPv6, TCP, UDP and SCTP packets
  and patch the checksums. The header pointers are the layer pointers of the packet buffer; the offset
  of a field is the pointer plus its offset in the header structure.\<close>

section \<open>Stores into the packet\<close>

definition store8 :: "ofpbuf \<Rightarrow> nat \<Rightarrow> u8 \<Rightarrow> ofpbuf option" where
  "store8 b off v = map_option (\<lambda>m. b\<lparr>ob_mem := m\<rparr>) (st8 (ob_mem b) off v)"

definition store16 :: "ofpbuf \<Rightarrow> nat \<Rightarrow> u16 \<Rightarrow> ofpbuf option" where
  "store16 b off v = map_option (\<lambda>m. b\<lparr>ob_mem := m\<rparr>) (st16 (ob_mem b) off v)"

definition store32 :: "ofpbuf \<Rightarrow> nat \<Rightarrow> u32 \<Rightarrow> ofpbuf option" where
  "store32 b off v = map_option (\<lambda>m. b\<lparr>ob_mem := m\<rparr>) (st32 (ob_mem b) off v)"

definition IPPROTO_TCP :: u8 where "IPPROTO_TCP = 6"
definition IPPROTO_UDP :: u8 where "IPPROTO_UDP = 17"
definition IPPROTO_HOPOPTS :: u8 where "IPPROTO_HOPOPTS = 0"
definition IPPROTO_ROUTING :: u8 where "IPPROTO_ROUTING = 43"
definition IPPROTO_FRAGMENT :: u8 where "IPPROTO_FRAGMENT = 44"
definition IPPROTO_AH :: u8 where "IPPROTO_AH = 51"
definition IPPROTO_DSTOPTS :: u8 where "IPPROTO_DSTOPTS = 60"

section \<open>IPv4\<close>

text \<open>A UDP checksum that becomes zero is sent as all ones.\<close>

definition udp_nonzero :: "u16 \<Rightarrow> u16" where
  "udp_nonzero c = (if c = 0 then htons 0xffff else c)"

definition packet_set_ipv4_l4_csum :: "ofpbuf \<Rightarrow> u8 \<Rightarrow> u32 \<Rightarrow> u32 \<Rightarrow> ofpbuf option" where
  "packet_set_ipv4_l4_csum packet ip_proto old_addr new_addr =
     (if ip_proto = IPPROTO_TCP \<and> ob_l7 packet \<noteq> None then do {
        th \<leftarrow> ob_l4 packet;
        tcp_csum \<leftarrow> ld16 (ob_mem packet) (th + 16);
        store16 packet (th + 16) (recalc_csum32 tcp_csum old_addr new_addr)
      } else if ip_proto = IPPROTO_UDP \<and> ob_l7 packet \<noteq> None then do {
        uh \<leftarrow> ob_l4 packet;
        udp_csum \<leftarrow> ld16 (ob_mem packet) (uh + 6);
        if udp_csum \<noteq> 0
        then store16 packet (uh + 6) (udp_nonzero (recalc_csum32 udp_csum old_addr new_addr))
        else Some packet
      } else Some packet)"

definition packet_set_ipv4_addr :: "ofpbuf \<Rightarrow> nat \<Rightarrow> u32 \<Rightarrow> ofpbuf option" where
  "packet_set_ipv4_addr packet addr new_addr = do {
     nh \<leftarrow> ob_l3 packet;
     old_addr \<leftarrow> ld32 (ob_mem packet) addr;
     ip_proto \<leftarrow> ld8 (ob_mem packet) (nh + 9);
     packet \<leftarrow> packet_set_ipv4_l4_csum packet ip_proto old_addr new_addr;
     ip_csum \<leftarrow> ld16 (ob_mem packet) (nh + 10);
     packet \<leftarrow> store16 packet (nh + 10) (recalc_csum32 ip_csum old_addr new_addr);
     store32 packet addr new_addr
   }"

text \<open>
  The type of service and the time to live are updated by the same steps; \<open>word_of\<close> places the byte in
  its 16-bit word of the header.
\<close>

definition packet_set_ip_byte :: "ofpbuf \<Rightarrow> nat \<Rightarrow> nat \<Rightarrow> (u8 \<Rightarrow> u16) \<Rightarrow> u8 \<Rightarrow> ofpbuf option" where
  "packet_set_ip_byte packet nh i word_of v = do {
     field \<leftarrow> ld8 (ob_mem packet) (nh + i);
     if field \<noteq> v then do {
       ip_csum \<leftarrow> ld16 (ob_mem packet) (nh + 10);
       packet \<leftarrow> store16 packet (nh + 10) (recalc_csum16 ip_csum (word_of field) (word_of v));
       store8 packet (nh + i) v
     } else Some packet
   }"

definition packet_set_ipv4 :: "ofpbuf \<Rightarrow> u32 \<Rightarrow> u32 \<Rightarrow> u8 \<Rightarrow> u8 \<Rightarrow> ofpbuf option" where
  "packet_set_ipv4 packet src dst tos ttl = do {
     nh \<leftarrow> ob_l3 packet;
     ip_src \<leftarrow> ld32 (ob_mem packet) (nh + 12);
     packet \<leftarrow> (if ip_src \<noteq> src then packet_set_ipv4_addr packet (nh + 12) src else Some packet);
     ip_dst \<leftarrow> ld32 (ob_mem packet) (nh + 16);
     packet \<leftarrow> (if ip_dst \<noteq> dst then packet_set_ipv4_addr packet (nh + 16) dst else Some packet);
     packet \<leftarrow> packet_set_ip_byte packet nh 1 (\<lambda>x. htons (ucast x)) tos;
     packet_set_ip_byte packet nh 8 (\<lambda>x. htons (push_bit 8 (ucast x))) ttl
   }"

section \<open>IPv6\<close>

text \<open>
  The loop of \<open>packet_rh_present\<close> over the extension headers between \<open>d\<close> and the layer 4 header,
  \<open>remaining\<close> bytes further on.
\<close>

function rh_present_from :: "bytes \<Rightarrow> nat \<Rightarrow> nat \<Rightarrow> u8 \<Rightarrow> bool option" where
  "rh_present_from m d remaining nexthdr =
     (if nexthdr \<noteq> IPPROTO_HOPOPTS \<and> nexthdr \<noteq> IPPROTO_ROUTING \<and> nexthdr \<noteq> IPPROTO_DSTOPTS \<and>
         nexthdr \<noteq> IPPROTO_AH \<and> nexthdr \<noteq> IPPROTO_FRAGMENT then Some False
      else if remaining < 8 then Some False
      else case (ld8 m d, ld8 m (d + 1), ld8 m (d + 3)) of
        (Some nxt, Some hlen, Some segleft) \<Rightarrow>
          if nexthdr = IPPROTO_ROUTING \<and> segleft > 0 then Some True
          else let len = (if nexthdr = IPPROTO_AH then (unat hlen + 2) * 4
                          else if nexthdr = IPPROTO_FRAGMENT then 8
                          else (unat hlen + 1) * 8)
               in if remaining < len then Some False
                  else rh_present_from m (d + len) (remaining - len) nxt
      | _ \<Rightarrow> None)"
  by pat_completeness auto

termination rh_present_from
  by (relation "measure (\<lambda>(m, d, remaining, nexthdr). remaining)") (auto split: if_splits)

declare rh_present_from.simps [simp del]

definition packet_rh_present :: "ofpbuf \<Rightarrow> bool option" where
  "packet_rh_present packet = do {
     l3 \<leftarrow> ob_l3 packet;
     l4 \<leftarrow> ob_l4 packet;
     remaining \<leftarrow> ptr_sub l4 l3;
     if remaining < 40 then Some False
     else do {
       nexthdr \<leftarrow> ld8 (ob_mem packet) (l3 + 6);
       rh_present_from (ob_mem packet) (l3 + 40) (remaining - 40) nexthdr
     }
   }"

definition ld128 :: "bytes \<Rightarrow> nat \<Rightarrow> u32 list option" where
  "ld128 m a = do {
     w0 \<leftarrow> ld32 m a; w1 \<leftarrow> ld32 m (a + 4); w2 \<leftarrow> ld32 m (a + 8); w3 \<leftarrow> ld32 m (a + 12);
     Some [w0, w1, w2, w3]
   }"

definition packet_update_csum128 :: "ofpbuf \<Rightarrow> u8 \<Rightarrow> nat \<Rightarrow> u32 list \<Rightarrow> ofpbuf option" where
  "packet_update_csum128 packet proto addr new_addr =
     (if proto = IPPROTO_TCP \<and> ob_l7 packet \<noteq> None then do {
        th \<leftarrow> ob_l4 packet;
        tcp_csum \<leftarrow> ld16 (ob_mem packet) (th + 16);
        old_addr \<leftarrow> ld128 (ob_mem packet) addr;
        store16 packet (th + 16) (recalc_csum128 tcp_csum old_addr new_addr)
      } else if proto = IPPROTO_UDP \<and> ob_l7 packet \<noteq> None then do {
        uh \<leftarrow> ob_l4 packet;
        udp_csum \<leftarrow> ld16 (ob_mem packet) (uh + 6);
        if udp_csum \<noteq> 0 then do {
          old_addr \<leftarrow> ld128 (ob_mem packet) addr;
          store16 packet (uh + 6) (udp_nonzero (recalc_csum128 udp_csum old_addr new_addr))
        } else Some packet
      } else Some packet)"

text \<open>\<open>memcpy(addr, new_addr, sizeof(*addr))\<close>: \<open>*addr\<close> is one 32-bit word.\<close>

definition packet_set_ipv6_addr :: "ofpbuf \<Rightarrow> u8 \<Rightarrow> nat \<Rightarrow> u32 list \<Rightarrow> bool \<Rightarrow> ofpbuf option" where
  "packet_set_ipv6_addr packet proto addr new_addr recalculate_csum = do {
     packet \<leftarrow> (if recalculate_csum then packet_update_csum128 packet proto addr new_addr else Some packet);
     store32 packet addr (new_addr ! 0)
   }"

definition packet_set_ipv6_flow_label :: "ofpbuf \<Rightarrow> nat \<Rightarrow> u32 \<Rightarrow> ofpbuf option" where
  "packet_set_ipv6_flow_label packet flow_label flow_key = do {
     old_label \<leftarrow> ld32 (ob_mem packet) flow_label;
     store32 packet flow_label ((old_label AND htonl (NOT 0x000fffff)) OR flow_key)
   }"

definition packet_set_ipv6_tc :: "ofpbuf \<Rightarrow> nat \<Rightarrow> u8 \<Rightarrow> ofpbuf option" where
  "packet_set_ipv6_tc packet flow_label tc = do {
     old_label \<leftarrow> ld32 (ob_mem packet) flow_label;
     store32 packet flow_label ((old_label AND htonl 0xF00FFFFF) OR htonl (push_bit 20 (ucast tc)))
   }"

definition packet_set_ipv6 :: "ofpbuf \<Rightarrow> u8 \<Rightarrow> u32 list \<Rightarrow> u32 list \<Rightarrow> u8 \<Rightarrow> u32 \<Rightarrow> u8 \<Rightarrow> ofpbuf option" where
  "packet_set_ipv6 packet proto src dst key_tc key_fl key_hl = do {
     nh \<leftarrow> ob_l3 packet;
     ip6_src \<leftarrow> ld128 (ob_mem packet) (nh + 8);
     packet \<leftarrow> (if ip6_src \<noteq> src then packet_set_ipv6_addr packet proto (nh + 8) src True else Some packet);
     ip6_dst \<leftarrow> ld128 (ob_mem packet) (nh + 24);
     packet \<leftarrow> (if ip6_dst \<noteq> dst then do {
         rh \<leftarrow> packet_rh_present packet;
         packet_set_ipv6_addr packet proto (nh + 24) dst (\<not> rh)
       } else Some packet);
     packet \<leftarrow> packet_set_ipv6_tc packet nh key_tc;
     packet \<leftarrow> packet_set_ipv6_flow_label packet nh key_fl;
     store8 packet (nh + 7) key_hl
   }"

section \<open>Transport ports\<close>

text \<open>\<open>port\<close> and \<open>csum\<close> are the offsets of the two fields.\<close>

definition packet_set_port :: "ofpbuf \<Rightarrow> nat \<Rightarrow> u16 \<Rightarrow> nat \<Rightarrow> ofpbuf option" where
  "packet_set_port packet port new_port csum_off = do {
     old_port \<leftarrow> ld16 (ob_mem packet) port;
     if old_port \<noteq> new_port then do {
       c \<leftarrow> ld16 (ob_mem packet) csum_off;
       packet \<leftarrow> store16 packet csum_off (recalc_csum16 c old_port new_port);
       store16 packet port new_port
     } else Some packet
   }"

definition packet_set_tcp_port :: "ofpbuf \<Rightarrow> u16 \<Rightarrow> u16 \<Rightarrow> ofpbuf option" where
  "packet_set_tcp_port packet src dst = do {
     th \<leftarrow> ob_l4 packet;
     packet \<leftarrow> packet_set_port packet th src (th + 16);
     packet_set_port packet (th + 2) dst (th + 16)
   }"

definition packet_set_udp_port :: "ofpbuf \<Rightarrow> u16 \<Rightarrow> u16 \<Rightarrow> ofpbuf option" where
  "packet_set_udp_port packet src dst = do {
     uh \<leftarrow> ob_l4 packet;
     udp_csum \<leftarrow> ld16 (ob_mem packet) (uh + 6);
     if udp_csum \<noteq> 0 then do {
       packet \<leftarrow> packet_set_port packet uh src (uh + 6);
       packet \<leftarrow> packet_set_port packet (uh + 2) dst (uh + 6);
       udp_csum \<leftarrow> ld16 (ob_mem packet) (uh + 6);
       if udp_csum = 0 then store16 packet (uh + 6) (htons 0xffff) else Some packet
     } else do {
       packet \<leftarrow> store16 packet uh src;
       store16 packet (uh + 2) dst
     }
   }"

text \<open>\<open>tp_len\<close> is truncated to 16 bits.\<close>

definition packet_set_sctp_port :: "ofpbuf \<Rightarrow> u16 \<Rightarrow> u16 \<Rightarrow> ofpbuf option" where
  "packet_set_sctp_port packet src dst = do {
     sh \<leftarrow> ob_l4 packet;
     let tp_len = nat ((int (ob_size packet) - (int sh - int (ob_data packet))) mod 65536);
     old_csum \<leftarrow> ld32 (ob_mem packet) (sh + 8);
     packet \<leftarrow> store32 packet (sh + 8) 0;
     d \<leftarrow> ldn (ob_mem packet) sh tp_len;
     let old_correct_csum = crc32c d;
     packet \<leftarrow> store16 packet sh src;
     packet \<leftarrow> store16 packet (sh + 2) dst;
     d \<leftarrow> ldn (ob_mem packet) sh tp_len;
     let new_csum = crc32c d;
     store32 packet (sh + 8) (old_csum XOR old_correct_csum XOR new_csum)
   }"

definition TCP_FLAGS :: "u16 \<Rightarrow> u8" where
  "TCP_FLAGS tcp_ctl = ucast (ntohs tcp_ctl AND 0x003f)"

section \<open>Checksums of a region\<close>

lemma seg_st16: "st16 m (q + i) v = Some m' \<Longrightarrow> i + 2 \<le> n \<Longrightarrow> q + n \<le> length m \<Longrightarrow>
    st16 (seg q n m) i v = Some (seg q n m')"
  by (simp add: st16_def seg_stn_inside)

lemma seg_st32: "st32 m (q + i) v = Some m' \<Longrightarrow> i + 4 \<le> n \<Longrightarrow> q + n \<le> length m \<Longrightarrow>
    st32 (seg q n m) i v = Some (seg q n m')"
  by (simp add: st32_def seg_stn_inside)

lemma seg_st8: "st8 m (q + i) v = Some m' \<Longrightarrow> i + 1 \<le> n \<Longrightarrow> q + n \<le> length m \<Longrightarrow>
    st8 (seg q n m) i v = Some (seg q n m')"
  by (simp add: st8_def seg_stn_inside)

lemma seg_sum_st16:
  assumes "st16 m (q + i) v = Some m'" and "ld16 m (q + i) = Some w" and "even i"
    and "i + 2 \<le> n" and "q + n \<le> length m"
  shows "word_sum (seg q n m') + unat w = word_sum (seg q n m) + unat v"
  using assms by (intro word_sum_st16 [OF seg_st16]) (auto simp: ld16_seg)

lemma seg_sum_st32:
  assumes "st32 m (q + i) v = Some m'" and "ld32 m (q + i) = Some w" and "even i"
    and "i + 4 \<le> n" and "q + n \<le> length m"
  shows "word_sum (seg q n m') + (unat (lo16 w) + unat (hi16 w)) =
    word_sum (seg q n m) + (unat (lo16 v) + unat (hi16 v))"
  using assms by (intro word_sum_st32 [OF seg_st32]) (auto simp: ld32_seg)

text \<open>Two terms of a sum that change by the same amount modulo 65535 leave it valid.\<close>

lemma mod_patch:
  assumes "x' + p = x + p'" and "p' mod 65535 = p mod (65535 :: nat)"
  shows "x' mod 65535 = x mod 65535"
proof -
  have "(x' + p) mod 65535 = (x + p) mod 65535"
    using assms mod_add_cong [OF refl assms(2)] by metis
  then show ?thesis by (rule mod_add_cancel_nat)
qed

lemma udp_nonzero_mod: "unat (udp_nonzero c) mod 65535 = unat c mod 65535"
proof -
  have "unat (htons 0xffff) = 65535"
    by (simp add: htons_def unat_le16 unat_lo8 unat_hi8)
  then show ?thesis by (simp add: udp_nonzero_def)
qed

lemma udp_nonzero_nz: "udp_nonzero c \<noteq> 0"
proof -
  have "unat (htons 0xffff) = 65535"
    by (simp add: htons_def unat_le16 unat_lo8 unat_hi8)
  then show ?thesis by (auto simp: udp_nonzero_def)
qed

section \<open>The IPv4 header and its transport checksum\<close>

text \<open>
  An IPv4 header of \<open>n\<close> bytes at \<open>q\<close> and, when the packet has a complete transport header, a transport
  segment of \<open>len\<close> bytes at \<open>r\<close> behind it.
\<close>

definition ip_layout :: "nat \<Rightarrow> nat \<Rightarrow> nat \<Rightarrow> nat \<Rightarrow> ofpbuf \<Rightarrow> bool" where
  "ip_layout q n r len b \<longleftrightarrow> ob_l3 b = Some q \<and> 20 \<le> n \<and> q + n \<le> length (ob_mem b) \<and>
     (ob_l7 b \<noteq> None \<longrightarrow> ob_l4 b = Some r \<and> q + n \<le> r \<and> r + len \<le> length (ob_mem b) \<and>
        (ob_mem b ! (q + 9) = IPPROTO_TCP \<longrightarrow> 18 \<le> len) \<and>
        (ob_mem b ! (q + 9) = IPPROTO_UDP \<longrightarrow> 8 \<le> len))"

text \<open>The transport checksum that is kept up to date: none when UDP sends no checksum.\<close>

definition csum_pos :: "nat \<Rightarrow> nat \<Rightarrow> ofpbuf \<Rightarrow> nat option" where
  "csum_pos q r b = (if ob_l7 b = None then None
     else if ob_mem b ! (q + 9) = IPPROTO_TCP then Some 16
     else if ob_mem b ! (q + 9) = IPPROTO_UDP \<and> ld16 (ob_mem b) (r + 6) \<noteq> Some 0 then Some 6
     else None)"

definition csum_field :: "nat \<Rightarrow> nat option \<Rightarrow> nat set" where
  "csum_field r p = (case p of None \<Rightarrow> {} | Some k \<Rightarrow> {r + k, r + k + 1})"

definition l4_sum :: "nat \<Rightarrow> nat \<Rightarrow> nat \<Rightarrow> bytes \<Rightarrow> nat" where
  "l4_sum q r len m = word_sum (seg (q + 12) 8 m) + word_sum (seg r len m)"

definition sums_kept :: "nat \<Rightarrow> nat \<Rightarrow> nat \<Rightarrow> nat \<Rightarrow> ofpbuf \<Rightarrow> ofpbuf \<Rightarrow> bool" where
  "sums_kept q n r len b b' \<longleftrightarrow>
     word_sum (seg q n (ob_mem b')) mod 65535 = word_sum (seg q n (ob_mem b)) mod 65535 \<and>
     csum_pos q r b' = csum_pos q r b \<and>
     (csum_pos q r b \<noteq> None \<longrightarrow>
        l4_sum q r len (ob_mem b') mod 65535 = l4_sum q r len (ob_mem b) mod 65535)"

text \<open>An edit of the buffer at the offsets of \<open>F\<close> that keeps both sums.\<close>

definition same_but_mem :: "ofpbuf \<Rightarrow> ofpbuf \<Rightarrow> bool" where
  "same_but_mem b b' \<longleftrightarrow> ob_source b' = ob_source b \<and> ob_data b' = ob_data b \<and> ob_size b' = ob_size b \<and>
     ob_l2 b' = ob_l2 b \<and> ob_l2_5 b' = ob_l2_5 b \<and> ob_l3 b' = ob_l3 b \<and> ob_l4 b' = ob_l4 b \<and> ob_l7 b' = ob_l7 b"

definition ip_edit :: "nat set \<Rightarrow> nat \<Rightarrow> nat \<Rightarrow> nat \<Rightarrow> nat \<Rightarrow> ofpbuf \<Rightarrow> ofpbuf \<Rightarrow> bool" where
  "ip_edit F q n r len b b' \<longleftrightarrow> same_but_mem b b' \<and> edits F (ob_mem b) (ob_mem b') \<and>
     sums_kept q n r len b b'"

lemma ip_edit_refl: "ip_edit F q n r len b b"
  by (simp add: ip_edit_def sums_kept_def same_but_mem_def)

lemma ip_edit_trans:
  assumes "ip_edit F q n r len a b" and "ip_edit G q n r len b c"
  shows "ip_edit (F \<union> G) q n r len a c"
proof -
  have "edits (F \<union> G) (ob_mem a) (ob_mem b)" "edits (F \<union> G) (ob_mem b) (ob_mem c)"
    using assms by (auto simp: ip_edit_def intro: edits_mono)
  then have "edits (F \<union> G) (ob_mem a) (ob_mem c)"
    by (rule edits_trans)
  then show ?thesis
    using assms by (simp add: ip_edit_def sums_kept_def same_but_mem_def)
qed

lemma ip_edit_mono: "ip_edit F q n r len b b' \<Longrightarrow> F \<subseteq> G \<Longrightarrow> ip_edit G q n r len b b'"
  by (auto simp: ip_edit_def intro: edits_mono)

lemma ip_layout_edit:
  assumes "ip_layout q n r len b" and "ip_edit F q n r len b b'" and "q + 9 \<notin> F"
  shows "ip_layout q n r len b'"
proof -
  have e: "edits F (ob_mem b) (ob_mem b')"
    and "ob_l3 b' = ob_l3 b" "ob_l4 b' = ob_l4 b" "ob_l7 b' = ob_l7 b"
    using assms(2) by (simp_all add: ip_edit_def same_but_mem_def)
  moreover have "ob_mem b' ! (q + 9) = ob_mem b ! (q + 9)"
    using assms(1,3) e by (auto simp: edits_def ip_layout_def)
  ultimately show ?thesis
    using assms(1) edits_length [OF e] by (simp add: ip_layout_def)
qed

lemma edits_nth: "edits F m m' \<Longrightarrow> i < length m \<Longrightarrow> i \<notin> F \<Longrightarrow> m' ! i = m ! i"
  by (simp add: edits_def)

lemma st16_defined: "i + 2 \<le> length m \<Longrightarrow> \<exists>m'. st16 m i v = Some m'"
  by (simp add: st16_def stn_def)

lemma st32_defined: "i + 4 \<le> length m \<Longrightarrow> \<exists>m'. st32 m i v = Some m'"
  by (simp add: st32_def stn_def)

lemma st8_defined: "i < length m \<Longrightarrow> \<exists>m'. st8 m i v = Some m'"
  by (simp add: st8_def stn_def)

lemma edits_st16: "st16 m i v = Some m' \<Longrightarrow> edits {i, i + 1} m m'"
  unfolding st16_def by (erule edits_stn) auto

lemma edits_st32: "st32 m i v = Some m' \<Longrightarrow> edits {i..<i + 4} m m'"
  unfolding st32_def by (erule edits_stn) simp

lemma edits_st8: "st8 m i v = Some m' \<Longrightarrow> edits {i} m m'"
  unfolding st8_def by (erule edits_stn) auto

text \<open>Patching a 16-bit checksum field at an even offset of the transport segment.\<close>

lemma l4_patch:
  assumes "r + len \<le> length m" and "even k" and "k + 2 \<le> len" and "ld16 m (r + k) = Some c"
    and "unat c' mod 65535 = unat (recalc_csum32 c old new) mod 65535"
  obtains m1 where "st16 m (r + k) c' = Some m1"
    and "(word_sum (seg r len m1) + (unat (lo16 new) + unat (hi16 new))) mod 65535 =
         (word_sum (seg r len m) + (unat (lo16 old) + unat (hi16 old))) mod 65535"
proof -
  obtain m1 where m1: "st16 m (r + k) c' = Some m1"
    using st16_defined assms(1,3) by (metis add.assoc add_le_mono1 le_trans nat_add_left_cancel_le)
  have s: "word_sum (seg r len m1) + unat c = word_sum (seg r len m) + unat c'"
    by (rule seg_sum_st16 [OF m1 assms(4,2,3,1)])
  have "(unat c' + (unat (lo16 new) + unat (hi16 new))) mod 65535 =
      (unat (recalc_csum32 c old new) + (unat (lo16 new) + unat (hi16 new))) mod 65535"
    by (rule mod_add_cong [OF assms(5) refl])
  also have "\<dots> = (unat c + (unat (lo16 old) + unat (hi16 old))) mod 65535"
    using recalc_csum32_mod [of c old new] by (simp add: add.assoc)
  finally have c: "(unat c' + (unat (lo16 new) + unat (hi16 new))) mod 65535 =
      (unat c + (unat (lo16 old) + unat (hi16 old))) mod 65535" .
  have "(word_sum (seg r len m1) + (unat (lo16 new) + unat (hi16 new)) + unat c) mod 65535 =
      (word_sum (seg r len m) + (unat c' + (unat (lo16 new) + unat (hi16 new)))) mod 65535"
    by (rule arg_cong [of _ _ "\<lambda>x. x mod 65535"]) (use s in simp)
  also have "\<dots> = (word_sum (seg r len m) + (unat c + (unat (lo16 old) + unat (hi16 old)))) mod 65535"
    by (rule mod_add_cong [OF refl c])
  also have "\<dots> = (word_sum (seg r len m) + (unat (lo16 old) + unat (hi16 old)) + unat c) mod 65535"
    by (simp add: algebra_simps)
  finally show thesis
    by (rule mod_add_cancel_nat [THEN that [OF m1]])
qed

lemma l4_csum_step:
  assumes "ip_layout q n r len b"
  obtains m1 where "packet_set_ipv4_l4_csum b (ob_mem b ! (q + 9)) old new = Some (b\<lparr>ob_mem := m1\<rparr>)"
    and "edits (csum_field r (csum_pos q r b)) (ob_mem b) m1"
    and "csum_pos q r (b\<lparr>ob_mem := m1\<rparr>) = csum_pos q r b"
    and "csum_pos q r b \<noteq> None \<Longrightarrow>
      (word_sum (seg r len m1) + (unat (lo16 new) + unat (hi16 new))) mod 65535 =
      (word_sum (seg r len (ob_mem b)) + (unat (lo16 old) + unat (hi16 old))) mod 65535"
proof (cases "csum_pos q r b")
  case None
  have "packet_set_ipv4_l4_csum b (ob_mem b ! (q + 9)) old new = Some (b\<lparr>ob_mem := ob_mem b\<rparr>)"
    using None assms
    by (auto simp: csum_pos_def packet_set_ipv4_l4_csum_def ip_layout_def ld16_def split: if_splits)
  then show thesis
    using that [of "ob_mem b"] None by simp
next
  case (Some k)
  define c where "c = le16 (ob_mem b ! (r + k)) (ob_mem b ! (r + k + 1))"
  define c' where "c' = (if k = 6 then udp_nonzero (recalc_csum32 c old new) else recalc_csum32 c old new)"
  have k: "k = 16 \<or> k = 6" "k + 2 \<le> len" "even k" "ob_l7 b \<noteq> None" "ob_l4 b = Some r"
      "q + n \<le> r" "20 \<le> n" "r + len \<le> length (ob_mem b)"
    using Some assms by (auto simp: csum_pos_def ip_layout_def split: if_splits)
  have ld: "ld16 (ob_mem b) (r + k) = Some c"
    using k by (simp add: ld16_def c_def)
  have "unat c' mod 65535 = unat (recalc_csum32 c old new) mod 65535"
    by (simp add: c'_def udp_nonzero_mod)
  then obtain m1 where m1: "st16 (ob_mem b) (r + k) c' = Some m1"
      "(word_sum (seg r len m1) + (unat (lo16 new) + unat (hi16 new))) mod 65535 =
       (word_sum (seg r len (ob_mem b)) + (unat (lo16 old) + unat (hi16 old))) mod 65535"
    using l4_patch [OF k(8,3,2) ld] by metis
  have e: "edits {r + k, r + k + 1} (ob_mem b) m1"
    by (rule edits_st16 [OF m1(1)])
  have "m1 ! (q + 9) = ob_mem b ! (q + 9)"
    using e k by (auto simp: edits_def)
  moreover have "ld16 m1 (r + k) = Some c'"
    by (rule ld16_st16_same [OF m1(1)])
  ultimately have "csum_pos q r (b\<lparr>ob_mem := m1\<rparr>) = csum_pos q r b"
    using Some k(1) udp_nonzero_nz by (auto simp: csum_pos_def c'_def split: if_splits)
  moreover have "packet_set_ipv4_l4_csum b (ob_mem b ! (q + 9)) old new = Some (b\<lparr>ob_mem := m1\<rparr>)"
    using Some m1(1) ld k(4,5)
    by (auto simp: csum_pos_def packet_set_ipv4_l4_csum_def store16_def c'_def IPPROTO_TCP_def IPPROTO_UDP_def
        split: if_splits)
  ultimately show thesis
    using that [of m1] e m1(2) Some by (simp add: csum_field_def)
qed

text \<open>The header checksum and an address are stored: the header sum is kept, the address sum moves.\<close>

lemma ip_patch32:
  assumes qn: "20 \<le> n" "q + n \<le> length m" and a: "a = 12 \<or> a = 16"
    and old: "ld32 m (q + a) = Some old" and c: "ld16 m (q + 10) = Some c"
  obtains m2 m3 where "st16 m (q + 10) (recalc_csum32 c old new) = Some m2" and "st32 m2 (q + a) new = Some m3"
    and "edits ({q + 10, q + 11} \<union> {q + a..<q + a + 4}) m m3"
    and "word_sum (seg q n m3) mod 65535 = word_sum (seg q n m) mod 65535"
    and "word_sum (seg (q + 12) 8 m3) + (unat (lo16 old) + unat (hi16 old)) =
      word_sum (seg (q + 12) 8 m) + (unat (lo16 new) + unat (hi16 new))"
proof -
  define c' where "c' = recalc_csum32 c old new"
  obtain m2 where m2: "st16 m (q + 10) c' = Some m2"
    using st16_defined [of "q + 10" m c'] qn by auto
  have e2: "edits {q + 10, q + 11} m m2"
    by (rule edits_mono [OF edits_st16 [OF m2]]) auto
  have len2: "length m2 = length m"
    by (rule length_st16 [OF m2])
  obtain m3 where m3: "st32 m2 (q + a) new = Some m3"
    using st32_defined [of "q + a" m2 new] qn len2 a by auto
  have e3: "edits {q + a..<q + a + 4} m2 m3"
    by (rule edits_st32 [OF m3])
  have old2: "ld32 m2 (q + a) = Some old"
    using old a edits_ld32 [OF e2, of "q + a"] by auto
  have h2: "word_sum (seg q n m2) + unat c = word_sum (seg q n m) + unat c'"
    using qn by (intro seg_sum_st16 [OF m2 c]) auto
  have h3: "word_sum (seg q n m3) + (unat (lo16 old) + unat (hi16 old)) =
      word_sum (seg q n m2) + (unat (lo16 new) + unat (hi16 new))"
    using qn len2 a by (intro seg_sum_st32 [OF m3 old2]) auto
  have hdr: "word_sum (seg q n m3) mod 65535 = word_sum (seg q n m) mod 65535"
    by (rule mod_patch [OF _ recalc_csum32_mod [of c old new]]) (use h2 h3 in \<open>simp add: c'_def\<close>)
  have "q + 12 + (a - 12) = q + a"
    using a by auto
  then have "ld32 m2 (q + 12 + (a - 12)) = Some old" "st32 m2 (q + 12 + (a - 12)) new = Some m3"
    using old2 m3 by simp_all
  then have "word_sum (seg (q + 12) 8 m3) + (unat (lo16 old) + unat (hi16 old)) =
      word_sum (seg (q + 12) 8 m2) + (unat (lo16 new) + unat (hi16 new))"
    using qn len2 a by (intro seg_sum_st32) auto
  moreover have "seg (q + 12) 8 m2 = seg (q + 12) 8 m"
    using edits_seg [OF e2, of "q + 12" 8] qn by auto
  moreover have "edits ({q + 10, q + 11} \<union> {q + a..<q + a + 4}) m m3"
    by (rule edits_trans [OF edits_mono [OF e2] edits_mono [OF e3]]) auto
  ultimately show thesis
    using that m2 m3 hdr by (simp add: c'_def)
qed

lemma set_ipv4_addr_edit:
  assumes lay: "ip_layout q n r len b" and a: "a = 12 \<or> a = 16"
  obtains b' where "packet_set_ipv4_addr b (q + a) new = Some b'"
    and "ip_edit ({q + 10, q + 11} \<union> {q + a..<q + a + 4} \<union> csum_field r (csum_pos q r b)) q n r len b b'"
    and "ld32 (ob_mem b') (q + a) = Some new"
proof -
  define m where "m = ob_mem b"
  let ?G = "csum_field r (csum_pos q r b)" and ?H = "{q + 10, q + 11} \<union> {q + a..<q + a + 4}"
  have qn: "20 \<le> n" "q + n \<le> length m" "ob_l3 b = Some q"
    using lay by (auto simp: ip_layout_def m_def)
  obtain old where old: "ld32 m (q + a) = Some old"
    using qn a by (auto simp: ld32_def)
  obtain m1 where m1: "packet_set_ipv4_l4_csum b (m ! (q + 9)) old new = Some (b\<lparr>ob_mem := m1\<rparr>)"
      "edits ?G m m1" "csum_pos q r (b\<lparr>ob_mem := m1\<rparr>) = csum_pos q r b"
      "csum_pos q r b \<noteq> None \<Longrightarrow>
        (word_sum (seg r len m1) + (unat (lo16 new) + unat (hi16 new))) mod 65535 =
        (word_sum (seg r len m) + (unat (lo16 old) + unat (hi16 old))) mod 65535"
    using l4_csum_step [OF lay, of old new] unfolding m_def by metis
  have out: "i \<notin> ?G" if "i < q + n" for i
    using lay that by (auto simp: csum_field_def csum_pos_def ip_layout_def split: if_splits)
  then have seg1: "seg q n m1 = seg q n m" "seg (q + 12) 8 m1 = seg (q + 12) 8 m"
    using qn by (auto intro!: edits_seg [OF m1(2)])
  have len1: "length m1 = length m"
    by (rule edits_length [OF m1(2)])
  obtain c where c: "ld16 m1 (q + 10) = Some c"
    using qn len1 by (auto simp: ld16_def)
  have "ld32 m1 (q + a) = Some old" "q + n \<le> length m1"
    using old out qn a len1 edits_ld32 [OF m1(2), of "q + a"] by auto
  then obtain m2 m3 where m3: "st16 m1 (q + 10) (recalc_csum32 c old new) = Some m2"
      "st32 m2 (q + a) new = Some m3" "edits ?H m1 m3"
      "word_sum (seg q n m3) mod 65535 = word_sum (seg q n m1) mod 65535"
      "word_sum (seg (q + 12) 8 m3) + (unat (lo16 old) + unat (hi16 old)) =
       word_sum (seg (q + 12) 8 m1) + (unat (lo16 new) + unat (hi16 new))"
    using ip_patch32 [OF qn(1) _ a _ c] by metis
  have r3: "seg r len m3 = seg r len m1" if "csum_pos q r b \<noteq> None"
    using that lay a len1 qn
    by (intro edits_seg [OF m3(3)]) (auto simp: csum_pos_def ip_layout_def m_def split: if_splits)
  have l4: "l4_sum q r len m3 mod 65535 = l4_sum q r len m mod 65535" if pos: "csum_pos q r b \<noteq> None"
  proof -
    have "(l4_sum q r len m3 + (unat (lo16 old) + unat (hi16 old))) mod 65535 =
        (word_sum (seg (q + 12) 8 m) + (word_sum (seg r len m1) + (unat (lo16 new) + unat (hi16 new)))) mod 65535"
      by (rule arg_cong [of _ _ "\<lambda>x. x mod 65535"]) (use m3(5) seg1 r3 [OF pos] in \<open>simp add: l4_sum_def\<close>)
    also have "\<dots> = (word_sum (seg (q + 12) 8 m) + (word_sum (seg r len m) + (unat (lo16 old) + unat (hi16 old)))) mod 65535"
      by (rule mod_add_cong [OF refl m1(4) [OF pos]])
    also have "\<dots> = (l4_sum q r len m + (unat (lo16 old) + unat (hi16 old))) mod 65535"
      by (simp add: l4_sum_def add.assoc)
    finally show ?thesis by (rule mod_add_cancel_nat)
  qed
  have "m3 ! (q + 9) = m1 ! (q + 9)"
    using edits_nth [OF m3(3), of "q + 9"] qn a len1 by auto
  moreover have "ld16 m3 (r + 6) = ld16 m1 (r + 6)" if "ob_l7 b \<noteq> None"
    using that lay a by (intro edits_ld16 [OF m3(3)]) (auto simp: ip_layout_def)
  ultimately have "csum_pos q r (b\<lparr>ob_mem := m3\<rparr>) = csum_pos q r (b\<lparr>ob_mem := m1\<rparr>)"
    by (auto simp: csum_pos_def)
  then have pos: "csum_pos q r (b\<lparr>ob_mem := m3\<rparr>) = csum_pos q r b"
    using m1(3) by simp
  have e: "edits (?H \<union> ?G) m m3"
    by (rule edits_trans [OF edits_mono [OF m1(2)] edits_mono [OF m3(3)]]) auto
  have "packet_set_ipv4_addr b (q + a) new = Some (b\<lparr>ob_mem := m3\<rparr>)"
    using qn old m1(1) c m3(1,2)
    by (simp add: packet_set_ipv4_addr_def m_def store16_def store32_def ld8_def)
  moreover have "ip_edit (?H \<union> ?G) q n r len b (b\<lparr>ob_mem := m3\<rparr>)"
    using e m3(4) seg1 l4 pos by (simp add: ip_edit_def sums_kept_def same_but_mem_def m_def)
  ultimately show thesis
    using that ld32_st32_same [OF m3(2)] by simp
qed

text \<open>The type of service and the time to live: one byte of a 16-bit word of the header.\<close>

definition byte_word :: "nat \<Rightarrow> u8 \<Rightarrow> u16" where
  "byte_word i x = (if odd i then htons (ucast x) else htons (push_bit 8 (ucast x)))"

lemma unat_byte_word: "unat (byte_word i x) = (if odd i then 256 * unat x else unat x)"
proof -
  have "lo8 (ucast x :: u16) = x" "hi8 (ucast x :: u16) = 0" "lo8 (push_bit 8 (ucast x) :: u16) = 0"
      "hi8 (push_bit 8 (ucast x) :: u16) = x"
    by (rule bit_word_eqI; auto simp: bit_lo8 bit_hi8 bit_simps dest: bit_imp_le_length)+
  then show ?thesis
    by (simp add: byte_word_def htons_def unat_le16)
qed

lemma seg_sum_st8:
  assumes "st8 m (q + i) v = Some m'" and "ld8 m (q + i) = Some w" and "i + 2 \<le> n" and "q + n \<le> length m"
  shows "word_sum (seg q n m') + unat (byte_word i w) = word_sum (seg q n m) + unat (byte_word i v)"
proof -
  have s: "st8 (seg q n m) i v = Some (seg q n m')" and l: "ld8 (seg q n m) i = Some w"
    using assms by (auto simp: seg_st8 ld8_seg)
  show ?thesis
  proof (cases "even i")
    case True
    then show ?thesis
      using word_sum_st8_even [OF s l] assms(3,4) by (simp add: unat_byte_word)
  next
    case False
    then obtain k where k: "i = k + 1" "even k"
      by (metis even_add odd_one odd_pos Suc_eq_plus1 gr0_implies_Suc)
    then show ?thesis
      using word_sum_st8_odd [OF s [unfolded k(1)] l [unfolded k(1)] k(2)] by (simp add: unat_byte_word)
  qed
qed

lemma ip_byte_edit:
  assumes lay: "ip_layout q n r len b" and i: "i < 9" and old: "ld8 (ob_mem b) (q + i) = Some old"
  obtains c p b' where "ld16 (ob_mem b) (q + 10) = Some c"
    and "store16 b (q + 10) (recalc_csum16 c (byte_word i old) (byte_word i v)) = Some p"
    and "store8 p (q + i) v = Some b'"
    and "ip_edit {q + 10, q + 11, q + i} q n r len b b'" and "ld8 (ob_mem b') (q + i) = Some v"
proof -
  define m where "m = ob_mem b"
  have qn: "20 \<le> n" "q + n \<le> length m"
    using lay by (auto simp: ip_layout_def m_def)
  obtain c where c: "ld16 m (q + 10) = Some c"
    using qn by (auto simp: ld16_def)
  define c' where "c' = recalc_csum16 c (byte_word i old) (byte_word i v)"
  obtain m2 where m2: "st16 m (q + 10) c' = Some m2"
    using st16_defined [of "q + 10" m c'] qn by auto
  have e2: "edits {q + 10, q + 11} m m2" and len2: "length m2 = length m"
    using edits_mono [OF edits_st16 [OF m2], of "{q + 10, q + 11}"] length_st16 [OF m2] by auto
  obtain m3 where m3: "st8 m2 (q + i) v = Some m3"
    using st8_defined [of "q + i" m2 v] qn len2 i by auto
  have old2: "ld8 m2 (q + i) = Some old"
    using old i edits_ld8 [OF e2, of "q + i"] by (auto simp: m_def)
  have h2: "word_sum (seg q n m2) + unat c = word_sum (seg q n m) + unat c'"
    using qn by (intro seg_sum_st16 [OF m2 c]) auto
  have h3: "word_sum (seg q n m3) + unat (byte_word i old) = word_sum (seg q n m2) + unat (byte_word i v)"
    using qn len2 i by (intro seg_sum_st8 [OF m3 old2]) auto
  have hdr: "word_sum (seg q n m3) mod 65535 = word_sum (seg q n m) mod 65535"
    by (rule mod_patch [OF _ recalc_csum16_mod [of c "byte_word i old" "byte_word i v"]])
      (use h2 h3 in \<open>simp add: c'_def\<close>)
  have e: "edits {q + 10, q + 11, q + i} m m3"
    by (rule edits_trans [OF edits_mono [OF e2] edits_mono [OF edits_st8 [OF m3]]]) auto
  have "m3 ! (q + 9) = m ! (q + 9)"
    using edits_nth [OF e, of "q + 9"] qn i by auto
  moreover have "ld16 m3 (r + 6) = ld16 m (r + 6)" if "ob_l7 b \<noteq> None"
    using that lay i by (intro edits_ld16 [OF e]) (auto simp: ip_layout_def)
  ultimately have pos: "csum_pos q r (b\<lparr>ob_mem := m3\<rparr>) = csum_pos q r b"
    by (auto simp: csum_pos_def m_def)
  have "seg (q + 12) 8 m3 = seg (q + 12) 8 m"
    using qn i by (intro edits_seg [OF e]) auto
  moreover have "seg r len m3 = seg r len m" if "csum_pos q r b \<noteq> None"
    using that lay i qn
    by (intro edits_seg [OF e]) (auto simp: csum_pos_def ip_layout_def m_def split: if_splits)
  ultimately have "ip_edit {q + 10, q + 11, q + i} q n r len b (b\<lparr>ob_mem := m3\<rparr>)"
    using e hdr pos by (simp add: ip_edit_def sums_kept_def same_but_mem_def l4_sum_def m_def)
  then show thesis
    using that [of c "b\<lparr>ob_mem := m2\<rparr>" "b\<lparr>ob_mem := m3\<rparr>"] c m2 m3 ld8_st8_same [OF m3]
    by (simp add: store16_def store8_def m_def c'_def)
qed

lemma csum_pos_edit: "ip_edit F q n r len b b' \<Longrightarrow> csum_pos q r b' = csum_pos q r b"
  by (simp add: ip_edit_def sums_kept_def)

text \<open>One conditional field of \<open>packet_set_ipv4\<close> at a time: the field is stored unless it has its value.\<close>

lemma addr_opt_edit:
  assumes "ip_layout q n r len b" and "a = 12 \<or> a = 16"
  obtains x b' where "ld32 (ob_mem b) (q + a) = Some x"
    and "(if x \<noteq> new then packet_set_ipv4_addr b (q + a) new else Some b) = Some b'"
    and "ip_edit ({q + 10, q + 11} \<union> {q + a..<q + a + 4} \<union> csum_field r (csum_pos q r b)) q n r len b b'"
    and "ld32 (ob_mem b') (q + a) = Some new"
proof -
  obtain x where x: "ld32 (ob_mem b) (q + a) = Some x"
    using assms by (auto simp: ip_layout_def ld32_def)
  show thesis
  proof (cases "x = new")
    case True
    then show thesis using that [OF x, of b] x ip_edit_refl by simp
  next
    case False
    with set_ipv4_addr_edit [OF assms, of new] that [OF x] show thesis by auto
  qed
qed

lemma byte_opt_edit:
  assumes "ip_layout q n r len b" and "i < 9"
  obtains b' where "packet_set_ip_byte b q i (byte_word i) v = Some b'"
    and "ip_edit {q + 10, q + 11, q + i} q n r len b b'" and "ld8 (ob_mem b') (q + i) = Some v"
proof -
  obtain x where x: "ld8 (ob_mem b) (q + i) = Some x"
    using assms by (auto simp: ip_layout_def ld8_def)
  show thesis
  proof (cases "x = v")
    case True
    then show thesis using that [of b] x ip_edit_refl by (simp add: packet_set_ip_byte_def)
  next
    case False
    from ip_byte_edit [OF assms x, of v] obtain c p b' where "ld16 (ob_mem b) (q + 10) = Some c"
      "store16 b (q + 10) (recalc_csum16 c (byte_word i x) (byte_word i v)) = Some p"
      "store8 p (q + i) v = Some b'" "ip_edit {q + 10, q + 11, q + i} q n r len b b'"
      "ld8 (ob_mem b') (q + i) = Some v" by metis
    with False x show thesis by (intro that [of b']) (simp_all add: packet_set_ip_byte_def)
  qed
qed

lemma byte_word_cases:
  "byte_word 1 = (\<lambda>x. htons (ucast x))" "byte_word 8 = (\<lambda>x. htons (push_bit 8 (ucast x)))"
  by (simp_all add: byte_word_def fun_eq_iff)

lemma packet_set_ipv4_edit:
  assumes lay: "ip_layout q n r len b"
  obtains b' where "packet_set_ipv4 b src dst tos ttl = Some b'"
    and "ip_edit ({q + 1, q + 8} \<union> {q + 10..<q + 20} \<union> csum_field r (csum_pos q r b)) q n r len b b'"
    and "ld32 (ob_mem b') (q + 12) = Some src" and "ld32 (ob_mem b') (q + 16) = Some dst"
    and "ld8 (ob_mem b') (q + 1) = Some tos" and "ld8 (ob_mem b') (q + 8) = Some ttl"
proof -
  let ?G = "csum_field r (csum_pos q r b)"
  have out: "i \<notin> ?G" if "i < q + n" for i
    using lay that by (auto simp: csum_field_def csum_pos_def ip_layout_def split: if_splits)
  have n: "20 \<le> n" using lay by (simp add: ip_layout_def)
  obtain x1 b1 where 1: "ld32 (ob_mem b) (q + 12) = Some x1"
      "(if x1 \<noteq> src then packet_set_ipv4_addr b (q + 12) src else Some b) = Some b1"
      "ip_edit ({q + 10, q + 11} \<union> {q + 12..<q + 12 + 4} \<union> ?G) q n r len b b1"
      "ld32 (ob_mem b1) (q + 12) = Some src"
    using addr_opt_edit [OF lay, of 12 src] by auto
  have lay1: "ip_layout q n r len b1" and p1: "csum_pos q r b1 = csum_pos q r b"
    using ip_layout_edit [OF lay 1(3)] out [of "q + 9"] n csum_pos_edit [OF 1(3)] by auto
  obtain x2 b2 where 2: "ld32 (ob_mem b1) (q + 16) = Some x2"
      "(if x2 \<noteq> dst then packet_set_ipv4_addr b1 (q + 16) dst else Some b1) = Some b2"
      "ip_edit ({q + 10, q + 11} \<union> {q + 16..<q + 16 + 4} \<union> ?G) q n r len b1 b2"
      "ld32 (ob_mem b2) (q + 16) = Some dst"
    using addr_opt_edit [OF lay1, of 16 dst] p1 by auto
  have lay2: "ip_layout q n r len b2" and p2: "csum_pos q r b2 = csum_pos q r b"
    using ip_layout_edit [OF lay1 2(3)] out [of "q + 9"] n csum_pos_edit [OF 2(3)] p1 by auto
  obtain b3 where 3: "packet_set_ip_byte b2 q 1 (byte_word 1) tos = Some b3"
      "ip_edit {q + 10, q + 11, q + 1} q n r len b2 b3" "ld8 (ob_mem b3) (q + 1) = Some tos"
    using byte_opt_edit [OF lay2, of 1 tos] by auto
  have lay3: "ip_layout q n r len b3"
    using ip_layout_edit [OF lay2 3(2)] by auto
  obtain b4 where 4: "packet_set_ip_byte b3 q 8 (byte_word 8) ttl = Some b4"
      "ip_edit {q + 10, q + 11, q + 8} q n r len b3 b4" "ld8 (ob_mem b4) (q + 8) = Some ttl"
    using byte_opt_edit [OF lay3, of 8 ttl] by auto
  have "ob_l3 b = Some q" using lay by (simp add: ip_layout_def)
  then have "packet_set_ipv4 b src dst tos ttl = Some b4"
    by (simp only: packet_set_ipv4_def 1(1,2) 2(1,2) 3(1) [unfolded byte_word_cases]
        4(1) [unfolded byte_word_cases] Option.bind.simps)
  moreover have "ip_edit ({q + 1, q + 8} \<union> {q + 10..<q + 20} \<union> ?G) q n r len b b4"
    by (rule ip_edit_mono [OF ip_edit_trans [OF ip_edit_trans [OF ip_edit_trans [OF 1(3) 2(3)] 3(2)] 4(2)]]) auto
  moreover have e2: "edits ({q + 10, q + 11} \<union> {q + 16..<q + 16 + 4} \<union> ?G) (ob_mem b1) (ob_mem b2)"
      and e3: "edits {q + 10, q + 11, q + 1} (ob_mem b2) (ob_mem b3)"
      and e4: "edits {q + 10, q + 11, q + 8} (ob_mem b3) (ob_mem b4)"
    using 2(3) 3(2) 4(2) by (simp_all add: ip_edit_def)
  have "ld32 (ob_mem b4) (q + 12) = Some src" "ld32 (ob_mem b4) (q + 16) = Some dst"
    using 1(4) 2(4) edits_ld32 [OF e2, of "q + 12"] edits_ld32 [OF e3, of "q + 12"]
      edits_ld32 [OF e4, of "q + 12"] edits_ld32 [OF e3, of "q + 16"] edits_ld32 [OF e4, of "q + 16"]
      out n by auto
  moreover have "ld8 (ob_mem b4) (q + 1) = Some tos"
    using 3(3) edits_ld8 [OF e4, of "q + 1"] by auto
  ultimately show thesis
    using that 4(3) by blast
qed

section \<open>Valid checksums\<close>

text \<open>
  A transport checksum is valid when the checksum over the pseudo-header (addresses, protocol, length)
  and the segment is zero.
\<close>

definition transport_data :: "nat \<Rightarrow> nat \<Rightarrow> nat \<Rightarrow> bytes \<Rightarrow> bytes" where
  "transport_data q r len m = seg (q + 12) 8 m @ [0, m ! (q + 9)] @ be16_bytes (htons (word_of_nat len)) @ seg r len m"

lemma transport_sum:
  assumes "q + 20 \<le> length m"
  shows "word_sum (transport_data q r len m) =
    l4_sum q r len m + (256 * unat (m ! (q + 9)) + unat (htons (word_of_nat len :: u16)))"
  using assms
  by (simp add: transport_data_def word_sum_append l4_sum_def) (simp add: word_sum_def be16_bytes_def unat_le16)

lemma csum_zero_transfer:
  assumes "csum d = 0" and "length d \<le> 131074" and "length d' = length d"
    and "word_sum d' mod 65535 = word_sum d mod 65535" and "x \<in> set d'" and "x \<noteq> 0"
  shows "csum d' = 0"
  using assms word_sum_pos [OF assms(5,6)] by (simp add: csum_zero_iff)

lemma transport_valid_transfer:
  assumes "csum (transport_data q r len m) = 0" and "q + 20 \<le> length m" and "r + len \<le> length m"
    and "length m' = length m" and "len \<le> 65535" and "m' ! (q + 9) = m ! (q + 9)" and "m ! (q + 9) \<noteq> 0"
    and "l4_sum q r len m' mod 65535 = l4_sum q r len m mod 65535"
  shows "csum (transport_data q r len m') = 0"
proof (rule csum_zero_transfer [OF assms(1)])
  show "length (transport_data q r len m) \<le> 131074"
    and "length (transport_data q r len m') = length (transport_data q r len m)"
    using assms(2-5) by (simp_all add: transport_data_def)
  show "word_sum (transport_data q r len m') mod 65535 = word_sum (transport_data q r len m) mod 65535"
    using assms(2,4,6) mod_add_cong [OF assms(8) refl] by (simp add: transport_sum)
  show "m ! (q + 9) \<in> set (transport_data q r len m')"
    using assms(6) by (simp add: transport_data_def)
qed (rule assms(7))

section \<open>Ports\<close>

lemma set_port_edit:
  assumes "r + len \<le> length (ob_mem b)" and "i + 2 \<le> len" and "k + 2 \<le> len" and "even i" and "even k" and "i \<noteq> k"
  obtains b' where "packet_set_port b (r + i) p (r + k) = Some b'" and "same_but_mem b b'"
    and "edits {r + i, r + i + 1, r + k, r + k + 1} (ob_mem b) (ob_mem b')"
    and "ld16 (ob_mem b') (r + i) = Some p"
    and "word_sum (seg r len (ob_mem b')) mod 65535 = word_sum (seg r len (ob_mem b)) mod 65535"
proof -
  define m where "m = ob_mem b"
  have ik: "i + 2 \<le> k \<or> k + 2 \<le> i"
    using assms(4-6) by presburger
  obtain old c where old: "ld16 m (r + i) = Some old" and c: "ld16 m (r + k) = Some c"
    using assms(1-3) by (auto simp: ld16_def m_def)
  show thesis
  proof (cases "old = p")
    case True
    then show thesis
      using that [of b] old by (simp add: packet_set_port_def same_but_mem_def m_def)
  next
    case False
    obtain m2 where m2: "st16 m (r + k) (recalc_csum16 c old p) = Some m2"
      using st16_defined [of "r + k" m] assms(1,3) by (auto simp: m_def)
    have len2: "length m2 = length m"
      by (rule length_st16 [OF m2])
    obtain m3 where m3: "st16 m2 (r + i) p = Some m3"
      using st16_defined [of "r + i" m2] assms(1,2) len2 by (auto simp: m_def)
    have old2: "ld16 m2 (r + i) = Some old"
      using old ik ld16_st16_other [OF m2, of "r + i"] by auto
    have "word_sum (seg r len m2) + unat c = word_sum (seg r len m) + unat (recalc_csum16 c old p)"
      using assms(1) by (intro seg_sum_st16 [OF m2 c assms(5,3)]) (simp add: m_def)
    moreover have "word_sum (seg r len m3) + unat old = word_sum (seg r len m2) + unat p"
      using assms(1) len2 by (intro seg_sum_st16 [OF m3 old2 assms(4,2)]) (simp add: m_def)
    ultimately have "word_sum (seg r len m3) mod 65535 = word_sum (seg r len m) mod 65535"
      by (intro mod_patch [OF _ recalc_csum16_mod [of c old p]]) simp
    moreover have "edits {r + i, r + i + 1, r + k, r + k + 1} m m3"
      by (rule edits_trans [OF edits_mono [OF edits_st16 [OF m2]] edits_mono [OF edits_st16 [OF m3]]]) auto
    ultimately show thesis
      using that [of "b\<lparr>ob_mem := m3\<rparr>"] False old c m2 m3 ld16_st16_same [OF m3]
      by (simp add: packet_set_port_def store16_def same_but_mem_def m_def)
  qed
qed

section \<open>Properties\<close>

text \<open>C26: \<open>packet_set_ipv4\<close> succeeds on every packet whose IPv4 header, and whose transport header if the
  packet has one, lie inside the buffer; afterwards the addresses, the type of service and the time to live
  have the values asked for, and no byte changed other than these fields, the header checksum and the
  transport checksum.\<close>

theorem packet_set_ipv4_fields:
  assumes "ip_layout q n r len b"
  shows "\<exists>b'. packet_set_ipv4 b src dst tos ttl = Some b' \<and> same_but_mem b b' \<and>
    ld32 (ob_mem b') (q + 12) = Some src \<and> ld32 (ob_mem b') (q + 16) = Some dst \<and>
    ld8 (ob_mem b') (q + 1) = Some tos \<and> ld8 (ob_mem b') (q + 8) = Some ttl \<and>
    edits ({q + 1, q + 8} \<union> {q + 10..<q + 20} \<union> csum_field r (csum_pos q r b)) (ob_mem b) (ob_mem b')"
  by (rule packet_set_ipv4_edit [OF assms, of src dst tos ttl]) (auto simp: ip_edit_def)

text \<open>A UDP datagram without payload, with valid checksums.\<close>

definition sample_udp :: ofpbuf where
  "sample_udp = (ofpbuf_use_const [0x45, 0x0, 0x0, 0x1c, 0x0, 0x0, 0x0, 0x0, 0x40, 0x11, 0x66, 0xcf, 0xa, 0x0, 0x0, 0x1, 0xa, 0x0, 0x0, 0x2, 0x0, 0x1, 0x0, 0x2, 0x0, 0x8, 0xeb, 0xd8])
     \<lparr>ob_l3 := Some 0, ob_l4 := Some 20, ob_l7 := Some 28\<rparr>"

lemma sample_udp_layout: "ip_layout 0 20 20 8 sample_udp"
  by (simp add: ip_layout_def sample_udp_def ofpbuf_use_const_def ofpbuf_use_raw_def IPPROTO_TCP_def IPPROTO_UDP_def)

theorem packet_set_ipv4_fields_witness:
  "\<exists>b'. packet_set_ipv4 sample_udp 0x0100000b 0x0200000a 0x10 0x3f = Some b' \<and>
     ld32 (ob_mem b') 12 = Some 0x0100000b \<and> ld8 (ob_mem b') 8 = Some 0x3f"
  using packet_set_ipv4_fields [OF sample_udp_layout, of "0x0100000b" "0x0200000a" "0x10" "0x3f"] by auto

text \<open>C6: \<open>packet_set_ipv4\<close> keeps valid checksums valid: if the header checksum is valid before, it is valid
  after; and if the packet is TCP, or UDP with a checksum, whose checksum over the pseudo-header and the
  segment is valid before, it is valid after, for every choice of the new addresses, type of service and
  time to live.\<close>

theorem packet_set_ipv4_checksums:
  assumes lay: "ip_layout q n r len b" and "n \<le> 60" and "len \<le> 65535"
    and "packet_set_ipv4 b src dst tos ttl = Some b'"
    and hdr: "csum (seg q n (ob_mem b)) = 0" "ob_mem b ! q \<noteq> 0"
  shows "csum (seg q n (ob_mem b')) = 0 \<and>
    (csum_pos q r b \<noteq> None \<and> csum (transport_data q r len (ob_mem b)) = 0 \<longrightarrow>
       csum (transport_data q r len (ob_mem b')) = 0)"
proof -
  let ?F = "{q + 1, q + 8} \<union> {q + 10..<q + 20} \<union> csum_field r (csum_pos q r b)"
  have edit: "ip_edit ?F q n r len b b'"
    using packet_set_ipv4_edit [OF lay, of src dst tos ttl] assms(4) by (metis option.inject)
  then have e: "edits ?F (ob_mem b) (ob_mem b')"
    by (simp add: ip_edit_def)
  have len: "length (ob_mem b') = length (ob_mem b)"
    by (rule edits_length [OF e])
  have qn: "20 \<le> n" "q + n \<le> length (ob_mem b)"
    using lay by (simp_all add: ip_layout_def)
  have out: "i \<notin> csum_field r (csum_pos q r b)" if "i < q + n" for i
    using lay that by (auto simp: csum_field_def csum_pos_def ip_layout_def split: if_splits)
  have same: "ob_mem b' ! q = ob_mem b ! q" "ob_mem b' ! (q + 9) = ob_mem b ! (q + 9)"
    using edits_nth [OF e, of q] edits_nth [OF e, of "q + 9"] qn out by auto
  have "csum (seg q n (ob_mem b')) = 0"
  proof (rule csum_zero_transfer [OF hdr(1)])
    show "length (seg q n (ob_mem b)) \<le> 131074" "length (seg q n (ob_mem b')) = length (seg q n (ob_mem b))"
      using qn len assms(2) by simp_all
    show "word_sum (seg q n (ob_mem b')) mod 65535 = word_sum (seg q n (ob_mem b)) mod 65535"
      using edit by (simp add: ip_edit_def sums_kept_def)
    show "ob_mem b' ! q \<in> set (seg q n (ob_mem b'))"
      using qn len nth_mem [of 0 "seg q n (ob_mem b')"] by (simp add: nth_seg)
  qed (simp add: same hdr(2))
  moreover have "csum (transport_data q r len (ob_mem b')) = 0"
    if "csum_pos q r b \<noteq> None" "csum (transport_data q r len (ob_mem b)) = 0"
  proof -
    have "ob_l7 b \<noteq> None" "ob_mem b ! (q + 9) = IPPROTO_TCP \<or> ob_mem b ! (q + 9) = IPPROTO_UDP"
      using that(1) by (auto simp: csum_pos_def split: if_splits)
    then have "r + len \<le> length (ob_mem b)" "ob_mem b ! (q + 9) \<noteq> 0"
      using lay by (auto simp: ip_layout_def IPPROTO_TCP_def IPPROTO_UDP_def)
    moreover have "l4_sum q r len (ob_mem b') mod 65535 = l4_sum q r len (ob_mem b) mod 65535"
      using edit that(1) by (simp add: ip_edit_def sums_kept_def)
    moreover have "q + 20 \<le> length (ob_mem b)"
      using qn by simp
    ultimately show ?thesis
      using transport_valid_transfer [OF that(2)] len assms(3) same(2) by blast
  qed
  ultimately show ?thesis by blast
qed

theorem packet_set_ipv4_checksums_witness:
  "\<exists>b'. packet_set_ipv4 sample_udp 0x0100000b 0x0200000a 0x10 0x3f = Some b' \<and>
     csum (seg 0 20 (ob_mem b')) = 0 \<and> csum (transport_data 0 20 8 (ob_mem b')) = 0"
proof -
  obtain b' where b': "packet_set_ipv4 sample_udp 0x0100000b 0x0200000a 0x10 0x3f = Some b'"
    using packet_set_ipv4_edit [OF sample_udp_layout] by metis
  have m: "ob_mem sample_udp = [0x45, 0x0, 0x0, 0x1c, 0x0, 0x0, 0x0, 0x0, 0x40, 0x11, 0x66, 0xcf, 0xa, 0x0, 0x0, 0x1, 0xa, 0x0, 0x0, 0x2, 0x0, 0x1, 0x0, 0x2, 0x0, 0x8, 0xeb, 0xd8]"
    by (simp add: sample_udp_def ofpbuf_use_const_def ofpbuf_use_raw_def)
  have "csum (seg 0 20 (ob_mem sample_udp)) = 0"
    by (simp add: m csum_zero_iff word_sum_def unat_le16 seg_def)
  moreover have "ob_mem sample_udp ! 0 \<noteq> 0"
    by (simp add: m)
  moreover have "csum (transport_data 0 20 8 (ob_mem sample_udp)) = 0"
  proof -
    have "be16_bytes (htons (word_of_nat 8)) = [0, 8]"
      by (simp add: be16_bytes_htons hi8_def lo8_def)
    then show ?thesis
      by (simp add: m csum_zero_iff transport_data_def word_sum_def unat_le16 seg_def)
  qed
  moreover have "csum_pos 0 20 sample_udp \<noteq> None"
  proof -
    have "ob_l7 sample_udp = Some 28"
      by (simp add: sample_udp_def)
    moreover have "unat (le16 (ob_mem sample_udp ! 26) (ob_mem sample_udp ! 27)) \<noteq> 0"
      by (simp add: m unat_le16)
    ultimately show ?thesis
      by (auto simp: csum_pos_def m ld16_def IPPROTO_TCP_def IPPROTO_UDP_def)
  qed
  ultimately show ?thesis
    using packet_set_ipv4_checksums [OF sample_udp_layout _ _ b'] b' by auto
qed

text \<open>Setting the ports of a TCP segment succeeds, stores both ports, changes no byte but the ports and the
  checksum, and keeps the sum the TCP checksum is computed from (modulo 65535), so that a valid checksum
  over any pseudo-header stays valid.\<close>

theorem packet_set_tcp_port_ok:
  assumes "ob_l4 b = Some r" and "r + len \<le> length (ob_mem b)" and "18 \<le> len"
  shows "\<exists>b'. packet_set_tcp_port b src dst = Some b' \<and> same_but_mem b b' \<and>
    ld16 (ob_mem b') r = Some src \<and> ld16 (ob_mem b') (r + 2) = Some dst \<and>
    edits ({r..<r + 4} \<union> {r + 16, r + 17}) (ob_mem b) (ob_mem b') \<and>
    word_sum (seg r len (ob_mem b')) mod 65535 = word_sum (seg r len (ob_mem b)) mod 65535"
proof -
  obtain b1 where b1: "packet_set_port b (r + 0) src (r + 16) = Some b1" "same_but_mem b b1"
      "edits {r + 0, r + 0 + 1, r + 16, r + 16 + 1} (ob_mem b) (ob_mem b1)" "ld16 (ob_mem b1) (r + 0) = Some src"
      "word_sum (seg r len (ob_mem b1)) mod 65535 = word_sum (seg r len (ob_mem b)) mod 65535"
    using set_port_edit [OF assms(2), of 0 16 src] assms(3) by auto
  have len1: "r + len \<le> length (ob_mem b1)"
    using assms(2) edits_length [OF b1(3)] by simp
  obtain b2 where b2: "packet_set_port b1 (r + 2) dst (r + 16) = Some b2" "same_but_mem b1 b2"
      "edits {r + 2, r + 2 + 1, r + 16, r + 16 + 1} (ob_mem b1) (ob_mem b2)" "ld16 (ob_mem b2) (r + 2) = Some dst"
      "word_sum (seg r len (ob_mem b2)) mod 65535 = word_sum (seg r len (ob_mem b1)) mod 65535"
    using set_port_edit [OF len1, of 2 16 dst] assms(3) by auto
  have "edits ({r..<r + 4} \<union> {r + 16, r + 17}) (ob_mem b) (ob_mem b2)"
    by (rule edits_trans [OF edits_mono [OF b1(3)] edits_mono [OF b2(3)]]) auto
  moreover have "ld16 (ob_mem b2) r = Some src"
    using b1(4) edits_ld16 [OF b2(3), of r] by auto
  moreover have "packet_set_tcp_port b src dst = Some b2"
    using assms(1) b1(1) b2(1) by (simp add: packet_set_tcp_port_def)
  ultimately show ?thesis
    using b1(2,5) b2(2,4,5) by (intro exI [of _ b2]) (simp add: same_but_mem_def)
qed

theorem packet_set_tcp_port_ok_witness:
  "\<exists>b'. packet_set_tcp_port ((ofpbuf_use_const (zeros 20))\<lparr>ob_l4 := Some 0\<rparr>) 0x5000 0x3500 = Some b' \<and>
     ld16 (ob_mem b') 0 = Some 0x5000 \<and> ld16 (ob_mem b') 2 = Some 0x3500"
  using packet_set_tcp_port_ok [of "(ofpbuf_use_const (zeros 20))\<lparr>ob_l4 := Some 0\<rparr>" 0 20 "0x5000" "0x3500"]
  by (auto simp: ofpbuf_use_const_def ofpbuf_use_raw_def numeral_2_eq_2)

text \<open>Setting the ports of a UDP datagram stores both ports. A datagram without a checksum (zero in the field)
  still has none afterwards; one with a checksum keeps the sum the checksum is computed from (modulo 65535) and
  never ends up with a zero in the field, which would mean that there is no checksum.\<close>

theorem packet_set_udp_port_ok:
  assumes "ob_l4 b = Some r" and "r + len \<le> length (ob_mem b)" and "8 \<le> len"
  shows "\<exists>b' c c'. packet_set_udp_port b src dst = Some b' \<and>
    ld16 (ob_mem b') r = Some src \<and> ld16 (ob_mem b') (r + 2) = Some dst \<and>
    ld16 (ob_mem b) (r + 6) = Some c \<and> ld16 (ob_mem b') (r + 6) = Some c' \<and> (c' = 0 \<longleftrightarrow> c = 0) \<and>
    (c \<noteq> 0 \<longrightarrow> word_sum (seg r len (ob_mem b')) mod 65535 = word_sum (seg r len (ob_mem b)) mod 65535)"
proof -
  obtain c where c: "ld16 (ob_mem b) (r + 6) = Some c"
    using assms(2,3) by (auto simp: ld16_def)
  show ?thesis
  proof (cases "c = 0")
    case True
    obtain m1 where m1: "st16 (ob_mem b) r src = Some m1"
      using st16_defined [of r "ob_mem b" src] assms(2,3) by auto
    obtain m2 where m2: "st16 m1 (r + 2) dst = Some m2"
      using st16_defined [of "r + 2" m1 dst] assms(2,3) length_st16 [OF m1] by auto
    have "packet_set_udp_port b src dst = Some (b\<lparr>ob_mem := m2\<rparr>)"
      using assms(1) c m1 m2 True by (simp add: packet_set_udp_port_def store16_def)
    then show ?thesis
      using True c ld16_st16_same [OF m1] ld16_st16_same [OF m2] ld16_st16_other [OF m2, of r]
        ld16_st16_other [OF m1, of "r + 6"] ld16_st16_other [OF m2, of "r + 6"] by auto
  next
    case False
    obtain b1 where b1: "packet_set_port b (r + 0) src (r + 6) = Some b1"
        "edits {r + 0, r + 0 + 1, r + 6, r + 6 + 1} (ob_mem b) (ob_mem b1)" "ld16 (ob_mem b1) (r + 0) = Some src"
        "word_sum (seg r len (ob_mem b1)) mod 65535 = word_sum (seg r len (ob_mem b)) mod 65535"
      using set_port_edit [OF assms(2), of 0 6 src] assms(3) by auto
    have len1: "r + len \<le> length (ob_mem b1)"
      using assms(2) edits_length [OF b1(2)] by simp
    obtain b2 where b2: "packet_set_port b1 (r + 2) dst (r + 6) = Some b2"
        "edits {r + 2, r + 2 + 1, r + 6, r + 6 + 1} (ob_mem b1) (ob_mem b2)" "ld16 (ob_mem b2) (r + 2) = Some dst"
        "word_sum (seg r len (ob_mem b2)) mod 65535 = word_sum (seg r len (ob_mem b1)) mod 65535"
      using set_port_edit [OF len1, of 2 6 dst] assms(3) by auto
    have len2: "r + len \<le> length (ob_mem b2)"
      using len1 edits_length [OF b2(2)] by simp
    have src2: "ld16 (ob_mem b2) r = Some src"
      using b1(3) edits_ld16 [OF b2(2), of r] by auto
    obtain c2 where c2: "ld16 (ob_mem b2) (r + 6) = Some c2"
      using len2 assms(3) by (auto simp: ld16_def)
    obtain m3 where m3: "st16 (ob_mem b2) (r + 6) (udp_nonzero c2) = Some m3"
      using st16_defined [of "r + 6" "ob_mem b2" "udp_nonzero c2"] len2 assms(3) by auto
    have "word_sum (seg r len m3) + unat c2 = word_sum (seg r len (ob_mem b2)) + unat (udp_nonzero c2)"
      using assms(3) by (intro seg_sum_st16 [OF m3 c2 _ _ len2]) auto
    then have s3: "word_sum (seg r len m3) mod 65535 = word_sum (seg r len (ob_mem b2)) mod 65535"
      by (rule mod_patch) (rule udp_nonzero_mod)
    have "packet_set_udp_port b src dst = Some (if c2 = 0 then b2\<lparr>ob_mem := m3\<rparr> else b2)"
      using assms(1) c False b1(1) b2(1) c2 m3
      by (cases "c2 = 0") (simp_all add: packet_set_udp_port_def store16_def udp_nonzero_def)
    then show ?thesis
      using False c c2 src2 b2(3) b1(4) b2(4) s3 ld16_st16_other [OF m3, of r] ld16_st16_other [OF m3, of "r + 2"]
        ld16_st16_same [OF m3] udp_nonzero_nz [of c2]
      by (cases "c2 = 0") auto
  qed
qed

theorem packet_set_udp_port_ok_witness:
  "\<exists>b'. packet_set_udp_port sample_udp 0x5000 0x3500 = Some b' \<and>
     ld16 (ob_mem b') 20 = Some 0x5000 \<and> ld16 (ob_mem b') 22 = Some 0x3500"
  using packet_set_udp_port_ok [of sample_udp 20 8 "0x5000" "0x3500"]
  by (auto simp: sample_udp_def ofpbuf_use_const_def ofpbuf_use_raw_def)

text \<open>\<open>packet_set_ipv6_addr\<close> stores only the first 32 bits of the new IPv6 address: the other twelve bytes of
  the address field keep their old value, whatever the new address is.\<close>

theorem packet_set_ipv6_addr_first_word:
  assumes "packet_set_ipv6_addr b proto a new False = Some b'"
  shows "ld32 (ob_mem b') a = Some (new ! 0) \<and>
    ldn (ob_mem b') (a + 4) 12 = ldn (ob_mem b) (a + 4) 12"
proof -
  obtain m where m: "st32 (ob_mem b) a (new ! 0) = Some m" "b' = b\<lparr>ob_mem := m\<rparr>"
    using assms by (auto simp: packet_set_ipv6_addr_def store32_def)
  have "seg (a + 4) 12 m = seg (a + 4) 12 (ob_mem b)"
    using m(1) unfolding st32_def by (rule seg_stn_outside) auto
  then show ?thesis
    using m ld32_st32_same [OF m(1)] length_st32 [OF m(1)] by (simp add: ldn_def seg_def)
qed

theorem packet_set_ipv6_addr_first_word_witness:
  "\<exists>b'. packet_set_ipv6_addr (ofpbuf_use_const (zeros 16)) 17 0 [1, 2, 3, 4] False = Some b' \<and>
     ld32 (ob_mem b') 0 = Some 1 \<and> ldn (ob_mem b') 4 12 = Some (zeros 12)"
proof -
  obtain b' where b': "packet_set_ipv6_addr (ofpbuf_use_const (zeros 16)) 17 0 [1, 2, 3, 4] False = Some b'"
    using st32_defined [of 0 "zeros 16" 1]
    by (auto simp: packet_set_ipv6_addr_def store32_def ofpbuf_use_const_def ofpbuf_use_raw_def)
  have "ldn (ob_mem (ofpbuf_use_const (zeros 16))) 4 12 = Some (zeros 12)"
    by (simp add: ldn_def ofpbuf_use_const_def ofpbuf_use_raw_def zeros_def)
  then show ?thesis
    using packet_set_ipv6_addr_first_word [OF b'] b' by auto
qed

end
