(* ===== verification/Action.thy ===== *)
theory Action
  imports VportIO FlowKey PacketSet
begin

text \<open>
  The actions of a flow, \<open>datapath/dpdk/action.c\<close> and \<open>ofpbuf_helper.c\<close>. An action that edits a packet lays an
  \<open>ofpbuf\<close> over the buffer of the mbuf, calls the function of \<open>lib/packets.c\<close>, and takes the place and the length of
  the packet from the \<open>ofpbuf\<close> again. An access outside of the buffer, and a tag for which the headroom is too short,
  is undefined (\<open>None\<close>). The actions and the packet are never null.
\<close>

section \<open>Overlay\<close>

definition vlan_tagged :: "bytes \<Rightarrow> nat \<Rightarrow> bool option" where
  "vlan_tagged mem off = do { typ \<leftarrow> ld16 mem (off + 12); Some (ntohs typ = ETHER_TYPE_VLAN) }"

definition tcp_pkt :: "bytes \<Rightarrow> nat \<Rightarrow> bool option" where
  "tcp_pkt mem hdr = do { proto \<leftarrow> ld8 mem (hdr + 9); Some (proto = FlowKey.IPPROTO_TCP) }"

definition overlay_ofpbuf :: "'w dp \<Rightarrow> nat \<Rightarrow> ofpbuf option" where
  "overlay_ofpbuf s m = do {
     let mb = d_mbuf s m;
     let mem = d_buf s (mb_buf mb);
     let buf = (ofpbuf_use_const mem)\<lparr>ob_data := mb_off mb, ob_size := unat (mb_pkt_len mb), ob_l2 := Some (mb_off mb)\<rparr>;
     tagged \<leftarrow> vlan_tagged mem (mb_off mb);
     let l3 = mb_off mb + (if tagged then 18 else 14);
     let l4 = l3 + 20;
     tcp \<leftarrow> tcp_pkt mem l4;
     Some (buf\<lparr>ob_l3 := Some l3, ob_l4 := Some l4, ob_l7 := Some (l4 + (if tcp then 20 else 8))\<rparr>) }"

definition update_mbuf :: "ofpbuf \<Rightarrow> nat \<Rightarrow> 'w dp \<Rightarrow> 'w dp" where
  "update_mbuf ovs_pkt m s =
     s\<lparr>d_buf := (d_buf s)(mb_buf (d_mbuf s m) := ob_mem ovs_pkt),
       d_mbuf := (d_mbuf s)(m := (d_mbuf s m)\<lparr>mb_off := ob_data ovs_pkt, mb_data_len := of_nat (ob_size ovs_pkt),
         mb_pkt_len := of_nat (ob_size ovs_pkt)\<rparr>)\<rparr>"

definition edit_packet :: "(ofpbuf \<Rightarrow> ofpbuf option) \<Rightarrow> nat \<Rightarrow> 'w dp \<Rightarrow> 'w dp option" where
  "edit_packet f m s = do { ovs_pkt \<leftarrow> overlay_ofpbuf s m; ovs_pkt \<leftarrow> f ovs_pkt; Some (update_mbuf ovs_pkt m s) }"

section \<open>Actions\<close>

definition action_output :: "'w env \<Rightarrow> u32 \<Rightarrow> nat \<Rightarrow> 'w dp \<Rightarrow> 'w dp option" where
  "action_output E port m s = map_option snd (send_to_vport E (unat port) m s)"

definition action_drop :: "'w env \<Rightarrow> nat \<Rightarrow> 'w dp \<Rightarrow> 'w dp" where
  "action_drop E m s = upd_stats (stats_vswitch_rx_drop_increment (e_lcore E) 1) (mbuf_free E m s)"

definition action_pop_vlan :: "nat \<Rightarrow> 'w dp \<Rightarrow> 'w dp option" where
  "action_pop_vlan = edit_packet eth_pop_vlan"

text \<open>The overlay never grows, so that the bytes of fresh memory do not matter.\<close>

definition action_push_vlan :: "u16 \<Rightarrow> nat \<Rightarrow> 'w dp \<Rightarrow> 'w dp option" where
  "action_push_vlan tci = edit_packet (\<lambda>p. eth_push_vlan (\<lambda>_. 0) p tci)"

definition action_set_ethernet :: "bytes \<Rightarrow> bytes \<Rightarrow> nat \<Rightarrow> 'w dp \<Rightarrow> 'w dp option" where
  "action_set_ethernet eth_src eth_dst m s = do {
     let mb = d_mbuf s m;
     mem \<leftarrow> stn (d_buf s (mb_buf mb)) (mb_off mb) (take 6 eth_dst);
     mem \<leftarrow> stn mem (mb_off mb + 6) (take 6 eth_src);
     Some (s\<lparr>d_buf := (d_buf s)(mb_buf mb := mem)\<rparr>) }"

definition action_set_ipv4 :: "u32 \<Rightarrow> u32 \<Rightarrow> u8 \<Rightarrow> u8 \<Rightarrow> nat \<Rightarrow> 'w dp \<Rightarrow> 'w dp option" where
  "action_set_ipv4 src dst tos ttl = edit_packet (\<lambda>p. packet_set_ipv4 p src dst tos ttl)"

definition action_set_tcp :: "u16 \<Rightarrow> u16 \<Rightarrow> nat \<Rightarrow> 'w dp \<Rightarrow> 'w dp option" where
  "action_set_tcp src dst = edit_packet (\<lambda>p. packet_set_tcp_port p src dst)"

definition action_set_udp :: "u16 \<Rightarrow> u16 \<Rightarrow> nat \<Rightarrow> 'w dp \<Rightarrow> 'w dp option" where
  "action_set_udp src dst = edit_packet (\<lambda>p. packet_set_udp_port p src dst)"

text \<open>The loop that counts outputs, up to the second one.\<close>

fun more_outputs :: "action list \<Rightarrow> nat \<Rightarrow> bool" where
  "more_outputs [] n = False"
| "more_outputs (ACTION_NULL # _) n = False"
| "more_outputs (ACTION_OUTPUT _ # as) n = (if n + 1 > 1 then True else more_outputs as (n + 1))"
| "more_outputs (_ # as) n = more_outputs as n"

definition check_for_multiple_output :: "action list \<Rightarrow> bool" where
  "check_for_multiple_output actions = more_outputs (take MAX_ACTIONS actions) 0"

definition output_clone :: "'w env \<Rightarrow> u32 \<Rightarrow> nat \<Rightarrow> 'w dp \<Rightarrow> 'w dp option" where
  "output_clone E port m s = (case mbuf_clone E m s of (Some mb, s) \<Rightarrow> action_output E port mb s | (None, s) \<Rightarrow> Some s)"

fun run_actions :: "'w env \<Rightarrow> bool \<Rightarrow> action list \<Rightarrow> nat \<Rightarrow> 'w dp \<Rightarrow> 'w dp option" where
  "run_actions E multiple [] m s = Some s"
| "run_actions E multiple (a # as) m s = (case a of
     ACTION_NULL \<Rightarrow> Some s
   | ACTION_OUTPUT port \<Rightarrow> do { s \<leftarrow> (if multiple then output_clone E port m s else action_output E port m s); run_actions E multiple as m s }
   | ACTION_POP_VLAN \<Rightarrow> do { s \<leftarrow> action_pop_vlan m s; run_actions E multiple as m s }
   | ACTION_PUSH_VLAN tpid tci \<Rightarrow> do { s \<leftarrow> action_push_vlan tci m s; run_actions E multiple as m s }
   | ACTION_SET_ETHERNET src dst \<Rightarrow> do { s \<leftarrow> action_set_ethernet src dst m s; run_actions E multiple as m s }
   | ACTION_SET_IPV4 src dst proto tos ttl frag \<Rightarrow> do { s \<leftarrow> action_set_ipv4 src dst tos ttl m s; run_actions E multiple as m s }
   | ACTION_SET_TCP src dst \<Rightarrow> do { s \<leftarrow> action_set_tcp src dst m s; run_actions E multiple as m s }
   | ACTION_SET_UDP src dst \<Rightarrow> do { s \<leftarrow> action_set_udp src dst m s; run_actions E multiple as m s }
   | ACTION_MAX \<Rightarrow> run_actions E multiple as m s)"

definition action_execute :: "'w env \<Rightarrow> action list \<Rightarrow> nat \<Rightarrow> 'w dp \<Rightarrow> 'w dp option" where
  "action_execute E actions m s = (case actions of
     [] \<Rightarrow> None
   | first # _ \<Rightarrow>
       if first = ACTION_NULL then Some (action_drop E m s)
       else let multiple_outputs = check_for_multiple_output actions in do {
         s \<leftarrow> run_actions E multiple_outputs (take MAX_ACTIONS actions) m s;
         Some (if multiple_outputs then mbuf_free E m s else s) })"

section \<open>Edits stay within the buffer\<close>

text \<open>An edit in place: only bytes of the memory change.\<close>

definition inplace :: "ofpbuf \<Rightarrow> ofpbuf option \<Rightarrow> bool" where
  "inplace b r \<longleftrightarrow> (\<exists>m. r = Some (b\<lparr>ob_mem := m\<rparr>) \<and> length m = length (ob_mem b))"

lemma inplace_refl: "inplace b (Some b)"
  by (auto simp: inplace_def intro: exI [of _ "ob_mem b"])

lemma inplace_bind:
  assumes "inplace b r" "\<And>m. length m = length (ob_mem b) \<Longrightarrow> inplace (b\<lparr>ob_mem := m\<rparr>) (f (b\<lparr>ob_mem := m\<rparr>))"
  shows "inplace b (r \<bind> f)"
  using assms by (fastforce simp: inplace_def)

lemma inplace_stn: "off + length bs \<le> length (ob_mem b) \<Longrightarrow> inplace b (map_option (\<lambda>m. b\<lparr>ob_mem := m\<rparr>) (stn (ob_mem b) off bs))"
  unfolding inplace_def stn_def
  by (intro exI [of _ "take off (ob_mem b) @ bs @ drop (off + length bs) (ob_mem b)"]) simp

lemma inplace_store:
  "off + 1 \<le> length (ob_mem b) \<Longrightarrow> inplace b (store8 b off v)"
  "off + 2 \<le> length (ob_mem b) \<Longrightarrow> inplace b (store16 b off w)"
  "off + 4 \<le> length (ob_mem b) \<Longrightarrow> inplace b (store32 b off x)"
  unfolding store8_def store16_def store32_def st8_def st16_def st32_def by (rule inplace_stn; simp)+

text \<open>Loads that are in the memory drop out of a sequence of steps.\<close>

lemma inplace_load:
  "i + 1 \<le> length m \<Longrightarrow> (\<And>v. inplace b (f8 v)) \<Longrightarrow> inplace b (ld8 m i \<bind> f8)"
  "i + 2 \<le> length m \<Longrightarrow> (\<And>v. inplace b (f16 v)) \<Longrightarrow> inplace b (ld16 m i \<bind> f16)"
  "i + 4 \<le> length m \<Longrightarrow> (\<And>v. inplace b (f32 v)) \<Longrightarrow> inplace b (ld32 m i \<bind> f32)"
  by (simp_all add: ld8_def ld16_def ld32_def)

lemma inplace_if: "(c \<Longrightarrow> inplace b x) \<Longrightarrow> (\<not> c \<Longrightarrow> inplace b y) \<Longrightarrow> inplace b (if c then x else y)"
  by simp

lemmas inplace_rules = inplace_bind inplace_load inplace_if inplace_store inplace_refl

lemma packet_set_port_inplace:
  assumes "port + 2 \<le> length (ob_mem b)" "c + 2 \<le> length (ob_mem b)"
  shows "inplace b (packet_set_port b port v c)"
  unfolding packet_set_port_def using assms by (intro inplace_rules) simp_all

lemma packet_set_tcp_port_inplace:
  assumes "ob_l4 b = Some th" "th + 18 \<le> length (ob_mem b)"
  shows "inplace b (packet_set_tcp_port b src dst)"
  unfolding packet_set_tcp_port_def using assms
  by (simp, intro inplace_bind packet_set_port_inplace) simp_all

lemma packet_set_udp_port_inplace:
  assumes "ob_l4 b = Some uh" "uh + 8 \<le> length (ob_mem b)"
  shows "inplace b (packet_set_udp_port b src dst)"
  unfolding packet_set_udp_port_def using assms
  by (simp, intro inplace_rules packet_set_port_inplace) simp_all

lemma packet_set_ipv4_l4_csum_inplace:
  assumes "ob_l4 b = Some th" "th + 18 \<le> length (ob_mem b)"
  shows "inplace b (packet_set_ipv4_l4_csum b proto x y)"
  unfolding packet_set_ipv4_l4_csum_def using assms by (simp, intro conjI impI inplace_rules) simp_all

lemma packet_set_ipv4_addr_inplace:
  assumes "ob_l3 b = Some nh" "nh + 20 \<le> length (ob_mem b)" "addr + 4 \<le> length (ob_mem b)"
    "ob_l4 b = Some th" "th + 18 \<le> length (ob_mem b)"
  shows "inplace b (packet_set_ipv4_addr b addr v)"
  unfolding packet_set_ipv4_addr_def using assms
  by (simp, intro inplace_rules packet_set_ipv4_l4_csum_inplace) simp_all

lemma packet_set_ip_byte_inplace:
  assumes "nh + 12 \<le> length (ob_mem b)" "i < 12"
  shows "inplace b (packet_set_ip_byte b nh i w v)"
  unfolding packet_set_ip_byte_def using assms by (intro inplace_rules) simp_all

lemma packet_set_ipv4_inplace:
  assumes "ob_l3 b = Some nh" "nh + 20 \<le> length (ob_mem b)" "ob_l4 b = Some th" "th + 18 \<le> length (ob_mem b)"
  shows "inplace b (packet_set_ipv4 b src dst tos ttl)"
  unfolding packet_set_ipv4_def using assms
  by (simp, intro inplace_bind inplace_load inplace_if inplace_refl packet_set_ipv4_addr_inplace packet_set_ip_byte_inplace) simp_all

section \<open>Room for the edits of an action list\<close>

text \<open>
  64 bytes from the start of the packet are enough for every header an action touches. A tag that is pushed takes 4
  bytes of the headroom; one that is popped moves the start of the packet 4 bytes on.
\<close>

definition room :: "nat \<Rightarrow> nat \<Rightarrow> 'w dp \<Rightarrow> nat \<Rightarrow> bool" where
  "room pops pushes s m \<longleftrightarrow> 4 * pushes \<le> mb_off (d_mbuf s m) \<and> mb_off (d_mbuf s m) + 64 + 4 * pops \<le> length (d_buf s (mb_buf (d_mbuf s m)))"

fun pops :: "action list \<Rightarrow> nat" where
  "pops [] = 0"
| "pops (a # as) = (case a of ACTION_POP_VLAN \<Rightarrow> 1 | _ \<Rightarrow> 0) + pops as"

fun pushes :: "action list \<Rightarrow> nat" where
  "pushes [] = 0"
| "pushes (a # as) = (case a of ACTION_PUSH_VLAN _ _ \<Rightarrow> 1 | _ \<Rightarrow> 0) + pushes as"

text \<open>What an edit may change: the header of the packet and bytes of buffers. The packets stay in their buffers.\<close>

definition edited :: "nat \<Rightarrow> 'w dp \<Rightarrow> 'w dp \<Rightarrow> bool" where
  "edited m s s' \<longleftrightarrow> (\<exists>b h. s' = s\<lparr>d_buf := b, d_mbuf := h\<rparr>) \<and> (\<forall>x. x \<noteq> m \<longrightarrow> d_mbuf s' x = d_mbuf s x) \<and>
     (\<forall>k. length (d_buf s' k) = length (d_buf s k)) \<and> (mbufs_ok s \<longrightarrow> mbufs_ok s')"

lemma edited_same:
  assumes "edited m s s'"
  shows "owned holds n s' = owned holds n s" "io_ok E s \<Longrightarrow> io_ok E s'"
  using assms guests_ready_cong [of s' s] by (auto simp: edited_def owned_def io_ok_def caches_ok_def)

lemma overlay_room:
  assumes "room p q s m"
  obtains b l3 where "overlay_ofpbuf s m = Some b" "ob_mem b = d_buf s (mb_buf (d_mbuf s m))" "ob_data b = mb_off (d_mbuf s m)"
    "ob_l2 b = Some (ob_data b)" "ob_l3 b = Some l3" "ob_l4 b = Some (l3 + 20)" "l3 \<le> ob_data b + 18" "ob_source b = OFPBUF_STACK"
    "ob_size b = unat (mb_pkt_len (d_mbuf s m))" "ob_data b + 64 + 4 * p \<le> length (ob_mem b)" "4 * q \<le> ob_data b"
proof -
  let ?mem = "d_buf s (mb_buf (d_mbuf s m))" and ?off = "mb_off (d_mbuf s m)"
  obtain t where t: "vlan_tagged ?mem ?off = Some t" using assms by (simp add: vlan_tagged_def ld16_def room_def)
  let ?l3 = "?off + (if t then 18 else 14)"
  obtain c where c: "tcp_pkt ?mem (?l3 + 20) = Some c" using assms by (cases t) (simp_all add: tcp_pkt_def ld8_def room_def)
  show thesis
    by (rule that [of _ ?l3]) (use assms t c in \<open>auto simp: overlay_ofpbuf_def Let_def ofpbuf_use_const_def ofpbuf_use_raw_def room_def\<close>)
qed

lemma unat_of_nat_le: "unat (of_nat n :: 'a :: len word) \<le> n"
  by (simp add: unsigned_of_nat take_bit_nat_less_eq_self)

lemma mbufs_ok_at:
  assumes "mbufs_ok s"
  shows "mb_off (d_mbuf s m) + unat (mb_pkt_len (d_mbuf s m)) \<le> length (d_buf s (mb_buf (d_mbuf s m)))"
    "mb_off (d_mbuf s m) + unat (mb_data_len (d_mbuf s m)) \<le> length (d_buf s (mb_buf (d_mbuf s m)))"
  using assms by (simp_all add: mbufs_ok_def mbuf_in_def)

lemma edited_update:
  assumes "length (ob_mem b) = length (d_buf s (mb_buf (d_mbuf s m)))" "mbufs_ok s \<Longrightarrow> ob_data b + ob_size b \<le> length (ob_mem b)"
  shows "edited m s (update_mbuf b m s)"
proof -
  have "mbufs_ok (update_mbuf b m s)" if "mbufs_ok s"
  proof (rule mbufs_ok_upd [OF that, where m = m])
    have "ob_data b + unat (of_nat (ob_size b) :: u16) \<le> length (ob_mem b)" "ob_data b + unat (of_nat (ob_size b) :: u32) \<le> length (ob_mem b)"
      using assms(2) [OF that] unat_of_nat_le [of "ob_size b"] by (meson add_le_cancel_left order_trans)+
    then show "mbuf_in (d_mbuf (update_mbuf b m s) m) (length (d_buf s (mb_buf (d_mbuf (update_mbuf b m s) m))))"
      using assms(1) by (simp add: update_mbuf_def mbuf_in_def)
  qed (use assms(1) in \<open>simp_all add: update_mbuf_def\<close>)
  moreover have "\<exists>f h. update_mbuf b m s = s\<lparr>d_buf := f, d_mbuf := h\<rparr>" unfolding update_mbuf_def by (intro exI) (rule refl)
  ultimately show ?thesis using assms(1) by (simp add: edited_def) (simp add: update_mbuf_def)
qed

lemma room_update: "4 * q \<le> ob_data b \<Longrightarrow> ob_data b + 64 + 4 * p \<le> length (ob_mem b) \<Longrightarrow> room p q (update_mbuf b m s) m"
  by (simp add: room_def update_mbuf_def)

lemma edit_inplace:
  assumes "room p q s m"
    and "\<And>b l3. ob_l3 b = Some l3 \<Longrightarrow> ob_l4 b = Some (l3 + 20) \<Longrightarrow> l3 + 46 \<le> length (ob_mem b) \<Longrightarrow> inplace b (f b)"
  shows "\<exists>s'. edit_packet f m s = Some s' \<and> edited m s s' \<and> room p q s' m"
proof -
  obtain b l3 where b: "overlay_ofpbuf s m = Some b" "ob_l3 b = Some l3" "ob_l4 b = Some (l3 + 20)" "l3 \<le> ob_data b + 18"
    "ob_data b + 64 + 4 * p \<le> length (ob_mem b)" "4 * q \<le> ob_data b" "ob_mem b = d_buf s (mb_buf (d_mbuf s m))"
    "ob_data b = mb_off (d_mbuf s m)" "ob_size b = unat (mb_pkt_len (d_mbuf s m))"
    using overlay_room [OF assms(1)] by metis
  from assms(2) [of b l3] b obtain mem where "f b = Some (b\<lparr>ob_mem := mem\<rparr>)" "length mem = length (ob_mem b)"
    by (auto simp: inplace_def)
  then show ?thesis using b edited_update [of "b\<lparr>ob_mem := mem\<rparr>" s m] mbufs_ok_at(1) [of s m] room_update [of q "b\<lparr>ob_mem := mem\<rparr>" p m s]
    by (simp add: edit_packet_def)
qed

lemma pop_vlan_room:
  assumes "room (Suc p) q s m"
  shows "\<exists>s'. action_pop_vlan m s = Some s' \<and> edited m s s' \<and> room p q s' m"
proof -
  obtain b l3 where b: "overlay_ofpbuf s m = Some b" "ob_l2 b = Some (ob_data b)" "ob_data b + 64 + 4 * Suc p \<le> length (ob_mem b)"
    "4 * q \<le> ob_data b" "ob_mem b = d_buf s (mb_buf (d_mbuf s m))"
    "ob_data b = mb_off (d_mbuf s m)" "ob_size b = unat (mb_pkt_len (d_mbuf s m))"
    using overlay_room [OF assms] by metis
  then have "\<exists>b'. eth_pop_vlan b = Some b' \<and> ob_data b' \<in> {ob_data b, ob_data b + 4} \<and> length (ob_mem b') = length (ob_mem b) \<and>
      ob_data b' + ob_size b' = ob_data b + ob_size b"
    by (auto simp: eth_pop_vlan_def ld16_def ldn_def ofpbuf_pull_def store_def stn_def Let_def)
  then obtain b' where "eth_pop_vlan b = Some b'" "ob_data b' \<in> {ob_data b, ob_data b + 4}" "length (ob_mem b') = length (ob_mem b)"
    "ob_data b' + ob_size b' = ob_data b + ob_size b"
    by blast
  then show ?thesis using b edited_update [of b' s m] mbufs_ok_at(1) [of s m] room_update [of q b' p m s] by (auto simp: action_pop_vlan_def edit_packet_def)
qed

lemma push_vlan_room:
  assumes "room p (Suc q) s m"
  shows "\<exists>s'. action_push_vlan tci m s = Some s' \<and> edited m s s' \<and> room p q s' m"
proof -
  obtain b where b: "overlay_ofpbuf s m = Some b" "ob_data b + 64 + 4 * p \<le> length (ob_mem b)" "4 * Suc q \<le> ob_data b"
    "ob_mem b = d_buf s (mb_buf (d_mbuf s m))" "ob_data b = mb_off (d_mbuf s m)" "ob_size b = unat (mb_pkt_len (d_mbuf s m))"
    using overlay_room [OF assms] by metis
  then have "\<exists>b'. eth_push_vlan (\<lambda>_. 0) b tci = Some b' \<and> ob_data b' + 4 = ob_data b \<and> length (ob_mem b') = length (ob_mem b) \<and>
      ob_data b' + ob_size b' = ob_data b + ob_size b"
    by (auto simp: eth_push_vlan_def ld16_def ldn_def ofpbuf_push_uninit_def ofpbuf_prealloc_headroom_def ofpbuf_headroom_def store_def
        stn_def Let_def)
  then obtain b' where "eth_push_vlan (\<lambda>_. 0) b tci = Some b'" "ob_data b' + 4 = ob_data b" "length (ob_mem b') = length (ob_mem b)"
    "ob_data b' + ob_size b' = ob_data b + ob_size b"
    by blast
  then show ?thesis using b edited_update [of b' s m] mbufs_ok_at(1) [of s m] room_update [of q b' p m s] by (auto simp: action_push_vlan_def edit_packet_def)
qed

lemma set_ethernet_room:
  assumes "room p q s m"
  shows "\<exists>s'. action_set_ethernet src dst m s = Some s' \<and> edited m s s' \<and> room p q s' m"
proof -
  let ?mb = "d_mbuf s m"
  let ?mem = "d_buf s (mb_buf ?mb)"
  have st: "\<exists>mem'. stn mem off (take 6 bs) = Some mem' \<and> length mem' = length mem" if "off + 6 \<le> length mem" for mem off and bs :: bytes
    using that by (auto simp: stn_def)
  from assms obtain m1 where m1: "stn ?mem (mb_off ?mb) (take 6 dst) = Some m1" "length m1 = length ?mem"
    using st [of "mb_off ?mb" ?mem dst] by (auto simp: room_def)
  moreover from assms obtain m2 where "stn m1 (mb_off ?mb + 6) (take 6 src) = Some m2" "length m2 = length m1"
    using st [of "mb_off ?mb + 6" m1 src] m1(2) by (auto simp: room_def)
  moreover have "edited m s (s\<lparr>d_buf := f\<rparr>)" if "\<And>k. length (f k) = length (d_buf s k)" for f
  proof -
    have "s\<lparr>d_buf := f\<rparr> = s\<lparr>d_buf := f, d_mbuf := d_mbuf s\<rparr>" by (cases s) simp
    then have "\<exists>b h. s\<lparr>d_buf := f\<rparr> = s\<lparr>d_buf := b, d_mbuf := h\<rparr>" by blast
    with that mbufs_ok_cong [of "s\<lparr>d_buf := f\<rparr>" s] show ?thesis by (simp add: edited_def)
  qed
  ultimately show ?thesis using assms by (auto simp: action_set_ethernet_def room_def)
qed

lemma edited_room:
  "room p q s m \<Longrightarrow> \<exists>s'. action_set_ipv4 src dst tos ttl m s = Some s' \<and> edited m s s' \<and> room p q s' m"
  "room p q s m \<Longrightarrow> \<exists>s'. action_set_tcp x y m s = Some s' \<and> edited m s s' \<and> room p q s' m"
  "room p q s m \<Longrightarrow> \<exists>s'. action_set_udp x y m s = Some s' \<and> edited m s s' \<and> room p q s' m"
  unfolding action_set_ipv4_def action_set_tcp_def action_set_udp_def
  by (rule edit_inplace; auto intro: packet_set_ipv4_inplace packet_set_tcp_port_inplace packet_set_udp_port_inplace)+

section \<open>Accounting of an action list\<close>

text \<open>The outputs before the end of the list.\<close>

fun outputs :: "action list \<Rightarrow> nat" where
  "outputs [] = 0"
| "outputs (a # as) = (case a of ACTION_NULL \<Rightarrow> 0 | ACTION_OUTPUT _ \<Rightarrow> Suc (outputs as) | _ \<Rightarrow> outputs as)"

lemma more_outputs_iff: "n \<le> 1 \<Longrightarrow> more_outputs as n \<longleftrightarrow> n + outputs as > 1"
  by (induction as n rule: more_outputs.induct) auto

lemma check_for_multiple_output_iff: "check_for_multiple_output as \<longleftrightarrow> outputs (take MAX_ACTIONS as) > 1"
  by (simp add: check_for_multiple_output_def more_outputs_iff)

lemma room_mono: "room p q s m \<Longrightarrow> p' \<le> p \<Longrightarrow> q' \<le> q \<Longrightarrow> room p' q' s m"
  by (simp add: room_def)

lemma room_frame: "io_frame s s' \<Longrightarrow> room p q s' m = room p q s m"
  by (simp add: io_frame_def room_def)

text \<open>A clone has the place of its original, so that it lies in the buffer too.\<close>

lemma io_ok_clone:
  assumes "io_ok E s" "mbuf_clone E m s = (r, t)"
  shows "io_ok E t"
proof -
  have io: "vports_ok (e_cfg E) (d_vports s)" "caches_ok s" "mbufs_ok s" "guests_ready s" using assms(1) by (simp_all add: io_ok_def)
  have "io_ok E (s\<lparr>d_lib := w, d_mbuf := (d_mbuf s)(c := d_mbuf s m)\<rparr>)" for c w
  proof -
    let ?t = "s\<lparr>d_lib := w, d_mbuf := (d_mbuf s)(c := d_mbuf s m)\<rparr>"
    have "mbufs_ok ?t" by (rule mbufs_ok_upd [OF io(3), of c]) (use io(3) in \<open>simp_all add: mbufs_ok_def\<close>)
    moreover have "guests_ready ?t = guests_ready s" by (rule guests_ready_cong) simp_all
    ultimately show ?thesis using io by (simp add: io_ok_def caches_ok_def)
  qed
  then show ?thesis using assms by (auto simp: mbuf_clone_def split: prod.splits option.splits)
qed

text \<open>What a step of a list does: the packets \<open>ms\<close> are handed over.\<close>

definition handed :: "('w \<Rightarrow> nat multiset) \<Rightarrow> 'w env \<Rightarrow> nat multiset \<Rightarrow> 'w dp \<Rightarrow> 'w dp \<Rightarrow> bool" where
  "handed holds E ms s s' \<longleftrightarrow> owned holds (e_cores E) s' = ms + owned holds (e_cores E) s \<and> io_ok E s'"

lemma handed_edited: "edited m s s' \<Longrightarrow> io_ok E s \<Longrightarrow> handed holds E {#} s s'"
  by (simp add: handed_def edited_same)

text \<open>
  What happens to other packets: those neither the library nor a cache holds keep their headers, and no buffer changes
  its length. The ports stay as they are.
\<close>

definition tidy :: "('w \<Rightarrow> nat multiset) \<Rightarrow> 'w env \<Rightarrow> nat \<Rightarrow> 'w dp \<Rightarrow> 'w dp \<Rightarrow> bool" where
  "tidy holds E m s s' \<longleftrightarrow> (\<forall>x. x \<noteq> m \<longrightarrow> x \<notin># owned holds (e_cores E) s \<longrightarrow> d_mbuf s' x = d_mbuf s x) \<and>
     (\<forall>k. length (d_buf s' k) = length (d_buf s k)) \<and> d_vports s' = d_vports s"

lemma tidy_refl [simp]: "tidy holds E m s s"
  by (simp add: tidy_def)

lemma tidy_edited: "edited m s s' \<Longrightarrow> tidy holds E m s s'"
  by (auto simp: tidy_def edited_def)

lemma tidy_frame: "io_frame s s' \<Longrightarrow> tidy holds E m s s'"
  by (simp add: tidy_def io_frame_def)

lemma tidy_trans:
  "tidy holds E m s t \<Longrightarrow> handed holds E ms s t \<Longrightarrow> set_mset ms \<subseteq> {m} \<Longrightarrow> tidy holds E m t u \<Longrightarrow> tidy holds E m s u"
  by (auto simp: tidy_def handed_def)

lemma handed_trans: "handed holds E ms s t \<Longrightarrow> handed holds E ns t u \<Longrightarrow> handed holds E (ms + ns) s u"
  by (simp add: handed_def)

lemma action_output_ok:
  assumes L: "dpdk_ok (e_lib E) holds" and E: "env_ok E" and io: "io_ok E s"
  shows "\<exists>s'. action_output E port m s = Some s' \<and> handed holds E {#m#} s s' \<and> io_frame s s'"
  using send_to_vport_ok [OF L E io, of "unat port" m] by (auto simp: action_output_def handed_def accepted_def)

lemma output_clone_ok:
  assumes L: "dpdk_ok (e_lib E) holds" and E: "env_ok E" and io: "io_ok E s"
  shows "\<exists>s'. output_clone E port m s = Some s' \<and> handed holds E {#} s s' \<and> room p q s' m = room p q s m \<and> tidy holds E m s s'"
proof -
  obtain r t where c: "mbuf_clone E m s = (r, t)" by fastforce
  note o = owned_clone [OF L c, of "e_cores E"]
  have t: "io_ok E t" "room p q t m = room p q s m" "tidy holds E m s t"
    using io_ok_clone [OF io c] c o by (auto simp: mbuf_clone_def room_def tidy_def split: prod.splits option.splits)
  show ?thesis
  proof (cases r)
    case None
    then show ?thesis using c t o by (simp add: output_clone_def handed_def)
  next
    case (Some mb)
    from action_output_ok [OF L E t(1), of port mb] obtain u where "action_output E port mb t = Some u" "handed holds E {#mb#} t u" "io_frame t u"
      by blast
    moreover from this(3) t(3) have "tidy holds E m s u" by (simp add: tidy_def io_frame_def)
    ultimately show ?thesis using Some c t o room_frame [of t u p q m] by (simp add: output_clone_def handed_def)
  qed
qed

lemma run_actions_ok:
  assumes L: "dpdk_ok (e_lib E) holds" and E: "env_ok E" and io: "io_ok E s" and r: "room (pops as) (pushes as) s m"
  shows "\<exists>s'. run_actions E multiple as m s = Some s' \<and> handed holds E (if multiple then {#} else replicate_mset (outputs as) m) s s' \<and>
    tidy holds E m s s' \<and> room 0 0 s' m"
  using io r
proof (induction as arbitrary: s)
  case Nil
  then show ?case by (simp add: handed_def)
next
  case (Cons a as)
  note io = Cons.prems(1) and rm = Cons.prems(2)
  have step: ?case
    if "run_actions E multiple (a # as) m s = run_actions E multiple as m t" "handed holds E ms s t" "tidy holds E m s t"
      "set_mset ms \<subseteq> {m}" "room (pops as) (pushes as) t m"
      "(if multiple then {#} else replicate_mset (outputs (a # as)) m) = ms + (if multiple then {#} else replicate_mset (outputs as) m)"
    for t ms
  proof -
    have "io_ok E t" using that(2) by (simp add: handed_def)
    from Cons.IH [OF this that(5)] obtain u where u: "run_actions E multiple as m t = Some u"
      "handed holds E (if multiple then {#} else replicate_mset (outputs as) m) t u" "tidy holds E m t u" "room 0 0 u m" by blast
    from handed_trans [OF that(2) u(2)] tidy_trans [OF that(3,2,4) u(3)] u show ?thesis
      unfolding that(1,6) by blast
  qed
  have edit: ?case
    if "run_actions E multiple (a # as) m s = f m s \<bind> run_actions E multiple as m"
      "\<exists>t. f m s = Some t \<and> edited m s t \<and> room (pops as) (pushes as) t m" "outputs (a # as) = outputs as" for f
  proof -
    from that(2) obtain t where t: "f m s = Some t" "edited m s t" "room (pops as) (pushes as) t m" by blast
    show ?thesis
      by (rule step [of t "{#}"]) (use that(1,3) t handed_edited [OF t(2) io] tidy_edited [OF t(2)] in simp_all)
  qed
  show ?case
  proof (cases a)
    case ACTION_NULL
    then show ?thesis using io room_mono [OF rm, of 0 0] by (simp add: handed_def)
  next
    case (ACTION_OUTPUT port)
    have rm': "room (pops as) (pushes as) s m" using rm ACTION_OUTPUT by simp
    have "\<exists>t. (if multiple then output_clone E port m s else action_output E port m s) = Some t \<and>
        handed holds E (if multiple then {#} else {#m#}) s t \<and> room (pops as) (pushes as) t m \<and> tidy holds E m s t"
      using output_clone_ok [OF L E io, of port m "pops as" "pushes as"] action_output_ok [OF L E io, of port m] rm'
      by (cases multiple) (auto simp: room_frame tidy_frame)
    then obtain t where t: "(if multiple then output_clone E port m s else action_output E port m s) = Some t"
      "handed holds E (if multiple then {#} else {#m#}) s t" "room (pops as) (pushes as) t m" "tidy holds E m s t" by blast
    show ?thesis by (rule step [OF _ t(2,4) _ t(3)]) (use t(1) ACTION_OUTPUT in auto)
  next
    case ACTION_POP_VLAN
    show ?thesis by (rule edit [of action_pop_vlan]) (use rm ACTION_POP_VLAN pop_vlan_room in auto)
  next
    case (ACTION_PUSH_VLAN x tci)
    show ?thesis by (rule edit [of "action_push_vlan tci"]) (use rm ACTION_PUSH_VLAN push_vlan_room in auto)
  next
    case (ACTION_SET_ETHERNET x y)
    show ?thesis by (rule edit [of "action_set_ethernet x y"]) (use rm ACTION_SET_ETHERNET set_ethernet_room in auto)
  next
    case (ACTION_SET_IPV4 x y v tos ttl f)
    show ?thesis by (rule edit [of "action_set_ipv4 x y tos ttl"]) (use rm ACTION_SET_IPV4 edited_room(1) in auto)
  next
    case (ACTION_SET_TCP x y)
    show ?thesis by (rule edit [of "action_set_tcp x y"]) (use rm ACTION_SET_TCP edited_room(2) in auto)
  next
    case (ACTION_SET_UDP x y)
    show ?thesis by (rule edit [of "action_set_udp x y"]) (use rm ACTION_SET_UDP edited_room(3) in auto)
  next
    case ACTION_MAX
    show ?thesis by (rule step [of s "{#}"]) (use io rm ACTION_MAX in \<open>simp_all add: handed_def\<close>)
  qed
qed

lemma pops_take: "pops (take n as) \<le> pops as"
  by (induction as arbitrary: n) (auto simp: take_Cons split: nat.splits)

lemma pushes_take: "pushes (take n as) \<le> pushes as"
  by (induction as arbitrary: n) (auto simp: take_Cons split: nat.splits)

text \<open>A list with actions but no output neither sends the packet nor frees it.\<close>

definition leaks :: "action list \<Rightarrow> bool" where
  "leaks acts \<longleftrightarrow> hd acts \<noteq> ACTION_NULL \<and> outputs (take MAX_ACTIONS acts) = 0"

lemma action_execute_handed:
  assumes L: "dpdk_ok (e_lib E) holds" and E: "env_ok E" and io: "io_ok E s"
    and r: "room (pops acts) (pushes acts) s m" "acts \<noteq> []"
  shows "\<exists>s'. action_execute E acts m s = Some s' \<and>
    handed holds E (if leaks acts then {#} else {#m#}) s s' \<and>
    tidy holds E m s s' \<and> room 0 0 s' m"
proof (cases "hd acts = ACTION_NULL")
  case True
  then show ?thesis using r(2) io room_mono [OF r(1), of 0 0]
    by (cases acts) (simp_all add: action_execute_def action_drop_def handed_def owned_free [OF L] tidy_def room_def leaks_def)
next
  case False
  let ?as = "take MAX_ACTIONS acts" and ?multi = "check_for_multiple_output acts"
  have "room (pops ?as) (pushes ?as) s m" using room_mono [OF r(1) pops_take pushes_take] .
  from run_actions_ok [OF L E io this, of ?multi] obtain t where t: "run_actions E ?multi ?as m s = Some t"
    "handed holds E (if ?multi then {#} else replicate_mset (outputs ?as) m) s t" "tidy holds E m s t" "room 0 0 t m" by blast
  let ?u = "if ?multi then mbuf_free E m t else t"
  have "action_execute E acts m s = Some ?u"
    using False r(2) t(1) by (cases acts) (simp_all add: action_execute_def Let_def)
  moreover have "handed holds E (if outputs ?as = 0 then {#} else {#m#}) s ?u"
    using t(2) by (cases "outputs ?as") (auto simp: check_for_multiple_output_iff handed_def owned_free [OF L])
  moreover have "tidy holds E m s ?u" "room 0 0 ?u m" using t(3,4) by (simp_all add: tidy_def room_def)
  ultimately show ?thesis using False by (auto simp: leaks_def)
qed

section \<open>Clones share the bytes of their packet\<close>

lemma output_clone_header:
  assumes L: "dpdk_ok (e_lib E) holds" and E: "env_ok E" and io: "io_ok E s" and r: "output_clone E port m s = Some s'"
  shows "d_buf s' = d_buf s" "d_mbuf s' x \<in> {d_mbuf s x, d_mbuf s m}"
    "mbuf_clone E m s = (Some c, t) \<Longrightarrow> d_mbuf s' c = d_mbuf s m"
proof -
  obtain o' t' where c: "mbuf_clone E m s = (o', t')" by fastforce
  have t: "io_ok E t'" "d_buf t' = d_buf s" "d_mbuf t' = (case o' of None \<Rightarrow> d_mbuf s | Some c \<Rightarrow> (d_mbuf s)(c := d_mbuf s m))"
    using io_ok_clone [OF io c] c by (auto simp: mbuf_clone_def split: prod.splits option.splits)
  have "io_frame t' s'"
    using r c action_output_ok [OF L E t(1), of port "the o'"] by (cases o') (auto simp: output_clone_def)
  then show "d_buf s' = d_buf s" "d_mbuf s' x \<in> {d_mbuf s x, d_mbuf s m}" "mbuf_clone E m s = (Some c, t) \<Longrightarrow> d_mbuf s' c = d_mbuf s m"
    using t c by (auto simp: io_frame_def split: option.splits)
qed

lemma set_ethernet_bytes:
  assumes "room p q s m" "length src = 6" "length dst = 6"
  shows "\<exists>s'. action_set_ethernet src dst m s = Some s' \<and> d_mbuf s' = d_mbuf s \<and> mtod s' m = dst @ src @ drop 12 (mtod s m)"
proof -
  let ?mb = "d_mbuf s m"
  let ?mem = "d_buf s (mb_buf ?mb)"
  have "stn ?mem (mb_off ?mb) dst = Some (take (mb_off ?mb) ?mem @ dst @ drop (mb_off ?mb + 6) ?mem)"
    using assms by (simp add: stn_def room_def)
  moreover have "stn (take (mb_off ?mb) ?mem @ dst @ drop (mb_off ?mb + 6) ?mem) (mb_off ?mb + 6) src =
      Some (take (mb_off ?mb) ?mem @ dst @ src @ drop (mb_off ?mb + 12) ?mem)"
    using assms by (simp add: stn_def room_def min_def add.commute)
  ultimately show ?thesis using assms by (simp add: action_set_ethernet_def mtod_def room_def min_def add.commute Let_def)
qed

section \<open>Properties\<close>

text \<open>C4: For any list of actions and any packet with headroom for the tags the list pushes and 64 bytes of memory, plus
  what it pops, execution stays within the buffer of the packet and the caches of the core. A list that is empty or has
  an output hands the packet over exactly once, whatever the number of outputs and whether or not its clones can be made:
  every clone that was made is handed over too. A list with actions but no output loses the packet: it is neither sent nor
  freed. The invariant of the packet path is kept; it is assumed to begin with: the physical ports are numbered from 0x10
  on without gaps, the core has its rows in the caches, the table of ports is well-formed, no cache is full, the data of
  every mbuf lies in its buffer, and the rings of every attached guest are consistent and its buffers mapped with room for
  a header and a packet.\<close>

theorem action_execute_accounts:
  assumes "dpdk_ok (e_lib E) holds" "env_ok E" "vports_ok (e_cfg E) (d_vports s)" "caches_ok s" "mbufs_ok s" "guests_ready s"
    and "room (pops acts) (pushes acts) s m" "acts \<noteq> []"
  shows "\<exists>s'. action_execute E acts m s = Some s' \<and>
    owned holds (e_cores E) s' = (if leaks acts then {#} else {#m#}) + owned holds (e_cores E) s \<and>
    vports_ok (e_cfg E) (d_vports s') \<and> caches_ok s' \<and> mbufs_ok s' \<and> guests_ready s'"
  using action_execute_handed [OF assms(1,2) _ assms(7,8)] assms(3-6) by (auto simp: handed_def io_ok_def)

text \<open>C40: A packet is cloned for each of several outputs, but the clones share its bytes: an edit between two outputs also
  changes the packet that was queued for the first one. A list that sends the packet as it is to one port and with new
  addresses to another port sends it with the new addresses to both.\<close>

theorem clone_sees_later_edit:
  assumes "dpdk_ok (e_lib E) holds" "env_ok E" "vports_ok (e_cfg E) (d_vports s)" "caches_ok s" "mbufs_ok s" "guests_ready s"
    and "room 0 0 s m" "length src = 6" "length dst = 6" "12 \<le> unat (mb_data_len (d_mbuf s m))"
    and "mbuf_clone E m s = (Some c, t)"
  shows "\<exists>s'. action_execute E [ACTION_OUTPUT p, ACTION_SET_ETHERNET src dst, ACTION_OUTPUT q, ACTION_NULL] m s = Some s' \<and>
    pkt_data s' c = dst @ src @ drop 12 (pkt_data s m)"
proof -
  note L = assms(1) and E = assms(2)
  have io: "io_ok E s" using assms(3-6) by (simp add: io_ok_def)
  from output_clone_ok [OF L E io, of p m 0 0] obtain s1 where 1: "output_clone E p m s = Some s1" "handed holds E {#} s s1" "room 0 0 s1 m"
    using assms(7) by auto
  note h1 = output_clone_header [OF L E io 1(1)]
  from set_ethernet_bytes [OF 1(3) assms(8,9)] obtain s2 where 2: "action_set_ethernet src dst m s1 = Some s2"
    "d_mbuf s2 = d_mbuf s1" "mtod s2 m = dst @ src @ drop 12 (mtod s1 m)" by blast
  have "io_ok E s2" using edited_same(2) [of m s1 s2] set_ethernet_room [OF 1(3), of src dst] 2(1) 1(2) by (auto simp: handed_def)
  from output_clone_ok [OF L E this, of q m 0 0] obtain s3 where 3: "output_clone E q m s2 = Some s3" by blast
  note h3 = output_clone_header [OF L E \<open>io_ok E s2\<close> 3]
  have m: "d_mbuf s1 m = d_mbuf s m" "d_mbuf s1 c = d_mbuf s m" "d_mbuf s3 c = d_mbuf s m"
    using h1(2) [of m] h1(3) [OF assms(11)] h3(2) [of c] 2(2) by auto
  have "mtod s3 c = mtod s2 m" using m h3(1) 2(2) by (simp add: mtod_def)
  moreover have "mtod s1 m = mtod s m" using m h1(1) by (simp add: mtod_def)
  ultimately have "pkt_data s3 c = dst @ src @ drop 12 (pkt_data s m)"
    using m 2(3) assms(8-10) by (simp add: pkt_data_def drop_take)
  then have "pkt_data (mbuf_free E m s3) c = dst @ src @ drop 12 (pkt_data s m)" by (simp add: pkt_data_def mtod_def)
  moreover have "action_execute E [ACTION_OUTPUT p, ACTION_SET_ETHERNET src dst, ACTION_OUTPUT q, ACTION_NULL] m s = Some (mbuf_free E m s3)"
    by (simp add: action_execute_def check_for_multiple_output_iff MAX_ACTIONS_def 1(1) 2(1) 3)
  ultimately show ?thesis by blast
qed

lemma example_room: "room 1 2 example_io m"
  by (simp add: room_def example_io_def example_dp_def)

theorem action_execute_accounts_witness:
  "(\<exists>s'. action_execute example_env [ACTION_PUSH_VLAN 0x8100 5, ACTION_OUTPUT 0x10, ACTION_POP_VLAN, ACTION_OUTPUT 2] 5 example_io = Some s' \<and>
     owned mset 1 s' = add_mset 5 (owned mset 1 example_io)) \<and>
   (\<exists>s'. action_execute example_env [ACTION_SET_ETHERNET (zeros 6) (zeros 6), ACTION_NULL] 5 example_io = Some s' \<and>
     owned mset 1 s' = owned mset 1 example_io)"
  using action_execute_accounts [OF example_env_ok example_io_ok, of
      "[ACTION_PUSH_VLAN 0x8100 5, ACTION_OUTPUT 0x10, ACTION_POP_VLAN, ACTION_OUTPUT 2]" 5]
    action_execute_accounts [OF example_env_ok example_io_ok, of "[ACTION_SET_ETHERNET (zeros 6) (zeros 6), ACTION_NULL]" 5]
    room_mono [OF example_room [of 5], of 1 1] room_mono [OF example_room [of 5], of 0 0]
  by (auto simp: MAX_ACTIONS_def example_env_def leaks_def)

theorem clone_sees_later_edit_witness:
  "\<exists>s'. action_execute example_env [ACTION_OUTPUT 0x10, ACTION_SET_ETHERNET (replicate 6 1) (replicate 6 2), ACTION_OUTPUT 2, ACTION_NULL] 5
      (example_io\<lparr>d_mbuf := (\<lambda>m. \<lparr>mb_buf = m, mb_off = 128, mb_data_len = 14, mb_pkt_len = 14\<rparr>)\<rparr>) = Some s' \<and>
     pkt_data s' 7 = replicate 6 2 @ replicate 6 1 @ zeros 2"
proof -
  let ?s = "example_io\<lparr>d_mbuf := (\<lambda>m. \<lparr>mb_buf = m, mb_off = 128, mb_data_len = 14, mb_pkt_len = 14\<rparr>)\<rparr>"
  have ok: "vports_ok (e_cfg example_env) (d_vports ?s)" "caches_ok ?s" "mbufs_ok ?s" "guests_ready ?s"
    using example_io_ok guests_ready_cong [of ?s example_io]
    by (simp_all add: caches_ok_def) (simp add: mbufs_ok_def mbuf_in_def example_io_def example_dp_def)
  have c: "mbuf_clone example_env 5 ?s = (Some 7, ?s\<lparr>d_lib := [8], d_mbuf := (d_mbuf ?s)(7 := d_mbuf ?s 5)\<rparr>)"
    by (simp add: mbuf_clone_def example_env_def pool_lib_def pool_take_def example_io_def example_dp_def)
  have "pkt_data ?s 5 = zeros 14"
    by (simp add: pkt_data_def mtod_def example_io_def example_dp_def zeros_def)
  then show ?thesis
    using clone_sees_later_edit [OF example_env_ok example_io_ok(1) ok _ _ _ _ c, of "replicate 6 1" "replicate 6 2" "0x10" 2]
    by (simp add: room_def example_io_def example_dp_def zeros_def)
qed

end
