(* ===== verification/FlowTable.thy ===== *)
theory FlowTable
  imports FlowKey
begin

text \<open>
  The flow table of \<open>datapath/dpdk/flow.c\<close>: an array of entries, indexed by the position that the hash table of
  the DPDK library gives to a key. The hash table is not part of the repository; it is a parameter, a record of
  its three operations on an opaque handle, and what the code relies on is the predicate \<open>rte_hash_ok\<close>, over an
  abstraction of the handle to a finite map from keys to positions. The locks of the entries are left out: one
  operation runs at a time. Pointer arguments that the callers always give are not null.
\<close>

section \<open>The hash table of the library\<close>

record 'h rte_hash =
  hash_lookup :: "'h \<Rightarrow> flow_key \<Rightarrow> int"
  hash_add_key :: "'h \<Rightarrow> flow_key \<Rightarrow> int \<times> 'h"
  hash_del_key :: "'h \<Rightarrow> flow_key \<Rightarrow> int \<times> 'h"

definition MAX_FLOWS :: nat where "MAX_FLOWS = 65536"

text \<open>
  As documented: a lookup gives the position of a key or \<open>-ENOENT\<close>; adding a key gives its position, the old one if
  the key is present and a free one otherwise, or \<open>-ENOSPC\<close>; deleting a key gives the position it had or
  \<open>-ENOENT\<close>. Positions are below the number of entries the table was created with.
\<close>

definition rte_hash_ok :: "'h rte_hash \<Rightarrow> ('h \<Rightarrow> flow_key \<rightharpoonup> nat) \<Rightarrow> bool" where
  "rte_hash_ok H \<alpha> \<longleftrightarrow>
     (\<forall>h k p. \<alpha> h k = Some p \<longrightarrow> p < MAX_FLOWS) \<and>
     (\<forall>h k k' p. \<alpha> h k = Some p \<longrightarrow> \<alpha> h k' = Some p \<longrightarrow> k = k') \<and>
     (\<forall>h k. hash_lookup H h k = (case \<alpha> h k of Some p \<Rightarrow> int p | None \<Rightarrow> - ENOENT)) \<and>
     (\<forall>h k r h'. hash_add_key H h k = (r, h') \<longrightarrow>
        (case \<alpha> h k of Some p \<Rightarrow> r = int p \<and> \<alpha> h' = \<alpha> h
         | None \<Rightarrow> r = - ENOSPC \<and> \<alpha> h' = \<alpha> h \<or> (\<exists>p. r = int p \<and> p \<notin> ran (\<alpha> h) \<and> \<alpha> h' = (\<alpha> h)(k \<mapsto> p)))) \<and>
     (\<forall>h k r h'. hash_del_key H h k = (r, h') \<longrightarrow>
        (case \<alpha> h k of Some p \<Rightarrow> r = int p \<and> \<alpha> h' = (\<alpha> h)(k := None)
         | None \<Rightarrow> r = - ENOENT \<and> \<alpha> h' = \<alpha> h))"

section \<open>The table\<close>

record flow_table_entry =
  fe_key :: flow_key
  fe_stats :: flow_stats
  fe_enabled :: bool
  fe_actions :: "action list"

record 'h flow_state =
  flow_table :: "nat \<Rightarrow> flow_table_entry"
  handle :: 'h

text \<open>The clocks the table reads: \<open>curr_tsc\<close>, \<open>cpu_freq\<close> and the monotonic time of the system.\<close>

record dp_time =
  curr_tsc :: u64
  cpu_freq :: u64
  tv_sec :: u64
  tv_nsec :: u64

definition zero_entry :: flow_table_entry where
  "zero_entry = \<lparr>fe_key = zero_key, fe_stats = zero_stats, fe_enabled = False, fe_actions = zero_actions\<rparr>"

definition flow_table_init :: "'h \<Rightarrow> 'h flow_state" where
  "flow_table_init h = \<lparr>flow_table = (\<lambda>_. zero_entry), handle = h\<rparr>"

definition set_entry :: "nat \<Rightarrow> (flow_table_entry \<Rightarrow> flow_table_entry) \<Rightarrow> 'h flow_state \<Rightarrow> 'h flow_state" where
  "set_entry pos f T = T\<lparr>flow_table := (flow_table T)(pos := f (flow_table T pos))\<rparr>"

definition flow_table_clear_stats :: "nat \<Rightarrow> 'h flow_state \<Rightarrow> 'h flow_state" where
  "flow_table_clear_stats pos = set_entry pos (\<lambda>e. e\<lparr>fe_stats := (fe_stats e)
     \<lparr>used := 0, tcp_flags := 0, packet_count := 0, byte_count := 0\<rparr>\<rparr>)"

definition flow_table_lookup :: "'h rte_hash \<Rightarrow> 'h flow_state \<Rightarrow> flow_key \<Rightarrow> int" where
  "flow_table_lookup H T key = hash_lookup H (handle T) key"

text \<open>The test of the macro \<open>CHECK_POS\<close>.\<close>

definition bad_pos :: "int \<Rightarrow> bool" where
  "bad_pos pos \<longleftrightarrow> pos \<ge> int MAX_FLOWS \<or> pos < 0"

definition flow_table_add_flow ::
  "'h rte_hash \<Rightarrow> flow_key \<Rightarrow> action list \<Rightarrow> 'h flow_state \<Rightarrow> int \<times> 'h flow_state" where
  "flow_table_add_flow H key actions T =
     (if flow_table_lookup H T key \<ge> 0 then (-1, T)
      else let (pos, h) = hash_add_key H (handle T) key; T = T\<lparr>handle := h\<rparr> in
        if bad_pos pos then (-1, T)
        else let T = set_entry (nat pos) (\<lambda>e. e\<lparr>fe_key := key, fe_enabled := True, fe_actions := actions\<rparr>) T
          in (pos, flow_table_clear_stats (nat pos) T))"

definition flow_table_mod_flow ::
  "'h rte_hash \<Rightarrow> flow_key \<Rightarrow> action list \<Rightarrow> bool \<Rightarrow> 'h flow_state \<Rightarrow> int \<times> 'h flow_state" where
  "flow_table_mod_flow H key actions clear_stats T =
     (let pos = flow_table_lookup H T key in
      if bad_pos pos then (-1, T)
      else let T = (if clear_stats then flow_table_clear_stats (nat pos) T else T);
               T = set_entry (nat pos) (\<lambda>e. e\<lparr>fe_actions := actions\<rparr>) T
        in (pos, set_entry (nat pos) (\<lambda>e. e\<lparr>fe_enabled := True\<rparr>) T))"

text \<open>Division by a zero frequency traps.\<close>

definition ovs_flow_used_time :: "dp_time \<Rightarrow> u64 \<Rightarrow> u64 option" where
  "ovs_flow_used_time now flow_tsc =
     (if cpu_freq now = 0 then None
      else let idle_ms = (curr_tsc now - flow_tsc) * 1000 div cpu_freq now;
               curr_ms = tv_sec now * 1000 + tv_nsec now div 1000000
        in Some (curr_ms - idle_ms))"

definition copy_entry_from_table ::
  "dp_time \<Rightarrow> nat \<Rightarrow> 'h flow_state \<Rightarrow> (int \<times> (flow_key \<times> action list \<times> flow_stats) option) option" where
  "copy_entry_from_table now pos T =
     (let e = flow_table T pos in
      if fe_enabled e then do {
        u \<leftarrow> (if used (fe_stats e) \<noteq> 0 then ovs_flow_used_time now (used (fe_stats e)) else Some 0);
        Some (int pos, Some (fe_key e, fe_actions e, (fe_stats e)\<lparr>used := u\<rparr>)) }
      else Some (-1, None))"

definition flow_table_get_flow :: "'h rte_hash \<Rightarrow> dp_time \<Rightarrow> flow_key \<Rightarrow> 'h flow_state \<Rightarrow>
    (int \<times> (flow_key \<times> action list \<times> flow_stats) option) option" where
  "flow_table_get_flow H now key T =
     (let pos = flow_table_lookup H T key in
      if bad_pos pos then Some (-1, None) else copy_entry_from_table now (nat pos) T)"

text \<open>The loop over the entries from a position on; an entry that is not enabled is not copied.\<close>

definition copy_next_from :: "dp_time \<Rightarrow> nat \<Rightarrow> 'h flow_state \<Rightarrow>
    (int \<times> (flow_key \<times> action list \<times> flow_stats) option) option" where
  "copy_next_from now pos T = (case find_from pos MAX_FLOWS (\<lambda>p. fe_enabled (flow_table T p)) of
       Some p \<Rightarrow> copy_entry_from_table now p T | None \<Rightarrow> Some (-1, None))"

definition flow_table_get_next_flow :: "'h rte_hash \<Rightarrow> dp_time \<Rightarrow> flow_key \<Rightarrow> 'h flow_state \<Rightarrow>
    (int \<times> (flow_key \<times> action list \<times> flow_stats) option) option" where
  "flow_table_get_next_flow H now key T =
     (let pos = flow_table_lookup H T key in
      if bad_pos pos then Some (-1, None) else copy_next_from now (nat pos + 1) T)"

definition flow_table_get_first_flow :: "dp_time \<Rightarrow> 'h flow_state \<Rightarrow>
    (int \<times> (flow_key \<times> action list \<times> flow_stats) option) option" where
  "flow_table_get_first_flow now T = copy_next_from now 0 T"

text \<open>\<open>memset\<close> of the key and the actions, and the flag.\<close>

definition wipe_entry :: "flow_table_entry \<Rightarrow> flow_table_entry" where
  "wipe_entry e = e\<lparr>fe_key := zero_key, fe_actions := zero_actions, fe_enabled := False\<rparr>"

definition flow_table_del_flow :: "'h rte_hash \<Rightarrow> flow_key \<Rightarrow> 'h flow_state \<Rightarrow> int \<times> 'h flow_state" where
  "flow_table_del_flow H key T =
     (let (pos, h) = hash_del_key H (handle T) key; T = T\<lparr>handle := h\<rparr> in
      if bad_pos pos then (-1, T)
      else (pos, flow_table_clear_stats (nat pos) (set_entry (nat pos) wipe_entry T)))"

definition del_slot :: "'h rte_hash \<Rightarrow> nat \<Rightarrow> 'h flow_state \<Rightarrow> 'h flow_state" where
  "del_slot H pos T =
     (let key = fe_key (flow_table T pos); T = flow_table_clear_stats pos T
      in set_entry pos wipe_entry (T\<lparr>handle := snd (hash_del_key H (handle T) key)\<rparr>))"

definition flow_table_del_all :: "'h rte_hash \<Rightarrow> 'h flow_state \<Rightarrow> 'h flow_state" where
  "flow_table_del_all H T = for_loop 0 MAX_FLOWS (del_slot H) T"

text \<open>
  The accounting of a packet; the TCP flags are read behind an Ethernet and an IPv4 header without options.
\<close>

definition flow_table_update_stats :: "dp_time \<Rightarrow> nat \<Rightarrow> bytes \<Rightarrow> u16 \<Rightarrow> 'h flow_state \<Rightarrow> 'h flow_state option" where
  "flow_table_update_stats now pos pkt data_len T = do {
     let e = flow_table T pos;
     flags \<leftarrow> (if ether_type (fe_key e) = ETHER_TYPE_IPv4 \<and> ip_proto (fe_key e) = IPPROTO_TCP
               then do { f \<leftarrow> ld8 pkt (14 + 20 + 13); Some (tcp_flags (fe_stats e) OR (f AND 0x3f)) }
               else Some (tcp_flags (fe_stats e)));
     Some (set_entry pos (\<lambda>e. e\<lparr>fe_stats := (fe_stats e)\<lparr>tcp_flags := flags, used := curr_tsc now,
        packet_count := packet_count (fe_stats e) + 1, byte_count := byte_count (fe_stats e) + ucast data_len\<rparr>\<rparr>) T) }"

section \<open>Abstraction and invariant\<close>

definition flows :: "('h \<Rightarrow> flow_key \<rightharpoonup> nat) \<Rightarrow> 'h flow_state \<Rightarrow> flow_key \<rightharpoonup> action list \<times> flow_stats" where
  "flows \<alpha> T = (\<lambda>k. map_option (\<lambda>p. (fe_actions (flow_table T p), fe_stats (flow_table T p))) (\<alpha> (handle T) k))"

text \<open>
  The array and the hash table agree: an entry is enabled exactly when some key has its position, it then holds
  that key, and an entry that is not enabled is all zero.
\<close>

definition flow_inv :: "'h rte_hash \<Rightarrow> ('h \<Rightarrow> flow_key \<rightharpoonup> nat) \<Rightarrow> 'h flow_state \<Rightarrow> bool" where
  "flow_inv H \<alpha> T \<longleftrightarrow> rte_hash_ok H \<alpha> \<and>
     (\<forall>k p. \<alpha> (handle T) k = Some p \<longrightarrow> fe_enabled (flow_table T p) \<and> fe_key (flow_table T p) = k) \<and>
     (\<forall>p < MAX_FLOWS. p \<notin> ran (\<alpha> (handle T)) \<longrightarrow> flow_table T p = zero_entry)"

section \<open>The contract of a flow store\<close>

text \<open>
  What the datapath relies on: a partial map from keys to actions and statistics under the four updates. Adding
  may fail for a new key when the store is full. The client's view of a sequence of updates is proved from it.
\<close>

datatype flow_op = FAdd flow_key "action list" | FMod flow_key "action list" bool | FDel flow_key | FFlush

fun op_key :: "flow_op \<Rightarrow> flow_key option" where
  "op_key (FAdd k a) = Some k"
| "op_key (FMod k a c) = Some k"
| "op_key (FDel k) = Some k"
| "op_key FFlush = None"

locale flow_store =
  fixes inv :: "'s \<Rightarrow> bool" and fmap :: "'s \<Rightarrow> flow_key \<rightharpoonup> action list \<times> flow_stats"
    and add :: "flow_key \<Rightarrow> action list \<Rightarrow> 's \<Rightarrow> int \<times> 's"
    and modf :: "flow_key \<Rightarrow> action list \<Rightarrow> bool \<Rightarrow> 's \<Rightarrow> int \<times> 's"
    and del :: "flow_key \<Rightarrow> 's \<Rightarrow> int \<times> 's"
    and del_all :: "'s \<Rightarrow> 's"
  assumes add_inv: "inv s \<Longrightarrow> inv (snd (add k a s))"
    and add_old: "inv s \<Longrightarrow> fmap s k = Some v \<Longrightarrow> fst (add k a s) = -1 \<and> fmap (snd (add k a s)) = fmap s"
    and add_new: "inv s \<Longrightarrow> fmap s k = None \<Longrightarrow>
      (fst (add k a s) = -1 \<and> fmap (snd (add k a s)) = fmap s) \<or>
      (0 \<le> fst (add k a s) \<and> fmap (snd (add k a s)) = (fmap s)(k \<mapsto> (a, zero_stats)))"
    and mod_inv: "inv s \<Longrightarrow> inv (snd (modf k a c s))"
    and mod_old: "inv s \<Longrightarrow> fmap s k = Some (b, st) \<Longrightarrow> 0 \<le> fst (modf k a c s) \<and>
      fmap (snd (modf k a c s)) = (fmap s)(k \<mapsto> (a, if c then zero_stats else st))"
    and mod_new: "inv s \<Longrightarrow> fmap s k = None \<Longrightarrow> modf k a c s = (-1, s)"
    and del_inv: "inv s \<Longrightarrow> inv (snd (del k s))"
    and del_old: "inv s \<Longrightarrow> fmap s k = Some v \<Longrightarrow> 0 \<le> fst (del k s) \<and> fmap (snd (del k s)) = (fmap s)(k := None)"
    and del_new: "inv s \<Longrightarrow> fmap s k = None \<Longrightarrow> fst (del k s) = -1 \<and> fmap (snd (del k s)) = fmap s"
    and del_all_inv: "inv s \<Longrightarrow> inv (del_all s)"
    and del_all_fmap: "inv s \<Longrightarrow> fmap (del_all s) = Map.empty"
begin

definition run_op :: "flow_op \<Rightarrow> 's \<Rightarrow> 's" where
  "run_op p s = (case p of FAdd k a \<Rightarrow> snd (add k a s) | FMod k a c \<Rightarrow> snd (modf k a c s)
     | FDel k \<Rightarrow> snd (del k s) | FFlush \<Rightarrow> del_all s)"

lemma run_op_inv: "inv s \<Longrightarrow> inv (run_op p s)"
  by (cases p) (simp_all add: run_op_def add_inv mod_inv del_inv del_all_inv)

lemma run_inv: "inv s \<Longrightarrow> inv (fold run_op ps s)"
  by (induction ps arbitrary: s) (simp_all add: run_op_inv)

lemma run_op_other:
  assumes "inv s" "op_key p = Some k'" "k' \<noteq> k"
  shows "fmap (run_op p s) k = fmap s k"
proof (cases p)
  case (FAdd k1 a)
  then show ?thesis using assms add_old [of s k1 _ a] add_new [of s k1 a]
    by (cases "fmap s k1") (auto simp: run_op_def)
next
  case (FMod k1 a c)
  then show ?thesis using assms mod_old [of s k1 _ _ a c] mod_new [of s k1 a c]
    by (cases "fmap s k1") (auto simp: run_op_def)
next
  case (FDel k1)
  then show ?thesis using assms del_old [of s k1] del_new [of s k1]
    by (cases "fmap s k1") (auto simp: run_op_def)
next
  case FFlush
  then show ?thesis using assms by simp
qed

lemma run_other:
  "inv s \<Longrightarrow> \<forall>p \<in> set ps. op_key p \<noteq> None \<and> op_key p \<noteq> Some k \<Longrightarrow> fmap (fold run_op ps s) k = fmap s k"
proof (induction ps arbitrary: s)
  case (Cons p ps)
  then obtain k' where "op_key p = Some k'" "k' \<noteq> k" by auto
  then show ?case using Cons run_op_inv [of s p] run_op_other [of s p k' k] by simp
qed simp

lemma del_none: "inv s \<Longrightarrow> fmap (snd (del k s)) k = None"
  using del_old [of s k] del_new [of s k] by (cases "fmap s k") auto

lemma absent_after_flush_or_del:
  assumes "inv s" "p = FFlush \<or> p = FDel k" "\<forall>p \<in> set ps. op_key p \<noteq> None \<and> op_key p \<noteq> Some k"
  shows "fmap (fold run_op (p # ps) s) k = None"
  using assms run_other [OF run_op_inv [OF assms(1), of p] assms(3)]
  by (auto simp: run_op_def del_all_fmap del_none)

end

section \<open>The table implements the contract\<close>

lemma hash_pos: "rte_hash_ok H \<alpha> \<Longrightarrow> \<alpha> h k = Some p \<Longrightarrow> p < MAX_FLOWS"
  unfolding rte_hash_ok_def by metis

lemma hash_inj: "rte_hash_ok H \<alpha> \<Longrightarrow> \<alpha> h k = Some p \<Longrightarrow> \<alpha> h k' = Some p \<Longrightarrow> k = k'"
  unfolding rte_hash_ok_def by metis

lemma hash_lookup_eq: "rte_hash_ok H \<alpha> \<Longrightarrow> hash_lookup H h k = (case \<alpha> h k of Some p \<Rightarrow> int p | None \<Rightarrow> - ENOENT)"
  unfolding rte_hash_ok_def by metis

lemma hash_add_None:
  assumes "rte_hash_ok H \<alpha>" "hash_add_key H h k = (r, h')" "\<alpha> h k = None"
  shows "r = - ENOSPC \<and> \<alpha> h' = \<alpha> h \<or> (\<exists>p. r = int p \<and> p \<notin> ran (\<alpha> h) \<and> \<alpha> h' = (\<alpha> h)(k \<mapsto> p))"
proof -
  have "case \<alpha> h k of Some p \<Rightarrow> r = int p \<and> \<alpha> h' = \<alpha> h
      | None \<Rightarrow> r = - ENOSPC \<and> \<alpha> h' = \<alpha> h \<or> (\<exists>p. r = int p \<and> p \<notin> ran (\<alpha> h) \<and> \<alpha> h' = (\<alpha> h)(k \<mapsto> p))"
    using assms(1,2) unfolding rte_hash_ok_def by blast
  then show ?thesis using assms(3) by simp
qed

lemma hash_del_eq:
  assumes "rte_hash_ok H \<alpha>" "hash_del_key H h k = (r, h')"
  shows "\<alpha> h' = (\<alpha> h)(k := None) \<and> r = (case \<alpha> h k of Some p \<Rightarrow> int p | None \<Rightarrow> - ENOENT)"
proof -
  have "case \<alpha> h k of Some p \<Rightarrow> r = int p \<and> \<alpha> h' = (\<alpha> h)(k := None) | None \<Rightarrow> r = - ENOENT \<and> \<alpha> h' = \<alpha> h"
    using assms unfolding rte_hash_ok_def by blast
  then show ?thesis by (cases "\<alpha> h k") (auto simp: fun_upd_idem)
qed

lemma flow_inv_hash [dest]: "flow_inv H \<alpha> T \<Longrightarrow> rte_hash_ok H \<alpha>"
  by (simp add: flow_inv_def)

lemma flow_inv_entry: "flow_inv H \<alpha> T \<Longrightarrow> \<alpha> (handle T) k = Some p \<Longrightarrow>
  p < MAX_FLOWS \<and> fe_enabled (flow_table T p) \<and> fe_key (flow_table T p) = k"
  by (auto simp: flow_inv_def dest: hash_pos)

lemma flow_inv_free: "flow_inv H \<alpha> T \<Longrightarrow> p < MAX_FLOWS \<Longrightarrow> p \<notin> ran (\<alpha> (handle T)) \<Longrightarrow> flow_table T p = zero_entry"
  by (simp add: flow_inv_def)

lemma lookup_cases:
  assumes "flow_inv H \<alpha> T"
  obtains (found) p where "\<alpha> (handle T) k = Some p" "p < MAX_FLOWS" "flow_table_lookup H T k = int p" "\<not> bad_pos (int p)"
  | (absent) "\<alpha> (handle T) k = None" "flow_table_lookup H T k < 0" "bad_pos (flow_table_lookup H T k)"
proof (cases "\<alpha> (handle T) k")
  case None
  then show ?thesis using absent hash_lookup_eq [OF flow_inv_hash [OF assms], of "handle T" k]
    by (simp add: flow_table_lookup_def bad_pos_def ENOENT_def)
next
  case (Some p)
  then show ?thesis using found hash_lookup_eq [OF flow_inv_hash [OF assms], of "handle T" k] flow_inv_entry [OF assms Some]
    by (simp add: flow_table_lookup_def bad_pos_def)
qed

lemma flows_None_iff: "flows \<alpha> T k = None \<longleftrightarrow> \<alpha> (handle T) k = None"
  by (simp add: flows_def)

lemma flow_inv_init: "rte_hash_ok H \<alpha> \<Longrightarrow> \<alpha> h = Map.empty \<Longrightarrow> flow_inv H \<alpha> (flow_table_init h)"
  by (simp add: flow_inv_def flow_table_init_def)

lemma clear_stats_entry: "flow_table_clear_stats p T = set_entry p (\<lambda>e. e\<lparr>fe_stats := zero_stats\<rparr>) T"
  by (cases "fe_stats (flow_table T p)") (simp add: flow_table_clear_stats_def zero_stats_def set_entry_def)

lemma set_entry_twice [simp]: "set_entry p f (set_entry p g T) = set_entry p (f \<circ> g) T"
  by (simp add: set_entry_def)

lemma handle_set_entry [simp]: "handle (set_entry p f T) = handle T"
  by (simp add: set_entry_def)

lemma table_set_entry [simp]: "flow_table (set_entry p f T) q = (if q = p then f (flow_table T p) else flow_table T q)"
  by (simp add: set_entry_def)

lemma entry_updated [simp]:
  "e\<lparr>fe_key := k, fe_enabled := b, fe_actions := a, fe_stats := s\<rparr> =
    \<lparr>fe_key = k, fe_stats = s, fe_enabled = b, fe_actions = a\<rparr>"
  "e\<lparr>fe_key := k, fe_actions := a, fe_enabled := b, fe_stats := s\<rparr> =
    \<lparr>fe_key = k, fe_stats = s, fe_enabled = b, fe_actions = a\<rparr>" for e :: flow_table_entry
  by (cases e, simp)+

text \<open>An update of the entry of a present key that keeps its key and flag.\<close>

lemma set_entry_present:
  assumes "flow_inv H \<alpha> T" "\<alpha> (handle T) k = Some p" "\<And>e. fe_key (f e) = fe_key e" "\<And>e. fe_enabled e \<Longrightarrow> fe_enabled (f e)"
  shows "flow_inv H \<alpha> (set_entry p f T)"
    "flows \<alpha> (set_entry p f T) = (flows \<alpha> T)(k \<mapsto> (fe_actions (f (flow_table T p)), fe_stats (f (flow_table T p))))"
proof -
  show "flow_inv H \<alpha> (set_entry p f T)"
    using assms unfolding flow_inv_def by (auto simp: ran_def)
  show "flows \<alpha> (set_entry p f T) = (flows \<alpha> T)(k \<mapsto> (fe_actions (f (flow_table T p)), fe_stats (f (flow_table T p))))"
  proof
    fix k'
    show "flows \<alpha> (set_entry p f T) k' =
        ((flows \<alpha> T)(k \<mapsto> (fe_actions (f (flow_table T p)), fe_stats (f (flow_table T p))))) k'"
      using assms(2) hash_inj [OF flow_inv_hash [OF assms(1)], of "handle T" k' p k]
      by (cases "\<alpha> (handle T) k'") (auto simp: flows_def)
  qed
qed

lemma add_flow_cases:
  assumes "flow_inv H \<alpha> T"
  obtains (old) "\<alpha> (handle T) k \<noteq> None" "flow_table_add_flow H k a T = (-1, T)"
  | (full) h where "\<alpha> (handle T) k = None" "\<alpha> h = \<alpha> (handle T)" "flow_table_add_flow H k a T = (-1, T\<lparr>handle := h\<rparr>)"
  | (new) h p where "\<alpha> (handle T) k = None" "p < MAX_FLOWS" "p \<notin> ran (\<alpha> (handle T))" "\<alpha> h = (\<alpha> (handle T))(k \<mapsto> p)"
      "flow_table_add_flow H k a T =
         (int p, set_entry p (\<lambda>_. \<lparr>fe_key = k, fe_stats = zero_stats, fe_enabled = True, fe_actions = a\<rparr>) (T\<lparr>handle := h\<rparr>))"
proof (cases rule: lookup_cases [OF assms, of k, case_names found absent])
  case (found p)
  then show ?thesis using old by (simp add: flow_table_add_flow_def)
next
  case absent
  obtain r h where e: "hash_add_key H (handle T) k = (r, h)" by fastforce
  have "r = - ENOSPC \<and> \<alpha> h = \<alpha> (handle T) \<or>
      (\<exists>p. r = int p \<and> p \<notin> ran (\<alpha> (handle T)) \<and> \<alpha> h = (\<alpha> (handle T))(k \<mapsto> p))"
    by (rule hash_add_None [OF flow_inv_hash [OF assms] e absent(1)])
  then show ?thesis
  proof (elim disjE exE conjE)
    assume "r = - ENOSPC" "\<alpha> h = \<alpha> (handle T)"
    then show ?thesis using full [of h] absent e by (simp add: flow_table_add_flow_def bad_pos_def ENOSPC_def)
  next
    fix p assume p: "r = int p" "p \<notin> ran (\<alpha> (handle T))" "\<alpha> h = (\<alpha> (handle T))(k \<mapsto> p)"
    have "p < MAX_FLOWS" using hash_pos [OF flow_inv_hash [OF assms], of h k p] p by simp
    then show ?thesis
      using new [of p h] absent e p by (simp add: flow_table_add_flow_def bad_pos_def clear_stats_entry comp_def set_entry_def)
  qed
qed

lemma add_flow_inv:
  assumes "flow_inv H \<alpha> T"
  shows "flow_inv H \<alpha> (snd (flow_table_add_flow H k a T))"
proof (cases rule: add_flow_cases [OF assms, of k a, case_names old full new])
  case (new h p)
  then show ?thesis using assms unfolding flow_inv_def by (auto simp: ran_map_upd intro: ranI)
qed (use assms in \<open>auto simp: flow_inv_def\<close>)

lemma del_flow_cases:
  assumes "flow_inv H \<alpha> T"
  obtains (old) h p where "\<alpha> (handle T) k = Some p" "p < MAX_FLOWS" "\<alpha> h = (\<alpha> (handle T))(k := None)"
      "flow_table_del_flow H k T = (int p, set_entry p (\<lambda>_. zero_entry) (T\<lparr>handle := h\<rparr>))"
  | (absent) h where "\<alpha> (handle T) k = None" "\<alpha> h = \<alpha> (handle T)" "flow_table_del_flow H k T = (-1, T\<lparr>handle := h\<rparr>)"
proof -
  obtain r h where e: "hash_del_key H (handle T) k = (r, h)" by fastforce
  have h: "\<alpha> h = (\<alpha> (handle T))(k := None)" "r = (case \<alpha> (handle T) k of Some p \<Rightarrow> int p | None \<Rightarrow> - ENOENT)"
    using hash_del_eq [OF flow_inv_hash [OF assms] e] by auto
  show ?thesis
  proof (cases "\<alpha> (handle T) k")
    case None
    then have "\<alpha> h = \<alpha> (handle T)" using h(1) by (metis fun_upd_triv)
    then show ?thesis using absent [of h] None h e by (simp add: flow_table_del_flow_def bad_pos_def ENOENT_def)
  next
    case (Some p)
    then show ?thesis
      using old [of p h] h e flow_inv_entry [OF assms Some]
      by (simp add: flow_table_del_flow_def bad_pos_def clear_stats_entry comp_def wipe_entry_def zero_entry_def set_entry_def)
  qed
qed

lemma del_flow_inv:
  assumes "flow_inv H \<alpha> T"
  shows "flow_inv H \<alpha> (snd (flow_table_del_flow H k T))"
proof (cases rule: del_flow_cases [OF assms, of k, case_names old absent])
  case (old h p)
  have k: "\<alpha> (handle T) k' = Some p \<Longrightarrow> k' = k" for k'
    using old(1) hash_inj [OF flow_inv_hash [OF assms]] by blast
  have "ran (\<alpha> (handle T)) \<subseteq> insert p (ran (\<alpha> h))"
    using old(1,3) by (auto simp: ran_def) (metis option.inject)
  then have f: "q < MAX_FLOWS \<Longrightarrow> q \<noteq> p \<Longrightarrow> q \<notin> ran (\<alpha> h) \<Longrightarrow> flow_table T q = zero_entry" for q
    using flow_inv_free [OF assms] by blast
  have e: "\<alpha> h k' = Some q \<Longrightarrow> q \<noteq> p \<and> fe_enabled (flow_table T q) \<and> fe_key (flow_table T q) = k'" for k' q
    using old(3) k flow_inv_entry [OF assms] by (auto split: if_splits)
  show ?thesis
    unfolding flow_inv_def old(4) using flow_inv_hash [OF assms] e f by simp
qed (use assms in \<open>auto simp: flow_inv_def\<close>)

lemma mod_flow_present:
  assumes "flow_inv H \<alpha> T" "\<alpha> (handle T) k = Some p"
  shows "flow_table_mod_flow H k a c T = (int p, set_entry p (\<lambda>e. e\<lparr>fe_stats := (if c then zero_stats else fe_stats e),
    fe_actions := a, fe_enabled := True\<rparr>) T)"
  using assms(2)
proof (cases rule: lookup_cases [OF assms(1), of k, case_names found absent])
  case (found q)
  then show ?thesis using assms(2)
    by (simp add: flow_table_mod_flow_def Let_def clear_stats_entry comp_def set_entry_def)
qed simp

lemma del_slot_step:
  assumes "rte_hash_ok H \<alpha>"
    and "\<forall>k q. \<alpha> (handle T) k = Some q \<longrightarrow> p \<le> q \<and> fe_key (flow_table T q) = k" "\<forall>q < p. flow_table T q = zero_entry"
  shows "\<forall>k q. \<alpha> (handle (del_slot H p T)) k = Some q \<longrightarrow> Suc p \<le> q \<and> fe_key (flow_table (del_slot H p T) q) = k"
    "\<forall>q < Suc p. flow_table (del_slot H p T) q = zero_entry"
proof -
  let ?k = "fe_key (flow_table T p)"
  have h: "\<alpha> (snd (hash_del_key H (handle T) ?k)) = (\<alpha> (handle T))(?k := None)"
    using hash_del_eq [OF assms(1), of "handle T" ?k] by (metis prod.collapse)
  have t: "flow_table (del_slot H p T) q = (if q = p then zero_entry else flow_table T q)" for q
    by (simp add: del_slot_def Let_def clear_stats_entry wipe_entry_def zero_entry_def)
  have hd: "\<alpha> (handle (del_slot H p T)) = (\<alpha> (handle T))(?k := None)"
    using h by (simp add: del_slot_def Let_def clear_stats_entry)
  show "\<forall>q < Suc p. flow_table (del_slot H p T) q = zero_entry"
    using assms(3) by (simp add: t less_Suc_eq)
  show "\<forall>k q. \<alpha> (handle (del_slot H p T)) k = Some q \<longrightarrow> Suc p \<le> q \<and> fe_key (flow_table (del_slot H p T) q) = k"
  proof (intro allI impI)
    fix k q assume "\<alpha> (handle (del_slot H p T)) k = Some q"
    then have "k \<noteq> ?k" and kq: "\<alpha> (handle T) k = Some q" by (auto simp: hd split: if_splits)
    moreover have "p \<le> q" "fe_key (flow_table T q) = k" using assms(2) kq by auto
    ultimately have "q \<noteq> p" by auto
    then show "Suc p \<le> q \<and> fe_key (flow_table (del_slot H p T) q) = k"
      using \<open>p \<le> q\<close> \<open>fe_key (flow_table T q) = k\<close> by (simp add: t)
  qed
qed

lemma del_all_empty:
  assumes "flow_inv H \<alpha> T"
  shows "\<alpha> (handle (flow_table_del_all H T)) = Map.empty" "\<forall>q < MAX_FLOWS. flow_table (flow_table_del_all H T) q = zero_entry"
proof -
  let ?I = "\<lambda>p (T :: 'a flow_state). (\<forall>k q. \<alpha> (handle T) k = Some q \<longrightarrow> p \<le> q \<and> fe_key (flow_table T q) = k) \<and> (\<forall>q < p. flow_table T q = zero_entry)"
  have h: "rte_hash_ok H \<alpha>" using assms by blast
  have i: "?I MAX_FLOWS (flow_table_del_all H T)"
    unfolding flow_table_del_all_def
  proof (rule for_loop_inv)
    show "?I 0 T" using flow_inv_entry [OF assms] by simp
  next
    fix p S assume "0 \<le> p" "p < MAX_FLOWS" "?I p S"
    then show "?I (Suc p) (del_slot H p S)" using del_slot_step [OF h, of S p] by blast
  qed simp
  then have "\<alpha> (handle (flow_table_del_all H T)) k = None" for k
    using hash_pos [OF h, of _ k] by (cases "\<alpha> (handle (flow_table_del_all H T)) k") (auto simp: not_le [symmetric])
  then show "\<alpha> (handle (flow_table_del_all H T)) = Map.empty" by auto
  from i show "\<forall>q < MAX_FLOWS. flow_table (flow_table_del_all H T) q = zero_entry" by blast
qed

interpretation ft: flow_store "flow_inv H \<alpha>" "flows \<alpha>" "flow_table_add_flow H" "flow_table_mod_flow H"
  "flow_table_del_flow H" "flow_table_del_all H" for H \<alpha>
proof unfold_locales
  fix s :: "'a flow_state" and k a c v b st
  assume i: "flow_inv H \<alpha> s"
  show "flow_inv H \<alpha> (snd (flow_table_add_flow H k a s))" by (rule add_flow_inv [OF i])
  show "flow_inv H \<alpha> (snd (flow_table_del_flow H k s))" by (rule del_flow_inv [OF i])
  show "flow_inv H \<alpha> (flow_table_del_all H s)"
    using i del_all_empty [OF i] by (auto simp: flow_inv_def)
  show "flows \<alpha> (flow_table_del_all H s) = Map.empty"
    using del_all_empty(1) [OF i] by (simp add: flows_def)
  show "flow_inv H \<alpha> (snd (flow_table_mod_flow H k a c s))"
  proof (cases rule: lookup_cases [OF i, of k, case_names found absent])
    case (found p)
    then show ?thesis by (simp add: mod_flow_present [OF i] set_entry_present(1) [OF i])
  qed (simp add: flow_table_mod_flow_def i)
  show "0 \<le> fst (flow_table_mod_flow H k a c s) \<and>
      flows \<alpha> (snd (flow_table_mod_flow H k a c s)) = (flows \<alpha> s)(k \<mapsto> (a, if c then zero_stats else st))"
    if v: "flows \<alpha> s k = Some (b, st)"
  proof -
    obtain p where "\<alpha> (handle s) k = Some p" "fe_stats (flow_table s p) = st" using v by (auto simp: flows_def)
    then show ?thesis by (simp add: mod_flow_present [OF i] set_entry_present(2) [OF i])
  qed
  show "flow_table_mod_flow H k a c s = (-1, s)" if "flows \<alpha> s k = None"
    using that i by (cases rule: lookup_cases [OF i, of k, case_names found absent]) (simp_all add: flows_None_iff flow_table_mod_flow_def)
  show "fst (flow_table_add_flow H k a s) = -1 \<and> flows \<alpha> (snd (flow_table_add_flow H k a s)) = flows \<alpha> s"
    if "flows \<alpha> s k = Some v"
    using that by (cases rule: add_flow_cases [OF i, of k a, case_names old full new]) (simp_all add: flows_def)
  show "(fst (flow_table_add_flow H k a s) = -1 \<and> flows \<alpha> (snd (flow_table_add_flow H k a s)) = flows \<alpha> s) \<or>
      (0 \<le> fst (flow_table_add_flow H k a s) \<and> flows \<alpha> (snd (flow_table_add_flow H k a s)) = (flows \<alpha> s)(k \<mapsto> (a, zero_stats)))"
    if "flows \<alpha> s k = None"
  proof (cases rule: add_flow_cases [OF i, of k a, case_names old full new])
    case (new h p)
    then have "\<alpha> (handle s) k' \<noteq> Some p" for k' by (auto simp: ran_def)
    then show ?thesis using new by (auto simp: flows_def fun_eq_iff map_option_case split: option.splits)
  qed (use that in \<open>simp_all add: flows_def\<close>)
  show "0 \<le> fst (flow_table_del_flow H k s) \<and> flows \<alpha> (snd (flow_table_del_flow H k s)) = (flows \<alpha> s)(k := None)"
    if "flows \<alpha> s k = Some v"
  proof (cases rule: del_flow_cases [OF i, of k, case_names old absent])
    case (old h p)
    then have "k' \<noteq> k \<Longrightarrow> \<alpha> (handle s) k' \<noteq> Some p" for k' using hash_inj [OF flow_inv_hash [OF i]] by blast
    then show ?thesis using old by (auto simp: flows_def fun_eq_iff map_option_case split: option.splits)
  qed (use that in \<open>simp add: flows_def\<close>)
  show "fst (flow_table_del_flow H k s) = -1 \<and> flows \<alpha> (snd (flow_table_del_flow H k s)) = flows \<alpha> s"
    if "flows \<alpha> s k = None"
    using that by (cases rule: del_flow_cases [OF i, of k, case_names old absent]) (simp_all add: flows_def)
qed

section \<open>Enumeration\<close>

lemma enabled_ran: "flow_inv H \<alpha> T \<Longrightarrow> p < MAX_FLOWS \<Longrightarrow> fe_enabled (flow_table T p) \<longleftrightarrow> p \<in> ran (\<alpha> (handle T))"
  using flow_inv_entry [of H \<alpha> T _ p] flow_inv_free [of H \<alpha> T p]
  by (cases "p \<in> ran (\<alpha> (handle T))") (auto simp: ran_def zero_entry_def)

lemma enabled_alpha: "flow_inv H \<alpha> T \<Longrightarrow> p < MAX_FLOWS \<Longrightarrow> fe_enabled (flow_table T p) \<Longrightarrow>
  \<alpha> (handle T) (fe_key (flow_table T p)) = Some p"
  using enabled_ran [of H \<alpha> T p] flow_inv_entry [of H \<alpha> T] by (auto simp: ran_def)

text \<open>What is reported of an entry: its data, with the time of its last use on the system's clock.\<close>

definition reported :: "dp_time \<Rightarrow> flow_table_entry \<Rightarrow> flow_key \<times> action list \<times> flow_stats" where
  "reported now e = (fe_key e, fe_actions e, (fe_stats e)\<lparr>used :=
     if used (fe_stats e) = 0 then 0
     else tv_sec now * 1000 + tv_nsec now div 1000000 - (curr_tsc now - used (fe_stats e)) * 1000 div cpu_freq now\<rparr>)"

lemma copy_entry_enabled:
  "cpu_freq now \<noteq> 0 \<Longrightarrow> fe_enabled (flow_table T p) \<Longrightarrow>
     copy_entry_from_table now p T = Some (int p, Some (reported now (flow_table T p)))"
  by (simp add: copy_entry_from_table_def reported_def ovs_flow_used_time_def Let_def)

lemma get_next_flow_present:
  assumes "flow_inv H \<alpha> T" "\<alpha> (handle T) k = Some p"
  shows "flow_table_get_next_flow H now k T = copy_next_from now (Suc p) T"
  using assms(2)
  by (cases rule: lookup_cases [OF assms(1), of k, case_names found absent]) (simp_all add: flow_table_get_next_flow_def)

section \<open>A concrete hash table\<close>

text \<open>
  An instance of the library's contract: a list of slots, searched from the front; a new key goes to the end. It
  shows that the contract can be met.
\<close>

type_synonym slots = "flow_key option list"

definition slots_map :: "slots \<Rightarrow> flow_key \<rightharpoonup> nat" where
  "slots_map h k = find_from 0 (min (length h) MAX_FLOWS) (\<lambda>i. h ! i = Some k)"

definition slots_hash :: "slots rte_hash" where
  "slots_hash = \<lparr>
     hash_lookup = (\<lambda>h k. case slots_map h k of Some p \<Rightarrow> int p | None \<Rightarrow> - ENOENT),
     hash_add_key = (\<lambda>h k. case slots_map h k of Some p \<Rightarrow> (int p, h)
        | None \<Rightarrow> if length h < MAX_FLOWS then (int (length h), h @ [Some k]) else (- ENOSPC, h)),
     hash_del_key = (\<lambda>h k. (case slots_map h k of Some p \<Rightarrow> int p | None \<Rightarrow> - ENOENT,
        map (\<lambda>x. if x = Some k then None else x) h))\<rparr>"

lemma slots_map_Some: "slots_map h k = Some p \<longleftrightarrow>
  p < length h \<and> p < MAX_FLOWS \<and> h ! p = Some k \<and> (\<forall>j < p. h ! j \<noteq> Some k)"
  by (auto simp: slots_map_def find_from_Some_iff)

lemma slots_map_None: "slots_map h k = None \<longleftrightarrow> (\<forall>j. j < length h \<longrightarrow> j < MAX_FLOWS \<longrightarrow> h ! j \<noteq> Some k)"
  by (auto simp: slots_map_def find_from_None_iff)

lemma option_eqI: "(\<And>p. x = Some p \<longleftrightarrow> y = Some p) \<Longrightarrow> x = y"
  by (cases x; cases y) auto

lemma slots_add:
  assumes "length h < MAX_FLOWS" "slots_map h k = None"
  shows "slots_map (h @ [Some k]) = (slots_map h)(k \<mapsto> length h)"
proof
  fix k'
  show "slots_map (h @ [Some k]) k' = ((slots_map h)(k \<mapsto> length h)) k'"
    using assms
    by (intro option_eqI)
      (auto simp: slots_map_Some slots_map_None nth_append less_Suc_eq split: if_splits)
qed

lemma slots_del: "slots_map (map (\<lambda>x. if x = Some k then None else x) h) = (slots_map h)(k := None)"
proof
  fix k'
  show "slots_map (map (\<lambda>x. if x = Some k then None else x) h) k' = ((slots_map h)(k := None)) k'"
    by (intro option_eqI) (auto simp: slots_map_Some split: if_splits)
qed

lemma slots_hash_ok: "rte_hash_ok slots_hash slots_map"
proof -
  have "slots_map h k = Some p \<Longrightarrow> p < length h" for h k p by (simp add: slots_map_Some)
  then have r: "length h \<notin> ran (slots_map h)" for h by (auto simp: ran_def)
  have d: "slots_map h k = None \<Longrightarrow> (slots_map h)(k := None) = slots_map h" for h k by (simp add: fun_upd_idem)
  have "\<alpha> = slots_map \<Longrightarrow> rte_hash_ok slots_hash \<alpha>" for \<alpha>
    unfolding rte_hash_ok_def
    by (intro conjI allI impI)
      (auto simp: slots_hash_def slots_add slots_del r d slots_map_Some [THEN iffD1] split: option.splits if_splits
        dest!: slots_map_Some [THEN iffD1])
  then show ?thesis by simp
qed

section \<open>Properties\<close>

text \<open>C5: On a table in its invariant the operations act on the map from keys to actions and statistics. Adding a key
  that is present fails and changes nothing; adding a new key either fails and changes nothing or binds it with
  zero statistics. Modifying replaces the actions and clears the statistics on demand, deleting unbinds, and
  each fails exactly on an absent key. Deleting all leaves the empty map. The invariant is kept.\<close>

theorem flow_table_refines_map:
  assumes "flow_inv H \<alpha> T"
    and "flow_table_add_flow H k a T = (r1, T1)" "flow_table_mod_flow H k a c T = (r2, T2)"
    and "flow_table_del_flow H k T = (r3, T3)"
  shows "flow_inv H \<alpha> T1 \<and> flow_inv H \<alpha> T2 \<and> flow_inv H \<alpha> T3 \<and> flow_inv H \<alpha> (flow_table_del_all H T) \<and>
    flows \<alpha> (flow_table_del_all H T) = Map.empty \<and>
    (case flows \<alpha> T k of
       None \<Rightarrow> (r1 = -1 \<and> flows \<alpha> T1 = flows \<alpha> T \<or> 0 \<le> r1 \<and> flows \<alpha> T1 = (flows \<alpha> T)(k \<mapsto> (a, zero_stats))) \<and>
         (r2 = -1 \<and> T2 = T) \<and> (r3 = -1 \<and> flows \<alpha> T3 = flows \<alpha> T)
     | Some (b, st) \<Rightarrow> (r1 = -1 \<and> flows \<alpha> T1 = flows \<alpha> T) \<and>
         (0 \<le> r2 \<and> flows \<alpha> T2 = (flows \<alpha> T)(k \<mapsto> (a, if c then zero_stats else st))) \<and>
         (0 \<le> r3 \<and> flows \<alpha> T3 = (flows \<alpha> T)(k := None)))"
proof (cases "flows \<alpha> T k")
  case None
  then show ?thesis
    using assms ft.add_inv [OF assms(1), of k a] ft.add_new [OF assms(1) None, of a] ft.mod_new [OF assms(1) None, of a c]
      ft.del_inv [OF assms(1), of k] ft.del_new [OF assms(1) None] ft.del_all_inv [OF assms(1)] ft.del_all_fmap [OF assms(1)]
    by simp
next
  case (Some v)
  obtain b st where v: "v = (b, st)" by (cases v)
  show ?thesis
    using assms Some ft.add_inv [OF assms(1), of k a] ft.add_old [OF assms(1) Some, of a] ft.mod_inv [OF assms(1), of k a c]
      ft.mod_old [OF assms(1) Some [unfolded v], of a c]
      ft.del_inv [OF assms(1), of k] ft.del_old [OF assms(1) Some] ft.del_all_inv [OF assms(1)] ft.del_all_fmap [OF assms(1)]
    by (simp add: v)
qed

definition example_table :: "slots flow_state" where
  "example_table = snd (flow_table_add_flow slots_hash example_key zero_actions (flow_table_init []))"

lemma init_example: "flow_inv slots_hash slots_map (flow_table_init [])"
  by (rule flow_inv_init [OF slots_hash_ok]) (simp add: fun_eq_iff slots_map_def find_from_def)

lemma example_table_inv: "flow_inv slots_hash slots_map example_table"
  unfolding example_table_def by (rule ft.add_inv [OF init_example])

lemma example_lookup: "slots_map (handle example_table) example_key = Some 0"
  by (simp add: example_table_def flow_table_add_flow_def flow_table_init_def flow_table_lookup_def slots_hash_def
      slots_map_def find_from_def ENOENT_def bad_pos_def MAX_FLOWS_def clear_stats_entry)

theorem flow_table_refines_map_witness:
  "flow_inv slots_hash slots_map (flow_table_del_all slots_hash example_table) \<and>
   flows slots_map example_table example_key \<noteq> None \<and>
   flows slots_map (snd (flow_table_del_flow slots_hash example_key example_table)) =
     (flows slots_map example_table)(example_key := None)"
proof -
  obtain b st where b: "flows slots_map example_table example_key = Some (b, st)"
    using example_lookup by (auto simp: flows_def)
  show ?thesis
    using flow_table_refines_map [OF example_table_inv prod.collapse [symmetric] prod.collapse [symmetric]
        prod.collapse [symmetric], of example_key zero_actions False] b
    by simp
qed

text \<open>Sequences of updates.\<close>

definition flow_table_op :: "'h rte_hash \<Rightarrow> flow_op \<Rightarrow> 'h flow_state \<Rightarrow> 'h flow_state" where
  "flow_table_op H p T = (case p of FAdd k a \<Rightarrow> snd (flow_table_add_flow H k a T)
     | FMod k a c \<Rightarrow> snd (flow_table_mod_flow H k a c T) | FDel k \<Rightarrow> snd (flow_table_del_flow H k T)
     | FFlush \<Rightarrow> flow_table_del_all H T)"

lemma flow_table_op_run: "flow_table_op H = ft.run_op H"
  by (simp add: fun_eq_iff flow_table_op_def ft.run_op_def)

text \<open>C31: From the initial table every sequence of updates keeps the array and the hash table in agreement, and a key
  that was deleted, or flushed with all others, stays absent until an update names it again.\<close>

theorem flow_table_run:
  assumes "rte_hash_ok H \<alpha>" "\<alpha> h = Map.empty" "T = fold (flow_table_op H) ps (flow_table_init h)"
    and "p = FFlush \<or> p = FDel k" "\<forall>q \<in> set qs. op_key q \<noteq> None \<and> op_key q \<noteq> Some k"
  shows "flow_inv H \<alpha> T \<and> flows \<alpha> (fold (flow_table_op H) (p # qs) T) k = None"
proof -
  have i: "flow_inv H \<alpha> T"
    unfolding assms(3) flow_table_op_run by (rule ft.run_inv [OF flow_inv_init [OF assms(1,2)]])
  then show ?thesis
    unfolding flow_table_op_run using ft.absent_after_flush_or_del [OF i assms(4,5)] by simp
qed

theorem flow_table_run_witness:
  "flow_inv slots_hash slots_map (fold (flow_table_op slots_hash) [FAdd example_key zero_actions] (flow_table_init [])) \<and>
   flows slots_map (fold (flow_table_op slots_hash) [FDel example_key, FAdd zero_key zero_actions]
     (fold (flow_table_op slots_hash) [FAdd example_key zero_actions] (flow_table_init []))) example_key = None"
  by (rule flow_table_run [OF slots_hash_ok _ refl])
    (simp_all add: fun_eq_iff slots_map_def find_from_def example_key_def zero_key_def)

text \<open>\<open>flow_table_get_flow\<close> returns the actions and statistics of exactly the keys that are present, with the time of
  last use translated to the monotonic clock; a flow that was never used reports zero.\<close>

theorem flow_table_get_flow_reports:
  assumes "flow_inv H \<alpha> T" "cpu_freq now \<noteq> 0"
  shows "flow_table_get_flow H now k T = (case flows \<alpha> T k of
      None \<Rightarrow> Some (-1, None)
    | Some (a, st) \<Rightarrow> Some (int (the (\<alpha> (handle T) k)), Some (k, a, st\<lparr>used :=
        if used st = 0 then 0
        else tv_sec now * 1000 + tv_nsec now div 1000000 - (curr_tsc now - used st) * 1000 div cpu_freq now\<rparr>)))"
proof (cases rule: lookup_cases [OF assms(1), of k, case_names found absent])
  case (found p)
  then show ?thesis
    using flow_inv_entry [OF assms(1) found(1)]
    by (simp add: flow_table_get_flow_def flows_def copy_entry_enabled [OF assms(2)] reported_def)
qed (simp add: flow_table_get_flow_def flows_def)

theorem flow_table_get_flow_reports_witness:
  "let now = \<lparr>curr_tsc = 5000, cpu_freq = 1000, tv_sec = 7, tv_nsec = 0\<rparr> in
   flow_table_get_flow slots_hash now zero_key example_table = Some (-1, None)"
proof -
  have "slots_map (handle example_table) zero_key = None"
    by (simp add: example_table_def flow_table_add_flow_def flow_table_init_def flow_table_lookup_def slots_hash_def
        slots_map_def find_from_def ENOENT_def bad_pos_def MAX_FLOWS_def clear_stats_entry example_key_def zero_key_def)
  then have "flows slots_map example_table zero_key = None" by (simp add: flows_None_iff)
  then show ?thesis
    unfolding Let_def by (subst flow_table_get_flow_reports [OF example_table_inv]) simp_all
qed

text \<open>Accounting a packet of a flow adds one packet and the packet's length, wrapping at 64 bits, stamps the time,
  accumulates the TCP flags and leaves the actions and every other flow alone.\<close>

theorem flow_table_update_stats_counts:
  assumes "flow_inv H \<alpha> T" "\<alpha> (handle T) k = Some p" "flows \<alpha> T k = Some (a, st)" "length pkt \<ge> 48"
  shows "\<exists>T'. flow_table_update_stats now p pkt len T = Some T' \<and> flow_inv H \<alpha> T' \<and>
    flows \<alpha> T' = (flows \<alpha> T)(k \<mapsto> (a, \<lparr>packet_count = packet_count st + 1, byte_count = byte_count st + ucast len,
      used = curr_tsc now,
      tcp_flags = (if ether_type k = 0x0800 \<and> ip_proto k = 6 then tcp_flags st OR (pkt ! 47 AND 0x3f) else tcp_flags st)\<rparr>))"
proof -
  have e: "fe_key (flow_table T p) = k" using flow_inv_entry [OF assms(1,2)] by simp
  have s: "fe_actions (flow_table T p) = a" "fe_stats (flow_table T p) = st" using assms(2,3) by (auto simp: flows_def)
  have "ld8 pkt 47 = Some (pkt ! 47)" using assms(4) by (simp add: ld8_def)
  then show ?thesis
    using e s set_entry_present [OF assms(1,2)]
    by (cases st) (auto simp: flow_table_update_stats_def Let_def key_consts)
qed

theorem flow_table_update_stats_counts_witness:
  "\<exists>T' st. flow_table_update_stats \<lparr>curr_tsc = 5, cpu_freq = 1000, tv_sec = 7, tv_nsec = 0\<rparr> 0 (zeros 64) 64 example_table = Some T' \<and>
     flows slots_map T' example_key = Some st"
proof -
  obtain a st where "flows slots_map example_table example_key = Some (a, st)"
    using example_lookup by (auto simp: flows_def)
  from flow_table_update_stats_counts [OF example_table_inv example_lookup this, of "zeros 64"] show ?thesis by fastforce
qed

end
