(* ===== verification/Datapath.thy ===== *)
theory Datapath
  imports Action FlowTable
begin

text \<open>
  The requests of the daemon to the datapath, \<open>datapath/dpdk/datapath.c\<close>: ports and flows are added, deleted, queried and
  dumped, packets are executed, and packets without a flow are sent up. A message is a value of a type with the fields
  of \<open>struct dpdk_message\<close>; how a compiler lays it out in the bytes of an mbuf is a pair of functions of the environment,
  of which only the size of a message is used. Log messages are not modelled; a signal to the daemon is counted.
\<close>

section \<open>Messages\<close>

record dpdk_vport_message =
  vm_id :: u32
  vm_cmd :: u8
  vm_flags :: u32
  vm_port_no :: u32
  vm_port_name :: string
  vm_type :: vport_type
  vm_stats :: port_stats

record dpdk_flow_message =
  fm_id :: u32
  fm_cmd :: u8
  fm_flags :: u32
  fm_key :: flow_key
  fm_stats :: flow_stats
  fm_actions :: "action list"
  fm_clear :: bool

text \<open>The union with the member it holds, and the message of all zeros.\<close>

datatype dpdk_payload = VPORT_MSG dpdk_vport_message | FLOW_MSG dpdk_flow_message | PACKET_MSG "action list" | ZERO_MSG

record dpdk_message =
  msg_type :: int
  msg_payload :: dpdk_payload

definition FLAG_DUMP :: u32 where "FLAG_DUMP = 0x300"
definition FLAG_REPLACE :: u32 where "FLAG_REPLACE = 0x100"
definition FLAG_CREATE :: u32 where "FLAG_CREATE = 0x400"
definition VPORT_CMD_FAMILY :: int where "VPORT_CMD_FAMILY = 0xE"
definition FLOW_CMD_FAMILY :: int where "FLOW_CMD_FAMILY = 0xF"
definition PACKET_CMD_FAMILY :: int where "PACKET_CMD_FAMILY = 0x1F"
definition CMD_NEW :: u8 where "CMD_NEW = 1"
definition CMD_DEL :: u8 where "CMD_DEL = 2"
definition CMD_GET :: u8 where "CMD_GET = 3"
definition PACKET_CMD_MISS :: u8 where "PACKET_CMD_MISS = 1"
definition VSWITCHD :: nat where "VSWITCHD = 0"
definition VSWITCHD_ALLOC_THRESHOLD :: nat where "VSWITCHD_ALLOC_THRESHOLD = 512"

section \<open>State\<close>

record ('w, 'h) switch =
  sw_dp :: "'w dp"
  sw_flow :: "'h flow_state"
  sw_time :: dp_time
  sw_signals :: nat

record ('w, 'h) senv =
  se_io :: "'w env"
  se_hash :: "'h rte_hash"
  se_max_lcore :: nat
  se_enc :: "dpdk_message \<Rightarrow> bytes"
  se_dec :: "bytes \<Rightarrow> dpdk_message"
  se_upcall :: "u8 \<Rightarrow> flow_key \<Rightarrow> bytes"
  se_msg_size :: nat
  se_upcall_size :: nat

definition upd_dp :: "('w dp \<Rightarrow> 'w dp) \<Rightarrow> ('w, 'h) switch \<Rightarrow> ('w, 'h) switch" where
  "upd_dp f s = s\<lparr>sw_dp := f (sw_dp s)\<rparr>"

abbreviation vswitchd_tx_dropped :: "nat \<Rightarrow> statistics \<Rightarrow> statistics" where
  "vswitchd_tx_dropped lcore \<equiv> stats_vport_tx_drop_increment lcore VSWITCHD 1 \<circ> stats_vswitch_tx_drop_increment lcore 1"

abbreviation vswitchd_rx_dropped :: "nat \<Rightarrow> statistics \<Rightarrow> statistics" where
  "vswitchd_rx_dropped lcore \<equiv> stats_vport_rx_drop_increment lcore VSWITCHD 1 \<circ> stats_vswitch_tx_drop_increment lcore 1"

section \<open>Sending to the daemon\<close>

definition send_signal_to_dpif :: "('w, 'h) switch \<Rightarrow> ('w, 'h) switch" where
  "send_signal_to_dpif s = s\<lparr>sw_signals := sw_signals s + 1\<rparr>"

text \<open>
  \<open>rte_pktmbuf_prepend\<close> fails when the headroom is too short; otherwise it extends the packet to the front, in the
  unsigned arithmetic of the two lengths.
\<close>

definition pktmbuf_prepend :: "nat \<Rightarrow> rte_mbuf \<Rightarrow> rte_mbuf option" where
  "pktmbuf_prepend n mb = (if mb_off mb < n then None
     else Some (mb\<lparr>mb_off := mb_off mb - n, mb_data_len := mb_data_len mb + of_nat n, mb_pkt_len := mb_pkt_len mb + of_nat n\<rparr>))"

definition send_packet_to_vswitchd :: "('w, 'h) senv \<Rightarrow> nat \<Rightarrow> u8 \<Rightarrow> flow_key \<Rightarrow> ('w, 'h) switch \<Rightarrow> ('w, 'h) switch option" where
  "send_packet_to_vswitchd E m cmd key s = do {
     let io = se_io E;
     let lcore = e_lcore io;
     let d = sw_dp s;
     let mb = (d_mbuf d m)\<lparr>mb_pkt_len := ucast (mb_data_len (d_mbuf d m))\<rparr>;
     let d = d\<lparr>d_mbuf := (d_mbuf d)(m := mb)\<rparr>;
     case pktmbuf_prepend (se_upcall_size E) mb of
       None \<Rightarrow> Some (s\<lparr>sw_dp := upd_stats (vswitchd_tx_dropped lcore) (mbuf_free io m d)\<rparr>)
     | Some mb \<Rightarrow> do {
         mem \<leftarrow> stn (d_buf d (mb_buf mb)) (mb_off mb) (se_upcall E cmd key);
         let d = d\<lparr>d_mbuf := (d_mbuf d)(m := mb), d_buf := (d_buf d)(mb_buf mb := mem)\<rparr>;
         let cnt = ring_count (e_lib io) VSWITCHD_PACKET (d_lib d);
         let (rslt, w) = ring_enqueue (e_lib io) VSWITCHD_PACKET m (d_lib d);
         let d = d\<lparr>d_lib := w\<rparr>;
         if rslt < 0 \<and> rslt = - ENOBUFS
         then Some (s\<lparr>sw_dp := upd_stats (vswitchd_tx_dropped lcore) (mbuf_free io m d)\<rparr>)
         else do {
           let d = (if rslt < 0 then upd_stats (stats_vport_overrun_increment lcore VSWITCHD 1) d else d);
           let s = s\<lparr>sw_dp := upd_stats (stats_vport_tx_increment lcore VSWITCHD 1) d\<rparr>;
           Some (if cnt = 0 \<and> ring_count (e_lib io) VSWITCHD_PACKET w > 0 then send_signal_to_dpif s else s) } } }"

definition send_reply_to_vswitchd :: "('w, 'h) senv \<Rightarrow> dpdk_message \<Rightarrow> ('w, 'h) switch \<Rightarrow> ('w, 'h) switch option" where
  "send_reply_to_vswitchd E reply s =
     (let io = se_io E; lcore = e_lcore io in
      case mbuf_alloc io (sw_dp s) of
        (None, d) \<Rightarrow> Some (s\<lparr>sw_dp := upd_stats (vswitchd_rx_dropped lcore) d\<rparr>)
      | (Some m, d) \<Rightarrow> do {
          let mb = d_mbuf d m;
          mem \<leftarrow> stn (d_buf d (mb_buf mb)) (mb_off mb) (se_enc E reply);
          let d = d\<lparr>d_buf := (d_buf d)(mb_buf mb := mem), d_mbuf := (d_mbuf d)(m := mb\<lparr>mb_data_len := of_nat (se_msg_size E)\<rparr>)\<rparr>;
          let (rslt, w) = ring_enqueue (e_lib io) VSWITCHD_REPLY m (d_lib d);
          let d = d\<lparr>d_lib := w\<rparr>;
          Some (s\<lparr>sw_dp :=
            if rslt < 0 then
              (if rslt = - ENOBUFS then upd_stats (vswitchd_rx_dropped lcore) (mbuf_free io m d)
               else upd_stats (stats_vport_rx_increment lcore VSWITCHD 1 \<circ> stats_vport_overrun_increment lcore VSWITCHD 1) d)
            else upd_stats (stats_vport_rx_increment lcore VSWITCHD 1) d\<rparr>) })"

definition handle_unknown_cmd :: "('w, 'h) senv \<Rightarrow> ('w, 'h) switch \<Rightarrow> ('w, 'h) switch option" where
  "handle_unknown_cmd E s = send_reply_to_vswitchd E \<lparr>msg_type = EINVAL, msg_payload = ZERO_MSG\<rparr> s"

section \<open>Ports\<close>

text \<open>
  Each command computes its reply and the new table. The name in a request is used as a format: with a percent sign in
  it the text is undefined (\<open>None\<close>).
\<close>

definition vport_new_reply :: "vport_cfg \<Rightarrow> dpdk_vport_message \<Rightarrow> vport_table \<Rightarrow> (dpdk_message \<times> vport_table) option" where
  "vport_new_reply cfg request t = do {
     let port_type = vm_type request;
     let port_no = (if port_type = VPORT_TYPE_PHY then vm_port_no request + of_nat PHYPORT0 else vm_port_no request);
     valid \<leftarrow> (if vport_exists t (unat port_no) then vport_id_is_valid t (unat port_no) port_type else Some False);
     let p = (if valid then unat port_no else vport_next_available_index cfg t port_type);
     if vport_exists t p \<and> port_type \<noteq> VPORT_TYPE_BRIDGE then
       if \<not> vport_is_enabled t p then
         if CHR ''%'' \<in> set (vm_port_name request) then None
         else Some (\<lparr>msg_type = 0, msg_payload = VPORT_MSG (request\<lparr>vm_port_no := of_nat p\<rparr>)\<rparr>,
           vport_set_name p (vm_port_name request) (vport_enable p t))
       else Some (\<lparr>msg_type = EBUSY, msg_payload = VPORT_MSG request\<rparr>, t)
     else Some (\<lparr>msg_type = ENODEV, msg_payload = VPORT_MSG request\<rparr>, t) }"

definition vport_del_reply :: "dpdk_vport_message \<Rightarrow> vport_table \<Rightarrow> dpdk_message \<times> vport_table" where
  "vport_del_reply request t =
     (let port_no = unat (ucast (vm_port_no request) :: u16) in
      if vport_exists t port_no \<and> vport_is_enabled t port_no
      then (\<lparr>msg_type = 0, msg_payload = VPORT_MSG request\<rparr>, vport_disable port_no t)
      else (\<lparr>msg_type = ENODEV, msg_payload = VPORT_MSG request\<rparr>, t))"

definition vport_get_reply :: "nat \<Rightarrow> statistics \<Rightarrow> vport_table \<Rightarrow> dpdk_vport_message \<Rightarrow> dpdk_message" where
  "vport_get_reply max_lcore st t request =
     (let request = (if unat (vm_port_no request) = UINT32_MAX
            then request\<lparr>vm_port_no := of_nat (vport_name_to_portid t (vm_port_name request))\<rparr> else request);
          port_no = unat (vm_port_no request)
      in if vport_exists t port_no \<and> vport_is_enabled t port_no
         then \<lparr>msg_type = 0, msg_payload = VPORT_MSG (request\<lparr>vm_stats := stats_vport_get max_lcore port_no st,
           vm_type := vport_get_type t port_no, vm_port_name := take MAX_VPORT_NAME_SIZE (vi_name (t port_no))\<rparr>)\<rparr>
         else \<lparr>msg_type = ENODEV, msg_payload = VPORT_MSG request\<rparr>)"

text \<open>The search for the next port stops at \<open>MAX_VPORTS\<close>; a request beyond it is left as it is.\<close>

definition next_enabled :: "vport_table \<Rightarrow> u32 \<Rightarrow> u32" where
  "next_enabled t p = (case find_from (unat p) MAX_VPORTS (vport_is_enabled t) of
     Some i \<Rightarrow> of_nat i | None \<Rightarrow> if unat p < MAX_VPORTS then of_nat MAX_VPORTS else p)"

definition vport_dump_reply :: "nat \<Rightarrow> statistics \<Rightarrow> vport_table \<Rightarrow> dpdk_vport_message \<Rightarrow> dpdk_message" where
  "vport_dump_reply max_lcore st t request =
     (let p = next_enabled t (if unat (vm_port_no request) = UINT32_MAX then 1 else vm_port_no request + 1);
          request = request\<lparr>vm_port_no := p\<rparr>
      in if unat p < MAX_VPORTS
         then \<lparr>msg_type = 0, msg_payload = VPORT_MSG (request\<lparr>vm_stats := stats_vport_get max_lcore (unat p) st,
           vm_type := vport_get_type t (unat p)\<rparr>)\<rparr>
         else \<lparr>msg_type = EOF, msg_payload = VPORT_MSG request\<rparr>)"

definition set_vports :: "vport_table \<Rightarrow> ('w, 'h) switch \<Rightarrow> ('w, 'h) switch" where
  "set_vports t = upd_dp (\<lambda>d. d\<lparr>d_vports := t\<rparr>)"

definition vport_cmd_new :: "('w, 'h) senv \<Rightarrow> dpdk_vport_message \<Rightarrow> ('w, 'h) switch \<Rightarrow> ('w, 'h) switch option" where
  "vport_cmd_new E request s = do {
     (reply, t) \<leftarrow> vport_new_reply (e_cfg (se_io E)) request (d_vports (sw_dp s));
     send_reply_to_vswitchd E reply (set_vports t s) }"

definition vport_cmd_del :: "('w, 'h) senv \<Rightarrow> dpdk_vport_message \<Rightarrow> ('w, 'h) switch \<Rightarrow> ('w, 'h) switch option" where
  "vport_cmd_del E request s =
     (let (reply, t) = vport_del_reply request (d_vports (sw_dp s)) in send_reply_to_vswitchd E reply (set_vports t s))"

definition vport_cmd_get :: "('w, 'h) senv \<Rightarrow> dpdk_vport_message \<Rightarrow> ('w, 'h) switch \<Rightarrow> ('w, 'h) switch option" where
  "vport_cmd_get E request s =
     send_reply_to_vswitchd E (vport_get_reply (se_max_lcore E) (d_stats (sw_dp s)) (d_vports (sw_dp s)) request) s"

definition vport_cmd_dump :: "('w, 'h) senv \<Rightarrow> dpdk_vport_message \<Rightarrow> ('w, 'h) switch \<Rightarrow> ('w, 'h) switch option" where
  "vport_cmd_dump E request s =
     send_reply_to_vswitchd E (vport_dump_reply (se_max_lcore E) (d_stats (sw_dp s)) (d_vports (sw_dp s)) request) s"

definition handle_vport_cmd :: "('w, 'h) senv \<Rightarrow> dpdk_vport_message \<Rightarrow> ('w, 'h) switch \<Rightarrow> ('w, 'h) switch option" where
  "handle_vport_cmd E request s =
     (if vm_cmd request = CMD_NEW then vport_cmd_new E request s
      else if vm_cmd request = CMD_DEL then vport_cmd_del E request s
      else if vm_cmd request = CMD_GET then
        (if vm_flags request AND FLAG_DUMP \<noteq> 0 then vport_cmd_dump E request s else vport_cmd_get E request s)
      else handle_unknown_cmd E s)"

section \<open>Flows\<close>

text \<open>\<open>flow_table_get_flow\<close> fills the actions and the statistics it is given pointers for, if the flow is there.\<close>

definition flow_new_reply ::
  "'h rte_hash \<Rightarrow> dp_time \<Rightarrow> dpdk_flow_message \<Rightarrow> 'h flow_state \<Rightarrow> (dpdk_message \<times> 'h flow_state) option" where
  "flow_new_reply H now request T =
     (if flow_table_lookup H T (fm_key request) < 0 then
        if fm_flags request AND FLAG_CREATE \<noteq> 0
        then Some (\<lparr>msg_type = 0, msg_payload = FLOW_MSG request\<rparr>, snd (flow_table_add_flow H (fm_key request) (fm_actions request) T))
        else Some (\<lparr>msg_type = ENOENT, msg_payload = FLOW_MSG request\<rparr>, T)
      else if fm_flags request AND FLAG_REPLACE \<noteq> 0 then do {
        (_, r) \<leftarrow> flow_table_get_flow H now (fm_key request) T;
        let request = (case r of Some (_, _, st) \<Rightarrow> request\<lparr>fm_stats := st\<rparr> | None \<Rightarrow> request);
        Some (\<lparr>msg_type = 0, msg_payload = FLOW_MSG request\<rparr>,
          snd (flow_table_mod_flow H (fm_key request) (fm_actions request) (fm_clear request) T)) }
      else Some (\<lparr>msg_type = EEXIST, msg_payload = FLOW_MSG request\<rparr>, T))"

definition flow_del_reply ::
  "'h rte_hash \<Rightarrow> dp_time \<Rightarrow> dpdk_flow_message \<Rightarrow> 'h flow_state \<Rightarrow> (dpdk_message \<times> 'h flow_state) option" where
  "flow_del_reply H now request T =
     (if fm_key request = zero_key then Some (\<lparr>msg_type = 0, msg_payload = FLOW_MSG request\<rparr>, flow_table_del_all H T)
      else if flow_table_lookup H T (fm_key request) < 0 then Some (\<lparr>msg_type = ENOENT, msg_payload = FLOW_MSG request\<rparr>, T)
      else do {
        (_, r) \<leftarrow> flow_table_get_flow H now (fm_key request) T;
        let request = (case r of Some (_, _, st) \<Rightarrow> request\<lparr>fm_stats := st\<rparr> | None \<Rightarrow> request);
        Some (\<lparr>msg_type = 0, msg_payload = FLOW_MSG request\<rparr>, snd (flow_table_del_flow H (fm_key request) T)) })"

definition flow_get_reply :: "'h rte_hash \<Rightarrow> dp_time \<Rightarrow> 'h flow_state \<Rightarrow> dpdk_flow_message \<Rightarrow> dpdk_message option" where
  "flow_get_reply H now T request = do {
     (ret, r) \<leftarrow> flow_table_get_flow H now (fm_key request) T;
     let request = (case r of Some (_, acts, st) \<Rightarrow> request\<lparr>fm_actions := acts, fm_stats := st\<rparr> | None \<Rightarrow> request);
     Some \<lparr>msg_type = (if ret < 0 then ENOENT else 0), msg_payload = FLOW_MSG request\<rparr> }"

definition flow_dump_reply :: "'h rte_hash \<Rightarrow> dp_time \<Rightarrow> 'h flow_state \<Rightarrow> dpdk_flow_message \<Rightarrow> dpdk_message option" where
  "flow_dump_reply H now T request = do {
     (ret, r) \<leftarrow> (if fm_key request = zero_key then flow_table_get_first_flow now T else flow_table_get_next_flow H now (fm_key request) T);
     case r of
       Some (key, acts, st) \<Rightarrow>
         if ret \<ge> 0 then Some \<lparr>msg_type = 0, msg_payload = FLOW_MSG (request\<lparr>fm_actions := acts, fm_key := key, fm_stats := st\<rparr>)\<rparr>
         else Some \<lparr>msg_type = EOF, msg_payload = FLOW_MSG (request\<lparr>fm_actions := acts\<rparr>)\<rparr>
     | None \<Rightarrow>
         if ret \<ge> 0 then Some \<lparr>msg_type = 0, msg_payload = FLOW_MSG (request\<lparr>fm_key := zero_key, fm_stats := zero_stats\<rparr>)\<rparr>
         else Some \<lparr>msg_type = EOF, msg_payload = FLOW_MSG request\<rparr> }"

definition flow_cmd_new :: "('w, 'h) senv \<Rightarrow> dpdk_flow_message \<Rightarrow> ('w, 'h) switch \<Rightarrow> ('w, 'h) switch option" where
  "flow_cmd_new E request s = do {
     (reply, T) \<leftarrow> flow_new_reply (se_hash E) (sw_time s) request (sw_flow s);
     send_reply_to_vswitchd E reply (s\<lparr>sw_flow := T\<rparr>) }"

definition flow_cmd_del :: "('w, 'h) senv \<Rightarrow> dpdk_flow_message \<Rightarrow> ('w, 'h) switch \<Rightarrow> ('w, 'h) switch option" where
  "flow_cmd_del E request s = do {
     (reply, T) \<leftarrow> flow_del_reply (se_hash E) (sw_time s) request (sw_flow s);
     send_reply_to_vswitchd E reply (s\<lparr>sw_flow := T\<rparr>) }"

definition flow_cmd_get :: "('w, 'h) senv \<Rightarrow> dpdk_flow_message \<Rightarrow> ('w, 'h) switch \<Rightarrow> ('w, 'h) switch option" where
  "flow_cmd_get E request s = do {
     reply \<leftarrow> flow_get_reply (se_hash E) (sw_time s) (sw_flow s) request;
     send_reply_to_vswitchd E reply s }"

definition flow_cmd_dump :: "('w, 'h) senv \<Rightarrow> dpdk_flow_message \<Rightarrow> ('w, 'h) switch \<Rightarrow> ('w, 'h) switch option" where
  "flow_cmd_dump E request s = do {
     reply \<leftarrow> flow_dump_reply (se_hash E) (sw_time s) (sw_flow s) request;
     send_reply_to_vswitchd E reply s }"

definition handle_flow_cmd :: "('w, 'h) senv \<Rightarrow> dpdk_flow_message \<Rightarrow> ('w, 'h) switch \<Rightarrow> ('w, 'h) switch option" where
  "handle_flow_cmd E request s =
     (if fm_cmd request = CMD_NEW then flow_cmd_new E request s
      else if fm_cmd request = CMD_DEL then flow_cmd_del E request s
      else if fm_cmd request = CMD_GET then
        (if fm_flags request AND FLAG_DUMP \<noteq> 0 then flow_cmd_dump E request s else flow_cmd_get E request s)
      else handle_unknown_cmd E s)"

section \<open>Requests\<close>

text \<open>\<open>rte_pktmbuf_adj\<close> removes bytes at the front; it does nothing when the packet is shorter.\<close>

definition pktmbuf_adj :: "nat \<Rightarrow> rte_mbuf \<Rightarrow> rte_mbuf" where
  "pktmbuf_adj n mb = (if n > unat (mb_data_len mb) then mb
     else mb\<lparr>mb_off := mb_off mb + n, mb_data_len := mb_data_len mb - of_nat n, mb_pkt_len := mb_pkt_len mb - of_nat n\<rparr>)"

definition handle_packet_cmd :: "('w, 'h) senv \<Rightarrow> action list \<Rightarrow> nat \<Rightarrow> ('w, 'h) switch \<Rightarrow> ('w, 'h) switch option" where
  "handle_packet_cmd E actions m s = map_option (\<lambda>d. s\<lparr>sw_dp := d\<rparr>) (action_execute (se_io E) actions m (sw_dp s))"

text \<open>A union that is read through another member than it holds is undefined.\<close>

definition handle_vswitchd_cmd :: "('w, 'h) senv \<Rightarrow> nat \<Rightarrow> ('w, 'h) switch \<Rightarrow> ('w, 'h) switch option" where
  "handle_vswitchd_cmd E m s =
     (let request = se_dec E (mtod (sw_dp s) m); free = upd_dp (mbuf_free (se_io E) m) in
      if msg_type request = VPORT_CMD_FAMILY then
        (case msg_payload request of VPORT_MSG r \<Rightarrow> map_option free (handle_vport_cmd E r s) | _ \<Rightarrow> None)
      else if msg_type request = FLOW_CMD_FAMILY then
        (case msg_payload request of FLOW_MSG r \<Rightarrow> map_option free (handle_flow_cmd E r s) | _ \<Rightarrow> None)
      else if msg_type request = PACKET_CMD_FAMILY then
        (case msg_payload request of
           PACKET_MSG acts \<Rightarrow> handle_packet_cmd E acts m
             (upd_dp (\<lambda>d. d\<lparr>d_mbuf := (d_mbuf d)(m := pktmbuf_adj (se_msg_size E) (d_mbuf d m))\<rparr>) s)
         | _ \<Rightarrow> None)
      else map_option free (handle_unknown_cmd E s))"

text \<open>The inner loop allocates up to \<open>n\<close> mbufs and stops at the first failure.\<close>

fun alloc_some :: "'w env \<Rightarrow> nat \<Rightarrow> 'w dp \<Rightarrow> nat list \<times> 'w dp" where
  "alloc_some io 0 d = ([], d)"
| "alloc_some io (Suc n) d = (case mbuf_alloc io d of
     (None, d) \<Rightarrow> ([], d)
   | (Some m, d) \<Rightarrow> (case alloc_some io n d of (ms, d) \<Rightarrow> (m # ms, d)))"

text \<open>One pass of the outer loop; the result of the bulk operation is not looked at.\<close>

definition refill_step :: "'w env \<Rightarrow> 'w dp \<Rightarrow> 'w dp" where
  "refill_step io d = (case alloc_some io PKT_BURST_SIZE d of (buf, d) \<Rightarrow>
     if buf \<noteq> [] then d\<lparr>d_lib := snd (ring_enqueue_bulk (e_lib io) VSWITCHD_ALLOC buf (d_lib d))\<rparr> else d)"

text \<open>The outer loop: \<open>None\<close> when it does not end.\<close>

partial_function (option) refill :: "'w env \<Rightarrow> 'w dp \<Rightarrow> 'w dp option" where
  "refill io d = (if ring_count (e_lib io) VSWITCHD_ALLOC (d_lib d) < VSWITCHD_ALLOC_THRESHOLD
     then refill io (refill_step io d) else Some d)"

fun handle_all :: "('w, 'h) senv \<Rightarrow> nat list \<Rightarrow> ('w, 'h) switch \<Rightarrow> ('w, 'h) switch option" where
  "handle_all E [] s = Some s"
| "handle_all E (m # ms) s = do { s \<leftarrow> handle_vswitchd_cmd E m s; handle_all E ms s }"

definition handle_request_from_vswitchd :: "('w, 'h) senv \<Rightarrow> ('w, 'h) switch \<Rightarrow> ('w, 'h) switch option" where
  "handle_request_from_vswitchd E s = do {
     let io = se_io E;
     let (buf, w) = ring_dequeue_burst (e_lib io) VSWITCHD_MESSAGE PKT_BURST_SIZE (d_lib (sw_dp s));
     let s = upd_dp (\<lambda>d. upd_stats (stats_vport_rx_increment (e_lcore io) VSWITCHD (int (length buf))) (d\<lparr>d_lib := w\<rparr>)) s;
     s \<leftarrow> handle_all E buf s;
     let (buf, w) = ring_dequeue_burst (e_lib io) VSWITCHD_FREE PKT_BURST_SIZE (d_lib (sw_dp s));
     let s = upd_dp (\<lambda>d. free_all io buf (d\<lparr>d_lib := w\<rparr>)) s;
     d \<leftarrow> refill io (sw_dp s);
     Some (s\<lparr>sw_dp := d\<rparr>) }"

section \<open>The account of the daemon's path\<close>

text \<open>What the layout has to do with the buffers: a fresh mbuf holds a message behind its headroom.\<close>

definition layout_ok :: "('w, 'h) senv \<Rightarrow> 'w dp \<Rightarrow> bool" where
  "layout_ok E d \<longleftrightarrow> (\<forall>msg. length (se_enc E msg) = se_msg_size E) \<and> (\<forall>c k. length (se_upcall E c k) = se_upcall_size E) \<and>
     (\<forall>b. pktmbuf_headroom (e_lib (se_io E)) + se_msg_size E \<le> length (d_buf d b))"

text \<open>A step that hands over the packets \<open>ms\<close>, keeps the invariant of the packet path and the lengths of the buffers.\<close>

definition settles :: "('w \<Rightarrow> nat multiset) \<Rightarrow> 'w env \<Rightarrow> nat multiset \<Rightarrow> 'w dp \<Rightarrow> 'w dp \<Rightarrow> bool" where
  "settles holds io ms d d' \<longleftrightarrow> handed holds io ms d d' \<and> (\<forall>b. length (d_buf d' b) = length (d_buf d b))"

lemma settles_trans: "settles holds io ms d e \<Longrightarrow> settles holds io ns e f \<Longrightarrow> settles holds io (ms + ns) d f"
  by (simp add: settles_def handed_def)

lemma ENOBUFS_pos [simp]: "0 < ENOBUFS"
  by (simp add: ENOBUFS_def)

lemma dpdk_enqueue:
  assumes "dpdk_ok L holds" "ring_enqueue L q m w = (r, w')"
  shows "r = - ENOBUFS \<and> holds w' = holds w \<or> (r = 0 \<or> r = - EDQUOT) \<and> holds w' = add_mset m (holds w)"
proof -
  have "\<forall>q m w r w'. ring_enqueue L q m w = (r, w') \<longrightarrow>
      r = - ENOBUFS \<and> holds w' = holds w \<or> (r = 0 \<or> r = - EDQUOT) \<and> holds w' = add_mset m (holds w)"
    using assms(1) unfolding dpdk_ok_def by (elim conjE)
  then show ?thesis using assms(2) by blast
qed

text \<open>The header of one mbuf changes, and bytes of buffers; the data stays in the buffer.\<close>

lemma io_ok_mbuf:
  assumes "io_ok E d" "\<And>x. x \<noteq> m \<Longrightarrow> d_mbuf d' x = d_mbuf d x" "\<And>b. length (d_buf d' b) = length (d_buf d b)"
    and "mbuf_in (d_mbuf d' m) (length (d_buf d (mb_buf (d_mbuf d' m))))"
    and "d_vports d' = d_vports d" "d_dev d' = d_dev d" "d_client_cache d' = d_client_cache d" "d_port_cache d' = d_port_cache d"
    "d_vhost_cache d' = d_vhost_cache d"
  shows "io_ok E d'"
  using assms(1) mbufs_ok_upd [OF _ assms(2-4)] guests_ready_cong [of d' d] assms(3,5-9) by (simp add: io_ok_def caches_ok_def)

text \<open>An enqueue of \<open>m\<close>, freed if the ring is full.\<close>

lemma enqueue_or_free:
  assumes L: "dpdk_ok (e_lib io) holds" and r: "ring_enqueue (e_lib io) q m (d_lib d) = (rslt, w)"
  shows "rslt = - ENOBUFS \<Longrightarrow> owned holds n (mbuf_free io m (d\<lparr>d_lib := w\<rparr>)) = add_mset m (owned holds n d)"
    "rslt \<noteq> - ENOBUFS \<Longrightarrow> owned holds n (d\<lparr>d_lib := w\<rparr>) = add_mset m (owned holds n d)"
proof -
  note e = dpdk_enqueue [OF L r]
  show "rslt = - ENOBUFS \<Longrightarrow> owned holds n (mbuf_free io m (d\<lparr>d_lib := w\<rparr>)) = add_mset m (owned holds n d)"
    using e by (auto simp: owned_free [OF L] errno_defs) (simp_all add: owned_def)
  show "rslt \<noteq> - ENOBUFS \<Longrightarrow> owned holds n (d\<lparr>d_lib := w\<rparr>) = add_mset m (owned holds n d)"
    using e by (auto simp: owned_def)
qed

lemma stn_length: "stn mem i bs = Some mem' \<Longrightarrow> length mem' = length mem"
  by (auto simp: stn_Some_iff)

lemma mbuf_alloc_fresh:
  assumes L: "dpdk_ok (e_lib io) holds" and H: "\<And>b. pktmbuf_headroom (e_lib io) \<le> length (d_buf d b)" and a: "mbuf_alloc io d = (r, d')"
  shows "owned holds n d = (case r of None \<Rightarrow> {#} | Some m \<Rightarrow> {#m#}) + owned holds n d'" "d_buf d' = d_buf d" "io_ok E d \<Longrightarrow> io_ok E d'"
    "d_vports d' = d_vports d" "r = Some m \<Longrightarrow> mb_buf (d_mbuf d' m) = m \<and> mb_off (d_mbuf d' m) = pktmbuf_headroom (e_lib io) \<and> mb_pkt_len (d_mbuf d' m) = 0"
    "x \<notin># owned holds n d \<Longrightarrow> d_mbuf d' x = d_mbuf d x"
proof -
  note o = owned_alloc [OF L a, of n]
  show "owned holds n d = (case r of None \<Rightarrow> {#} | Some m \<Rightarrow> {#m#}) + owned holds n d'" by (rule o)
  show "io_ok E d'" if io: "io_ok E d"
  proof (cases r)
    case None
    then show ?thesis using a io by (auto simp: mbuf_alloc_def split: prod.splits option.splits)
  next
    case (Some m)
    show ?thesis
      by (rule io_ok_mbuf [OF io, of m]) (use a Some H in \<open>auto simp: mbuf_alloc_def mbuf_in_def split: prod.splits option.splits\<close>)
  qed
  show "d_buf d' = d_buf d" "d_vports d' = d_vports d"
    "r = Some m \<Longrightarrow> mb_buf (d_mbuf d' m) = m \<and> mb_off (d_mbuf d' m) = pktmbuf_headroom (e_lib io) \<and> mb_pkt_len (d_mbuf d' m) = 0"
    "x \<notin># owned holds n d \<Longrightarrow> d_mbuf d' x = d_mbuf d x"
    using a o by (auto simp: mbuf_alloc_def split: prod.splits option.splits)
qed

lemma send_reply_ok:
  assumes L: "dpdk_ok (e_lib (se_io E)) holds" and io: "io_ok (se_io E) (sw_dp s)" and lay: "layout_ok E (sw_dp s)"
  shows "\<exists>s'. send_reply_to_vswitchd E reply s = Some s' \<and> settles holds (se_io E) {#} (sw_dp s) (sw_dp s') \<and>
    sw_flow s' = sw_flow s \<and> d_vports (sw_dp s') = d_vports (sw_dp s)"
proof -
  obtain r d where a: "mbuf_alloc (se_io E) (sw_dp s) = (r, d)" by fastforce
  have "pktmbuf_headroom (e_lib (se_io E)) \<le> length (d_buf (sw_dp s) b)" for b using lay by (auto simp: layout_ok_def dest: spec [of _ b])
  note f = mbuf_alloc_fresh [OF L this a]
  show ?thesis
  proof (cases r)
    case None
    then show ?thesis using a f io by (simp add: send_reply_to_vswitchd_def Let_def settles_def handed_def)
  next
    case (Some m)
    have hl: "pktmbuf_headroom (e_lib (se_io E)) + se_msg_size E \<le> length (d_buf d m)" "length (se_enc E reply) = se_msg_size E"
      using lay f(2) by (simp_all add: layout_ok_def)
    then obtain mem where mem: "stn (d_buf d m) (pktmbuf_headroom (e_lib (se_io E))) (se_enc E reply) = Some mem"
      by (simp add: stn_def)
    let ?d = "d\<lparr>d_buf := (d_buf d)(m := mem), d_mbuf := (d_mbuf d)(m := (d_mbuf d m)\<lparr>mb_data_len := of_nat (se_msg_size E)\<rparr>)\<rparr>"
    have io': "io_ok (se_io E) ?d"
    proof (rule io_ok_mbuf [OF f(3) [OF io], of m])
      have "pktmbuf_headroom (e_lib (se_io E)) + unat (of_nat (se_msg_size E) :: u16) \<le> length (d_buf d m)"
        using hl(1) unat_of_nat_le [of "se_msg_size E"] by (meson add_le_cancel_left order_trans)
      then show "mbuf_in (d_mbuf ?d m) (length (d_buf d (mb_buf (d_mbuf ?d m))))"
        using f(5) [OF Some] hl(1) by (simp add: mbuf_in_def)
    qed (use stn_length [OF mem] in simp_all)
    obtain rslt w where q: "ring_enqueue (e_lib (se_io E)) VSWITCHD_REPLY m (d_lib ?d) = (rslt, w)" by fastforce
    note e = enqueue_or_free [OF L q, of "e_cores (se_io E)"] stn_length [OF mem]
    show ?thesis
      using a Some f(5) mem q f(1) [of "e_cores (se_io E)"] f(2,4) io' e
      by (auto simp: send_reply_to_vswitchd_def Let_def settles_def handed_def)
  qed
qed

section \<open>Requests on ports\<close>

text \<open>Names and flags change, the devices of vhost ports do not.\<close>

definition same_devs :: "vport_table \<Rightarrow> vport_table \<Rightarrow> bool" where
  "same_devs t t' \<longleftrightarrow> (\<forall>i. vi_dev (t' i) = vi_dev (t i))"

lemma same_devs_update:
  "same_devs t t" "same_devs t (vport_disable i t)" "same_devs t (vport_set_name i n (vport_enable i t))"
  by (simp_all add: same_devs_def vport_set_name_def vport_enable_def vport_disable_def)

lemma vport_reply_table:
  "vports_ok cfg t \<Longrightarrow> vport_new_reply cfg r t = Some (msg, t') \<Longrightarrow> vports_ok cfg t' \<and> same_devs t t'"
  "vports_ok cfg t \<Longrightarrow> vport_del_reply r t = (msg, t') \<Longrightarrow> vports_ok cfg t' \<and> same_devs t t'"
  by (auto simp: vport_new_reply_def vport_del_reply_def Let_def same_devs_update
      intro!: set_name.keeps_ok enable.keeps_ok disable.keeps_ok split: bind_splits if_splits)

lemma vport_new_reply_defined:
  assumes "CHR ''%'' \<notin> set (vm_port_name r)"
  shows "\<exists>msg t'. vport_new_reply cfg r t = Some (msg, t')"
  using assms by (simp add: vport_new_reply_def Let_def vport_exists_def vport_id_is_valid_def split: bind_splits if_splits)

lemma io_ok_set_vports:
  assumes "io_ok io (sw_dp s)" "vports_ok (e_cfg io) t" "same_devs (d_vports (sw_dp s)) t"
  shows "io_ok io (sw_dp (set_vports t s))"
proof -
  have "guests_ready (sw_dp (set_vports t s)) = guests_ready (sw_dp s)" "mbufs_ok (sw_dp (set_vports t s)) = mbufs_ok (sw_dp s)"
    using assms(3) guests_ready_cong [of "sw_dp (set_vports t s)" "sw_dp s"] mbufs_ok_cong [of "sw_dp (set_vports t s)" "sw_dp s"]
    by (simp_all add: set_vports_def upd_dp_def same_devs_def)
  then show ?thesis using assms by (simp add: io_ok_def set_vports_def upd_dp_def caches_ok_def)
qed

lemma handle_vport_cmd_ok:
  assumes L: "dpdk_ok (e_lib (se_io E)) holds" and io: "io_ok (se_io E) (sw_dp s)" and lay: "layout_ok E (sw_dp s)"
    and n: "CHR ''%'' \<notin> set (vm_port_name r)"
  shows "\<exists>s'. handle_vport_cmd E r s = Some s' \<and> settles holds (se_io E) {#} (sw_dp s) (sw_dp s') \<and> sw_flow s' = sw_flow s"
proof -
  have reply: "\<exists>s'. send_reply_to_vswitchd E msg (set_vports t s) = Some s' \<and> settles holds (se_io E) {#} (sw_dp s) (sw_dp s') \<and>
      sw_flow s' = sw_flow s" if "vports_ok (e_cfg (se_io E)) t" "same_devs (d_vports (sw_dp s)) t" for msg t
    using send_reply_ok [OF L io_ok_set_vports [OF io that], of msg] lay
    by (auto simp: set_vports_def upd_dp_def layout_ok_def settles_def handed_def)
  have t: "vports_ok (e_cfg (se_io E)) (d_vports (sw_dp s))" using io by (simp add: io_ok_def)
  obtain msg t1 where new: "vport_new_reply (e_cfg (se_io E)) r (d_vports (sw_dp s)) = Some (msg, t1)"
    using vport_new_reply_defined [OF n] by blast
  obtain msg' t2 where del: "vport_del_reply r (d_vports (sw_dp s)) = (msg', t2)" by fastforce
  have "\<exists>s'. vport_cmd_new E r s = Some s' \<and> settles holds (se_io E) {#} (sw_dp s) (sw_dp s') \<and> sw_flow s' = sw_flow s"
    using reply vport_reply_table(1) [OF t new] by (simp add: vport_cmd_new_def new)
  moreover have "\<exists>s'. vport_cmd_del E r s = Some s' \<and> settles holds (se_io E) {#} (sw_dp s) (sw_dp s') \<and> sw_flow s' = sw_flow s"
    using reply vport_reply_table(2) [OF t del] by (simp add: vport_cmd_del_def del)
  ultimately show ?thesis
    using send_reply_ok [OF L io lay]
    by (auto simp: handle_vport_cmd_def vport_cmd_get_def vport_cmd_dump_def handle_unknown_cmd_def)
qed

section \<open>Requests on flows\<close>

lemma get_flow_eq:
  assumes "flow_inv H \<alpha> T" "cpu_freq now \<noteq> 0"
  shows "flow_table_get_flow H now k T = (case \<alpha> (handle T) k of
    None \<Rightarrow> Some (-1, None) | Some p \<Rightarrow> Some (int p, Some (reported now (flow_table T p))))"
proof (cases rule: lookup_cases [OF assms(1), of k, case_names found absent])
  case (found p)
  then show ?thesis
    using flow_inv_entry [OF assms(1) found(1)] by (simp add: flow_table_get_flow_def copy_entry_enabled [OF assms(2)])
qed (simp add: flow_table_get_flow_def)

lemma lookup_flows: "flow_inv H \<alpha> T \<Longrightarrow> flow_table_lookup H T k < 0 \<longleftrightarrow> flows \<alpha> T k = None"
  by (cases rule: lookup_cases [of H \<alpha> T k, case_names prem found absent]) (auto simp: flows_None_iff)

text \<open>
  What the commands promise of the flows: the effect of a request on the map, and the code of the reply. A flow that is
  to be created is in the map afterwards unless the hash table says that it is full.
\<close>

definition hash_full :: "'h rte_hash \<Rightarrow> 'h flow_state \<Rightarrow> flow_key \<Rightarrow> bool" where
  "hash_full H T k \<longleftrightarrow> fst (hash_add_key H (handle T) k) = - ENOSPC"

definition new_spec ::
  "bool \<Rightarrow> dpdk_flow_message \<Rightarrow> (flow_key \<rightharpoonup> action list \<times> flow_stats) \<Rightarrow> int \<Rightarrow> (flow_key \<rightharpoonup> action list \<times> flow_stats) \<Rightarrow> bool" where
  "new_spec full r F code F' \<longleftrightarrow> (case F (fm_key r) of
     None \<Rightarrow> if fm_flags r AND FLAG_CREATE \<noteq> 0 then code = 0 \<and> F' = (if full then F else F(fm_key r \<mapsto> (fm_actions r, zero_stats)))
             else code = ENOENT \<and> F' = F
   | Some (_, st) \<Rightarrow> if fm_flags r AND FLAG_REPLACE \<noteq> 0
             then code = 0 \<and> F' = F(fm_key r \<mapsto> (fm_actions r, if fm_clear r then zero_stats else st))
             else code = EEXIST \<and> F' = F)"

definition del_spec :: "dpdk_flow_message \<Rightarrow> (flow_key \<rightharpoonup> action list \<times> flow_stats) \<Rightarrow> int \<Rightarrow> (flow_key \<rightharpoonup> action list \<times> flow_stats) \<Rightarrow> bool" where
  "del_spec r F code F' \<longleftrightarrow>
     (if fm_key r = zero_key then code = 0 \<and> F' = Map.empty
      else if fm_key r \<in> dom F then code = 0 \<and> F' = F(fm_key r := None)
      else code = ENOENT \<and> F' = F)"

lemma add_flow_full:
  assumes "flow_inv H \<alpha> T" "flows \<alpha> T k = None"
  shows "flows \<alpha> (snd (flow_table_add_flow H k acts T)) = (if hash_full H T k then flows \<alpha> T else (flows \<alpha> T)(k \<mapsto> (acts, zero_stats)))"
proof -
  obtain r h where h: "hash_add_key H (handle T) k = (r, h)" by fastforce
  have l: "flow_table_lookup H T k < 0" using lookup_flows [OF assms(1)] assms(2) by blast
  have n: "\<alpha> (handle T) k = None" using assms(2) by (simp add: flows_None_iff)
  have ok: "rte_hash_ok H \<alpha>" using assms(1) by blast
  from hash_add_None [OF ok h n] consider (full) "r = - ENOSPC" | (new) p where "r = int p" "\<alpha> h k = Some p" by auto
  then show ?thesis
  proof cases
    case full
    then have "fst (flow_table_add_flow H k acts T) = -1" using l h by (simp add: flow_table_add_flow_def bad_pos_def ENOSPC_def)
    then show ?thesis using ft.add_new [OF assms, of acts] full h by (auto simp: hash_full_def)
  next
    case (new p)
    then have "0 \<le> fst (flow_table_add_flow H k acts T)" using l h hash_pos [OF ok, of h k p] by (simp add: flow_table_add_flow_def bad_pos_def Let_def)
    moreover have "r \<noteq> - ENOSPC" using new by (simp add: ENOSPC_def)
    ultimately show ?thesis using ft.add_new [OF assms, of acts] h by (auto simp: hash_full_def)
  qed
qed

lemma flow_new_reply_spec:
  assumes i: "flow_inv H \<alpha> T" and f: "cpu_freq now \<noteq> 0"
  shows "\<exists>msg T'. flow_new_reply H now r T = Some (msg, T') \<and> flow_inv H \<alpha> T' \<and> new_spec (hash_full H T (fm_key r)) r (flows \<alpha> T) (msg_type msg) (flows \<alpha> T')"
proof (cases "flows \<alpha> T (fm_key r)")
  case None
  then show ?thesis
    using add_flow_full [OF i None, of "fm_actions r"] ft.add_inv [OF i] i
    by (auto simp: flow_new_reply_def lookup_flows [OF i] new_spec_def)
next
  case (Some v)
  then obtain p where p: "\<alpha> (handle T) (fm_key r) = Some p" by (auto simp: flows_def)
  obtain a st where v: "v = (a, st)" by fastforce
  note m = ft.mod_old [OF i Some [unfolded v], of "fm_actions r" "fm_clear r"]
  have "flow_table_lookup H T (fm_key r) \<ge> 0" using lookup_flows [OF i, of "fm_key r"] Some by simp
  then show ?thesis
    using Some v m ft.mod_inv [OF i] i
    by (auto simp: flow_new_reply_def new_spec_def get_flow_eq [OF i f] p reported_def)
qed

lemma flow_del_reply_spec:
  assumes i: "flow_inv H \<alpha> T" and f: "cpu_freq now \<noteq> 0"
  shows "\<exists>msg T'. flow_del_reply H now r T = Some (msg, T') \<and> flow_inv H \<alpha> T' \<and> del_spec r (flows \<alpha> T) (msg_type msg) (flows \<alpha> T')"
proof (cases "fm_key r = zero_key")
  case True
  then show ?thesis using ft.del_all_inv [OF i] ft.del_all_fmap [OF i] by (simp add: flow_del_reply_def del_spec_def)
next
  case False
  show ?thesis
  proof (cases "flows \<alpha> T (fm_key r)")
    case None
    then show ?thesis using False i by (auto simp: flow_del_reply_def lookup_flows [OF i] del_spec_def)
  next
    case (Some v)
    then obtain p where p: "\<alpha> (handle T) (fm_key r) = Some p" by (auto simp: flows_def)
    show ?thesis
      using False Some ft.del_old [OF i Some] ft.del_inv [OF i] i
      by (auto simp: flow_del_reply_def lookup_flows [OF i] del_spec_def get_flow_eq [OF i f] p reported_def)
  qed
qed

lemma handle_flow_cmd_ok:
  assumes L: "dpdk_ok (e_lib (se_io E)) holds" and io: "io_ok (se_io E) (sw_dp s)" and lay: "layout_ok E (sw_dp s)"
    and i: "flow_inv (se_hash E) \<alpha> (sw_flow s)" and f: "cpu_freq (sw_time s) \<noteq> 0"
  shows "\<exists>s'. handle_flow_cmd E r s = Some s' \<and> settles holds (se_io E) {#} (sw_dp s) (sw_dp s') \<and> flow_inv (se_hash E) \<alpha> (sw_flow s')"
proof -
  have reply: "\<exists>s'. send_reply_to_vswitchd E msg (s\<lparr>sw_flow := T\<rparr>) = Some s' \<and> settles holds (se_io E) {#} (sw_dp s) (sw_dp s') \<and>
      flow_inv (se_hash E) \<alpha> (sw_flow s')" if "flow_inv (se_hash E) \<alpha> T" for msg T
    using send_reply_ok [OF L, of "s\<lparr>sw_flow := T\<rparr>" msg] io lay that by auto
  have same: "s\<lparr>sw_flow := sw_flow s\<rparr> = s" by simp
  have d: "flow_dump_reply (se_hash E) (sw_time s) (sw_flow s) r \<noteq> None"
  proof -
    have c: "copy_next_from (sw_time s) p (sw_flow s) \<noteq> None" for p
      using copy_entry_enabled [OF f, of "sw_flow s"]
      by (auto simp: copy_next_from_def find_from_Some_iff split: option.splits)
    then have "flow_table_get_next_flow (se_hash E) (sw_time s) (fm_key r) (sw_flow s) \<noteq> None"
      by (simp add: flow_table_get_next_flow_def Let_def)
    then show ?thesis using c [of 0] by (auto simp: flow_dump_reply_def flow_table_get_first_flow_def split: option.splits prod.splits)
  qed
  have g: "flow_get_reply (se_hash E) (sw_time s) (sw_flow s) r \<noteq> None"
    by (auto simp: flow_get_reply_def get_flow_eq [OF i f] split: option.splits)
  show ?thesis
    using reply flow_new_reply_spec [OF i f, of r] flow_del_reply_spec [OF i f, of r] d g reply [OF i, unfolded same]
    by (auto simp: handle_flow_cmd_def flow_cmd_new_def flow_cmd_del_def flow_cmd_get_def flow_cmd_dump_def handle_unknown_cmd_def)
qed

section \<open>One request\<close>

text \<open>
  A request the code can handle: the union holds the member the type says, a name has no percent sign, and a packet
  request has actions, two lengths that agree, and room for its actions once the message is taken off.
\<close>

definition request_ok :: "('w, 'h) senv \<Rightarrow> 'w dp \<Rightarrow> nat \<Rightarrow> dpdk_message \<Rightarrow> bool" where
  "request_ok E d m req \<longleftrightarrow>
     (if msg_type req = VPORT_CMD_FAMILY then (case msg_payload req of VPORT_MSG r \<Rightarrow> CHR ''%'' \<notin> set (vm_port_name r) | _ \<Rightarrow> False)
      else if msg_type req = FLOW_CMD_FAMILY then (case msg_payload req of FLOW_MSG r \<Rightarrow> True | _ \<Rightarrow> False)
      else if msg_type req = PACKET_CMD_FAMILY then (case msg_payload req of
        PACKET_MSG acts \<Rightarrow> acts \<noteq> [] \<and> mb_pkt_len (d_mbuf d m) = ucast (mb_data_len (d_mbuf d m)) \<and>
          room (pops acts) (pushes acts) (d\<lparr>d_mbuf := (d_mbuf d)(m := pktmbuf_adj (se_msg_size E) (d_mbuf d m))\<rparr>) m
        | _ \<Rightarrow> False)
      else True)"

lemma settles_free:
  "dpdk_ok (e_lib io) holds \<Longrightarrow> settles holds io {#} d d' \<Longrightarrow> settles holds io {#m#} d (mbuf_free io m d')"
  by (simp add: settles_def handed_def owned_free)

text \<open>The mbuf of a request is accounted for, except for a packet whose actions lose it.\<close>

definition request_leaks :: "dpdk_message \<Rightarrow> bool" where
  "request_leaks req \<longleftrightarrow> msg_type req = PACKET_CMD_FAMILY \<and> (case msg_payload req of PACKET_MSG acts \<Rightarrow> leaks acts | _ \<Rightarrow> False)"

lemma mbuf_in_adj:
  assumes "mbuf_in mb n" "mb_pkt_len mb = ucast (mb_data_len mb)"
  shows "mbuf_in (pktmbuf_adj k mb) n"
proof (cases "k > unat (mb_data_len mb)")
  case False
  have l: "unat (mb_pkt_len mb) = unat (mb_data_len mb)"
    using unat_u16_less [of "mb_data_len mb"] by (simp add: assms(2) unsigned_ucast_eq take_bit_nat_eq_self)
  have k: "unat (of_nat k :: u16) = k" "unat (of_nat k :: u32) = k"
    using False unat_u16_less [of "mb_data_len mb"] by (simp_all add: unsigned_of_nat take_bit_nat_eq_self)
  have "unat (mb_data_len mb - of_nat k) = unat (mb_data_len mb) - k" "unat (mb_pkt_len mb - of_nat k) = unat (mb_data_len mb) - k"
    using False l k by (simp_all add: unat_sub word_le_nat_alt)
  then show ?thesis using assms(1) False by (simp add: mbuf_in_def pktmbuf_adj_def)
qed (use assms(1) in \<open>simp add: pktmbuf_adj_def\<close>)

lemma handle_vswitchd_cmd_ok:
  assumes L: "dpdk_ok (e_lib (se_io E)) holds" and E: "env_ok (se_io E)" and io: "io_ok (se_io E) (sw_dp s)"
    and lay: "layout_ok E (sw_dp s)" and i: "flow_inv (se_hash E) \<alpha> (sw_flow s)" and f: "cpu_freq (sw_time s) \<noteq> 0"
    and r: "request_ok E (sw_dp s) m (se_dec E (mtod (sw_dp s) m))"
  shows "\<exists>s'. handle_vswitchd_cmd E m s = Some s' \<and>
    settles holds (se_io E) (if request_leaks (se_dec E (mtod (sw_dp s) m)) then {#} else {#m#}) (sw_dp s) (sw_dp s') \<and>
    flow_inv (se_hash E) \<alpha> (sw_flow s')"
proof -
  let ?req = "se_dec E (mtod (sw_dp s) m)"
  let ?d = "(sw_dp s)\<lparr>d_mbuf := (d_mbuf (sw_dp s))(m := pktmbuf_adj (se_msg_size E) (d_mbuf (sw_dp s) m))\<rparr>"
  consider (vport) v where "msg_type ?req = VPORT_CMD_FAMILY" "msg_payload ?req = VPORT_MSG v" "CHR ''%'' \<notin> set (vm_port_name v)"
    | (flow) v where "msg_type ?req = FLOW_CMD_FAMILY" "msg_payload ?req = FLOW_MSG v"
    | (packet) acts where "msg_type ?req = PACKET_CMD_FAMILY" "msg_payload ?req = PACKET_MSG acts" "acts \<noteq> []"
        "mb_pkt_len (d_mbuf (sw_dp s) m) = ucast (mb_data_len (d_mbuf (sw_dp s) m))" "room (pops acts) (pushes acts) ?d m"
    | (unknown) "msg_type ?req \<notin> {VPORT_CMD_FAMILY, FLOW_CMD_FAMILY, PACKET_CMD_FAMILY}"
    using r by (auto simp: request_ok_def split: if_splits dpdk_payload.splits)
  then show ?thesis
  proof cases
    case (vport v)
    from handle_vport_cmd_ok [OF L io lay vport(3)] settles_free [OF L] i vport show ?thesis
      by (auto simp: handle_vswitchd_cmd_def upd_dp_def request_leaks_def)
  next
    case (flow v)
    from handle_flow_cmd_ok [OF L io lay i f, of v] settles_free [OF L] flow show ?thesis
      by (auto simp: handle_vswitchd_cmd_def upd_dp_def request_leaks_def VPORT_CMD_FAMILY_def FLOW_CMD_FAMILY_def)
  next
    case (packet acts)
    have "mbuf_in (d_mbuf (sw_dp s) m) (length (d_buf (sw_dp s) (mb_buf (d_mbuf (sw_dp s) m))))"
      using io by (simp add: io_ok_def mbufs_ok_def)
    from mbuf_in_adj [OF this packet(4), of "se_msg_size E"] have "io_ok (se_io E) ?d"
      by (intro io_ok_mbuf [OF io, of m]) (simp_all add: pktmbuf_adj_def split: if_splits)
    from action_execute_handed [OF L E this packet(5,3)] obtain t where
      "action_execute (se_io E) acts m ?d = Some t" "handed holds (se_io E) (if leaks acts then {#} else {#m#}) ?d t"
      "tidy holds (se_io E) m ?d t" by auto
    then show ?thesis using packet(1,2) i
      by (auto simp: handle_vswitchd_cmd_def handle_packet_cmd_def upd_dp_def settles_def handed_def tidy_def request_leaks_def
          VPORT_CMD_FAMILY_def FLOW_CMD_FAMILY_def PACKET_CMD_FAMILY_def)
  next
    case unknown
    from send_reply_ok [OF L io lay, of "\<lparr>msg_type = EINVAL, msg_payload = ZERO_MSG\<rparr>"] settles_free [OF L] i unknown show ?thesis
      by (auto simp: handle_vswitchd_cmd_def handle_unknown_cmd_def upd_dp_def request_leaks_def)
  qed
qed

section \<open>The loop that refills the ring of fresh mbufs\<close>

text \<open>
  What the loop relies on beyond the account: \<open>avail\<close> mbufs can still be allocated, an allocation leaves the ring alone,
  and mbufs put into a ring with room are counted.
\<close>

definition alloc_ring_ok :: "'w dpdk \<Rightarrow> ('w \<Rightarrow> nat) \<Rightarrow> bool" where
  "alloc_ring_ok L avail \<longleftrightarrow>
     (\<forall>w. avail w > 0 \<longrightarrow> (\<exists>m w'. pktmbuf_alloc L w = (Some m, w') \<and> avail w = Suc (avail w') \<and>
        ring_count L VSWITCHD_ALLOC w' = ring_count L VSWITCHD_ALLOC w)) \<and>
     (\<forall>ms w r w'. ring_enqueue_bulk L VSWITCHD_ALLOC ms w = (r, w') \<longrightarrow> ring_count L VSWITCHD_ALLOC w + length ms < 2048 \<longrightarrow>
        r \<noteq> - ENOBUFS \<and> ring_count L VSWITCHD_ALLOC w' = ring_count L VSWITCHD_ALLOC w + length ms \<and> avail w' = avail w)"

lemma alloc_some_ok:
  assumes L: "dpdk_ok (e_lib io) holds" and R: "alloc_ring_ok (e_lib io) avail" and n: "n \<le> avail (d_lib d)"
  shows "\<exists>ms d'. alloc_some io n d = (ms, d') \<and> length ms = n \<and> avail (d_lib d) = n + avail (d_lib d') \<and>
    ring_count (e_lib io) VSWITCHD_ALLOC (d_lib d') = ring_count (e_lib io) VSWITCHD_ALLOC (d_lib d) \<and>
    owned holds k d = mset ms + owned holds k d'"
  using n
proof (induction n arbitrary: d)
  case (Suc n)
  then obtain m w where a: "pktmbuf_alloc (e_lib io) (d_lib d) = (Some m, w)" "avail (d_lib d) = Suc (avail w)"
    "ring_count (e_lib io) VSWITCHD_ALLOC w = ring_count (e_lib io) VSWITCHD_ALLOC (d_lib d)"
    using R unfolding alloc_ring_ok_def by (metis less_eq_Suc_le zero_less_Suc order_less_le_trans)
  obtain r e where e: "mbuf_alloc io d = (r, e)" by fastforce
  then have "r = Some m" "d_lib e = w" using a(1) by (auto simp: mbuf_alloc_def)
  with Suc.IH [of e] Suc.prems a(2,3) e owned_alloc [OF L e, of k] show ?case by auto
qed simp

lemma refill_step_ok:
  assumes L: "dpdk_ok (e_lib io) holds" and R: "alloc_ring_ok (e_lib io) avail" and a: "PKT_BURST_SIZE \<le> avail (d_lib d)"
    and c: "ring_count (e_lib io) VSWITCHD_ALLOC (d_lib d) < VSWITCHD_ALLOC_THRESHOLD"
  shows "ring_count (e_lib io) VSWITCHD_ALLOC (d_lib (refill_step io d)) = ring_count (e_lib io) VSWITCHD_ALLOC (d_lib d) + PKT_BURST_SIZE"
    "avail (d_lib d) = PKT_BURST_SIZE + avail (d_lib (refill_step io d))" "owned holds k (refill_step io d) = owned holds k d"
proof -
  obtain ms e where e: "alloc_some io PKT_BURST_SIZE d = (ms, e)" "length ms = PKT_BURST_SIZE" "avail (d_lib d) = PKT_BURST_SIZE + avail (d_lib e)"
    "ring_count (e_lib io) VSWITCHD_ALLOC (d_lib e) = ring_count (e_lib io) VSWITCHD_ALLOC (d_lib d)"
    "owned holds k d = mset ms + owned holds k e"
    using alloc_some_ok [OF L R a] by blast
  obtain r w where q: "ring_enqueue_bulk (e_lib io) VSWITCHD_ALLOC ms (d_lib e) = (r, w)" by fastforce
  have "ring_count (e_lib io) VSWITCHD_ALLOC (d_lib e) + length ms < 2048"
    using c e(2,4) by (simp add: VSWITCHD_ALLOC_THRESHOLD_def PKT_BURST_SIZE_def)
  then have w: "r \<noteq> - ENOBUFS" "ring_count (e_lib io) VSWITCHD_ALLOC w = ring_count (e_lib io) VSWITCHD_ALLOC (d_lib e) + length ms"
    "avail w = avail (d_lib e)" using R q unfolding alloc_ring_ok_def by blast+
  have bulk: "\<forall>q ms w r w'. ring_enqueue_bulk (e_lib io) q ms w = (r, w') \<longrightarrow>
      r = - ENOBUFS \<and> holds w' = holds w \<or> (r = 0 \<or> r = - EDQUOT) \<and> holds w' = mset ms + holds w"
    using L unfolding dpdk_ok_def by (elim conjE)
  have h: "holds w = mset ms + holds (d_lib e)" using bulk [rule_format, OF q] w(1) by auto
  have ms: "ms \<noteq> []" using e(2) by (auto simp: PKT_BURST_SIZE_def)
  have step: "refill_step io d = e\<lparr>d_lib := w\<rparr>" using ms by (simp add: refill_step_def e(1) q)
  show "ring_count (e_lib io) VSWITCHD_ALLOC (d_lib (refill_step io d)) = ring_count (e_lib io) VSWITCHD_ALLOC (d_lib d) + PKT_BURST_SIZE"
    "avail (d_lib d) = PKT_BURST_SIZE + avail (d_lib (refill_step io d))"
    using w e(2-4) by (simp_all add: step)
  show "owned holds k (refill_step io d) = owned holds k d" using h e(5) by (simp add: step owned_def)
qed

lemma refill_done: "VSWITCHD_ALLOC_THRESHOLD \<le> ring_count (e_lib io) VSWITCHD_ALLOC (d_lib d) \<Longrightarrow> refill io d = Some d"
  by (subst refill.simps) simp

lemma refill_more:
  "ring_count (e_lib io) VSWITCHD_ALLOC (d_lib d) < VSWITCHD_ALLOC_THRESHOLD \<Longrightarrow> refill io d = refill io (refill_step io d)"
  by (subst refill.simps) simp

lemma refill_terminates:
  assumes L: "dpdk_ok (e_lib io) holds" and R: "alloc_ring_ok (e_lib io) avail"
    and a: "VSWITCHD_ALLOC_THRESHOLD + PKT_BURST_SIZE \<le> ring_count (e_lib io) VSWITCHD_ALLOC (d_lib d) + avail (d_lib d)"
  shows "\<exists>d'. refill io d = Some d' \<and> VSWITCHD_ALLOC_THRESHOLD \<le> ring_count (e_lib io) VSWITCHD_ALLOC (d_lib d') \<and>
    owned holds k d' = owned holds k d"
  using a
proof (induction "VSWITCHD_ALLOC_THRESHOLD - ring_count (e_lib io) VSWITCHD_ALLOC (d_lib d)" arbitrary: d rule: less_induct)
  case less
  let ?c = "\<lambda>d. ring_count (e_lib io) VSWITCHD_ALLOC (d_lib d)"
  show ?case
  proof (cases "VSWITCHD_ALLOC_THRESHOLD \<le> ?c d")
    case True
    then show ?thesis by (simp add: refill_done)
  next
    case False
    then have lt: "?c d < VSWITCHD_ALLOC_THRESHOLD" and "PKT_BURST_SIZE \<le> avail (d_lib d)" using less.prems by simp_all
    note st = refill_step_ok [OF L R this(2,1)]
    have "VSWITCHD_ALLOC_THRESHOLD - ?c (refill_step io d) < VSWITCHD_ALLOC_THRESHOLD - ?c d"
      using lt by (simp add: st(1) PKT_BURST_SIZE_def)
    from less.hyps [OF this] less.prems show ?thesis by (simp add: refill_more [OF lt] st(1,3)) (simp add: st(2))
  qed
qed

text \<open>A pool from which nothing can be allocated, and a ring that is short of mbufs.\<close>

definition starved :: "'w env \<Rightarrow> 'w dp \<Rightarrow> bool" where
  "starved io d \<longleftrightarrow> ring_count (e_lib io) VSWITCHD_ALLOC (d_lib d) < VSWITCHD_ALLOC_THRESHOLD \<and>
     pktmbuf_alloc (e_lib io) (d_lib d) = (None, d_lib d)"

lemma refill_step_starved: "starved io d \<Longrightarrow> refill_step io d = d"
  by (simp add: refill_step_def PKT_BURST_SIZE_def starved_def mbuf_alloc_def numeral_eq_Suc)

lemma refill_starved:
  assumes "refill io d = Some d'"
  shows "\<not> starved io d"
proof (rule refill.raw_induct [where P = "\<lambda>io d d'. \<not> starved io d", OF _ assms])
  fix ref io d d'
  assume ih: "\<And>io d d'. ref io d = Some d' \<Longrightarrow> \<not> starved io d"
    and b: "(if ring_count (e_lib io) VSWITCHD_ALLOC (d_lib d) < VSWITCHD_ALLOC_THRESHOLD then ref io (refill_step io d) else Some d) = Some d'"
  show "\<not> starved io d"
  proof
    assume s: "starved io d"
    then have "ref io d = Some d'" using b refill_step_starved [OF s] by (simp add: starved_def)
    then show False using ih s by blast
  qed
qed

section \<open>Properties\<close>

text \<open>The daemon's requests to add, replace and delete flows act on the flow table as updates of a map, with the reply
  the request calls for: a flow is created only with the create flag and replaced only with the replace flag, keeping
  its statistics unless the request clears them; an empty key deletes every flow. The invariant of the table is kept.\<close>

theorem flow_requests_refine_map:
  assumes "flow_inv H \<alpha> T" "cpu_freq now \<noteq> 0"
  shows "(\<exists>msg T'. flow_new_reply H now r T = Some (msg, T') \<and> flow_inv H \<alpha> T' \<and> new_spec (hash_full H T (fm_key r)) r (flows \<alpha> T) (msg_type msg) (flows \<alpha> T')) \<and>
    (\<exists>msg T'. flow_del_reply H now r T = Some (msg, T') \<and> flow_inv H \<alpha> T' \<and> del_spec r (flows \<alpha> T) (msg_type msg) (flows \<alpha> T'))"
  using flow_new_reply_spec [OF assms] flow_del_reply_spec [OF assms] by blast

text \<open>C13: A request of the daemon is handled without leaving the buffers, and the mbuf that carried it is accounted for: a
  packet is executed and handed over, any other message is freed, and a reply that cannot be queued is freed too. The only
  mbuf that is lost is that of a packet request whose actions have no output. The tables of ports and flows stay
  well-formed. The request has to be one the code can handle (\<open>request_ok\<close>): the union holds the member that the type of
  the message says; the name in a port request has no percent sign, as it is used as a format; a packet request has
  actions, and its mbuf the same two lengths and room for the actions. The rest of the state is assumed well-formed: the
  physical ports are numbered without gaps, no cache is full, a message fits into a fresh mbuf, the data of every mbuf lies
  in its buffer, and the rings of every attached guest are consistent and its buffers mapped.\<close>

theorem daemon_request_accounted:
  assumes "dpdk_ok (e_lib (se_io E)) holds" "env_ok (se_io E)" "vports_ok (e_cfg (se_io E)) (d_vports (sw_dp s))" "caches_ok (sw_dp s)"
    and "mbufs_ok (sw_dp s)" "guests_ready (sw_dp s)" "layout_ok E (sw_dp s)" "flow_inv (se_hash E) \<alpha> (sw_flow s)" "cpu_freq (sw_time s) \<noteq> 0"
    and "req = se_dec E (mtod (sw_dp s) m)" "request_ok E (sw_dp s) m req"
  shows "\<exists>s'. handle_vswitchd_cmd E m s = Some s' \<and>
    owned holds (e_cores (se_io E)) (sw_dp s') = (if request_leaks req then {#} else {#m#}) + owned holds (e_cores (se_io E)) (sw_dp s) \<and>
    vports_ok (e_cfg (se_io E)) (d_vports (sw_dp s')) \<and> caches_ok (sw_dp s') \<and> mbufs_ok (sw_dp s') \<and> guests_ready (sw_dp s') \<and>
    flow_inv (se_hash E) \<alpha> (sw_flow s')"
  using handle_vswitchd_cmd_ok [OF assms(1,2) _ assms(7-9), of m] assms(3-6,10,11) by (auto simp: io_ok_def settles_def handed_def)

text \<open>C30: The loop that keeps the ring of fresh mbufs filled ends with at least 512 mbufs in the ring, and loses none, whenever
  the pool together with the ring has one burst more than that.\<close>

theorem refill_ends:
  assumes "dpdk_ok (e_lib io) holds" "alloc_ring_ok (e_lib io) avail"
    and "VSWITCHD_ALLOC_THRESHOLD + PKT_BURST_SIZE \<le> ring_count (e_lib io) VSWITCHD_ALLOC (d_lib d) + avail (d_lib d)"
  shows "\<exists>d'. refill io d = Some d' \<and> 512 \<le> ring_count (e_lib io) VSWITCHD_ALLOC (d_lib d') \<and> owned holds k d' = owned holds k d"
  using refill_terminates [OF assms] by (simp add: VSWITCHD_ALLOC_THRESHOLD_def)

text \<open>With an empty pool and a ring below its threshold the same loop never ends: the core that serves the daemon spins
  and no longer switches packets.\<close>

theorem refill_spins:
  assumes "ring_count (e_lib io) VSWITCHD_ALLOC (d_lib d) < VSWITCHD_ALLOC_THRESHOLD" "pktmbuf_alloc (e_lib io) (d_lib d) = (None, d_lib d)"
  shows "refill io d = None"
  using refill_starved [of io d] assms by (cases "refill io d") (auto simp: starved_def)

text \<open>When the hash table has no room for a new flow, the request to create it is answered with success all the same, and
  the table does not hold the flow.\<close>

theorem flow_new_full_reports_success:
  assumes "flow_inv H \<alpha> T" "flows \<alpha> T (fm_key r) = None" "fm_flags r AND FLAG_CREATE \<noteq> 0" "hash_add_key H (handle T) (fm_key r) = (- ENOSPC, h)"
  shows "\<exists>msg T'. flow_new_reply H now r T = Some (msg, T') \<and> msg_type msg = 0 \<and> flows \<alpha> T' (fm_key r) = None"
proof -
  have "fst (flow_table_add_flow H (fm_key r) (fm_actions r) T) < 0"
    using assms(1,2,4) lookup_flows [of H \<alpha> T "fm_key r"] by (simp add: flow_table_add_flow_def bad_pos_def ENOSPC_def)
  then have "flows \<alpha> (snd (flow_table_add_flow H (fm_key r) (fm_actions r) T)) = flows \<alpha> T"
    using ft.add_new [OF assms(1,2), of "fm_actions r"] by auto
  then show ?thesis using assms(2,3) by (simp add: flow_new_reply_def lookup_flows [OF assms(1)])
qed

section \<open>Instances\<close>

definition example_flow_msg :: dpdk_flow_message where
  "example_flow_msg = \<lparr>fm_id = 0, fm_cmd = CMD_NEW, fm_flags = FLAG_CREATE, fm_key = example_key, fm_stats = zero_stats,
     fm_actions = [ACTION_OUTPUT 0x10, ACTION_NULL], fm_clear = False\<rparr>"

definition example_senv :: "(nat list, flow_key option list) senv" where
  "example_senv = \<lparr>se_io = example_env, se_hash = slots_hash, se_max_lcore = 1, se_enc = (\<lambda>_. zeros 64),
     se_dec = (\<lambda>_. \<lparr>msg_type = FLOW_CMD_FAMILY, msg_payload = FLOW_MSG example_flow_msg\<rparr>), se_upcall = (\<lambda>_ _. zeros 32),
     se_msg_size = 64, se_upcall_size = 32\<rparr>"

definition example_switch :: "(nat list, flow_key option list) switch" where
  "example_switch = \<lparr>sw_dp = example_io, sw_flow = flow_table_init [],
     sw_time = \<lparr>curr_tsc = 0, cpu_freq = 1, tv_sec = 0, tv_nsec = 0\<rparr>, sw_signals = 0\<rparr>"

theorem flow_requests_refine_map_witness:
  "(\<exists>msg T'. flow_new_reply slots_hash (sw_time example_switch) example_flow_msg (flow_table_init []) = Some (msg, T') \<and>
      flow_inv slots_hash slots_map T' \<and> msg_type msg = 0) \<and>
   (\<exists>msg T'. flow_del_reply slots_hash (sw_time example_switch) example_flow_msg (flow_table_init []) = Some (msg, T') \<and> msg_type msg = ENOENT)"
proof -
  have n: "flows slots_map (flow_table_init []) = Map.empty"
    by (simp add: fun_eq_iff flows_def flow_table_init_def slots_map_def find_from_def)
  have k: "example_key \<noteq> zero_key" by (simp add: example_key_def zero_key_def)
  show ?thesis
    using flow_requests_refine_map [OF init_example, of "sw_time example_switch" example_flow_msg]
    by (auto simp: new_spec_def del_spec_def n k example_flow_msg_def FLAG_CREATE_def example_switch_def)
qed

text \<open>The same switch with a packet request, to be sent to a physical port.\<close>

definition packet_senv :: "(nat list, flow_key option list) senv" where
  "packet_senv = example_senv\<lparr>se_dec := \<lambda>_. \<lparr>msg_type = PACKET_CMD_FAMILY, msg_payload = PACKET_MSG [ACTION_OUTPUT 0x10, ACTION_NULL]\<rparr>\<rparr>"

theorem daemon_request_accounted_witness:
  "(\<exists>s'. handle_vswitchd_cmd example_senv 5 example_switch = Some s' \<and> owned mset 1 (sw_dp s') = add_mset 5 (owned mset 1 example_io)) \<and>
   (\<exists>s'. handle_vswitchd_cmd packet_senv 5 example_switch = Some s' \<and> owned mset 1 (sw_dp s') = add_mset 5 (owned mset 1 example_io))"
proof -
  have l: "layout_ok example_senv (sw_dp example_switch)" "layout_ok packet_senv (sw_dp example_switch)"
    by (simp_all add: layout_ok_def packet_senv_def example_senv_def example_env_def pool_lib_def example_switch_def example_io_def example_dp_def)
  have r: "request_ok example_senv (sw_dp example_switch) 5 (se_dec example_senv (mtod (sw_dp example_switch) 5))"
    "request_ok packet_senv (sw_dp example_switch) 5 (se_dec packet_senv (mtod (sw_dp example_switch) 5))"
    by (simp_all add: request_ok_def packet_senv_def example_senv_def VPORT_CMD_FAMILY_def FLOW_CMD_FAMILY_def PACKET_CMD_FAMILY_def)
      (simp add: room_def pktmbuf_adj_def example_switch_def example_io_def example_dp_def)
  have k: "\<not> request_leaks (se_dec example_senv x)" "\<not> request_leaks (se_dec packet_senv x)" for x
    by (simp_all add: request_leaks_def leaks_def packet_senv_def example_senv_def FLOW_CMD_FAMILY_def PACKET_CMD_FAMILY_def MAX_ACTIONS_def)
  have "se_io example_senv = example_env" "se_io packet_senv = example_env" "sw_dp example_switch = example_io" "e_cores example_env = 1"
    "se_hash packet_senv = slots_hash" "se_hash example_senv = slots_hash" "sw_flow example_switch = flow_table_init []"
    "cpu_freq (sw_time example_switch) \<noteq> 0"
    by (simp_all add: packet_senv_def example_senv_def example_switch_def example_env_def)
  with daemon_request_accounted [of example_senv mset example_switch slots_map _ 5, OF _ _ _ _ _ _ l(1) _ _ refl r(1)]
    daemon_request_accounted [of packet_senv mset example_switch slots_map _ 5, OF _ _ _ _ _ _ l(2) _ _ refl r(2)]
    example_io_ok example_env_ok init_example k show ?thesis by auto
qed

text \<open>A library with a pool and the ring of fresh mbufs.\<close>

definition ring_lib :: "(nat list \<times> nat list) dpdk" where
  "ring_lib = \<lparr>pktmbuf_free = (\<lambda>m (p, a). (m # p, a)),
     pktmbuf_alloc = (\<lambda>(p, a). case p of [] \<Rightarrow> (None, ([], a)) | m # ms \<Rightarrow> (Some m, (ms, a))),
     pktmbuf_clone = (\<lambda>_ (p, a). case p of [] \<Rightarrow> (None, ([], a)) | m # ms \<Rightarrow> (Some m, (ms, a))),
     ring_enqueue = (\<lambda>_ m (p, a). (0, (m # p, a))), ring_enqueue_burst = (\<lambda>_ ms (p, a). (length ms, (ms @ p, a))),
     ring_dequeue_burst = (\<lambda>_ n w. ([], w)), ring_dequeue_bulk = (\<lambda>_ n w. (if n = 0 then Some [] else None, w)),
     ring_enqueue_bulk = (\<lambda>q ms (p, a). (0, if q = VSWITCHD_ALLOC then (p, ms @ a) else (ms @ p, a))),
     ring_count = (\<lambda>q (p, a). if q = VSWITCHD_ALLOC then length a else 0),
     kni_tx_burst = (\<lambda>_ ms (p, a). (length ms, (ms @ p, a))), kni_rx_burst = (\<lambda>_ n w. ([], w)), kni_handle_request = (\<lambda>_ w. w),
     eth_tx_burst = (\<lambda>_ ms (p, a). (length ms, (ms @ p, a))), eth_rx_burst = (\<lambda>_ n w. ([], w)), rdtsc = (\<lambda>w. (0, w)),
     pktmbuf_headroom = 128\<rparr>"

lemma ring_lib_ok: "dpdk_ok ring_lib (\<lambda>(p, a). mset p + mset a)"
  by (simp add: dpdk_ok_def ring_lib_def fetches_def takes_def gives_def split: list.splits prod.splits)

lemma ring_lib_alloc_ok: "alloc_ring_ok ring_lib (length \<circ> fst)"
  by (auto simp: alloc_ring_ok_def ring_lib_def ENOBUFS_def split: list.splits)

definition ring_env :: "(nat list \<times> nat list) env" where
  "ring_env = \<lparr>e_lib = ring_lib, e_lcore = 0, e_cores = 1, e_lcore_map = (\<lambda>_. 0), e_cfg = example_cfg, e_flush_period = 0\<rparr>"

definition ring_dp :: "nat \<Rightarrow> (nat list \<times> nat list) dp" where
  "ring_dp n = \<lparr>d_lib = ([0..<n], []), d_mbuf = d_mbuf example_dp, d_buf = d_buf example_dp, d_stats = stats_init,
     d_vports = vport_init example_cfg, d_client_cache = (\<lambda>_ _. []), d_port_cache = (\<lambda>_ _. []), d_vhost_cache = (\<lambda>_ _. []),
     d_prev_tsc = (\<lambda>_. 0), d_dev = (\<lambda>_. example_dev)\<rparr>"

lemma ring_env_sel: "e_lib ring_env = ring_lib" "ring_count ring_lib VSWITCHD_ALLOC w = length (snd w)"
  "d_lib (ring_dp n) = ([0..<n], [])"
  by (simp_all add: ring_env_def ring_lib_def ring_dp_def split: prod.splits)

theorem refill_ends_witness:
  "\<exists>d'. refill ring_env (ring_dp 600) = Some d' \<and> 512 \<le> length (snd (d_lib d'))"
  using refill_ends [of ring_env "\<lambda>(p, a). mset p + mset a" "length \<circ> fst" "ring_dp 600" 1] ring_lib_ok ring_lib_alloc_ok
  by (auto simp: ring_env_sel VSWITCHD_ALLOC_THRESHOLD_def PKT_BURST_SIZE_def)

theorem refill_spins_witness: "refill ring_env (ring_dp 0) = None"
  using refill_spins [of ring_env "ring_dp 0"] by (simp add: ring_env_sel VSWITCHD_ALLOC_THRESHOLD_def) (simp add: ring_lib_def)

text \<open>A hash table without room.\<close>

definition full_hash :: "unit rte_hash" where
  "full_hash = \<lparr>hash_lookup = (\<lambda>_ _. - ENOENT), hash_add_key = (\<lambda>h _. (- ENOSPC, h)), hash_del_key = (\<lambda>h _. (- ENOENT, h))\<rparr>"

lemma full_hash_ok: "rte_hash_ok full_hash (\<lambda>_. Map.empty)"
  by (simp add: rte_hash_ok_def full_hash_def)

theorem flow_new_full_reports_success_witness:
  "\<exists>msg T'. flow_new_reply full_hash (sw_time example_switch) example_flow_msg (flow_table_init ()) = Some (msg, T') \<and> msg_type msg = 0 \<and>
     flows (\<lambda>_. Map.empty) T' example_key = None"
  using flow_new_full_reports_success [OF flow_inv_init [OF full_hash_ok refl], where r = example_flow_msg and h = "()" and now = "sw_time example_switch"]
  by (simp add: flows_def flow_table_init_def example_flow_msg_def FLAG_CREATE_def full_hash_def)

end
