(* ===== verification/DpifDpdk.thy ===== *)
theory DpifDpdk
  imports OdpKey Datapath
begin

text \<open>
  The daemon's side of the datapath, \<open>lib/dpif-dpdk.c\<close>: flows come as Netlink attributes, the daemon converts their keys and
  actions to the structures of the messages, sends requests and converts the replies back. The structures
  \<open>dpif_dpdk_flow_key\<close>, \<open>dpif_dpdk_action\<close> and the messages have the members of \<open>flow_key\<close>, \<open>action\<close> and the messages of the
  datapath, in the same order, so one type serves both sides.
\<close>

section \<open>Keys\<close>

definition dpif_dpdk_flow_key_from_flow :: "flow \<Rightarrow> flow_key" where
  "dpif_dpdk_flow_key_from_flow f =
     (let tci = ntohs (vlan_tci f) in
      \<lparr>in_port = fl_in_port f, ether_dst = take 6 (dl_dst f), ether_src = take 6 (dl_src f), ether_type = ntohs (dl_type f),
       vlan_id = tci AND VLAN_ID_MASK, vlan_prio = ucast (drop_bit 13 tci), ip_src = ntohl (nw_src f), ip_dst = ntohl (nw_dst f),
       ip_proto = nw_proto f, ip_tos = nw_tos f, ip_ttl = nw_ttl f,
       ip_frag = (if nw_frag f = 0 then OVS_FRAG_TYPE_NONE else if nw_frag f = FLOW_NW_FRAG_ANY then OVS_FRAG_TYPE_FIRST
         else OVS_FRAG_TYPE_LATER),
       tran_src_port = ntohs (tp_src f), tran_dst_port = ntohs (tp_dst f)\<rparr>)"

text \<open>The tag is composed as an \<open>int\<close> and cut to sixteen bits.\<close>

definition dpif_dpdk_flow_key_to_flow :: "flow_key \<Rightarrow> flow" where
  "dpif_dpdk_flow_key_to_flow k = zero_flow
     \<lparr>fl_in_port := in_port k, dl_dst := take 6 (ether_dst k), dl_src := take 6 (ether_src k), dl_type := htons (ether_type k),
      vlan_tci := (if vlan_id k \<noteq> 0
        then htons (ucast (push_bit 13 (ucast (vlan_prio k) :: u32) OR ucast (vlan_id k) OR ucast VLAN_CFI)) else 0),
      nw_src := htonl (ip_src k), nw_dst := htonl (ip_dst k), nw_proto := ip_proto k, nw_tos := ip_tos k, nw_ttl := ip_ttl k,
      nw_frag := (if ip_frag k \<noteq> OVS_FRAG_TYPE_NONE
        then FLOW_NW_FRAG_ANY OR (if ip_frag k = OVS_FRAG_TYPE_LATER then FLOW_NW_FRAG_LATER else 0) else 0),
      tp_src := htons (tran_src_port k), tp_dst := htons (tran_dst_port k)\<rparr>"

section \<open>Actions\<close>

abbreviation (input) OVS_ACTION_ATTR_OUTPUT :: u16 where "OVS_ACTION_ATTR_OUTPUT \<equiv> 1"
abbreviation (input) OVS_ACTION_ATTR_SET :: u16 where "OVS_ACTION_ATTR_SET \<equiv> 3"
abbreviation (input) OVS_ACTION_ATTR_PUSH_VLAN :: u16 where "OVS_ACTION_ATTR_PUSH_VLAN \<equiv> 4"
abbreviation (input) OVS_ACTION_ATTR_POP_VLAN :: u16 where "OVS_ACTION_ATTR_POP_VLAN \<equiv> 5"

text \<open>The payload of an attribute of at least the size of the structure it is read as.\<close>

definition attr_struct :: "bytes \<Rightarrow> nat \<Rightarrow> nat \<Rightarrow> bytes option" where
  "attr_struct m a n = do { p \<leftarrow> nl_attr_get_unspec m a n; ldn m p n }"

text \<open>
  The action at place \<open>i\<close> of the array. A priority and an IPv6 header are not implemented: the place keeps what it had.
  \<open>NOT_REACHED\<close> aborts.
\<close>

definition create_action_set_datapath :: "bytes \<Rightarrow> nat \<Rightarrow> nat \<Rightarrow> action list \<Rightarrow> action list option" where
  "create_action_set_datapath m a i acts = do {
     type \<leftarrow> nl_attr_type m a;
     if unat type = OVS_KEY_ATTR_PRIORITY \<or> unat type = OVS_KEY_ATTR_IPV6 then Some acts
     else if unat type = OVS_KEY_ATTR_ETHERNET then do {
       d \<leftarrow> attr_struct m a 12;
       set_nth acts i (ACTION_SET_ETHERNET (sub 0 6 d) (sub 6 6 d)) }
     else if unat type = OVS_KEY_ATTR_IPV4 then do {
       d \<leftarrow> attr_struct m a 12;
       src \<leftarrow> ld32 d 0;
       dst \<leftarrow> ld32 d 4;
       set_nth acts i (ACTION_SET_IPV4 src dst (d ! 8) (d ! 9) (d ! 10) (d ! 11)) }
     else if unat type = OVS_KEY_ATTR_TCP then do {
       d \<leftarrow> attr_struct m a 4;
       src \<leftarrow> ld16 d 0;
       dst \<leftarrow> ld16 d 2;
       set_nth acts i (ACTION_SET_TCP src dst) }
     else if unat type = OVS_KEY_ATTR_UDP then do {
       d \<leftarrow> attr_struct m a 4;
       src \<leftarrow> ld16 d 0;
       dst \<leftarrow> ld16 d 2;
       set_nth acts i (ACTION_SET_UDP src dst) }
     else None }"

definition create_action :: "bytes \<Rightarrow> nat \<Rightarrow> nat \<Rightarrow> action list \<Rightarrow> (nat \<times> action list) option" where
  "create_action m a i acts = do {
     type \<leftarrow> nl_attr_type m a;
     if type = OVS_ACTION_ATTR_OUTPUT then do {
       port \<leftarrow> nl_attr_get_u32 m a;
       acts \<leftarrow> set_nth acts i (ACTION_OUTPUT port);
       Some (i + 1, acts) }
     else if type = OVS_ACTION_ATTR_POP_VLAN then do {
       acts \<leftarrow> set_nth acts i ACTION_POP_VLAN;
       Some (i + 1, acts) }
     else if type = OVS_ACTION_ATTR_PUSH_VLAN then do {
       d \<leftarrow> attr_struct m a 4;
       tpid \<leftarrow> ld16 d 0;
       tci \<leftarrow> ld16 d 2;
       acts \<leftarrow> set_nth acts i (ACTION_PUSH_VLAN tpid tci);
       Some (i + 1, acts) }
     else if type = OVS_ACTION_ATTR_SET then do {
       p \<leftarrow> nl_attr_get m a;
       acts \<leftarrow> create_action_set_datapath m p i acts;
       Some (i + 1, acts) }
     else Some (i, acts) }"

text \<open>
  The loop does not check the lengths of the attributes: what is left wraps around when an attribute is longer, and an
  attribute of length zero is met again and again.
\<close>

partial_function (option) create_loop :: "bytes \<Rightarrow> nat \<Rightarrow> u64 \<Rightarrow> nat \<Rightarrow> action list \<Rightarrow> (nat \<times> action list) option" where
  "create_loop m a len i acts =
     (if len = 0 then Some (i, acts)
      else do {
        (i, acts) \<leftarrow> create_action m a i acts;
        n \<leftarrow> ld16 m a;
        create_loop m (a + NLMSG_ALIGN (unat n)) (len - of_nat (NLMSG_ALIGN (unat n))) i acts })"

text \<open>The array, the memory the attributes lie in, their place and their length.\<close>

definition dpif_dpdk_create_actions :: "action list \<Rightarrow> bytes \<Rightarrow> nat option \<Rightarrow> u64 \<Rightarrow> action list option" where
  "dpif_dpdk_create_actions acts m actions actions_len =
     (if actions_len = 0 then set_nth acts 0 ACTION_NULL
      else do {
        (i, acts) \<leftarrow> (case actions of None \<Rightarrow> Some (0, acts) | Some a \<Rightarrow> create_loop m a actions_len 0 acts);
        set_nth acts i ACTION_NULL })"

definition put_set_action :: "junk \<Rightarrow> nat \<Rightarrow> bytes \<Rightarrow> ofpbuf \<Rightarrow> ofpbuf option" where
  "put_set_action junk type d b = do {
     (offset, b) \<leftarrow> nl_msg_start_nested junk b OVS_ACTION_ATTR_SET;
     b \<leftarrow> nl_msg_put_unspec junk b (of_nat type) d;
     nl_msg_end_nested b offset }"

fun put_action :: "junk \<Rightarrow> action \<Rightarrow> ofpbuf \<Rightarrow> ofpbuf option" where
  "put_action junk (ACTION_OUTPUT port) b = nl_msg_put_u32 junk b OVS_ACTION_ATTR_OUTPUT port"
| "put_action junk ACTION_POP_VLAN b = nl_msg_put_flag junk b OVS_ACTION_ATTR_POP_VLAN"
| "put_action junk (ACTION_PUSH_VLAN tpid tci) b = nl_msg_put_unspec junk b OVS_ACTION_ATTR_PUSH_VLAN (be16_bytes tpid @ be16_bytes tci)"
| "put_action junk (ACTION_SET_ETHERNET src dst) b = put_set_action junk OVS_KEY_ATTR_ETHERNET (take 6 src @ take 6 dst) b"
| "put_action junk (ACTION_SET_IPV4 src dst proto tos ttl frag) b =
     put_set_action junk OVS_KEY_ATTR_IPV4 (be32_bytes src @ be32_bytes dst @ [proto, tos, ttl, frag]) b"
| "put_action junk (ACTION_SET_TCP src dst) b = put_set_action junk OVS_KEY_ATTR_TCP (be16_bytes src @ be16_bytes dst) b"
| "put_action junk (ACTION_SET_UDP src dst) b = put_set_action junk OVS_KEY_ATTR_UDP (be16_bytes src @ be16_bytes dst) b"
| "put_action junk ACTION_NULL b = Some b"
| "put_action junk ACTION_MAX b = Some b"

fun put_actions :: "junk \<Rightarrow> action list \<Rightarrow> ofpbuf \<Rightarrow> ofpbuf option" where
  "put_actions junk [] b = Some b"
| "put_actions junk (a # as) b = (if a = ACTION_NULL then Some b else do { b \<leftarrow> put_action junk a b; put_actions junk as b })"

definition dpif_dpdk_flow_actions_to_actions :: "junk \<Rightarrow> action list \<Rightarrow> ofpbuf \<Rightarrow> ofpbuf option" where
  "dpif_dpdk_flow_actions_to_actions junk actions b = put_actions junk (take MAX_ACTIONS actions) b"

section \<open>Messages\<close>

definition zero_flow_message :: dpdk_flow_message where
  "zero_flow_message = \<lparr>fm_id = 0, fm_cmd = 0, fm_flags = 0, fm_key = zero_key, fm_stats = zero_stats, fm_actions = zero_actions, fm_clear = False\<rparr>"

definition dpif_dpdk_flow_init :: dpdk_flow_message where
  "dpif_dpdk_flow_init = zero_flow_message"

definition DPIF_FP_CREATE :: u32 where "DPIF_FP_CREATE = 1"
definition DPIF_FP_MODIFY :: u32 where "DPIF_FP_MODIFY = 2"
definition DPIF_FP_ZERO_STATS :: u32 where "DPIF_FP_ZERO_STATS = 4"

text \<open>The fitness of the key is not looked at.\<close>

definition key_of_attrs :: "bytes \<Rightarrow> nat \<Rightarrow> nat \<Rightarrow> flow_key option" where
  "key_of_attrs m key key_len = do {
     (_, f) \<leftarrow> odp_flow_key_to_flow m key key_len;
     Some (dpif_dpdk_flow_key_from_flow f) }"

definition flow_message_get_create :: "bytes \<Rightarrow> nat \<Rightarrow> nat \<Rightarrow> dpdk_flow_message option" where
  "flow_message_get_create m key key_len = do {
     k \<leftarrow> key_of_attrs m key key_len;
     Some (dpif_dpdk_flow_init\<lparr>fm_cmd := CMD_GET, fm_key := k\<rparr>) }"

definition flow_message_put_create :: "u32 \<Rightarrow> bytes \<Rightarrow> nat \<Rightarrow> nat \<Rightarrow> bytes \<Rightarrow> nat option \<Rightarrow> u64 \<Rightarrow> dpdk_flow_message option" where
  "flow_message_put_create flags m key key_len am actions actions_len = do {
     k \<leftarrow> key_of_attrs m key key_len;
     acts \<leftarrow> dpif_dpdk_create_actions zero_actions am actions actions_len;
     Some (dpif_dpdk_flow_init\<lparr>fm_cmd := CMD_NEW, fm_key := k, fm_actions := acts, fm_clear := (flags AND DPIF_FP_ZERO_STATS \<noteq> 0),
       fm_flags := (if flags AND DPIF_FP_MODIFY \<noteq> 0 then FLAG_REPLACE else 0) OR (if flags AND DPIF_FP_CREATE \<noteq> 0 then FLAG_CREATE else 0)\<rparr>) }"

definition flow_message_del_create :: "bytes \<Rightarrow> nat \<Rightarrow> nat \<Rightarrow> dpdk_flow_message option" where
  "flow_message_del_create m key key_len = do {
     k \<leftarrow> key_of_attrs m key key_len;
     Some (dpif_dpdk_flow_init\<lparr>fm_cmd := CMD_DEL, fm_key := k\<rparr>) }"

definition flow_message_flush_create :: dpdk_flow_message where
  "flow_message_flush_create = dpif_dpdk_flow_init\<lparr>fm_cmd := CMD_DEL\<rparr>"

section \<open>Upcalls\<close>

datatype dpif_upcall_type = DPIF_UC_MISS | DPIF_UC_ACTION

record dpif_upcall =
  uc_type :: dpif_upcall_type
  uc_packet :: ofpbuf
  uc_key :: nat
  uc_key_len :: nat

definition PACKET_CMD_ACTION :: u8 where "PACKET_CMD_ACTION = 2"

text \<open>
  The part of \<open>dpif_dpdk_recv\<close> behind the link: the key of the packet goes, as attributes, into the room behind the packet.
\<close>

definition upcall_create :: "junk \<Rightarrow> u8 \<Rightarrow> flow_key \<Rightarrow> ofpbuf \<Rightarrow> (int + dpif_upcall) option" where
  "upcall_create junk cmd k buf =
     (if cmd \<noteq> PACKET_CMD_MISS \<and> cmd \<noteq> PACKET_CMD_ACTION then Some (Inl EINVAL)
      else do {
        let type = (if cmd = PACKET_CMD_MISS then DPIF_UC_MISS else DPIF_UC_ACTION);
        let f = dpif_dpdk_flow_key_to_flow k;
        key \<leftarrow> odp_flow_key_from_flow junk (ofpbuf_init junk 0) f (fl_in_port f);
        buf \<leftarrow> ofpbuf_put junk buf (contents key);
        let buf = buf\<lparr>ob_size := ob_size buf - ob_size key\<rparr>;
        Some (Inr \<lparr>uc_type = type, uc_packet = buf, uc_key = ofpbuf_tail buf, uc_key_len = ob_size key\<rparr>) })"

section \<open>Keys there and back\<close>

text \<open>The keys of packets: the fields that the packet does not have are zero.\<close>

definition packet_key :: "flow_key \<Rightarrow> bool" where
  "packet_key k \<longleftrightarrow> length (ether_dst k) = 6 \<and> length (ether_src k) = 6 \<and> vlan_id k < 4096 \<and> vlan_prio k < 8 \<and>
     (if ether_type k = ETHER_TYPE_IPv4 then
        (if ip_frag k = OVS_FRAG_TYPE_LATER then tran_src_port k = 0 \<and> tran_dst_port k = 0
         else (ip_frag k = OVS_FRAG_TYPE_NONE \<or> ip_frag k = OVS_FRAG_TYPE_FIRST) \<and>
           (if ip_proto k = FlowKey.IPPROTO_TCP \<or> ip_proto k = FlowKey.IPPROTO_UDP then True
            else if ip_proto k = FlowKey.IPPROTO_ICMP then tran_src_port k < 256 \<and> tran_dst_port k < 256
            else tran_src_port k = 0 \<and> tran_dst_port k = 0))
      else ip_src k = 0 \<and> ip_dst k = 0 \<and> ip_proto k = 0 \<and> ip_tos k = 0 \<and> ip_ttl k = 0 \<and> ip_frag k = 0 \<and>
        tran_src_port k = 0 \<and> tran_dst_port k = 0)"

lemma ucast_u8_less: "(ucast (x :: u8) :: u16) < 256"
  using unat_byte_less [of x] by (simp add: word_less_nat_alt unsigned_ucast_eq take_bit_nat_eq_self)

lemma tci_bounds: "(x :: u16) AND 0xfff < 4096" "(ucast (drop_bit 13 (x :: u16)) :: u8) < 8"
proof -
  have "x AND 0xfff \<le> 0xfff" by (rule word_and_le1)
  then show "x AND 0xfff < 4096" by (rule order.strict_trans1) simp
  have "unat (drop_bit 13 x) < 8" using unat_u16_less [of x] by (simp add: drop_bit_eq_div unat_div less_mult_imp_div_less)
  then show "(ucast (drop_bit 13 x) :: u8) < 8" by (simp add: word_less_nat_alt unsigned_ucast_eq take_bit_nat_eq_self)
qed

lemma extract_ipv4_keeps:
  assumes "extract_ipv4 pkt off k = Some (k', later)"
  shows "ether_type k' = ether_type k" "ether_dst k' = ether_dst k" "ether_src k' = ether_src k" "vlan_id k' = vlan_id k" "vlan_prio k' = vlan_prio k"
    "tran_src_port k' = tran_src_port k" "tran_dst_port k' = tran_dst_port k"
  using assms by (clarsimp simp: extract_ipv4_def Let_def split: Option.bind_splits if_splits)+

lemma extract_ipv4_frag: "extract_ipv4 pkt off k = Some (k', later) \<Longrightarrow>
  ip_frag k' = OVS_FRAG_TYPE_LATER \<and> later \<or> (ip_frag k' = OVS_FRAG_TYPE_NONE \<or> ip_frag k' = OVS_FRAG_TYPE_FIRST) \<and> \<not> later"
  by (clarsimp simp: extract_ipv4_def Let_def split: Option.bind_splits if_splits)

lemma extract_l4_ports:
  assumes "extract_l4 pkt off k = Some k'"
  shows "\<exists>sp dp. k' = k\<lparr>tran_dst_port := dp, tran_src_port := sp\<rparr> \<and>
    (if ip_proto k = FlowKey.IPPROTO_TCP \<or> ip_proto k = FlowKey.IPPROTO_UDP then True else if ip_proto k = FlowKey.IPPROTO_ICMP then sp < 256 \<and> dp < 256 else sp = 0 \<and> dp = 0)"
proof -
  consider "ip_proto k = FlowKey.IPPROTO_TCP \<or> ip_proto k = FlowKey.IPPROTO_UDP" | "ip_proto k = FlowKey.IPPROTO_ICMP" "ip_proto k \<noteq> FlowKey.IPPROTO_TCP" "ip_proto k \<noteq> FlowKey.IPPROTO_UDP"
    | "ip_proto k \<noteq> FlowKey.IPPROTO_TCP" "ip_proto k \<noteq> FlowKey.IPPROTO_UDP" "ip_proto k \<noteq> FlowKey.IPPROTO_ICMP" by blast
  then show ?thesis
  proof cases
    case 1
    then have "Option.bind (ld16 pkt (off + 2)) (\<lambda>d. Option.bind (ld16 pkt off) (\<lambda>s. Some (k\<lparr>tran_dst_port := ntohs d, tran_src_port := ntohs s\<rparr>))) = Some k'"
      using assms by (simp add: extract_l4_def)
    then show ?thesis using 1 by (cases "ld16 pkt (off + 2)"; cases "ld16 pkt off") auto
  next
    case 2
    then have "Option.bind (ld8 pkt (off + 1)) (\<lambda>c. Option.bind (ld8 pkt off) (\<lambda>t. Some (k\<lparr>tran_dst_port := ucast c, tran_src_port := ucast t\<rparr>))) = Some k'"
      using assms by (simp add: extract_l4_def)
    then show ?thesis using 2 ucast_u8_less by (cases "ld8 pkt (off + 1)"; cases "ld8 pkt off") auto
  next
    case 3
    then have "k' = k\<lparr>tran_dst_port := 0, tran_src_port := 0\<rparr>" using assms by (simp add: extract_l4_def)
    then show ?thesis using 3 by auto
  qed
qed

lemma extract_packet_key:
  assumes "flow_key_extract pkt port zero_key = Some k"
  shows "packet_key k"
proof -
  obtain k1 off where l2: "extract_l2 pkt port zero_key = Some (k1, off)" using assms by (auto simp: flow_key_extract_def split: Option.bind_splits)
  have k1: "length (ether_dst k1) = 6" "length (ether_src k1) = 6" "vlan_id k1 < 4096" "vlan_prio k1 < 8" "ip_src k1 = 0" "ip_dst k1 = 0"
    "ip_proto k1 = 0" "ip_tos k1 = 0" "ip_ttl k1 = 0" "ip_frag k1 = 0" "tran_src_port k1 = 0" "tran_dst_port k1 = 0"
    using l2 tci_bounds by (auto simp: extract_l2_def zero_key_def ldn_def Let_def VLAN_ID_MASK_def split: Option.bind_splits if_splits)
  show ?thesis
  proof (cases "ether_type k1 = ETHER_TYPE_IPv4")
    case False
    then have "extract_l4 pkt off k1 = Some k" using assms l2 by (simp add: flow_key_extract_def)
    then have "k = k1\<lparr>tran_dst_port := 0, tran_src_port := 0\<rparr>" using k1 by (auto simp: extract_l4_def key_consts)
    then show ?thesis using False k1 by (simp add: packet_key_def)
  next
    case True
    with assms l2 have "Option.bind (extract_ipv4 pkt off k1) (\<lambda>(k, later). if later then Some k else extract_l4 pkt (off + 20) k) = Some k"
      by (simp add: flow_key_extract_def)
    then obtain k2 later where ip: "extract_ipv4 pkt off k1 = Some (k2, later)" and k: "(if later then Some k2 else extract_l4 pkt (off + 20) k2) = Some k"
      by (cases "extract_ipv4 pkt off k1") auto
    let ?x = "ip_frag k2"
    have k2: "ether_type k2 = ETHER_TYPE_IPv4" "length (ether_dst k2) = 6" "length (ether_src k2) = 6" "vlan_id k2 < 4096" "vlan_prio k2 < 8"
      "tran_src_port k2 = 0" "tran_dst_port k2 = 0" using True k1 extract_ipv4_keeps [OF ip] by simp_all
    note x = extract_ipv4_frag [OF ip]
    have n: "OVS_FRAG_TYPE_NONE \<noteq> OVS_FRAG_TYPE_LATER" "OVS_FRAG_TYPE_FIRST \<noteq> OVS_FRAG_TYPE_LATER"
      by (simp_all add: OVS_FRAG_TYPE_LATER_def OVS_FRAG_TYPE_NONE_def OVS_FRAG_TYPE_FIRST_def)
    show ?thesis
    proof (cases later)
      case True
      then show ?thesis using k k2 x by (simp add: packet_key_def)
    next
      case False
      then have x: "?x = OVS_FRAG_TYPE_NONE \<or> ?x = OVS_FRAG_TYPE_FIRST" "?x \<noteq> OVS_FRAG_TYPE_LATER" using x n by auto
      have k4: "extract_l4 pkt (off + 20) k2 = Some k" using k False by simp
      from extract_l4_ports [OF k4] obtain sp dp where "k = k2\<lparr>tran_dst_port := dp, tran_src_port := sp\<rparr>"
        "if ip_proto k2 = FlowKey.IPPROTO_TCP \<or> ip_proto k2 = FlowKey.IPPROTO_UDP then True else if ip_proto k2 = FlowKey.IPPROTO_ICMP then sp < 256 \<and> dp < 256 else sp = 0 \<and> dp = 0"
        by blast
      then show ?thesis using k2 x by (simp add: packet_key_def)
    qed
  qed
qed

text \<open>What the attributes keep of a key: frames without an Ethernet type are one class, and a tag with VLAN 0 is no tag.\<close>

definition norm_key :: "flow_key \<Rightarrow> flow_key" where
  "norm_key k = k\<lparr>ether_type := (if ether_type k < ETH_TYPE_MIN then FLOW_DL_TYPE_NONE else ether_type k),
     vlan_prio := (if vlan_id k = 0 then 0 else vlan_prio k)\<rparr>"

lemma flow_tci: "(ucast (push_bit 13 (ucast (prio :: u8) :: u32) OR ucast (vid :: u16) OR ucast VLAN_CFI) :: u16) =
  push_bit 13 (ucast prio) OR (if True then 0x1000 else 0) OR vid"
  by (rule bit_word_eqI) (auto simp: bit_or_iff bit_push_bit_iff bit_ucast_iff VLAN_CFI_def)

lemma key_from_to:
  assumes "packet_key k"
  shows "dpif_dpdk_flow_key_from_flow (dpif_dpdk_flow_key_to_flow k) = k\<lparr>vlan_prio := (if vlan_id k = 0 then 0 else vlan_prio k)\<rparr>"
proof -
  have k: "length (ether_dst k) = 6" "length (ether_src k) = 6" "vlan_id k < 4096" "vlan_prio k < 8" using assms by (auto simp: packet_key_def)
  have frag: "ip_frag k = 0 \<or> ip_frag k = 1 \<or> ip_frag k = 2" using assms
    by (auto simp: packet_key_def OVS_FRAG_TYPE_NONE_def OVS_FRAG_TYPE_FIRST_def OVS_FRAG_TYPE_LATER_def split: if_splits)
  note t = tci_fields [OF k(3,4), of True]
  have z: "ntohs 0 = 0" using htons_0_iff by simp
  have v: "vlan_id (dpif_dpdk_flow_key_from_flow (dpif_dpdk_flow_key_to_flow k)) = vlan_id k"
    "vlan_prio (dpif_dpdk_flow_key_from_flow (dpif_dpdk_flow_key_to_flow k)) = (if vlan_id k = 0 then 0 else vlan_prio k)"
    using t z by (auto simp: dpif_dpdk_flow_key_from_flow_def dpif_dpdk_flow_key_to_flow_def Let_def flow_tci VLAN_ID_MASK_def zero_flow_def)
  have g: "ip_frag (dpif_dpdk_flow_key_from_flow (dpif_dpdk_flow_key_to_flow k)) = ip_frag k" using frag
    by (auto simp: dpif_dpdk_flow_key_from_flow_def dpif_dpdk_flow_key_to_flow_def Let_def OVS_FRAG_TYPE_NONE_def OVS_FRAG_TYPE_FIRST_def
        OVS_FRAG_TYPE_LATER_def FLOW_NW_FRAG_ANY_def FLOW_NW_FRAG_LATER_def)
  show ?thesis using v g k(1,2)
    by (intro flow_key.equality) (simp_all add: dpif_dpdk_flow_key_from_flow_def dpif_dpdk_flow_key_to_flow_def Let_def)
qed

lemma norm_packet_key:
  assumes "packet_key k"
  shows "packet_key (norm_key k)"
proof (cases "ether_type k = ETHER_TYPE_IPv4")
  case True
  then have "\<not> ether_type k < ETH_TYPE_MIN" by (simp add: ETHER_TYPE_IPv4_def ETH_TYPE_MIN_def)
  then show ?thesis using assms True by (simp add: packet_key_def norm_key_def)
next
  case False
  have "FLOW_DL_TYPE_NONE \<noteq> ETHER_TYPE_IPv4" by (simp add: ETHER_TYPE_IPv4_def FLOW_DL_TYPE_NONE_def)
  then show ?thesis using assms False by (simp add: packet_key_def norm_key_def)
qed

lemma norm_flow_attrs: "flow_attrs (dpif_dpdk_flow_key_to_flow k) port = flow_attrs (dpif_dpdk_flow_key_to_flow (norm_key k)) port"
proof -
  let ?f = "dpif_dpdk_flow_key_to_flow k" and ?g = "dpif_dpdk_flow_key_to_flow (norm_key k)"
  have prio: "vlan_tci ?g = vlan_tci ?f" by (simp add: dpif_dpdk_flow_key_to_flow_def norm_key_def zero_flow_def)
  have same: "?g = ?f\<lparr>dl_type := dl_type ?g\<rparr>" using prio by (simp add: dpif_dpdk_flow_key_to_flow_def norm_key_def)
  show ?thesis
  proof (cases "ether_type k < ETH_TYPE_MIN")
    case False
    then have "dl_type ?g = dl_type ?f" by (simp add: dpif_dpdk_flow_key_to_flow_def norm_key_def)
    then show ?thesis using same by simp
  next
    case True
    then have t: "ntohs (dl_type ?f) < ETH_TYPE_MIN" "ntohs (dl_type ?g) < ETH_TYPE_MIN"
      by (simp_all add: dpif_dpdk_flow_key_to_flow_def norm_key_def ETH_TYPE_MIN_def FLOW_DL_TYPE_NONE_def)
    then have "inner_attrs ?f = []" "inner_attrs ?g = []" by (simp_all add: inner_attrs_def)
    moreover have "dl_type ?f \<noteq> htons ETH_TYPE_VLAN" "dl_type ?g \<noteq> htons ETH_TYPE_VLAN" using t by (auto simp: ETH_TYPE_MIN_def ETH_TYPE_VLAN_def)
    moreover have "skb_priority ?g = skb_priority ?f" "tunnel ?g = tunnel ?f" "pkt_mark ?g = pkt_mark ?f" "dl_src ?g = dl_src ?f" "dl_dst ?g = dl_dst ?f"
      by (subst same; simp)+
    ultimately show ?thesis using prio by (simp add: flow_attrs_def vlan_attrs_def)
  qed
qed

lemma to_flow_sel:
  fixes k defines "f \<equiv> dpif_dpdk_flow_key_to_flow k"
  shows "dl_type f = htons (ether_type k)" "nw_proto f = ip_proto k" "nw_src f = htonl (ip_src k)" "nw_dst f = htonl (ip_dst k)"
    "nw_tos f = ip_tos k" "nw_ttl f = ip_ttl k" "tp_src f = htons (tran_src_port k)" "tp_dst f = htons (tran_dst_port k)" "v6_zero f" "arp_zero f"
    "mpls_lse f = 0" "mpls_depth f = 0" "tunnel f = zero_tnl" "metadata f = 0" "regs f = replicate 8 0" "fl_in_port f = in_port k"
    "length (ipv6_src f) = 16" "length (ipv6_dst f) = 16" "nd_target f = zeros 16"
  by (simp_all add: f_def dpif_dpdk_flow_key_to_flow_def zero_flow_def v6_zero_def arp_zero_def)

lemma to_flow_inner_ok:
  assumes "packet_key k"
  shows "inner_ok (dpif_dpdk_flow_key_to_flow k)"
proof (cases "ether_type k = ETHER_TYPE_IPv4")
  case False
  let ?f = "dpif_dpdk_flow_key_to_flow k"
  have z: "htons 0 = 0" "htonl 0 = 0" using htons_0_iff htonl_0 by simp_all
  have k: "ip_src k = 0" "ip_dst k = 0" "ip_proto k = 0" "ip_tos k = 0" "ip_ttl k = 0" "ip_frag k = 0" "tran_src_port k = 0" "tran_dst_port k = 0"
    using assms False by (simp_all add: packet_key_def)
  have "nw_frag ?f = 0" using k by (simp add: dpif_dpdk_flow_key_to_flow_def OVS_FRAG_TYPE_NONE_def zero_flow_def)
  then have zero: "nw_src ?f = 0" "nw_dst ?f = 0" "nw_proto ?f = 0" "l4_zero ?f" "ip_zero ?f" "frag_ok (nw_frag ?f)" "nw_tos ?f = 0" "nw_ttl ?f = 0"
    using k z by (simp_all add: to_flow_sel l4_zero_def ip_zero_def frag_ok_def)
  have np: "\<not> ports_proto ?f" "(0 :: u8) \<noteq> IPPROTO_ICMPV6" using zero by (simp_all add: ports_proto_def key_consts IPPROTO_SCTP_def IPPROTO_ICMPV6_def)
  have t: "dl_type ?f \<noteq> htons ETH_TYPE_IP" using False by (simp add: to_flow_sel ETH_TYPE_IP_def ETHER_TYPE_IPv4_def)
  have arp: "length (arp_sha ?f) = 6" "length (arp_tha ?f) = 6" using to_flow_sel(10) [of k] by (simp_all add: arp_zero_def)
  show ?thesis unfolding inner_ok_def using t zero np arp to_flow_sel(9-12,17-19) [of k] by simp
next
  case True
  let ?f = "dpif_dpdk_flow_key_to_flow k"
  have t: "dl_type ?f = htons ETH_TYPE_IP" using True by (simp add: to_flow_sel ETH_TYPE_IP_def ETHER_TYPE_IPv4_def)
  have z: "htons 0 = 0" using htons_0_iff by simp
  show ?thesis
  proof (cases "ip_frag k = OVS_FRAG_TYPE_LATER")
    case later: True
    then have "tran_src_port k = 0" "tran_dst_port k = 0" using assms True by (simp_all add: packet_key_def)
    then have "l4_zero ?f" using z by (simp add: l4_zero_def to_flow_sel)
    moreover have "nw_frag ?f = 3" using later by (simp add: dpif_dpdk_flow_key_to_flow_def OVS_FRAG_TYPE_NONE_def OVS_FRAG_TYPE_LATER_def FLOW_NW_FRAG_ANY_def FLOW_NW_FRAG_LATER_def)
    ultimately show ?thesis using t to_flow_sel(9-12) [of k] by (simp add: inner_ok_def frag_ok_def FLOW_NW_FRAG_LATER_def)
  next
    case False
    then have k: "ip_frag k = OVS_FRAG_TYPE_NONE \<or> ip_frag k = OVS_FRAG_TYPE_FIRST"
      "if ip_proto k = FlowKey.IPPROTO_TCP \<or> ip_proto k = FlowKey.IPPROTO_UDP then True
       else if ip_proto k = FlowKey.IPPROTO_ICMP then tran_src_port k < 256 \<and> tran_dst_port k < 256 else tran_src_port k = 0 \<and> tran_dst_port k = 0"
      using assms True by (simp_all add: packet_key_def)
    have "nw_frag ?f = 0 \<or> nw_frag ?f = 1" using k(1)
      by (auto simp: dpif_dpdk_flow_key_to_flow_def OVS_FRAG_TYPE_NONE_def OVS_FRAG_TYPE_FIRST_def OVS_FRAG_TYPE_LATER_def FLOW_NW_FRAG_ANY_def zero_flow_def)
    then have frag: "nw_frag ?f AND FLOW_NW_FRAG_LATER = 0" "frag_ok (nw_frag ?f)" by (auto simp: FLOW_NW_FRAG_LATER_def frag_ok_def)
    have "if ports_proto ?f then True else if nw_proto ?f = FlowKey.IPPROTO_ICMP then icmp_ok ?f else l4_zero ?f"
      using k(2) z by (simp add: ports_proto_def to_flow_sel icmp_ok_def l4_zero_def split: if_splits)
    then show ?thesis using t frag to_flow_sel(9-12) [of k] by (simp add: inner_ok_def)
  qed
qed

lemma cfi_bit: "bit (0x1000 :: u16) 12"
  by simp

lemma to_flow_flow_ok:
  assumes "packet_key k"
  shows "flow_ok (dpif_dpdk_flow_key_to_flow (norm_key k))"
proof -
  let ?k = "norm_key k" let ?f = "dpif_dpdk_flow_key_to_flow ?k"
  have k: "packet_key ?k" using norm_packet_key [OF assms] .
  have "ether_type ?k = FLOW_DL_TYPE_NONE \<or> ETH_TYPE_MIN \<le> ether_type ?k" by (auto simp: norm_key_def)
  then have t: "dl_type ?f = htons FLOW_DL_TYPE_NONE \<or> ETH_TYPE_MIN \<le> ntohs (dl_type ?f)" by (simp add: to_flow_sel)
  have "vlan_tci ?f = 0 \<or> vlan_tci ?f AND htons VLAN_CFI \<noteq> 0"
  proof (cases "vlan_id ?k = 0")
    case False
    have "bit (push_bit 13 (ucast (vlan_prio ?k)) OR (if True then 0x1000 else 0) OR vlan_id ?k :: u16) 12" by (simp add: bit_or_iff)
    then have "(push_bit 13 (ucast (vlan_prio ?k)) OR (if True then 0x1000 else 0) OR vlan_id ?k) AND VLAN_CFI \<noteq> 0"
      by (metis VLAN_CFI_def and_zero_eq bit_0_eq bit_and_iff bot_apply bot_bool_def cfi_bit)
    then show ?thesis using False by (simp add: dpif_dpdk_flow_key_to_flow_def flow_tci htons_0_iff flip: htons_and)
  qed (simp add: dpif_dpdk_flow_key_to_flow_def zero_flow_def)
  moreover have "length (dl_src ?f) = 6" "length (dl_dst ?f) = 6" using k by (simp_all add: dpif_dpdk_flow_key_to_flow_def packet_key_def)
  moreover have "tnl_ok zero_tnl" by (simp add: tnl_ok_def zero_tnl_def)
  ultimately show ?thesis using to_flow_inner_ok [OF k] t to_flow_sel(13-15) [of ?k] by (auto simp: flow_ok_def)
qed

lemma upcall_key:
  assumes k: "packet_key k" and b: "ofpbuf_ok buf" "ob_source buf \<noteq> OFPBUF_STACK" and c: "cmd = PACKET_CMD_MISS \<or> cmd = PACKET_CMD_ACTION"
  shows "\<exists>u. upcall_create junk cmd k buf = Some (Inr u) \<and> contents (uc_packet u) = contents buf \<and>
    key_of_attrs (ob_mem (uc_packet u)) (uc_key u) (uc_key_len u) = Some (norm_key k)"
proof -
  let ?f = "dpif_dpdk_flow_key_to_flow k" let ?g = "dpif_dpdk_flow_key_to_flow (norm_key k)"
  let ?as = "attrs_bytes (flow_attrs ?g (in_port k))"
  have "growable (ofpbuf_init junk 0)" "contents (ofpbuf_init junk 0) = []"
    by (simp_all add: growable_def ofpbuf_init_def ofpbuf_use_def ofpbuf_use_raw_def ofpbuf_ok_def contents_def)
  then obtain key where key: "odp_flow_key_from_flow junk (ofpbuf_init junk 0) ?f (in_port k) = Some key" "ofpbuf_ok key" "contents key = ?as"
    using from_flow_puts [OF to_flow_sel(17,18), of junk k "in_port k"] norm_flow_attrs [of k "in_port k"] by (auto simp: puts_def growable_def)
  have size: "ob_size key = length ?as" using length_contents [OF key(2)] key(3) by simp
  have "tailroom_ok buf (length ?as)" using b(2) by (simp add: tailroom_ok_def)
  with b(1) obtain buf' where buf': "ofpbuf_put junk buf ?as = Some buf'" "ofpbuf_ok buf'" "contents buf' = contents buf @ ?as" "ob_data buf' = ob_data buf"
    by (rule ofpbuf_put_ok)
  have s': "ob_size buf' = ob_size buf + length ?as" using length_contents [OF buf'(2)] length_contents [OF b(1)] buf'(3) by simp
  obtain pre post where m: "ob_mem buf' = pre @ contents buf' @ post" "length pre = ob_data buf'" using mem_contents [OF buf'(2)] .
  let ?u = "\<lparr>uc_type = (if cmd = PACKET_CMD_MISS then DPIF_UC_MISS else DPIF_UC_ACTION), uc_packet = buf'\<lparr>ob_size := ob_size buf\<rparr>,
    uc_key = ofpbuf_tail (buf'\<lparr>ob_size := ob_size buf\<rparr>), uc_key_len = length ?as\<rparr>"
  have u: "upcall_create junk cmd k buf = Some (Inr ?u)"
    using c key(1,3) size buf'(1) s' by (auto simp: upcall_create_def Let_def to_flow_sel)
  have cont: "contents (buf'\<lparr>ob_size := ob_size buf\<rparr>) = contents buf"
    using m buf'(3) length_contents [OF b(1)] by (simp add: contents_def [of "buf'\<lparr>ob_size := ob_size buf\<rparr>"])
  have m2: "ob_mem buf' = (pre @ contents buf) @ ?as @ post" using m(1) buf'(3) by simp
  have "in_port k = fl_in_port ?g" by (simp add: to_flow_sel norm_key_def)
  with to_flow_ok [OF to_flow_flow_ok [OF k] _ m2] have "odp_flow_key_to_flow (ob_mem buf') (length (pre @ contents buf)) (length ?as) = Some (key_fit ?g, ?g)" by simp
  moreover have "length (pre @ contents buf) = ofpbuf_tail (buf'\<lparr>ob_size := ob_size buf\<rparr>)"
    using m(2) length_contents [OF b(1)] by (simp add: ofpbuf_tail_def)
  moreover have "dpif_dpdk_flow_key_from_flow ?g = norm_key k" using key_from_to [OF norm_packet_key [OF k]] by (simp add: norm_key_def)
  ultimately show ?thesis using u cont by (simp add: key_of_attrs_def)
qed

section \<open>Actions there and back\<close>

fun action_attr :: "action \<Rightarrow> u16 \<times> bytes" where
  "action_attr (ACTION_OUTPUT port) = (1, be32_bytes port)"
| "action_attr ACTION_POP_VLAN = (5, [])"
| "action_attr (ACTION_PUSH_VLAN tpid tci) = (4, be16_bytes tpid @ be16_bytes tci)"
| "action_attr (ACTION_SET_ETHERNET src dst) = (3, attr_bytes 4 (take 6 src @ take 6 dst))"
| "action_attr (ACTION_SET_IPV4 src dst proto tos ttl frag) = (3, attr_bytes 7 (be32_bytes src @ be32_bytes dst @ [proto, tos, ttl, frag]))"
| "action_attr (ACTION_SET_TCP src dst) = (3, attr_bytes 9 (be16_bytes src @ be16_bytes dst))"
| "action_attr (ACTION_SET_UDP src dst) = (3, attr_bytes 10 (be16_bytes src @ be16_bytes dst))"
| "action_attr ACTION_NULL = (0, [])"
| "action_attr ACTION_MAX = (0, [])"

fun proper_action :: "action \<Rightarrow> bool" where
  "proper_action ACTION_NULL = False"
| "proper_action ACTION_MAX = False"
| "proper_action (ACTION_SET_ETHERNET src dst) = (length src = 6 \<and> length dst = 6)"
| "proper_action _ = True"

lemma length_be32_value [simp]: "length (be32_bytes v) = 4"
  by (simp add: be32_bytes_def)

lemma puts_set_action:
  assumes "length d \<le> 16"
  shows "puts (put_set_action junk t d) (attr_bytes 3 (attr_bytes (of_nat t) d))"
proof -
  have "fits_attr d" "fits_attr (attr_bytes (of_nat t) d)" using assms by (simp_all add: NLMSG_ALIGN_def nl_consts)
  then show ?thesis unfolding puts_def put_set_action_def using nl_msg_set_ok [of _ d "of_nat t" junk 3] by simp
qed

lemma puts_action:
  assumes "proper_action a"
  shows "puts (put_action junk a) (attr_bytes (fst (action_attr a)) (snd (action_attr a)))"
proof (cases a)
  case (ACTION_OUTPUT p)
  have "put_action junk a = (\<lambda>b. nl_msg_put_unspec junk b 1 (be32_bytes p))" by (simp add: fun_eq_iff ACTION_OUTPUT nl_msg_put_u32_def)
  then show ?thesis using puts_attr16 [of "be32_bytes p" junk 1] by (simp add: ACTION_OUTPUT)
next
  case ACTION_POP_VLAN
  have "put_action junk a = (\<lambda>b. nl_msg_put_unspec junk b 5 [])" by (simp add: fun_eq_iff ACTION_POP_VLAN nl_msg_put_flag_def)
  then show ?thesis using puts_attr16 [of "[]" junk 5] by (simp add: ACTION_POP_VLAN)
next
  case (ACTION_PUSH_VLAN t c)
  have "put_action junk a = (\<lambda>b. nl_msg_put_unspec junk b 4 (be16_bytes t @ be16_bytes c))" by (simp add: fun_eq_iff ACTION_PUSH_VLAN)
  then show ?thesis using puts_attr16 [of "be16_bytes t @ be16_bytes c" junk 4] by (simp add: ACTION_PUSH_VLAN)
next
  case (ACTION_SET_ETHERNET s d)
  have "put_action junk a = put_set_action junk 4 (take 6 s @ take 6 d)" by (simp add: fun_eq_iff ACTION_SET_ETHERNET)
  then show ?thesis using puts_set_action [of "take 6 s @ take 6 d" junk 4] by (simp add: ACTION_SET_ETHERNET)
next
  case (ACTION_SET_IPV4 s d p t l f)
  have "put_action junk a = put_set_action junk 7 (be32_bytes s @ be32_bytes d @ [p, t, l, f])" by (simp add: fun_eq_iff ACTION_SET_IPV4)
  then show ?thesis using puts_set_action [of "be32_bytes s @ be32_bytes d @ [p, t, l, f]" junk 7] by (simp add: ACTION_SET_IPV4)
next
  case (ACTION_SET_TCP s d)
  have "put_action junk a = put_set_action junk 9 (be16_bytes s @ be16_bytes d)" by (simp add: fun_eq_iff ACTION_SET_TCP)
  then show ?thesis using puts_set_action [of "be16_bytes s @ be16_bytes d" junk 9] by (simp add: ACTION_SET_TCP)
next
  case (ACTION_SET_UDP s d)
  have "put_action junk a = put_set_action junk 10 (be16_bytes s @ be16_bytes d)" by (simp add: fun_eq_iff ACTION_SET_UDP)
  then show ?thesis using puts_set_action [of "be16_bytes s @ be16_bytes d" junk 10] by (simp add: ACTION_SET_UDP)
qed (use assms in simp_all)

lemma puts_actions:
  assumes "\<forall>a \<in> set xs. proper_action a"
  shows "puts_attrs (put_actions junk (xs @ replicate n ACTION_NULL)) (map action_attr xs)"
  using assms
proof (induction xs)
  case Nil
  show ?case using puts_none by (cases n) simp_all
next
  case (Cons a xs)
  have "a \<noteq> ACTION_NULL" using Cons.prems by auto
  then have "put_actions junk ((a # xs) @ replicate n ACTION_NULL) = (\<lambda>b. Option.bind (put_action junk a b) (put_actions junk (xs @ replicate n ACTION_NULL)))"
    by (simp add: fun_eq_iff)
  then show ?case using puts_bind [OF puts_action [of a junk] Cons.IH] Cons.prems by (simp add: split_def)
qed

text \<open>Each attribute gives its action back.\<close>

lemma attr_at_struct: "attr_at m a t d \<Longrightarrow> length d = n \<Longrightarrow> attr_struct m a n = Some d"
  using attr_at_get(3) [of m a t d] attr_at_get(4) [of m a t d n] by (simp add: attr_struct_def)

lemma attr_at_nested:
  assumes "attr_at m a t (attr_bytes t' d)" "fits_attr d"
  shows "attr_at m (a + NLA_HDRLEN) t' d"
proof -
  obtain pre post where "m = pre @ attr_bytes t' d @ post" "length pre = a + NLA_HDRLEN" by (rule attr_at_payload [OF assms(1)])
  then show ?thesis using assms(2) by (auto simp: attr_at_def)
qed

lemma ld_at: "ld32 (be32_bytes v @ r) 0 = Some v" "ld32 (be32_bytes u @ be32_bytes v @ r) 4 = Some v" "ld16 (be16_bytes w @ be16_bytes x) 2 = Some x"
  by (simp_all add: ld32_def ld16_def be32_bytes_def be16_bytes_def nth_append)

lemma create_set_action:
  assumes "i < length acts"
  shows "attr_at m a 4 (take 6 s @ take 6 d) \<Longrightarrow> length s = 6 \<Longrightarrow> length d = 6 \<Longrightarrow>
      create_action_set_datapath m a i acts = Some (acts[i := ACTION_SET_ETHERNET s d])"
    "attr_at m a 7 (be32_bytes x @ be32_bytes y @ [p, t, l, f]) \<Longrightarrow> create_action_set_datapath m a i acts = Some (acts[i := ACTION_SET_IPV4 x y p t l f])"
    "attr_at m a 9 (be16_bytes u @ be16_bytes v) \<Longrightarrow> create_action_set_datapath m a i acts = Some (acts[i := ACTION_SET_TCP u v])"
    "attr_at m a 10 (be16_bytes u @ be16_bytes v) \<Longrightarrow> create_action_set_datapath m a i acts = Some (acts[i := ACTION_SET_UDP u v])"
proof -
  have st: "attr_at m a t d \<Longrightarrow> attr_struct m a (length d) = Some d" for t d by (rule attr_at_struct) simp_all
  have mask: "(4 :: u16) AND NLA_TYPE_MASK = 4" "(7 :: u16) AND NLA_TYPE_MASK = 7" "(9 :: u16) AND NLA_TYPE_MASK = 9" "(10 :: u16) AND NLA_TYPE_MASK = 10"
    by (simp_all add: NLA_TYPE_MASK_def)
  have ip: "(be32_bytes x @ be32_bytes y @ [p, t, l, f]) ! 8 = p" "(be32_bytes x @ be32_bytes y @ [p, t, l, f]) ! 9 = t"
    "(be32_bytes x @ be32_bytes y @ [p, t, l, f]) ! 10 = l" "(be32_bytes x @ be32_bytes y @ [p, t, l, f]) ! 11 = f"
    by (simp_all add: nth_append)
  show "attr_at m a 4 (take 6 s @ take 6 d) \<Longrightarrow> length s = 6 \<Longrightarrow> length d = 6 \<Longrightarrow>
      create_action_set_datapath m a i acts = Some (acts[i := ACTION_SET_ETHERNET s d])"
    using st [of 4 "take 6 s @ take 6 d"] attr_at_get(5) [of m a 4] assms by (simp add: create_action_set_datapath_def mask set_nth_def)
  show "attr_at m a 7 (be32_bytes x @ be32_bytes y @ [p, t, l, f]) \<Longrightarrow> create_action_set_datapath m a i acts = Some (acts[i := ACTION_SET_IPV4 x y p t l f])"
    using st [of 7 "be32_bytes x @ be32_bytes y @ [p, t, l, f]"] attr_at_get(5) [of m a 7] assms
    by (simp add: create_action_set_datapath_def mask set_nth_def ld_at ip)
  show "attr_at m a 9 (be16_bytes u @ be16_bytes v) \<Longrightarrow> create_action_set_datapath m a i acts = Some (acts[i := ACTION_SET_TCP u v])"
    "attr_at m a 10 (be16_bytes u @ be16_bytes v) \<Longrightarrow> create_action_set_datapath m a i acts = Some (acts[i := ACTION_SET_UDP u v])"
    using st [of 9 "be16_bytes u @ be16_bytes v"] st [of 10 "be16_bytes u @ be16_bytes v"] attr_at_get(5) [of m a 9] attr_at_get(5) [of m a 10] assms
    by (simp_all add: create_action_set_datapath_def mask set_nth_def ld_at)
qed

lemma create_action_ok:
  assumes at: "attr_at m a (fst (action_attr x)) (snd (action_attr x))" and x: "proper_action x" and i: "i < length acts"
  shows "create_action m a i acts = Some (i + 1, acts[i := x])"
proof -
  have ty: "nl_attr_type m a = Some (fst (action_attr x) AND NLA_TYPE_MASK)" using attr_at_get(5) [OF at] .
  have mask: "(1 :: u16) AND NLA_TYPE_MASK = 1" "(3 :: u16) AND NLA_TYPE_MASK = 3" "(4 :: u16) AND NLA_TYPE_MASK = 4" "(5 :: u16) AND NLA_TYPE_MASK = 5"
    by (simp_all add: NLA_TYPE_MASK_def)
  note nest = attr_at_nested [of m a 3] attr_at_get(1) [OF at]
  show ?thesis
  proof (cases x)
    case (ACTION_OUTPUT p)
    then show ?thesis using ty attr_at_values(1) [of m a 1 p] at i by (simp add: create_action_def mask set_nth_def)
  next
    case (ACTION_PUSH_VLAN t c)
    then show ?thesis using ty attr_at_struct [of m a 4 "be16_bytes t @ be16_bytes c" 4] at i by (simp add: create_action_def mask set_nth_def ld_at)
  next
    case (ACTION_SET_ETHERNET s d)
    then show ?thesis using ty nest(2) nest(1) [of 4 "take 6 s @ take 6 d"] fits_short [of "take 6 s @ take 6 d"] at x create_set_action(1) [OF i]
      by (simp add: create_action_def mask)
  next
    case (ACTION_SET_IPV4 s d p t l f)
    then show ?thesis using ty nest(2) nest(1) [of 7 "be32_bytes s @ be32_bytes d @ [p, t, l, f]"] fits_short [of "be32_bytes s @ be32_bytes d @ [p, t, l, f]"]
        at create_set_action(2) [OF i] by (simp add: create_action_def mask)
  next
    case (ACTION_SET_TCP s d)
    then show ?thesis using ty nest(2) nest(1) [of 9 "be16_bytes s @ be16_bytes d"] fits_short [of "be16_bytes s @ be16_bytes d"] at create_set_action(3) [OF i]
      by (simp add: create_action_def mask)
  next
    case (ACTION_SET_UDP s d)
    then show ?thesis using ty nest(2) nest(1) [of 10 "be16_bytes s @ be16_bytes d"] fits_short [of "be16_bytes s @ be16_bytes d"] at create_set_action(4) [OF i]
      by (simp add: create_action_def mask)
  qed (use ty x i in \<open>simp_all add: create_action_def mask set_nth_def\<close>)
qed

lemma action_attr_fits: "proper_action x \<Longrightarrow> fits_attr (snd (action_attr x)) \<and> length (attr_bytes (fst (action_attr x)) (snd (action_attr x))) \<le> 40"
  by (cases x) (simp_all add: NLMSG_ALIGN_def nl_consts be16_bytes_def)

lemma actions_length: "\<forall>x \<in> set xs. proper_action x \<Longrightarrow> length (attrs_bytes (map action_attr xs)) \<le> 40 * length xs"
proof (induction xs)
  case (Cons x xs)
  then show ?case using action_attr_fits [of x] by (simp add: split_def)
qed simp

lemma create_loop_ok:
  assumes "m = pre @ attrs_bytes (map action_attr xs) @ post" "\<forall>x \<in> set xs. proper_action x" "i + length xs \<le> length acts" "length acts = MAX_ACTIONS"
  shows "create_loop m (length pre) (of_nat (length (attrs_bytes (map action_attr xs)))) i acts =
    Some (i + length xs, take i acts @ xs @ drop (i + length xs) acts)"
  using assms
proof (induction xs arbitrary: pre i acts)
  case Nil
  then show ?case by (subst create_loop.simps) simp
next
  case (Cons x xs)
  let ?t = "fst (action_attr x)" and ?d = "snd (action_attr x)"
  let ?rest = "attrs_bytes (map action_attr xs)"
  have m: "m = pre @ attr_bytes ?t ?d @ (?rest @ post)" "m = (pre @ attr_bytes ?t ?d) @ ?rest @ post" using Cons.prems(1) by (simp_all add: split_def)
  have x: "proper_action x" "fits_attr ?d" using Cons.prems(2) action_attr_fits [of x] by simp_all
  have at: "attr_at m (length pre) ?t ?d" using m(1) x(2) by (auto simp: attr_at_def)
  have i: "i < length acts" using Cons.prems(3) by simp
  note hd = attr_header(1) [OF m(1)]
  note st = attr_step [OF m(1) x(2) hd]
  have len: "length (attr_bytes ?t ?d) + length ?rest \<le> 40 * (1 + length xs)" "0 < length (attr_bytes ?t ?d)"
    using action_attr_fits [OF x(1)] actions_length [of xs] Cons.prems(2) by (simp_all add: nl_consts)
  have "length xs < 48" using Cons.prems(3,4) by (simp add: MAX_ACTIONS_def)
  then have "length (attr_bytes ?t ?d) + length ?rest < 2 ^ 64" using len by simp
  then have nz: "(of_nat (length (attr_bytes ?t ?d) + length ?rest) :: u64) \<noteq> 0"
    using len(2) by (simp add: word_unat_eq_iff unat_of_nat del: length_attr_bytes of_nat_add)
  have "create_loop m (length (pre @ attr_bytes ?t ?d)) (of_nat (length ?rest)) (i + 1) (acts[i := x]) =
    Some (i + 1 + length xs, take (i + 1) (acts[i := x]) @ xs @ drop (i + 1 + length xs) (acts[i := x]))"
    using Cons.IH [OF m(2)] Cons.prems(2-4) by simp
  moreover have "take (i + 1) (acts[i := x]) = take i acts @ [x]" using i by (simp add: take_Suc_conv_app_nth)
  moreover have "drop (i + 1 + length xs) (acts[i := x]) = drop (i + 1 + length xs) acts" by simp
  moreover have "attrs_bytes (map action_attr (x # xs)) = attr_bytes ?t ?d @ ?rest" by (simp add: split_def)
  ultimately show ?case using create_action_ok [OF at x(1) i] hd st nz
    by (subst create_loop.simps) (simp add: algebra_simps del: length_attr_bytes)
qed

text \<open>A list of actions as the array holds it.\<close>

definition action_array :: "action list \<Rightarrow> action list" where
  "action_array xs = xs @ replicate (MAX_ACTIONS - length xs) ACTION_NULL"

lemma create_actions_ok:
  assumes "m = pre @ attrs_bytes (map action_attr xs) @ post" "\<forall>x \<in> set xs. proper_action x" "length xs \<le> MAX_ACTIONS"
  shows "dpif_dpdk_create_actions zero_actions m (Some (length pre)) (of_nat (length (attrs_bytes (map action_attr xs)))) =
    (if length xs < MAX_ACTIONS then Some (action_array xs) else None)"
proof (cases "xs = []")
  case True
  then show ?thesis by (simp add: dpif_dpdk_create_actions_def set_nth_def zero_actions_def MAX_ACTIONS_def action_array_def nth_replicate list_update_same_conv)
next
  case False
  have z: "length zero_actions = MAX_ACTIONS" by (simp add: zero_actions_def)
  obtain x ys where "xs = x # ys" using False by (cases xs) auto
  then have pos: "0 < length (attrs_bytes (map action_attr xs))" by (simp add: split_def nl_consts)
  have "length (attrs_bytes (map action_attr xs)) \<le> 40 * 48" using actions_length [OF assms(2)] assms(3) by (simp add: MAX_ACTIONS_def)
  then have nz: "(of_nat (length (attrs_bytes (map action_attr xs))) :: u64) \<noteq> 0" using pos by (simp add: word_unat_eq_iff unat_of_nat)
  have l: "create_loop m (length pre) (of_nat (length (attrs_bytes (map action_attr xs)))) 0 zero_actions = Some (length xs, action_array xs)"
    using create_loop_ok [OF assms(1,2), of 0 zero_actions] assms(3) z by (simp add: action_array_def zero_actions_def)
  show ?thesis
  proof (cases "length xs < MAX_ACTIONS")
    case True
    then have "action_array xs ! length xs = ACTION_NULL" by (simp add: action_array_def nth_append)
    then have "(action_array xs)[length xs := ACTION_NULL] = action_array xs" by (metis list_update_id)
    then show ?thesis using True l nz by (simp add: dpif_dpdk_create_actions_def set_nth_def) (simp add: action_array_def)
  next
    case False
    then show ?thesis using l nz assms(3) by (simp add: dpif_dpdk_create_actions_def set_nth_def action_array_def)
  qed
qed

lemma growable_init: "growable (ofpbuf_init junk 0)" "contents (ofpbuf_init junk 0) = []"
  by (simp_all add: growable_def ofpbuf_init_def ofpbuf_use_def ofpbuf_use_raw_def ofpbuf_ok_def contents_def)

lemma actions_there_and_back:
  assumes "\<forall>x \<in> set xs. proper_action x" "length xs \<le> MAX_ACTIONS" "growable b" "contents b = []"
  shows "\<exists>b'. dpif_dpdk_flow_actions_to_actions junk (action_array xs) b = Some b' \<and> growable b' \<and>
    dpif_dpdk_create_actions zero_actions (ob_mem b') (Some (ob_data b')) (of_nat (ob_size b')) =
      (if length xs < MAX_ACTIONS then Some (action_array xs) else None)"
proof -
  let ?n = "MAX_ACTIONS - length xs"
  have "dpif_dpdk_flow_actions_to_actions junk (action_array xs) b = put_actions junk (xs @ replicate ?n ACTION_NULL) b"
    using assms(2) by (simp add: dpif_dpdk_flow_actions_to_actions_def action_array_def)
  moreover obtain b' where b': "put_actions junk (xs @ replicate ?n ACTION_NULL) b = Some b'" "growable b'" "contents b' = attrs_bytes (map action_attr xs)"
    using puts_actions [OF assms(1), of junk ?n] assms(3,4) by (auto simp: puts_def growable_def)
  moreover have ok: "ofpbuf_ok b'" using b'(2) by (simp add: growable_def)
  moreover obtain pre post where m: "ob_mem b' = pre @ contents b' @ post" "length pre = ob_data b'" using mem_contents [OF ok] .
  moreover have "ob_size b' = length (attrs_bytes (map action_attr xs))" using length_contents [OF ok] b'(3) by simp
  ultimately show ?thesis using create_actions_ok [OF _ assms(1,2), of "ob_mem b'" pre post] by simp
qed

section \<open>Properties\<close>

text \<open>C9: The key of a packet survives its way through the daemon: the datapath extracts it from the packet, the
  upcall carries it as Netlink attributes behind the packet, and the request that installs the flow has it again. Two
  things are lost: every frame without an Ethernet type comes back with the one type 0x5ff, and a packet whose tag
  has a priority but VLAN 0 comes back without it. The packet of the upcall is the one that was received.\<close>

theorem upcall_key_roundtrip:
  assumes "flow_key_extract pkt port zero_key = Some k" "ofpbuf_ok buf" "ob_source buf \<noteq> OFPBUF_STACK"
    and "cmd = PACKET_CMD_MISS \<or> cmd = PACKET_CMD_ACTION"
  shows "\<exists>u. upcall_create junk cmd k buf = Some (Inr u) \<and> contents (uc_packet u) = contents buf \<and>
    key_of_attrs (ob_mem (uc_packet u)) (uc_key u) (uc_key_len u) =
      Some (k\<lparr>ether_type := (if ether_type k < 0x600 then 0x5ff else ether_type k),
        vlan_prio := (if vlan_id k = 0 then 0 else vlan_prio k)\<rparr>)"
proof -
  have "norm_key k = k\<lparr>ether_type := (if ether_type k < 0x600 then 0x5ff else ether_type k), vlan_prio := (if vlan_id k = 0 then 0 else vlan_prio k)\<rparr>"
    by (simp only: norm_key_def ETH_TYPE_MIN_def FLOW_DL_TYPE_NONE_def)
  then show ?thesis using upcall_key [OF extract_packet_key [OF assms(1)] assms(2-4), of junk] by (simp only:)
qed

text \<open>C10: The actions of a flow survive the way from the datapath to the daemon and back, as Netlink attributes, for every
  list of fewer than 48 actions. The attributes of a full array of 48 actions cannot be read back: the terminating
  empty action is stored behind the array, and nothing in the code prevents that.\<close>

theorem flow_actions_roundtrip:
  assumes "\<forall>x \<in> set xs. proper_action x" "length xs \<le> MAX_ACTIONS"
  shows "\<exists>b. dpif_dpdk_flow_actions_to_actions junk (action_array xs) (ofpbuf_init junk' 0) = Some b \<and>
    dpif_dpdk_create_actions zero_actions (ob_mem b) (Some (ob_data b)) (of_nat (ob_size b)) =
      (if length xs < 48 then Some (action_array xs) else None)"
  using actions_there_and_back [OF assms growable_init [of junk'], of junk] by (auto simp: MAX_ACTIONS_def)

section \<open>Instances\<close>

definition example_frame :: bytes where
  "example_frame = [1, 2, 3, 4, 5, 6, 7, 8, 9, 10, 11, 12, 0x88, 0xb5]"

theorem upcall_key_roundtrip_witness:
  "\<exists>k u. flow_key_extract example_frame 3 zero_key = Some k \<and> ether_type k = 0x88b5 \<and>
     upcall_create (\<lambda>_. 0) PACKET_CMD_MISS k (ofpbuf_use example_frame) = Some (Inr u) \<and>
     key_of_attrs (ob_mem (uc_packet u)) (uc_key u) (uc_key_len u) = Some k"
proof -
  have t: "le16 0xb5 0x88 = 0x88b5" by (simp add: le16_def)
  obtain k where k: "flow_key_extract example_frame 3 zero_key = Some k" "ether_type k = 0x88b5" "vlan_id k = 0" "vlan_prio k = 0"
    by (rule that [of "zero_key\<lparr>in_port := 3, ether_dst := [1, 2, 3, 4, 5, 6], ether_src := [7, 8, 9, 10, 11, 12], ether_type := 0x88b5\<rparr>"])
      (simp_all add: t zero_key_def flow_key_extract_def extract_l2_def extract_l4_def example_frame_def ldn_def ld16_def key_consts Let_def)
  have "ofpbuf_ok (ofpbuf_use example_frame)" "ob_source (ofpbuf_use example_frame) \<noteq> OFPBUF_STACK"
    by (simp_all add: ofpbuf_use_def ofpbuf_use_raw_def ofpbuf_ok_def)
  then show ?thesis using upcall_key_roundtrip [OF k(1), of "ofpbuf_use example_frame" PACKET_CMD_MISS "\<lambda>_. 0"] k by auto
qed

theorem flow_actions_roundtrip_witness:
  "\<exists>b. dpif_dpdk_flow_actions_to_actions (\<lambda>_. 0) (action_array [ACTION_POP_VLAN, ACTION_OUTPUT 0x10]) (ofpbuf_init (\<lambda>_. 0) 0) = Some b \<and>
     dpif_dpdk_create_actions zero_actions (ob_mem b) (Some (ob_data b)) (of_nat (ob_size b)) = Some (action_array [ACTION_POP_VLAN, ACTION_OUTPUT 0x10])"
  using flow_actions_roundtrip [of "[ACTION_POP_VLAN, ACTION_OUTPUT 0x10]" "\<lambda>_. 0" "\<lambda>_. 0"] by (simp add: MAX_ACTIONS_def)

end
