(* ===== verification/DpdkLink.thy ===== *)
theory DpdkLink
  imports Datapath
begin

text \<open>
  The daemon's end of the rings to the datapath, \<open>lib/dpdk-link.c\<close>: requests are copied into mbufs and queued, replies and
  packets are taken from their rings, and mbufs go back through a ring of their own. The memory is shared, so the state is that
  of the datapath. A loop that waits for a ring gives way to the datapath: the parameter \<open>lk_other\<close> is what the datapath does
  between two attempts. \<open>lk_upcall\<close> reads the head of a packet sent up, the inverse of the layout \<open>se_upcall\<close>.
\<close>

section \<open>Sending\<close>

record ('w, 'h) link =
  lk_env :: "('w, 'h) senv"
  lk_other :: "('w, 'h) switch \<Rightarrow> ('w, 'h) switch option"
  lk_tid :: u32
  lk_upcall :: "bytes \<Rightarrow> u8 \<times> flow_key"

definition LINK_BURST_SIZE :: nat where "LINK_BURST_SIZE = 256"

abbreviation lk_lib :: "('w, 'h) link \<Rightarrow> 'w dpdk" where
  "lk_lib K \<equiv> e_lib (se_io (lk_env K))"

definition set_lib :: "'w \<Rightarrow> ('w, 'h) switch \<Rightarrow> ('w, 'h) switch" where
  "set_lib w = upd_dp (\<lambda>d. d\<lparr>d_lib := w\<rparr>)"

partial_function (option) alloc_mbufs :: "('w, 'h) link \<Rightarrow> nat \<Rightarrow> ('w, 'h) switch \<Rightarrow> (nat list \<times> ('w, 'h) switch) option" where
  "alloc_mbufs K n s = (case ring_dequeue_bulk (lk_lib K) VSWITCHD_ALLOC n (d_lib (sw_dp s)) of
       (Some ms, w) \<Rightarrow> Some (ms, set_lib w s)
     | (None, w) \<Rightarrow> do { s \<leftarrow> lk_other K (set_lib w s); alloc_mbufs K n s })"

text \<open>Any result but zero makes the loops try again.\<close>

partial_function (option) enqueue_mbufs_to_be_freed :: "('w, 'h) link \<Rightarrow> nat list \<Rightarrow> ('w, 'h) switch \<Rightarrow> ('w, 'h) switch option" where
  "enqueue_mbufs_to_be_freed K ms s = (case ring_enqueue_bulk (lk_lib K) VSWITCHD_FREE ms (d_lib (sw_dp s)) of (r, w) \<Rightarrow>
     if r = 0 then Some (set_lib w s) else do { s \<leftarrow> lk_other K (set_lib w s); enqueue_mbufs_to_be_freed K ms s })"

partial_function (option) enqueue_mbuf :: "('w, 'h) link \<Rightarrow> ring \<Rightarrow> nat \<Rightarrow> ('w, 'h) switch \<Rightarrow> ('w, 'h) switch option" where
  "enqueue_mbuf K q m s = (case ring_enqueue (lk_lib K) q m (d_lib (sw_dp s)) of (r, w) \<Rightarrow>
     if r = 0 then Some (set_lib w s) else do { s \<leftarrow> lk_other K (set_lib w s); enqueue_mbuf K q m s })"

text \<open>The thread writes its number into the message, through the member of the union that the family says.\<close>

definition set_msg_id :: "u32 \<Rightarrow> int \<Rightarrow> dpdk_message \<Rightarrow> dpdk_message option" where
  "set_msg_id tid family msg =
     (if family = FLOW_CMD_FAMILY then
        (case msg_payload msg of FLOW_MSG r \<Rightarrow> Some (msg\<lparr>msg_payload := FLOW_MSG (r\<lparr>fm_id := tid\<rparr>)\<rparr>) | _ \<Rightarrow> None)
      else if family = VPORT_CMD_FAMILY then
        (case msg_payload msg of VPORT_MSG r \<Rightarrow> Some (msg\<lparr>msg_payload := VPORT_MSG (r\<lparr>vm_id := tid\<rparr>)\<rparr>) | _ \<Rightarrow> None)
      else Some msg)"

text \<open>
  One mbuf is filled with a message and, for a packet, the packet behind it. The packet is compared with the length of the
  whole buffer; the result is false when it is too long. A packet that is a null pointer is undefined.
\<close>

definition fill_mbuf :: "('w, 'h) senv \<Rightarrow> int \<Rightarrow> nat \<Rightarrow> dpdk_message \<Rightarrow> bytes option \<Rightarrow> ('w, 'h) switch \<Rightarrow> (bool \<times> ('w, 'h) switch) option" where
  "fill_mbuf E family m msg packet s = do {
     let d = sw_dp s;
     let mb = d_mbuf d m;
     mem \<leftarrow> stn (d_buf d (mb_buf mb)) (mb_off mb) (se_enc E msg);
     let d = d\<lparr>d_buf := (d_buf d)(mb_buf mb := mem)\<rparr>;
     if family = PACKET_CMD_FAMILY then do {
       p \<leftarrow> packet;
       if length p \<le> length mem - se_msg_size E then do {
         mem \<leftarrow> stn mem (mb_off mb + se_msg_size E) p;
         let n = (of_nat (se_msg_size E + length p) :: u16);
         Some (True, s\<lparr>sw_dp := d\<lparr>d_buf := (d_buf d)(mb_buf mb := mem), d_mbuf := (d_mbuf d)(m := mb\<lparr>mb_data_len := n, mb_pkt_len := ucast n\<rparr>)\<rparr>\<rparr>) }
       else Some (False, s\<lparr>sw_dp := d\<rparr>) }
     else do {
       let n = (of_nat (se_msg_size E) :: u16);
       Some (True, s\<lparr>sw_dp := d\<lparr>d_mbuf := (d_mbuf d)(m := mb\<lparr>mb_data_len := n, mb_pkt_len := ucast n\<rparr>)\<rparr>\<rparr>) } }"

fun fill_mbufs :: "('w, 'h) link \<Rightarrow> int \<Rightarrow> nat list \<Rightarrow> dpdk_message list \<Rightarrow> bytes option list \<Rightarrow> ('w, 'h) switch \<Rightarrow> (bool \<times> ('w, 'h) switch) option" where
  "fill_mbufs K family (m # ms) (msg # msgs) (p # ps) s = do {
     msg \<leftarrow> set_msg_id (lk_tid K) family msg;
     (ok, s) \<leftarrow> fill_mbuf (lk_env K) family m msg p s;
     if ok then fill_mbufs K family ms msgs ps s else Some (False, s) }"
| "fill_mbufs K family _ _ _ s = Some (True, s)"

text \<open>The family is that of the first message. Of no messages there is none, and it is not looked at.\<close>

definition dpdk_link_send_bulk :: "('w, 'h) link \<Rightarrow> dpdk_message list \<Rightarrow> bytes option list \<Rightarrow> ('w, 'h) switch \<Rightarrow> (int \<times> ('w, 'h) switch) option" where
  "dpdk_link_send_bulk K requests packets s =
     (if length packets > LINK_BURST_SIZE then Some (EINVAL, s)
      else do {
        (ms, s) \<leftarrow> alloc_mbufs K (length packets) s;
        (ok, s) \<leftarrow> fill_mbufs K (case requests of [] \<Rightarrow> 0 | r # _ \<Rightarrow> msg_type r) ms requests packets s;
        if \<not> ok then do {
          s \<leftarrow> enqueue_mbufs_to_be_freed K ms s;
          Some (ENOMEM, s) }
        else case ring_enqueue_bulk (lk_lib K) VSWITCHD_MESSAGE ms (d_lib (sw_dp s)) of (ret, w) \<Rightarrow>
          if ret = - ENOBUFS then do {
            s \<leftarrow> enqueue_mbufs_to_be_freed K ms (set_lib w s);
            Some (ENOBUFS, s) }
          else if ret = - EDQUOT then Some (0, set_lib w s)
          else Some (ret, set_lib w s) })"

definition dpdk_link_send :: "('w, 'h) link \<Rightarrow> dpdk_message \<Rightarrow> bytes option \<Rightarrow> ('w, 'h) switch \<Rightarrow> (int \<times> ('w, 'h) switch) option" where
  "dpdk_link_send K request packet s = dpdk_link_send_bulk K [request] [packet] s"

section \<open>Receiving\<close>

text \<open>
  Every thread takes replies from the one ring and puts back those of other threads. The number of the thread is only looked
  at when the type of the message is that of a request. It is the first member of both structures of the union; a message
  of zeros has the number 0.
\<close>

fun msg_id :: "dpdk_payload \<Rightarrow> u32 option" where
  "msg_id (VPORT_MSG r) = Some (vm_id r)"
| "msg_id (FLOW_MSG r) = Some (fm_id r)"
| "msg_id ZERO_MSG = Some 0"
| "msg_id (PACKET_MSG _) = None"

definition is_foreign :: "u32 \<Rightarrow> dpdk_message \<Rightarrow> bool option" where
  "is_foreign tid msg =
     (if msg_type msg = VPORT_CMD_FAMILY \<or> msg_type msg = FLOW_CMD_FAMILY then map_option (\<lambda>i. i \<noteq> tid) (msg_id (msg_payload msg))
      else Some False)"

partial_function (option) recv_reply_mbuf :: "('w, 'h) link \<Rightarrow> ('w, 'h) switch \<Rightarrow> (nat \<times> ('w, 'h) switch) option" where
  "recv_reply_mbuf K s = (case ring_dequeue_bulk (lk_lib K) VSWITCHD_REPLY 1 (d_lib (sw_dp s)) of
       (None, w) \<Rightarrow> do { s \<leftarrow> lk_other K (set_lib w s); recv_reply_mbuf K s }
     | (Some ms, w) \<Rightarrow> do {
         m \<leftarrow> get_nth ms 0;
         foreign \<leftarrow> is_foreign (lk_tid K) (se_dec (lk_env K) (mtod (sw_dp s) m));
         if foreign then do {
           s \<leftarrow> enqueue_mbuf K VSWITCHD_REPLY m (set_lib w s);
           s \<leftarrow> lk_other K s;
           recv_reply_mbuf K s }
         else Some (m, set_lib w s) })"

text \<open>
  The data of the mbuf is copied over \<open>reply\<close>, as many bytes as it has: what is behind them stays, and more than a message is
  stored out of bounds. The function always returns 0.
\<close>

definition dpdk_link_recv_reply :: "('w, 'h) link \<Rightarrow> dpdk_message \<Rightarrow> ('w, 'h) switch \<Rightarrow> (dpdk_message \<times> ('w, 'h) switch) option" where
  "dpdk_link_recv_reply K reply s = do {
     (m, s) \<leftarrow> recv_reply_mbuf K s;
     let E = lk_env K;
     let n = unat (mb_data_len (d_mbuf (sw_dp s) m));
     bs \<leftarrow> ldn (mtod (sw_dp s) m) 0 n;
     if n > se_msg_size E then None
     else do {
       s \<leftarrow> enqueue_mbuf K VSWITCHD_FREE m s;
       Some (se_dec E (bs @ drop n (se_enc E reply)), s) } }"

text \<open>
  A packet from the datapath, if there is one. The length of the packet is computed in the width of a size, so a length below
  that of the head becomes a huge one, which cannot be allocated.
\<close>

definition dpdk_link_recv_packet :: "junk \<Rightarrow> ('w, 'h) link \<Rightarrow> ('w, 'h) switch \<Rightarrow> ((int + ofpbuf \<times> u8 \<times> flow_key) \<times> ('w, 'h) switch) option" where
  "dpdk_link_recv_packet junk K s = (case ring_dequeue_bulk (lk_lib K) VSWITCHD_PACKET 1 (d_lib (sw_dp s)) of
       (None, w) \<Rightarrow> Some (Inl EAGAIN, set_lib w s)
     | (Some ms, w) \<Rightarrow> do {
         m \<leftarrow> get_nth ms 0;
         let E = lk_env K;
         let n = unat (mb_data_len (d_mbuf (sw_dp s) m));
         info \<leftarrow> ldn (mtod (sw_dp s) m) 0 (se_upcall_size E);
         if n < se_upcall_size E then None
         else do {
           bs \<leftarrow> ldn (mtod (sw_dp s) m) (se_upcall_size E) (n - se_upcall_size E);
           pkt \<leftarrow> ofpbuf_clone_data junk bs;
           s \<leftarrow> enqueue_mbuf K VSWITCHD_FREE m (set_lib w s);
           Some (Inr (pkt, lk_upcall K info), s) } })"

section \<open>The rings as queues\<close>

text \<open>
  What the exchange of messages relies on beyond the account: rings are queues with room for 2047 mbufs, an empty one gives
  nothing, and the pool of mbufs is apart from them. \<open>rings\<close> gives the contents of each ring and \<open>pool\<close> the free mbufs.
\<close>

definition vswitchd_rings :: "ring set" where
  "vswitchd_rings = {VSWITCHD_PACKET, VSWITCHD_REPLY, VSWITCHD_MESSAGE, VSWITCHD_FREE, VSWITCHD_ALLOC}"

definition fifo_ok :: "'w dpdk \<Rightarrow> ('w \<Rightarrow> ring \<Rightarrow> nat list) \<Rightarrow> ('w \<Rightarrow> nat multiset) \<Rightarrow> bool" where
  "fifo_ok L rings pool \<longleftrightarrow>
     (\<forall>q n w. n \<le> length (rings w q) \<longrightarrow> (\<exists>w'. ring_dequeue_bulk L q n w = (Some (take n (rings w q)), w') \<and>
        rings w' = (rings w)(q := drop n (rings w q)) \<and> pool w' = pool w)) \<and>
     (\<forall>q n w. length (rings w q) < n \<longrightarrow> ring_dequeue_bulk L q n w = (None, w)) \<and>
     (\<forall>q n w. \<exists>w'. ring_dequeue_burst L q n w = (take n (rings w q), w') \<and>
        rings w' = (rings w)(q := drop n (rings w q)) \<and> pool w' = pool w) \<and>
     (\<forall>q m w. q \<in> vswitchd_rings \<longrightarrow> length (rings w q) < 2047 \<longrightarrow> (\<exists>w'. ring_enqueue L q m w = (0, w') \<and>
        rings w' = (rings w)(q := rings w q @ [m]) \<and> pool w' = pool w)) \<and>
     (\<forall>q ms w. q \<in> vswitchd_rings \<longrightarrow> length (rings w q) + length ms \<le> 2047 \<longrightarrow> (\<exists>w'. ring_enqueue_bulk L q ms w = (0, w') \<and>
        rings w' = (rings w)(q := rings w q @ ms) \<and> pool w' = pool w)) \<and>
     (\<forall>w. ring_count L VSWITCHD_ALLOC w = length (rings w VSWITCHD_ALLOC)) \<and>
     (\<forall>m w. rings (pktmbuf_free L m w) = rings w \<and> pool (pktmbuf_free L m w) = add_mset m (pool w)) \<and>
     (\<forall>w. pool w \<noteq> {#} \<longrightarrow> (\<exists>m w'. pktmbuf_alloc L w = (Some m, w') \<and> rings w' = rings w \<and> pool w = add_mset m (pool w')))"

lemma fifo_laws:
  assumes "fifo_ok L rings pool"
  shows "n \<le> length (rings w q) \<Longrightarrow> \<exists>w'. ring_dequeue_bulk L q n w = (Some (take n (rings w q)), w') \<and> rings w' = (rings w)(q := drop n (rings w q)) \<and> pool w' = pool w"
    and "length (rings w q) < n \<Longrightarrow> ring_dequeue_bulk L q n w = (None, w)"
    and "\<exists>w'. ring_dequeue_burst L q n w = (take n (rings w q), w') \<and> rings w' = (rings w)(q := drop n (rings w q)) \<and> pool w' = pool w"
    and "q \<in> vswitchd_rings \<Longrightarrow> length (rings w q) < 2047 \<Longrightarrow> \<exists>w'. ring_enqueue L q m w = (0, w') \<and> rings w' = (rings w)(q := rings w q @ [m]) \<and> pool w' = pool w"
    and "q \<in> vswitchd_rings \<Longrightarrow> length (rings w q) + length ms \<le> 2047 \<Longrightarrow>
      \<exists>w'. ring_enqueue_bulk L q ms w = (0, w') \<and> rings w' = (rings w)(q := rings w q @ ms) \<and> pool w' = pool w"
    and "ring_count L VSWITCHD_ALLOC w = length (rings w VSWITCHD_ALLOC)"
    and "rings (pktmbuf_free L m w) = rings w" "pool (pktmbuf_free L m w) = add_mset m (pool w)"
    and "pool w \<noteq> {#} \<Longrightarrow> \<exists>m w'. pktmbuf_alloc L w = (Some m, w') \<and> rings w' = rings w \<and> pool w = add_mset m (pool w')"
  using assms unfolding fifo_ok_def by (elim conjE; blast)+

section \<open>The refill of the ring of fresh mbufs\<close>

text \<open>The header of a fresh mbuf, and a step that takes the mbufs \<open>ms\<close> from the pool.\<close>

definition fresh_mbuf :: "'w dpdk \<Rightarrow> (nat \<Rightarrow> rte_mbuf) \<Rightarrow> nat \<Rightarrow> bool" where
  "fresh_mbuf L h m \<longleftrightarrow> mb_buf (h m) = m \<and> mb_off (h m) = pktmbuf_headroom L"

definition takes_fresh :: "'w dpdk \<Rightarrow> (nat \<Rightarrow> rte_mbuf) \<Rightarrow> nat list \<Rightarrow> (nat \<Rightarrow> rte_mbuf) \<Rightarrow> bool" where
  "takes_fresh L h ms h' \<longleftrightarrow> (\<forall>m \<in> set ms. fresh_mbuf L h' m) \<and> (\<forall>x. x \<notin> set ms \<longrightarrow> h' x = h x)"

lemma takes_fresh_append: "takes_fresh L h ms h' \<Longrightarrow> takes_fresh L h' ns h'' \<Longrightarrow> takes_fresh L h (ms @ ns) h''"
  by (auto simp: takes_fresh_def fresh_mbuf_def)

lemma alloc_some_fifo:
  assumes F: "fifo_ok (e_lib io) rings pool" and n: "n \<le> size (pool (d_lib d))"
  shows "\<exists>ms w h. alloc_some io n d = (ms, d\<lparr>d_lib := w, d_mbuf := h\<rparr>) \<and> length ms = n \<and> pool (d_lib d) = mset ms + pool w \<and>
    rings w = rings (d_lib d) \<and> takes_fresh (e_lib io) (d_mbuf d) ms h"
  using n
proof (induction n arbitrary: d)
  case 0
  show ?case by (intro exI [of _ "[]"] exI [of _ "d_lib d"] exI [of _ "d_mbuf d"]) (simp add: takes_fresh_def)
next
  case (Suc n)
  then have "pool (d_lib d) \<noteq> {#}" by auto
  then obtain m w where a: "pktmbuf_alloc (e_lib io) (d_lib d) = (Some m, w)" "rings w = rings (d_lib d)" "pool (d_lib d) = add_mset m (pool w)"
    using fifo_laws(9) [OF F] by blast
  define h1 where "h1 = (d_mbuf d)(m := \<lparr>mb_buf = m, mb_off = pktmbuf_headroom (e_lib io), mb_data_len = 0, mb_pkt_len = 0\<rparr>)"
  let ?d = "d\<lparr>d_lib := w, d_mbuf := h1\<rparr>"
  have e: "mbuf_alloc io d = (Some m, ?d)" using a(1) by (simp add: mbuf_alloc_def h1_def)
  have "\<exists>ms w' h. alloc_some io n ?d = (ms, d\<lparr>d_lib := w', d_mbuf := h\<rparr>) \<and> length ms = n \<and> pool w = mset ms + pool w' \<and>
    rings w' = rings w \<and> takes_fresh (e_lib io) h1 ms h" using Suc.IH [of ?d] Suc.prems a(3) by simp
  then obtain ms w' h where r: "alloc_some io n ?d = (ms, d\<lparr>d_lib := w', d_mbuf := h\<rparr>)" "length ms = n" "pool w = mset ms + pool w'"
    "rings w' = rings w" "takes_fresh (e_lib io) h1 ms h" by blast
  have "takes_fresh (e_lib io) (d_mbuf d) [m] h1" by (simp add: takes_fresh_def fresh_mbuf_def h1_def)
  from takes_fresh_append [OF this r(5)] show ?case using e r(1-4) a
    by (intro exI [of _ "m # ms"] exI [of _ w'] exI [of _ h]) simp
qed

lemma refill_step_fifo:
  assumes F: "fifo_ok (e_lib io) rings pool" and n: "PKT_BURST_SIZE \<le> size (pool (d_lib d))"
    and c: "length (rings (d_lib d) VSWITCHD_ALLOC) < VSWITCHD_ALLOC_THRESHOLD"
  shows "\<exists>ms w h. refill_step io d = d\<lparr>d_lib := w, d_mbuf := h\<rparr> \<and> length ms = PKT_BURST_SIZE \<and> pool (d_lib d) = mset ms + pool w \<and>
    rings w = (rings (d_lib d))(VSWITCHD_ALLOC := rings (d_lib d) VSWITCHD_ALLOC @ ms) \<and> takes_fresh (e_lib io) (d_mbuf d) ms h"
proof -
  obtain ms w h where a: "alloc_some io PKT_BURST_SIZE d = (ms, d\<lparr>d_lib := w, d_mbuf := h\<rparr>)" "length ms = PKT_BURST_SIZE"
    "pool (d_lib d) = mset ms + pool w" "rings w = rings (d_lib d)" "takes_fresh (e_lib io) (d_mbuf d) ms h"
    using alloc_some_fifo [OF F n] by blast
  have "length (rings w VSWITCHD_ALLOC) + length ms \<le> 2047" using c a(2,4) by (simp add: PKT_BURST_SIZE_def VSWITCHD_ALLOC_THRESHOLD_def)
  then obtain w' where w': "ring_enqueue_bulk (e_lib io) VSWITCHD_ALLOC ms w = (0, w')" "rings w' = (rings w)(VSWITCHD_ALLOC := rings w VSWITCHD_ALLOC @ ms)" "pool w' = pool w"
    using fifo_laws(5) [OF F, of VSWITCHD_ALLOC w ms] by (auto simp: vswitchd_rings_def)
  have "ms \<noteq> []" using a(2) by (auto simp: PKT_BURST_SIZE_def)
  then have "refill_step io d = d\<lparr>d_lib := w', d_mbuf := h\<rparr>" using a(1) w'(1) by (simp add: refill_step_def)
  then show ?thesis using a(2-5) w'(2,3) by (intro exI [of _ ms] exI [of _ w'] exI [of _ h]) simp
qed

lemma refill_fifo:
  assumes F: "fifo_ok (e_lib io) rings pool"
    and n: "544 \<le> length (rings (d_lib d) VSWITCHD_ALLOC) + size (pool (d_lib d))" "length (rings (d_lib d) VSWITCHD_ALLOC) \<le> 543"
  shows "\<exists>ms w h. refill io d = Some (d\<lparr>d_lib := w, d_mbuf := h\<rparr>) \<and> pool (d_lib d) = mset ms + pool w \<and>
    rings w = (rings (d_lib d))(VSWITCHD_ALLOC := rings (d_lib d) VSWITCHD_ALLOC @ ms) \<and> takes_fresh (e_lib io) (d_mbuf d) ms h \<and>
    512 \<le> length (rings (d_lib d) VSWITCHD_ALLOC) + length ms \<and> length (rings (d_lib d) VSWITCHD_ALLOC) + length ms \<le> 543"
  using n
proof (induction "512 - length (rings (d_lib d) VSWITCHD_ALLOC)" arbitrary: d rule: less_induct)
  case less
  let ?a = "\<lambda>d. rings (d_lib d) VSWITCHD_ALLOC"
  have count: "ring_count (e_lib io) VSWITCHD_ALLOC (d_lib d) = length (?a d)" by (rule fifo_laws(6) [OF F])
  show ?case
  proof (cases "512 \<le> length (?a d)")
    case True
    then have "refill io d = Some (d\<lparr>d_lib := d_lib d, d_mbuf := d_mbuf d\<rparr>)" using refill_done [of io d] count by (simp add: VSWITCHD_ALLOC_THRESHOLD_def)
    then show ?thesis using True less.prems by (intro exI [of _ "[]"] exI [of _ "d_lib d"] exI [of _ "d_mbuf d"]) (simp add: takes_fresh_def)
  next
    case False
    then have lt: "length (?a d) < VSWITCHD_ALLOC_THRESHOLD" by (simp add: VSWITCHD_ALLOC_THRESHOLD_def)
    have "PKT_BURST_SIZE \<le> size (pool (d_lib d))" using less.prems False by (simp add: PKT_BURST_SIZE_def)
    then obtain ms w h where st: "refill_step io d = d\<lparr>d_lib := w, d_mbuf := h\<rparr>" "length ms = PKT_BURST_SIZE" "pool (d_lib d) = mset ms + pool w"
      "rings w = (rings (d_lib d))(VSWITCHD_ALLOC := ?a d @ ms)" "takes_fresh (e_lib io) (d_mbuf d) ms h"
      using refill_step_fifo [OF F _ lt] by blast
    let ?d = "d\<lparr>d_lib := w, d_mbuf := h\<rparr>"
    have "512 - length (?a ?d) < 512 - length (?a d)" "544 \<le> length (?a ?d) + size (pool (d_lib ?d))" "length (?a ?d) \<le> 543"
      using False less.prems st(2-4) by (simp_all add: PKT_BURST_SIZE_def)
    from less.hyps [OF this] obtain ns w' h' where r: "refill io ?d = Some (d\<lparr>d_lib := w', d_mbuf := h'\<rparr>)" "pool w = mset ns + pool w'"
      "rings w' = (rings w)(VSWITCHD_ALLOC := ?a ?d @ ns)" "takes_fresh (e_lib io) h ns h'" "512 \<le> length (?a ?d) + length ns" "length (?a ?d) + length ns \<le> 543"
      by auto
    have "refill io d = Some (d\<lparr>d_lib := w', d_mbuf := h'\<rparr>)" using refill_more [of io d] count lt st(1) r(1) by simp
    moreover have "rings w' = (rings (d_lib d))(VSWITCHD_ALLOC := ?a d @ (ms @ ns))" using r(3) st(4) by simp
    moreover have "pool (d_lib d) = mset (ms @ ns) + pool w'" using r(2) st(3) by simp
    moreover have "512 \<le> length (?a d) + length (ms @ ns)" "length (?a d) + length (ms @ ns) \<le> 543" using r(5,6) st(4) by simp_all
    ultimately show ?thesis using takes_fresh_append [OF st(5) r(4)] by blast
  qed
qed

section \<open>One exchange\<close>

text \<open>
  The state between two requests: no message is under way, the pool and the ring of fresh mbufs are not empty, no mbuf is in
  two places, and there are enough mbufs for the refill to end.
\<close>

definition apart :: "nat multiset \<Rightarrow> bool" where
  "apart M \<longleftrightarrow> (\<forall>x. count M x \<le> 1)"

definition link_ok :: "('w, 'h) senv \<Rightarrow> ('w \<Rightarrow> ring \<Rightarrow> nat list) \<Rightarrow> ('w \<Rightarrow> nat multiset) \<Rightarrow> 'w dp \<Rightarrow> bool" where
  "link_ok E rings pool d \<longleftrightarrow> layout_ok E d \<and> se_msg_size E < 65536 \<and>
     (let r = rings (d_lib d); p = pool (d_lib d) in
      r VSWITCHD_MESSAGE = [] \<and> r VSWITCHD_REPLY = [] \<and> r VSWITCHD_ALLOC \<noteq> [] \<and> length (r VSWITCHD_ALLOC) \<le> 543 \<and>
      length (r VSWITCHD_FREE) \<le> PKT_BURST_SIZE \<and> p \<noteq> {#} \<and> 545 \<le> size p + length (r VSWITCHD_ALLOC) + length (r VSWITCHD_FREE) \<and>
      apart (p + mset (r VSWITCHD_ALLOC) + mset (r VSWITCHD_FREE)) \<and>
      (\<forall>m \<in> set (r VSWITCHD_ALLOC). fresh_mbuf (e_lib (se_io E)) (d_mbuf d) m))"

text \<open>The state with the request in the mbuf \<open>m\<close>, and the state with the reply in the mbuf \<open>m\<close>.\<close>

definition sent :: "('w, 'h) senv \<Rightarrow> ('w \<Rightarrow> ring \<Rightarrow> nat list) \<Rightarrow> ('w \<Rightarrow> nat multiset) \<Rightarrow> nat \<Rightarrow> 'w dp \<Rightarrow> bool" where
  "sent E rings pool m d \<longleftrightarrow> layout_ok E d \<and> se_msg_size E < 65536 \<and>
     (let r = rings (d_lib d); p = pool (d_lib d) in
      r VSWITCHD_MESSAGE = [m] \<and> r VSWITCHD_REPLY = [] \<and> length (r VSWITCHD_ALLOC) \<le> 542 \<and>
      length (r VSWITCHD_FREE) \<le> PKT_BURST_SIZE \<and> p \<noteq> {#} \<and> 544 \<le> size p + length (r VSWITCHD_ALLOC) + length (r VSWITCHD_FREE) \<and>
      apart (add_mset m (p + mset (r VSWITCHD_ALLOC) + mset (r VSWITCHD_FREE))) \<and>
      (\<forall>m \<in> set (r VSWITCHD_ALLOC). fresh_mbuf (e_lib (se_io E)) (d_mbuf d) m))"

definition replied :: "('w, 'h) senv \<Rightarrow> ('w \<Rightarrow> ring \<Rightarrow> nat list) \<Rightarrow> ('w \<Rightarrow> nat multiset) \<Rightarrow> nat \<Rightarrow> 'w dp \<Rightarrow> bool" where
  "replied E rings pool m d \<longleftrightarrow> layout_ok E d \<and> se_msg_size E < 65536 \<and>
     (let r = rings (d_lib d); p = pool (d_lib d) in
      r VSWITCHD_MESSAGE = [] \<and> r VSWITCHD_REPLY = [m] \<and> r VSWITCHD_FREE = [] \<and> r VSWITCHD_ALLOC \<noteq> [] \<and> length (r VSWITCHD_ALLOC) \<le> 543 \<and>
      544 \<le> size p + length (r VSWITCHD_ALLOC) \<and> apart (add_mset m (p + mset (r VSWITCHD_ALLOC))) \<and>
      (\<forall>m \<in> set (r VSWITCHD_ALLOC). fresh_mbuf (e_lib (se_io E)) (d_mbuf d) m))"

lemma apart_simps [simp]: "apart (add_mset x M) \<longleftrightarrow> x \<notin># M \<and> apart M"
  by (auto simp: apart_def count_eq_zero_iff [symmetric] le_Suc_eq)

lemma send_ok:
  assumes F: "fifo_ok (e_lib (se_io E)) rings pool" and K: "lk_env K = E" and ok: "link_ok E rings pool (sw_dp s)"
    and fam: "msg_type msg \<noteq> PACKET_CMD_FAMILY" and id: "set_msg_id (lk_tid K) (msg_type msg) msg = Some msg'"
  shows "\<exists>m d rest. dpdk_link_send K msg p s = Some (0, s\<lparr>sw_dp := d\<rparr>) \<and> sent E rings pool m d \<and> mtod d m = se_enc E msg' @ rest \<and>
    d_vports d = d_vports (sw_dp s) \<and> d_stats d = d_stats (sw_dp s)"
proof -
  let ?L = "e_lib (se_io E)" let ?d = "sw_dp s" let ?r = "rings (d_lib ?d)"
  obtain m ms where a: "?r VSWITCHD_ALLOC = m # ms" using ok by (cases "?r VSWITCHD_ALLOC") (auto simp: link_ok_def Let_def)
  have fresh: "mb_buf (d_mbuf ?d m) = m" "mb_off (d_mbuf ?d m) = pktmbuf_headroom ?L" using ok a by (auto simp: link_ok_def Let_def fresh_mbuf_def)
  obtain w1 where w1: "ring_dequeue_bulk ?L VSWITCHD_ALLOC 1 (d_lib ?d) = (Some [m], w1)" "rings w1 = ?r(VSWITCHD_ALLOC := ms)" "pool w1 = pool (d_lib ?d)"
    using fifo_laws(1) [OF F, of 1 "d_lib ?d" VSWITCHD_ALLOC] a by auto
  have alloc: "alloc_mbufs K 1 s = Some ([m], set_lib w1 s)" by (subst alloc_mbufs.simps) (simp add: K w1(1) [simplified])
  have len: "pktmbuf_headroom ?L + length (se_enc E msg') \<le> length (d_buf ?d m)" "length (se_enc E msg') = se_msg_size E"
    using ok by (simp_all add: link_ok_def layout_ok_def)
  then obtain mem where mem: "stn (d_buf ?d m) (pktmbuf_headroom ?L) (se_enc E msg') = Some mem" by (simp add: stn_def)
  let ?n = "of_nat (se_msg_size E) :: u16"
  let ?h = "(d_mbuf ?d)(m := (d_mbuf ?d m)\<lparr>mb_data_len := ?n, mb_pkt_len := ucast ?n\<rparr>)"
  let ?d1 = "?d\<lparr>d_lib := w1, d_buf := (d_buf ?d)(m := mem), d_mbuf := ?h\<rparr>"
  have fill: "fill_mbufs K (msg_type msg) [m] [msg] [p] (set_lib w1 s) = Some (True, s\<lparr>sw_dp := ?d1\<rparr>)"
    using fam id mem fresh by (simp add: K fill_mbuf_def set_lib_def upd_dp_def Let_def)
  obtain w2 where w2: "ring_enqueue_bulk ?L VSWITCHD_MESSAGE [m] w1 = (0, w2)" "rings w2 = (rings w1)(VSWITCHD_MESSAGE := [m])" "pool w2 = pool w1"
    using fifo_laws(5) [OF F, of VSWITCHD_MESSAGE w1 "[m]"] ok w1(2) by (auto simp: vswitchd_rings_def link_ok_def Let_def)
  let ?d2 = "?d1\<lparr>d_lib := w2\<rparr>"
  have send: "dpdk_link_send K msg p s = Some (0, s\<lparr>sw_dp := ?d2\<rparr>)"
    using alloc fill w2(1) by (simp add: dpdk_link_send_def dpdk_link_send_bulk_def LINK_BURST_SIZE_def K set_lib_def upd_dp_def ENOBUFS_def EDQUOT_def
        del: fill_mbufs.simps)
  have r2: "rings w2 = ?r(VSWITCHD_ALLOC := ms, VSWITCHD_MESSAGE := [m])" "pool w2 = pool (d_lib ?d)" using w1 w2 by simp_all
  have "layout_ok E ?d2" using ok stn_length [OF mem] by (auto simp: link_ok_def layout_ok_def)
  moreover have "\<forall>x \<in> set ms. fresh_mbuf ?L (d_mbuf ?d2) x" using ok a by (auto simp: link_ok_def Let_def fresh_mbuf_def)
  ultimately have "sent E rings pool m ?d2" using ok r2 a by (auto simp: sent_def link_ok_def Let_def)
  moreover have "mtod ?d2 m = se_enc E msg' @ drop (pktmbuf_headroom ?L + length (se_enc E msg')) (d_buf ?d m)"
    using drop_stn [OF mem] fresh by (simp add: mtod_def)
  ultimately show ?thesis using send by (intro exI [of _ m] exI [of _ ?d2]) auto
qed

lemma send_reply_fifo:
  assumes F: "fifo_ok (e_lib (se_io E)) rings pool" and lay: "layout_ok E (sw_dp s)" and p: "pool (d_lib (sw_dp s)) \<noteq> {#}"
    and q: "length (rings (d_lib (sw_dp s)) VSWITCHD_REPLY) < 2047"
  shows "\<exists>r w mem st rest. send_reply_to_vswitchd E reply s = Some (s\<lparr>sw_dp := (sw_dp s)\<lparr>d_lib := w,
      d_mbuf := (d_mbuf (sw_dp s))(r := \<lparr>mb_buf = r, mb_off = pktmbuf_headroom (e_lib (se_io E)), mb_data_len = of_nat (se_msg_size E), mb_pkt_len = 0\<rparr>),
      d_buf := (d_buf (sw_dp s))(r := mem), d_stats := st\<rparr>\<rparr>) \<and> pool (d_lib (sw_dp s)) = add_mset r (pool w) \<and>
    rings w = (rings (d_lib (sw_dp s)))(VSWITCHD_REPLY := rings (d_lib (sw_dp s)) VSWITCHD_REPLY @ [r]) \<and>
    drop (pktmbuf_headroom (e_lib (se_io E))) mem = se_enc E reply @ rest \<and> length mem = length (d_buf (sw_dp s) r)"
proof -
  let ?L = "e_lib (se_io E)" let ?d = "sw_dp s"
  obtain r w where a: "pktmbuf_alloc ?L (d_lib ?d) = (Some r, w)" "rings w = rings (d_lib ?d)" "pool (d_lib ?d) = add_mset r (pool w)"
    using fifo_laws(9) [OF F p] by blast
  have "pktmbuf_headroom ?L + length (se_enc E reply) \<le> length (d_buf ?d r)" using lay by (simp add: layout_ok_def)
  then obtain mem where mem: "stn (d_buf ?d r) (pktmbuf_headroom ?L) (se_enc E reply) = Some mem" by (simp add: stn_def)
  obtain w' where w': "ring_enqueue ?L VSWITCHD_REPLY r w = (0, w')" "rings w' = (rings w)(VSWITCHD_REPLY := rings w VSWITCHD_REPLY @ [r])" "pool w' = pool w"
    using fifo_laws(4) [OF F, of VSWITCHD_REPLY w r] q a(2) by (auto simp: vswitchd_rings_def)
  have "send_reply_to_vswitchd E reply s = Some (s\<lparr>sw_dp := ?d\<lparr>d_lib := w',
      d_mbuf := (d_mbuf ?d)(r := \<lparr>mb_buf = r, mb_off = pktmbuf_headroom ?L, mb_data_len = of_nat (se_msg_size E), mb_pkt_len = 0\<rparr>),
      d_buf := (d_buf ?d)(r := mem), d_stats := stats_vport_rx_increment (e_lcore (se_io E)) VSWITCHD 1 (d_stats ?d)\<rparr>\<rparr>)"
    using a(1) mem w'(1) by (simp add: send_reply_to_vswitchd_def mbuf_alloc_def Let_def upd_stats_def)
  then show ?thesis using a(2,3) w'(2,3) drop_stn [OF mem] stn_length [OF mem] by fastforce
qed

lemma fold_free_fifo:
  assumes "fifo_ok L rings pool"
  shows "rings (fold (pktmbuf_free L) ms w) = rings w" "pool (fold (pktmbuf_free L) ms w) = mset ms + pool w"
  by (induction ms arbitrary: w) (simp_all add: fifo_laws(7,8) [OF assms])

text \<open>
  The datapath's turn with one request: it is taken from the ring, answered in a fresh mbuf, and freed; the mbufs in the free
  ring are freed and the ring of fresh ones is filled up again. \<open>T\<close> and \<open>t\<close> are the tables of flows and ports afterwards.
\<close>

definition request_counted :: "('w, 'h) senv \<Rightarrow> statistics \<Rightarrow> statistics" where
  "request_counted E = stats_vport_rx_increment (e_lcore (se_io E)) VSWITCHD 1"

definition answered :: "('w, 'h) senv \<Rightarrow> dpdk_message \<Rightarrow> 'h flow_state \<Rightarrow> vport_table \<Rightarrow> nat \<Rightarrow> ('w, 'h) switch \<Rightarrow> bool" where
  "answered E reply T t m s \<longleftrightarrow> handle_vswitchd_cmd E m s =
     map_option (upd_dp (mbuf_free (se_io E) m)) (send_reply_to_vswitchd E reply (set_vports t (s\<lparr>sw_flow := T\<rparr>)))"

lemma step_handles:
  assumes F: "fifo_ok (e_lib (se_io E)) rings pool" and s: "sent E rings pool m (sw_dp s)"
    and ans: "\<And>s1. mtod (sw_dp s1) m = mtod (sw_dp s) m \<Longrightarrow> sw_flow s1 = sw_flow s \<Longrightarrow> sw_time s1 = sw_time s \<Longrightarrow>
      d_vports (sw_dp s1) = d_vports (sw_dp s) \<Longrightarrow> d_stats (sw_dp s1) = request_counted E (d_stats (sw_dp s)) \<Longrightarrow> answered E reply T t m s1"
  shows "\<exists>d r rest. handle_request_from_vswitchd E s = map_option (\<lambda>d. s\<lparr>sw_flow := T, sw_dp := d\<rparr>) (refill (se_io E) d) \<and>
    (let q = rings (d_lib (sw_dp s)); p = pool (d_lib (sw_dp s)) in
     add_mset r (pool (d_lib d)) = add_mset m (p + mset (q VSWITCHD_FREE)) \<and> r \<in># p \<and>
     rings (d_lib d) = q(VSWITCHD_MESSAGE := [], VSWITCHD_REPLY := [r], VSWITCHD_FREE := [])) \<and>
    d_mbuf d = (d_mbuf (sw_dp s))(r := \<lparr>mb_buf = r, mb_off = pktmbuf_headroom (e_lib (se_io E)), mb_data_len = of_nat (se_msg_size E), mb_pkt_len = 0\<rparr>) \<and>
    mtod d r = se_enc E reply @ rest \<and> layout_ok E d \<and> d_vports d = t"
proof -
  let ?io = "se_io E" let ?L = "e_lib ?io" let ?d = "sw_dp s" let ?q = "rings (d_lib ?d)" let ?p = "pool (d_lib ?d)"
  have q: "?q VSWITCHD_MESSAGE = [m]" "?q VSWITCHD_REPLY = []" "length (?q VSWITCHD_FREE) \<le> PKT_BURST_SIZE" "?p \<noteq> {#}" "layout_ok E ?d"
    using s by (simp_all add: sent_def Let_def)
  obtain w1 where w1: "ring_dequeue_burst ?L VSWITCHD_MESSAGE PKT_BURST_SIZE (d_lib ?d) = ([m], w1)" "rings w1 = ?q(VSWITCHD_MESSAGE := [])" "pool w1 = ?p"
    using fifo_laws(3) [OF F, of VSWITCHD_MESSAGE PKT_BURST_SIZE "d_lib ?d"] q(1) by (auto simp: PKT_BURST_SIZE_def)
  let ?s1 = "s\<lparr>sw_dp := upd_stats (request_counted E) (?d\<lparr>d_lib := w1\<rparr>)\<rparr>"
  let ?s2 = "set_vports t (?s1\<lparr>sw_flow := T\<rparr>)"
  have "answered E reply T t m ?s1" by (rule ans) (simp_all add: mtod_def upd_stats_def)
  then have h: "handle_vswitchd_cmd E m ?s1 = map_option (upd_dp (mbuf_free ?io m)) (send_reply_to_vswitchd E reply ?s2)" by (simp add: answered_def)
  have s2: "sw_dp ?s2 = ?d\<lparr>d_lib := w1, d_stats := request_counted E (d_stats ?d), d_vports := t\<rparr>"
    by (simp add: set_vports_def upd_dp_def upd_stats_def)
  have "layout_ok E (sw_dp ?s2)" "pool (d_lib (sw_dp ?s2)) \<noteq> {#}" "length (rings (d_lib (sw_dp ?s2)) VSWITCHD_REPLY) < 2047"
    using q w1 unfolding s2 by (simp_all add: layout_ok_def)
  from send_reply_fifo [OF F this, of reply] obtain r w2 mem st rest where
    r: "send_reply_to_vswitchd E reply ?s2 = Some (?s2\<lparr>sw_dp := (sw_dp ?s2)\<lparr>d_lib := w2,
      d_mbuf := (d_mbuf (sw_dp ?s2))(r := \<lparr>mb_buf = r, mb_off = pktmbuf_headroom ?L, mb_data_len = of_nat (se_msg_size E), mb_pkt_len = 0\<rparr>),
      d_buf := (d_buf (sw_dp ?s2))(r := mem), d_stats := st\<rparr>\<rparr>)" "pool (d_lib (sw_dp ?s2)) = add_mset r (pool w2)"
    "rings w2 = (rings (d_lib (sw_dp ?s2)))(VSWITCHD_REPLY := rings (d_lib (sw_dp ?s2)) VSWITCHD_REPLY @ [r])"
    "drop (pktmbuf_headroom ?L) mem = se_enc E reply @ rest" "length mem = length (d_buf (sw_dp ?s2) r)" by blast
  have r': "pool w1 = add_mset r (pool w2)" "rings w2 = (rings w1)(VSWITCHD_REPLY := [r])" "length mem = length (d_buf ?d r)"
    using r(2,3,5) w1(2) q(2) unfolding s2 by simp_all
  define h1 where "h1 = (d_mbuf ?d)(r := \<lparr>mb_buf = r, mb_off = pktmbuf_headroom ?L, mb_data_len = of_nat (se_msg_size E), mb_pkt_len = 0\<rparr>)"
  let ?w3 = "pktmbuf_free ?L m w2"
  let ?d3 = "?d\<lparr>d_lib := ?w3, d_mbuf := h1, d_buf := (d_buf ?d)(r := mem), d_stats := st, d_vports := t\<rparr>"
  have h3: "handle_vswitchd_cmd E m ?s1 = Some (s\<lparr>sw_flow := T, sw_dp := ?d3\<rparr>)"
    unfolding h r(1) unfolding s2 by (simp add: upd_dp_def mbuf_free_def set_vports_def h1_def)
  have w3: "rings ?w3 = ?q(VSWITCHD_MESSAGE := [], VSWITCHD_REPLY := [r])" "pool ?w3 = add_mset m (pool w2)"
    using r'(2) w1(2) by (simp_all add: fifo_laws(7,8) [OF F])
  obtain w4 where w4: "ring_dequeue_burst ?L VSWITCHD_FREE PKT_BURST_SIZE ?w3 = (?q VSWITCHD_FREE, w4)" "rings w4 = (rings ?w3)(VSWITCHD_FREE := [])" "pool w4 = pool ?w3"
    using fifo_laws(3) [OF F, of VSWITCHD_FREE PKT_BURST_SIZE ?w3] q(3) w3(1) by auto
  let ?w5 = "fold (pktmbuf_free ?L) (?q VSWITCHD_FREE) w4"
  let ?d5 = "?d3\<lparr>d_lib := ?w5\<rparr>"
  have req: "handle_request_from_vswitchd E s = map_option (\<lambda>d. s\<lparr>sw_flow := T, sw_dp := d\<rparr>) (refill ?io ?d5)"
    using w1(1) h3 w4(1) by (simp add: handle_request_from_vswitchd_def Let_def upd_dp_def request_counted_def free_all_lib map_option_case bind_split split: option.split)
  have "add_mset r (pool ?w5) = add_mset m (?p + mset (?q VSWITCHD_FREE))" "r \<in># ?p"
    using fold_free_fifo(2) [OF F] w4(3) w3(2) r'(1) w1(3) by auto
  moreover have "rings ?w5 = ?q(VSWITCHD_MESSAGE := [], VSWITCHD_REPLY := [r], VSWITCHD_FREE := [])" using fold_free_fifo(1) [OF F] w4(2) w3(1) by simp
  moreover have "layout_ok E ?d5" using q(5) r'(3) by (simp add: layout_ok_def)
  moreover have "mtod ?d5 r = se_enc E reply @ rest" using r(4) by (simp add: mtod_def h1_def)
  ultimately show ?thesis using req by (intro exI [of _ ?d5] exI [of _ r] exI [of _ rest]) (simp add: h1_def)
qed

lemma step_ok:
  assumes F: "fifo_ok (e_lib (se_io E)) rings pool" and s: "sent E rings pool m (sw_dp s)"
    and ans: "\<And>s1. mtod (sw_dp s1) m = mtod (sw_dp s) m \<Longrightarrow> sw_flow s1 = sw_flow s \<Longrightarrow> sw_time s1 = sw_time s \<Longrightarrow>
      d_vports (sw_dp s1) = d_vports (sw_dp s) \<Longrightarrow> d_stats (sw_dp s1) = request_counted E (d_stats (sw_dp s)) \<Longrightarrow> answered E reply T t m s1"
  shows "\<exists>d r rest. handle_request_from_vswitchd E s = Some (s\<lparr>sw_flow := T, sw_dp := d\<rparr>) \<and> replied E rings pool r d \<and>
    mb_data_len (d_mbuf d r) = of_nat (se_msg_size E) \<and> mtod d r = se_enc E reply @ rest \<and> d_vports d = t"
proof -
  let ?io = "se_io E" let ?L = "e_lib ?io" let ?q = "rings (d_lib (sw_dp s))" let ?p = "pool (d_lib (sw_dp s))"
  let ?a = "?q VSWITCHD_ALLOC"
  have q: "length ?a \<le> 542" "544 \<le> size ?p + length ?a + length (?q VSWITCHD_FREE)" "apart (add_mset m (?p + mset ?a + mset (?q VSWITCHD_FREE)))"
    "\<forall>m \<in> set ?a. fresh_mbuf ?L (d_mbuf (sw_dp s)) m" "se_msg_size E < 65536"
    using s by (simp_all add: sent_def Let_def)
  obtain d r rest where h: "handle_request_from_vswitchd E s = map_option (\<lambda>d. s\<lparr>sw_flow := T, sw_dp := d\<rparr>) (refill ?io d)"
    and p: "add_mset r (pool (d_lib d)) = add_mset m (?p + mset (?q VSWITCHD_FREE))" "r \<in># ?p"
    and r: "rings (d_lib d) = ?q(VSWITCHD_MESSAGE := [], VSWITCHD_REPLY := [r], VSWITCHD_FREE := [])"
    and b: "d_mbuf d = (d_mbuf (sw_dp s))(r := \<lparr>mb_buf = r, mb_off = pktmbuf_headroom ?L, mb_data_len = of_nat (se_msg_size E), mb_pkt_len = 0\<rparr>)"
    and e: "mtod d r = se_enc E reply @ rest" "layout_ok E d" "d_vports d = t"
    using step_handles [OF F s ans] unfolding Let_def by blast
  have sz: "size (pool (d_lib d)) = size ?p + length (?q VSWITCHD_FREE)" using arg_cong [OF p(1), of size] by simp
  have al: "rings (d_lib d) VSWITCHD_ALLOC = ?a" using r by simp
  have "544 \<le> length (rings (d_lib d) VSWITCHD_ALLOC) + size (pool (d_lib d))" "length (rings (d_lib d) VSWITCHD_ALLOC) \<le> 543"
    using q(1,2) sz al by simp_all
  from refill_fifo [OF F this] obtain ms w h' where f: "refill ?io d = Some (d\<lparr>d_lib := w, d_mbuf := h'\<rparr>)" "pool (d_lib d) = mset ms + pool w"
    "rings w = (rings (d_lib d))(VSWITCHD_ALLOC := ?a @ ms)" "takes_fresh ?L (d_mbuf d) ms h'" "512 \<le> length ?a + length ms" "length ?a + length ms \<le> 543"
    unfolding al by blast
  let ?d = "d\<lparr>d_lib := w, d_mbuf := h'\<rparr>"
  have "add_mset r (pool w + mset (?a @ ms)) = add_mset r (pool (d_lib d)) + mset ?a" using f(2) by simp
  also have "\<dots> = add_mset m (?p + mset ?a + mset (?q VSWITCHD_FREE))" unfolding p(1) by simp
  finally have ap: "apart (add_mset r (pool w + mset (?a @ ms)))" using q(3) by (simp only:)
  then have "r \<notin> set ms" "r \<notin> set ?a" by auto
  then have hr: "h' r = d_mbuf d r" using f(4) by (simp add: takes_fresh_def)
  have "\<forall>m \<in> set (?a @ ms). fresh_mbuf ?L h' m"
  proof
    fix x assume "x \<in> set (?a @ ms)"
    then consider "x \<in> set ms" | "x \<in> set ?a" "x \<notin> set ms" by auto
    then show "fresh_mbuf ?L h' x" using f(4) b q(4) \<open>r \<notin> set ?a\<close> by cases (auto simp: takes_fresh_def fresh_mbuf_def)
  qed
  moreover have "?a @ ms \<noteq> []" using f(5) by auto
  moreover have "size (pool w) + length (?a @ ms) = size ?p + length ?a + length (?q VSWITCHD_FREE)" using arg_cong [OF f(2), of size] sz by simp
  ultimately have "replied E rings pool r ?d" using e(2) q(2,5) f(3,6) r ap by (simp add: replied_def layout_ok_def)
  moreover have "mtod ?d r = se_enc E reply @ rest" "mb_data_len (d_mbuf ?d r) = of_nat (se_msg_size E)" using e(1) hr b by (simp_all add: mtod_def)
  moreover have "handle_request_from_vswitchd E s = Some (s\<lparr>sw_flow := T, sw_dp := ?d\<rparr>)" using h f(1) by simp
  ultimately show ?thesis using e(3) by (intro exI [of _ ?d] exI [of _ r] exI [of _ rest]) simp
qed

text \<open>A message that is read back from the bytes it was laid out in, whatever lies behind them.\<close>

definition reads_back :: "('w, 'h) senv \<Rightarrow> dpdk_message \<Rightarrow> bool" where
  "reads_back E msg \<longleftrightarrow> (\<forall>rest. se_dec E (se_enc E msg @ rest) = msg)"

definition is_code :: "int \<Rightarrow> bool" where
  "is_code c \<longleftrightarrow> c \<noteq> VPORT_CMD_FAMILY \<and> c \<noteq> FLOW_CMD_FAMILY"

lemma recv_ok:
  assumes F: "fifo_ok (e_lib (se_io E)) rings pool" and K: "lk_env K = E" and s: "replied E rings pool r (sw_dp s)"
    and r: "mb_data_len (d_mbuf (sw_dp s) r) = of_nat (se_msg_size E)" "mtod (sw_dp s) r = se_enc E reply @ rest"
    and e: "reads_back E reply" "is_code (msg_type reply)"
  shows "\<exists>w. recv_reply_mbuf K s = Some (r, set_lib w s) \<and> rings w = (rings (d_lib (sw_dp s)))(VSWITCHD_REPLY := []) \<and> pool w = pool (d_lib (sw_dp s))"
    and "\<exists>s'. dpdk_link_recv_reply K old s = Some (reply, s') \<and> link_ok E rings pool (sw_dp s') \<and> sw_flow s' = sw_flow s \<and> sw_time s' = sw_time s \<and>
      d_vports (sw_dp s') = d_vports (sw_dp s)"
proof -
  let ?L = "e_lib (se_io E)" let ?q = "rings (d_lib (sw_dp s))" let ?p = "pool (d_lib (sw_dp s))"
  have q: "?q VSWITCHD_REPLY = [r]" "?q VSWITCHD_FREE = []" "se_msg_size E < 65536" "length (se_enc E reply) = se_msg_size E"
    using s by (simp_all add: replied_def Let_def layout_ok_def)
  obtain w where w: "ring_dequeue_bulk ?L VSWITCHD_REPLY 1 (d_lib (sw_dp s)) = (Some [r], w)" "rings w = ?q(VSWITCHD_REPLY := [])" "pool w = ?p"
    using fifo_laws(1) [OF F, of 1 "d_lib (sw_dp s)" VSWITCHD_REPLY] q(1) by auto
  have "is_foreign (lk_tid K) reply = Some False" using e(2) by (simp add: is_foreign_def is_code_def)
  then have rec: "recv_reply_mbuf K s = Some (r, set_lib w s)"
    using w(1) r(2) e(1) by (subst recv_reply_mbuf.simps) (simp add: K get_nth_def reads_back_def)
  then show "\<exists>w. recv_reply_mbuf K s = Some (r, set_lib w s) \<and> rings w = ?q(VSWITCHD_REPLY := []) \<and> pool w = ?p" using w(2,3) by blast
  let ?s1 = "set_lib w s"
  have n: "unat (mb_data_len (d_mbuf (sw_dp ?s1) r)) = se_msg_size E" "mtod (sw_dp ?s1) r = se_enc E reply @ rest"
    using r q(3) by (simp_all add: set_lib_def upd_dp_def mtod_def unat_of_nat)
  have ld: "ldn (mtod (sw_dp ?s1) r) 0 (se_msg_size E) = Some (se_enc E reply)" using n(2) q(4) by (simp add: ldn_def)
  have "length (rings (d_lib (sw_dp ?s1)) VSWITCHD_FREE) < 2047" using w(2) q(2) by (simp add: set_lib_def upd_dp_def)
  then obtain w' where w': "ring_enqueue ?L VSWITCHD_FREE r (d_lib (sw_dp ?s1)) = (0, w')" "rings w' = (rings w)(VSWITCHD_FREE := [r])" "pool w' = pool w"
    using fifo_laws(4) [OF F, of VSWITCHD_FREE w r] w(2) q(2) by (auto simp: vswitchd_rings_def set_lib_def upd_dp_def)
  have enq: "enqueue_mbuf K VSWITCHD_FREE r ?s1 = Some (set_lib w' ?s1)" using w'(1) by (subst enqueue_mbuf.simps) (simp add: K)
  have "se_dec E (se_enc E reply @ drop (se_msg_size E) (se_enc E old)) = reply" using e(1) by (simp add: reads_back_def)
  then have reply: "dpdk_link_recv_reply K old s = Some (reply, set_lib w' ?s1)"
    using rec n(1) ld enq by (simp add: dpdk_link_recv_reply_def K)
  have d: "sw_dp (set_lib w' ?s1) = (sw_dp s)\<lparr>d_lib := w'\<rparr>" by (simp add: set_lib_def upd_dp_def)
  have "rings w' = ?q(VSWITCHD_REPLY := [], VSWITCHD_FREE := [r])" "pool w' = ?p" using w w' by simp_all
  moreover have "?p \<noteq> {#}" using s by (auto simp: replied_def Let_def)
  ultimately have "link_ok E rings pool (sw_dp (set_lib w' ?s1))"
    using s unfolding d by (auto simp: replied_def link_ok_def Let_def layout_ok_def PKT_BURST_SIZE_def)
  then show "\<exists>s'. dpdk_link_recv_reply K old s = Some (reply, s') \<and> link_ok E rings pool (sw_dp s') \<and> sw_flow s' = sw_flow s \<and> sw_time s' = sw_time s \<and>
      d_vports (sw_dp s') = d_vports (sw_dp s)"
    using reply by (intro exI [of _ "set_lib w' ?s1"]) (simp add: d, simp add: set_lib_def upd_dp_def)
qed

text \<open>The thread waits once: the datapath handles the request in its turn.\<close>

lemma recv_waits:
  assumes "fifo_ok (e_lib (se_io (lk_env K))) rings pool" "rings (d_lib (sw_dp s)) VSWITCHD_REPLY = []" "lk_other K s = Some s'"
  shows "dpdk_link_recv_reply K old s = dpdk_link_recv_reply K old s'"
proof -
  have "ring_dequeue_bulk (lk_lib K) VSWITCHD_REPLY 1 (d_lib (sw_dp s)) = (None, d_lib (sw_dp s))" using fifo_laws(2) [OF assms(1), of _ VSWITCHD_REPLY 1] assms(2) by simp
  moreover have "set_lib (d_lib (sw_dp s)) s = s" by (simp add: set_lib_def upd_dp_def)
  ultimately have "recv_reply_mbuf K s = recv_reply_mbuf K s'" using assms(3) by (subst recv_reply_mbuf.simps) simp
  then show ?thesis by (simp add: dpdk_link_recv_reply_def)
qed

lemma exchange_ok:
  assumes F: "fifo_ok (e_lib (se_io E)) rings pool" and K: "lk_env K = E" "lk_other K = handle_request_from_vswitchd E"
    and ok: "link_ok E rings pool (sw_dp s)" and fam: "msg_type msg \<noteq> PACKET_CMD_FAMILY"
    and id: "set_msg_id (lk_tid K) (msg_type msg) msg = Some msg'" and e: "reads_back E msg'" "reads_back E reply" "is_code (msg_type reply)"
    and ans: "\<And>s1 m. se_dec E (mtod (sw_dp s1) m) = msg' \<Longrightarrow> sw_flow s1 = sw_flow s \<Longrightarrow> sw_time s1 = sw_time s \<Longrightarrow>
      d_vports (sw_dp s1) = d_vports (sw_dp s) \<Longrightarrow> d_stats (sw_dp s1) = request_counted E (d_stats (sw_dp s)) \<Longrightarrow> answered E reply T t m s1"
  shows "\<exists>s1 s2. dpdk_link_send K msg p s = Some (0, s1) \<and> dpdk_link_recv_reply K old s1 = Some (reply, s2) \<and> link_ok E rings pool (sw_dp s2) \<and>
    sw_flow s2 = T \<and> d_vports (sw_dp s2) = t \<and> sw_time s2 = sw_time s"
proof -
  obtain m d rest where s1: "dpdk_link_send K msg p s = Some (0, s\<lparr>sw_dp := d\<rparr>)" "sent E rings pool m d" "mtod d m = se_enc E msg' @ rest"
    "d_vports d = d_vports (sw_dp s)" "d_stats d = d_stats (sw_dp s)"
    using send_ok [OF F K(1) ok fam id, of p] by blast
  have "sent E rings pool m (sw_dp (s\<lparr>sw_dp := d\<rparr>))" using s1(2) by simp
  from step_ok [OF F this, of reply T t] obtain d2 r rest2 where
    s2: "handle_request_from_vswitchd E (s\<lparr>sw_dp := d\<rparr>) = Some (s\<lparr>sw_flow := T, sw_dp := d2\<rparr>)" "replied E rings pool r d2"
    "mb_data_len (d_mbuf d2 r) = of_nat (se_msg_size E)" "mtod d2 r = se_enc E reply @ rest2" "d_vports d2 = t"
    using ans s1(3-5) e(1) by (auto simp: reads_back_def)
  have "rings (d_lib (sw_dp (s\<lparr>sw_dp := d\<rparr>))) VSWITCHD_REPLY = []" using s1(2) by (simp add: sent_def Let_def)
  then have "dpdk_link_recv_reply K old (s\<lparr>sw_dp := d\<rparr>) = dpdk_link_recv_reply K old (s\<lparr>sw_flow := T, sw_dp := d2\<rparr>)"
    using recv_waits [of K rings pool "s\<lparr>sw_dp := d\<rparr>"] F K s2(1) by simp
  moreover obtain s3 where "dpdk_link_recv_reply K old (s\<lparr>sw_flow := T, sw_dp := d2\<rparr>) = Some (reply, s3)" "link_ok E rings pool (sw_dp s3)"
    "sw_flow s3 = T" "sw_time s3 = sw_time s" "d_vports (sw_dp s3) = t"
    using recv_ok(2) [OF F K(1), of r "s\<lparr>sw_flow := T, sw_dp := d2\<rparr>" reply rest2 old] s2(2-5) e(2,3) by auto
  ultimately show ?thesis using s1(1) by auto
qed

end
