(* ===== verification/DpifOps.thy ===== *)
theory DpifOps
  imports DpifDpdk DpdkLink
begin

text \<open>
  The operations of the datapath interface, \<open>lib/dpif-dpdk.c\<close>, over the link to the datapath: ports and flows are added,
  deleted, queried and dumped, packets are executed and received. An operation returns its error code, what it stores through
  its pointers (\<open>None\<close> where it stores nothing), and the state. Attributes are given by the memory they lie in, their place
  (\<open>None\<close> for a null pointer) and their length. The structures \<open>dpif\<close>, whose class the operations assert, and the socket that
  wakes the daemon up are not modelled.
\<close>

section \<open>Transactions\<close>

definition zero_vport_message :: dpdk_vport_message where
  "zero_vport_message = \<lparr>vm_id = 0, vm_cmd = 0, vm_flags = 0, vm_port_no = 0, vm_port_name = [], vm_type = VPORT_TYPE_DISABLED,
     vm_stats = \<lparr>ps_rx = 0, ps_tx = 0, ps_rx_bytes = 0, ps_tx_bytes = 0, ps_rx_drop = 0, ps_tx_drop = 0, ps_rx_error = 0, ps_tx_error = 0\<rparr>\<rparr>"

definition dpif_dpdk_vport_init :: dpdk_vport_message where
  "dpif_dpdk_vport_init = zero_vport_message\<lparr>vm_port_no := of_nat UINT32_MAX\<rparr>"

text \<open>A member of the union is read that the message holds; a message of zeros holds every member.\<close>

fun vport_member :: "dpdk_payload \<Rightarrow> dpdk_vport_message option" where
  "vport_member (VPORT_MSG r) = Some r"
| "vport_member ZERO_MSG = Some zero_vport_message"
| "vport_member _ = None"

fun flow_member :: "dpdk_payload \<Rightarrow> dpdk_flow_message option" where
  "flow_member (FLOW_MSG r) = Some r"
| "flow_member ZERO_MSG = Some zero_flow_message"
| "flow_member _ = None"

definition dpif_dpdk_vport_transact :: "('w, 'h) link \<Rightarrow> dpdk_vport_message \<Rightarrow> ('w, 'h) switch \<Rightarrow>
    (int \<times> dpdk_vport_message option \<times> ('w, 'h) switch) option" where
  "dpif_dpdk_vport_transact K request s = do {
     let buf = \<lparr>msg_type = VPORT_CMD_FAMILY, msg_payload = VPORT_MSG request\<rparr>;
     (error, s) \<leftarrow> dpdk_link_send K buf None s;
     if error \<noteq> 0 then Some (error, None, s)
     else do {
       (buf, s) \<leftarrow> dpdk_link_recv_reply K (buf\<lparr>msg_payload := VPORT_MSG (request\<lparr>vm_id := lk_tid K\<rparr>)\<rparr>) s;
       reply \<leftarrow> vport_member (msg_payload buf);
       Some (msg_type buf, Some reply, s) } }"

definition dpif_dpdk_flow_transact :: "('w, 'h) link \<Rightarrow> dpdk_flow_message \<Rightarrow> ('w, 'h) switch \<Rightarrow>
    (int \<times> dpdk_flow_message option \<times> ('w, 'h) switch) option" where
  "dpif_dpdk_flow_transact K request s = do {
     let buf = \<lparr>msg_type = FLOW_CMD_FAMILY, msg_payload = FLOW_MSG request\<rparr>;
     (error, s) \<leftarrow> dpdk_link_send K buf None s;
     if error \<noteq> 0 then Some (error, None, s)
     else do {
       (buf, s) \<leftarrow> dpdk_link_recv_reply K (buf\<lparr>msg_payload := FLOW_MSG (request\<lparr>fm_id := lk_tid K\<rparr>)\<rparr>) s;
       reply \<leftarrow> flow_member (msg_payload buf);
       Some (msg_type buf, Some reply, s) } }"

section \<open>Ports\<close>

definition DPDK_PORT_MAX_STRING_LEN :: nat where "DPDK_PORT_MAX_STRING_LEN = 32"
definition IFNAMSIZ :: nat where "IFNAMSIZ = 16"

definition dpif_dpdk_odport_type :: "string \<Rightarrow> vport_type" where
  "dpif_dpdk_odport_type type =
     (let is = (\<lambda>t. strncmp_eq type t DPDK_PORT_MAX_STRING_LEN) in
      if is ''internal'' then VPORT_TYPE_BRIDGE
      else if is ''dpdkclient'' then VPORT_TYPE_CLIENT
      else if is ''dpdkkni'' then VPORT_TYPE_KNI
      else if is ''dpdkphy'' then VPORT_TYPE_PHY
      else if is ''dpdkveth'' then VPORT_TYPE_VETH
      else if is ''dpdkvhost'' then VPORT_TYPE_VHOST
      else VPORT_TYPE_DISABLED)"

definition dpif_dpdk_ofport_type :: "vport_type \<Rightarrow> int + string" where
  "dpif_dpdk_ofport_type type = (case type of
       VPORT_TYPE_VSWITCHD \<Rightarrow> Inr ''internal''
     | VPORT_TYPE_BRIDGE \<Rightarrow> Inr ''internal''
     | VPORT_TYPE_CLIENT \<Rightarrow> Inr ''dpdkclient''
     | VPORT_TYPE_KNI \<Rightarrow> Inr ''dpdkkni''
     | VPORT_TYPE_PHY \<Rightarrow> Inr ''dpdkphy''
     | VPORT_TYPE_VETH \<Rightarrow> Inr ''dpdkveth''
     | VPORT_TYPE_VHOST \<Rightarrow> Inr ''dpdkvhost''
     | VPORT_TYPE_DISABLED \<Rightarrow> Inl EINVAL)"

text \<open>What is used of a network device: its type, its name and, for a physical port, its index.\<close>

record netdev =
  nd_type :: string
  nd_name :: string
  nd_port_id :: u32

text \<open>
  The device and the place for the number of the port are pointers that may be null; the result has what the place holds afterwards.
  \<open>strncpy\<close> into the field of the name keeps its first 32 characters, without a terminating null when there are so many.
\<close>

definition dpif_dpdk_port_add ::
  "('w, 'h) link \<Rightarrow> netdev option \<Rightarrow> u32 option \<Rightarrow> ('w, 'h) switch \<Rightarrow> (int \<times> u32 option \<times> ('w, 'h) switch) option" where
  "dpif_dpdk_port_add K netdev port_no s =
     (if netdev = None \<or> port_no = None then Some (EINVAL, port_no, s)
      else let netdev = the netdev; type = dpif_dpdk_odport_type (nd_type netdev) in
      if type = VPORT_TYPE_VHOST \<and> length (nd_name netdev) > IFNAMSIZ then Some (EINVAL, port_no, s)
      else if type = VPORT_TYPE_DISABLED then Some (ENODEV, port_no, s)
      else do {
        let request = dpif_dpdk_vport_init\<lparr>vm_cmd := CMD_NEW, vm_port_name := take DPDK_PORT_MAX_STRING_LEN (nd_name netdev), vm_type := type,
          vm_port_no := (if type = VPORT_TYPE_BRIDGE then 0 else if type = VPORT_TYPE_PHY then nd_port_id netdev else of_nat UINT32_MAX)\<rparr>;
        (error, reply, s) \<leftarrow> dpif_dpdk_vport_transact K request s;
        if error = 0 then do { reply \<leftarrow> reply; Some (0, Some (vm_port_no reply), s) } else Some (error, port_no, s) })"

definition dpif_dpdk_port_del :: "('w, 'h) link \<Rightarrow> u32 \<Rightarrow> ('w, 'h) switch \<Rightarrow> (int \<times> ('w, 'h) switch) option" where
  "dpif_dpdk_port_del K port_no s = do {
     (error, _, s) \<leftarrow> dpif_dpdk_vport_transact K (dpif_dpdk_vport_init\<lparr>vm_cmd := CMD_DEL, vm_port_no := port_no\<rparr>) s;
     Some (error, s) }"

record dpif_port =
  pt_name :: string
  pt_type :: string
  pt_port_no :: u32

text \<open>A copy of the name of a reply reads behind the field when the field has no terminating null.\<close>

definition dpif_port_of :: "dpdk_vport_message \<Rightarrow> (int + dpif_port) option" where
  "dpif_port_of reply = (case dpif_dpdk_ofport_type (vm_type reply) of
       Inl error \<Rightarrow> Some (Inl error)
     | Inr type \<Rightarrow> if length (vm_port_name reply) < DPDK_PORT_MAX_STRING_LEN
         then Some (Inr \<lparr>pt_name = vm_port_name reply, pt_type = type, pt_port_no = vm_port_no reply\<rparr>) else None)"

definition port_query :: "('w, 'h) link \<Rightarrow> dpdk_vport_message \<Rightarrow> ('w, 'h) switch \<Rightarrow> ((int + dpif_port) \<times> ('w, 'h) switch) option" where
  "port_query K request s = do {
     (error, reply, s) \<leftarrow> dpif_dpdk_vport_transact K request s;
     if error \<noteq> 0 then Some (Inl error, s)
     else do {
       reply \<leftarrow> reply;
       r \<leftarrow> dpif_port_of reply;
       Some (r, s) } }"

definition dpif_dpdk_port_query_by_number :: "('w, 'h) link \<Rightarrow> u32 \<Rightarrow> ('w, 'h) switch \<Rightarrow> ((int + dpif_port) \<times> ('w, 'h) switch) option" where
  "dpif_dpdk_port_query_by_number K port_no s = port_query K (dpif_dpdk_vport_init\<lparr>vm_cmd := CMD_GET, vm_port_no := port_no\<rparr>) s"

definition dpif_dpdk_port_query_by_name :: "('w, 'h) link \<Rightarrow> string \<Rightarrow> ('w, 'h) switch \<Rightarrow> ((int + dpif_port) \<times> ('w, 'h) switch) option" where
  "dpif_dpdk_port_query_by_name K devname s =
     port_query K (dpif_dpdk_vport_init\<lparr>vm_cmd := CMD_GET, vm_port_no := of_nat UINT32_MAX, vm_port_name := take DPDK_PORT_MAX_STRING_LEN devname\<rparr>) s"

definition dpif_dpdk_get_max_ports :: nat where
  "dpif_dpdk_get_max_ports = MAX_VPORTS"

definition dpif_dpdk_port_dump_start :: dpdk_vport_message where
  "dpif_dpdk_port_dump_start = dpif_dpdk_vport_init\<lparr>vm_cmd := CMD_GET, vm_port_no := of_nat UINT32_MAX, vm_flags := FLAG_DUMP\<rparr>"

text \<open>The reply is the request of the next call, also when its type is not one the daemon knows.\<close>

definition dpif_dpdk_port_dump_next :: "('w, 'h) link \<Rightarrow> dpdk_vport_message \<Rightarrow> ('w, 'h) switch \<Rightarrow>
    ((int + dpif_port) \<times> dpdk_vport_message \<times> ('w, 'h) switch) option" where
  "dpif_dpdk_port_dump_next K state s = do {
     (error, reply, s) \<leftarrow> dpif_dpdk_vport_transact K state s;
     if error \<noteq> 0 then Some (Inl error, state, s)
     else do {
       reply \<leftarrow> reply;
       r \<leftarrow> dpif_port_of reply;
       Some (r, reply, s) } }"

text \<open>The request is not cleared: \<open>r0\<close> is what its memory holds.\<close>

definition dpif_dpdk_port_get_stats :: "('w, 'h) link \<Rightarrow> dpdk_vport_message \<Rightarrow> string \<Rightarrow> ('w, 'h) switch \<Rightarrow>
    (int \<times> port_stats option \<times> ('w, 'h) switch) option" where
  "dpif_dpdk_port_get_stats K r0 name s = do {
     (error, reply, s) \<leftarrow> dpif_dpdk_vport_transact K (r0\<lparr>vm_port_name := take DPDK_PORT_MAX_STRING_LEN name, vm_cmd := CMD_GET\<rparr>) s;
     Some (error, if error = 0 then map_option vm_stats reply else None, s) }"

section \<open>Flows\<close>

record dpif_flow_stats =
  n_packets :: u64
  n_bytes :: u64
  fs_used :: u64
  fs_tcp_flags :: u8

definition dpif_dpdk_flow_get_stats :: "dpdk_flow_message \<Rightarrow> dpif_flow_stats" where
  "dpif_dpdk_flow_get_stats r = \<lparr>n_packets = packet_count (fm_stats r), n_bytes = byte_count (fm_stats r), fs_used = used (fm_stats r),
     fs_tcp_flags = tcp_flags (fm_stats r)\<rparr>"

text \<open>The statistics and the actions of a flow; the actions are appended to the buffer \<open>*actionsp\<close> of the caller, if there is one.\<close>

definition dpif_dpdk_flow_get :: "junk \<Rightarrow> ('w, 'h) link \<Rightarrow> bytes \<Rightarrow> nat option \<Rightarrow> nat \<Rightarrow> ofpbuf option \<Rightarrow> ('w, 'h) switch \<Rightarrow>
    (int \<times> (dpif_flow_stats \<times> ofpbuf option) option \<times> ('w, 'h) switch) option" where
  "dpif_dpdk_flow_get junk K m key key_len actionsp s = (case key of
       None \<Rightarrow> Some (EINVAL, None, s)
     | Some key \<Rightarrow> do {
         request \<leftarrow> flow_message_get_create m key key_len;
         (error, reply, s) \<leftarrow> dpif_dpdk_flow_transact K request s;
         if error \<noteq> 0 then Some (error, None, s)
         else do {
           reply \<leftarrow> reply;
           actions \<leftarrow> (case actionsp of None \<Rightarrow> Some None
             | Some b \<Rightarrow> map_option Some (dpif_dpdk_flow_actions_to_actions junk (fm_actions reply) b));
           Some (0, Some (dpif_dpdk_flow_get_stats reply, actions), s) } })"

record dpif_flow_put =
  fp_flags :: u32
  fp_key_mem :: bytes
  fp_key :: "nat option"
  fp_key_len :: nat
  fp_actions_mem :: bytes
  fp_actions :: "nat option"
  fp_actions_len :: u64

definition dpif_dpdk_flow_put :: "('w, 'h) link \<Rightarrow> dpif_flow_put \<Rightarrow> ('w, 'h) switch \<Rightarrow> (int \<times> dpif_flow_stats option \<times> ('w, 'h) switch) option" where
  "dpif_dpdk_flow_put K put s = (case fp_key put of
       None \<Rightarrow> Some (EINVAL, None, s)
     | Some key \<Rightarrow> do {
         request \<leftarrow> flow_message_put_create (fp_flags put) (fp_key_mem put) key (fp_key_len put)
           (fp_actions_mem put) (fp_actions put) (fp_actions_len put);
         (error, reply, s) \<leftarrow> dpif_dpdk_flow_transact K request s;
         Some (error, if error = 0 then map_option dpif_dpdk_flow_get_stats reply else None, s) })"

record dpif_flow_del =
  fd_key_mem :: bytes
  fd_key :: "nat option"
  fd_key_len :: nat

definition dpif_dpdk_flow_del :: "('w, 'h) link \<Rightarrow> dpif_flow_del \<Rightarrow> ('w, 'h) switch \<Rightarrow> (int \<times> dpif_flow_stats option \<times> ('w, 'h) switch) option" where
  "dpif_dpdk_flow_del K del s = (case fd_key del of
       None \<Rightarrow> Some (EINVAL, None, s)
     | Some key \<Rightarrow> do {
         request \<leftarrow> flow_message_del_create (fd_key_mem del) key (fd_key_len del);
         (error, reply, s) \<leftarrow> dpif_dpdk_flow_transact K request s;
         Some (error, if error = 0 then map_option dpif_dpdk_flow_get_stats reply else None, s) })"

definition dpif_dpdk_flow_flush :: "('w, 'h) link \<Rightarrow> ('w, 'h) switch \<Rightarrow> (int \<times> ('w, 'h) switch) option" where
  "dpif_dpdk_flow_flush K s = do {
     (error, _, s) \<leftarrow> dpif_dpdk_flow_transact K flow_message_flush_create s;
     Some (error, s) }"

text \<open>The state of a dump: the last reply, and the buffers that the results point into.\<close>

record dpif_dpdk_flow_state =
  ds_flow :: dpdk_flow_message
  ds_stats :: dpif_flow_stats
  ds_actions_buf :: ofpbuf
  ds_key_buf :: ofpbuf

definition dpif_dpdk_flow_dump_start :: "junk \<Rightarrow> dpif_dpdk_flow_state" where
  "dpif_dpdk_flow_dump_start junk = \<lparr>ds_flow = dpif_dpdk_flow_init\<lparr>fm_cmd := CMD_GET, fm_flags := FLAG_DUMP\<rparr>,
     ds_stats = \<lparr>n_packets = 0, n_bytes = 0, fs_used = 0, fs_tcp_flags = 0\<rparr>,
     ds_actions_buf = ofpbuf_init junk 0, ds_key_buf = ofpbuf_init junk 0\<rparr>"

text \<open>All results are asked for; a buffer is emptied and allocated anew before it is filled. There is no mask.\<close>

definition dpif_dpdk_flow_dump_next :: "junk \<Rightarrow> ('w, 'h) link \<Rightarrow> dpif_dpdk_flow_state \<Rightarrow> ('w, 'h) switch \<Rightarrow>
    (int \<times> dpif_dpdk_flow_state \<times> ('w, 'h) switch) option" where
  "dpif_dpdk_flow_dump_next junk K state s = do {
     (error, reply, s) \<leftarrow> dpif_dpdk_flow_transact K (ds_flow state) s;
     if error \<noteq> 0 then Some (error, state, s)
     else do {
       reply \<leftarrow> reply;
       actions \<leftarrow> dpif_dpdk_flow_actions_to_actions junk (fm_actions reply) (ofpbuf_init junk 0);
       let f = dpif_dpdk_flow_key_to_flow (fm_key reply);
       key \<leftarrow> odp_flow_key_from_flow junk (ofpbuf_init junk 0) f (fl_in_port f);
       Some (0, \<lparr>ds_flow = reply, ds_stats = dpif_dpdk_flow_get_stats reply, ds_actions_buf = actions, ds_key_buf = key\<rparr>, s) } }"

section \<open>Packets\<close>

record dpif_execute =
  ex_mem :: bytes
  ex_actions :: "nat option"
  ex_actions_len :: u64
  ex_packet :: "ofpbuf option"

text \<open>The array of actions is memory of the stack: \<open>acts\<close> is what it holds.\<close>

definition dpif_dpdk_execute :: "('w, 'h) link \<Rightarrow> action list \<Rightarrow> dpif_execute \<Rightarrow> ('w, 'h) switch \<Rightarrow> (int \<times> ('w, 'h) switch) option" where
  "dpif_dpdk_execute K acts execute s = (case ex_packet execute of
       None \<Rightarrow> Some (EINVAL, s)
     | Some packet \<Rightarrow> do {
         acts \<leftarrow> dpif_dpdk_create_actions acts (ex_mem execute) (ex_actions execute) (ex_actions_len execute);
         dpdk_link_send K \<lparr>msg_type = PACKET_CMD_FAMILY, msg_payload = PACKET_MSG acts\<rparr> (Some (contents packet)) s })"

datatype dpif_op = DPIF_OP_FLOW_PUT dpif_flow_put | DPIF_OP_FLOW_DEL dpif_flow_del | DPIF_OP_EXECUTE dpif_execute

text \<open>
  The first loop puts and deletes flows at once and collects the packets; \<open>stack\<close> gives the memory of the array of requests.
  The result has the errors of the operations, \<open>None\<close> for a packet that is still to be sent.
\<close>

fun operate_loop :: "('w, 'h) link \<Rightarrow> (nat \<Rightarrow> action list) \<Rightarrow> dpif_op list \<Rightarrow> dpdk_message list \<Rightarrow> bytes option list \<Rightarrow> ('w, 'h) switch \<Rightarrow>
    (int option list \<times> dpdk_message list \<times> bytes option list \<times> ('w, 'h) switch) option" where
  "operate_loop K stack [] requests packets s = Some ([], requests, packets, s)"
| "operate_loop K stack (DPIF_OP_FLOW_PUT put # ops) requests packets s = do {
     (error, _, s) \<leftarrow> dpif_dpdk_flow_put K put s;
     (errors, r) \<leftarrow> operate_loop K stack ops requests packets s;
     Some (Some error # errors, r) }"
| "operate_loop K stack (DPIF_OP_FLOW_DEL del # ops) requests packets s = do {
     (error, _, s) \<leftarrow> dpif_dpdk_flow_del K del s;
     (errors, r) \<leftarrow> operate_loop K stack ops requests packets s;
     Some (Some error # errors, r) }"
| "operate_loop K stack (DPIF_OP_EXECUTE execute # ops) requests packets s = do {
     acts \<leftarrow> dpif_dpdk_create_actions (stack (length requests)) (ex_mem execute) (ex_actions execute) (ex_actions_len execute);
     (errors, r) \<leftarrow> operate_loop K stack ops (requests @ [\<lparr>msg_type = PACKET_CMD_FAMILY, msg_payload = PACKET_MSG acts\<rparr>])
       (packets @ [map_option contents (ex_packet execute)]) s;
     Some (None # errors, r) }"

definition dpif_dpdk_operate :: "('w, 'h) link \<Rightarrow> (nat \<Rightarrow> action list) \<Rightarrow> dpif_op list \<Rightarrow> ('w, 'h) switch \<Rightarrow> (int list \<times> ('w, 'h) switch) option" where
  "dpif_dpdk_operate K stack ops s = do {
     (errors, requests, packets, s) \<leftarrow> operate_loop K stack ops [] [] s;
     (err, s) \<leftarrow> (if requests = [] then Some (0, s) else dpdk_link_send_bulk K requests packets s);
     Some (map (\<lambda>e. case e of Some error \<Rightarrow> error | None \<Rightarrow> err) errors, s) }"

definition dpif_dpdk_recv :: "junk \<Rightarrow> ('w, 'h) link \<Rightarrow> ('w, 'h) switch \<Rightarrow> ((int + dpif_upcall) \<times> ('w, 'h) switch) option" where
  "dpif_dpdk_recv junk K s = do {
     (r, s) \<leftarrow> dpdk_link_recv_packet junk K s;
     case r of
       Inl error \<Rightarrow> Some (Inl error, s)
     | Inr (buf, cmd, key) \<Rightarrow> do {
         u \<leftarrow> upcall_create junk cmd key buf;
         Some (u, s) } }"

section \<open>The shape of messages\<close>

text \<open>Nothing that is read behind the Ethernet attribute changes the addresses.\<close>

definition eth_addrs :: "flow \<Rightarrow> bytes \<times> bytes" where
  "eth_addrs f = (dl_src f, dl_dst f)"

fun step_flow :: "l3_step \<Rightarrow> flow" where
  "step_flow (L3_RETURN _ f) = f"
| "step_flow (L3_DONE _ f) = f"
| "step_flow (L3_NEXT _ f _ _) = f"

lemma parse_ethertype_addrs: "parse_ethertype m k e f src = Some (ok, e', f') \<Longrightarrow> eth_addrs f' = eth_addrs f"
  by (auto simp: parse_ethertype_def eth_addrs_def Let_def split: if_splits Option.bind_splits)

lemma ip_frag_step_addrs: "eth_addrs (step_flow (ip_frag_step e f src frag d t)) = eth_addrs f"
  by (simp add: ip_frag_step_def odp_to_ovs_frag_def eth_addrs_def Let_def)

lemma parse_l3_addrs: "parse_l3 m k e f src = Some r \<Longrightarrow> eth_addrs (step_flow r) = eth_addrs f"
proof -
  assume r: "parse_l3 m k e f src = Some r"
  have "parse_mpls m k e f src = Some r \<Longrightarrow> eth_addrs (step_flow r) = eth_addrs f"
    by (auto simp: parse_mpls_def eth_addrs_def Let_def split: if_splits Option.bind_splits)
  moreover have "parse_ipv4 m k e f src = Some r \<Longrightarrow> eth_addrs (step_flow r) = eth_addrs f"
    by (auto simp: parse_ipv4_def Let_def ip_frag_step_addrs split: if_splits Option.bind_splits) (simp_all add: eth_addrs_def)
  moreover have "parse_ipv6 m k e f src = Some r \<Longrightarrow> eth_addrs (step_flow r) = eth_addrs f"
    by (auto simp: parse_ipv6_def Let_def ip_frag_step_addrs split: if_splits Option.bind_splits) (simp_all add: eth_addrs_def)
  moreover have "parse_arp m k e f src = Some r \<Longrightarrow> eth_addrs (step_flow r) = eth_addrs f"
    by (auto simp: parse_arp_def eth_addrs_def Let_def split: if_splits Option.bind_splits)
  ultimately show ?thesis using r by (auto simp: parse_l3_def Let_def split: if_splits)
qed

lemma parse_ports_addrs: "parse_ports m k e f src t = Some (e', f', b) \<Longrightarrow> eth_addrs f' = eth_addrs f"
  "parse_icmp m k e f src t = Some (e', f', b) \<Longrightarrow> eth_addrs f' = eth_addrs f"
  by (auto simp: parse_ports_def parse_icmp_def eth_addrs_def split: if_splits Option.bind_splits)

lemma parse_nd_addrs: "parse_nd m k e f src = Some (Some (e', f')) \<Longrightarrow> eth_addrs f' = eth_addrs f"
  by (auto simp: parse_nd_def eth_addrs_def Let_def split: if_splits Option.bind_splits)

lemma parse_l4_addrs: "parse_l4 m k e f src = Some (Some (e', f', b)) \<Longrightarrow> eth_addrs f' = eth_addrs f"
  by (fastforce simp: parse_l4_def Let_def dest: parse_ports_addrs parse_nd_addrs split: if_splits Option.bind_splits)

lemma parse_l2_5_addrs: "parse_l2_5_onward m k e f None = Some (fit, f') \<Longrightarrow> eth_addrs f' = eth_addrs f"
proof -
  assume a: "parse_l2_5_onward m k e f None = Some (fit, f')"
  then obtain r where r: "parse_l3 m k e f None = Some r" by (auto simp: parse_l2_5_onward_def split: Option.bind_splits)
  note l3 = parse_l3_addrs [OF r]
  show ?thesis
  proof (cases r)
    case (L3_NEXT e1 f1 d t)
    with a r obtain r4 where r4: "parse_l4 m k e1 f1 None = Some r4" by (auto simp: parse_l2_5_onward_def Let_def split: Option.bind_splits)
    then show ?thesis using a r L3_NEXT l3 parse_l4_addrs [of m k e1 f1 None]
      by (auto simp: parse_l2_5_onward_def Let_def split: option.splits)
  qed (use a r l3 in \<open>simp_all add: parse_l2_5_onward_def\<close>)
qed

lemma parse_8021q_addrs: "parse_8021q_onward m k e f None = Some (fit, f') \<Longrightarrow> eth_addrs f' = eth_addrs f"
proof -
  assume a: "parse_8021q_onward m k e f None = Some (fit, f')"
  have tag: "eth_addrs (f\<lparr>dl_type := 0, vlan_tci := tci\<rparr>) = eth_addrs f" for tci by (simp add: eth_addrs_def)
  show ?thesis using a tag
    by (auto simp: parse_8021q_onward_def Let_def split: if_splits Option.bind_splits option.splits dest!: parse_ethertype_addrs parse_l2_5_addrs)
qed

lemma parse_tunnel_addrs: "parse_tunnel m k e f = Some (res, e', f') \<Longrightarrow> eth_addrs f' = eth_addrs f"
  by (auto simp: parse_tunnel_def eth_addrs_def split: if_splits Option.bind_splits)

lemma parse_in_port_addrs: "parse_in_port m k e f src = Some (e', f') \<Longrightarrow> eth_addrs f' = eth_addrs f"
  by (auto simp: parse_in_port_def eth_addrs_def split: if_splits Option.bind_splits)

lemma key_struct_length: "key_struct m k t n = Some d \<Longrightarrow> length d = n"
  by (auto simp: key_struct_def ldn_def split: if_splits Option.bind_splits)

lemma parse_meta_addrs: "parse_meta m k zero_flow None = Some (r, f) \<Longrightarrow>
  length (dl_src f) = 6 \<and> length (dl_dst f) = 6 \<and> (\<forall>e f'. r = Some (e, f') \<longrightarrow> f' = f)"
proof -
  assume a: "parse_meta m k zero_flow None = Some (r, f)"
  have z: "length (dl_src zero_flow) = 6" "length (dl_dst zero_flow) = 6" by (simp_all add: zero_flow_def)
  define s1 where "s1 = (if present k OVS_KEY_ATTR_PRIORITY then do {
    a \<leftarrow> ka_attrs k OVS_KEY_ATTR_PRIORITY; v \<leftarrow> nl_attr_get_u32 m a;
    Some (attr_bit OVS_KEY_ATTR_PRIORITY, zero_flow\<lparr>skb_priority := v\<rparr>) } else Some (0, zero_flow))"
  define s2 where "s2 = (\<lambda>(expected_attrs, flow :: flow). if present k OVS_KEY_ATTR_SKB_MARK then do {
    a \<leftarrow> ka_attrs k OVS_KEY_ATTR_SKB_MARK; v \<leftarrow> nl_attr_get_u32 m a;
    Some (expected_attrs OR attr_bit OVS_KEY_ATTR_SKB_MARK, flow\<lparr>pkt_mark := v\<rparr>) } else Some (expected_attrs, flow))"
  define s3 where "s3 = (\<lambda>(res, expected_attrs, flow). if res = ODP_FIT_ERROR then Some (None, flow)
     else do {
       (expected_attrs, flow) \<leftarrow> parse_in_port m k expected_attrs flow None;
       flow \<leftarrow> (if present k OVS_KEY_ATTR_ETHERNET then do {
           d \<leftarrow> key_struct m k OVS_KEY_ATTR_ETHERNET 12; Some (flow\<lparr>dl_src := sub 0 6 d, dl_dst := sub 6 6 d\<rparr>) } else Some flow);
       Some (Some (if \<not> is_mask None \<or> present k OVS_KEY_ATTR_ETHERNET then expected_attrs OR attr_bit OVS_KEY_ATTR_ETHERNET
         else expected_attrs, flow), flow) })"
  have "Option.bind s1 (\<lambda>x. Option.bind (s2 x) (\<lambda>(e, f). Option.bind (parse_tunnel m k e f) s3)) = Some (r, f)"
    using a by (simp only: parse_meta_def s1_def s2_def s3_def split_def prod.collapse)
  then obtain e1 f1 e2 f2 res e3 f3 where s: "s1 = Some (e1, f1)" "s2 (e1, f1) = Some (e2, f2)" and t3: "parse_tunnel m k e2 f2 = Some (res, e3, f3)"
    and rest: "s3 (res, e3, f3) = Some (r, f)" by (auto split: Option.bind_splits)
  have t: "eth_addrs f1 = eth_addrs zero_flow" "eth_addrs f2 = eth_addrs f1"
    using s by (auto simp: s1_def s2_def eth_addrs_def split: if_splits Option.bind_splits)
  note e3 = parse_tunnel_addrs [OF t3]
  show ?thesis using rest z t e3
    by (auto simp: s3_def eth_addrs_def split: if_splits Option.bind_splits dest!: parse_in_port_addrs key_struct_length)
qed

lemma to_flow_addrs:
  assumes "odp_flow_key_to_flow m key len = Some (fit, f)"
  shows "length (dl_src f) = 6" "length (dl_dst f) = 6"
proof -
  have "length (fst (eth_addrs f)) = 6 \<and> length (snd (eth_addrs f)) = 6"
  proof -
    obtain r where r: "parse_flow_nlattrs m key len (\<lambda>_. None) = Some r"
      using assms by (auto simp: odp_flow_key_to_flow_def odp_flow_key_to_flow_raw_def split: Option.bind_splits)
    show ?thesis
    proof (cases r)
      case None
      then show ?thesis using assms r by (auto simp: odp_flow_key_to_flow_def odp_flow_key_to_flow_raw_def eth_addrs_def zero_flow_def)
    next
      case (Some k)
      with assms r obtain rm g where g: "parse_meta m k zero_flow None = Some (rm, g)"
        by (auto simp: odp_flow_key_to_flow_def odp_flow_key_to_flow_raw_def split: Option.bind_splits)
      note len = parse_meta_addrs [OF g]
      show ?thesis
      proof (cases rm)
        case None
        then show ?thesis using assms r Some g len by (simp add: odp_flow_key_to_flow_def odp_flow_key_to_flow_raw_def eth_addrs_def)
      next
        case (Some eg)
        then obtain e where e: "rm = Some (e, g)" using len by (cases eg) auto
        have "eth_addrs f = eth_addrs g" using assms r \<open>r = Some k\<close> g e
          by (auto simp: odp_flow_key_to_flow_def odp_flow_key_to_flow_raw_def Let_def split: if_splits Option.bind_splits
              dest!: parse_ethertype_addrs parse_8021q_addrs parse_l2_5_addrs)
        then show ?thesis using len by (simp add: eth_addrs_def)
      qed
    qed
  qed
  then show "length (dl_src f) = 6" "length (dl_dst f) = 6" by (simp_all add: eth_addrs_def)
qed

text \<open>A message of the size that its structure has.\<close>

fun action_shape :: "action \<Rightarrow> bool" where
  "action_shape (ACTION_SET_ETHERNET src dst) = (length src = 6 \<and> length dst = 6)"
| "action_shape _ = True"

definition actions_shape :: "action list \<Rightarrow> bool" where
  "actions_shape acts \<longleftrightarrow> length acts = MAX_ACTIONS \<and> (\<forall>a \<in> set acts. action_shape a)"

definition key_shape :: "flow_key \<Rightarrow> bool" where
  "key_shape k \<longleftrightarrow> length (ether_dst k) = 6 \<and> length (ether_src k) = 6"

definition flow_message_ok :: "dpdk_flow_message \<Rightarrow> bool" where
  "flow_message_ok r \<longleftrightarrow> key_shape (fm_key r) \<and> actions_shape (fm_actions r)"

lemma key_of_attrs_shape: "key_of_attrs m key len = Some k \<Longrightarrow> key_shape k"
  by (auto simp: key_of_attrs_def key_shape_def dpif_dpdk_flow_key_from_flow_def Let_def to_flow_addrs split: Option.bind_splits)

lemma zero_shape: "actions_shape zero_actions" "key_shape zero_key"
  by (simp_all add: actions_shape_def zero_actions_def key_shape_def zero_key_def)

lemma set_nth_shape: "set_nth acts i a = Some acts' \<Longrightarrow> actions_shape acts \<Longrightarrow> action_shape a \<Longrightarrow> actions_shape acts'"
  by (auto simp: set_nth_def actions_shape_def split: if_splits dest!: subsetD [OF set_update_subset_insert])

lemma attr_struct_length: "attr_struct m a n = Some d \<Longrightarrow> length d = n"
  by (auto simp: attr_struct_def ldn_def split: Option.bind_splits if_splits)

lemma create_set_shape:
  assumes "create_action_set_datapath m a i acts = Some acts'" "actions_shape acts"
  shows "actions_shape acts'"
proof -
  obtain type where type: "nl_attr_type m a = Some type" using assms(1) by (auto simp: create_action_set_datapath_def split: Option.bind_splits)
  consider "unat type = OVS_KEY_ATTR_PRIORITY \<or> unat type = OVS_KEY_ATTR_IPV6" | "unat type = OVS_KEY_ATTR_ETHERNET"
    | x where "set_nth acts i x = Some acts'" "action_shape x"
    using assms(1) by (clarsimp simp: create_action_set_datapath_def type Option.bind_eq_Some_conv split: if_splits)
  then show ?thesis
  proof cases
    case 1
    then show ?thesis using assms type by (simp add: create_action_set_datapath_def)
  next
    case 2
    then obtain d where d: "attr_struct m a 12 = Some d" "set_nth acts i (ACTION_SET_ETHERNET (sub 0 6 d) (sub 6 6 d)) = Some acts'"
      using assms(1) type by (auto simp: create_action_set_datapath_def split: Option.bind_splits)
    have "action_shape (ACTION_SET_ETHERNET (sub 0 6 d) (sub 6 6 d))" using attr_struct_length [OF d(1)] by simp
    then show ?thesis using set_nth_shape [OF d(2) assms(2)] by blast
  next
    case (3 x)
    then show ?thesis using set_nth_shape [OF _ assms(2)] by blast
  qed
qed

lemma create_action_shape:
  assumes "create_action m a i acts = Some (i', acts')" "actions_shape acts"
  shows "actions_shape acts'"
proof -
  consider "acts' = acts" | x where "set_nth acts i x = Some acts'" "action_shape x" | p where "create_action_set_datapath m p i acts = Some acts'"
    using assms(1) by (clarsimp simp: create_action_def Option.bind_eq_Some_conv split: if_splits) (metis action_shape.simps)+
  then show ?thesis
  proof cases
    case (2 x)
    then show ?thesis using set_nth_shape [OF _ assms(2)] by blast
  next
    case (3 p)
    then show ?thesis using create_set_shape [OF _ assms(2)] by blast
  qed (use assms in simp)
qed

lemma create_loop_shape:
  assumes "create_loop m a len i acts = Some (i', acts')"
  shows "actions_shape acts \<longrightarrow> actions_shape acts'"
proof -
  have "case (i', acts') of (_, acts') \<Rightarrow> actions_shape acts \<longrightarrow> actions_shape acts'"
  proof (rule create_loop.raw_induct [where P = "\<lambda>m a len i acts r. case r of (_, acts') \<Rightarrow> actions_shape acts \<longrightarrow> actions_shape acts'", OF _ assms])
    fix loop m a len i acts and r :: "nat \<times> action list"
    assume ih: "\<And>m a len i acts r. loop m a len i acts = Some r \<Longrightarrow> case r of (_, acts') \<Rightarrow> actions_shape acts \<longrightarrow> actions_shape acts'"
      and b: "(if len = 0 then Some (i, acts) else do {
        (i, acts) \<leftarrow> create_action m a i acts;
        n \<leftarrow> ld16 m a;
        loop m (a + NLMSG_ALIGN (unat n)) (len - of_nat (NLMSG_ALIGN (unat n))) i acts }) = Some r"
    show "case r of (_, acts') \<Rightarrow> actions_shape acts \<longrightarrow> actions_shape acts'"
      using b by (auto split: if_splits Option.bind_splits dest!: ih dest: create_action_shape)
  qed
  then show ?thesis by simp
qed

lemma create_actions_shape: "dpif_dpdk_create_actions acts m actions n = Some acts' \<Longrightarrow> actions_shape acts \<Longrightarrow> actions_shape acts'"
  by (auto simp: dpif_dpdk_create_actions_def split: if_splits Option.bind_splits option.splits dest!: create_loop_shape intro: set_nth_shape)

lemma action_array_shape: "\<forall>x \<in> set xs. proper_action x \<Longrightarrow> length xs \<le> MAX_ACTIONS \<Longrightarrow> actions_shape (action_array xs)"
proof -
  have "proper_action x \<Longrightarrow> action_shape x" for x by (cases x) simp_all
  then show "\<forall>x \<in> set xs. proper_action x \<Longrightarrow> length xs \<le> MAX_ACTIONS \<Longrightarrow> actions_shape (action_array xs)"
    by (auto simp: actions_shape_def action_array_def)
qed

lemma put_message_ok: "flow_message_put_create flags m key len am actions n = Some r \<Longrightarrow> flow_message_ok r"
  by (auto simp: flow_message_put_create_def flow_message_ok_def zero_shape split: Option.bind_splits dest!: key_of_attrs_shape intro: create_actions_shape)

lemma other_messages_ok:
  "flow_message_get_create m key len = Some r \<Longrightarrow> flow_message_ok r"
  "flow_message_del_create m key len = Some r \<Longrightarrow> flow_message_ok r"
  "flow_message_ok flow_message_flush_create" "flow_message_ok dpif_dpdk_flow_init"
  by (auto simp: flow_message_get_create_def flow_message_del_create_def flow_message_flush_create_def flow_message_ok_def
      dpif_dpdk_flow_init_def zero_flow_message_def zero_shape split: Option.bind_splits dest!: key_of_attrs_shape)

end
