(* ===== verification/CLayout.thy ===== *)
theory CLayout
  imports Main
begin

text \<open>
  The structures that the daemon and the datapath exchange as bytes. Each program has its own declarations, the daemon in
  \<open>lib/dpif-dpdk.h\<close> and the datapath in \<open>ovdk_datapath_messages.h\<close>, \<open>action.h\<close>, \<open>flow.h\<close> and \<open>vport.h\<close>, and each copies whole structures
  into the other's rings. Here the types of C, their layout on x86-64, and the declarations of both programs, member by member.
\<close>

section \<open>Types and their layout\<close>

text \<open>Integers by their size; a structure may be packed. An anonymous member has an empty name.\<close>

datatype ctype = CInt nat | CArray nat ctype | CStruct bool "(string \<times> ctype) list" | CUnion "(string \<times> ctype) list"

definition align_up :: "nat \<Rightarrow> nat \<Rightarrow> nat" where
  "align_up a n = n + (a - n mod a) mod a"

fun calign :: "ctype \<Rightarrow> nat" and caligns :: "(string \<times> ctype) list \<Rightarrow> nat" where
  "calign (CInt n) = n"
| "calign (CArray n t) = calign t"
| "calign (CStruct packed fs) = (if packed then 1 else caligns fs)"
| "calign (CUnion fs) = caligns fs"
| "caligns [] = 1"
| "caligns ((_, t) # fs) = max (calign t) (caligns fs)"

text \<open>The size is a multiple of the alignment; \<open>struct_end\<close> is the end of the last member.\<close>

fun csize :: "ctype \<Rightarrow> nat" and struct_end :: "bool \<Rightarrow> nat \<Rightarrow> (string \<times> ctype) list \<Rightarrow> nat" and union_size :: "(string \<times> ctype) list \<Rightarrow> nat" where
  "csize (CInt n) = n"
| "csize (CArray n t) = n * csize t"
| "csize (CStruct packed fs) = align_up (calign (CStruct packed fs)) (struct_end packed 0 fs)"
| "csize (CUnion fs) = align_up (caligns fs) (union_size fs)"
| "struct_end packed off [] = off"
| "struct_end packed off ((_, t) # fs) = struct_end packed (align_up (if packed then 1 else calign t) off + csize t) fs"
| "union_size [] = 0"
| "union_size ((_, t) # fs) = max (csize t) (union_size fs)"

fun field_at :: "bool \<Rightarrow> nat \<Rightarrow> (string \<times> ctype) list \<Rightarrow> string \<Rightarrow> (nat \<times> ctype) option" where
  "field_at packed off [] x = None"
| "field_at packed off ((y, t) # fs) x = (let o' = align_up (if packed then 1 else calign t) off in
     if x = y then Some (o', t) else field_at packed (o' + csize t) fs x)"

text \<open>The offset and the size of a member of a member, down a path.\<close>

datatype cstep = Field string | Index nat

fun member_at :: "ctype \<Rightarrow> cstep list \<Rightarrow> (nat \<times> nat) option" where
  "member_at t [] = Some (0, csize t)"
| "member_at (CArray n t) (Index i # p) = (if i < n then map_option (map_prod ((+) (i * csize t)) id) (member_at t p) else None)"
| "member_at (CStruct packed fs) (Field x # p) = (case field_at packed 0 fs x of None \<Rightarrow> None
     | Some (off, t) \<Rightarrow> map_option (map_prod ((+) off) id) (member_at t p))"
| "member_at (CUnion fs) (Field x # p) = (case map_of fs x of None \<Rightarrow> None | Some t \<Rightarrow> member_at t p)"
| "member_at _ _ = None"

text \<open>Paths to members that share memory: one is part of the other, or they lie in different members of a union.\<close>

fun overlap :: "ctype \<Rightarrow> cstep list \<Rightarrow> cstep list \<Rightarrow> bool" where
  "overlap (CArray n t) (Index i # p) (Index j # q) = (i = j \<and> overlap t p q)"
| "overlap (CStruct packed fs) (Field x # p) (Field y # q) = (x = y \<and> (case map_of fs x of None \<Rightarrow> True | Some t \<Rightarrow> overlap t p q))"
| "overlap (CUnion fs) (Field x # p) (Field y # q) = (x = y \<longrightarrow> (case map_of fs x of None \<Rightarrow> True | Some t \<Rightarrow> overlap t p q))"
| "overlap _ _ _ = True"

text \<open>A member of an object in memory is stored and loaded.\<close>

definition cstore :: "ctype \<Rightarrow> cstep list \<Rightarrow> 'b list \<Rightarrow> 'b list \<Rightarrow> 'b list" where
  "cstore t p v bs = (case member_at t p of None \<Rightarrow> bs | Some (off, n) \<Rightarrow> take off bs @ take n v @ drop (off + n) bs)"

definition cload :: "ctype \<Rightarrow> cstep list \<Rightarrow> 'b list \<Rightarrow> 'b list option" where
  "cload t p bs = map_option (\<lambda>(off, n). take n (drop off bs)) (member_at t p)"

section \<open>The daemon's declarations\<close>

text \<open>Of \<open>linux/openvswitch.h\<close>, which both programs include; \<open>struct ether_addr\<close> of DPDK is \<open>ea\<close>.\<close>

definition ovs_key_ethernet :: ctype where
  "ovs_key_ethernet = CStruct False [(''eth_src'', CArray 6 (CInt 1)), (''eth_dst'', CArray 6 (CInt 1))]"

definition ovs_key_ipv4 :: ctype where
  "ovs_key_ipv4 = CStruct False [(''ipv4_src'', CInt 4), (''ipv4_dst'', CInt 4), (''ipv4_proto'', CInt 1), (''ipv4_tos'', CInt 1),
     (''ipv4_ttl'', CInt 1), (''ipv4_frag'', CInt 1)]"

definition ovs_key_tcp :: ctype where
  "ovs_key_tcp = CStruct False [(''tcp_src'', CInt 2), (''tcp_dst'', CInt 2)]"

definition ovs_key_udp :: ctype where
  "ovs_key_udp = CStruct False [(''udp_src'', CInt 2), (''udp_dst'', CInt 2)]"

definition dpif_dpdk_vport_stats :: ctype where
  "dpif_dpdk_vport_stats = CStruct False [(''rx'', CInt 8), (''tx'', CInt 8), (''rx_bytes'', CInt 8), (''tx_bytes'', CInt 8),
     (''rx_drop'', CInt 8), (''tx_drop'', CInt 8), (''rx_error'', CInt 8), (''tx_error'', CInt 8)]"

definition dpif_dpdk_flow_key :: "ctype \<Rightarrow> ctype" where
  "dpif_dpdk_flow_key ea = CStruct True [(''in_port'', CInt 4), (''ether_dst'', ea), (''ether_src'', ea), (''ether_type'', CInt 2),
     (''vlan_id'', CInt 2), (''vlan_prio'', CInt 1), (''ip_src'', CInt 4), (''ip_dst'', CInt 4), (''ip_proto'', CInt 1), (''ip_tos'', CInt 1),
     (''ip_ttl'', CInt 1), (''ip_frag'', CInt 1), (''tran_src_port'', CInt 2), (''tran_dst_port'', CInt 2)]"

definition dpif_dpdk_flow_stats :: ctype where
  "dpif_dpdk_flow_stats = CStruct False [(''packet_count'', CInt 8), (''byte_count'', CInt 8), (''used'', CInt 8), (''tcp_flags'', CInt 1)]"

definition dpif_dpdk_upcall :: "ctype \<Rightarrow> ctype" where
  "dpif_dpdk_upcall ea = CStruct False [(''cmd'', CInt 1), (''key'', dpif_dpdk_flow_key ea)]"

definition dpif_dpdk_action :: ctype where
  "dpif_dpdk_action = CStruct False [(''type'', CInt 4), (''data'', CUnion [(''output'', CStruct False [(''port'', CInt 4)]),
     (''vlan'', CStruct False [(''tpid'', CInt 2), (''tci'', CInt 2)]), (''ethernet'', ovs_key_ethernet), (''ipv4'', ovs_key_ipv4),
     (''tcp'', ovs_key_tcp), (''udp'', ovs_key_udp)])]"

definition dpif_dpdk_vport_message :: ctype where
  "dpif_dpdk_vport_message = CStruct False [(''id'', CInt 4), (''cmd'', CInt 1), (''flags'', CInt 4), (''port_no'', CInt 4),
     (''port_name'', CArray 32 (CInt 1)), (''type'', CInt 4), (''reserved'', CArray 16 (CInt 1)), (''stats'', dpif_dpdk_vport_stats)]"

definition dpif_dpdk_flow_message :: "ctype \<Rightarrow> ctype" where
  "dpif_dpdk_flow_message ea = CStruct False [(''id'', CInt 4), (''cmd'', CInt 1), (''flags'', CInt 4), (''key'', dpif_dpdk_flow_key ea),
     (''stats'', dpif_dpdk_flow_stats), (''actions'', CArray 48 dpif_dpdk_action), (''clear'', CInt 1)]"

definition dpif_dpdk_packet_message :: ctype where
  "dpif_dpdk_packet_message = CStruct False [(''actions'', CArray 48 dpif_dpdk_action)]"

definition dpif_dpdk_message :: "ctype \<Rightarrow> ctype" where
  "dpif_dpdk_message ea = CStruct False [(''type'', CInt 2), ([], CUnion [(''vport_msg'', dpif_dpdk_vport_message),
     (''flow_msg'', dpif_dpdk_flow_message ea), (''packet_msg'', dpif_dpdk_packet_message)])]"

definition dpif_dpdk_vport_type :: "string list" where
  "dpif_dpdk_vport_type = [''VPORT_TYPE_DISABLED'', ''VPORT_TYPE_VSWITCHD'', ''VPORT_TYPE_BRIDGE'', ''VPORT_TYPE_PHY'', ''VPORT_TYPE_CLIENT'',
     ''VPORT_TYPE_KNI'', ''VPORT_TYPE_VETH'', ''VPORT_TYPE_VHOST'']"

definition dpif_dpdk_action_type :: "string list" where
  "dpif_dpdk_action_type = [''ACTION_NULL'', ''ACTION_OUTPUT'', ''ACTION_POP_VLAN'', ''ACTION_PUSH_VLAN'', ''ACTION_SET_ETHERNET'',
     ''ACTION_SET_IPV4'', ''ACTION_SET_TCP'', ''ACTION_SET_UDP'', ''ACTION_MAX'']"

text \<open>The commands of \<open>linux/openvswitch.h\<close>, which the daemon uses.\<close>

definition ovs_vport_cmd :: "string list" where
  "ovs_vport_cmd = [''OVS_VPORT_CMD_UNSPEC'', ''OVS_VPORT_CMD_NEW'', ''OVS_VPORT_CMD_DEL'', ''OVS_VPORT_CMD_GET'', ''OVS_VPORT_CMD_SET'']"

definition ovs_flow_cmd :: "string list" where
  "ovs_flow_cmd = [''OVS_FLOW_CMD_UNSPEC'', ''OVS_FLOW_CMD_NEW'', ''OVS_FLOW_CMD_DEL'', ''OVS_FLOW_CMD_GET'', ''OVS_FLOW_CMD_SET'']"

definition ovs_packet_cmd :: "string list" where
  "ovs_packet_cmd = [''OVS_PACKET_CMD_UNSPEC'', ''OVS_PACKET_CMD_MISS'', ''OVS_PACKET_CMD_ACTION'', ''OVS_PACKET_CMD_EXECUTE'']"

section \<open>The datapath's declarations\<close>

definition port_stats_type :: ctype where
  "port_stats_type = CStruct False [(''rx'', CInt 8), (''tx'', CInt 8), (''rx_bytes'', CInt 8), (''tx_bytes'', CInt 8),
     (''rx_drop'', CInt 8), (''tx_drop'', CInt 8), (''rx_error'', CInt 8), (''tx_error'', CInt 8)]"

definition flow_key_type :: "ctype \<Rightarrow> ctype" where
  "flow_key_type ea = CStruct True [(''in_port'', CInt 4), (''ether_dst'', ea), (''ether_src'', ea), (''ether_type'', CInt 2),
     (''vlan_id'', CInt 2), (''vlan_prio'', CInt 1), (''ip_src'', CInt 4), (''ip_dst'', CInt 4), (''ip_proto'', CInt 1), (''ip_tos'', CInt 1),
     (''ip_ttl'', CInt 1), (''ip_frag'', CInt 1), (''tran_src_port'', CInt 2), (''tran_dst_port'', CInt 2)]"

definition flow_stats_type :: ctype where
  "flow_stats_type = CStruct False [(''packet_count'', CInt 8), (''byte_count'', CInt 8), (''used'', CInt 8), (''tcp_flags'', CInt 1)]"

definition action_struct :: ctype where
  "action_struct = CStruct False [(''type'', CInt 4), (''data'', CUnion [(''output'', CStruct False [(''port'', CInt 4)]),
     (''vlan'', CStruct False [(''tpid'', CInt 2), (''tci'', CInt 2)]), (''ethernet'', ovs_key_ethernet), (''ipv4'', ovs_key_ipv4),
     (''tcp'', ovs_key_tcp), (''udp'', ovs_key_udp)])]"

definition vport_message_type :: ctype where
  "vport_message_type = CStruct False [(''id'', CInt 4), (''cmd'', CInt 1), (''flags'', CInt 4), (''port_no'', CInt 4),
     (''port_name'', CArray 32 (CInt 1)), (''type'', CInt 4), (''reserved'', CArray 16 (CInt 1)), (''stats'', port_stats_type)]"

definition flow_message_type :: "ctype \<Rightarrow> ctype" where
  "flow_message_type ea = CStruct False [(''id'', CInt 4), (''cmd'', CInt 1), (''flags'', CInt 4), (''key'', flow_key_type ea),
     (''stats'', flow_stats_type), (''actions'', CArray 48 action_struct), (''clear'', CInt 1)]"

definition packet_message_type :: ctype where
  "packet_message_type = CStruct False [(''actions'', CArray 48 action_struct)]"

definition dpdk_message_type :: "ctype \<Rightarrow> ctype" where
  "dpdk_message_type ea = CStruct False [(''type'', CInt 2), ([], CUnion [(''vport_msg'', vport_message_type),
     (''flow_msg'', flow_message_type ea), (''packet_msg'', packet_message_type)])]"

definition dpdk_upcall_type :: "ctype \<Rightarrow> ctype" where
  "dpdk_upcall_type ea = CStruct False [(''cmd'', CInt 1), (''key'', flow_key_type ea)]"

definition vport_type_names :: "string list" where
  "vport_type_names = [''VPORT_TYPE_DISABLED'', ''VPORT_TYPE_VSWITCHD'', ''VPORT_TYPE_BRIDGE'', ''VPORT_TYPE_PHY'', ''VPORT_TYPE_CLIENT'',
     ''VPORT_TYPE_KNI'', ''VPORT_TYPE_VETH'', ''VPORT_TYPE_VHOST'']"

definition action_type_names :: "string list" where
  "action_type_names = [''ACTION_NULL'', ''ACTION_OUTPUT'', ''ACTION_POP_VLAN'', ''ACTION_PUSH_VLAN'', ''ACTION_SET_ETHERNET'',
     ''ACTION_SET_IPV4'', ''ACTION_SET_TCP'', ''ACTION_SET_UDP'', ''ACTION_MAX'']"

definition vport_cmd :: "string list" where
  "vport_cmd = [''VPORT_CMD_UNSPEC'', ''VPORT_CMD_NEW'', ''VPORT_CMD_DEL'', ''VPORT_CMD_GET'']"

definition flow_cmd :: "string list" where
  "flow_cmd = [''FLOW_CMD_UNSPEC'', ''FLOW_CMD_NEW'', ''FLOW_CMD_DEL'', ''FLOW_CMD_GET'']"

definition packet_cmd :: "string list" where
  "packet_cmd = [''PACKET_CMD_UNSPEC'', ''PACKET_CMD_MISS'', ''PACKET_CMD_ACTION'', ''PACKET_CMD_EXECUTE'']"

lemmas daemon_types = dpif_dpdk_message_def dpif_dpdk_vport_message_def dpif_dpdk_flow_message_def dpif_dpdk_packet_message_def
  dpif_dpdk_upcall_def dpif_dpdk_flow_key_def dpif_dpdk_flow_stats_def dpif_dpdk_vport_stats_def dpif_dpdk_action_def

lemmas datapath_types = dpdk_message_type_def vport_message_type_def flow_message_type_def packet_message_type_def dpdk_upcall_type_def
  flow_key_type_def flow_stats_type_def port_stats_type_def action_struct_def

lemmas both_enums = dpif_dpdk_vport_type_def vport_type_names_def dpif_dpdk_action_type_def action_type_names_def ovs_vport_cmd_def vport_cmd_def
  ovs_flow_cmd_def flow_cmd_def ovs_packet_cmd_def packet_cmd_def

section \<open>Members lie apart\<close>

lemma align_up_ge: "n \<le> align_up a n"
  by (simp add: align_up_def)

lemma struct_end_ge: "off \<le> struct_end packed off fs"
proof (induction fs arbitrary: off)
  case (Cons f fs)
  obtain x t where f: "f = (x, t)" by fastforce
  have "off \<le> align_up (if packed then 1 else calign t) off + csize t" using align_up_ge le_add1 order_trans by blast
  then show ?case using Cons.IH order_trans unfolding f by fastforce
qed simp

lemma field_at_bounds:
  "field_at packed off fs x = Some (o', t) \<Longrightarrow> off \<le> o' \<and> o' + csize t \<le> struct_end packed off fs \<and> map_of fs x = Some t"
proof (induction fs arbitrary: off)
  case (Cons f fs)
  obtain y u where f: "f = (y, u)" by fastforce
  let ?a = "align_up (if packed then 1 else calign u) off"
  have "off \<le> ?a" by (rule align_up_ge)
  then show ?case using Cons struct_end_ge [of "?a + csize u" packed fs] unfolding f by (auto simp: Let_def split: if_splits) force+
qed simp

lemma fields_apart:
  assumes "field_at packed off fs x = Some (o1, t1)" "field_at packed off fs y = Some (o2, t2)" "x \<noteq> y"
  shows "o1 + csize t1 \<le> o2 \<or> o2 + csize t2 \<le> o1"
  using assms
proof (induction fs arbitrary: off)
  case (Cons f fs)
  obtain z u where f: "f = (z, u)" by fastforce
  show ?case using Cons field_at_bounds [of packed _ fs x o1 t1] field_at_bounds [of packed _ fs y o2 t2] unfolding f
    by (auto simp: Let_def split: if_splits)
qed simp

lemma union_member: "map_of fs x = Some t \<Longrightarrow> csize t \<le> csize (CUnion fs)"
proof -
  assume "map_of fs x = Some t"
  then have "csize t \<le> union_size fs" by (induction fs) (auto split: if_splits)
  then show ?thesis using align_up_ge [of "union_size fs" "caligns fs"] by simp
qed

lemma member_bounds: "member_at t p = Some (off, n) \<Longrightarrow> off + n \<le> csize t"
proof (induction t p arbitrary: off n rule: member_at.induct)
  case (2 k t i p)
  then obtain o' where o: "i < k" "member_at t p = Some (o', n)" "off = i * csize t + o'" by (auto split: if_splits)
  have "o' + n \<le> csize t" using 2 o by blast
  moreover have "Suc i * csize t \<le> k * csize t" using o(1) by (intro mult_le_mono1) simp
  ultimately show ?case using o(3) by simp
next
  case (3 packed fs x p)
  then obtain o1 t o2 where o: "field_at packed 0 fs x = Some (o1, t)" "member_at t p = Some (o2, n)" "off = o1 + o2" by (auto split: option.splits)
  have "o2 + n \<le> csize t" using 3 o by blast
  then have "off + n \<le> struct_end packed 0 fs" using field_at_bounds [OF o(1)] o(3) by simp
  then show ?case using align_up_ge order_trans by fastforce
next
  case (4 fs x p)
  then obtain t where t: "map_of fs x = Some t" "member_at t p = Some (off, n)" by (auto split: option.splits)
  then show ?case using 4 union_member [OF t(1)] order_trans by blast
qed simp_all

lemma members_apart:
  assumes "member_at t p = Some (o1, n1)" "member_at t q = Some (o2, n2)" "\<not> overlap t p q"
  shows "o1 + n1 \<le> o2 \<or> o2 + n2 \<le> o1"
  using assms
proof (induction t p q arbitrary: o1 o2 rule: overlap.induct)
  case (1 k t i p j q)
  then obtain a b where m: "member_at t p = Some (a, n1)" "member_at t q = Some (b, n2)" "o1 = i * csize t + a" "o2 = j * csize t + b"
    by (auto split: if_splits)
  have l: "a + n1 \<le> csize t" "b + n2 \<le> csize t" using member_bounds m by blast+
  have lt: "i < j \<Longrightarrow> i * csize t + csize t \<le> j * csize t" "j < i \<Longrightarrow> j * csize t + csize t \<le> i * csize t"
    using mult_le_mono1 [of "Suc i" j "csize t"] mult_le_mono1 [of "Suc j" i "csize t"] by simp_all
  show ?case
  proof (cases "i = j")
    case True
    then have "a + n1 \<le> b \<or> b + n2 \<le> a" using 1 m by simp
    then show ?thesis using m True by auto
  next
    case False
    then show ?thesis using l lt m(3,4) by (cases "i < j") auto
  qed
next
  case (2 packed fs x p y q)
  then obtain a t b u c d where m: "field_at packed 0 fs x = Some (a, t)" "field_at packed 0 fs y = Some (b, u)"
    "member_at t p = Some (c, n1)" "member_at u q = Some (d, n2)" "o1 = a + c" "o2 = b + d" by (auto split: option.splits)
  show ?case
  proof (cases "x = y")
    case True
    then have "t = u" "a = b" "map_of fs x = Some t" using m(1,2) field_at_bounds [OF m(1)] by simp_all
    then have "c + n1 \<le> d \<or> d + n2 \<le> c" using 2 m True by simp
    then show ?thesis using m \<open>a = b\<close> by auto
  next
    case False
    then show ?thesis using fields_apart [OF m(1,2)] member_bounds [OF m(3)] member_bounds [OF m(4)] m(5,6) by auto
  qed
next
  case (3 fs x p y q)
  then show ?case by (auto split: option.splits)
qed simp_all

text \<open>A load gives what was stored in the member, and what was there in a member that does not overlap it.\<close>

lemma load_store_same:
  assumes "member_at t p = Some (off, n)" "length v = n" "length bs = csize t"
  shows "cload t p (cstore t p v bs) = Some v"
  using member_bounds [OF assms(1)] assms by (simp add: cload_def cstore_def)

lemma load_store_other:
  assumes "member_at t p = Some (off, n)" "length v = n" "length bs = csize t" "\<not> overlap t p q"
  shows "cload t q (cstore t p v bs) = cload t q bs"
proof (cases "member_at t q")
  case (Some r)
  obtain b m where r: "r = (b, m)" by fastforce
  have "off + n \<le> b \<or> b + m \<le> off" using members_apart [OF assms(1) Some [unfolded r] assms(4)] .
  then have "take m (drop b (take off bs @ v @ drop (off + n) bs)) = take m (drop b bs)"
    using member_bounds [OF assms(1)] member_bounds [OF Some [unfolded r]] assms(2,3)
    by (auto simp: take_drop min_absorb1 min_absorb2 intro!: nth_equalityI simp: nth_append)
  then show ?thesis using assms(1,2) Some r by (simp add: cload_def cstore_def)
qed (simp add: cload_def)

text \<open>Sizes and alignments, from the inside out.\<close>

lemma part_sizes:
  "csize dpif_dpdk_action = 16" "calign dpif_dpdk_action = 4" "csize dpif_dpdk_flow_stats = 32" "calign dpif_dpdk_flow_stats = 8"
  "csize dpif_dpdk_vport_stats = 64" "calign dpif_dpdk_vport_stats = 8"
  by code_simp+

lemma aligns:
  "align_up (Suc 0) n = n" "align_up a 0 = 0" "align_up 4 4 = 4" "align_up 4 (Suc 4) = 8" "align_up 4 5 = 8" "align_up 8 49 = 56" "align_up 4 88 = 88"
  "align_up 8 (Suc 856) = 864" "align_up 8 857 = 864" "align_up 8 (Suc (Suc 0)) = 8" "align_up 8 2 = 8" "align_up 8 872 = 872" "align_up 8 864 = 864" "align_up 4 8 = 8" "align_up 4 12 = 12" "align_up 4 48 = 48" "align_up 8 68 = 72"
  by (simp_all add: align_up_def)

lemma key_size: "csize ea = 6 \<Longrightarrow> csize (dpif_dpdk_flow_key ea) = 37" "calign (dpif_dpdk_flow_key ea) = 1"
  by (simp_all add: dpif_dpdk_flow_key_def align_up_def)

lemma message_sizes:
  "csize dpif_dpdk_vport_message = 136" "calign dpif_dpdk_vport_message = 8" "csize dpif_dpdk_packet_message = 768" "calign dpif_dpdk_packet_message = 4"
  by code_simp+

lemma flow_fields_at:
  assumes "csize ea = 6"
  shows "field_at False 0 [(''id'', CInt 4), (''cmd'', CInt 1), (''flags'', CInt 4), (''key'', dpif_dpdk_flow_key ea), (''stats'', dpif_dpdk_flow_stats),
      (''actions'', CArray 48 dpif_dpdk_action), (''clear'', CInt 1)] x =
    map_of [(''id'', (0, CInt 4)), (''cmd'', (4, CInt 1)), (''flags'', (8, CInt 4)), (''key'', (12, dpif_dpdk_flow_key ea)), (''stats'', (56, dpif_dpdk_flow_stats)),
      (''actions'', (88, CArray 48 dpif_dpdk_action)), (''clear'', (856, CInt 1))] x"
  using assms by (simp add: Let_def part_sizes key_size aligns)

lemma flow_message_size: "csize ea = 6 \<Longrightarrow> csize (dpif_dpdk_flow_message ea) = 864" "calign (dpif_dpdk_flow_message ea) = 8"
  by (simp_all add: dpif_dpdk_flow_message_def part_sizes key_size aligns)

lemma whole_size:
  "csize ea = 6 \<Longrightarrow> csize (dpif_dpdk_message ea) = 872" "csize ea = 6 \<Longrightarrow> csize (dpif_dpdk_upcall ea) = 38"
  by (simp_all add: dpif_dpdk_message_def dpif_dpdk_upcall_def message_sizes flow_message_size key_size aligns)

text \<open>The union starts at 8.\<close>

lemma message_union:
  assumes "csize ea = 6"
  shows "member_at (dpif_dpdk_message ea) (Field [] # Field ''flow_msg'' # p) = map_option (map_prod ((+) 8) id) (member_at (dpif_dpdk_flow_message ea) p)"
    and "member_at (dpif_dpdk_message ea) (Field [] # Field ''vport_msg'' # p) = map_option (map_prod ((+) 8) id) (member_at dpif_dpdk_vport_message p)"
  using assms by (simp_all add: dpif_dpdk_message_def message_sizes flow_message_size aligns)

text \<open>Where the members of a message are: with an Ethernet address of six bytes, a message has 872 bytes, the offsets of
  the members of a message about a flow and of one about a port are these, an action has 16 bytes, and an upcall 38.\<close>

lemma message_offsets:
  assumes "csize ea = 6"
  shows "csize (dpif_dpdk_message ea) = 872 \<and> csize (dpif_dpdk_upcall ea) = 38 \<and> csize dpif_dpdk_action = 16 \<and>
    map (\<lambda>x. member_at (dpif_dpdk_message ea) [Field [], Field ''flow_msg'', Field x]) [''id'', ''cmd'', ''flags'', ''key'', ''stats'', ''actions'', ''clear''] =
      [Some (8, 4), Some (12, 1), Some (16, 4), Some (20, 37), Some (64, 32), Some (96, 768), Some (864, 1)] \<and>
    map (\<lambda>x. member_at (dpif_dpdk_message ea) [Field [], Field ''vport_msg'', Field x])
      [''id'', ''cmd'', ''flags'', ''port_no'', ''port_name'', ''type'', ''reserved'', ''stats''] =
      [Some (8, 4), Some (12, 1), Some (16, 4), Some (20, 4), Some (24, 32), Some (56, 4), Some (60, 16), Some (80, 64)]"
  using assms by (simp add: whole_size part_sizes message_union dpif_dpdk_flow_message_def dpif_dpdk_vport_message_def flow_fields_at key_size aligns)

section \<open>Properties\<close>

text \<open>C32: Daemon and datapath agree on the messages that they exchange, although each declares them in its own headers: a value that
  one program stores in a member of a message, at any depth, is what the other loads from the member of that name, and the
  other loads every member that does not share memory with it as it was before. Messages have one size, upcalls have the same members in
  the same places, and the enumerators of types, actions and commands that are sent have the same values.\<close>

theorem messages_agree:
  assumes "member_at (dpif_dpdk_message ea) p = Some (off, n)" "length v = n" "length bs = csize (dpif_dpdk_message ea)"
  shows "cload (dpdk_message_type ea) p (cstore (dpif_dpdk_message ea) p v bs) = Some v \<and>
    cload (dpif_dpdk_message ea) p (cstore (dpdk_message_type ea) p v bs) = Some v \<and>
    (\<forall>q. \<not> overlap (dpif_dpdk_message ea) p q \<longrightarrow>
      cload (dpdk_message_type ea) q (cstore (dpif_dpdk_message ea) p v bs) = cload (dpif_dpdk_message ea) q bs \<and>
      cload (dpif_dpdk_message ea) q (cstore (dpdk_message_type ea) p v bs) = cload (dpdk_message_type ea) q bs) \<and>
    csize (dpdk_message_type ea) = csize (dpif_dpdk_message ea) \<and>
    (\<forall>q. member_at (dpdk_upcall_type ea) q = member_at (dpif_dpdk_upcall ea) q) \<and> csize (dpdk_upcall_type ea) = csize (dpif_dpdk_upcall ea) \<and>
    vport_type_names = dpif_dpdk_vport_type \<and> action_type_names = dpif_dpdk_action_type \<and>
    (\<forall>i < 4. ovs_vport_cmd ! i = ''OVS_'' @ vport_cmd ! i \<and> ovs_flow_cmd ! i = ''OVS_'' @ flow_cmd ! i \<and> ovs_packet_cmd ! i = ''OVS_'' @ packet_cmd ! i)"
proof -
  have m: "dpdk_message_type ea = dpif_dpdk_message ea" by (simp only: daemon_types datapath_types)
  have u: "dpdk_upcall_type ea = dpif_dpdk_upcall ea" by (simp only: daemon_types datapath_types)
  have "vport_type_names = dpif_dpdk_vport_type" "action_type_names = dpif_dpdk_action_type" by (simp_all only: both_enums)
  moreover have "\<forall>i < 4. ovs_vport_cmd ! i = ''OVS_'' @ vport_cmd ! i \<and> ovs_flow_cmd ! i = ''OVS_'' @ flow_cmd ! i \<and> ovs_packet_cmd ! i = ''OVS_'' @ packet_cmd ! i"
    by (simp add: both_enums less_Suc_eq numeral_eq_Suc)
  ultimately show ?thesis
    using load_store_same [OF assms] load_store_other [OF assms] unfolding m u by blast
qed

text \<open>The daemon stores the identifier of a VLAN in the key of a flow message; the datapath loads it, and the actions as they were.\<close>

theorem messages_agree_witness:
  "cload (dpdk_message_type (CArray 6 (CInt 1))) [Field [], Field ''flow_msg'', Field ''key'', Field ''vlan_id'']
     (cstore (dpif_dpdk_message (CArray 6 (CInt 1))) [Field [], Field ''flow_msg'', Field ''key'', Field ''vlan_id''] [1, 2] (replicate 872 (0 :: nat))) = Some [1, 2] \<and>
   cload (dpdk_message_type (CArray 6 (CInt 1))) [Field [], Field ''flow_msg'', Field ''actions'']
     (cstore (dpif_dpdk_message (CArray 6 (CInt 1))) [Field [], Field ''flow_msg'', Field ''key'', Field ''vlan_id''] [1, 2] (replicate 872 (0 :: nat))) = Some (replicate 768 0)"
proof -
  let ?ea = "CArray 6 (CInt 1)" let ?p = "[Field [], Field ''flow_msg'', Field ''key'', Field ''vlan_id'']" let ?q = "[Field [], Field ''flow_msg'', Field ''actions'']"
  have size: "csize (dpif_dpdk_message ?ea) = 872" and at: "member_at (dpif_dpdk_message ?ea) ?p = Some (38, 2)" "member_at (dpif_dpdk_message ?ea) ?q = Some (96, 768)"
    by (simp_all add: whole_size message_union dpif_dpdk_flow_message_def flow_fields_at part_sizes key_size aligns) (simp add: dpif_dpdk_flow_key_def aligns)
  define bs where "bs = replicate 872 (0 :: nat)"
  have "\<not> overlap (dpif_dpdk_message ?ea) ?p ?q" by (simp add: daemon_types)
  moreover have "cload (dpif_dpdk_message ?ea) ?q bs = Some (replicate 768 0)" by (simp only: cload_def at bs_def) simp
  moreover have "length bs = csize (dpif_dpdk_message ?ea)" by (simp only: bs_def length_replicate size)
  note w = messages_agree [OF at(1) _ this, of "[1, 2]"]
  ultimately show ?thesis unfolding bs_def [symmetric] using w [THEN conjunct1] w [THEN conjunct2, THEN conjunct2, THEN conjunct1, rule_format, of ?q] by simp
qed

end
