(* ===== verification/MsgLayout.thy ===== *)
theory MsgLayout
  imports DpifOps CLayout
begin

text \<open>
  An encoding of the messages about flows and ports as bytes, for instances of the link. The programs copy structures; the link relies on
  a message being read back from its bytes (\<open>flow_wire\<close>, \<open>vport_wire\<close>), and this encoding, which puts every member where the layout of
  \<open>CLayout\<close> has it and zeros between, does that.
\<close>

section \<open>Members\<close>

fun chunks :: "nat list \<Rightarrow> bytes \<Rightarrow> bytes list" where
  "chunks [] bs = []"
| "chunks (n # ns) bs = take n bs # chunks ns (drop n bs)"

lemma chunks_concat: "map length fs = ns \<Longrightarrow> chunks ns (concat fs @ rest) = fs"
  by (induction fs arbitrary: ns) auto

definition u16_of :: "bytes \<Rightarrow> u16" where "u16_of bs = the (ld16 bs 0)"
definition u32_of :: "bytes \<Rightarrow> u32" where "u32_of bs = the (ld32 bs 0)"
definition u64_of :: "bytes \<Rightarrow> u64" where "u64_of bs = push_bit 32 (ucast (the (ld32 bs 4))) OR ucast (the (ld32 bs 0))"

lemma words_of_bytes [simp]: "u16_of (be16_bytes v) = v" "u32_of (be32_bytes w) = w" "u64_of (le64_bytes x) = x"
  using le64_halves [of x] by (simp_all add: u16_of_def u32_of_def u64_of_def)

lemma words_of_prefix [simp]: "u16_of (be16_bytes v @ r) = v" "u32_of (be32_bytes w @ r) = w"
  by (simp_all add: u16_of_def u32_of_def)

lemma length_words [simp]: "length (be16_bytes v) = 2" "length (le64_bytes x) = 8"
  by (simp_all add: be16_bytes_def le64_bytes_def be32_bytes_def)

section \<open>Flows\<close>

definition key_fields :: "flow_key \<Rightarrow> bytes list" where
  "key_fields k = [be32_bytes (in_port k), ether_dst k, ether_src k, be16_bytes (ether_type k), be16_bytes (vlan_id k), [vlan_prio k],
     be32_bytes (ip_src k), be32_bytes (ip_dst k), [ip_proto k], [ip_tos k], [ip_ttl k], [ip_frag k],
     be16_bytes (tran_src_port k), be16_bytes (tran_dst_port k)]"

definition key_bytes :: "flow_key \<Rightarrow> bytes" where
  "key_bytes k = concat (key_fields k)"

definition key_of_bytes :: "bytes \<Rightarrow> flow_key" where
  "key_of_bytes bs = (let c = chunks [4, 6, 6, 2, 2, 1, 4, 4, 1, 1, 1, 1, 2, 2] bs in
     \<lparr>in_port = u32_of (c ! 0), ether_dst = c ! 1, ether_src = c ! 2, ether_type = u16_of (c ! 3), vlan_id = u16_of (c ! 4),
      vlan_prio = hd (c ! 5), ip_src = u32_of (c ! 6), ip_dst = u32_of (c ! 7), ip_proto = hd (c ! 8), ip_tos = hd (c ! 9),
      ip_ttl = hd (c ! 10), ip_frag = hd (c ! 11), tran_src_port = u16_of (c ! 12), tran_dst_port = u16_of (c ! 13)\<rparr>)"

lemma key_layout:
  assumes "key_shape k"
  shows "length (key_bytes k) = 37" "key_of_bytes (key_bytes k) = k"
proof -
  have "map length (key_fields k) = [4, 6, 6, 2, 2, 1, 4, 4, 1, 1, 1, 1, 2, 2]" using assms by (simp add: key_fields_def key_shape_def)
  from chunks_concat [OF this, of "[]"] have "chunks [4, 6, 6, 2, 2, 1, 4, 4, 1, 1, 1, 1, 2, 2] (key_bytes k) = key_fields k" by (simp add: key_bytes_def)
  then show "key_of_bytes (key_bytes k) = k" by (simp add: key_of_bytes_def key_fields_def)
  show "length (key_bytes k) = 37" using assms by (simp add: key_bytes_def key_fields_def key_shape_def)
qed

definition stats_bytes :: "flow_stats \<Rightarrow> bytes" where
  "stats_bytes st = le64_bytes (packet_count st) @ le64_bytes (byte_count st) @ le64_bytes (used st) @ [tcp_flags st] @ zeros 7"

definition stats_of_bytes :: "bytes \<Rightarrow> flow_stats" where
  "stats_of_bytes bs = (let c = chunks [8, 8, 8, 1] bs in
     \<lparr>packet_count = u64_of (c ! 0), byte_count = u64_of (c ! 1), used = u64_of (c ! 2), tcp_flags = hd (c ! 3)\<rparr>)"

lemma stats_layout: "length (stats_bytes st) = 32" "stats_of_bytes (stats_bytes st) = st"
proof -
  show "length (stats_bytes st) = 32" by (simp add: stats_bytes_def)
  have "chunks [8, 8, 8, 1] (stats_bytes st) = [le64_bytes (packet_count st), le64_bytes (byte_count st), le64_bytes (used st), [tcp_flags st]]"
    by (simp add: stats_bytes_def)
  then show "stats_of_bytes (stats_bytes st) = st" by (simp add: stats_of_bytes_def)
qed

text \<open>An action: its type, and the union, whose largest members have twelve bytes.\<close>

fun action_fields :: "action \<Rightarrow> u32 \<times> bytes" where
  "action_fields ACTION_NULL = (0, [])"
| "action_fields (ACTION_OUTPUT port) = (1, be32_bytes port)"
| "action_fields ACTION_POP_VLAN = (2, [])"
| "action_fields (ACTION_PUSH_VLAN tpid tci) = (3, be16_bytes tpid @ be16_bytes tci)"
| "action_fields (ACTION_SET_ETHERNET src dst) = (4, src @ dst)"
| "action_fields (ACTION_SET_IPV4 src dst proto tos ttl frag) = (5, be32_bytes src @ be32_bytes dst @ [proto, tos, ttl, frag])"
| "action_fields (ACTION_SET_TCP src dst) = (6, be16_bytes src @ be16_bytes dst)"
| "action_fields (ACTION_SET_UDP src dst) = (7, be16_bytes src @ be16_bytes dst)"
| "action_fields ACTION_MAX = (8, [])"

definition action_bytes :: "action \<Rightarrow> bytes" where
  "action_bytes a = (case action_fields a of (t, d) \<Rightarrow> be32_bytes t @ d @ zeros (12 - length d))"

definition action_of_bytes :: "bytes \<Rightarrow> action" where
  "action_of_bytes bs = (let t = u32_of bs; d = drop 4 bs in
     if t = 0 then ACTION_NULL
     else if t = 1 then ACTION_OUTPUT (u32_of d)
     else if t = 2 then ACTION_POP_VLAN
     else if t = 3 then ACTION_PUSH_VLAN (u16_of d) (u16_of (drop 2 d))
     else if t = 4 then ACTION_SET_ETHERNET (take 6 d) (take 6 (drop 6 d))
     else if t = 5 then ACTION_SET_IPV4 (u32_of d) (u32_of (drop 4 d)) (d ! 8) (d ! 9) (d ! 10) (d ! 11)
     else if t = 6 then ACTION_SET_TCP (u16_of d) (u16_of (drop 2 d))
     else if t = 7 then ACTION_SET_UDP (u16_of d) (u16_of (drop 2 d))
     else ACTION_MAX)"

lemma action_layout:
  assumes "action_shape a"
  shows "length (action_bytes a) = 16" "action_of_bytes (action_bytes a) = a"
  using assms by (cases a; simp add: action_bytes_def action_of_bytes_def nth_append)+

lemma actions_layout:
  assumes "\<forall>a \<in> set acts. action_shape a"
  shows "length (concat (map action_bytes acts)) = 16 * length acts"
    "map action_of_bytes (chunks (replicate (length acts) 16) (concat (map action_bytes acts) @ rest)) = acts"
  using assms
proof (induction acts)
  case (Cons a acts)
  {
    case 1
    then show ?case using Cons.IH(1) action_layout(1) [of a] by simp
  next
    case 2
    then show ?case using Cons.IH(2) action_layout [of a] by simp
  }
qed simp_all

definition flow_fields :: "dpdk_flow_message \<Rightarrow> bytes list" where
  "flow_fields r = [be32_bytes (fm_id r), [fm_cmd r], zeros 3, be32_bytes (fm_flags r), key_bytes (fm_key r), zeros 7, stats_bytes (fm_stats r),
     concat (map action_bytes (fm_actions r)), [if fm_clear r then 1 else 0], zeros 7]"

definition flow_of_bytes :: "bytes \<Rightarrow> dpdk_flow_message" where
  "flow_of_bytes bs = (let c = chunks [4, 1, 3, 4, 37, 7, 32, 768, 1, 7] bs in
     \<lparr>fm_id = u32_of (c ! 0), fm_cmd = hd (c ! 1), fm_flags = u32_of (c ! 3), fm_key = key_of_bytes (c ! 4), fm_stats = stats_of_bytes (c ! 6),
      fm_actions = map action_of_bytes (chunks (replicate MAX_ACTIONS 16) (c ! 7)), fm_clear = (hd (c ! 8) \<noteq> 0)\<rparr>)"

lemma flow_layout:
  assumes "flow_message_ok r"
  shows "length (concat (flow_fields r)) = 864" "flow_of_bytes (concat (flow_fields r) @ rest) = r"
proof -
  have k: "key_shape (fm_key r)" "\<forall>a \<in> set (fm_actions r). action_shape a" "length (fm_actions r) = 48"
    using assms by (simp_all add: flow_message_ok_def actions_shape_def MAX_ACTIONS_def)
  have len: "map length (flow_fields r) = [4, 1, 3, 4, 37, 7, 32, 768, 1, 7]"
    using key_layout(1) [OF k(1)] actions_layout(1) [OF k(2)] k(3) by (simp add: flow_fields_def stats_layout)
  have "length (concat (flow_fields r)) = sum_list (map length (flow_fields r))" by (simp add: length_concat)
  then show "length (concat (flow_fields r)) = 864" unfolding len by simp
  have acts: "map action_of_bytes (chunks (replicate MAX_ACTIONS 16) (concat (map action_bytes (fm_actions r)))) = fm_actions r"
    using actions_layout(2) [OF k(2), of "[]"] k(3) by (simp only: MAX_ACTIONS_def append_Nil2)
  show "flow_of_bytes (concat (flow_fields r) @ rest) = r"
    unfolding flow_of_bytes_def chunks_concat [OF len] Let_def
    by (simp add: flow_fields_def key_layout(2) [OF k(1)] stats_layout acts del: chunks.simps)
qed

section \<open>Ports\<close>

definition port_types :: "vport_type list" where
  "port_types = [VPORT_TYPE_DISABLED, VPORT_TYPE_VSWITCHD, VPORT_TYPE_BRIDGE, VPORT_TYPE_PHY, VPORT_TYPE_CLIENT, VPORT_TYPE_KNI, VPORT_TYPE_VETH, VPORT_TYPE_VHOST]"

fun type_code :: "vport_type \<Rightarrow> u32" where
  "type_code VPORT_TYPE_DISABLED = 0"
| "type_code VPORT_TYPE_VSWITCHD = 1"
| "type_code VPORT_TYPE_BRIDGE = 2"
| "type_code VPORT_TYPE_PHY = 3"
| "type_code VPORT_TYPE_CLIENT = 4"
| "type_code VPORT_TYPE_KNI = 5"
| "type_code VPORT_TYPE_VETH = 6"
| "type_code VPORT_TYPE_VHOST = 7"

lemma type_code_nth: "port_types ! unat (type_code t) = t"
  by (cases t) (simp_all add: port_types_def)

text \<open>The name fills its field up with nulls.\<close>

definition vport_message_ok :: "dpdk_vport_message \<Rightarrow> bool" where
  "vport_message_ok r \<longleftrightarrow> length (vm_port_name r) \<le> DPDK_PORT_MAX_STRING_LEN \<and> CHR 0x00 \<notin> set (vm_port_name r)"

definition char_byte :: "char \<Rightarrow> u8" where
  "char_byte c = of_nat (of_char c)"

definition name_bytes :: "string \<Rightarrow> bytes" where
  "name_bytes name = map char_byte name @ zeros (DPDK_PORT_MAX_STRING_LEN - length name)"

definition name_of_bytes :: "bytes \<Rightarrow> string" where
  "name_of_bytes bs = map (\<lambda>b. char_of (unat b)) (takeWhile (\<lambda>b. b \<noteq> 0) bs)"

lemma unat_char_byte: "unat (char_byte c) = of_char c"
proof -
  have "(of_char c :: nat) < 256" by simp
  then show ?thesis by (simp add: char_byte_def unat_of_nat)
qed

lemma char_byte_zero: "char_byte c = 0 \<Longrightarrow> c = CHR 0x00"
proof -
  assume "char_byte c = 0"
  then have "(of_char c :: nat) = of_char (CHR 0x00)" using unat_char_byte [of c] by simp
  then show ?thesis by (simp only: of_char_eq_iff)
qed

lemma name_layout:
  assumes "length name \<le> DPDK_PORT_MAX_STRING_LEN" "CHR 0x00 \<notin> set name"
  shows "length (name_bytes name) = 32" "name_of_bytes (name_bytes name) = name"
proof -
  show "length (name_bytes name) = 32" using assms(1) by (simp add: name_bytes_def DPDK_PORT_MAX_STRING_LEN_def)
  have nz: "char_byte c \<noteq> 0" if "c \<in> set name" for c using that char_byte_zero [of c] assms(2) by auto
  have "takeWhile (\<lambda>b. b \<noteq> 0) (zeros n) = []" for n by (cases n) (simp_all add: zeros_def)
  with nz have "takeWhile (\<lambda>b. b \<noteq> 0) (name_bytes name) = map char_byte name"
    unfolding name_bytes_def by (subst takeWhile_append2) auto
  then show "name_of_bytes (name_bytes name) = name" by (simp add: name_of_bytes_def unat_char_byte comp_def)
qed

definition port_stats_fields :: "port_stats \<Rightarrow> bytes list" where
  "port_stats_fields st = map le64_bytes [ps_rx st, ps_tx st, ps_rx_bytes st, ps_tx_bytes st, ps_rx_drop st, ps_tx_drop st, ps_rx_error st, ps_tx_error st]"

definition port_stats_of_bytes :: "bytes \<Rightarrow> port_stats" where
  "port_stats_of_bytes bs = (let c = map u64_of (chunks [8, 8, 8, 8, 8, 8, 8, 8] bs) in
     \<lparr>ps_rx = c ! 0, ps_tx = c ! 1, ps_rx_bytes = c ! 2, ps_tx_bytes = c ! 3, ps_rx_drop = c ! 4, ps_tx_drop = c ! 5, ps_rx_error = c ! 6, ps_tx_error = c ! 7\<rparr>)"

lemma port_stats_layout: "length (concat (port_stats_fields st)) = 64" "port_stats_of_bytes (concat (port_stats_fields st)) = st"
proof -
  show "length (concat (port_stats_fields st)) = 64" by (simp add: port_stats_fields_def)
  have "map length (port_stats_fields st) = [8, 8, 8, 8, 8, 8, 8, 8]" by (simp add: port_stats_fields_def)
  from chunks_concat [OF this, of "[]"] have c: "chunks [8, 8, 8, 8, 8, 8, 8, 8] (concat (port_stats_fields st)) = port_stats_fields st" by simp
  show "port_stats_of_bytes (concat (port_stats_fields st)) = st" unfolding port_stats_of_bytes_def c Let_def by (simp add: port_stats_fields_def)
qed

definition vport_fields :: "dpdk_vport_message \<Rightarrow> bytes list" where
  "vport_fields r = [be32_bytes (vm_id r), [vm_cmd r], zeros 3, be32_bytes (vm_flags r), be32_bytes (vm_port_no r), name_bytes (vm_port_name r),
     be32_bytes (type_code (vm_type r)), zeros 16, zeros 4, concat (port_stats_fields (vm_stats r))]"

definition vport_of_bytes :: "bytes \<Rightarrow> dpdk_vport_message" where
  "vport_of_bytes bs = (let c = chunks [4, 1, 3, 4, 4, 32, 4, 16, 4, 64] bs in
     \<lparr>vm_id = u32_of (c ! 0), vm_cmd = hd (c ! 1), vm_flags = u32_of (c ! 3), vm_port_no = u32_of (c ! 4), vm_port_name = name_of_bytes (c ! 5),
      vm_type = port_types ! unat (u32_of (c ! 6)), vm_stats = port_stats_of_bytes (c ! 9)\<rparr>)"

lemma vport_layout:
  assumes "vport_message_ok r"
  shows "length (concat (vport_fields r)) = 136" "vport_of_bytes (concat (vport_fields r) @ rest) = r"
proof -
  have n: "length (vm_port_name r) \<le> DPDK_PORT_MAX_STRING_LEN" "CHR 0x00 \<notin> set (vm_port_name r)" using assms by (simp_all add: vport_message_ok_def)
  have len: "map length (vport_fields r) = [4, 1, 3, 4, 4, 32, 4, 16, 4, 64]" using name_layout(1) [OF n] by (simp add: vport_fields_def port_stats_layout)
  have "length (concat (vport_fields r)) = sum_list (map length (vport_fields r))" by (simp add: length_concat)
  then show "length (concat (vport_fields r)) = 136" unfolding len by simp
  show "vport_of_bytes (concat (vport_fields r) @ rest) = r"
    unfolding vport_of_bytes_def chunks_concat [OF len] Let_def
    by (simp add: vport_fields_def name_layout(2) [OF n] port_stats_layout type_code_nth del: chunks.simps)
qed

section \<open>Messages\<close>

text \<open>
  The type, a padding to the alignment of the union, and the union, of the size of its largest member, a flow. The receiver
  reads the member it expects: the bytes do not say which one they hold. A list of more actions than the array holds is cut off.
\<close>

definition MESSAGE_SIZE :: nat where "MESSAGE_SIZE = 872"

definition message_bytes :: "dpdk_message \<Rightarrow> bytes" where
  "message_bytes msg = be16_bytes (of_int (msg_type msg)) @ zeros 6 @ (let u = (case msg_payload msg of
       FLOW_MSG r \<Rightarrow> concat (flow_fields r) | VPORT_MSG r \<Rightarrow> concat (vport_fields r) | PACKET_MSG acts \<Rightarrow> concat (map action_bytes acts) | ZERO_MSG \<Rightarrow> [])
     in take 864 (u @ zeros 864))"

definition flow_message_of :: "bytes \<Rightarrow> dpdk_message" where
  "flow_message_of bs = \<lparr>msg_type = sint (u16_of bs), msg_payload = FLOW_MSG (flow_of_bytes (drop 8 bs))\<rparr>"

definition vport_message_of :: "bytes \<Rightarrow> dpdk_message" where
  "vport_message_of bs = \<lparr>msg_type = sint (u16_of bs), msg_payload = VPORT_MSG (vport_of_bytes (drop 8 bs))\<rparr>"

lemma length_message_bytes: "length (message_bytes msg) = MESSAGE_SIZE"
  by (simp add: message_bytes_def MESSAGE_SIZE_def Let_def)

lemma type_layout: "- 32768 \<le> c \<Longrightarrow> c < 32768 \<Longrightarrow> sint (of_int c :: u16) = c"
  by (simp add: sint_sbintrunc' signed_take_bit_int_eq_self)

lemma message_layout:
  assumes "- 32768 \<le> c" "c < 32768"
  shows "flow_message_ok r \<Longrightarrow> flow_message_of (message_bytes \<lparr>msg_type = c, msg_payload = FLOW_MSG r\<rparr> @ rest) = \<lparr>msg_type = c, msg_payload = FLOW_MSG r\<rparr>"
    and "vport_message_ok v \<Longrightarrow> vport_message_of (message_bytes \<lparr>msg_type = c, msg_payload = VPORT_MSG v\<rparr> @ rest) = \<lparr>msg_type = c, msg_payload = VPORT_MSG v\<rparr>"
proof -
  have z: "drop 8 (be16_bytes t @ zeros 6 @ u) = u" for t u by simp
  show "flow_message_of (message_bytes \<lparr>msg_type = c, msg_payload = FLOW_MSG r\<rparr> @ rest) = \<lparr>msg_type = c, msg_payload = FLOW_MSG r\<rparr>" if "flow_message_ok r"
    using flow_layout [OF that] type_layout [OF assms] by (simp add: flow_message_of_def message_bytes_def Let_def)
  show "vport_message_of (message_bytes \<lparr>msg_type = c, msg_payload = VPORT_MSG v\<rparr> @ rest) = \<lparr>msg_type = c, msg_payload = VPORT_MSG v\<rparr>" if "vport_message_ok v"
    using vport_layout [OF that] type_layout [OF assms] by (simp add: vport_message_of_def message_bytes_def Let_def)
qed

text \<open>The members of a message about a flow are where the datapath loads them.\<close>

lemma flow_message_members:
  assumes "flow_message_ok r"
  shows "cload (dpdk_message_type (CArray 6 (CInt 1))) [Field [], Field ''flow_msg'', Field ''key''] (message_bytes \<lparr>msg_type = c, msg_payload = FLOW_MSG r\<rparr>) =
      Some (key_bytes (fm_key r))"
    and "cload (dpdk_message_type (CArray 6 (CInt 1))) [Field [], Field ''flow_msg'', Field ''stats''] (message_bytes \<lparr>msg_type = c, msg_payload = FLOW_MSG r\<rparr>) =
      Some (stats_bytes (fm_stats r))"
    and "cload (dpdk_message_type (CArray 6 (CInt 1))) [Field [], Field ''flow_msg'', Field ''actions''] (message_bytes \<lparr>msg_type = c, msg_payload = FLOW_MSG r\<rparr>) =
      Some (concat (map action_bytes (fm_actions r)))"
proof -
  let ?ea = "CArray 6 (CInt 1)"
  have "dpdk_message_type ?ea = dpif_dpdk_message ?ea" by (simp only: daemon_types datapath_types)
  moreover have "csize ?ea = 6" by simp
  ultimately have at: "member_at (dpdk_message_type ?ea) [Field [], Field ''flow_msg'', Field ''key''] = Some (20, 37)"
    "member_at (dpdk_message_type ?ea) [Field [], Field ''flow_msg'', Field ''stats''] = Some (64, 32)"
    "member_at (dpdk_message_type ?ea) [Field [], Field ''flow_msg'', Field ''actions''] = Some (96, 768)"
    using message_union(1) [of ?ea] by (simp_all only: dpif_dpdk_flow_message_def member_at.simps flow_fields_at) (simp_all add: part_sizes key_size)
  have k: "length (key_bytes (fm_key r)) = 37" "length (concat (map action_bytes (fm_actions r))) = 768" "length (stats_bytes (fm_stats r)) = 32"
    using key_layout(1) actions_layout(1) [of "fm_actions r"] stats_layout(1) assms by (simp_all add: flow_message_ok_def actions_shape_def MAX_ACTIONS_def)
  have m: "message_bytes \<lparr>msg_type = c, msg_payload = FLOW_MSG r\<rparr> = be16_bytes (of_int c) @ zeros 6 @ concat (flow_fields r)"
    using flow_layout(1) [OF assms] by (simp add: message_bytes_def)
  show "cload (dpdk_message_type ?ea) [Field [], Field ''flow_msg'', Field ''key''] (message_bytes \<lparr>msg_type = c, msg_payload = FLOW_MSG r\<rparr>) = Some (key_bytes (fm_key r))"
    "cload (dpdk_message_type ?ea) [Field [], Field ''flow_msg'', Field ''stats''] (message_bytes \<lparr>msg_type = c, msg_payload = FLOW_MSG r\<rparr>) = Some (stats_bytes (fm_stats r))"
    "cload (dpdk_message_type ?ea) [Field [], Field ''flow_msg'', Field ''actions''] (message_bytes \<lparr>msg_type = c, msg_payload = FLOW_MSG r\<rparr>) =
      Some (concat (map action_bytes (fm_actions r)))"
    unfolding cload_def at m using k by (simp_all add: flow_fields_def)
qed

end
