(* ===== verification/DpifServe.thy ===== *)
theory DpifServe
  imports MsgLayout
begin

text \<open>
  The operations of the datapath interface, the link and the datapath composed. While the daemon waits for a reply, the
  datapath takes its turns, and the tables of flows and ports change as the operation asks for.
\<close>

section \<open>Transactions with the datapath\<close>

text \<open>What the datapath makes of a request: the reply and the table of flows, or of ports, afterwards.\<close>

definition serve_flow :: "'h rte_hash \<Rightarrow> dp_time \<Rightarrow> dpdk_flow_message \<Rightarrow> 'h flow_state \<Rightarrow> (dpdk_message \<times> 'h flow_state) option" where
  "serve_flow H now r T =
     (if fm_cmd r = CMD_NEW then flow_new_reply H now r T
      else if fm_cmd r = CMD_DEL then flow_del_reply H now r T
      else if fm_cmd r = CMD_GET then map_option (\<lambda>msg. (msg, T))
        (if fm_flags r AND FLAG_DUMP \<noteq> 0 then flow_dump_reply H now T r else flow_get_reply H now T r)
      else Some (\<lparr>msg_type = EINVAL, msg_payload = ZERO_MSG\<rparr>, T))"

definition serve_vport :: "vport_cfg \<Rightarrow> nat \<Rightarrow> statistics \<Rightarrow> dpdk_vport_message \<Rightarrow> vport_table \<Rightarrow> (dpdk_message \<times> vport_table) option" where
  "serve_vport cfg max_lcore st r t =
     (if vm_cmd r = CMD_NEW then vport_new_reply cfg r t
      else if vm_cmd r = CMD_DEL then Some (vport_del_reply r t)
      else if vm_cmd r = CMD_GET then
        Some (if vm_flags r AND FLAG_DUMP \<noteq> 0 then vport_dump_reply max_lcore st t r else vport_get_reply max_lcore st t r, t)
      else Some (\<lparr>msg_type = EINVAL, msg_payload = ZERO_MSG\<rparr>, t))"

lemma set_vports_same: "set_vports (d_vports (sw_dp s)) s = s"
  by (simp add: set_vports_def upd_dp_def)

lemma answered_flow:
  assumes "se_dec E (mtod (sw_dp s) m) = \<lparr>msg_type = FLOW_CMD_FAMILY, msg_payload = FLOW_MSG r\<rparr>"
    and "serve_flow (se_hash E) (sw_time s) r (sw_flow s) = Some (reply, T)"
  shows "answered E reply T (d_vports (sw_dp s)) m s"
proof -
  have v: "set_vports (d_vports (sw_dp s)) (s\<lparr>sw_flow := T\<rparr>) = s\<lparr>sw_flow := T\<rparr>" using set_vports_same [of "s\<lparr>sw_flow := T\<rparr>"] by simp
  have "handle_flow_cmd E r s = send_reply_to_vswitchd E reply (s\<lparr>sw_flow := T\<rparr>)"
    using assms(2) by (auto simp: serve_flow_def handle_flow_cmd_def flow_cmd_new_def flow_cmd_del_def flow_cmd_get_def flow_cmd_dump_def handle_unknown_cmd_def
        split: if_splits)
  then show ?thesis using assms(1) by (simp add: answered_def v handle_vswitchd_cmd_def VPORT_CMD_FAMILY_def FLOW_CMD_FAMILY_def)
qed

lemma answered_vport:
  assumes "se_dec E (mtod (sw_dp s) m) = \<lparr>msg_type = VPORT_CMD_FAMILY, msg_payload = VPORT_MSG r\<rparr>"
    and "serve_vport (e_cfg (se_io E)) (se_max_lcore E) (d_stats (sw_dp s)) r (d_vports (sw_dp s)) = Some (reply, t)"
  shows "answered E reply (sw_flow s) t m s"
proof -
  have "handle_vport_cmd E r s = send_reply_to_vswitchd E reply (set_vports t s)"
    using assms(2) set_vports_same [of s]
    by (auto simp: serve_vport_def handle_vport_cmd_def vport_cmd_new_def vport_cmd_del_def vport_cmd_get_def vport_cmd_dump_def handle_unknown_cmd_def
        split: if_splits)
  then show ?thesis using assms(1) by (simp add: answered_def handle_vswitchd_cmd_def)
qed

text \<open>
  The daemon is connected to the datapath: while it waits, the datapath takes its turns. The layout of messages in memory is
  such that every flow message of the right shape is read back, with any code of sixteen bits.
\<close>

definition connected :: "('w, 'h) senv \<Rightarrow> ('w \<Rightarrow> ring \<Rightarrow> nat list) \<Rightarrow> ('w \<Rightarrow> nat multiset) \<Rightarrow> ('w, 'h) link \<Rightarrow> bool" where
  "connected E rings pool K \<longleftrightarrow> fifo_ok (e_lib (se_io E)) rings pool \<and> lk_env K = E \<and> lk_other K = handle_request_from_vswitchd E"

definition flow_wire :: "('w, 'h) senv \<Rightarrow> bool" where
  "flow_wire E \<longleftrightarrow> (\<forall>c r. - 32768 \<le> c \<and> c < 32768 \<and> flow_message_ok r \<longrightarrow> reads_back E \<lparr>msg_type = c, msg_payload = FLOW_MSG r\<rparr>)"

lemma flow_transact_ok:
  assumes C: "connected E rings pool K" and W: "flow_wire E" and ok: "link_ok E rings pool (sw_dp s)"
    and r: "flow_message_ok r" "flow_message_ok reply" "c \<in> {0, ENOENT, EEXIST, EOF}"
    and sv: "serve_flow (se_hash E) (sw_time s) (r\<lparr>fm_id := lk_tid K\<rparr>) (sw_flow s) = Some (\<lparr>msg_type = c, msg_payload = FLOW_MSG reply\<rparr>, T)"
  shows "\<exists>s'. dpif_dpdk_flow_transact K r s = Some (c, Some reply, s') \<and> link_ok E rings pool (sw_dp s') \<and> sw_flow s' = T \<and>
    d_vports (sw_dp s') = d_vports (sw_dp s) \<and> sw_time s' = sw_time s"
proof -
  let ?r = "r\<lparr>fm_id := lk_tid K\<rparr>"
  let ?msg = "\<lparr>msg_type = FLOW_CMD_FAMILY, msg_payload = FLOW_MSG r\<rparr>" and ?msg' = "\<lparr>msg_type = FLOW_CMD_FAMILY, msg_payload = FLOW_MSG ?r\<rparr>"
  have K: "fifo_ok (e_lib (se_io E)) rings pool" "lk_env K = E" "lk_other K = handle_request_from_vswitchd E" using C by (simp_all add: connected_def)
  have f: "msg_type ?msg \<noteq> PACKET_CMD_FAMILY" "set_msg_id (lk_tid K) (msg_type ?msg) ?msg = Some ?msg'"
    by (simp_all add: FLOW_CMD_FAMILY_def PACKET_CMD_FAMILY_def set_msg_id_def)
  have e: "reads_back E ?msg'" "reads_back E \<lparr>msg_type = c, msg_payload = FLOW_MSG reply\<rparr>" "is_code (msg_type \<lparr>msg_type = c, msg_payload = FLOW_MSG reply\<rparr>)"
    using W r by (auto simp: flow_wire_def flow_message_ok_def is_code_def errno_defs FLOW_CMD_FAMILY_def VPORT_CMD_FAMILY_def)
  have "\<exists>s1 s2. dpdk_link_send K ?msg None s = Some (0, s1) \<and> dpdk_link_recv_reply K ?msg' s1 = Some (\<lparr>msg_type = c, msg_payload = FLOW_MSG reply\<rparr>, s2) \<and>
    link_ok E rings pool (sw_dp s2) \<and> sw_flow s2 = T \<and> d_vports (sw_dp s2) = d_vports (sw_dp s) \<and> sw_time s2 = sw_time s"
    using sv by (intro exchange_ok [OF K ok f e]) (metis answered_flow)
  then show ?thesis by (auto simp: dpif_dpdk_flow_transact_def)
qed

section \<open>Flows over the link\<close>

text \<open>The state between two operations: the tables are well-formed and all flows have the shape that a message has room for.\<close>

definition flows_shape :: "(flow_key \<rightharpoonup> action list \<times> flow_stats) \<Rightarrow> bool" where
  "flows_shape F \<longleftrightarrow> (\<forall>k a st. F k = Some (a, st) \<longrightarrow> key_shape k \<and> actions_shape a)"

definition flow_link :: "('w, 'h) senv \<Rightarrow> ('w \<Rightarrow> ring \<Rightarrow> nat list) \<Rightarrow> ('w \<Rightarrow> nat multiset) \<Rightarrow> ('h \<Rightarrow> flow_key \<rightharpoonup> nat) \<Rightarrow> ('w, 'h) switch \<Rightarrow> bool" where
  "flow_link E rings pool \<alpha> s \<longleftrightarrow> link_ok E rings pool (sw_dp s) \<and> flow_inv (se_hash E) \<alpha> (sw_flow s) \<and> cpu_freq (sw_time s) \<noteq> 0 \<and>
     flows_shape (flows \<alpha> (sw_flow s))"

lemma new_reply_message:
  assumes "flow_new_reply H now r T = Some (msg, T')"
  shows "\<exists>c st. msg = \<lparr>msg_type = c, msg_payload = FLOW_MSG (r\<lparr>fm_stats := st\<rparr>)\<rparr> \<and> c \<in> {0, ENOENT, EEXIST, EOF}"
proof -
  have same: "r\<lparr>fm_stats := fm_stats r\<rparr> = r" by simp
  show ?thesis using assms same by (auto simp: flow_new_reply_def split: if_splits Option.bind_splits option.splits) (metis same)+
qed

lemma del_reply_message:
  assumes "flow_del_reply H now r T = Some (msg, T')"
  shows "\<exists>c st. msg = \<lparr>msg_type = c, msg_payload = FLOW_MSG (r\<lparr>fm_stats := st\<rparr>)\<rparr> \<and> c \<in> {0, ENOENT, EEXIST, EOF}"
proof -
  have same: "r\<lparr>fm_stats := fm_stats r\<rparr> = r" by simp
  show ?thesis using assms same by (auto simp: flow_del_reply_def split: if_splits Option.bind_splits option.splits) (metis same)+
qed

lemma new_spec_shape:
  assumes "new_spec full r F c F'" "flow_message_ok r" "flows_shape F"
  shows "flows_shape F'"
proof -
  have "F' = F \<or> (\<exists>st. F' = F(fm_key r \<mapsto> (fm_actions r, st)))" using assms(1) by (auto simp: new_spec_def split: option.splits if_splits)
  moreover have "flows_shape (F(fm_key r \<mapsto> (fm_actions r, st)))" for st using assms(2,3) by (simp add: flows_shape_def flow_message_ok_def)
  ultimately show ?thesis using assms(3) by auto
qed

lemma del_spec_shape: "del_spec r F c F' \<Longrightarrow> flows_shape F \<Longrightarrow> flows_shape F'"
  by (auto simp: del_spec_def flows_shape_def split: if_splits)

lemma spec_id: "new_spec full (r\<lparr>fm_id := x\<rparr>) F c F' \<longleftrightarrow> new_spec full r F c F'" "del_spec (r\<lparr>fm_id := x\<rparr>) F c F' \<longleftrightarrow> del_spec r F c F'"
  by (simp_all add: new_spec_def del_spec_def split: option.split prod.split)

lemma put_transact:
  assumes C: "connected E rings pool K" and W: "flow_wire E" and s: "flow_link E rings pool \<alpha> s" and r: "flow_message_ok r" "fm_cmd r = CMD_NEW"
  shows "\<exists>c st s'. dpif_dpdk_flow_transact K r s = Some (c, Some (r\<lparr>fm_id := lk_tid K, fm_stats := st\<rparr>), s') \<and> flow_link E rings pool \<alpha> s' \<and>
    new_spec (hash_full (se_hash E) (sw_flow s) (fm_key r)) r (flows \<alpha> (sw_flow s)) c (flows \<alpha> (sw_flow s')) \<and> d_vports (sw_dp s') = d_vports (sw_dp s) \<and> sw_time s' = sw_time s"
proof -
  let ?r = "r\<lparr>fm_id := lk_tid K\<rparr>"
  have i: "flow_inv (se_hash E) \<alpha> (sw_flow s)" "cpu_freq (sw_time s) \<noteq> 0" "link_ok E rings pool (sw_dp s)" "flows_shape (flows \<alpha> (sw_flow s))"
    using s by (simp_all add: flow_link_def)
  obtain msg T where n: "flow_new_reply (se_hash E) (sw_time s) ?r (sw_flow s) = Some (msg, T)" "flow_inv (se_hash E) \<alpha> T"
    "new_spec (hash_full (se_hash E) (sw_flow s) (fm_key ?r)) ?r (flows \<alpha> (sw_flow s)) (msg_type msg) (flows \<alpha> T)" using flow_new_reply_spec [OF i(1,2)] by blast
  obtain c st where m: "msg = \<lparr>msg_type = c, msg_payload = FLOW_MSG (?r\<lparr>fm_stats := st\<rparr>)\<rparr>" "c \<in> {0, ENOENT, EEXIST, EOF}" using new_reply_message [OF n(1)] by blast
  have sv: "serve_flow (se_hash E) (sw_time s) ?r (sw_flow s) = Some (\<lparr>msg_type = c, msg_payload = FLOW_MSG (?r\<lparr>fm_stats := st\<rparr>)\<rparr>, T)"
    using n(1) m(1) r(2) by (simp add: serve_flow_def)
  have "flow_message_ok (?r\<lparr>fm_stats := st\<rparr>)" using r(1) by (simp add: flow_message_ok_def)
  from flow_transact_ok [OF C W i(3) r(1) this m(2) sv] obtain s' where s': "dpif_dpdk_flow_transact K r s = Some (c, Some (?r\<lparr>fm_stats := st\<rparr>), s')"
    "link_ok E rings pool (sw_dp s')" "sw_flow s' = T" "d_vports (sw_dp s') = d_vports (sw_dp s)" "sw_time s' = sw_time s" by blast
  have "new_spec (hash_full (se_hash E) (sw_flow s) (fm_key r)) r (flows \<alpha> (sw_flow s)) c (flows \<alpha> T)" using n(3) m(1) by (simp add: spec_id)
  then show ?thesis using s' n(2) i(2,4) new_spec_shape [OF _ r(1) i(4)] by (auto simp: flow_link_def)
qed

lemma del_transact:
  assumes C: "connected E rings pool K" and W: "flow_wire E" and s: "flow_link E rings pool \<alpha> s" and r: "flow_message_ok r" "fm_cmd r = CMD_DEL"
  shows "\<exists>c st s'. dpif_dpdk_flow_transact K r s = Some (c, Some (r\<lparr>fm_id := lk_tid K, fm_stats := st\<rparr>), s') \<and> flow_link E rings pool \<alpha> s' \<and>
    del_spec r (flows \<alpha> (sw_flow s)) c (flows \<alpha> (sw_flow s')) \<and> d_vports (sw_dp s') = d_vports (sw_dp s) \<and> sw_time s' = sw_time s"
proof -
  let ?r = "r\<lparr>fm_id := lk_tid K\<rparr>"
  have i: "flow_inv (se_hash E) \<alpha> (sw_flow s)" "cpu_freq (sw_time s) \<noteq> 0" "link_ok E rings pool (sw_dp s)" "flows_shape (flows \<alpha> (sw_flow s))"
    using s by (simp_all add: flow_link_def)
  obtain msg T where n: "flow_del_reply (se_hash E) (sw_time s) ?r (sw_flow s) = Some (msg, T)" "flow_inv (se_hash E) \<alpha> T"
    "del_spec ?r (flows \<alpha> (sw_flow s)) (msg_type msg) (flows \<alpha> T)" using flow_del_reply_spec [OF i(1,2)] by blast
  obtain c st where m: "msg = \<lparr>msg_type = c, msg_payload = FLOW_MSG (?r\<lparr>fm_stats := st\<rparr>)\<rparr>" "c \<in> {0, ENOENT, EEXIST, EOF}" using del_reply_message [OF n(1)] by blast
  have sv: "serve_flow (se_hash E) (sw_time s) ?r (sw_flow s) = Some (\<lparr>msg_type = c, msg_payload = FLOW_MSG (?r\<lparr>fm_stats := st\<rparr>)\<rparr>, T)"
    using n(1) m(1) r(2) by (simp add: serve_flow_def CMD_DEL_def CMD_NEW_def)
  have "flow_message_ok (?r\<lparr>fm_stats := st\<rparr>)" using r(1) by (simp add: flow_message_ok_def)
  from flow_transact_ok [OF C W i(3) r(1) this m(2) sv] obtain s' where s': "dpif_dpdk_flow_transact K r s = Some (c, Some (?r\<lparr>fm_stats := st\<rparr>), s')"
    "link_ok E rings pool (sw_dp s')" "sw_flow s' = T" "d_vports (sw_dp s') = d_vports (sw_dp s)" "sw_time s' = sw_time s" by blast
  have "del_spec r (flows \<alpha> (sw_flow s)) c (flows \<alpha> T)" using n(3) m(1) by (simp add: spec_id)
  then show ?thesis using s' n(2) i(2,4) del_spec_shape [OF _ i(4)] by (auto simp: flow_link_def)
qed

lemma get_transact:
  assumes C: "connected E rings pool K" and W: "flow_wire E" and s: "flow_link E rings pool \<alpha> s"
    and r: "flow_message_ok r" "fm_cmd r = CMD_GET" "fm_flags r = 0"
  shows "\<exists>s'. flow_link E rings pool \<alpha> s' \<and> sw_flow s' = sw_flow s \<and>
    (case flows \<alpha> (sw_flow s) (fm_key r) of
       None \<Rightarrow> dpif_dpdk_flow_transact K r s = Some (ENOENT, Some (r\<lparr>fm_id := lk_tid K\<rparr>), s')
     | Some (a, st) \<Rightarrow> \<exists>u. dpif_dpdk_flow_transact K r s =
         Some (0, Some (r\<lparr>fm_id := lk_tid K, fm_actions := a, fm_stats := st\<lparr>used := u\<rparr>\<rparr>), s') \<and> (used st = 0 \<longrightarrow> u = 0))"
proof -
  let ?r = "r\<lparr>fm_id := lk_tid K\<rparr>" let ?T = "sw_flow s" let ?now = "sw_time s"
  have i: "flow_inv (se_hash E) \<alpha> ?T" "cpu_freq ?now \<noteq> 0" "link_ok E rings pool (sw_dp s)" "flows_shape (flows \<alpha> ?T)"
    using s by (simp_all add: flow_link_def)
  have sv: "serve_flow (se_hash E) ?now ?r ?T = map_option (\<lambda>msg. (msg, ?T)) (flow_get_reply (se_hash E) ?now ?T ?r)"
    using r(2,3) by (simp add: serve_flow_def CMD_GET_def CMD_NEW_def CMD_DEL_def)
  have link: "flow_link E rings pool \<alpha> s'" if "link_ok E rings pool (sw_dp s')" "sw_flow s' = ?T" "sw_time s' = ?now" for s'
    using that i by (simp add: flow_link_def)
  show ?thesis
  proof (cases "\<alpha> (handle ?T) (fm_key r)")
    case None
    then have "serve_flow (se_hash E) ?now ?r ?T = Some (\<lparr>msg_type = ENOENT, msg_payload = FLOW_MSG ?r\<rparr>, ?T)"
      using sv by (simp add: flow_get_reply_def get_flow_eq [OF i(1,2)])
    moreover have "flow_message_ok ?r" using r(1) by (simp add: flow_message_ok_def)
    ultimately have "\<exists>s'. dpif_dpdk_flow_transact K r s = Some (ENOENT, Some ?r, s') \<and> link_ok E rings pool (sw_dp s') \<and> sw_flow s' = ?T \<and>
      d_vports (sw_dp s') = d_vports (sw_dp s) \<and> sw_time s' = ?now" by (intro flow_transact_ok [OF C W i(3) r(1)]) simp_all
    moreover have "flows \<alpha> ?T (fm_key r) = None" using None by (simp add: flows_def)
    ultimately show ?thesis using link by auto
  next
    case (Some p)
    let ?e = "flow_table ?T p"
    define u where "u = used (snd (snd (reported ?now ?e)))"
    have rep: "reported ?now ?e = (fe_key ?e, fe_actions ?e, (fe_stats ?e)\<lparr>used := u\<rparr>)" by (simp add: u_def reported_def)
    have u0: "used (fe_stats ?e) = 0 \<Longrightarrow> u = 0" by (simp add: u_def reported_def)
    have F: "flows \<alpha> ?T (fm_key r) = Some (fe_actions ?e, fe_stats ?e)" using Some by (simp add: flows_def)
    let ?reply = "?r\<lparr>fm_actions := fe_actions ?e, fm_stats := (fe_stats ?e)\<lparr>used := u\<rparr>\<rparr>"
    have "serve_flow (se_hash E) ?now ?r ?T = Some (\<lparr>msg_type = 0, msg_payload = FLOW_MSG ?reply\<rparr>, ?T)"
      using sv by (simp add: flow_get_reply_def get_flow_eq [OF i(1,2)] Some rep)
    moreover have "flow_message_ok ?reply" using r(1) i(4) F by (auto simp: flow_message_ok_def flows_shape_def)
    ultimately have "\<exists>s'. dpif_dpdk_flow_transact K r s = Some (0, Some ?reply, s') \<and> link_ok E rings pool (sw_dp s') \<and> sw_flow s' = ?T \<and>
      d_vports (sw_dp s') = d_vports (sw_dp s) \<and> sw_time s' = ?now" by (intro flow_transact_ok [OF C W i(3) r(1)]) simp_all
    then show ?thesis using link F u0 by auto
  qed
qed

section \<open>A dump of the flows\<close>

text \<open>
  What a client of a dump gets for a flow: the attributes of the key, those of the actions, and the statistics; the calls until
  it gets an error, at most \<open>n\<close> of them, and the error.
\<close>

type_synonym dumped = "bytes \<times> bytes \<times> dpif_flow_stats"

fun dump_run :: "junk \<Rightarrow> ('w, 'h) link \<Rightarrow> nat \<Rightarrow> dpif_dpdk_flow_state \<Rightarrow> ('w, 'h) switch \<Rightarrow> (dumped list \<times> int option \<times> ('w, 'h) switch) option" where
  "dump_run junk K 0 state s = Some ([], None, s)"
| "dump_run junk K (Suc n) state s = do {
     (error, state, s) \<leftarrow> dpif_dpdk_flow_dump_next junk K state s;
     if error \<noteq> 0 then Some ([], Some error, s)
     else do {
       (ds, e, s) \<leftarrow> dump_run junk K n state s;
       Some ((contents (ds_key_buf state), contents (ds_actions_buf state), ds_stats state) # ds, e, s) } }"

text \<open>
  What a client is to get for the flow of the key \<open>k\<close>: attributes that the daemon reads as that key (as far as attributes can say
  it), attributes that it reads as the actions up to the terminating one, the counters, and the time of the last use.
\<close>

definition shows_flow :: "dp_time \<Rightarrow> (flow_key \<rightharpoonup> action list \<times> flow_stats) \<Rightarrow> flow_key \<Rightarrow> dumped \<Rightarrow> bool" where
  "shows_flow now F k d \<longleftrightarrow> (case d of (key, actions, stats) \<Rightarrow> \<exists>a fs xs. F k = Some (a, fs) \<and> xs = takeWhile (\<lambda>x. x \<noteq> ACTION_NULL) a \<and>
     key = attrs_bytes (flow_attrs (dpif_dpdk_flow_key_to_flow k) (in_port k)) \<and>
     (packet_key k \<longrightarrow> key_of_attrs key 0 (length key) = Some (norm_key k)) \<and>
     (ACTION_MAX \<notin> set xs \<longrightarrow> actions = attrs_bytes (map action_attr xs) \<and>
       (length xs < MAX_ACTIONS \<longrightarrow> dpif_dpdk_create_actions zero_actions actions (Some 0) (of_nat (length actions)) = Some (action_array xs))) \<and>
     n_packets stats = packet_count fs \<and> n_bytes stats = byte_count fs \<and> fs_tcp_flags stats = tcp_flags fs \<and>
     fs_used stats = (if used fs = 0 then 0
       else tv_sec now * 1000 + tv_nsec now div 1000000 - (curr_tsc now - used fs) * 1000 div cpu_freq now))"

lemma key_read_back:
  assumes "packet_key k"
  shows "key_of_attrs (attrs_bytes (flow_attrs (dpif_dpdk_flow_key_to_flow k) (in_port k))) 0
    (length (attrs_bytes (flow_attrs (dpif_dpdk_flow_key_to_flow k) (in_port k)))) = Some (norm_key k)"
proof -
  let ?g = "dpif_dpdk_flow_key_to_flow (norm_key k)" let ?as = "attrs_bytes (flow_attrs ?g (in_port k))"
  have "in_port k = fl_in_port ?g" by (simp add: to_flow_sel norm_key_def)
  with to_flow_ok [OF to_flow_flow_ok [OF assms], of "in_port k" ?as "[]" "[]"] have "odp_flow_key_to_flow ?as 0 (length ?as) = Some (key_fit ?g, ?g)" by simp
  moreover have "dpif_dpdk_flow_key_from_flow ?g = norm_key k" using key_from_to [OF norm_packet_key [OF assms]] by (simp add: norm_key_def)
  ultimately show ?thesis using norm_flow_attrs [of k "in_port k"] by (simp add: key_of_attrs_def)
qed

lemma puts_actions_prefix:
  assumes "\<forall>a \<in> set acts. action_shape a" "ACTION_MAX \<notin> set (takeWhile (\<lambda>x. x \<noteq> ACTION_NULL) acts)"
  shows "puts (put_actions junk acts) (attrs_bytes (map action_attr (takeWhile (\<lambda>x. x \<noteq> ACTION_NULL) acts)))"
  using assms
proof (induction acts)
  case (Cons a acts)
  show ?case
  proof (cases "a = ACTION_NULL")
    case True
    then show ?thesis by (simp add: puts_def)
  next
    case False
    then have "proper_action a" using Cons.prems by (cases a) auto
    moreover have "put_actions junk (a # acts) = (\<lambda>b. Option.bind (put_action junk a b) (put_actions junk acts))" using False by (simp add: fun_eq_iff)
    ultimately show ?thesis using puts_bind [OF puts_action [of a junk] Cons.IH] Cons.prems False by (simp add: split_def)
  qed
qed (simp add: puts_def)

lemma put_actions_defined:
  assumes "\<forall>a \<in> set acts. action_shape a" "growable b"
  shows "\<exists>b'. put_actions junk acts b = Some b'"
  using assms
proof (induction acts arbitrary: b)
  case (Cons a acts)
  show ?case
  proof (cases "a = ACTION_NULL \<or> a = ACTION_MAX")
    case True
    then show ?thesis using Cons by auto
  next
    case False
    then have "proper_action a" using Cons.prems(1) by (cases a) auto
    then obtain b1 where "put_action junk a b = Some b1" "growable b1" using puts_action [of a junk] Cons.prems(2) by (auto simp: puts_def growable_def)
    then show ?thesis using Cons False by simp
  qed
qed simp

lemma dump_next_ok:
  assumes "dpif_dpdk_flow_transact K (ds_flow state) s = Some (0, Some reply, s')" "flow_message_ok reply"
  shows "\<exists>state'. dpif_dpdk_flow_dump_next junk K state s = Some (0, state', s') \<and> ds_flow state' = reply \<and>
    contents (ds_key_buf state') = attrs_bytes (flow_attrs (dpif_dpdk_flow_key_to_flow (fm_key reply)) (in_port (fm_key reply))) \<and>
    (ACTION_MAX \<notin> set (takeWhile (\<lambda>x. x \<noteq> ACTION_NULL) (fm_actions reply)) \<longrightarrow>
      contents (ds_actions_buf state') = attrs_bytes (map action_attr (takeWhile (\<lambda>x. x \<noteq> ACTION_NULL) (fm_actions reply)))) \<and>
    ds_stats state' = dpif_dpdk_flow_get_stats reply"
proof -
  let ?a = "fm_actions reply" let ?x = "takeWhile (\<lambda>x. x \<noteq> ACTION_NULL) ?a"
  have a: "take MAX_ACTIONS ?a = ?a" "\<forall>a \<in> set ?a. action_shape a" using assms(2) by (simp_all add: flow_message_ok_def actions_shape_def)
  obtain b where b: "put_actions junk ?a (ofpbuf_init junk 0) = Some b" using put_actions_defined [OF a(2) growable_init(1)] by blast
  have b': "contents b = attrs_bytes (map action_attr ?x)" if "ACTION_MAX \<notin> set ?x"
    using puts_actions_prefix [OF a(2) that, of junk] b growable_init [of junk] by (auto simp: puts_def)
  let ?f = "dpif_dpdk_flow_key_to_flow (fm_key reply)"
  have "fl_in_port ?f = in_port (fm_key reply)" by (simp add: to_flow_sel)
  then obtain key where "odp_flow_key_from_flow junk (ofpbuf_init junk 0) ?f (fl_in_port ?f) = Some key"
    "contents key = attrs_bytes (flow_attrs ?f (in_port (fm_key reply)))"
    using from_flow_puts [OF to_flow_sel(17,18), of junk "fm_key reply" "fl_in_port ?f"] growable_init [of junk] by (auto simp: puts_def growable_def)
  then show ?thesis using assms(1) a(1) b b' by (simp add: dpif_dpdk_flow_dump_next_def dpif_dpdk_flow_actions_to_actions_def)
qed

text \<open>The places of the flows from \<open>q\<close> on.\<close>

definition places :: "'h flow_state \<Rightarrow> nat \<Rightarrow> nat list" where
  "places T q = filter (\<lambda>p. fe_enabled (flow_table T p)) [q..<MAX_FLOWS]"

lemma places_find:
  "find_from q MAX_FLOWS (\<lambda>p. fe_enabled (flow_table T p)) = None \<Longrightarrow> places T q = []"
  "find_from q MAX_FLOWS (\<lambda>p. fe_enabled (flow_table T p)) = Some p \<Longrightarrow> places T q = p # places T (Suc p)"
proof -
  show "find_from q MAX_FLOWS (\<lambda>p. fe_enabled (flow_table T p)) = None \<Longrightarrow> places T q = []"
    by (auto simp: places_def find_from_None_iff filter_empty_conv)
  assume "find_from q MAX_FLOWS (\<lambda>p. fe_enabled (flow_table T p)) = Some p"
  then have p: "q \<le> p" "p < MAX_FLOWS" "fe_enabled (flow_table T p)" "\<forall>j. q \<le> j \<and> j < p \<longrightarrow> \<not> fe_enabled (flow_table T j)"
    by (simp_all add: find_from_Some_iff)
  have "[q..<MAX_FLOWS] = [q..<p] @ p # [Suc p..<MAX_FLOWS]" using p(1,2) upt_add_eq_append [of q p "MAX_FLOWS - p"] upt_conv_Cons [of p MAX_FLOWS] by simp
  moreover have "filter (\<lambda>p. fe_enabled (flow_table T p)) [q..<p] = []" using p(4) by (auto simp: filter_empty_conv)
  ultimately show "places T q = p # places T (Suc p)" using p(3) by (simp add: places_def)
qed

text \<open>A request that is answered with the first flow from the place \<open>q\<close> on.\<close>

definition asks :: "('h \<Rightarrow> flow_key \<rightharpoonup> nat) \<Rightarrow> 'h flow_state \<Rightarrow> nat \<Rightarrow> dpdk_flow_message \<Rightarrow> bool" where
  "asks \<alpha> T q r \<longleftrightarrow> flow_message_ok r \<and> fm_cmd r = CMD_GET \<and> fm_flags r = FLAG_DUMP \<and>
     (fm_key r = zero_key \<and> q = 0 \<or> (\<exists>p. fm_key r \<noteq> zero_key \<and> \<alpha> (handle T) (fm_key r) = Some p \<and> q = Suc p))"

lemma dump_transact:
  assumes C: "connected E rings pool K" and W: "flow_wire E" and s: "flow_link E rings pool \<alpha> s" and r: "asks \<alpha> (sw_flow s) q r"
    and z: "flows \<alpha> (sw_flow s) zero_key = None"
  shows "\<exists>s'. flow_link E rings pool \<alpha> s' \<and> sw_flow s' = sw_flow s \<and> sw_time s' = sw_time s \<and>
    (case places (sw_flow s) q of
       [] \<Rightarrow> \<exists>reply. dpif_dpdk_flow_transact K r s = Some (EOF, Some reply, s')
     | p # ps \<Rightarrow> (\<exists>reply. dpif_dpdk_flow_transact K r s = Some (0, Some reply, s') \<and>
         (fm_key reply, fm_actions reply, fm_stats reply) = reported (sw_time s) (flow_table (sw_flow s) p) \<and> asks \<alpha> (sw_flow s) (Suc p) reply \<and> ps = places (sw_flow s) (Suc p)))"
proof -
  let ?r = "r\<lparr>fm_id := lk_tid K\<rparr>" let ?T = "sw_flow s" let ?now = "sw_time s"
  have i: "flow_inv (se_hash E) \<alpha> ?T" "cpu_freq ?now \<noteq> 0" "link_ok E rings pool (sw_dp s)" "flows_shape (flows \<alpha> ?T)"
    using s by (simp_all add: flow_link_def)
  have link: "flow_link E rings pool \<alpha> s'" if "link_ok E rings pool (sw_dp s')" "sw_flow s' = ?T" "sw_time s' = ?now" for s'
    using that i by (simp add: flow_link_def)
  have ok: "flow_message_ok r" "fm_cmd r = CMD_GET" "fm_flags r = FLAG_DUMP" using r by (simp_all add: asks_def)
  have "FLAG_DUMP AND FLAG_DUMP \<noteq> 0" by (simp add: FLAG_DUMP_def)
  then have sv: "serve_flow (se_hash E) ?now ?r ?T = map_option (\<lambda>msg. (msg, ?T)) (flow_dump_reply (se_hash E) ?now ?T ?r)"
    using ok(2,3) by (simp add: serve_flow_def CMD_GET_def CMD_NEW_def CMD_DEL_def)
  have src: "(if fm_key ?r = zero_key then flow_table_get_first_flow ?now ?T else flow_table_get_next_flow (se_hash E) ?now (fm_key ?r) ?T) = copy_next_from ?now q ?T"
    using r get_next_flow_present [OF i(1)] by (auto simp: asks_def flow_table_get_first_flow_def)
  show ?thesis
  proof (cases "find_from q MAX_FLOWS (\<lambda>p. fe_enabled (flow_table ?T p))")
    case None
    then have "flow_dump_reply (se_hash E) ?now ?T ?r = Some \<lparr>msg_type = EOF, msg_payload = FLOW_MSG ?r\<rparr>"
      unfolding flow_dump_reply_def src by (simp add: copy_next_from_def)
    then have "serve_flow (se_hash E) ?now ?r ?T = Some (\<lparr>msg_type = EOF, msg_payload = FLOW_MSG ?r\<rparr>, ?T)" using sv by simp
    moreover have "flow_message_ok ?r" using ok(1) by (simp add: flow_message_ok_def)
    ultimately have "\<exists>s'. dpif_dpdk_flow_transact K r s = Some (EOF, Some ?r, s') \<and> link_ok E rings pool (sw_dp s') \<and> sw_flow s' = ?T \<and>
      d_vports (sw_dp s') = d_vports (sw_dp s) \<and> sw_time s' = ?now" by (intro flow_transact_ok [OF C W i(3) ok(1)]) simp_all
    then show ?thesis using link places_find(1) [OF None] by auto
  next
    case (Some p)
    let ?e = "flow_table ?T p"
    have p: "p < MAX_FLOWS" "fe_enabled ?e" using Some by (auto simp: find_from_Some_iff)
    have al: "\<alpha> (handle ?T) (fe_key ?e) = Some p" by (rule enabled_alpha [OF i(1) p])
    then have F: "flows \<alpha> ?T (fe_key ?e) = Some (fe_actions ?e, fe_stats ?e)" by (simp add: flows_def)
    obtain st where rep: "reported ?now ?e = (fe_key ?e, fe_actions ?e, st)" by (simp add: reported_def)
    let ?reply = "?r\<lparr>fm_actions := fe_actions ?e, fm_key := fe_key ?e, fm_stats := st\<rparr>"
    have "flow_dump_reply (se_hash E) ?now ?T ?r = Some \<lparr>msg_type = 0, msg_payload = FLOW_MSG ?reply\<rparr>"
      unfolding flow_dump_reply_def src using copy_entry_enabled [OF i(2), of ?T p] p(2) by (simp add: copy_next_from_def Some rep)
    then have sv': "serve_flow (se_hash E) ?now ?r ?T = Some (\<lparr>msg_type = 0, msg_payload = FLOW_MSG ?reply\<rparr>, ?T)" using sv by simp
    have m: "flow_message_ok ?reply" using i(4) F by (auto simp: flow_message_ok_def flows_shape_def)
    have "\<exists>s'. dpif_dpdk_flow_transact K r s = Some (0, Some ?reply, s') \<and> link_ok E rings pool (sw_dp s') \<and> sw_flow s' = ?T \<and>
      d_vports (sw_dp s') = d_vports (sw_dp s) \<and> sw_time s' = ?now" using sv' m by (intro flow_transact_ok [OF C W i(3) ok(1)]) simp_all
    moreover have "fe_key ?e \<noteq> zero_key" using F z by auto
    then have "asks \<alpha> ?T (Suc p) ?reply" using m ok al by (auto simp: asks_def)
    ultimately show ?thesis using link places_find(2) [OF Some] rep by auto
  qed
qed

lemma shows_reply:
  assumes i: "flow_inv H \<alpha> T" and p: "p < MAX_FLOWS" "fe_enabled (flow_table T p)"
    and r: "(fm_key reply, fm_actions reply, fm_stats reply) = reported now (flow_table T p)" "flow_message_ok reply"
    and d: "key = attrs_bytes (flow_attrs (dpif_dpdk_flow_key_to_flow (fm_key reply)) (in_port (fm_key reply)))"
      "ACTION_MAX \<notin> set (takeWhile (\<lambda>x. x \<noteq> ACTION_NULL) (fm_actions reply)) \<longrightarrow>
        actions = attrs_bytes (map action_attr (takeWhile (\<lambda>x. x \<noteq> ACTION_NULL) (fm_actions reply)))"
  shows "shows_flow now (flows \<alpha> T) (fe_key (flow_table T p)) (key, actions, dpif_dpdk_flow_get_stats reply)"
proof -
  let ?e = "flow_table T p" let ?xs = "takeWhile (\<lambda>x. x \<noteq> ACTION_NULL) (fe_actions ?e)"
  have F: "flows \<alpha> T (fe_key ?e) = Some (fe_actions ?e, fe_stats ?e)" using enabled_alpha [OF i p] by (simp add: flows_def)
  have k: "fm_key reply = fe_key ?e" "fm_actions reply = fe_actions ?e" using r(1) by (simp_all add: reported_def)
  have "length ?xs \<le> MAX_ACTIONS" using length_takeWhile_le [of _ "fe_actions ?e"] r(2) k(2) by (simp add: flow_message_ok_def actions_shape_def)
  moreover have "proper_action x" if "x \<in> set ?xs" "ACTION_MAX \<notin> set ?xs" for x
  proof -
    have "x \<in> set (fe_actions ?e)" "x \<noteq> ACTION_NULL" using set_takeWhileD [OF that(1)] by simp_all
    then have "action_shape x" "x \<noteq> ACTION_NULL" "x \<noteq> ACTION_MAX" using r(2) k(2) that by (auto simp: flow_message_ok_def actions_shape_def)
    then show ?thesis by (cases x) simp_all
  qed
  ultimately have "dpif_dpdk_create_actions zero_actions actions (Some 0) (of_nat (length actions)) = Some (action_array ?xs)"
    if "ACTION_MAX \<notin> set ?xs" "length ?xs < MAX_ACTIONS"
    using create_actions_ok [of actions "[]" ?xs "[]"] d(2) k(2) that by simp
  then show ?thesis using F d k key_read_back [of "fe_key ?e"] r(1)
    by (simp add: shows_flow_def dpif_dpdk_flow_get_stats_def reported_def)
qed

lemma dump_run_ok:
  assumes C: "connected E rings pool K" and W: "flow_wire E" and s: "flow_link E rings pool \<alpha> s" and r: "asks \<alpha> (sw_flow s) q (ds_flow state)"
    and z: "flows \<alpha> (sw_flow s) zero_key = None" and n: "length (places (sw_flow s) q) < n"
  shows "\<exists>ds s'. dump_run junk K n state s = Some (ds, Some EOF, s') \<and> flow_link E rings pool \<alpha> s' \<and> sw_flow s' = sw_flow s \<and>
    list_all2 (\<lambda>p. shows_flow (sw_time s) (flows \<alpha> (sw_flow s)) (fe_key (flow_table (sw_flow s) p))) (places (sw_flow s) q) ds"
  using s r z n
proof (induction n arbitrary: q state s)
  case (Suc n)
  let ?T = "sw_flow s" let ?F = "flows \<alpha> ?T"
  obtain s1 where s1: "flow_link E rings pool \<alpha> s1" "sw_flow s1 = ?T" "sw_time s1 = sw_time s" and t: "case places ?T q of
       [] \<Rightarrow> \<exists>reply. dpif_dpdk_flow_transact K (ds_flow state) s = Some (EOF, Some reply, s1)
     | p # ps \<Rightarrow> (\<exists>reply. dpif_dpdk_flow_transact K (ds_flow state) s = Some (0, Some reply, s1) \<and>
         (fm_key reply, fm_actions reply, fm_stats reply) = reported (sw_time s) (flow_table ?T p) \<and> asks \<alpha> ?T (Suc p) reply \<and> ps = places ?T (Suc p))"
    using dump_transact [OF C W Suc.prems(1-3)] by blast
  show ?case
  proof (cases "places ?T q")
    case Nil
    then obtain reply where "dpif_dpdk_flow_transact K (ds_flow state) s = Some (EOF, Some reply, s1)" using t by auto
    then show ?thesis using Nil s1 by (simp add: dpif_dpdk_flow_dump_next_def EOF_def)
  next
    case (Cons p ps)
    then obtain reply where reply: "dpif_dpdk_flow_transact K (ds_flow state) s = Some (0, Some reply, s1)"
      "(fm_key reply, fm_actions reply, fm_stats reply) = reported (sw_time s) (flow_table ?T p)" "asks \<alpha> ?T (Suc p) reply" "ps = places ?T (Suc p)" using t by auto
    have ok: "flow_message_ok reply" using reply(3) by (simp add: asks_def)
    have "p \<in> set (places ?T q)" using Cons by simp
    then have p: "p < MAX_FLOWS" "fe_enabled (flow_table ?T p)" by (simp_all add: places_def)
    have inv: "flow_inv (se_hash E) \<alpha> ?T" using Suc.prems(1) by (simp add: flow_link_def)
    obtain state1 where state1: "dpif_dpdk_flow_dump_next junk K state s = Some (0, state1, s1)" "ds_flow state1 = reply"
      "shows_flow (sw_time s) ?F (fe_key (flow_table ?T p)) (contents (ds_key_buf state1), contents (ds_actions_buf state1), ds_stats state1)"
      using dump_next_ok [OF reply(1) ok, of junk] shows_reply [OF inv p reply(2) ok] by auto
    obtain ds s2 where ds: "dump_run junk K n state1 s1 = Some (ds, Some EOF, s2)" "flow_link E rings pool \<alpha> s2" "sw_flow s2 = ?T"
      "list_all2 (\<lambda>p. shows_flow (sw_time s) ?F (fe_key (flow_table ?T p))) ps ds"
      using Suc.IH [OF s1(1), of "Suc p" state1] s1(2,3) Suc.prems(3,4) Cons state1(2) reply(3,4) by auto
    show ?thesis using state1 ds Cons by simp
  qed
qed simp

lemma places_flows:
  assumes "flow_inv H \<alpha> T"
  shows "distinct (map (\<lambda>p. fe_key (flow_table T p)) (places T 0))" "(\<lambda>p. fe_key (flow_table T p)) ` set (places T 0) = dom (flows \<alpha> T)"
proof -
  have al: "\<alpha> (handle T) (fe_key (flow_table T p)) = Some p" if "p \<in> set (places T 0)" for p
    using enabled_alpha [OF assms, of p] that by (simp add: places_def)
  then show "distinct (map (\<lambda>p. fe_key (flow_table T p)) (places T 0))"
    by (auto simp: distinct_map places_def inj_on_def) (metis option.inject)
  have "k \<in> (\<lambda>p. fe_key (flow_table T p)) ` set (places T 0)" if "\<alpha> (handle T) k = Some p" for k p
    using flow_inv_entry [OF assms that] by (auto simp: places_def intro!: image_eqI [of _ _ p])
  then show "(\<lambda>p. fe_key (flow_table T p)) ` set (places T 0) = dom (flows \<alpha> T)" using al by (auto simp: flows_def dom_def)
qed

section \<open>Ports over the link\<close>

definition vport_wire :: "('w, 'h) senv \<Rightarrow> bool" where
  "vport_wire E \<longleftrightarrow> (\<forall>c r. - 32768 \<le> c \<and> c < 32768 \<and> vport_message_ok r \<longrightarrow> reads_back E \<lparr>msg_type = c, msg_payload = VPORT_MSG r\<rparr>)"

lemma vport_transact_ok:
  assumes C: "connected E rings pool K" and W: "vport_wire E" and ok: "link_ok E rings pool (sw_dp s)"
    and r: "vport_message_ok r" "vport_message_ok reply" "c \<in> {0, ENODEV, EBUSY, EOF}"
    and sv: "serve_vport (e_cfg (se_io E)) (se_max_lcore E) (request_counted E (d_stats (sw_dp s))) (r\<lparr>vm_id := lk_tid K\<rparr>) (d_vports (sw_dp s)) =
      Some (\<lparr>msg_type = c, msg_payload = VPORT_MSG reply\<rparr>, t)"
  shows "\<exists>s'. dpif_dpdk_vport_transact K r s = Some (c, Some reply, s') \<and> link_ok E rings pool (sw_dp s') \<and> sw_flow s' = sw_flow s \<and>
    d_vports (sw_dp s') = t \<and> sw_time s' = sw_time s"
proof -
  let ?r = "r\<lparr>vm_id := lk_tid K\<rparr>"
  let ?msg = "\<lparr>msg_type = VPORT_CMD_FAMILY, msg_payload = VPORT_MSG r\<rparr>" and ?msg' = "\<lparr>msg_type = VPORT_CMD_FAMILY, msg_payload = VPORT_MSG ?r\<rparr>"
  have K: "fifo_ok (e_lib (se_io E)) rings pool" "lk_env K = E" "lk_other K = handle_request_from_vswitchd E" using C by (simp_all add: connected_def)
  have f: "msg_type ?msg \<noteq> PACKET_CMD_FAMILY" "set_msg_id (lk_tid K) (msg_type ?msg) ?msg = Some ?msg'"
    by (simp_all add: VPORT_CMD_FAMILY_def FLOW_CMD_FAMILY_def PACKET_CMD_FAMILY_def set_msg_id_def)
  have e: "reads_back E ?msg'" "reads_back E \<lparr>msg_type = c, msg_payload = VPORT_MSG reply\<rparr>" "is_code (msg_type \<lparr>msg_type = c, msg_payload = VPORT_MSG reply\<rparr>)"
    using W r by (auto simp: vport_wire_def vport_message_ok_def is_code_def errno_defs FLOW_CMD_FAMILY_def VPORT_CMD_FAMILY_def)
  have "\<exists>s1 s2. dpdk_link_send K ?msg None s = Some (0, s1) \<and> dpdk_link_recv_reply K ?msg' s1 = Some (\<lparr>msg_type = c, msg_payload = VPORT_MSG reply\<rparr>, s2) \<and>
    link_ok E rings pool (sw_dp s2) \<and> sw_flow s2 = sw_flow s \<and> d_vports (sw_dp s2) = t \<and> sw_time s2 = sw_time s"
    using sv by (intro exchange_ok [OF K ok f e]) (metis answered_vport)
  then show ?thesis by (auto simp: dpif_dpdk_vport_transact_def)
qed

lemma port_types_inverse:
  assumes "dpif_dpdk_odport_type x = ty" "ty \<noteq> VPORT_TYPE_DISABLED"
  shows "dpif_dpdk_ofport_type ty = Inr x" "ty \<noteq> VPORT_TYPE_VSWITCHD"
proof -
  have short: "take 32 x = take 32 y \<Longrightarrow> length y < 32 \<Longrightarrow> x = y" for y :: string
    by (metis linorder_not_less min.absorb2 order_less_imp_le take_all_iff length_take min_def)
  have s: "strncmp_eq x y DPDK_PORT_MAX_STRING_LEN \<longleftrightarrow> x = y" if "length y < 32" for y
    using short [of y] that by (auto simp: strncmp_eq_def DPDK_PORT_MAX_STRING_LEN_def)
  show "dpif_dpdk_ofport_type ty = Inr x" "ty \<noteq> VPORT_TYPE_VSWITCHD"
    using assms by (auto simp: dpif_dpdk_odport_type_def dpif_dpdk_ofport_type_def s Let_def split: if_splits)
qed

text \<open>
  A port that a new request enables is one of the type that was asked for. It is refused when all ports of the type are enabled,
  or when the port with the number that was asked for is.
\<close>

lemma new_reply_ok:
  assumes cfg: "cfg_ok cfg" and t: "vports_ok cfg t" and n: "CHR ''%'' \<notin> set (vm_port_name r)"
    and ty: "vm_type r \<notin> {VPORT_TYPE_DISABLED, VPORT_TYPE_VSWITCHD, VPORT_TYPE_BRIDGE}"
  shows "(\<exists>p. vport_new_reply cfg r t = Some (\<lparr>msg_type = 0, msg_payload = VPORT_MSG (r\<lparr>vm_port_no := of_nat p\<rparr>)\<rparr>,
        vport_set_name p (vm_port_name r) (vport_enable p t)) \<and> vport_exists t p \<and> vi_type (t p) = vm_type r) \<or>
      (\<exists>c. vport_new_reply cfg r t = Some (\<lparr>msg_type = c, msg_payload = VPORT_MSG r\<rparr>, t) \<and>
        (c = ENODEV \<and> (\<forall>i. vport_get_type t i = vm_type r \<longrightarrow> vport_is_enabled t i) \<or>
         c = EBUSY \<and> vport_is_enabled t (unat (if vm_type r = VPORT_TYPE_PHY then vm_port_no r + of_nat PHYPORT0 else vm_port_no r))))"
proof -
  let ?no = "if vm_type r = VPORT_TYPE_PHY then vm_port_no r + of_nat PHYPORT0 else vm_port_no r"
  let ?q = "vport_next_available_index cfg t (vm_type r)"
  have "(if vport_exists t i then vport_id_is_valid t i (vm_type r) else Some False) \<noteq> None" for i
    by (auto simp: vport_exists_def vport_id_is_valid_def)
  then obtain v where v: "(if vport_exists t (unat ?no) then vport_id_is_valid t (unat ?no) (vm_type r) else Some False) = Some v" by blast
  let ?p = "if v then unat ?no else ?q"
  have reply: "vport_new_reply cfg r t = (if vport_exists t ?p then
      if \<not> vport_is_enabled t ?p then Some (\<lparr>msg_type = 0, msg_payload = VPORT_MSG (r\<lparr>vm_port_no := of_nat ?p\<rparr>)\<rparr>, vport_set_name ?p (vm_port_name r) (vport_enable ?p t))
      else Some (\<lparr>msg_type = EBUSY, msg_payload = VPORT_MSG r\<rparr>, t)
    else Some (\<lparr>msg_type = ENODEV, msg_payload = VPORT_MSG r\<rparr>, t))"
    unfolding vport_new_reply_def Let_def v using n ty by simp
  have valid: "vport_exists t (unat ?no)" "vi_type (t (unat ?no)) = vm_type r" if v
    using v ty that by (auto simp: vport_id_is_valid_def split: if_splits)
  consider (asked) v | (none) "\<not> v" "?q = MAX_VPORTS" "\<forall>i. vport_get_type t i = vm_type r \<longrightarrow> vport_is_enabled t i"
    | (free) "\<not> v" "vport_id_is_valid t ?q (vm_type r) = Some True" "vport_exists t ?q" "\<not> vport_is_enabled t ?q"
    using vport_next_available_index_first [OF cfg t ty refl] by blast
  then show ?thesis
  proof cases
    case asked
    show ?thesis
    proof (cases "vport_is_enabled t (unat ?no)")
      case True
      then show ?thesis using reply valid(1) asked by (intro disjI2 exI [of _ EBUSY]) simp
    next
      case False
      then show ?thesis using reply valid asked by (intro disjI1 exI [of _ "unat ?no"]) simp
    qed
  next
    case none
    then show ?thesis using reply by (intro disjI2 exI [of _ ENODEV]) (simp add: vport_exists_def)
  next
    case free
    moreover have "vi_type (t ?q) = vm_type r" using free(2) ty by (auto simp: vport_id_is_valid_def split: if_splits)
    ultimately show ?thesis using reply by (intro disjI1 exI [of _ ?q]) simp
  qed
qed

text \<open>A query gives the name, the type and the number of a port that is enabled.\<close>

lemma query_ok:
  assumes C: "connected E rings pool K" and W: "vport_wire E" and ok: "link_ok E rings pool (sw_dp s)"
    and p: "vport_exists (d_vports (sw_dp s)) p" "vport_is_enabled (d_vports (sw_dp s)) p" "p < MAX_VPORTS"
    and n: "vi_name (d_vports (sw_dp s) p) = name" "length name < 32" "CHR 0x00 \<notin> set name"
    and ty: "dpif_dpdk_ofport_type (vi_type (d_vports (sw_dp s) p)) = Inr type"
    and r: "vport_message_ok r" "vm_cmd r = CMD_GET" "vm_flags r = 0"
      "(if unat (vm_port_no r) = UINT32_MAX then vport_name_to_portid (d_vports (sw_dp s)) (vm_port_name r) else unat (vm_port_no r)) = p"
  shows "\<exists>s'. port_query K r s = Some (Inr \<lparr>pt_name = name, pt_type = type, pt_port_no = of_nat p\<rparr>, s') \<and> link_ok E rings pool (sw_dp s') \<and>
    d_vports (sw_dp s') = d_vports (sw_dp s) \<and> sw_flow s' = sw_flow s \<and> sw_time s' = sw_time s"
proof -
  let ?t = "d_vports (sw_dp s)" let ?st = "request_counted E (d_stats (sw_dp s))" let ?r = "r\<lparr>vm_id := lk_tid K\<rparr>"
  let ?reply = "?r\<lparr>vm_port_no := of_nat p, vm_stats := stats_vport_get (se_max_lcore E) p ?st, vm_type := vi_type (?t p), vm_port_name := name\<rparr>"
  have up: "unat (of_nat p :: u32) = p" using p(3) by (simp add: unat_of_nat MAX_VPORTS_def)
  have no: "vm_port_no r = of_nat p" if "unat (vm_port_no r) \<noteq> UINT32_MAX" using r(4) that by auto
  have "vport_get_reply (se_max_lcore E) ?st ?t ?r = \<lparr>msg_type = 0, msg_payload = VPORT_MSG ?reply\<rparr>"
  proof (cases "unat (vm_port_no r) = UINT32_MAX")
    case True
    then show ?thesis using r(4) p n(1,2) up by (simp add: vport_get_reply_def Let_def vport_get_type_def MAX_VPORT_NAME_SIZE_def)
  next
    case False
    have "?r = ?r\<lparr>vm_port_no := of_nat p\<rparr>" using no [OF False] by simp
    then show ?thesis using False no [OF False] p n(1,2) up by (simp add: vport_get_reply_def Let_def vport_get_type_def MAX_VPORT_NAME_SIZE_def)
  qed
  then have sv: "serve_vport (e_cfg (se_io E)) (se_max_lcore E) ?st ?r ?t = Some (\<lparr>msg_type = 0, msg_payload = VPORT_MSG ?reply\<rparr>, ?t)"
    using r(2,3) by (simp add: serve_vport_def CMD_GET_def CMD_NEW_def CMD_DEL_def)
  have m: "vport_message_ok ?reply" using n by (simp add: vport_message_ok_def DPDK_PORT_MAX_STRING_LEN_def)
  obtain s' where s': "dpif_dpdk_vport_transact K r s = Some (0, Some ?reply, s')" "link_ok E rings pool (sw_dp s')" "sw_flow s' = sw_flow s" "d_vports (sw_dp s') = ?t"
    "sw_time s' = sw_time s" using vport_transact_ok [OF C W ok r(1) m _ sv] by auto
  then show ?thesis using ty n(2) by (auto simp: port_query_def dpif_port_of_def DPDK_PORT_MAX_STRING_LEN_def)
qed

lemma name_found:
  assumes "vport_exists t p" "vi_name (t p) = name" "length name < 32" "\<forall>i. vport_exists t i \<and> i \<noteq> p \<longrightarrow> vi_name (t i) \<noteq> name"
    and "\<forall>i. vport_exists t i \<longrightarrow> length (vi_name (t i)) < 32"
  shows "vport_name_to_portid t name = p"
proof -
  have s: "strncmp_eq (vi_name (t i)) name MAX_VPORT_NAME_SIZE \<longleftrightarrow> vi_name (t i) = name" if "vport_exists t i" for i
    using assms(3,5) that by (auto simp: strncmp_eq_def MAX_VPORT_NAME_SIZE_def)
  have "find_from 0 MAX_VPORTS (\<lambda>i. vport_exists t i \<and> strncmp_eq (vi_name (t i)) name MAX_VPORT_NAME_SIZE) = Some p"
    using assms s by (auto simp: find_from_Some_iff) (auto simp: vport_exists_def)
  then show ?thesis by (simp add: vport_name_to_portid_def)
qed

text \<open>A port that was enabled under a name that no other port has is found by it.\<close>

lemma named_port:
  assumes t: "vports_ok cfg t" and p: "vport_exists t p" and n: "length name < 32" "\<forall>i. vport_exists t i \<longrightarrow> vi_name (t i) \<noteq> name"
  shows "vport_exists (vport_set_name p name (vport_enable p t)) p" "vport_is_enabled (vport_set_name p name (vport_enable p t)) p"
    and "vi_name (vport_set_name p name (vport_enable p t) p) = name" "vi_type (vport_set_name p name (vport_enable p t) p) = vi_type (t p)"
    and "vport_name_to_portid (vport_set_name p name (vport_enable p t)) name = p"
proof -
  let ?t' = "vport_set_name p name (vport_enable p t)"
  have t': "vport_exists ?t' i = vport_exists t i" "i \<noteq> p \<Longrightarrow> ?t' i = t i" for i
    using p by (auto simp: vport_set_name_def vport_enable_def vport_exists_def)
  show n': "vi_name (?t' p) = name" and "vi_type (?t' p) = vi_type (t p)"
    using p n(1) by (auto simp: vport_set_name_def vport_enable_def vport_exists_def VPORT_INFO_NAMESZ_def)
  show e: "vport_exists ?t' p" using t'(1) p by simp
  have "vi_enabled (?t' p)" using p by (auto simp: vport_set_name_def vport_enable_def vport_exists_def)
  then show "vport_is_enabled ?t' p" using e by (simp add: vport_is_enabled_def)
  have "length (vi_name (?t' i)) < 32" if "vport_exists ?t' i" for i
    using t n(1) n' that t' [of i] by (cases "i = p") (auto simp: vports_ok_def vport_exists_def VPORT_INFO_NAMESZ_def)
  moreover have "\<forall>i. vport_exists ?t' i \<and> i \<noteq> p \<longrightarrow> vi_name (?t' i) \<noteq> name" using n(2) t' by auto
  ultimately show "vport_name_to_portid ?t' name = p" using name_found [OF e n' n(1)] by blast
qed

section \<open>Properties\<close>

text \<open>C2: The daemon's operations on flows, over the rings to the datapath, act on the map of flows. A put whose attributes the daemon can
  read creates the flow of the key that they describe, or replaces its actions, as its flags allow; it creates it whenever the
  flow is not there, the flags ask for it and the hash table does not report that it is full, and with a full table it returns 0
  and changes nothing. A deletion removes the flow, a flush removes all. The error code is the one that the state of the map
  calls for, every operation returns, and afterwards no message or mbuf is left under way. The datapath answers while the daemon
  waits.\<close>

theorem flow_operations_refine_map:
  assumes "connected E rings pool K" "flow_wire E" "flow_link E rings pool \<alpha> s"
  shows "(\<forall>put key r. fp_key put = Some key \<longrightarrow> flow_message_put_create (fp_flags put) (fp_key_mem put) key (fp_key_len put)
        (fp_actions_mem put) (fp_actions put) (fp_actions_len put) = Some r \<longrightarrow>
      (\<exists>c st s'. dpif_dpdk_flow_put K put s = Some (c, st, s') \<and>
        new_spec (hash_full (se_hash E) (sw_flow s) (fm_key r)) r (flows \<alpha> (sw_flow s)) c (flows \<alpha> (sw_flow s')) \<and> flow_link E rings pool \<alpha> s')) \<and>
    (\<forall>del key r. fd_key del = Some key \<longrightarrow> flow_message_del_create (fd_key_mem del) key (fd_key_len del) = Some r \<longrightarrow>
      (\<exists>c st s'. dpif_dpdk_flow_del K del s = Some (c, st, s') \<and> del_spec r (flows \<alpha> (sw_flow s)) c (flows \<alpha> (sw_flow s')) \<and> flow_link E rings pool \<alpha> s')) \<and>
    (\<exists>s'. dpif_dpdk_flow_flush K s = Some (0, s') \<and> flows \<alpha> (sw_flow s') = Map.empty \<and> flow_link E rings pool \<alpha> s')"
proof (intro conjI allI impI)
  fix put :: dpif_flow_put and key r
  assume k: "fp_key put = Some key" and r: "flow_message_put_create (fp_flags put) (fp_key_mem put) key (fp_key_len put)
    (fp_actions_mem put) (fp_actions put) (fp_actions_len put) = Some r"
  have "fm_cmd r = CMD_NEW" using r by (auto simp: flow_message_put_create_def split: Option.bind_splits)
  from put_transact [OF assms put_message_ok [OF r] this] obtain c st s' where
    "dpif_dpdk_flow_transact K r s = Some (c, Some (r\<lparr>fm_id := lk_tid K, fm_stats := st\<rparr>), s')" "flow_link E rings pool \<alpha> s'"
    "new_spec (hash_full (se_hash E) (sw_flow s) (fm_key r)) r (flows \<alpha> (sw_flow s)) c (flows \<alpha> (sw_flow s'))" by blast
  then show "\<exists>c st s'. dpif_dpdk_flow_put K put s = Some (c, st, s') \<and>
      new_spec (hash_full (se_hash E) (sw_flow s) (fm_key r)) r (flows \<alpha> (sw_flow s)) c (flows \<alpha> (sw_flow s')) \<and> flow_link E rings pool \<alpha> s'"
    using k r by (auto simp: dpif_dpdk_flow_put_def)
next
  fix del :: dpif_flow_del and key r
  assume k: "fd_key del = Some key" and r: "flow_message_del_create (fd_key_mem del) key (fd_key_len del) = Some r"
  have "fm_cmd r = CMD_DEL" using r by (auto simp: flow_message_del_create_def split: Option.bind_splits)
  from del_transact [OF assms other_messages_ok(2) [OF r] this] obtain c st s' where
    "dpif_dpdk_flow_transact K r s = Some (c, Some (r\<lparr>fm_id := lk_tid K, fm_stats := st\<rparr>), s')" "flow_link E rings pool \<alpha> s'"
    "del_spec r (flows \<alpha> (sw_flow s)) c (flows \<alpha> (sw_flow s'))" by blast
  then show "\<exists>c st s'. dpif_dpdk_flow_del K del s = Some (c, st, s') \<and> del_spec r (flows \<alpha> (sw_flow s)) c (flows \<alpha> (sw_flow s')) \<and> flow_link E rings pool \<alpha> s'"
    using k r by (auto simp: dpif_dpdk_flow_del_def)
next
  have "fm_cmd flow_message_flush_create = CMD_DEL" "fm_key flow_message_flush_create = zero_key"
    by (simp_all add: flow_message_flush_create_def dpif_dpdk_flow_init_def zero_flow_message_def)
  with del_transact [OF assms other_messages_ok(3)] show "\<exists>s'. dpif_dpdk_flow_flush K s = Some (0, s') \<and> flows \<alpha> (sw_flow s') = Map.empty \<and> flow_link E rings pool \<alpha> s'"
    by (auto simp: dpif_dpdk_flow_flush_def del_spec_def)
qed

text \<open>C3: What a put reports as done, a get gives back: if a put with fewer than 48 actions returns 0 and the flow is in the table, a get
  for the same attributes returns the attributes of the actions exactly as they were put. (With a full table a put returns 0 and
  the flow is not there.)\<close>

theorem flow_put_get:
  assumes "connected E rings pool K" "flow_wire E" "flow_link E rings pool \<alpha> s" "fp_key put = Some key"
    and "key_of_attrs (fp_key_mem put) key (fp_key_len put) = Some k"
    and "fp_actions_mem put = pre @ attrs_bytes (map action_attr xs) @ post" "fp_actions put = Some (length pre)"
    and "fp_actions_len put = of_nat (length (attrs_bytes (map action_attr xs)))" "\<forall>x \<in> set xs. proper_action x" "length xs < 48"
  shows "\<exists>c st s1. dpif_dpdk_flow_put K put s = Some (c, st, s1) \<and> (c = 0 \<and> k \<in> dom (flows \<alpha> (sw_flow s1)) \<longrightarrow>
    (\<exists>fs b s2. dpif_dpdk_flow_get junk K (fp_key_mem put) (Some key) (fp_key_len put) (Some (ofpbuf_init junk' 0)) s1 = Some (0, Some (fs, Some b), s2) \<and>
      contents b = attrs_bytes (map action_attr xs) \<and> flows \<alpha> (sw_flow s2) = flows \<alpha> (sw_flow s1)))"
proof -
  have len: "length xs \<le> MAX_ACTIONS" "length xs < MAX_ACTIONS" using assms(10) by (simp_all add: MAX_ACTIONS_def)
  have acts: "dpif_dpdk_create_actions zero_actions (fp_actions_mem put) (fp_actions put) (fp_actions_len put) = Some (action_array xs)"
    using create_actions_ok [OF assms(6,9) len(1)] assms(7,8) len(2) by simp
  define r where "r = the (flow_message_put_create (fp_flags put) (fp_key_mem put) key (fp_key_len put) (fp_actions_mem put) (fp_actions put) (fp_actions_len put))"
  have r: "flow_message_put_create (fp_flags put) (fp_key_mem put) key (fp_key_len put) (fp_actions_mem put) (fp_actions put) (fp_actions_len put) = Some r"
    "fm_cmd r = CMD_NEW" "fm_key r = k" "fm_actions r = action_array xs"
    using assms(5) acts by (simp_all add: flow_message_put_create_def r_def)
  from put_transact [OF assms(1-3) put_message_ok [OF r(1)] r(2)] obtain c st s1 where
    s1: "dpif_dpdk_flow_transact K r s = Some (c, Some (r\<lparr>fm_id := lk_tid K, fm_stats := st\<rparr>), s1)" "flow_link E rings pool \<alpha> s1"
    "new_spec (hash_full (se_hash E) (sw_flow s) (fm_key r)) r (flows \<alpha> (sw_flow s)) c (flows \<alpha> (sw_flow s1))" by blast
  have put: "\<exists>st. dpif_dpdk_flow_put K put s = Some (c, st, s1)" using s1(1) assms(4) r(1) by (simp add: dpif_dpdk_flow_put_def)
  have "\<exists>fs b s2. dpif_dpdk_flow_get junk K (fp_key_mem put) (Some key) (fp_key_len put) (Some (ofpbuf_init junk' 0)) s1 = Some (0, Some (fs, Some b), s2) \<and>
      contents b = attrs_bytes (map action_attr xs) \<and> flows \<alpha> (sw_flow s2) = flows \<alpha> (sw_flow s1)" if c: "c = 0" "k \<in> dom (flows \<alpha> (sw_flow s1))"
  proof -
    obtain st' where F: "flows \<alpha> (sw_flow s1) k = Some (action_array xs, st')"
      using s1(3) c r(3,4) by (auto simp: new_spec_def errno_defs split: option.splits if_splits prod.splits)
    define g where "g = dpif_dpdk_flow_init\<lparr>fm_cmd := CMD_GET, fm_key := k\<rparr>"
    have g: "flow_message_get_create (fp_key_mem put) key (fp_key_len put) = Some g" "fm_cmd g = CMD_GET" "fm_flags g = 0" "fm_key g = k"
      using assms(5) by (simp_all add: flow_message_get_create_def g_def dpif_dpdk_flow_init_def zero_flow_message_def)
    from get_transact [OF assms(1,2) s1(2) other_messages_ok(1) [OF g(1)] g(2,3)] F g(4) obtain s2 u where
      s2: "sw_flow s2 = sw_flow s1" "dpif_dpdk_flow_transact K g s1 =
        Some (0, Some (g\<lparr>fm_id := lk_tid K, fm_actions := action_array xs, fm_stats := st'\<lparr>used := u\<rparr>\<rparr>), s2)" by auto
    have "dpif_dpdk_flow_actions_to_actions junk (action_array xs) b = put_actions junk (xs @ replicate (MAX_ACTIONS - length xs) ACTION_NULL) b" for b
      using len by (simp add: dpif_dpdk_flow_actions_to_actions_def action_array_def)
    then obtain b where "dpif_dpdk_flow_actions_to_actions junk (action_array xs) (ofpbuf_init junk' 0) = Some b" "contents b = attrs_bytes (map action_attr xs)"
      using puts_actions [OF assms(9), of junk "MAX_ACTIONS - length xs"] growable_init [of junk'] by (auto simp: puts_def growable_def)
    then show ?thesis using g(1) s2 by (simp add: dpif_dpdk_flow_get_def)
  qed
  then show ?thesis using put by blast
qed

text \<open>C11: A dump lists the flows to the client: a client that asks for the next flow until it gets an error gets every flow once and then
  the end of the list. The key attributes it gets are those of the flow's key, and the daemon reads them back as that key when it is
  one that a packet gives (up to the normalisation of \<open>norm_key\<close>); the action attributes are those of the actions before the
  terminating one, and are read back as those actions; the counters and the time of the last use are the flow's. A flow whose key is
  all zero would start the dump anew and is excluded.\<close>

theorem flow_dump_complete:
  assumes "connected E rings pool K" "flow_wire E" "flow_link E rings pool \<alpha> s" "flows \<alpha> (sw_flow s) zero_key = None"
  shows "\<exists>ds ks s'. dump_run junk K (MAX_FLOWS + 1) (dpif_dpdk_flow_dump_start junk) s = Some (ds, Some EOF, s') \<and>
    distinct ks \<and> set ks = dom (flows \<alpha> (sw_flow s)) \<and> list_all2 (shows_flow (sw_time s) (flows \<alpha> (sw_flow s))) ks ds \<and>
    flow_link E rings pool \<alpha> s' \<and> sw_flow s' = sw_flow s"
proof -
  let ?T = "sw_flow s" let ?k = "\<lambda>p. fe_key (flow_table ?T p)"
  have a: "asks \<alpha> ?T 0 (ds_flow (dpif_dpdk_flow_dump_start junk))"
    using other_messages_ok(4) by (simp add: asks_def dpif_dpdk_flow_dump_start_def flow_message_ok_def) (simp add: dpif_dpdk_flow_init_def zero_flow_message_def)
  have "length (places ?T 0) \<le> MAX_FLOWS" using length_filter_le [of _ "[0..<MAX_FLOWS]"] by (simp add: places_def)
  then have n: "length (places ?T 0) < MAX_FLOWS + 1" by simp
  from dump_run_ok [OF assms(1-3) a assms(4) n] obtain ds s' where ds: "dump_run junk K (MAX_FLOWS + 1) (dpif_dpdk_flow_dump_start junk) s = Some (ds, Some EOF, s')"
    "flow_link E rings pool \<alpha> s'" "sw_flow s' = ?T" "list_all2 (\<lambda>p. shows_flow (sw_time s) (flows \<alpha> ?T) (?k p)) (places ?T 0) ds" by blast
  have "flow_inv (se_hash E) \<alpha> ?T" using assms(3) by (simp add: flow_link_def)
  note pf = places_flows [OF this]
  have "list_all2 (shows_flow (sw_time s) (flows \<alpha> ?T)) (map ?k (places ?T 0)) ds" using ds(4) by (simp add: list_all2_map1)
  moreover have "set (map ?k (places ?T 0)) = dom (flows \<alpha> ?T)" using pf(2) by simp
  ultimately show ?thesis using ds(1-3) pf(1) by (intro exI [of _ ds] exI [of _ "map ?k (places ?T 0)"] exI [of _ s'] conjI)
qed

text \<open>C12: A port that was added is found: the daemon's request to add a port gives its number, and queries by the name and by the number
  give back name, type and number. It is refused only when all ports of the type are in use, or when the physical port that was
  asked for is. The name must be unused, of fewer than 32 characters (for vhost at most 16), and must not contain a percent sign,
  which the datapath would take for a format.\<close>

theorem port_add_query:
  assumes "connected E rings pool K" "vport_wire E" "link_ok E rings pool (sw_dp s)" "cfg_ok (e_cfg (se_io E))"
    and "vports_ok (e_cfg (se_io E)) (d_vports (sw_dp s))" "dpif_dpdk_odport_type (nd_type dev) \<notin> {VPORT_TYPE_DISABLED, VPORT_TYPE_BRIDGE}"
    and "length (nd_name dev) < 32" "dpif_dpdk_odport_type (nd_type dev) = VPORT_TYPE_VHOST \<longrightarrow> length (nd_name dev) \<le> 16"
    and "CHR ''%'' \<notin> set (nd_name dev)" "CHR 0x00 \<notin> set (nd_name dev)"
    and "\<forall>i. vport_exists (d_vports (sw_dp s)) i \<longrightarrow> vi_name (d_vports (sw_dp s) i) \<noteq> nd_name dev"
  shows "\<exists>c no s1. dpif_dpdk_port_add K (Some dev) (Some x) s = Some (c, no, s1) \<and> link_ok E rings pool (sw_dp s1) \<and>
    (c = 0 \<and> (\<exists>p s2 s3. no = Some p \<and>
        dpif_dpdk_port_query_by_name K (nd_name dev) s1 = Some (Inr \<lparr>pt_name = nd_name dev, pt_type = nd_type dev, pt_port_no = p\<rparr>, s2) \<and>
        dpif_dpdk_port_query_by_number K p s1 = Some (Inr \<lparr>pt_name = nd_name dev, pt_type = nd_type dev, pt_port_no = p\<rparr>, s3)) \<or>
     c = ENODEV \<and> (\<forall>i. vport_get_type (d_vports (sw_dp s)) i = dpif_dpdk_odport_type (nd_type dev) \<longrightarrow> vport_is_enabled (d_vports (sw_dp s)) i) \<or>
     c = EBUSY \<and> dpif_dpdk_odport_type (nd_type dev) = VPORT_TYPE_PHY \<and> vport_is_enabled (d_vports (sw_dp s)) (unat (nd_port_id dev + of_nat PHYPORT0)))"
proof -
  let ?cfg = "e_cfg (se_io E)" let ?t = "d_vports (sw_dp s)" let ?ty = "dpif_dpdk_odport_type (nd_type dev)" let ?n = "nd_name dev"
  note ty = port_types_inverse [OF refl, of "nd_type dev"]
  define r where "r = dpif_dpdk_vport_init\<lparr>vm_cmd := CMD_NEW, vm_port_name := take DPDK_PORT_MAX_STRING_LEN ?n, vm_type := ?ty,
    vm_port_no := (if ?ty = VPORT_TYPE_BRIDGE then 0 else if ?ty = VPORT_TYPE_PHY then nd_port_id dev else of_nat UINT32_MAX)\<rparr>"
  let ?r = "r\<lparr>vm_id := lk_tid K\<rparr>"
  have r: "vm_port_name r = ?n" "vm_type r = ?ty" "vm_cmd r = CMD_NEW" "vm_port_no r = (if ?ty = VPORT_TYPE_PHY then nd_port_id dev else of_nat UINT32_MAX)"
    using assms(6,7) by (auto simp: r_def DPDK_PORT_MAX_STRING_LEN_def)
  have m: "vport_message_ok r" "vport_message_ok (?r\<lparr>vm_port_no := x\<rparr>)" "vport_message_ok ?r" for x
    using r(1) assms(7,10) by (simp_all add: vport_message_ok_def DPDK_PORT_MAX_STRING_LEN_def)
  have add: "dpif_dpdk_port_add K (Some dev) (Some x) s = Option.bind (dpif_dpdk_vport_transact K r s)
      (\<lambda>(error, reply, s). if error = 0 then Option.bind reply (\<lambda>reply. Some (0, Some (vm_port_no reply), s)) else Some (error, Some x, s))"
    using assms(6,8) by (auto simp: dpif_dpdk_port_add_def Let_def r_def IFNAMSIZ_def)
  have sv: "serve_vport ?cfg (se_max_lcore E) st ?r ?t = vport_new_reply ?cfg ?r ?t" for st using r(3) by (simp add: serve_vport_def)
  have tr: "\<exists>s'. dpif_dpdk_vport_transact K r s = Some (c, Some reply, s') \<and> link_ok E rings pool (sw_dp s') \<and> sw_flow s' = sw_flow s \<and>
      d_vports (sw_dp s') = t \<and> sw_time s' = sw_time s"
    if "vport_new_reply ?cfg ?r ?t = Some (\<lparr>msg_type = c, msg_payload = VPORT_MSG reply\<rparr>, t)" "vport_message_ok reply" "c \<in> {0, ENODEV, EBUSY, EOF}" for c reply t
    using vport_transact_ok [OF assms(1-3) m(1) that(2,3)] sv that(1) by simp
  have "vm_type ?r \<notin> {VPORT_TYPE_DISABLED, VPORT_TYPE_VSWITCHD, VPORT_TYPE_BRIDGE}" using r(2) assms(6) ty by auto
  note new_reply = new_reply_ok [OF assms(4,5) _ this]
  have "\<not> vport_is_enabled ?t (unat (of_nat UINT32_MAX :: u32))" by (simp add: vport_is_enabled_def vport_exists_def UINT32_MAX_def MAX_VPORTS_def)
  then consider (new) p where "vport_new_reply ?cfg ?r ?t = Some (\<lparr>msg_type = 0, msg_payload = VPORT_MSG (?r\<lparr>vm_port_no := of_nat p\<rparr>)\<rparr>,
        vport_set_name p ?n (vport_enable p ?t))" "vport_exists ?t p" "vi_type (?t p) = ?ty"
    | (no) c where "c = ENODEV \<and> (\<forall>i. vport_get_type ?t i = ?ty \<longrightarrow> vport_is_enabled ?t i) \<or> c = EBUSY \<and> ?ty = VPORT_TYPE_PHY \<and> vport_is_enabled ?t (unat (nd_port_id dev + of_nat PHYPORT0))"
      "vport_new_reply ?cfg ?r ?t = Some (\<lparr>msg_type = c, msg_payload = VPORT_MSG ?r\<rparr>, ?t)"
    using new_reply r(1,2,4) assms(9) by (auto split: if_splits)
  then show ?thesis
  proof cases
    case (no c)
    then show ?thesis using tr [OF no(2) m(3)] add by (auto simp: errno_defs)
  next
    case (new p)
    note named = named_port [OF assms(5) new(2) assms(7,11)]
    obtain s1 where s1: "dpif_dpdk_vport_transact K r s = Some (0, Some (?r\<lparr>vm_port_no := of_nat p\<rparr>), s1)" "link_ok E rings pool (sw_dp s1)"
      "d_vports (sw_dp s1) = vport_set_name p ?n (vport_enable p ?t)" using tr [OF new(1) m(2)] by auto
    have p: "p < MAX_VPORTS" using new(2) by (simp add: vport_exists_def)
    have of: "dpif_dpdk_ofport_type (vi_type (vport_set_name p ?n (vport_enable p ?t) p)) = Inr (nd_type dev)" using named(4) new(3) ty assms(6) by simp
    note query = query_ok [OF assms(1,2) s1(2), unfolded s1(3), OF named(1,2) p named(3) assms(7,10) of]
    have "\<exists>s'. dpif_dpdk_port_query_by_name K ?n s1 = Some (Inr \<lparr>pt_name = ?n, pt_type = nd_type dev, pt_port_no = of_nat p\<rparr>, s')"
      unfolding dpif_dpdk_port_query_by_name_def
      using query [of "dpif_dpdk_vport_init\<lparr>vm_cmd := CMD_GET, vm_port_no := of_nat UINT32_MAX, vm_port_name := ?n\<rparr>"] assms(7,10) named(5)
      by (auto simp: vport_message_ok_def DPDK_PORT_MAX_STRING_LEN_def dpif_dpdk_vport_init_def zero_vport_message_def UINT32_MAX_def)
    moreover have "unat (of_nat p :: u32) = p" "p \<noteq> UINT32_MAX" using p by (simp_all add: unat_of_nat MAX_VPORTS_def UINT32_MAX_def)
    then have "\<exists>s'. dpif_dpdk_port_query_by_number K (of_nat p) s1 = Some (Inr \<lparr>pt_name = ?n, pt_type = nd_type dev, pt_port_no = of_nat p\<rparr>, s')"
      unfolding dpif_dpdk_port_query_by_number_def using query [of "dpif_dpdk_vport_init\<lparr>vm_cmd := CMD_GET, vm_port_no := of_nat p\<rparr>"]
      by (auto simp: vport_message_ok_def dpif_dpdk_vport_init_def zero_vport_message_def)
    ultimately show ?thesis using s1(1,2) add by auto
  qed
qed

section \<open>Instances\<close>

text \<open>A library whose rings are lists with room for 2047 mbufs and whose pool is a list.\<close>

definition fifo_lib :: "((ring \<Rightarrow> nat list) \<times> nat list) dpdk" where
  "fifo_lib = \<lparr>pktmbuf_free = (\<lambda>m (r, p). (r, m # p)),
     pktmbuf_alloc = (\<lambda>(r, p). case p of [] \<Rightarrow> (None, (r, [])) | m # ms \<Rightarrow> (Some m, (r, ms))),
     pktmbuf_clone = (\<lambda>_ (r, p). case p of [] \<Rightarrow> (None, (r, [])) | m # ms \<Rightarrow> (Some m, (r, ms))),
     ring_enqueue = (\<lambda>q m (r, p). if length (r q) < 2047 then (0, (r(q := r q @ [m]), p)) else (- ENOBUFS, (r, p))),
     ring_enqueue_burst = (\<lambda>q ms (r, p). let k = min (length ms) (2047 - length (r q)) in (k, (r(q := r q @ take k ms), p))),
     ring_dequeue_burst = (\<lambda>q n (r, p). (take n (r q), (r(q := drop n (r q)), p))),
     ring_dequeue_bulk = (\<lambda>q n (r, p). if n \<le> length (r q) then (Some (take n (r q)), (r(q := drop n (r q)), p)) else (None, (r, p))),
     ring_enqueue_bulk = (\<lambda>q ms (r, p). if length (r q) + length ms \<le> 2047 then (0, (r(q := r q @ ms), p)) else (- ENOBUFS, (r, p))),
     ring_count = (\<lambda>q (r, p). length (r q)),
     kni_tx_burst = (\<lambda>_ _ w. (0, w)), kni_rx_burst = (\<lambda>_ _ w. ([], w)), kni_handle_request = (\<lambda>_ w. w),
     eth_tx_burst = (\<lambda>_ _ w. (0, w)), eth_rx_burst = (\<lambda>_ _ w. ([], w)), rdtsc = (\<lambda>w. (0, w)), pktmbuf_headroom = 128\<rparr>"

lemma fifo_lib_ok: "fifo_ok fifo_lib fst (mset \<circ> snd)"
  by (auto simp: fifo_ok_def fifo_lib_def neq_Nil_conv split: list.split)

text \<open>The daemon and the datapath, connected, with one mbuf in the ring of fresh ones, 600 in the pool, and one flow in the table.\<close>

definition link_key :: flow_key where "link_key = norm_key zero_key"

definition link_actions :: "action list" where "link_actions = action_array [ACTION_OUTPUT 3]"

definition link_table :: "slots flow_state" where
  "link_table = snd (flow_table_add_flow slots_hash link_key link_actions (flow_table_init []))"

definition link_senv :: "(bytes \<Rightarrow> dpdk_message) \<Rightarrow> ((ring \<Rightarrow> nat list) \<times> nat list, slots) senv" where
  "link_senv rd = \<lparr>se_io = \<lparr>e_lib = fifo_lib, e_lcore = 0, e_cores = 1, e_lcore_map = (\<lambda>_. 0), e_cfg = example_cfg, e_flush_period = 0\<rparr>,
     se_hash = slots_hash, se_max_lcore = 1, se_enc = message_bytes, se_dec = rd, se_upcall = (\<lambda>_ _. zeros 72), se_msg_size = MESSAGE_SIZE,
     se_upcall_size = 72\<rparr>"

definition link_switch :: "((ring \<Rightarrow> nat list) \<times> nat list, slots) switch" where
  "link_switch = \<lparr>sw_dp = \<lparr>d_lib = ((\<lambda>_. [])(VSWITCHD_ALLOC := [600]), [0..<600]),
       d_mbuf = (\<lambda>m. \<lparr>mb_buf = m, mb_off = 128, mb_data_len = 0, mb_pkt_len = 0\<rparr>), d_buf = (\<lambda>_. zeros (128 + MESSAGE_SIZE)), d_stats = stats_init,
       d_vports = vport_init example_cfg, d_client_cache = (\<lambda>_ _. []), d_port_cache = (\<lambda>_ _. []), d_vhost_cache = (\<lambda>_ _. []),
       d_prev_tsc = (\<lambda>_. 0), d_dev = (\<lambda>_. example_dev)\<rparr>,
     sw_flow = link_table, sw_time = \<lparr>curr_tsc = 0, cpu_freq = 1, tv_sec = 0, tv_nsec = 0\<rparr>, sw_signals = 0\<rparr>"

definition example_link :: "(bytes \<Rightarrow> dpdk_message) \<Rightarrow> ((ring \<Rightarrow> nat list) \<times> nat list, slots) link" where
  "example_link rd = \<lparr>lk_env = link_senv rd, lk_other = handle_request_from_vswitchd (link_senv rd), lk_tid = 7, lk_upcall = (\<lambda>_. (0, zero_key))\<rparr>"

lemma example_connected: "connected (link_senv rd) fst (mset \<circ> snd) (example_link rd)"
  using fifo_lib_ok by (simp add: connected_def example_link_def link_senv_def)

lemma example_wires: "flow_wire (link_senv flow_message_of)" "vport_wire (link_senv vport_message_of)"
  using message_layout by (simp_all add: flow_wire_def vport_wire_def reads_back_def link_senv_def)

lemma example_link_ok: "link_ok (link_senv rd) fst (mset \<circ> snd) (sw_dp link_switch)"
proof -
  have "distinct [0..<600]" by simp
  then have "apart (mset [0..<600])" unfolding apart_def by (simp only: distinct_count_atmost_1) simp
  then show ?thesis
    by (simp add: link_ok_def layout_ok_def link_senv_def link_switch_def length_message_bytes fifo_lib_def PKT_BURST_SIZE_def fresh_mbuf_def MESSAGE_SIZE_def
        del: mset_upt upt_rec_numeral)
qed

lemma example_flows: "flows slots_map link_table = [link_key \<mapsto> (link_actions, zero_stats)]"
proof -
  have "slots_map (handle link_table) k = (if k = link_key then Some 0 else None)" "flow_table link_table 0 = zero_entry\<lparr>fe_enabled := True, fe_key := link_key, fe_actions := link_actions\<rparr>" for k
    by (simp_all add: link_table_def flow_table_add_flow_def flow_table_init_def flow_table_lookup_def slots_hash_def
      slots_map_def find_from_def ENOENT_def bad_pos_def MAX_FLOWS_def clear_stats_entry zero_entry_def)
  then show ?thesis by (auto simp: fun_eq_iff flows_def zero_entry_def)
qed

lemma example_shape: "key_shape link_key" "actions_shape link_actions"
  by (simp_all add: link_key_def norm_key_def zero_key_def key_shape_def actions_shape_def link_actions_def action_array_def MAX_ACTIONS_def)

lemma example_flow_link: "flow_link (link_senv rd) fst (mset \<circ> snd) slots_map link_switch"
proof -
  have "flow_inv slots_hash slots_map link_table" unfolding link_table_def by (rule ft.add_inv [OF init_example])
  then show ?thesis using example_link_ok [of rd] example_flows example_shape by (simp add: flow_link_def flows_shape_def link_senv_def) (simp add: link_switch_def)
qed

text \<open>The same with an empty table.\<close>

definition empty_switch :: "((ring \<Rightarrow> nat list) \<times> nat list, slots) switch" where
  "empty_switch = link_switch\<lparr>sw_flow := flow_table_init []\<rparr>"

lemma example_empty: "flow_link (link_senv rd) fst (mset \<circ> snd) slots_map empty_switch" "flows slots_map (sw_flow empty_switch) = Map.empty"
  "\<not> hash_full slots_hash (sw_flow empty_switch) k"
proof -
  show F: "flows slots_map (sw_flow empty_switch) = Map.empty" by (simp add: empty_switch_def flows_def flow_table_init_def slots_map_def find_from_None_iff fun_eq_iff)
  show "flow_link (link_senv rd) fst (mset \<circ> snd) slots_map empty_switch"
    using example_flow_link [of rd] init_example F by (simp add: flow_link_def flows_shape_def empty_switch_def link_senv_def)
  show "\<not> hash_full slots_hash (sw_flow empty_switch) k"
    by (simp add: hash_full_def empty_switch_def flow_table_init_def slots_hash_def slots_map_def find_from_def MAX_FLOWS_def ENOSPC_def)
qed

text \<open>Attributes for the key of the flow, and a put that creates it, or replaces its actions by an output to port 5.\<close>

lemma example_key_attrs: "\<exists>m key len. key_of_attrs m key len = Some link_key"
proof -
  have "packet_key zero_key" by (simp add: packet_key_def zero_key_def ETHER_TYPE_IPv4_def)
  moreover have "ofpbuf_ok (ofpbuf_use example_frame)" "ob_source (ofpbuf_use example_frame) \<noteq> OFPBUF_STACK"
    by (simp_all add: ofpbuf_use_def ofpbuf_use_raw_def ofpbuf_ok_def)
  ultimately show ?thesis
    using upcall_key [of zero_key "ofpbuf_use example_frame" PACKET_CMD_MISS "\<lambda>_. 0"] unfolding link_key_def by blast
qed

definition example_put :: "bytes \<Rightarrow> nat \<Rightarrow> nat \<Rightarrow> dpif_flow_put" where
  "example_put m key len = \<lparr>fp_flags = DPIF_FP_CREATE OR DPIF_FP_MODIFY, fp_key_mem = m, fp_key = Some key, fp_key_len = len,
     fp_actions_mem = attrs_bytes [action_attr (ACTION_OUTPUT 5)], fp_actions = Some 0, fp_actions_len = 8\<rparr>"

lemma example_put_create:
  assumes "key_of_attrs m key len = Some link_key"
  shows "\<exists>r. flow_message_put_create (fp_flags (example_put m key len)) m key len (attrs_bytes [action_attr (ACTION_OUTPUT 5)]) (Some 0) 8 = Some r \<and>
    fm_key r = link_key \<and> fm_flags r AND FLAG_REPLACE \<noteq> 0 \<and> fm_flags r AND FLAG_CREATE \<noteq> 0 \<and> fm_actions r = action_array [ACTION_OUTPUT 5]"
proof -
  have "dpif_dpdk_create_actions zero_actions (attrs_bytes [action_attr (ACTION_OUTPUT 5)]) (Some 0) 8 = Some (action_array [ACTION_OUTPUT 5])"
    using create_actions_ok [of "attrs_bytes [action_attr (ACTION_OUTPUT 5)]" "[]" "[ACTION_OUTPUT 5]" "[]"] by (simp add: MAX_ACTIONS_def attr_bytes_def NLMSG_ALIGN_def)
  then show ?thesis using assms by (simp add: flow_message_put_create_def example_put_def FLAG_REPLACE_def FLAG_CREATE_def DPIF_FP_MODIFY_def DPIF_FP_CREATE_def)
qed

theorem flow_operations_refine_map_witness:
  "\<exists>put st s1 st' s2. dpif_dpdk_flow_put (example_link flow_message_of) put link_switch = Some (0, st, s1) \<and>
     flows slots_map (sw_flow s1) = [link_key \<mapsto> (action_array [ACTION_OUTPUT 5], zero_stats)] \<and>
     dpif_dpdk_flow_put (example_link flow_message_of) put empty_switch = Some (0, st', s2) \<and>
     flows slots_map (sw_flow s2) = [link_key \<mapsto> (action_array [ACTION_OUTPUT 5], zero_stats)] \<and>
     (\<exists>s'. dpif_dpdk_flow_flush (example_link flow_message_of) link_switch = Some (0, s') \<and> flows slots_map (sw_flow s') = Map.empty)"
proof -
  note w = flow_operations_refine_map [OF example_connected example_wires(1)]
  obtain m key len where k: "key_of_attrs m key len = Some link_key" using example_key_attrs by blast
  obtain r where r: "flow_message_put_create (fp_flags (example_put m key len)) m key len (attrs_bytes [action_attr (ACTION_OUTPUT 5)]) (Some 0) 8 = Some r"
    "fm_key r = link_key" "fm_flags r AND FLAG_REPLACE \<noteq> 0" "fm_flags r AND FLAG_CREATE \<noteq> 0" "fm_actions r = action_array [ACTION_OUTPUT 5]"
    using example_put_create [OF k] by blast
  have F: "flows slots_map (sw_flow link_switch) = [link_key \<mapsto> (link_actions, zero_stats)]" using example_flows by (simp add: link_switch_def)
  have H: "se_hash (link_senv flow_message_of) = slots_hash" by (simp add: link_senv_def)
  obtain c st s1 where "dpif_dpdk_flow_put (example_link flow_message_of) (example_put m key len) link_switch = Some (c, st, s1)"
    "\<exists>full. new_spec full r (flows slots_map (sw_flow link_switch)) c (flows slots_map (sw_flow s1))"
    using w [OF example_flow_link, THEN conjunct1, rule_format, of "example_put m key len" key r] r(1) by (auto simp: example_put_def)
  then have "dpif_dpdk_flow_put (example_link flow_message_of) (example_put m key len) link_switch = Some (0, st, s1)"
    "flows slots_map (sw_flow s1) = [link_key \<mapsto> (action_array [ACTION_OUTPUT 5], zero_stats)]"
    using r by (auto simp: new_spec_def F)
  moreover obtain c st' s2 where "dpif_dpdk_flow_put (example_link flow_message_of) (example_put m key len) empty_switch = Some (c, st', s2)"
    "new_spec False r Map.empty c (flows slots_map (sw_flow s2))"
    using w [OF example_empty(1), THEN conjunct1, rule_format, of "example_put m key len" key r] r(1) example_empty(2,3) by (auto simp: example_put_def H)
  then have "dpif_dpdk_flow_put (example_link flow_message_of) (example_put m key len) empty_switch = Some (0, st', s2)"
    "flows slots_map (sw_flow s2) = [link_key \<mapsto> (action_array [ACTION_OUTPUT 5], zero_stats)]"
    using r by (simp_all add: new_spec_def)
  ultimately show ?thesis using w [OF example_flow_link, THEN conjunct2, THEN conjunct2] by blast
qed

theorem flow_put_get_witness:
  "\<exists>put st s1 fs b s2. dpif_dpdk_flow_put (example_link flow_message_of) put link_switch = Some (0, st, s1) \<and>
     dpif_dpdk_flow_get (\<lambda>_. 0) (example_link flow_message_of) (fp_key_mem put) (fp_key put) (fp_key_len put) (Some (ofpbuf_init (\<lambda>_. 0) 0)) s1 =
       Some (0, Some (fs, Some b), s2) \<and> contents b = attrs_bytes [action_attr (ACTION_OUTPUT 5)]"
proof -
  let ?K = "example_link flow_message_of"
  obtain m key len where k: "key_of_attrs m key len = Some link_key" using example_key_attrs by blast
  let ?put = "example_put m key len"
  obtain r where r: "flow_message_put_create (fp_flags ?put) m key len (attrs_bytes [action_attr (ACTION_OUTPUT 5)]) (Some 0) 8 = Some r"
    "fm_key r = link_key" "fm_flags r AND FLAG_REPLACE \<noteq> 0" using example_put_create [OF k] by blast
  have F: "flows slots_map (sw_flow link_switch) = [link_key \<mapsto> (link_actions, zero_stats)]" using example_flows by (simp add: link_switch_def)
  have p: "fm_cmd r = CMD_NEW" using r(1) by (auto simp: flow_message_put_create_def split: Option.bind_splits)
  obtain c st s1 where s1: "dpif_dpdk_flow_transact ?K r link_switch = Some (c, Some (r\<lparr>fm_id := lk_tid ?K, fm_stats := st\<rparr>), s1)"
    "\<exists>full. new_spec full r (flows slots_map (sw_flow link_switch)) c (flows slots_map (sw_flow s1))"
    using put_transact [OF example_connected example_wires(1) example_flow_link put_message_ok [OF r(1)] p] by blast
  have c: "c = 0" "link_key \<in> dom (flows slots_map (sw_flow s1))" using s1(2) r(2,3) by (auto simp: new_spec_def F)
  have put: "\<exists>st. dpif_dpdk_flow_put ?K ?put link_switch = Some (0, st, s1)" using s1(1) r(1) c(1) by (simp add: dpif_dpdk_flow_put_def example_put_def)
  have len: "fp_actions_len ?put = of_nat (length (attrs_bytes (map action_attr [ACTION_OUTPUT 5])))"
    by (simp add: example_put_def attr_bytes_def NLMSG_ALIGN_def)
  show ?thesis
    using flow_put_get [OF example_connected example_wires(1) example_flow_link, of ?put key link_key "[]" "[ACTION_OUTPUT 5]" "[]" "\<lambda>_. 0" "\<lambda>_. 0"] k len put c(2)
    by (intro exI [of _ ?put]) (auto simp: example_put_def)
qed

theorem flow_dump_complete_witness:
  "\<exists>key actions stats s'. dump_run (\<lambda>_. 0) (example_link flow_message_of) (MAX_FLOWS + 1) (dpif_dpdk_flow_dump_start (\<lambda>_. 0)) link_switch =
       Some ([(key, actions, stats)], Some EOF, s') \<and>
     key_of_attrs key 0 (length key) = Some link_key \<and> actions = attrs_bytes [action_attr (ACTION_OUTPUT 3)] \<and> n_packets stats = 0"
proof -
  have F: "flows slots_map (sw_flow link_switch) = [link_key \<mapsto> (link_actions, zero_stats)]" using example_flows by (simp add: link_switch_def)
  have z: "flows slots_map (sw_flow link_switch) zero_key = None" by (simp add: F link_key_def norm_key_def zero_key_def ETH_TYPE_MIN_def FLOW_DL_TYPE_NONE_def)
  have one: "distinct xs \<Longrightarrow> set xs = {x} \<Longrightarrow> xs = [x]" for xs and x :: flow_key
    by (cases xs; cases "tl xs") auto
  obtain ds ks s' where ds: "dump_run (\<lambda>_. 0) (example_link flow_message_of) (MAX_FLOWS + 1) (dpif_dpdk_flow_dump_start (\<lambda>_. 0)) link_switch = Some (ds, Some EOF, s')"
    "distinct ks" "set ks = {link_key}" "list_all2 (shows_flow (sw_time link_switch) (flows slots_map (sw_flow link_switch))) ks ds"
    using flow_dump_complete [OF example_connected example_wires(1) example_flow_link z, of "\<lambda>_. 0"] unfolding F by auto
  have "ks = [link_key]" by (rule one [OF ds(2,3)])
  then obtain d where d: "ds = [d]" "shows_flow (sw_time link_switch) (flows slots_map (sw_flow link_switch)) link_key d" using ds(4) by (auto simp: list_all2_Cons1)
  have "packet_key link_key" "norm_key link_key = link_key" "takeWhile (\<lambda>x. x \<noteq> ACTION_NULL) link_actions = [ACTION_OUTPUT 3]"
    by (simp_all add: link_key_def norm_key_def zero_key_def packet_key_def ETHER_TYPE_IPv4_def ETH_TYPE_MIN_def FLOW_DL_TYPE_NONE_def link_actions_def action_array_def)
  with d(2) have "\<exists>key actions stats. d = (key, actions, stats) \<and> key_of_attrs key 0 (length key) = Some link_key \<and>
      actions = attrs_bytes [action_attr (ACTION_OUTPUT 3)] \<and> n_packets stats = 0"
    by (cases d) (auto simp: shows_flow_def F zero_stats_def)
  then show ?thesis using ds(1) d(1) by blast
qed

lemma setup_port_sel:
  "vi_name (setup_port v type ix name t i) = (if i = v \<and> v < MAX_VPORTS \<and> type \<noteq> VPORT_TYPE_DISABLED then take 31 name else vi_name (t i))"
  "vi_enabled (setup_port v type ix name t i) = (vi_enabled (t i) \<and> \<not> (i = v \<and> v < MAX_VPORTS \<and> type \<noteq> VPORT_TYPE_DISABLED))"
  by (auto simp: setup_port_def vport_set_name_def vport_disable_def vport_exists_def VPORT_INFO_NAMESZ_def)

theorem port_add_query_witness:
  "\<exists>p s1 s2. dpif_dpdk_port_add (example_link vport_message_of) (Some \<lparr>nd_type = ''dpdkvhost'', nd_name = ''tap7'', nd_port_id = 0\<rparr>) (Some 0) link_switch = Some (0, Some p, s1) \<and>
     dpif_dpdk_port_query_by_name (example_link vport_message_of) ''tap7'' s1 = Some (Inr \<lparr>pt_name = ''tap7'', pt_type = ''dpdkvhost'', pt_port_no = p\<rparr>, s2)"
proof -
  let ?dev = "\<lparr>nd_type = ''dpdkvhost'', nd_name = ''tap7'', nd_port_id = 0\<rparr>" let ?t = "vport_init example_cfg"
  have s: "e_cfg (se_io (link_senv rd)) = example_cfg" "d_vports (sw_dp link_switch) = ?t" for rd by (simp_all add: link_senv_def link_switch_def)
  have "\<forall>i. vi_name (?t i) \<noteq> ''tap7''" "\<not> vi_enabled (?t 0x50)"
    by (simp_all add: vport_init_def Let_def example_cfg_def for_loop_def setup_port_sel upt_rec zero_vport_def)
  moreover have ty: "dpif_dpdk_odport_type ''dpdkvhost'' = VPORT_TYPE_VHOST" by (simp add: dpif_dpdk_odport_type_def strncmp_eq_def DPDK_PORT_MAX_STRING_LEN_def)
  moreover have "vi_type (?t 0x50) = VPORT_TYPE_VHOST"
    using vports_ok_type [OF vport_init_ok [OF example_cfg_ok], of "0x50"] by (simp add: vport_kind_def example_cfg_def vport_consts)
  then have "vport_get_type ?t 0x50 = VPORT_TYPE_VHOST" "vport_exists ?t 0x50" by (simp_all add: vport_get_type_def vport_exists_def MAX_VPORTS_def)
  ultimately show ?thesis
    using port_add_query [OF example_connected example_wires(2) example_link_ok, of ?dev, unfolded s] vport_init_ok [OF example_cfg_ok] example_cfg_ok
    by (fastforce simp: vport_is_enabled_def)
qed

end
