(* ===== verification/Switch.thy ===== *)
theory Switch
  imports Datapath
begin

text \<open>
  The loops of the cores, \<open>datapath/dpdk/main.c\<close>, and \<open>switch_packet\<close> of \<open>flow.c\<close>: a core receives a burst from a port,
  looks up the flow of each packet, executes its actions or sends the packet up to the daemon, and flushes its caches.
  The locks of the flow table are left out, one core runs at a time; prefetching has no effect. The display of the
  statistics is output only.
\<close>

section \<open>Packets\<close>

definition switch_packet :: "('w, 'h) senv \<Rightarrow> nat \<Rightarrow> flow_key \<Rightarrow> ('w, 'h) switch \<Rightarrow> ('w, 'h) switch option" where
  "switch_packet E m key s =
     (let T = sw_flow s; pos = flow_table_lookup (se_hash E) T key in
      if pos \<ge> 0 \<and> fe_enabled (flow_table T (nat pos)) then do {
        d \<leftarrow> action_execute (se_io E) (fe_actions (flow_table T (nat pos))) m (sw_dp s);
        T \<leftarrow> flow_table_update_stats (sw_time s) (nat pos) (mtod d m) (mb_data_len (d_mbuf d m)) T;
        Some (s\<lparr>sw_dp := d, sw_flow := T\<rparr>) }
      else send_packet_to_vswitchd E m PACKET_CMD_MISS key s)"

definition PREFETCH_OFFSET :: nat where "PREFETCH_OFFSET = 3"

text \<open>The body of both loops; the keys of a burst start as zeros.\<close>

definition switch_one :: "('w, 'h) senv \<Rightarrow> nat \<Rightarrow> nat \<Rightarrow> ('w, 'h) switch \<Rightarrow> ('w, 'h) switch option" where
  "switch_one E vportid m s = do {
     key \<leftarrow> flow_key_extract (mtod (sw_dp s) m) (of_nat vportid) zero_key;
     switch_packet E m key s }"

definition do_switch_packets :: "('w, 'h) senv \<Rightarrow> nat \<Rightarrow> nat list \<Rightarrow> ('w, 'h) switch \<Rightarrow> ('w, 'h) switch option" where
  "do_switch_packets E vportid bufs s = do {
     let j = length bufs - PREFETCH_OFFSET;
     s \<leftarrow> iterate (switch_one E vportid) (take j bufs) s;
     iterate (switch_one E vportid) (drop j bufs) s }"

text \<open>Operations of the packet path in the state of the switch.\<close>

definition on_dp :: "('w dp \<Rightarrow> 'w dp option) \<Rightarrow> ('w, 'h) switch \<Rightarrow> ('w, 'h) switch option" where
  "on_dp f s = map_option (\<lambda>d. s\<lparr>sw_dp := d\<rparr>) (f (sw_dp s))"

definition poll_port :: "('w, 'h) senv \<Rightarrow> nat \<Rightarrow> ('w, 'h) switch \<Rightarrow> ('w, 'h) switch option" where
  "poll_port E vportid s = do {
     (bufs, d) \<leftarrow> receive_from_vport (se_io E) vportid (sw_dp s);
     do_switch_packets E vportid bufs (s\<lparr>sw_dp := d\<rparr>) }"

definition flush_caches :: "('w, 'h) senv \<Rightarrow> ('w, 'h) switch \<Rightarrow> ('w, 'h) switch option" where
  "flush_caches E s = do {
     s \<leftarrow> on_dp (flush_clients (se_io E)) s; s \<leftarrow> on_dp (flush_ports (se_io E)) s; on_dp (flush_vhost_devs (se_io E)) s }"

definition do_port_switching :: "('w, 'h) senv \<Rightarrow> nat \<Rightarrow> ('w, 'h) switch \<Rightarrow> ('w, 'h) switch option" where
  "do_port_switching E vportid s = do {
     s \<leftarrow> poll_port E vportid s;
     s \<leftarrow> flush_caches E s;
     on_dp (flush_nic_tx_ring (se_io E) vportid) s }"

section \<open>Polling of the other ports\<close>

text \<open>The static variables of \<open>do_client_switching\<close>: the port of each kind that is polled next.\<close>

record poll =
  p_client :: u32
  p_kni :: u32
  p_veth :: u32
  p_vhost :: u32

definition poll_init :: poll where
  "poll_init = \<lparr>p_client = of_nat CLIENT1, p_kni = of_nat KNI0, p_veth = of_nat VETH0, p_vhost = of_nat VHOST0\<rparr>"

definition next_client :: "vport_cfg \<Rightarrow> u32 \<Rightarrow> u32" where
  "next_client cfg client = (if client + 1 = of_nat (num_clients cfg) then 1 else client + 1)"

definition next_port :: "nat \<Rightarrow> nat \<Rightarrow> u32 \<Rightarrow> u32" where
  "next_port base num p = (if p + 1 = of_nat base + of_nat num then of_nat base else p + 1)"

definition do_client_switching :: "('w, 'h) senv \<Rightarrow> poll \<Rightarrow> ('w, 'h) switch \<Rightarrow> (poll \<times> ('w, 'h) switch) option" where
  "do_client_switching E p s = do {
     let cfg = e_cfg (se_io E);
     s \<leftarrow> poll_port E (unat (p_client p)) s;
     let p = p\<lparr>p_client := next_client cfg (p_client p)\<rparr>;
     (p, s) \<leftarrow> (if num_kni cfg \<noteq> 0
       then do { s \<leftarrow> poll_port E (unat (p_kni p)) s; Some (p\<lparr>p_kni := next_port KNI0 (num_kni cfg) (p_kni p)\<rparr>, s) } else Some (p, s));
     (p, s) \<leftarrow> (if num_veth cfg \<noteq> 0
       then do { s \<leftarrow> poll_port E (unat (p_veth p)) s; Some (p\<lparr>p_veth := next_port VETH0 (num_veth cfg) (p_veth p)\<rparr>, s) } else Some (p, s));
     (p, s) \<leftarrow> (if num_vhost cfg \<noteq> 0
       then do { s \<leftarrow> poll_port E (unat (p_vhost p)) s; Some (p\<lparr>p_vhost := next_port VHOST0 (num_vhost cfg) (p_vhost p)\<rparr>, s) } else Some (p, s));
     s \<leftarrow> flush_caches E s;
     Some (p, s) }"

section \<open>The core of the daemon\<close>

text \<open>The static variables of \<open>do_vswitchd\<close>, with the two settings it reads.\<close>

record vswitchd_clock =
  vc_last_display :: u64
  vc_next_tsc :: u64
  vc_update_period :: u64
  vc_display_interval :: u64

text \<open>A division by a zero frequency traps.\<close>

definition do_vswitchd :: "('w, 'h) senv \<Rightarrow> vswitchd_clock \<Rightarrow> ('w, 'h) switch \<Rightarrow> (vswitchd_clock \<times> ('w, 'h) switch) option" where
  "do_vswitchd E c s = do {
     s \<leftarrow> handle_request_from_vswitchd E s;
     let (now, w) = rdtsc (e_lib (se_io E)) (d_lib (sw_dp s));
     let s = upd_dp (\<lambda>d. d\<lparr>d_lib := w\<rparr>) s;
     let (c, s) = (if now \<ge> vc_next_tsc c
        then (c\<lparr>vc_next_tsc := now + vc_update_period c\<rparr>, s\<lparr>sw_time := (sw_time s)\<lparr>curr_tsc := now\<rparr>\<rparr>) else (c, s));
     let t = sw_time s;
     if cpu_freq t = 0 then None
     else do {
       let c = (if (curr_tsc t - vc_last_display c) div cpu_freq t \<ge> vc_display_interval c \<and> vc_display_interval c \<noteq> 0
          then c\<lparr>vc_last_display := curr_tsc t\<rparr> else c);
       s \<leftarrow> flush_caches E s;
       Some (c, s) } }"

definition measure_cpu_frequency :: "u64 \<Rightarrow> u64 \<Rightarrow> u64" where
  "measure_cpu_frequency before after = (after - before) div 1000000 * 1000000"

section \<open>One packet\<close>

lemma extract_defined:
  assumes "48 \<le> length pkt"
  shows "\<exists>k. flow_key_extract pkt port key = Some k"
proof -
  have "\<exists>k1 off. extract_l2 pkt port key = Some (k1, off) \<and> off \<le> 18"
    using assms by (simp add: extract_l2_def ldn_def ld16_def Let_def)
  then obtain k1 off where l2: "extract_l2 pkt port key = Some (k1, off)" "off \<le> 18" by blast
  have "\<exists>k. extract_l4 pkt o' k' = Some k" if "o' \<le> 38" for o' k'
    using assms that by (auto simp: extract_l4_def ld16_def ld8_def)
  moreover have "extract_ipv4 pkt off k1 \<noteq> None"
    using assms l2(2) by (auto simp: extract_ipv4_def ld16_def ld8_def ld32_def Let_def)
  ultimately show ?thesis using l2 by (auto simp: flow_key_extract_def split: prod.splits)
qed

text \<open>Accounting of a packet of a flow keeps the actions of all flows.\<close>

lemma update_stats_ok:
  assumes "flow_inv H \<alpha> T" "\<alpha> (handle T) k = Some p" "48 \<le> length pkt"
  shows "\<exists>T'. flow_table_update_stats now p pkt len T = Some T' \<and> flow_inv H \<alpha> T' \<and>
    (\<forall>k. map_option fst (flows \<alpha> T' k) = map_option fst (flows \<alpha> T k))"
proof -
  have f: "flows \<alpha> T k = Some (fe_actions (flow_table T p), fe_stats (flow_table T p))" using assms(2) by (simp add: flows_def)
  have "ld8 pkt 47 = Some (pkt ! 47)" using assms(3) by (simp add: ld8_def)
  then show ?thesis
    using set_entry_present [OF assms(1,2)] f by (auto simp: flow_table_update_stats_def Let_def)
qed

text \<open>
  The actions of every flow are executable: they are not empty, and they pop and push a bounded number of tags. A table
  loses no packet when none of its flows has actions without an output.
\<close>

definition flows_ok :: "nat \<Rightarrow> nat \<Rightarrow> (flow_key \<rightharpoonup> action list \<times> flow_stats) \<Rightarrow> bool" where
  "flows_ok p q F \<longleftrightarrow> (\<forall>k acts st. F k = Some (acts, st) \<longrightarrow> acts \<noteq> [] \<and> pops acts \<le> p \<and> pushes acts \<le> q)"

definition no_leaks :: "(flow_key \<rightharpoonup> action list \<times> flow_stats) \<Rightarrow> bool" where
  "no_leaks F \<longleftrightarrow> (\<forall>k acts st. F k = Some (acts, st) \<longrightarrow> \<not> leaks acts)"

lemma flows_ok_same:
  assumes "\<forall>k. map_option fst (F' k) = map_option fst (F k)"
  shows "flows_ok p q F \<Longrightarrow> flows_ok p q F'" "no_leaks F' = no_leaks F"
proof -
  have *: "(\<exists>st'. F k = Some (acts, st')) \<longleftrightarrow> (\<exists>st'. F' k = Some (acts, st'))" for k acts
    using assms [rule_format, of k] by (cases "F k"; cases "F' k") auto
  show "flows_ok p q F \<Longrightarrow> flows_ok p q F'" using * unfolding flows_ok_def by metis
  show "no_leaks F' = no_leaks F" using * unfolding no_leaks_def by metis
qed

lemma mtod_room: "room p q d m \<Longrightarrow> 48 \<le> length (mtod d m)"
  by (auto simp: room_def mtod_def)

text \<open>The packet goes up behind its key when the headroom is long enough.\<close>

lemma send_packet_ok:
  assumes L: "dpdk_ok (e_lib (se_io E)) holds" and io: "io_ok (se_io E) (sw_dp s)" and r: "room 0 0 (sw_dp s) m"
    and u: "length (se_upcall E cmd key) = se_upcall_size E"
  shows "\<exists>s'. send_packet_to_vswitchd E m cmd key s = Some s' \<and> handed holds (se_io E) {#m#} (sw_dp s) (sw_dp s') \<and>
    tidy holds (se_io E) m (sw_dp s) (sw_dp s') \<and> sw_flow s' = sw_flow s \<and>
    (se_upcall_size E \<le> mb_off (d_mbuf (sw_dp s) m) \<longrightarrow> mtod (sw_dp s') m = se_upcall E cmd key @ mtod (sw_dp s) m)"
proof -
  let ?d = "sw_dp s" and ?n = "se_upcall_size E"
  let ?mb = "(d_mbuf ?d m)\<lparr>mb_pkt_len := ucast (mb_data_len (d_mbuf ?d m))\<rparr>"
  let ?d1 = "?d\<lparr>d_mbuf := (d_mbuf ?d)(m := ?mb)\<rparr>"
  have len: "mb_off ?mb + unat (mb_data_len ?mb) \<le> length (d_buf ?d (mb_buf ?mb))"
    using io mbufs_ok_at(2) [of ?d m] by (simp add: io_ok_def)
  have pl: "unat (mb_pkt_len ?mb) = unat (mb_data_len ?mb)"
    using unat_u16_less [of "mb_data_len ?mb"] by (simp add: unsigned_ucast_eq take_bit_nat_eq_self)
  have io1: "io_ok (se_io E) ?d1" by (rule io_ok_mbuf [OF io, of m]) (use len pl in \<open>simp_all add: mbuf_in_def\<close>)
  show ?thesis
  proof (cases "pktmbuf_prepend ?n ?mb")
    case None
    then show ?thesis using io1
      by (simp add: send_packet_to_vswitchd_def Let_def handed_def tidy_def owned_free [OF L]) (simp add: pktmbuf_prepend_def split: if_splits)
  next
    case (Some mb)
    then have mb: "mb_buf mb = mb_buf (d_mbuf ?d m)" "mb_off mb + ?n = mb_off (d_mbuf ?d m)"
      "mb_data_len mb = mb_data_len ?mb + of_nat ?n" "mb_pkt_len mb = mb_pkt_len ?mb + of_nat ?n"
      by (auto simp: pktmbuf_prepend_def split: if_splits)
    then obtain mem where mem: "stn (d_buf ?d (mb_buf mb)) (mb_off mb) (se_upcall E cmd key) = Some mem"
      using r u by (auto simp: stn_def room_def)
    let ?d2 = "?d1\<lparr>d_mbuf := (d_mbuf ?d1)(m := mb), d_buf := (d_buf ?d)(mb_buf mb := mem)\<rparr>"
    have add: "unat (x + of_nat ?n) \<le> unat x + ?n" for x :: "'z :: len word"
      using unat_of_nat_le [where 'a = 'z, of ?n] by (simp add: unat_word_ariths) (meson add_le_cancel_left mod_less_eq_dividend order_trans)
    have "mb_off mb + unat (mb_data_len mb) \<le> length (d_buf ?d (mb_buf mb))" "mb_off mb + unat (mb_pkt_len mb) \<le> length (d_buf ?d (mb_buf mb))"
      using add [of "mb_data_len ?mb"] add [of "mb_pkt_len ?mb"] len pl mb by simp_all
    then have io2: "io_ok (se_io E) ?d2"
      by (intro io_ok_mbuf [OF io1, of m]) (use stn_length [OF mem] in \<open>simp_all add: mbuf_in_def\<close>)
    have up: "mtod ?d2 m = se_upcall E cmd key @ mtod ?d m"
      using drop_stn [OF mem] u mb(1,2) by (simp add: mtod_def)
    obtain rslt w where q: "ring_enqueue (e_lib (se_io E)) VSWITCHD_PACKET m (d_lib ?d2) = (rslt, w)" by fastforce
    note e = enqueue_or_free [OF L q, of "e_cores (se_io E)"] stn_length [OF mem]
    show ?thesis
      using Some mem q io2 e up
      by (cases "rslt = - ENOBUFS") (auto simp: send_packet_to_vswitchd_def Let_def handed_def tidy_def send_signal_to_dpif_def mtod_def)
  qed
qed

lemma switch_packet_ok:
  assumes L: "dpdk_ok (e_lib (se_io E)) holds" and E: "env_ok (se_io E)" and io: "io_ok (se_io E) (sw_dp s)"
    and i: "flow_inv (se_hash E) \<alpha> (sw_flow s)" and f: "flows_ok p q (flows \<alpha> (sw_flow s))" and r: "room p q (sw_dp s) m"
    and u: "\<And>c k. length (se_upcall E c k) = se_upcall_size E"
  shows "\<exists>s' ns. switch_packet E m key s = Some s' \<and> handed holds (se_io E) ns (sw_dp s) (sw_dp s') \<and> ns \<subseteq># {#m#} \<and>
    (no_leaks (flows \<alpha> (sw_flow s)) \<longrightarrow> ns = {#m#}) \<and> no_leaks (flows \<alpha> (sw_flow s')) = no_leaks (flows \<alpha> (sw_flow s)) \<and>
    tidy holds (se_io E) m (sw_dp s) (sw_dp s') \<and> flow_inv (se_hash E) \<alpha> (sw_flow s') \<and> flows_ok p q (flows \<alpha> (sw_flow s'))"
proof (cases rule: lookup_cases [OF i, of key, case_names found absent])
  case (found pos)
  let ?T = "sw_flow s"
  let ?acts = "fe_actions (flow_table ?T pos)"
  let ?ns = "if leaks ?acts then {#} else {#m#}"
  have fl: "flows \<alpha> ?T key = Some (?acts, fe_stats (flow_table ?T pos))" using found(1) by (simp add: flows_def)
  note a = f [unfolded flows_ok_def, rule_format, OF fl]
  from action_execute_handed [OF L E io room_mono [OF r] , of ?acts] a obtain d where d:
    "action_execute (se_io E) ?acts m (sw_dp s) = Some d" "handed holds (se_io E) ?ns (sw_dp s) d"
    "tidy holds (se_io E) m (sw_dp s) d" "room 0 0 d m" by auto
  from update_stats_ok [OF i found(1) mtod_room [OF d(4)]] obtain T where T:
    "flow_table_update_stats (sw_time s) pos (mtod d m) (mb_data_len (d_mbuf d m)) ?T = Some T" "flow_inv (se_hash E) \<alpha> T"
    "\<forall>k. map_option fst (flows \<alpha> T k) = map_option fst (flows \<alpha> ?T k)" by blast
  have "fe_enabled (flow_table ?T pos)" using flow_inv_entry [OF i found(1)] by simp
  then have "switch_packet E m key s = Some (s\<lparr>sw_dp := d, sw_flow := T\<rparr>)" using found(3) d(1) T(1) by (simp add: switch_packet_def)
  moreover have "no_leaks (flows \<alpha> ?T) \<longrightarrow> ?ns = {#m#}" using fl by (auto simp: no_leaks_def)
  moreover have "?ns \<subseteq># {#m#}" by simp
  ultimately show ?thesis using d(2,3) T(2) flows_ok_same [OF T(3)] f
    by (intro exI [of _ "s\<lparr>sw_dp := d, sw_flow := T\<rparr>"] exI [of _ ?ns]) simp
next
  case absent
  then show ?thesis
    using send_packet_ok [OF L io room_mono [OF r, of 0 0] u, of PACKET_CMD_MISS key] i f by (auto simp: switch_packet_def)
qed

section \<open>A burst\<close>

text \<open>The two loops handle the burst in its order.\<close>

lemma do_switch_packets_in_order: "do_switch_packets E v bufs s = iterate (switch_one E v) bufs s"
  using iterate_append [of "switch_one E v" "take (length bufs - PREFETCH_OFFSET) bufs" "drop (length bufs - PREFETCH_OFFSET) bufs" s]
  by (simp add: do_switch_packets_def Let_def)

lemma once_disjoint:
  assumes "once (add_mset m (mset ms + M))" "x \<in> set ms"
  shows "x \<noteq> m \<and> x \<notin># M"
proof -
  have "count (mset ms) x > 0" using assms(2) by simp
  moreover have "(if x = m then 1 else 0) + (count (mset ms) x + count M x) \<le> 1"
    using assms(1) [unfolded once_def, rule_format, of x] by (auto split: if_splits)
  ultimately have "x \<noteq> m" "count M x = 0" by (linarith | presburger)+
  then show ?thesis by (simp add: count_eq_zero_iff)
qed

lemma once_sub: "A \<subseteq># B \<Longrightarrow> once B \<Longrightarrow> once A"
  unfolding once_def by (meson mset_subset_eq_count order_trans)

lemma burst_ok:
  assumes L: "dpdk_ok (e_lib (se_io E)) holds" and E: "env_ok (se_io E)"
    and u: "\<And>c k. length (se_upcall E c k) = se_upcall_size E"
    and "io_ok (se_io E) (sw_dp s)" "flow_inv (se_hash E) \<alpha> (sw_flow s)" "flows_ok p q (flows \<alpha> (sw_flow s))"
    and "once (mset ms + owned holds (e_cores (se_io E)) (sw_dp s))" "\<forall>m \<in> set ms. room p q (sw_dp s) m"
  shows "\<exists>s' ns. iterate (switch_one E v) ms s = Some s' \<and> handed holds (se_io E) ns (sw_dp s) (sw_dp s') \<and> ns \<subseteq># mset ms \<and>
    (no_leaks (flows \<alpha> (sw_flow s)) \<longrightarrow> ns = mset ms) \<and>
    flow_inv (se_hash E) \<alpha> (sw_flow s') \<and> flows_ok p q (flows \<alpha> (sw_flow s')) \<and> d_vports (sw_dp s') = d_vports (sw_dp s)"
  using assms(4-)
proof (induction ms arbitrary: s)
  case Nil
  then show ?case by (simp add: handed_def)
next
  case (Cons m ms)
  have rm: "room p q (sw_dp s) m" using Cons.prems(5) by simp
  obtain key where k: "flow_key_extract (mtod (sw_dp s) m) (of_nat v) zero_key = Some key"
    using extract_defined [OF mtod_room [OF rm]] by blast
  from switch_packet_ok [OF L E Cons.prems(1-3) rm u, of key] obtain t ns where t: "switch_packet E m key s = Some t"
    "handed holds (se_io E) ns (sw_dp s) (sw_dp t)" "ns \<subseteq># {#m#}" "no_leaks (flows \<alpha> (sw_flow s)) \<longrightarrow> ns = {#m#}"
    "no_leaks (flows \<alpha> (sw_flow t)) = no_leaks (flows \<alpha> (sw_flow s))" "tidy holds (se_io E) m (sw_dp s) (sw_dp t)"
    "flow_inv (se_hash E) \<alpha> (sw_flow t)" "flows_ok p q (flows \<alpha> (sw_flow t))" by blast
  have "\<forall>x \<in> set ms. room p q (sw_dp t) x"
    using Cons.prems(4,5) t(6) once_disjoint [of m ms] by (auto simp: tidy_def room_def)
  moreover have "once (mset ms + owned holds (e_cores (se_io E)) (sw_dp t))"
    using Cons.prems(4) t(2,3) once_sub [of "mset ms + owned holds (e_cores (se_io E)) (sw_dp t)"
      "mset (m # ms) + owned holds (e_cores (se_io E)) (sw_dp s)"] by (simp add: handed_def)
  moreover have "io_ok (se_io E) (sw_dp t)" using t(2) by (simp add: handed_def)
  ultimately obtain u os where w: "iterate (switch_one E v) ms t = Some u" "handed holds (se_io E) os (sw_dp t) (sw_dp u)" "os \<subseteq># mset ms"
    "no_leaks (flows \<alpha> (sw_flow t)) \<longrightarrow> os = mset ms"
    "flow_inv (se_hash E) \<alpha> (sw_flow u)" "flows_ok p q (flows \<alpha> (sw_flow u))" "d_vports (sw_dp u) = d_vports (sw_dp t)"
    using Cons.IH [of t] t(7,8) by blast
  have "switch_one E v m s = Some t" using k t(1) by (simp add: switch_one_def)
  moreover have "ns + os \<subseteq># mset (m # ms)" using subset_mset.add_mono [OF t(3) w(3)] by simp
  ultimately show ?case
    using w handed_trans [OF t(2) w(2)] t(4-6) by (intro exI [of _ u] exI [of _ "ns + os"]) (simp add: tidy_def)
qed

section \<open>One turn of a port core\<close>

lemma receive_phy:
  assumes L: "dpdk_ok (e_lib io) holds" and v: "v < MAX_VPORTS" "vi_type (d_vports d v) = VPORT_TYPE_PHY"
  shows "\<exists>ms d'. receive_from_vport io v d = Some (ms, d') \<and> io_frame d d' \<and> io_ok io d' = io_ok io d \<and>
    owned holds n d = mset ms + owned holds n d'"
proof -
  obtain ms d' where r: "receive_from_port io v d = (ms, d')" by fastforce
  then have f: "receive_from_vport io v d = Some (ms, d')" using v by (simp add: receive_from_vport_def)
  have "io_frame d d'" "io_ok io d' = io_ok io d"
    using r by (auto simp: receive_from_port_def Let_def io_frame_def split: prod.splits if_splits)
  then show ?thesis using f receive_from_vport_account [OF L f, of n] by blast
qed

lemma on_dp_Some: "on_dp f s = Some s' \<longleftrightarrow> (\<exists>d. f (sw_dp s) = Some d \<and> s' = s\<lparr>sw_dp := d\<rparr>)"
  by (auto simp: on_dp_def)

lemma flush_caches_ok:
  assumes L: "dpdk_ok (e_lib (se_io E)) holds" and E: "env_ok (se_io E)" and io: "io_ok (se_io E) (sw_dp s)"
  shows "\<exists>d. flush_caches E s = Some (s\<lparr>sw_dp := d\<rparr>) \<and> flushed holds (se_io E) (sw_dp s) d \<and>
    (\<forall>p < num_clients (e_cfg (se_io E)). d_client_cache d (cache_row (se_io E)) p = []) \<and>
    (\<forall>p < num_phy_ports (e_cfg (se_io E)). d_port_cache d (cache_row (se_io E)) p = []) \<and>
    (\<forall>p < num_vhost (e_cfg (se_io E)). d_vhost_cache d (e_lcore (se_io E)) p = [])"
proof -
  from flush_clients_ok [OF L E io] obtain d1 where 1: "flush_clients (se_io E) (sw_dp s) = Some d1" "flushed holds (se_io E) (sw_dp s) d1"
    "\<forall>p < num_clients (e_cfg (se_io E)). d_client_cache d1 (cache_row (se_io E)) p = []" by blast
  then have "io_ok (se_io E) d1" by (simp add: flushed_def)
  from flush_ports_ok [OF L E this] obtain d2 where 2: "flush_ports (se_io E) d1 = Some d2" "flushed holds (se_io E) d1 d2"
    "d_client_cache d2 = d_client_cache d1" "\<forall>p < num_phy_ports (e_cfg (se_io E)). d_port_cache d2 (cache_row (se_io E)) p = []" by blast
  then have "io_ok (se_io E) d2" by (simp add: flushed_def)
  from flush_vhost_devs_ok [OF L E this] obtain d3 where 3: "flush_vhost_devs (se_io E) d2 = Some d3" "flushed holds (se_io E) d2 d3"
    "d_port_cache d3 = d_port_cache d2" "d_client_cache d3 = d_client_cache d2"
    "\<forall>p < num_vhost (e_cfg (se_io E)). d_vhost_cache d3 (e_lcore (se_io E)) p = []" by blast
  have "flush_caches E s = Some (s\<lparr>sw_dp := d3\<rparr>)" using 1(1) 2(1) 3(1) by (simp add: flush_caches_def on_dp_def)
  then show ?thesis using 1 2 3 flushed_trans [OF flushed_trans [OF 1(2) 2(2)] 3(2)] by auto
qed

text \<open>The caches of a core hold no packet.\<close>

definition caches_empty :: "'w env \<Rightarrow> 'w dp \<Rightarrow> bool" where
  "caches_empty io d \<longleftrightarrow> (\<forall>p < num_clients (e_cfg io). d_client_cache d (cache_row io) p = []) \<and>
     (\<forall>p < num_phy_ports (e_cfg io). d_port_cache d (cache_row io) p = []) \<and> (\<forall>p < num_vhost (e_cfg io). d_vhost_cache d (e_lcore io) p = [])"

lemma do_port_switching_ok:
  assumes L: "dpdk_ok (e_lib (se_io E)) holds" and E: "env_ok (se_io E)" and io: "io_ok (se_io E) (sw_dp s)"
    and u: "\<And>c k. length (se_upcall E c k) = se_upcall_size E"
    and i: "flow_inv (se_hash E) \<alpha> (sw_flow s)" and f: "flows_ok p q (flows \<alpha> (sw_flow s))"
    and o: "once (owned holds (e_cores (se_io E)) (sw_dp s))" and r: "\<forall>m \<in># owned holds (e_cores (se_io E)) (sw_dp s). room p q (sw_dp s) m"
    and v: "v < MAX_VPORTS" "vi_type (d_vports (sw_dp s) v) = VPORT_TYPE_PHY" "vi_index (d_vports (sw_dp s) v) < MAX_PHYPORTS"
  shows "\<exists>s'. do_port_switching E v s = Some s' \<and>
    owned holds (e_cores (se_io E)) (sw_dp s') \<subseteq># owned holds (e_cores (se_io E)) (sw_dp s) \<and>
    (no_leaks (flows \<alpha> (sw_flow s)) \<longrightarrow> owned holds (e_cores (se_io E)) (sw_dp s') = owned holds (e_cores (se_io E)) (sw_dp s)) \<and>
    caches_empty (se_io E) (sw_dp s') \<and> io_ok (se_io E) (sw_dp s') \<and> flow_inv (se_hash E) \<alpha> (sw_flow s')"
proof -
  let ?n = "e_cores (se_io E)"
  from receive_phy [OF L v(1,2), of ?n] obtain ms d1 where 1: "receive_from_vport (se_io E) v (sw_dp s) = Some (ms, d1)"
    "io_frame (sw_dp s) d1" "io_ok (se_io E) d1" "owned holds ?n (sw_dp s) = mset ms + owned holds ?n d1" using io by blast
  let ?s1 = "s\<lparr>sw_dp := d1\<rparr>"
  have "\<forall>m \<in> set ms. room p q d1 m" using r 1(4) room_frame [OF 1(2)] by simp
  with burst_ok [OF L E u, of ?s1 \<alpha> p q ms v] 1 i f o obtain s2 ns where 2: "iterate (switch_one E v) ms ?s1 = Some s2"
    "handed holds (se_io E) ns d1 (sw_dp s2)" "flow_inv (se_hash E) \<alpha> (sw_flow s2)" "d_vports (sw_dp s2) = d_vports d1"
    "ns \<subseteq># mset ms" "no_leaks (flows \<alpha> (sw_flow s)) \<longrightarrow> ns = mset ms" by auto
  then have "io_ok (se_io E) (sw_dp s2)" by (simp add: handed_def)
  from flush_caches_ok [OF L E this] obtain d3 where 3: "flush_caches E s2 = Some (s2\<lparr>sw_dp := d3\<rparr>)"
    "flushed holds (se_io E) (sw_dp s2) d3" "caches_empty (se_io E) d3" unfolding caches_empty_def by blast
  have vp: "d_vports d3 = d_vports (sw_dp s)" using 1(2) 2(4) 3(2) by (simp add: flushed_def io_frame_def)
  then have "vi_index (d_vports d3 v) < MAX_PHYPORTS" using v(3) by simp
  from flush_nic_tx_ring_ok [OF L this, of ?n] obtain d4 where 4: "flush_nic_tx_ring (se_io E) v d3 = Some d4"
    "owned holds ?n d4 = owned holds ?n d3" "d_client_cache d4 = d_client_cache d3" "d_port_cache d4 = d_port_cache d3"
    "d_vhost_cache d4 = d_vhost_cache d3" "d_vports d4 = d_vports d3" "d_dev d4 = d_dev d3" "d_mbuf d4 = d_mbuf d3" "d_buf d4 = d_buf d3" by blast
  have "do_port_switching E v s = Some (s2\<lparr>sw_dp := d4\<rparr>)"
    using 1(1) 2(1) 3(1) 4(1) by (simp add: do_port_switching_def poll_port_def do_switch_packets_in_order on_dp_def)
  moreover have "io_ok (se_io E) d4" "caches_empty (se_io E) d4"
    using 3 4(3-) memory_same(1) [of d3 d4] memory_same(2) [of d3 d4] by (simp_all add: flushed_def io_ok_def caches_ok_def caches_empty_def)
  moreover have "owned holds ?n d4 = ns + owned holds ?n d1" using 2(2) 3(2) 4(2) by (simp add: flushed_def handed_def)
  then have "owned holds ?n d4 \<subseteq># owned holds ?n (sw_dp s)" "no_leaks (flows \<alpha> (sw_flow s)) \<longrightarrow> owned holds ?n d4 = owned holds ?n (sw_dp s)"
    using 1(4) 2(5,6) by simp_all
  ultimately show ?thesis using 2(3) by simp
qed

section \<open>Polling in turn\<close>

text \<open>One step of a round over \<open>lo\<close>, \<open>lo + 1\<close>, \<dots>, \<open>hi - 1\<close>, and \<open>n\<close> steps.\<close>

definition turn :: "nat \<Rightarrow> nat \<Rightarrow> nat \<Rightarrow> nat" where
  "turn lo hi x = (if x + 1 = hi then lo else x + 1)"

lemma turn_pow: "lo \<le> x \<Longrightarrow> x < hi \<Longrightarrow> (turn lo hi ^^ n) x = lo + (x - lo + n) mod (hi - lo)"
proof (induction n)
  case (Suc n)
  let ?k = "(x - lo + n) mod (hi - lo)"
  have "?k < hi - lo" using Suc.prems by simp
  then have "turn lo hi (lo + ?k) = lo + Suc ?k mod (hi - lo)"
    by (cases "Suc ?k = hi - lo") (auto simp: turn_def)
  then show ?case using Suc by (simp add: mod_Suc_eq)
qed simp

lemma turn_range:
  assumes "lo \<le> x" "x < hi"
  shows "lo \<le> (turn lo hi ^^ n) x" "(turn lo hi ^^ n) x < hi"
  using turn_pow [OF assms, of n] mod_less_divisor [of "hi - lo" "x - lo + n"] assms by linarith+

lemma turn_fair:
  assumes "lo \<le> x" "x < hi" "lo \<le> t" "t < hi"
  shows "\<exists>n < hi - lo. (turn lo hi ^^ n) x = t"
proof -
  let ?n = "(t - lo + (hi - lo) - (x - lo)) mod (hi - lo)"
  have "(x - lo + ?n) mod (hi - lo) = (x - lo + (t - lo + (hi - lo) - (x - lo))) mod (hi - lo)" by (simp add: mod_add_right_eq)
  also have "x - lo + (t - lo + (hi - lo) - (x - lo)) = t - lo + (hi - lo)" using assms by simp
  also have "(t - lo + (hi - lo)) mod (hi - lo) = (t - lo) mod (hi - lo)" by (rule mod_add_self2)
  also have "\<dots> = t - lo" using assms by simp
  finally have "(turn lo hi ^^ ?n) x = t" using assms by (simp add: turn_pow)
  then show ?thesis using assms by (intro exI [of _ ?n]) simp
qed

lemma unat_turn:
  assumes "unat x < hi" "hi < 2 ^ 32"
  shows "unat (if x + 1 = of_nat hi then of_nat lo else x + 1 :: u32) = (if unat x + 1 = hi then lo mod 2 ^ 32 else unat x + 1)"
proof -
  have x: "unat (x + 1) = unat x + 1" using assms by (simp add: unat_word_ariths)
  have "x + 1 = of_nat hi \<longleftrightarrow> unat x + 1 = hi"
    using assms x by (auto simp: word_unat_eq_iff unat_of_nat take_bit_nat_eq_self)
  then show ?thesis using x by (simp add: unsigned_of_nat take_bit_nat_def)
qed

lemma next_client_turn:
  assumes "unat c < num_clients cfg" "num_clients cfg \<le> 16"
  shows "unat (next_client cfg c) = turn 1 (num_clients cfg) (unat c)"
  using unat_turn [of c "num_clients cfg" 1] assms by (auto simp: next_client_def turn_def split: if_splits)

lemma next_client_pow:
  assumes "1 \<le> unat c" "unat c < num_clients cfg" "num_clients cfg \<le> 16"
  shows "unat ((next_client cfg ^^ n) c) = (turn 1 (num_clients cfg) ^^ n) (unat c)"
proof (induction n)
  case (Suc n)
  have "unat ((next_client cfg ^^ n) c) < num_clients cfg" using Suc turn_range(2) [OF assms(1,2)] by simp
  then show ?case using Suc next_client_turn assms(3) by simp
qed simp

section \<open>Properties\<close>




text \<open>C1: One turn of a core that serves a physical port: whatever burst the device gives, every packet is extracted and
  switched in order without an access outside of its buffer, then all caches of the core and the transmit ring are
  flushed. Afterwards no packet is in the account that was not there before, none is left in a cache of the core, and the
  tables of flows and ports are well-formed. No packet is lost either if no flow has actions without an output; a packet
  that meets such a flow is neither sent nor freed. What is assumed: the physical ports are numbered from 0x10 on without
  gaps, the core has its rows in the caches, no cache is full, every mbuf is in one place, and lies in its buffer with room
  for the headers and for the tags the flows push and pop, the flows have actions, an upcall has its fixed length, and the
  rings of every attached guest are consistent and its buffers mapped with room for a header and a packet; the guest may
  offer any number of them.\<close>

theorem port_switching_turn:
  assumes "dpdk_ok (e_lib (se_io E)) holds" "env_ok (se_io E)" "vports_ok (e_cfg (se_io E)) (d_vports (sw_dp s))"
    and "caches_ok (sw_dp s)" "mbufs_ok (sw_dp s)" "guests_ready (sw_dp s)" "\<forall>c k. length (se_upcall E c k) = se_upcall_size E"
    and "flow_inv (se_hash E) \<alpha> (sw_flow s)" "flows_ok p q (flows \<alpha> (sw_flow s))"
    and "once (owned holds (e_cores (se_io E)) (sw_dp s))" "\<forall>m. m \<in># owned holds (e_cores (se_io E)) (sw_dp s) \<longrightarrow> room p q (sw_dp s) m"
    and "v < MAX_VPORTS" "vi_type (d_vports (sw_dp s) v) = VPORT_TYPE_PHY" "vi_index (d_vports (sw_dp s) v) < MAX_PHYPORTS"
  shows "\<exists>s'. do_port_switching E v s = Some s' \<and>
    owned holds (e_cores (se_io E)) (sw_dp s') \<subseteq># owned holds (e_cores (se_io E)) (sw_dp s) \<and>
    (no_leaks (flows \<alpha> (sw_flow s)) \<longrightarrow> owned holds (e_cores (se_io E)) (sw_dp s') = owned holds (e_cores (se_io E)) (sw_dp s)) \<and>
    caches_empty (se_io E) (sw_dp s') \<and> vports_ok (e_cfg (se_io E)) (d_vports (sw_dp s')) \<and> caches_ok (sw_dp s') \<and>
    mbufs_ok (sw_dp s') \<and> guests_ready (sw_dp s') \<and> flow_inv (se_hash E) \<alpha> (sw_flow s')"
proof -
  have "io_ok (se_io E) (sw_dp s)" using assms(3-6) by (simp add: io_ok_def)
  from do_port_switching_ok [OF assms(1,2) this _ assms(8-10) _ assms(12-14)] assms(7,11) show ?thesis by (auto simp: io_ok_def)
qed

text \<open>C17: The client core polls the client ports in turn: it never polls any other port in their place, and every client is
  polled again within as many turns as there are clients. There have to be two clients at least, the daemon counted.\<close>

theorem client_polling_fair:
  assumes "2 \<le> num_clients cfg" "num_clients cfg \<le> 16" "1 \<le> unat c" "unat c < num_clients cfg"
  shows "(\<forall>n. 1 \<le> unat ((next_client cfg ^^ n) c) \<and> unat ((next_client cfg ^^ n) c) < num_clients cfg) \<and>
    (\<forall>t \<in> {1..<num_clients cfg}. \<exists>n < num_clients cfg - 1. unat ((next_client cfg ^^ n) c) = t)"
proof -
  note p = next_client_pow [OF assms(3,4,2)]
  show ?thesis using p turn_range [OF assms(3,4)] turn_fair [of 1 "unat c" "num_clients cfg"] assms(3,4) by auto
qed

text \<open>With the daemon as the only client the counter never comes back: after 15 turns the client core polls the first
  physical port, which another core serves.\<close>

theorem client_polling_escapes:
  assumes "num_clients cfg = 1"
  shows "unat ((next_client cfg ^^ 15) (p_client poll_init)) = PHYPORT0"
proof -
  have "(next_client cfg ^^ n) 1 = of_nat (Suc n)" if "n \<le> 15" for n
    using that
  proof (induction n)
    case (Suc n)
    have "(of_nat (Suc n) + 1 :: u32) = of_nat (n + 2)" by simp
    moreover have "unat (of_nat (n + 2) :: u32) = n + 2" using Suc.prems by (simp only: unat_of_nat) simp
    ultimately have "(of_nat (Suc n) + 1 :: u32) \<noteq> 1" by (metis add_2_eq_Suc' nat.inject nat.simps(3) unat_1 One_nat_def)
    then show ?case using Suc assms by (simp add: next_client_def)
  qed simp
  from this [of 15] show ?thesis by (simp add: poll_init_def vport_consts)
qed

theorem client_polling_fair_witness:
  "\<exists>n < 2. unat ((next_client example_cfg ^^ n) 1) = 2"
  using client_polling_fair [of example_cfg 1] by (simp add: example_cfg_def)

theorem client_polling_escapes_witness:
  "unat ((next_client (example_cfg\<lparr>num_clients := 1\<rparr>) ^^ 15) (p_client poll_init)) = 16"
  using client_polling_escapes [of "example_cfg\<lparr>num_clients := 1\<rparr>"] by (simp add: PHYPORT0_def)

text \<open>A switch with one flow, which sends its packets to a physical port.\<close>

definition hit_table :: "slots flow_state" where
  "hit_table = snd (flow_table_add_flow slots_hash example_key [ACTION_OUTPUT 0x10, ACTION_NULL] (flow_table_init []))"


lemma hit_table_eq:
  "handle hit_table = [Some example_key]" "flow_table hit_table 0 = \<lparr>fe_key = example_key, fe_stats = zero_stats, fe_enabled = True,
     fe_actions = [ACTION_OUTPUT 0x10, ACTION_NULL]\<rparr>"
  by (simp_all add: hit_table_def flow_table_add_flow_def flow_table_init_def flow_table_lookup_def slots_hash_def
      slots_map_def find_from_def ENOENT_def bad_pos_def MAX_FLOWS_def clear_stats_entry set_entry_def)

lemma hit_table_map: "slots_map (handle hit_table) = [example_key \<mapsto> 0]"
  by (rule ext) (simp add: hit_table_eq(1) slots_map_def find_from_def MAX_FLOWS_def)

lemma hit_table_inv: "flow_inv slots_hash slots_map hit_table"
  unfolding hit_table_def by (rule ft.add_inv [OF init_example])



text \<open>A library whose device has received two packets.\<close>

definition rx_lib :: "(nat list \<times> nat list) dpdk" where
  "rx_lib = ring_lib\<lparr>eth_rx_burst := (\<lambda>_ n (p, a). (take n a, (p, drop n a)))\<rparr>"

lemma rx_lib_ok: "dpdk_ok rx_lib (\<lambda>(p, a). mset p + mset a)"
  using ring_lib_ok mset_take_drop
  by (simp add: dpdk_ok_def rx_lib_def gives_def split: prod.splits) (simp flip: mset_append)

definition rx_senv :: "(nat list \<times> nat list, flow_key option list) senv" where
  "rx_senv = \<lparr>se_io = ring_env\<lparr>e_lib := rx_lib\<rparr>, se_hash = slots_hash, se_max_lcore = 1, se_enc = (\<lambda>_. zeros 64),
     se_dec = (\<lambda>_. \<lparr>msg_type = FLOW_CMD_FAMILY, msg_payload = FLOW_MSG example_flow_msg\<rparr>), se_upcall = (\<lambda>_ _. zeros 32),
     se_msg_size = 64, se_upcall_size = 32\<rparr>"

definition rx_switch :: "(nat list \<times> nat list, flow_key option list) switch" where
  "rx_switch = \<lparr>sw_dp = (ring_dp 0)\<lparr>d_lib := ([1, 2], [3, 4]), d_vports := d_vports example_io, d_dev := d_dev example_io\<rparr>,
     sw_flow = hit_table, sw_time = \<lparr>curr_tsc = 0, cpu_freq = 1, tv_sec = 0, tv_nsec = 0\<rparr>, sw_signals = 0\<rparr>"

lemma owned_rx: "owned (\<lambda>(p, a). mset p + mset a) 1 (sw_dp rx_switch) = {#1, 2, 3, 4#}"
  by (simp add: owned_def rx_switch_def ring_dp_def cache_sum_def)

theorem port_switching_turn_witness:
  "\<exists>s'. do_port_switching rx_senv 0x10 rx_switch = Some s' \<and> owned (\<lambda>(p, a). mset p + mset a) 1 (sw_dp s') = {#1, 2, 3, 4#} \<and>
     caches_empty (se_io rx_senv) (sw_dp s')"
proof -
  let ?h = "\<lambda>(p, a). mset p + mset a :: nat multiset"
  have io: "se_io rx_senv = ring_env\<lparr>e_lib := rx_lib\<rparr>" by (simp add: rx_senv_def)
  have vp: "d_vports (sw_dp rx_switch) = d_vports example_io" by (simp add: rx_switch_def)
  have t: "vi_type (d_vports example_io 0x10) = VPORT_TYPE_PHY"
    using vports_ok_type [OF example_io_ok(2), of "0x10"] by (simp add: vport_kind_def example_env_def example_cfg_def vport_consts)
  have ok: "vports_ok (e_cfg (se_io rx_senv)) (d_vports (sw_dp rx_switch))" "caches_ok (sw_dp rx_switch)"
    "mbufs_ok (sw_dp rx_switch)" "guests_ready (sw_dp rx_switch)"
  proof -
    show "vports_ok (e_cfg (se_io rx_senv)) (d_vports (sw_dp rx_switch))" using example_io_ok(2) by (simp add: vp io ring_env_def example_env_def)
    show "caches_ok (sw_dp rx_switch)" by (simp add: caches_ok_def rx_switch_def ring_dp_def LOCAL_MBUF_CACHE_SIZE_def)
    show "mbufs_ok (sw_dp rx_switch)" by (simp add: mbufs_ok_def mbuf_in_def rx_switch_def ring_dp_def example_dp_def)
    show "guests_ready (sw_dp rx_switch)"
      unfolding guests_ready_def by (intro exI [of _ 2048]) (simp add: rx_switch_def ring_dp_def example_dp_def example_io_def live_dev_ready)
  qed
  have e: "env_ok (se_io rx_senv)" using example_io_ok(1) by (simp add: env_ok_def io ring_env_def example_env_def cache_row_def)
  have ix: "vi_index (d_vports (sw_dp rx_switch) 0x10) < MAX_PHYPORTS"
  proof -
    have "vi_index (setup_port p k x n t p) = x" for p k x n t
      by (simp add: setup_port_def vport_set_name_def vport_disable_def)
    then show ?thesis by (simp add: vp example_io_def vport_init_def Let_def MAX_PHYPORTS_def example_cfg_def)
  qed
  have n: "e_cores (se_io rx_senv) = 1" by (simp add: io ring_env_def)
  have L: "dpdk_ok (e_lib (se_io rx_senv)) ?h" by (simp add: io rx_lib_ok)
  have u: "\<forall>c k. length (se_upcall rx_senv c k) = se_upcall_size rx_senv" by (simp add: rx_senv_def)
  have fi: "flow_inv (se_hash rx_senv) slots_map (sw_flow rx_switch)" using hit_table_inv by (simp add: rx_senv_def rx_switch_def)
  have F: "flows slots_map (sw_flow rx_switch) = [example_key \<mapsto> ([ACTION_OUTPUT 0x10, ACTION_NULL], zero_stats)]"
    by (rule ext) (simp add: flows_def rx_switch_def hit_table_eq(2) hit_table_map)
  have fo: "flows_ok 0 0 (flows slots_map (sw_flow rx_switch))" "no_leaks (flows slots_map (sw_flow rx_switch))"
    unfolding F by (simp_all add: flows_ok_def no_leaks_def leaks_def MAX_ACTIONS_def split: if_splits)
  have on: "once (owned ?h (e_cores (se_io rx_senv)) (sw_dp rx_switch))" unfolding n owned_rx by (simp add: once_def)
  have rm: "\<forall>m. m \<in># owned ?h (e_cores (se_io rx_senv)) (sw_dp rx_switch) \<longrightarrow> room 0 0 (sw_dp rx_switch) m"
    by (simp add: room_def rx_switch_def ring_dp_def example_dp_def)
  from port_switching_turn [OF L e ok u fi fo(1) on rm _ _ ix] fo(2) t show ?thesis unfolding n owned_rx by (auto simp: vp MAX_VPORTS_def)
qed

end
