(* ===== verification/DevRemoval.thy ===== *)
theory DevRemoval
  imports Virtio
begin

text \<open>
  The removal of a vhost device while the cores run: \<open>new_device\<close> and \<open>destroy_device\<close> of \<open>datapath/dpdk/vhost.c\<close> and the top of the
  loop of \<open>lcore_main\<close> in \<open>main.c\<close>. The thread that serves the character device takes the device off its port, raises the flag of
  every core, and waits until every core has lowered its flag; then the memory of the device may be unmapped. When no port has the
  name of the device, it returns at once. A core looks at its flag between two turns; within a turn it may read the pointer to the
  device from a port at any time and use it until the function that read it returns. Each access to shared memory is one step, in any
  interleaving, and in between ports are renamed and other devices come and go.
\<close>

section \<open>States and steps\<close>

datatype removal_flag = REQUEST_DEV_REMOVAL | ACK_DEV_REMOVAL

text \<open>Where the thread is: outside of the removal, or in one of the two loops over the cores, which count up.\<close>

datatype remover = IDLE | REQUESTING nat | WAITING nat

text \<open>A core is between two turns, or in a turn and holds the pointer or not.\<close>

datatype core = TOP | TURN bool

text \<open>The ports, and of the device the name, whether it runs, and whether its memory is mapped.\<close>

record removal =
  rm_vports :: vport_table
  rm_name :: string
  rm_running :: bool
  rm_mapped :: bool
  dev_removal_flag :: "nat \<Rightarrow> removal_flag"
  rm_thread :: remover
  rm_core :: "nat \<Rightarrow> core"

definition removal_init :: "vport_table \<Rightarrow> removal" where
  "removal_init t = \<lparr>rm_vports = t, rm_name = [], rm_running = False, rm_mapped = False, dev_removal_flag = (\<lambda>_. ACK_DEV_REMOVAL),
     rm_thread = IDLE, rm_core = (\<lambda>_. TOP)\<rparr>"

text \<open>A port is renamed, the memory is unmapped, or anything else.\<close>

datatype removal_act = RENAME | UNMAP | OTHER

text \<open>
  The steps of \<open>n\<close> cores and of the thread, for the device with the handle \<open>fh\<close>. The memory is unmapped by the release of the
  device, but also by a new memory table and by a reset of the owner, which do not ask whether it runs.
\<close>

inductive removal_step :: "vport_cfg \<Rightarrow> nat \<Rightarrow> nat \<Rightarrow> removal \<Rightarrow> removal_act \<Rightarrow> removal \<Rightarrow> bool" for cfg n fh where
  rename: "removal_step cfg n fh s RENAME (s\<lparr>rm_vports := vport_set_name p name (rm_vports s)\<rparr>)"
| other_up: "fh' \<noteq> fh \<Longrightarrow> removal_step cfg n fh s OTHER (s\<lparr>rm_vports := snd (vport_vhost_up cfg fh' name (rm_vports s))\<rparr>)"
| other_down: "removal_step cfg n fh s OTHER (s\<lparr>rm_vports := snd (vport_vhost_down cfg name (rm_vports s))\<rparr>)"
| mmap: "rm_thread s = IDLE \<Longrightarrow> removal_step cfg n fh s OTHER (s\<lparr>rm_mapped := True\<rparr>)"
| munmap: "rm_thread s = IDLE \<Longrightarrow> removal_step cfg n fh s UNMAP (s\<lparr>rm_mapped := False\<rparr>)"
| attach: "rm_thread s = IDLE \<Longrightarrow> \<not> rm_running s \<Longrightarrow> rm_mapped s \<Longrightarrow> vport_vhost_up cfg fh name (rm_vports s) = (r, t) \<Longrightarrow>
    removal_step cfg n fh s OTHER (if r < 0 then s\<lparr>rm_name := name\<rparr> else s\<lparr>rm_name := name, rm_vports := t, rm_running := True\<rparr>)"
| down: "rm_thread s = IDLE \<Longrightarrow> rm_running s \<Longrightarrow> vport_vhost_down cfg (rm_name s) (rm_vports s) = (r, t) \<Longrightarrow>
    removal_step cfg n fh s OTHER (if r < 0 then s\<lparr>rm_running := False\<rparr> else s\<lparr>rm_vports := t, rm_thread := REQUESTING 0\<rparr>)"
| request: "rm_thread s = REQUESTING k \<Longrightarrow> k < n \<Longrightarrow> removal_step cfg n fh s OTHER
    (s\<lparr>dev_removal_flag := (dev_removal_flag s)(k := REQUEST_DEV_REMOVAL), rm_thread := REQUESTING (Suc k)\<rparr>)"
| requested: "rm_thread s = REQUESTING n \<Longrightarrow> removal_step cfg n fh s OTHER (s\<lparr>rm_thread := WAITING 0\<rparr>)"
| acked: "rm_thread s = WAITING k \<Longrightarrow> k < n \<Longrightarrow> dev_removal_flag s k = ACK_DEV_REMOVAL \<Longrightarrow>
    removal_step cfg n fh s OTHER (s\<lparr>rm_thread := WAITING (Suc k)\<rparr>)"
| removed: "rm_thread s = WAITING n \<Longrightarrow> removal_step cfg n fh s OTHER (s\<lparr>rm_thread := IDLE, rm_running := False\<rparr>)"
| ack: "c < n \<Longrightarrow> rm_core s c = TOP \<Longrightarrow> dev_removal_flag s c = REQUEST_DEV_REMOVAL \<Longrightarrow> removal_step cfg n fh s OTHER
    (s\<lparr>dev_removal_flag := (dev_removal_flag s)(c := ACK_DEV_REMOVAL), rm_core := (rm_core s)(c := TURN False)\<rparr>)"
| pass: "c < n \<Longrightarrow> rm_core s c = TOP \<Longrightarrow> dev_removal_flag s c = ACK_DEV_REMOVAL \<Longrightarrow>
    removal_step cfg n fh s OTHER (s\<lparr>rm_core := (rm_core s)(c := TURN False)\<rparr>)"
| read: "c < n \<Longrightarrow> rm_core s c = TURN False \<Longrightarrow> vi_dev (rm_vports s p) = Some fh \<Longrightarrow>
    removal_step cfg n fh s OTHER (s\<lparr>rm_core := (rm_core s)(c := TURN True)\<rparr>)"
| release: "c < n \<Longrightarrow> rm_core s c = TURN h \<Longrightarrow> removal_step cfg n fh s OTHER (s\<lparr>rm_core := (rm_core s)(c := TURN False)\<rparr>)"
| turn_end: "c < n \<Longrightarrow> rm_core s c = TURN False \<Longrightarrow> removal_step cfg n fh s OTHER (s\<lparr>rm_core := (rm_core s)(c := TOP)\<rparr>)"

text \<open>The device is in use: a port has the pointer to it, or a core holds it.\<close>

definition attached :: "nat \<Rightarrow> vport_table \<Rightarrow> nat set" where
  "attached fh t = {p. vi_dev (t p) = Some fh}"

definition in_use :: "nat \<Rightarrow> nat \<Rightarrow> removal \<Rightarrow> bool" where
  "in_use n fh s \<longleftrightarrow> attached fh (rm_vports s) \<noteq> {} \<or> (\<exists>c < n. rm_core s c = TURN True)"

text \<open>Steps that respect the use of the device: no port is renamed meanwhile, and no memory unmapped while it runs.\<close>

fun careful :: "nat \<Rightarrow> nat \<Rightarrow> removal \<Rightarrow> removal_act \<Rightarrow> bool" where
  "careful n fh s RENAME = (\<not> in_use n fh s)"
| "careful n fh s UNMAP = (\<not> rm_running s)"
| "careful n fh s OTHER = True"

section \<open>Ports\<close>

lemma vhost_find_names: "(\<And>p. vi_name (t' p) = vi_name (t p)) \<Longrightarrow> vport_vhost_find cfg t' name = vport_vhost_find cfg t name"
  by (simp add: vport_vhost_find_def)

lemma vhost_up_names: "vi_name (snd (vport_vhost_up cfg fh name t) p) = vi_name (t p)"
  by (simp add: vport_vhost_up_def split: option.split)

lemma vhost_down_names: "vi_name (snd (vport_vhost_down cfg name t) p) = vi_name (t p)"
  by (simp add: vport_vhost_down_def split: option.split)

lemma attached_up: "fh' \<noteq> fh \<Longrightarrow> attached fh (snd (vport_vhost_up cfg fh' name t)) \<subseteq> attached fh t"
  by (auto simp: attached_def vport_vhost_up_def split: option.splits if_splits)

lemma attached_down: "attached fh (snd (vport_vhost_down cfg name t)) \<subseteq> attached fh t"
  by (auto simp: attached_def vport_vhost_down_def split: option.splits if_splits)

section \<open>Safety\<close>

text \<open>A core whose flag has been lowered since the device was taken off holds no pointer, and cannot get one.\<close>

definition quiet :: "removal \<Rightarrow> nat \<Rightarrow> bool" where
  "quiet s c \<longleftrightarrow> dev_removal_flag s c = ACK_DEV_REMOVAL \<longrightarrow> rm_core s c \<noteq> TURN True"

definition thread_inv :: "nat \<Rightarrow> nat \<Rightarrow> removal \<Rightarrow> bool" where
  "thread_inv n fh s \<longleftrightarrow> (case rm_thread s of
     IDLE \<Rightarrow> rm_running s \<or> \<not> in_use n fh s
   | REQUESTING k \<Rightarrow> rm_running s \<and> attached fh (rm_vports s) = {} \<and> k \<le> n \<and> (\<forall>c < k. quiet s c)
   | WAITING k \<Rightarrow> rm_running s \<and> attached fh (rm_vports s) = {} \<and> k \<le> n \<and> (\<forall>c < n. quiet s c) \<and> (\<forall>c < k. dev_removal_flag s c = ACK_DEV_REMOVAL))"

definition name_inv :: "vport_cfg \<Rightarrow> nat \<Rightarrow> nat \<Rightarrow> removal \<Rightarrow> bool" where
  "name_inv cfg n fh s \<longleftrightarrow> (case vport_vhost_find cfg (rm_vports s) (rm_name s) of
     None \<Rightarrow> \<not> in_use n fh s | Some v \<Rightarrow> attached fh (rm_vports s) \<subseteq> {VHOST0 + v})"

definition removal_inv :: "vport_cfg \<Rightarrow> nat \<Rightarrow> nat \<Rightarrow> removal \<Rightarrow> bool" where
  "removal_inv cfg n fh s \<longleftrightarrow> thread_inv n fh s \<and> name_inv cfg n fh s \<and> (rm_running s \<longrightarrow> rm_mapped s)"

lemma removal_init_inv: "attached fh t = {} \<Longrightarrow> removal_inv cfg n fh (removal_init t)"
  by (simp add: removal_init_def removal_inv_def thread_inv_def name_inv_def in_use_def split: option.split)

text \<open>Ports that lose pointers to the device, and keep their names, keep the invariant.\<close>

lemma inv_ports:
  assumes "removal_inv cfg n fh s" "attached fh t \<subseteq> attached fh (rm_vports s)" "\<And>p. vi_name (t p) = vi_name (rm_vports s p)"
  shows "removal_inv cfg n fh (s\<lparr>rm_vports := t\<rparr>)"
proof -
  have u: "in_use n fh s" if "in_use n fh (s\<lparr>rm_vports := t\<rparr>)" using that assms(2) by (auto simp: in_use_def)
  have q: "quiet (s\<lparr>rm_vports := t\<rparr>) c = quiet s c" for c by (simp add: quiet_def)
  have f: "vport_vhost_find cfg t (rm_name s) = vport_vhost_find cfg (rm_vports s) (rm_name s)" by (rule vhost_find_names) (rule assms(3))
  have "thread_inv n fh (s\<lparr>rm_vports := t\<rparr>)" using assms(1,2) u by (cases "rm_thread s") (auto simp: removal_inv_def thread_inv_def q)
  moreover have "name_inv cfg n fh (s\<lparr>rm_vports := t\<rparr>)" using assms(1,2) u by (auto simp: removal_inv_def name_inv_def f split: option.splits)
  ultimately show ?thesis using assms(1) by (simp add: removal_inv_def)
qed

lemma inv_rename:
  assumes "removal_inv cfg n fh s" "\<not> in_use n fh s"
  shows "removal_inv cfg n fh (s\<lparr>rm_vports := vport_set_name p name (rm_vports s)\<rparr>)"
proof -
  let ?t = "vport_set_name p name (rm_vports s)"
  have a: "attached fh ?t = attached fh (rm_vports s)" by (auto simp: attached_def vport_set_name_def)
  have u: "\<not> in_use n fh (s\<lparr>rm_vports := ?t\<rparr>)" using assms(2) by (simp add: in_use_def a)
  have "attached fh (rm_vports s) = {}" using assms(2) by (simp add: in_use_def)
  then show ?thesis using assms(1) u by (auto simp: removal_inv_def thread_inv_def name_inv_def quiet_def a split: option.splits remover.splits)
qed

lemma inv_attach:
  assumes "removal_inv cfg n fh s" "rm_thread s = IDLE" "\<not> rm_running s" "rm_mapped s" "vport_vhost_up cfg fh name (rm_vports s) = (r, t)"
  shows "removal_inv cfg n fh (if r < 0 then s\<lparr>rm_name := name\<rparr> else s\<lparr>rm_name := name, rm_vports := t, rm_running := True\<rparr>)"
proof -
  have u: "\<not> in_use n fh s" "attached fh (rm_vports s) = {}" "\<forall>c < n. rm_core s c \<noteq> TURN True"
    using assms(1-3) by (simp_all add: removal_inv_def thread_inv_def in_use_def)
  show ?thesis
  proof (cases "vport_vhost_find cfg (rm_vports s) name")
    case None
    then show ?thesis using assms u by (simp add: vport_vhost_up_def removal_inv_def thread_inv_def name_inv_def in_use_def)
  next
    case (Some v)
    then have t: "t = (rm_vports s)(VHOST0 + v := (rm_vports s (VHOST0 + v))\<lparr>vi_dev := Some fh\<rparr>)" "r = 0" using assms(5) by (simp_all add: vport_vhost_up_def)
    then have "attached fh t \<subseteq> {VHOST0 + v}" using u(2) by (auto simp: attached_def split: if_splits)
    moreover have "vport_vhost_find cfg t name = Some v" using Some vhost_find_names [of t "rm_vports s" cfg name] t(1) by simp
    ultimately show ?thesis using assms(2,4) t(2) by (simp add: removal_inv_def thread_inv_def name_inv_def)
  qed
qed

lemma inv_down:
  assumes "removal_inv cfg n fh s" "rm_thread s = IDLE" "rm_running s" "vport_vhost_down cfg (rm_name s) (rm_vports s) = (r, t)"
  shows "removal_inv cfg n fh (if r < 0 then s\<lparr>rm_running := False\<rparr> else s\<lparr>rm_vports := t, rm_thread := REQUESTING 0\<rparr>)"
proof (cases "vport_vhost_find cfg (rm_vports s) (rm_name s)")
  case None
  then have "\<not> in_use n fh s" "r < 0" using assms(1,4) by (simp_all add: removal_inv_def name_inv_def vport_vhost_down_def)
  then show ?thesis using assms(2) None by (simp add: removal_inv_def thread_inv_def name_inv_def in_use_def)
next
  case (Some v)
  then have t: "t = (rm_vports s)(VHOST0 + v := (rm_vports s (VHOST0 + v))\<lparr>vi_dev := None\<rparr>)" "r = 0" using assms(4) by (simp_all add: vport_vhost_down_def)
  moreover have "attached fh (rm_vports s) \<subseteq> {VHOST0 + v}" using assms(1) Some by (simp add: removal_inv_def name_inv_def)
  ultimately have "attached fh t = {}" by (auto simp: attached_def split: if_splits)
  moreover have "vport_vhost_find cfg t (rm_name s) = Some v" using Some vhost_find_names [of t "rm_vports s" cfg "rm_name s"] t(1) by simp
  ultimately show ?thesis using assms(1,3) t(2) by (simp add: removal_inv_def thread_inv_def name_inv_def)
qed

text \<open>The steps of the loops and of the cores.\<close>

lemma inv_core:
  assumes "removal_inv cfg n fh s" "c < n" "h \<longrightarrow> attached fh (rm_vports s) \<noteq> {}"
    and "f \<noteq> dev_removal_flag s c \<longrightarrow> rm_core s c = TOP \<and> f = ACK_DEV_REMOVAL" "x = TOP \<or> x = TURN h"
  shows "removal_inv cfg n fh (s\<lparr>dev_removal_flag := (dev_removal_flag s)(c := f), rm_core := (rm_core s)(c := x)\<rparr>)"
proof -
  let ?s = "s\<lparr>dev_removal_flag := (dev_removal_flag s)(c := f), rm_core := (rm_core s)(c := x)\<rparr>"
  have u: "in_use n fh s" if "in_use n fh ?s" using that assms(2,3,5) by (auto simp: in_use_def split: if_splits)
  have q: "quiet ?s d" if "quiet s d" "attached fh (rm_vports s) = {}" for d
    using that assms(3-5) by (auto simp: quiet_def)
  have f: "dev_removal_flag ?s d = ACK_DEV_REMOVAL" if "dev_removal_flag s d = ACK_DEV_REMOVAL" for d using that assms(4) by auto
  have "thread_inv n fh ?s"
  proof (cases "rm_thread s")
    case IDLE
    then show ?thesis using assms(1) u by (auto simp: removal_inv_def thread_inv_def)
  next
    case (REQUESTING k)
    then show ?thesis using assms(1) q by (simp add: removal_inv_def thread_inv_def)
  next
    case (WAITING k)
    then show ?thesis using assms(1) q f by (simp add: removal_inv_def thread_inv_def)
  qed
  moreover have "name_inv cfg n fh ?s" using assms(1) u by (auto simp: removal_inv_def name_inv_def split: option.splits)
  ultimately show ?thesis using assms(1) by (simp add: removal_inv_def)
qed

lemma in_use_frame [simp]:
  "in_use n fh (s\<lparr>dev_removal_flag := g\<rparr>) = in_use n fh s" "in_use n fh (s\<lparr>rm_thread := x\<rparr>) = in_use n fh s"
  "in_use n fh (s\<lparr>rm_running := b\<rparr>) = in_use n fh s" "in_use n fh (s\<lparr>rm_mapped := b\<rparr>) = in_use n fh s"
  by (simp_all add: in_use_def)

lemma name_inv_frame [simp]:
  "name_inv cfg n fh (s\<lparr>dev_removal_flag := g\<rparr>) = name_inv cfg n fh s" "name_inv cfg n fh (s\<lparr>rm_thread := x\<rparr>) = name_inv cfg n fh s"
  "name_inv cfg n fh (s\<lparr>rm_running := b\<rparr>) = name_inv cfg n fh s" "name_inv cfg n fh (s\<lparr>rm_mapped := b\<rparr>) = name_inv cfg n fh s"
  by (simp_all add: name_inv_def split: option.split)

lemma removal_step_inv:
  assumes "removal_step cfg n fh s a s'" "careful n fh s a" "removal_inv cfg n fh s"
  shows "removal_inv cfg n fh s'"
  using assms
proof (induction rule: removal_step.induct)
  case (rename s p name)
  then show ?case by (simp add: inv_rename)
next
  case (other_up fh' s name)
  then show ?case by (simp add: inv_ports attached_up vhost_up_names)
next
  case (other_down s name)
  then show ?case by (simp add: inv_ports attached_down vhost_down_names)
next
  case (attach s name r t)
  then show ?case by (intro inv_attach) simp_all
next
  case (down s r t)
  then show ?case by (intro inv_down) simp_all
next
  case (request s k)
  then show ?case by (auto simp: removal_inv_def thread_inv_def quiet_def less_Suc_eq)
next
  case (requested s)
  then show ?case by (simp add: removal_inv_def thread_inv_def quiet_def)
next
  case (acked s k)
  then show ?case by (auto simp: removal_inv_def thread_inv_def quiet_def less_Suc_eq)
next
  case (removed s)
  then show ?case by (auto simp: removal_inv_def thread_inv_def quiet_def in_use_def)
next
  case (ack c s)
  then show ?case by (intro inv_core [where h = False]) simp_all
next
  case (pass c s)
  show ?case using pass.hyps(1) pass.prems(2) inv_core [of cfg n fh s c False "dev_removal_flag s c" "TURN False"] by simp
next
  case (read c s p)
  then have "attached fh (rm_vports s) \<noteq> {}" by (auto simp: attached_def)
  then show ?case using inv_core [of cfg n fh s c True "dev_removal_flag s c" "TURN True"] read by simp
next
  case (release c s h)
  then show ?case using inv_core [of cfg n fh s c False "dev_removal_flag s c" "TURN False"] by simp
next
  case (turn_end c s)
  then show ?case using inv_core [of cfg n fh s c False "dev_removal_flag s c" TOP] by simp
qed (auto simp: removal_inv_def thread_inv_def quiet_def split: remover.splits)

section \<open>A device in use\<close>

text \<open>From the start, a device is attached to the port with its name, and a core reads the pointer.\<close>

lemma use_reach:
  assumes "0 < n" "\<forall>p. vi_dev (t p) = None" "vport_vhost_find cfg t name = Some v"
  shows "\<exists>s. (\<lambda>s s'. \<exists>a. careful n fh s a \<and> removal_step cfg n fh s a s')\<^sup>*\<^sup>* (removal_init t) s \<and> rm_thread s = IDLE \<and> rm_running s \<and>
    rm_name s = name \<and> rm_vports s = t(VHOST0 + v := (t (VHOST0 + v))\<lparr>vi_dev := Some fh\<rparr>) \<and> rm_core s 0 = TURN True"
proof -
  define R where "R = (\<lambda>s s'. \<exists>a. careful n fh s a \<and> removal_step cfg n fh s a s')"
  let ?t = "t(VHOST0 + v := (t (VHOST0 + v))\<lparr>vi_dev := Some fh\<rparr>)"
  define s1 where "s1 = (removal_init t)\<lparr>rm_mapped := True\<rparr>"
  define s2 where "s2 = s1\<lparr>rm_name := name, rm_vports := ?t, rm_running := True\<rparr>"
  define s3 where "s3 = s2\<lparr>rm_core := (rm_core s2)(0 := TURN False)\<rparr>"
  define s4 where "s4 = s3\<lparr>rm_core := (rm_core s3)(0 := TURN True)\<rparr>"
  have i: "rm_thread (removal_init t) = IDLE" "\<not> rm_running (removal_init t)" "rm_vports (removal_init t) = t" "rm_core (removal_init t) 0 = TOP"
    "dev_removal_flag (removal_init t) 0 = ACK_DEV_REMOVAL" by (simp_all add: removal_init_def)
  have step: "R s s'" if "removal_step cfg n fh s OTHER s'" for s s' using that unfolding R_def by (intro exI [of _ OTHER]) simp
  have "R (removal_init t) s1" unfolding s1_def by (intro step mmap i)
  moreover have "R s1 s2" using attach [of s1 cfg fh name 0 ?t n] i assms(3) by (intro step) (simp add: s1_def s2_def vport_vhost_up_def)
  moreover have "R s2 s3" unfolding s3_def using assms(1) i by (intro step pass) (simp_all add: s1_def s2_def)
  moreover have "R s3 s4" unfolding s4_def using assms(1) by (intro step read [where p = "VHOST0 + v"]) (simp_all add: s2_def s3_def)
  ultimately have "R\<^sup>*\<^sup>* (removal_init t) s4" by (meson converse_rtranclp_into_rtranclp r_into_rtranclp)
  then show ?thesis unfolding R_def using i(1) by (intro exI [of _ s4]) (simp add: s1_def s2_def s3_def s4_def)
qed

section \<open>Properties\<close>

text \<open>C15: The removal of a vhost device is safe, in whatever order the steps of the thread and of the cores are taken, as long as no port
  is renamed while a port has the pointer to the device or a core holds it, and the memory of the device is not unmapped while it runs
  (by a new memory table or a reset of the owner): whenever the device does not run or its memory is unmapped, no core holds a pointer
  to the device and no port has one.\<close>

theorem removal_safe:
  assumes "(\<lambda>s s'. \<exists>a. careful n fh s a \<and> removal_step cfg n fh s a s')\<^sup>*\<^sup>* (removal_init t) s" "\<forall>p. vi_dev (t p) = None"
    and "\<not> rm_running s \<or> \<not> rm_mapped s"
  shows "(\<forall>c < n. rm_core s c \<noteq> TURN True) \<and> (\<forall>p. vi_dev (rm_vports s p) \<noteq> Some fh)"
proof -
  have "attached fh t = {}" using assms(2) by (simp add: attached_def)
  with assms(1) have "removal_inv cfg n fh s" by (induction rule: rtranclp_induct) (auto intro: removal_init_inv removal_step_inv)
  then show ?thesis using assms(3) by (auto simp: removal_inv_def thread_inv_def in_use_def attached_def split: remover.splits)
qed

text \<open>C29: Both conditions are needed. When the port of a running device is renamed, the removal finds no port with the name of the device
  and returns without asking the cores: the memory is unmapped while a core holds the pointer and the port still has it. And a new
  memory table for a running device unmaps the memory that a core is using.\<close>

theorem removal_unsafe:
  assumes "0 < n" "\<forall>p. vi_dev (t p) = None" "vport_vhost_find cfg t name = Some v"
    and "vport_vhost_find cfg (vport_set_name (VHOST0 + v) name' t) name = None"
  shows "(\<exists>s. (\<lambda>s s'. \<exists>a. (a = RENAME \<or> careful n fh s a) \<and> removal_step cfg n fh s a s')\<^sup>*\<^sup>* (removal_init t) s \<and>
      \<not> rm_mapped s \<and> rm_core s 0 = TURN True \<and> vi_dev (rm_vports s (VHOST0 + v)) = Some fh) \<and>
    (\<exists>s. (\<lambda>s s'. \<exists>a. (a = UNMAP \<or> careful n fh s a) \<and> removal_step cfg n fh s a s')\<^sup>*\<^sup>* (removal_init t) s \<and>
      \<not> rm_mapped s \<and> rm_core s 0 = TURN True)"
proof -
  define R where "R = (\<lambda>x s s'. \<exists>a. (a = x \<or> careful n fh s a) \<and> removal_step cfg n fh s a s')"
  obtain s where s: "(\<lambda>s s'. \<exists>a. careful n fh s a \<and> removal_step cfg n fh s a s')\<^sup>*\<^sup>* (removal_init t) s" "rm_thread s = IDLE" "rm_running s"
    "rm_name s = name" "rm_vports s = t(VHOST0 + v := (t (VHOST0 + v))\<lparr>vi_dev := Some fh\<rparr>)" "rm_core s 0 = TURN True"
    using use_reach [OF assms(1-3)] by blast
  have reach: "(R x)\<^sup>*\<^sup>* (removal_init t) s" for x unfolding R_def by (rule rtranclp_mono [THEN predicate2D, OF _ s(1)]) blast
  let ?t = "vport_set_name (VHOST0 + v) name' (rm_vports s)"
  define s1 where "s1 = s\<lparr>rm_vports := ?t\<rparr>"
  define s2 where "s2 = s1\<lparr>rm_running := False\<rparr>"
  define s3 where "s3 = s2\<lparr>rm_mapped := False\<rparr>"
  have "vport_vhost_find cfg ?t name = None"
    using assms(4) vhost_find_names [of ?t "vport_set_name (VHOST0 + v) name' t" cfg name] s(5) by (simp add: vport_set_name_def vport_exists_def)
  then have "removal_step cfg n fh s1 OTHER s2" using down [of s1 cfg "-1" ?t n fh] s(2-4) by (simp add: vport_vhost_down_def s1_def s2_def)
  then have "R RENAME s1 s2" unfolding R_def by (intro exI [of _ OTHER]) simp
  moreover have "R RENAME s s1" unfolding R_def s1_def by (intro exI [of _ RENAME]) (simp add: rename)
  moreover have "R RENAME s2 s3" unfolding R_def using munmap [of s2 cfg n fh] s(2) by (intro exI [of _ UNMAP]) (simp add: s1_def s2_def s3_def)
  ultimately have "(R RENAME)\<^sup>*\<^sup>* (removal_init t) s3" using reach [of RENAME] by (meson rtranclp.rtrancl_into_rtrancl)
  moreover have "\<not> rm_mapped s3 \<and> rm_core s3 0 = TURN True \<and> vi_dev (rm_vports s3 (VHOST0 + v)) = Some fh"
    using s(5,6) by (simp add: vport_set_name_def s1_def s2_def s3_def)
  moreover have "R UNMAP s (s\<lparr>rm_mapped := False\<rparr>)" unfolding R_def using munmap [of s cfg n fh] s(2) by (intro exI [of _ UNMAP]) simp
  then have "(R UNMAP)\<^sup>*\<^sup>* (removal_init t) (s\<lparr>rm_mapped := False\<rparr>)" using reach [of UNMAP] by (meson rtranclp.rtrancl_into_rtrancl)
  moreover have "\<not> rm_mapped (s\<lparr>rm_mapped := False\<rparr>) \<and> rm_core (s\<lparr>rm_mapped := False\<rparr>) 0 = TURN True" using s(6) by simp
  ultimately show ?thesis unfolding R_def by blast
qed

section \<open>Instances\<close>

text \<open>Two vhost ports, one with the name of the device; one core, which is in a turn and holds the pointer when the removal begins.\<close>

definition removal_ports :: vport_table where
  "removal_ports p = zero_vport\<lparr>vi_type := VPORT_TYPE_VHOST, vi_name := if p = VHOST0 then ''tap0'' else ''tap1''\<rparr>"

lemma removal_ports_find:
  "\<forall>p. vi_dev (removal_ports p) = None" "vport_vhost_find example_cfg removal_ports ''tap0'' = Some 0"
  "vport_vhost_find example_cfg (vport_set_name (VHOST0 + 0) ''tap2'' removal_ports) ''tap0'' = None"
  by (simp_all add: removal_ports_def zero_vport_def vport_vhost_find_def example_cfg_def vhost_name_matches_def strncmp_eq_def find_from_def
      upt_rec vport_set_name_def vport_exists_def VHOST0_def MAX_VPORTS_def VPORT_INFO_NAMESZ_def)

theorem removal_unsafe_witness:
  "\<exists>s. (\<lambda>s s'. \<exists>a. (a = RENAME \<or> careful 1 7 s a) \<and> removal_step example_cfg 1 7 s a s')\<^sup>*\<^sup>* (removal_init removal_ports) s \<and>
     \<not> rm_mapped s \<and> rm_core s 0 = TURN True"
  using removal_unsafe [OF _ removal_ports_find, of 1 7] by auto

text \<open>The removal of that device, to its end.\<close>

definition removed_state :: "removal \<Rightarrow> bool \<Rightarrow> removal_flag \<Rightarrow> remover \<Rightarrow> core \<Rightarrow> removal" where
  "removed_state s b f x c = \<lparr>rm_vports = rm_vports s, rm_name = rm_name s, rm_running = b, rm_mapped = rm_mapped s,
     dev_removal_flag = (dev_removal_flag s)(0 := f), rm_thread = x, rm_core = (rm_core s)(0 := c)\<rparr>"

lemma removed_steps:
  "removal_step cfg 1 fh (removed_state s b f (REQUESTING 0) c) OTHER (removed_state s b REQUEST_DEV_REMOVAL (REQUESTING 1) c)"
  "removal_step cfg 1 fh (removed_state s b f (REQUESTING 1) c) OTHER (removed_state s b f (WAITING 0) c)"
  "removal_step cfg 1 fh (removed_state s b f x (TURN h)) OTHER (removed_state s b f x (TURN False))"
  "removal_step cfg 1 fh (removed_state s b f x (TURN False)) OTHER (removed_state s b f x TOP)"
  "removal_step cfg 1 fh (removed_state s b REQUEST_DEV_REMOVAL x TOP) OTHER (removed_state s b ACK_DEV_REMOVAL x (TURN False))"
  "removal_step cfg 1 fh (removed_state s b ACK_DEV_REMOVAL (WAITING 0) c) OTHER (removed_state s b ACK_DEV_REMOVAL (WAITING 1) c)"
  "removal_step cfg 1 fh (removed_state s b f (WAITING 1) c) OTHER (removed_state s False f IDLE c)"
  using request [of "removed_state s b f (REQUESTING 0) c" 0 1 cfg fh] requested [of "removed_state s b f (REQUESTING 1) c" 1 cfg fh]
    release [of 0 1 "removed_state s b f x (TURN h)" h cfg fh] turn_end [of 0 1 "removed_state s b f x (TURN False)" cfg fh]
    ack [of 0 1 "removed_state s b REQUEST_DEV_REMOVAL x TOP" cfg fh] acked [of "removed_state s b ACK_DEV_REMOVAL (WAITING 0) c" 0 1 cfg fh]
    removed [of "removed_state s b f (WAITING 1) c" 1 cfg fh]
  by (simp_all add: removed_state_def)

theorem removal_safe_witness:
  "\<exists>s. (\<lambda>s s'. \<exists>a. careful 1 7 s a \<and> removal_step example_cfg 1 7 s a s')\<^sup>*\<^sup>* (removal_init removal_ports) s \<and>
     rm_name s = ''tap0'' \<and> \<not> rm_running s \<and> rm_thread s = IDLE \<and> rm_core s 0 \<noteq> TURN True \<and> (\<forall>p. vi_dev (rm_vports s p) \<noteq> Some 7)"
proof -
  define R where "R = (\<lambda>s s'. \<exists>a. careful 1 7 s a \<and> removal_step example_cfg 1 7 s a s')"
  have R: "R s s'" if "removal_step example_cfg 1 7 s OTHER s'" for s s' using that unfolding R_def by (intro exI [of _ OTHER]) simp
  note w = removal_safe [of 1 7 example_cfg removal_ports, folded R_def, OF _ removal_ports_find(1)]
  obtain s where s: "R\<^sup>*\<^sup>* (removal_init removal_ports) s" "rm_thread s = IDLE" "rm_running s" "rm_name s = ''tap0''"
    "rm_vports s = removal_ports(VHOST0 := (removal_ports VHOST0)\<lparr>vi_dev := Some 7\<rparr>)" "rm_core s 0 = TURN True"
    using use_reach [OF _ removal_ports_find(1,2), of 1 7] unfolding R_def by auto
  define u where "u = s\<lparr>rm_vports := snd (vport_vhost_down example_cfg ''tap0'' (rm_vports s))\<rparr>"
  have "vport_vhost_find example_cfg (rm_vports s) ''tap0'' = Some 0"
    using removal_ports_find(2) vhost_find_names [of "rm_vports s" removal_ports example_cfg "''tap0''"] by (simp add: s(5))
  then have "\<not> fst (vport_vhost_down example_cfg ''tap0'' (rm_vports s)) < 0" by (simp add: vport_vhost_down_def)
  moreover have "removed_state u True (dev_removal_flag s 0) (REQUESTING 0) (TURN True) = u\<lparr>rm_thread := REQUESTING 0\<rparr>"
    using s(3,6) by (simp add: removed_state_def u_def fun_upd_idem)
  ultimately have "R s (removed_state u True (dev_removal_flag s 0) (REQUESTING 0) (TURN True))"
    using down [OF s(2,3) prod.collapse [symmetric], of example_cfg 1 7] s(4) by (intro R) (simp add: u_def)
  from rtranclp.rtrancl_into_rtrancl [OF s(1) this]
  have "R\<^sup>*\<^sup>* (removal_init removal_ports) (removed_state u False ACK_DEV_REMOVAL IDLE (TURN False))"
    using removed_steps [THEN R] by (meson rtranclp.rtrancl_into_rtrancl)
  then show ?thesis using w [of "removed_state u False ACK_DEV_REMOVAL IDLE (TURN False)"] s(4) unfolding R_def [symmetric]
    by (intro exI [of _ "removed_state u False ACK_DEV_REMOVAL IDLE (TURN False)"]) (simp add: removed_state_def u_def)
qed

end
