(* ===== verification/Spec2Isabelle.thy ===== *)
theory Spec2Isabelle
  imports Crc32c DpifServe Switch DevRemoval
begin

text \<open>
  Verification of the Intel DPDK vSwitch, a fork of Open vSwitch 2.0 whose datapath is a user-space program on the DPDK
  library.

  \<^bold>\<open>The program.\<close> The switch (\<open>datapath/dpdk\<close>) runs one loop per core (\<open>main.c\<close>). A core receives a burst of packets from a
  port (\<open>vport.c\<close>), extracts the key of each packet, looks it up in the flow table (\<open>flow.c\<close>) and executes the actions of
  the flow (\<open>action.c\<close>), which edit the headers in place (\<open>lib/packets.c\<close> on an \<open>ofpbuf\<close> laid over the packet) and put the
  packet into the cache of a port. A packet without a flow goes to the daemon. At the end of a turn the caches are flushed to
  the rings of clients, to the physical devices and to the virtqueues of guests. The first core also serves the requests of
  the daemon (\<open>datapath.c\<close>). QEMU configures vhost devices through a character device (\<open>virtio-net.c\<close>, \<open>vhost.c\<close>) while the
  cores run. The daemon describes flows by Netlink attributes (\<open>lib/netlink.c\<close>, \<open>lib/odp-util.c\<close>); its interface to the
  datapath (\<open>lib/dpif-dpdk.c\<close>) turns them into messages and exchanges these over rings in shared memory (\<open>lib/dpdk-link.c\<close>).

  \<^bold>\<open>The theories\<close>, with the code they translate; names of functions are kept.

  \<^item> \<open>Prelude\<close>: integers of C, the little-endian layout of fields, loads and stores in a buffer.
  \<^item> \<open>Csum\<close> (\<open>lib/csum.c\<close>): \<open>csum\<close> is the checksum of RFC 1071, and patching it for a changed field keeps it valid.
  \<^item> \<open>Crc32c\<close> (\<open>lib/crc32c.c\<close>): the table-driven CRC is the bit-serial one.
  \<^item> \<open>Ofpbuf\<close> (\<open>lib/ofpbuf.c\<close>): buffers with head- and tailroom; the interface \<open>byte_buffer\<close> gives the contents after each
    operation. Hexadecimal input reads back what was printed.
  \<^item> \<open>Packets\<close>, \<open>PacketSet\<close> (\<open>lib/packets.c\<close>): pushing and popping of VLAN tags and MPLS labels are inverse; setting
    addresses, type of service, TTL and ports changes these fields only and keeps the checksums of IP, TCP and UDP valid.
  \<^item> \<open>Stats\<close> (\<open>stats.c\<close>): counters per core; the interface \<open>counter\<close>.
  \<^item> \<open>Vport\<close> (\<open>vport.c\<close>): the table of ports; the interface \<open>port_update\<close>; names and numbers of ports.
  \<^item> \<open>FlowKey\<close> (\<open>flow.h\<close>, \<open>action.h\<close>, \<open>flow.c\<close>): extraction of a key gives the fields of the packet.
  \<^item> \<open>FlowTable\<close> (\<open>flow.c\<close>): the table implements a map from keys to flows; the interface \<open>flow_store\<close>.
  \<^item> \<open>Virtio\<close> (\<open>virtio-net.c\<close>, \<open>vhost.c\<close>): requests of QEMU; which of them keep the list of devices sorted and counted, starting and
    stopping a device, and the translation of addresses of the guest into its memory file.
  \<^item> \<open>Dpdk\<close>: the state of the packet path and the library as a parameter.
  \<^item> \<open>VhostRing\<close> (\<open>vport.c\<close>): bursts over the virtqueues deliver to the guest and receive from it exactly the packets.
  \<^item> \<open>VportIO\<close> (\<open>vport.c\<close>): sending, receiving and flushing; bounds of the caches and accounting for every packet.
  \<^item> \<open>Action\<close> (\<open>action.c\<close>, \<open>ofpbuf_helper.c\<close>): every action and the execution of a list of actions.
  \<^item> \<open>Datapath\<close> (\<open>datapath.c\<close>): the requests of the daemon and their replies.
  \<^item> \<open>Switch\<close> (\<open>main.c\<close>, \<open>flow.c\<close>): the turns of the cores, composed from all of the above.
  \<^item> \<open>DevRemoval\<close> (\<open>vhost.c\<close>, \<open>main.c\<close>): the handshake by which a device is removed, as a step relation over all interleavings: when
    it is safe, and that renamed ports and new memory tables make it unsafe.
  \<^item> \<open>Netlink\<close> (\<open>lib/netlink.c\<close>): messages and attributes; what is written is found, and parsing stays in the message.
  \<^item> \<open>OdpKey\<close> (\<open>lib/odp-util.c\<close>, \<open>lib/flow.h\<close>): flows as attributes; round trip, and safety for any bytes.
  \<^item> \<open>DpifDpdk\<close> (\<open>lib/dpif-dpdk.c\<close>): keys and actions between attributes and messages; what upcalls and requests keep of them.
  \<^item> \<open>DpdkLink\<close> (\<open>lib/dpdk-link.c\<close>): the daemon's end of the rings; an exchange of a request and its reply with the datapath
    ends and leaves no message or mbuf under way.
  \<^item> \<open>DpifOps\<close> (\<open>lib/dpif-dpdk.c\<close>): the operations on ports, flows and packets over the link; messages for flows have the shape
    of their structures.
  \<^item> \<open>CLayout\<close> (\<open>lib/dpif-dpdk.h\<close>, \<open>ovdk_datapath_messages.h\<close>, \<open>action.h\<close>, \<open>flow.h\<close>, \<open>vport.h\<close>): the structures that the two programs
    exchange, as each of them declares them, and their layout; the two agree member by member.
  \<^item> \<open>MsgLayout\<close>: an encoding of messages as bytes in that layout, for instances of the link; it models no code.
  \<^item> \<open>DpifServe\<close>: daemon, link and datapath composed. Operations on flows act on the map of flows that \<open>FlowTable\<close>
    implements, a dump gives it to the client, actions come back as they were put, and ports that were added are found.

  \<^bold>\<open>Conventions.\<close> A structure is a record, a union or an enumeration a datatype, an integer of C a word of its width. Memory
  is a list of bytes, a pointer an offset into it. The result \<open>None\<close> of an operation is undefined behaviour of C: an access out
  of its buffer, a null pointer, a failed assertion. Theorems that an operation is safe say that the result is not \<open>None\<close>.
  The contents of fresh memory are a parameter (\<open>junk\<close>). The header of an mbuf and its bytes lie in the state of the datapath,
  so a received packet has the header and bytes the state gives it.

  The DPDK library, the hash table of the flow table and the layout of messages in memory are not part of the sources: they
  are parameters, and what the code relies on are the predicates \<open>dpdk_ok\<close> (accounting for packets), \<open>fifo_ok\<close> (rings are
  queues), \<open>rte_hash_ok\<close>, \<open>layout_ok\<close>, and \<open>flow_wire\<close> and \<open>vport_wire\<close> (messages are read back; the encoding of \<open>MsgLayout\<close> has
  this property, and \<open>CLayout\<close> shows that both programs have the same structures); each theorem that assumes one has a witness with a concrete instance.

  The theorems on the path of a packet share an invariant: physical ports are numbered without gaps (\<open>env_ok\<close>; with a gap
  \<open>send_to_port\<close> writes outside of the caches, which \<open>VportIO\<close> shows), the table of ports is well-formed, no cache is full, the data of
  every mbuf lies in its buffer (\<open>mbufs_ok\<close>), and the rings of every attached guest are consistent and its buffers mapped with room
  for a packet (\<open>guests_ready\<close>); how many buffers it offers is left open. Packets are counted by \<open>owned\<close>: those with the library and
  those in caches. The only loss is that of a packet whose actions have no output (\<open>leaks\<close>).

  Loops that may not end are partial functions or relations; the loop that refills the ring of mbufs has a theorem that
  it ends. In the loops in which the daemon waits for a ring the datapath takes a turn between two attempts; the theorems of
  \<open>DpifServe\<close> say that the operations return. A dump is followed for one call more than the flow table has places, which is
  enough to reach its end. All other recursions are total, without fuel.

  \<^bold>\<open>Not modelled.\<close> Cores interleave only in \<open>DevRemoval\<close>; elsewhere one core runs at a time, without its memory
  model. The daemon has one thread, which waits for its reply before it sends again. Log messages, the time that a wait takes, and the creation of rings, memory zones and devices at the start are left
  out, because they are calls into the library or the system. The kernel datapath, the OpenFlow pipeline, the database,
  the tools, the guests and QEMU are other programs; the manifest lists them with the reasons.
\<close>

end
